(* ===== verification/Prelude.thy ===== *)
theory Prelude
  imports Main "HOL-Library.Word"
begin

text \<open>
  Vocabulary shared by the component theories: the machine integers and byte strings of the
  C sources (an \<open>int\<close> is a word of 32 bits that \<open>sint\<close> reads), the sysexits codes that the tools return, C-string helpers, and the generic
  lemmas on lists and words that the component proofs use.
\<close>

unbundle bit_operations_syntax

named_theorems kt_arith \<open>size and offset arithmetic shared by the archive theories\<close>

section \<open>Machine types\<close>

type_synonym byte = "8 word"
type_synonym u32 = "32 word"
type_synonym i32 = "32 word"
type_synonym u64 = "64 word"
type_synonym bytes = "byte list"

text \<open>A C array of a known size is a function from indices; reads and writes out of its
  bounds are ruled out by the index bounds proved beside each user.\<close>

type_synonym 'a carray = "nat \<Rightarrow> 'a"

section \<open>Exit codes\<close>

text \<open>The sysexits values that the sources return as \<open>ExitStatus\<close>.\<close>

datatype exit_status =
  EX_OK | EX_USAGE | EX_NOINPUT | EX_SOFTWARE | EX_OSERR | EX_OSFILE | EX_NOPERM

section \<open>Generic lemmas\<close>

lemma nat_less_numeral_induct:
  assumes "P (0::nat)" and "\<And>k. k < n \<Longrightarrow> P k \<Longrightarrow> P (Suc k)"
  shows "P n"
proof -
  have "k \<le> n \<Longrightarrow> P k" for k
    using assms by (induction k) auto
  then show ?thesis by simp
qed

lemma unat_of_nat_small:
  "n < 2 ^ LENGTH('a) \<Longrightarrow> unat (of_nat n :: 'a::len word) = n"
  by (simp add: unat_of_nat take_bit_nat_eq_self)

lemma unat_byte_less: "unat (b :: byte) < 256"
  using unsigned_less [of b, where 'a = nat] by simp

lemma unat_ucast_byte [simp]: "unat (ucast (b :: byte) :: u32) = unat b"
  using unat_byte_less [of b] by (simp add: unsigned_ucast_eq take_bit_nat_eq_self)

lemma sint_of_nat_i32 [simp]:
  "n < 2 ^ 31 \<Longrightarrow> nat (sint (of_nat n :: 32 word)) = n"
  by (simp add: signed_of_nat signed_take_bit_int_eq_self)

text \<open>A counter of type \<open>int\<close> goes up by one, or wraps around.\<close>

lemma sint_inc: "sint (x + 1 :: i32) = (if sint x = 2 ^ 31 - 1 then - (2 ^ 31) else sint x + 1)"
proof -
  have "sint x \<ge> - (2 ^ 31)" "sint x < 2 ^ 31" using sint_range_size [of x] by (simp_all add: word_size)
  moreover have "sint (x + 1) = (sint x + 1 + 2 ^ 31) mod 2 ^ 32 - 2 ^ 31"
    by (simp add: sint_word_ariths signed_take_bit_eq_take_bit_shift take_bit_eq_mod)
  ultimately show ?thesis by (auto simp: mod_pos_pos_trivial)
qed

lemma sint_inc_le: "sint (x + 1 :: i32) \<le> sint x + 1"
  using sint_range_size [of x] by (simp add: sint_inc word_size)

text \<open>Joining two half words: no bit is set in both, so OR is addition.\<close>

lemma push_bit_or_eq_plus:
  fixes h l :: "'a::len word"
  assumes "unat l < 2 ^ n"
  shows "push_bit n h OR l = push_bit n h + l"
proof -
  have "take_bit n l = l"
    using assms by (simp add: word_eq_iff_unsigned [where 'a = nat] unsigned_take_bit_eq take_bit_nat_eq_self)
  then have high: "\<not> bit l k" if "n \<le> k" for k
    using that by (metis bit_take_bit_iff leD)
  have "push_bit n h AND l = 0"
    by (rule bit_word_eqI) (auto simp: bit_simps dest: high)
  then show ?thesis by (simp add: disjunctive_add_eq_or)
qed

lemma unat_add_small:
  fixes a b :: "'a::len word"
  shows "unat a + unat b < 2 ^ LENGTH('a) \<Longrightarrow> unat (a + b) = unat a + unat b"
  by (simp add: unat_word_ariths)

lemma nth_append_left [simp]: "i < length xs \<Longrightarrow> (xs @ ys) ! i = xs ! i"
  by (simp add: nth_append)

lemma takeWhile_until: "c \<notin> set xs \<Longrightarrow> takeWhile (\<lambda>x. x \<noteq> c) (xs @ c # ys) = xs"
  by (induction xs) auto

lemma takeWhile_none: "c \<notin> set xs \<Longrightarrow> takeWhile (\<lambda>x. x \<noteq> c) xs = xs"
  by (induction xs) auto

end
