(* ===== verification/Lzss.thy ===== *)
theory Lzss
  imports Prelude
begin

text \<open>
  src/compression.c: the LZSS coder. The decoder keeps the code's loop: one flag bit per unit,
  literals and (position, length) pairs over a ring buffer of 4096 bytes. The encoder keeps
  the code's 256 index-threaded search trees, its look-ahead and its packing of eight units
  behind one flag byte. The loops over the trees run on fuel; LzssTree proves that the fuel
  never runs out.
\<close>

section \<open>LZSS: the ring buffer\<close>

text \<open>The constants of the coder. \<open>NIL\<close> is the array index that stands for no node.\<close>

abbreviation (input) lz_N :: nat where "lz_N \<equiv> 4096"
abbreviation (input) lz_F :: nat where "lz_F \<equiv> 18"
abbreviation (input) THRESHOLD :: nat where "THRESHOLD \<equiv> 2"
abbreviation (input) NIL :: nat where "NIL \<equiv> 4096"

text \<open>Positions are reduced with a mask, as in \<open>r &= (N - 1)\<close>.\<close>

definition ring :: "nat \<Rightarrow> nat" where
  "ring x = x AND (lz_N - 1)"

lemma ring_mod: "ring x = x mod 4096"
  using take_bit_eq_mask [of 12 x] by (simp add: ring_def take_bit_eq_mod mask_eq_exp_minus_1)

section \<open>The decoder\<close>

text \<open>
  The locals of \<open>decompress_lzss\<close>: the bytes written so far (\<open>dst - dststart\<close> is their
  number), the ring buffer, the write position and the flag word.
\<close>

record decoder =
  d_out :: bytes
  d_buf :: "byte carray"
  d_r :: nat
  d_flags :: u32

text \<open>\<open>if (dst < dstend) *dst++ = c; else break; text_buf[r++] = c; r &= (N - 1);\<close>\<close>

definition d_put :: "nat \<Rightarrow> byte \<Rightarrow> decoder \<Rightarrow> decoder option" where
  "d_put dstlen c d =
     (if length (d_out d) < dstlen
      then Some (d\<lparr>d_out := d_out d @ [c], d_buf := (d_buf d)(d_r d := c), d_r := ring (d_r d + 1)\<rparr>)
      else None)"

text \<open>The copy loop of a match, from counter \<open>k\<close> with \<open>n\<close> iterations left. Its \<open>break\<close>
  leaves this loop only.\<close>

fun lz_copy :: "nat \<Rightarrow> nat \<Rightarrow> nat \<Rightarrow> nat \<Rightarrow> decoder \<Rightarrow> decoder" where
  "lz_copy dstlen i k 0 d = d"
| "lz_copy dstlen i k (Suc n) d =
     (case d_put dstlen (d_buf d (ring (i + k))) d of
        None \<Rightarrow> d
      | Some d' \<Rightarrow> lz_copy dstlen i (k + 1) n d')"

text \<open>The head of the main loop: shift the flag word, and read a new flag byte when the
  eight bits of the last one are used up.\<close>

definition lz_next_flags :: "u32 \<Rightarrow> bytes \<Rightarrow> (u32 \<times> bytes) option" where
  "lz_next_flags flags src =
     (let flags = drop_bit 1 flags in
      if flags AND 0x100 = 0 then
        (case src of [] \<Rightarrow> None | c # src' \<Rightarrow> Some (ucast c OR 0xFF00, src'))
      else Some (flags, src))"

lemma lz_next_flags_length: "lz_next_flags f src = Some (f', src') \<Longrightarrow> length src' \<le> length src"
  by (auto simp: lz_next_flags_def Let_def split: if_splits list.splits)

text \<open>One iteration of the main loop: the new state, and the input that is left unless the
  iteration breaks out of the loop.\<close>

definition lz_unit :: "nat \<Rightarrow> bytes \<Rightarrow> decoder \<Rightarrow> decoder \<times> bytes option" where
  "lz_unit dstlen src d =
     (case lz_next_flags (d_flags d) src of
        None \<Rightarrow> (d, None)
      | Some (flags, src1) \<Rightarrow>
          (let d = d\<lparr>d_flags := flags\<rparr> in
           if flags AND 1 \<noteq> 0 then
             (case src1 of
                [] \<Rightarrow> (d, None)
              | c # src2 \<Rightarrow>
                  (case d_put dstlen c d of
                     None \<Rightarrow> (d, None)
                   | Some d' \<Rightarrow> (d', Some src2)))
           else
             (case src1 of
                [] \<Rightarrow> (d, None)
              | [_] \<Rightarrow> (d, None)
              | i # j # src2 \<Rightarrow>
                  (let i' = unat i OR push_bit 4 (unat j AND 0xF0);
                       j' = (unat j AND 0x0F) + THRESHOLD
                   in (lz_copy dstlen i' 0 (j' + 1) d, Some src2)))))"

lemma lz_unit_consumes: "lz_unit dstlen src d = (d', Some src') \<Longrightarrow> length src' < length src"
  by (auto simp: lz_unit_def Let_def split: option.splits list.splits if_splits
      dest!: lz_next_flags_length)

function lz_loop :: "nat \<Rightarrow> bytes \<Rightarrow> decoder \<Rightarrow> decoder" where
  "lz_loop dstlen src d =
     (case lz_unit dstlen src d of
        (d', None) \<Rightarrow> d'
      | (d', Some src') \<Rightarrow> lz_loop dstlen src' d')"
  by pat_completeness auto
termination
  by (relation "measure (\<lambda>(dstlen, src, d). length src)") (auto dest!: lz_unit_consumes [OF sym])

declare lz_loop.simps [simp del]

text \<open>
  \<open>decompress_lzss\<close>: the ring buffer starts with spaces at 0 to N - F - 1. Its last
  \<open>2 F - 1\<close> bytes are not initialised by the code; \<open>junk\<close> stands for what the stack held.
  The result is the bytes written; the C function returns their number.
\<close>

definition decompress_lzss :: "byte carray \<Rightarrow> nat \<Rightarrow> bytes \<Rightarrow> bytes" where
  "decompress_lzss junk dstlen src =
     d_out (lz_loop dstlen src
       \<lparr>d_out = [], d_buf = (\<lambda>i. if i < lz_N - lz_F then 0x20 else junk i),
        d_r = lz_N - lz_F, d_flags = 0\<rparr>)"

section \<open>The encoder's search trees\<close>

text \<open>\<open>struct encode_state\<close>: 256 binary search trees threaded through three index arrays,
  the ring buffer with its \<open>F - 1\<close> byte extension, and the last match.\<close>

record encode_state =
  lchild :: "nat carray"
  rchild :: "nat carray"
  parent :: "nat carray"
  text_buf :: "byte carray"
  match_position :: nat
  match_length :: nat

definition init_state :: encode_state where
  "init_state =
     \<lparr>lchild = (\<lambda>_. 0),
      rchild = (\<lambda>i. if lz_N + 1 \<le> i \<and> i \<le> lz_N + 256 then NIL else 0),
      parent = (\<lambda>i. if i < lz_N then NIL else 0),
      text_buf = (\<lambda>i. if i < lz_N - lz_F then 0x20 else 0),
      match_position = 0, match_length = 0\<rparr>"

text \<open>The comparison loop of \<open>insert_node\<close>, from index \<open>i\<close> with \<open>n\<close> iterations left:
  the index where it stops and the last difference.\<close>

fun match_scan :: "encode_state \<Rightarrow> nat \<Rightarrow> nat \<Rightarrow> nat \<Rightarrow> nat \<Rightarrow> int \<Rightarrow> nat \<times> int" where
  "match_scan sp r p i 0 cmp = (i, cmp)"
| "match_scan sp r p i (Suc n) cmp =
     (let cmp = int (unat (text_buf sp (r + i))) - int (unat (text_buf sp (p + i)))
      in if cmp \<noteq> 0 then (i, cmp) else match_scan sp r p (i + 1) n cmp)"

text \<open>The end of \<open>insert_node\<close>, after a match of full length: \<open>r\<close> takes the place of \<open>p\<close>.\<close>

definition replace_node :: "encode_state \<Rightarrow> nat \<Rightarrow> nat \<Rightarrow> encode_state" where
  "replace_node sp r p =
     (let sp = sp\<lparr>parent := (parent sp)(r := parent sp p)\<rparr>;
          sp = sp\<lparr>lchild := (lchild sp)(r := lchild sp p)\<rparr>;
          sp = sp\<lparr>rchild := (rchild sp)(r := rchild sp p)\<rparr>;
          sp = sp\<lparr>parent := (parent sp)(lchild sp p := r)\<rparr>;
          sp = sp\<lparr>parent := (parent sp)(rchild sp p := r)\<rparr>;
          sp = (if rchild sp (parent sp p) = p
                then sp\<lparr>rchild := (rchild sp)(parent sp p := r)\<rparr>
                else sp\<lparr>lchild := (lchild sp)(parent sp p := r)\<rparr>)
      in sp\<lparr>parent := (parent sp)(p := NIL)\<rparr>)"

text \<open>The walk of \<open>insert_node\<close> down the tree, on fuel.\<close>

fun insert_loop :: "nat \<Rightarrow> encode_state \<Rightarrow> nat \<Rightarrow> nat \<Rightarrow> int \<Rightarrow> encode_state option" where
  "insert_loop 0 sp r p cmp = None"
| "insert_loop (Suc fuel) sp r p cmp =
     (let c = (if cmp \<ge> 0 then rchild sp p else lchild sp p) in
      if c = NIL then
        (if cmp \<ge> 0
         then Some (sp\<lparr>rchild := (rchild sp)(p := r), parent := (parent sp)(r := p)\<rparr>)
         else Some (sp\<lparr>lchild := (lchild sp)(p := r), parent := (parent sp)(r := p)\<rparr>))
      else
        (let p = c;
             (i, cmp) = match_scan sp r p 1 (lz_F - 1) cmp in
         if i > match_length sp then
           (let sp = sp\<lparr>match_position := p, match_length := i\<rparr> in
            if i \<ge> lz_F then Some (replace_node sp r p)
            else insert_loop fuel sp r p cmp)
         else insert_loop fuel sp r p cmp))"

text \<open>A path in a tree visits each of the N nodes at most once, after the root.\<close>

definition tree_fuel :: nat where
  "tree_fuel = lz_N + 1"

definition insert_node :: "encode_state \<Rightarrow> nat \<Rightarrow> encode_state option" where
  "insert_node sp r =
     (let p = lz_N + 1 + unat (text_buf sp r);
          sp = sp\<lparr>rchild := (rchild sp)(r := NIL), lchild := (lchild sp)(r := NIL)\<rparr>;
          sp = sp\<lparr>match_length := 0\<rparr>
      in insert_loop tree_fuel sp r p 1)"

text \<open>\<open>do { q = sp->rchild[q]; } while (sp->rchild[q] != NIL);\<close>\<close>

fun rightmost :: "nat \<Rightarrow> encode_state \<Rightarrow> nat \<Rightarrow> nat option" where
  "rightmost 0 sp q = None"
| "rightmost (Suc fuel) sp q =
     (let q = rchild sp q in
      if rchild sp q \<noteq> NIL then rightmost fuel sp q else Some q)"

text \<open>The last lines of \<open>delete_node\<close>: \<open>q\<close> takes the place of \<open>p\<close> below \<open>p\<close>'s parent.\<close>

definition delete_link :: "encode_state \<Rightarrow> nat \<Rightarrow> nat \<Rightarrow> encode_state" where
  "delete_link sp p q =
     (let sp = sp\<lparr>parent := (parent sp)(q := parent sp p)\<rparr>;
          sp = (if rchild sp (parent sp p) = p
                then sp\<lparr>rchild := (rchild sp)(parent sp p := q)\<rparr>
                else sp\<lparr>lchild := (lchild sp)(parent sp p := q)\<rparr>)
      in sp\<lparr>parent := (parent sp)(p := NIL)\<rparr>)"

text \<open>The middle of \<open>delete_node\<close>, where \<open>p\<close> has two children and its left child has a
  right child: \<open>q\<close>, the largest node of the left subtree, is unhooked and gets the left
  subtree of \<open>p\<close>.\<close>

definition delete_unhook :: "encode_state \<Rightarrow> nat \<Rightarrow> nat \<Rightarrow> encode_state" where
  "delete_unhook sp p q =
     (let sp = sp\<lparr>rchild := (rchild sp)(parent sp q := lchild sp q)\<rparr>;
          sp = sp\<lparr>parent := (parent sp)(lchild sp q := parent sp q)\<rparr>;
          sp = sp\<lparr>lchild := (lchild sp)(q := lchild sp p)\<rparr>
      in sp\<lparr>parent := (parent sp)(lchild sp p := q)\<rparr>)"

definition delete_node :: "encode_state \<Rightarrow> nat \<Rightarrow> encode_state option" where
  "delete_node sp p =
     (if parent sp p = NIL then Some sp
      else if rchild sp p = NIL then Some (delete_link sp p (lchild sp p))
      else if lchild sp p = NIL then Some (delete_link sp p (rchild sp p))
      else
        (let q = lchild sp p in
         case (if rchild sp q \<noteq> NIL
               then map_option (\<lambda>q. (delete_unhook sp p q, q)) (rightmost tree_fuel sp q)
               else Some (sp, q)) of
           None \<Rightarrow> None
         | Some (sp, q) \<Rightarrow>
             (let sp = sp\<lparr>rchild := (rchild sp)(q := rchild sp p)\<rparr>;
                  sp = sp\<lparr>parent := (parent sp)(rchild sp p := q)\<rparr>
              in Some (delete_link sp p q))))"

section \<open>The encoder\<close>

text \<open>
  The locals of \<open>compress_lzss\<close>: the input that is left, the bytes written, the number of
  look-ahead bytes, the two ring positions, the pending code units (\<open>code_buf\<close> up to
  \<open>code_buf_ptr\<close>) and the mask of the next flag bit.
\<close>

record encoder =
  e_sp :: encode_state
  e_src :: bytes
  e_dst :: bytes
  e_len :: nat
  e_r :: nat
  e_s :: nat
  e_code :: bytes
  e_mask :: byte

text \<open>Writing \<open>code_buf\<close> out, byte by byte, as long as \<open>dst < dstend\<close>.\<close>

fun code_flush :: "nat \<Rightarrow> bytes \<Rightarrow> bytes \<Rightarrow> bytes option" where
  "code_flush dstlen dst [] = Some dst"
| "code_flush dstlen dst (b # bs) =
     (if length dst < dstlen then code_flush dstlen (dst @ [b]) bs else None)"

text \<open>The first half of the main loop: clip the match to the look-ahead and add one unit to
  the code buffer.\<close>

definition enc_unit :: "encoder \<Rightarrow> encoder" where
  "enc_unit e =
     (let sp = e_sp e;
          sp = (if match_length sp > e_len e then sp\<lparr>match_length := e_len e\<rparr> else sp) in
      if match_length sp \<le> THRESHOLD then
        e\<lparr>e_sp := sp\<lparr>match_length := 1\<rparr>,
          e_code := (e_code e)[0 := e_code e ! 0 OR e_mask e] @ [text_buf sp (e_r e)]\<rparr>
      else
        e\<lparr>e_sp := sp,
          e_code := e_code e @
            [of_nat (match_position sp),
             of_nat ((drop_bit 4 (match_position sp) AND 0xF0) OR (match_length sp - (THRESHOLD + 1)))]\<rparr>)"

text \<open>\<open>if ((mask <<= 1) == 0)\<close>: eight units are full, write them out and start afresh.\<close>

definition enc_shift :: "nat \<Rightarrow> encoder \<Rightarrow> encoder option" where
  "enc_shift dstlen e =
     (let mask = push_bit 1 (e_mask e) in
      if mask = 0 then
        (case code_flush dstlen (e_dst e) (e_code e) of
           None \<Rightarrow> None
         | Some dst \<Rightarrow> Some (e\<lparr>e_dst := dst, e_code := [0], e_mask := 1\<rparr>))
      else Some (e\<lparr>e_mask := mask\<rparr>))"

text \<open>One iteration of the loop that reads a byte: drop the oldest string, store the byte
  (and its copy past the end of the ring), advance, insert the new string.\<close>

definition enc_read :: "encoder \<Rightarrow> byte \<Rightarrow> bytes \<Rightarrow> encoder option" where
  "enc_read e c src =
     (case delete_node (e_sp e) (e_s e) of
        None \<Rightarrow> None
      | Some sp \<Rightarrow>
          (let sp = sp\<lparr>text_buf := (text_buf sp)(e_s e := c)\<rparr>;
               sp = (if e_s e < lz_F - 1 then sp\<lparr>text_buf := (text_buf sp)(e_s e + lz_N := c)\<rparr> else sp);
               s = ring (e_s e + 1);
               r = ring (e_r e + 1)
           in map_option (\<lambda>sp. e\<lparr>e_sp := sp, e_src := src, e_s := s, e_r := r\<rparr>) (insert_node sp r)))"

text \<open>One iteration of the loop after the end of the text: nothing is read, and a string is
  inserted only while the look-ahead is not empty.\<close>

definition enc_drain :: "encoder \<Rightarrow> encoder option" where
  "enc_drain e =
     (case delete_node (e_sp e) (e_s e) of
        None \<Rightarrow> None
      | Some sp \<Rightarrow>
          (let s = ring (e_s e + 1);
               r = ring (e_r e + 1);
               e = e\<lparr>e_sp := sp, e_s := s, e_r := r, e_len := e_len e - 1\<rparr>
           in if e_len e \<noteq> 0 then map_option (\<lambda>sp. e\<lparr>e_sp := sp\<rparr>) (insert_node sp r)
              else Some e))"

text \<open>The two loops that pass over the bytes of the unit just coded: read while there is
  input, drain afterwards.\<close>

fun enc_advance :: "nat \<Rightarrow> encoder \<Rightarrow> encoder option" where
  "enc_advance 0 e = Some e"
| "enc_advance (Suc n) e =
     (case (case e_src e of c # src \<Rightarrow> enc_read e c src | [] \<Rightarrow> enc_drain e) of
        None \<Rightarrow> None
      | Some e' \<Rightarrow> enc_advance n e')"

text \<open>The \<open>do ... while (len > 0)\<close> loop, on fuel: one unit, then its bytes.\<close>

fun enc_loop :: "nat \<Rightarrow> nat \<Rightarrow> encoder \<Rightarrow> encoder option" where
  "enc_loop 0 dstlen e = None"
| "enc_loop (Suc fuel) dstlen e =
     (let e = enc_unit e in
      case enc_shift dstlen e of
        None \<Rightarrow> None
      | Some e \<Rightarrow>
          (case enc_advance (match_length (e_sp e)) e of
             None \<Rightarrow> None
           | Some e \<Rightarrow> if e_len e > 0 then enc_loop fuel dstlen e else Some e))"

text \<open>\<open>for (i = 1; i <= F; i++) insert_node(sp, r - i);\<close> with \<open>n\<close> iterations left.\<close>

fun insert_prefix :: "nat \<Rightarrow> nat \<Rightarrow> nat \<Rightarrow> encode_state \<Rightarrow> encode_state option" where
  "insert_prefix r i 0 sp = Some sp"
| "insert_prefix r i (Suc n) sp =
     (case insert_node sp (r - i) of None \<Rightarrow> None | Some sp \<Rightarrow> insert_prefix r (i + 1) n sp)"

fun store_lookahead :: "nat \<Rightarrow> bytes \<Rightarrow> byte carray \<Rightarrow> byte carray" where
  "store_lookahead k [] buf = buf"
| "store_lookahead k (b # bs) buf = store_lookahead (k + 1) bs (buf(k := b))"

text \<open>
  \<open>compress_lzss\<close>: \<open>malloc_ok\<close> is whether the state could be allocated. The result is the
  bytes written, or \<open>None\<close> where the C function returns NULL: no memory, no input, or a
  destination too small.
\<close>

definition compress_lzss :: "bool \<Rightarrow> nat \<Rightarrow> bytes \<Rightarrow> bytes option" where
  "compress_lzss malloc_ok dstlen src =
     (if \<not> malloc_ok then None
      else
        (let sp = init_state;
             s = 0; r = lz_N - lz_F;
             head = take lz_F src;
             len = length head;
             sp = sp\<lparr>text_buf := store_lookahead r head (text_buf sp)\<rparr> in
         if len = 0 then None
         else
           (case insert_prefix r 1 lz_F sp of
              None \<Rightarrow> None
            | Some sp \<Rightarrow>
                (case insert_node sp r of
                   None \<Rightarrow> None
                 | Some sp \<Rightarrow>
                     (case enc_loop (length src) dstlen
                             \<lparr>e_sp = sp, e_src = drop lz_F src, e_dst = [], e_len = len,
                              e_r = r, e_s = s, e_code = [0], e_mask = 1\<rparr> of
                        None \<Rightarrow> None
                      | Some e \<Rightarrow>
                          (if length (e_code e) > 1 then code_flush dstlen (e_dst e) (e_code e)
                           else Some (e_dst e)))))))"

section \<open>The decoder stays within its buffers\<close>

definition decoder_ok :: "nat \<Rightarrow> decoder \<Rightarrow> bool" where
  "decoder_ok dstlen d \<longleftrightarrow> length (d_out d) \<le> dstlen \<and> d_r d < lz_N"

lemma d_put_ok:
  "d_put dstlen c d = Some d' \<Longrightarrow> decoder_ok dstlen d'"
  by (auto simp: d_put_def decoder_ok_def ring_mod split: if_splits)

lemma lz_copy_ok:
  "decoder_ok dstlen d \<Longrightarrow> decoder_ok dstlen (lz_copy dstlen i k n d)"
  by (induction n arbitrary: k d) (auto split: option.splits dest: d_put_ok)

lemma lz_unit_ok:
  "decoder_ok dstlen d \<Longrightarrow> decoder_ok dstlen (fst (lz_unit dstlen src d))"
proof -
  assume "decoder_ok dstlen d"
  then have "decoder_ok dstlen (d\<lparr>d_flags := f\<rparr>)" for f
    by (simp add: decoder_ok_def)
  with \<open>decoder_ok dstlen d\<close> show ?thesis
    by (auto simp: lz_unit_def Let_def split: option.splits list.splits
        dest: d_put_ok intro: lz_copy_ok simp del: lz_copy.simps)
qed

lemma lz_loop_ok:
  "decoder_ok dstlen d \<Longrightarrow> decoder_ok dstlen (lz_loop dstlen src d)"
proof (induction dstlen src d rule: lz_loop.induct)
  case (1 dstlen src d)
  obtain d' rest where unit: "lz_unit dstlen src d = (d', rest)" by (cases "lz_unit dstlen src d")
  with lz_unit_ok [OF "1.prems", of src] have "decoder_ok dstlen d'" by simp
  with "1.IH" [OF unit [symmetric]] unit show ?case
    by (subst lz_loop.simps) (auto split: option.splits)
qed

text \<open>C34. Whatever the input, \<open>decompress_lzss\<close> writes at most \<open>dstlen\<close> bytes: a corrupt or
  hostile archive cannot make it write past \<open>dstend\<close>.\<close>

theorem decompress_lzss_bounded:
  "length (decompress_lzss junk dstlen src) \<le> dstlen"
proof -
  let ?d = "\<lparr>d_out = [], d_buf = (\<lambda>i. if i < lz_N - lz_F then 0x20 else junk i),
        d_r = lz_N - lz_F, d_flags = 0\<rparr>"
  have "decoder_ok dstlen (lz_loop dstlen src ?d)"
    by (rule lz_loop_ok) (simp add: decoder_ok_def)
  then show ?thesis by (simp add: decompress_lzss_def decoder_ok_def)
qed

section \<open>The encoder stays within the destination\<close>

lemma code_flush_Some:
  "code_flush n dst bs = Some out \<Longrightarrow> length dst \<le> n \<Longrightarrow> out = dst @ bs \<and> length out \<le> n"
  by (induction n dst bs rule: code_flush.induct) (auto split: if_splits)

lemma enc_unit_dst [simp]: "e_dst (enc_unit e) = e_dst e"
  by (simp add: enc_unit_def Let_def)

lemma enc_shift_dst: "enc_shift n e = Some e' \<Longrightarrow> length (e_dst e) \<le> n \<Longrightarrow> length (e_dst e') \<le> n"
  by (auto simp: enc_shift_def Let_def split: if_splits option.splits dest: code_flush_Some)

lemma enc_read_dst: "enc_read e c src = Some e' \<Longrightarrow> e_dst e' = e_dst e"
  by (auto simp: enc_read_def Let_def split: option.splits)

lemma enc_drain_dst: "enc_drain e = Some e' \<Longrightarrow> e_dst e' = e_dst e"
  by (auto simp: enc_drain_def Let_def split: option.splits if_splits)

lemma enc_advance_dst: "enc_advance k e = Some e' \<Longrightarrow> e_dst e' = e_dst e"
  by (induction k arbitrary: e)
    (auto split: option.splits list.splits dest: enc_read_dst enc_drain_dst)

lemma enc_loop_dst:
  "enc_loop fuel n e = Some e' \<Longrightarrow> length (e_dst e) \<le> n \<Longrightarrow> length (e_dst e') \<le> n"
proof (induction fuel arbitrary: e)
  case (Suc fuel)
  have shift: "length (e_dst e1) \<le> n" if "enc_shift n (enc_unit e) = Some e1" for e1
    using enc_shift_dst [OF that] Suc.prems(2) by simp
  show ?case
    using Suc.prems(1) by (auto simp: Let_def split: option.splits if_splits
        dest!: shift enc_advance_dst intro: Suc.IH)
qed simp

lemma compress_lzss_bounded: "compress_lzss ok n src = Some out \<Longrightarrow> length out \<le> n"
  by (auto simp: compress_lzss_def Let_def split: option.splits if_splits
      dest!: enc_loop_dst code_flush_Some)

lemma compress_lzss_empty [simp]: "compress_lzss ok n [] = None"
  by (simp add: compress_lzss_def)

end
