(* ===== verification/CFModel.thy ===== *)
theory CFModel
  imports Prelude
begin

text \<open>
  The Core Foundation objects that the tools manipulate, as far as the sources use them:
  dictionaries as association lists under an equality on keys (CFDictionary with its key
  callbacks), mutable data as byte lists (CFMutableData), big-endian 32-bit slots in such data
  (\<open>OSSwapHostToBigInt32\<close> and back), and the decimal form of a number (\<open>%d\<close>).
  Two interfaces are stated as locales: dictionaries and 32-bit slots in a buffer.
\<close>

section \<open>Dictionaries\<close>

fun dict_get :: "('k \<Rightarrow> 'k \<Rightarrow> bool) \<Rightarrow> ('k \<times> 'v) list \<Rightarrow> 'k \<Rightarrow> 'v option" where
  "dict_get eq [] k = None"
| "dict_get eq ((k', v) # d) k = (if eq k' k then Some v else dict_get eq d k)"

text \<open>\<open>CFDictionarySetValue\<close> replaces the value of an equal key (the stored key stays) and
  adds a new pair otherwise.\<close>

fun dict_set :: "('k \<Rightarrow> 'k \<Rightarrow> bool) \<Rightarrow> ('k \<times> 'v) list \<Rightarrow> 'k \<Rightarrow> 'v \<Rightarrow> ('k \<times> 'v) list" where
  "dict_set eq [] k v = [(k, v)]"
| "dict_set eq ((k', v') # d) k v =
     (if eq k' k then (k', v) # d else (k', v') # dict_set eq d k v)"

text \<open>The contract of a dictionary: reading back after a store. \<open>keys\<close> is the finite list
  of stored keys.\<close>

locale cf_dictionary =
  fixes eq :: "'k \<Rightarrow> 'k \<Rightarrow> bool"
    and get :: "'d \<Rightarrow> 'k \<Rightarrow> 'v option"
    and put :: "'d \<Rightarrow> 'k \<Rightarrow> 'v \<Rightarrow> 'd"
    and keys :: "'d \<Rightarrow> 'k list"
  assumes eq_equiv: "equivp eq"
    and get_put: "get (put d k v) k' = (if eq k k' then Some v else get d k')"
    and get_keys: "get d k \<noteq> None \<longleftrightarrow> (\<exists>k' \<in> set (keys d). eq k' k)"
begin

lemma get_put_same [simp]: "get (put d k v) k = Some v"
  using equivp_reflp [OF eq_equiv] by (simp add: get_put)

lemma put_keeps_keys: "get d k \<noteq> None \<Longrightarrow> get (put d k' v) k \<noteq> None"
  by (simp add: get_put)

text \<open>Of any more names than the dictionary has keys, pairwise not equal, one is free.\<close>

lemma free_name:
  assumes distinct: "\<And>i j. i < j \<Longrightarrow> j \<le> n \<Longrightarrow> \<not> eq (name i) (name j)"
    and n: "length (keys d) \<le> n"
  shows "\<exists>i \<le> n. get d (name i) = None"
proof (rule ccontr)
  assume "\<not> ?thesis"
  then have used: "\<forall>i \<le> n. \<exists>k \<in> set (keys d). eq k (name i)"
    using get_keys by blast
  then obtain f where f: "\<And>i. i \<le> n \<Longrightarrow> f i \<in> set (keys d) \<and> eq (f i) (name i)"
    by metis
  have "inj_on f {..n}"
  proof (rule inj_onI)
    fix i j assume ij: "i \<in> {..n}" "j \<in> {..n}" and same: "f i = f j"
    from f [of i] f [of j] ij same have "eq (f i) (name i)" "eq (f i) (name j)" by auto
    then have "eq (name i) (name j)" "eq (name j) (name i)"
      using equivp_symp [OF eq_equiv] equivp_transp [OF eq_equiv] by blast+
    with distinct ij show "i = j" by (metis atMost_iff linorder_neqE_nat)
  qed
  then have "card {..n} \<le> card (set (keys d))"
    using f by (intro card_inj_on_le) auto
  also have "\<dots> \<le> length (keys d)" by (rule card_length)
  finally show False using n by simp
qed

end

lemma dict_get_set:
  "equivp eq \<Longrightarrow> dict_get eq (dict_set eq d k v) k' = (if eq k k' then Some v else dict_get eq d k')"
proof (induction d)
  case Nil
  then show ?case by simp
next
  case (Cons p d)
  obtain k1 v1 where p: "p = (k1, v1)" by (cases p)
  have "eq k1 k \<Longrightarrow> eq k1 k' = eq k k'" and "eq k k' \<Longrightarrow> eq k1 k' = eq k1 k"
    using equivp_symp [OF Cons.prems] equivp_transp [OF Cons.prems] by blast+
  with Cons show ?case by (auto simp: p)
qed

lemma dict_get_keys: "dict_get eq d k \<noteq> None \<longleftrightarrow> (\<exists>k' \<in> set (map fst d). eq k' k)"
  by (induction d) auto

text \<open>The dictionaries of the tools compare keys either exactly or up to a folding of their
  characters (the case-insensitive callbacks of mkextunpack).\<close>

definition fold_eq :: "('k \<Rightarrow> 'f) \<Rightarrow> 'k \<Rightarrow> 'k \<Rightarrow> bool" where
  "fold_eq cf k k' \<longleftrightarrow> cf k = cf k'"

lemma equivp_fold_eq: "equivp (fold_eq cf)"
  by (rule equivpI) (auto simp: fold_eq_def reflp_def symp_def transp_def)

interpretation exact: cf_dictionary "(=)" "dict_get (=)" "dict_set (=)" "map fst"
proof unfold_locales
  show "equivp ((=) :: 'a \<Rightarrow> 'a \<Rightarrow> bool)" by (rule identity_equivp)
  show "dict_get (=) (dict_set (=) d k v) k' = (if k = k' then Some v else dict_get (=) d k')"
    for d :: "('a \<times> 'b) list" and k v k'
    by (rule dict_get_set [OF identity_equivp])
qed (rule dict_get_keys)

interpretation folded: cf_dictionary "fold_eq cf" "dict_get (fold_eq cf)"
  "dict_set (fold_eq cf)" "map fst" for cf :: "'k \<Rightarrow> 'f"
  by unfold_locales (rule equivp_fold_eq dict_get_set [OF equivp_fold_eq] dict_get_keys)+

lemma map_fst_dict_set:
  "map fst (dict_set eq d k v) =
     (if \<exists>k' \<in> set (map fst d). eq k' k then map fst d else map fst d @ [k])"
proof (induction d)
  case (Cons p d)
  then show ?case by (cases p) auto
qed simp

lemma dict_set_fresh: "dict_get eq d k = None \<Longrightarrow> dict_set eq d k v = d @ [(k, v)]"
proof (induction d)
  case (Cons p d)
  then show ?case by (cases p) (auto split: if_splits)
qed simp

lemma distinct_dict_set: "distinct (map fst d) \<Longrightarrow> distinct (map fst (dict_set (=) d k v))"
  by (auto simp: map_fst_dict_set)

lemma dict_get_in_set: "dict_get (=) d k = Some v \<Longrightarrow> (k, v) \<in> set d"
  by (induction d) (auto split: if_splits)

lemma in_set_dict_get: "distinct (map fst d) \<Longrightarrow> (k, v) \<in> set d \<Longrightarrow> dict_get (=) d k = Some v"
  by (induction d) force+

section \<open>Mutable data\<close>

text \<open>\<open>CFDataSetLength\<close>: truncation, or extension by zero bytes.\<close>

definition set_data_length :: "nat \<Rightarrow> bytes \<Rightarrow> bytes" where
  "set_data_length n d = take n d @ replicate (n - length d) 0"

lemma length_set_data_length [simp]: "length (set_data_length n d) = n"
  by (simp add: set_data_length_def)

text \<open>\<open>memcpy\<close> of \<open>src\<close> to offset \<open>off\<close> of a buffer that has room for it.\<close>

definition write_at :: "nat \<Rightarrow> bytes \<Rightarrow> bytes \<Rightarrow> bytes" where
  "write_at off src d = take off d @ src @ drop (off + length src) d"

lemma length_write_at [simp]:
  "off + length src \<le> length d \<Longrightarrow> length (write_at off src d) = length d"
  by (simp add: write_at_def)

text \<open>A read of \<open>n\<close> bytes at \<open>off\<close>; \<open>None\<close> when it leaves the mapping, where the C code has
  no defined behaviour.\<close>

definition read_at :: "nat \<Rightarrow> nat \<Rightarrow> bytes \<Rightarrow> bytes option" where
  "read_at off n d = (if off + n \<le> length d then Some (take n (drop off d)) else None)"

definition be32 :: "u32 \<Rightarrow> bytes" where
  "be32 w = [ucast (drop_bit 24 w), ucast (drop_bit 16 w), ucast (drop_bit 8 w), ucast w]"

definition of_be32 :: "bytes \<Rightarrow> u32" where
  "of_be32 bs = (case bs of
     [a, b, c, d] \<Rightarrow> push_bit 24 (ucast a) OR push_bit 16 (ucast b) OR push_bit 8 (ucast c) OR ucast d
   | _ \<Rightarrow> 0)"

definition put32 :: "nat \<Rightarrow> u32 \<Rightarrow> bytes \<Rightarrow> bytes" where
  "put32 off w d = write_at off (be32 w) d"

definition get32 :: "nat \<Rightarrow> bytes \<Rightarrow> u32" where
  "get32 off d = of_be32 (take 4 (drop off d))"

lemma length_be32 [simp]: "length (be32 w) = 4"
  by (simp add: be32_def)

lemma of_be32_be32 [simp]: "of_be32 (be32 w) = w"
proof -
  have "push_bit 24 (ucast (ucast (drop_bit 24 w) :: byte)) OR
        push_bit 16 (ucast (ucast (drop_bit 16 w) :: byte)) OR
        push_bit 8 (ucast (ucast (drop_bit 8 w) :: byte)) OR ucast (ucast w :: byte) = (w :: u32)"
  proof (rule bit_word_eqI)
    fix n assume "n < LENGTH(32)"
    then consider "n < 8" | "8 \<le> n \<and> n < 16" | "16 \<le> n \<and> n < 24" | "24 \<le> n \<and> n < 32"
      by fastforce
    then show "bit (push_bit 24 (ucast (ucast (drop_bit 24 w) :: byte)) OR
        push_bit 16 (ucast (ucast (drop_bit 16 w) :: byte)) OR
        push_bit 8 (ucast (ucast (drop_bit 8 w) :: byte)) OR ucast (ucast w :: byte) :: u32) n = bit w n"
      by cases (auto simp: bit_simps)
  qed
  then show ?thesis by (simp add: of_be32_def be32_def)
qed

text \<open>The contract of numbered slots of one width in a buffer: a store is read back, it leaves
  every slot alone that it does not touch, and the buffer keeps its length. \<open>put_all\<close> makes a
  sequence of stores; each of them is read back if no two slots overlap.\<close>

definition apart :: "nat \<Rightarrow> nat \<Rightarrow> nat \<Rightarrow> bool" where
  "apart w a b \<longleftrightarrow> a + w \<le> b \<or> b + w \<le> a"

fun all_apart :: "nat \<Rightarrow> nat list \<Rightarrow> bool" where
  "all_apart w [] = True"
| "all_apart w (a # as) = (list_all (apart w a) as \<and> all_apart w as)"

locale slots =
  fixes get :: "nat \<Rightarrow> 'd \<Rightarrow> 'v"
    and put :: "nat \<Rightarrow> 'v \<Rightarrow> 'd \<Rightarrow> 'd"
    and size :: "'d \<Rightarrow> nat"
    and w :: nat
  assumes get_put_slot: "off + w \<le> size d \<Longrightarrow> get off (put off v d) = v"
    and get_put_apart: "off' + w \<le> size d \<Longrightarrow> off + w \<le> size d \<Longrightarrow> apart w off off' \<Longrightarrow>
          get off' (put off v d) = get off' d"
    and size_put: "off + w \<le> size d \<Longrightarrow> size (put off v d) = size d"
begin

definition put_all :: "(nat \<times> 'v) list \<Rightarrow> 'd \<Rightarrow> 'd" where
  "put_all ps d = fold (\<lambda>(off, v). put off v) ps d"

lemma size_put_all [simp]:
  "list_all (\<lambda>p. fst p + w \<le> size d) ps \<Longrightarrow> size (put_all ps d) = size d"
  by (induction ps arbitrary: d) (auto simp: put_all_def size_put)

lemma get_put_all_apart:
  "list_all (\<lambda>p. fst p + w \<le> size d) ps \<Longrightarrow> off + w \<le> size d \<Longrightarrow>
     list_all (\<lambda>p. apart w off (fst p)) ps \<Longrightarrow> get off (put_all ps d) = get off d"
proof (induction ps arbitrary: d)
  case (Cons p ps)
  have "put_all (p # ps) d = put_all ps (put (fst p) (snd p) d)"
    by (simp add: put_all_def case_prod_beta)
  moreover have "apart w (fst p) off" using Cons.prems by (auto simp: apart_def)
  ultimately show ?case using Cons by (simp add: size_put get_put_apart)
qed (simp add: put_all_def)

theorem get_put_all:
  "all_apart w (map fst ps) \<Longrightarrow> list_all (\<lambda>p. fst p + w \<le> size d) ps \<Longrightarrow> (off, v) \<in> set ps \<Longrightarrow>
     get off (put_all ps d) = v"
proof (induction ps arbitrary: d)
  case (Cons p ps)
  have step: "put_all (p # ps) d = put_all ps (put (fst p) (snd p) d)"
    by (simp add: put_all_def case_prod_beta)
  show ?case
  proof (cases "(off, v) \<in> set ps")
    case True
    with Cons show ?thesis by (simp add: step size_put)
  next
    case False
    with Cons.prems have p: "p = (off, v)" by simp
    have "list_all (\<lambda>q. apart w off (fst q)) ps" "list_all (\<lambda>q. fst q + w \<le> size d) ps"
      "off + w \<le> size d"
      using Cons.prems by (auto simp: p list_all_iff)
    then show ?thesis
      by (simp only: step) (simp add: p get_put_all_apart size_put get_put_slot)
  qed
qed simp

end

lemma nth_write_at:
  "off + length src \<le> length d \<Longrightarrow> p < length d \<Longrightarrow>
     write_at off src d ! p = (if off \<le> p \<and> p < off + length src then src ! (p - off) else d ! p)"
  by (auto simp: write_at_def nth_append min_def)

lemma take_drop_write_at [simp]:
  "off + length src \<le> length d \<Longrightarrow> take (length src) (drop off (write_at off src d)) = src"
  by (simp add: write_at_def)

lemma take_drop_conv_map: "a + n \<le> length d \<Longrightarrow> take n (drop a d) = map (\<lambda>i. d ! (a + i)) [0..<n]"
  by (rule nth_equalityI) auto

lemma take_drop_cong:
  "a + n \<le> length d \<Longrightarrow> a + n \<le> length d' \<Longrightarrow> (\<And>p. a \<le> p \<Longrightarrow> p < a + n \<Longrightarrow> d ! p = d' ! p) \<Longrightarrow>
     take n (drop a d) = take n (drop a d')"
  by (simp add: take_drop_conv_map)

lemma get32_cong:
  "a + 4 \<le> length d \<Longrightarrow> a + 4 \<le> length d' \<Longrightarrow> (\<And>p. a \<le> p \<Longrightarrow> p < a + 4 \<Longrightarrow> d ! p = d' ! p) \<Longrightarrow>
     get32 a d = get32 a d'"
  unfolding get32_def by (rule arg_cong [where f = of_be32]) (rule take_drop_cong)

lemma length_put32 [simp]: "off + 4 \<le> length d \<Longrightarrow> length (put32 off v d) = length d"
  by (simp add: put32_def)

lemma nth_put32_apart:
  "off + 4 \<le> length d \<Longrightarrow> p < length d \<Longrightarrow> p < off \<or> off + 4 \<le> p \<Longrightarrow> put32 off v d ! p = d ! p"
  by (auto simp: put32_def nth_write_at)

interpretation be32_slots: slots get32 put32 length 4
proof unfold_locales
  fix off :: nat and d :: bytes and v
  assume "off + 4 \<le> length d"
  then have "take 4 (drop off (write_at off (be32 v) d)) = be32 v"
    using take_drop_write_at [of off "be32 v" d] by simp
  then show "get32 off (put32 off v d) = v" by (simp add: get32_def put32_def)
next
  fix off off' :: nat and d :: bytes and v
  assume "off' + 4 \<le> length d" "off + 4 \<le> length d" "apart 4 off off'"
  then show "get32 off' (put32 off v d) = get32 off' d"
    by (intro get32_cong) (auto simp: apart_def nth_put32_apart)
qed simp

lemma nth_put_all_apart:
  "list_all (\<lambda>q. fst q + 4 \<le> length d) ps \<Longrightarrow> p < length d \<Longrightarrow>
     list_all (\<lambda>q. p < fst q \<or> fst q + 4 \<le> p) ps \<Longrightarrow> be32_slots.put_all ps d ! p = d ! p"
  by (induction ps arbitrary: d) (auto simp: be32_slots.put_all_def nth_put32_apart)

end
