(* ===== verification/Mkext1.thy ===== *)
theory Mkext1
  imports Compression Lzss CFModel
begin

text \<open>
  src/mkext1_file.c: building a version 1 kext archive. The archive is a byte string that
  starts with a header and one descriptor per kext and continues with the files' data; the
  code grows it in place. The layout of the header comes from a system header file that is
  not in the repository, so it is a parameter (\<open>mkext_abi\<close>) with its documented shape as a
  named condition (\<open>abi_ok\<close>). A kext object is the record of what the OSKext and CFBundle
  queries of the code return for it.
\<close>

section \<open>Parameters: the archive layout and the kext objects\<close>

text \<open>Sizes, field offsets and constants of \<open>mkext1_header\<close>, \<open>mkext_kext\<close> and
  \<open>mkext_file\<close> (System/libkern/mkext.h). Offsets \<open>o_*\<close> of header fields count from the start
  of the archive, \<open>k_*\<close> from the start of a descriptor, \<open>f_*\<close> from the start of a file entry.\<close>

record mkext_abi =
  MKEXT_MAGIC :: u32
  MKEXT_SIGN :: u32
  MKEXT_VERS_1 :: u32
  MKEXT_VERS_2 :: u32
  sizeof_header :: nat
  sizeof_kext :: nat
  o_magic :: nat
  o_signature :: nat
  o_length :: nat
  o_adler32 :: nat
  o_version :: nat
  o_numkexts :: nat
  o_cputype :: nat
  o_cpusubtype :: nat
  o_kext :: nat
  k_plist :: nat
  k_module :: nat
  f_offset :: nat
  f_compsize :: nat
  f_realsize :: nat
  f_modifiedsecs :: nat

text \<open>The documented layout: eight 4-byte fields in this order, then the descriptors, the first
  of which the header structure contains; a descriptor is two file entries of four fields.\<close>

definition abi_ok :: "mkext_abi \<Rightarrow> bool" where
  "abi_ok abi \<longleftrightarrow>
     o_magic abi = 0 \<and> o_signature abi = 4 \<and> o_length abi = 8 \<and> o_adler32 abi = 12 \<and>
     o_version abi = 16 \<and> o_numkexts abi = 20 \<and> o_cputype abi = 24 \<and> o_cpusubtype abi = 28 \<and>
     o_kext abi = 32 \<and> sizeof_header abi = 64 \<and> sizeof_kext abi = 32 \<and>
     k_plist abi = 0 \<and> k_module abi = 16 \<and>
     f_offset abi = 0 \<and> f_compsize abi = 4 \<and> f_realsize abi = 8 \<and> f_modifiedsecs abi = 12"

record arch_info =
  cputype :: u32
  cpusubtype :: u32

record oskext =
  k_identifier :: string
  k_version :: int
  k_supports :: "arch_info \<Rightarrow> bool"
  k_bundle :: bool
  k_info_url :: bool
  k_info_path :: bool
  k_info_data :: "bytes option"
  k_executable :: "arch_info \<Rightarrow> bytes option"
  k_declares_exec :: bool

text \<open>What the environment decides while the archive is built: whether the buffer could be
  resized and the work buffers allocated, and the stack bytes under the decoder's ring.\<close>

record mkext_env =
  can_create :: bool
  can_resize :: bool
  can_compress :: bool
  can_check :: bool
  stack_junk :: "byte carray"

section \<open>Adding one file\<close>

record mkext1_context =
  mkext :: bytes
  kextIndex :: nat
  compressOffset :: u32
  c_arch :: arch_info
  fatal :: bool
  compress :: bool

definition file_entry :: "mkext_abi \<Rightarrow> nat \<Rightarrow> bool \<Rightarrow> nat" where
  "file_entry abi idx isInfoDict =
     o_kext abi + idx * sizeof_kext abi + (if isInfoDict then k_plist abi else k_module abi)"

text \<open>The four stores into the descriptor's file entry at the end of \<open>addDataToMkext\<close>;
  \<open>modifiedsecs\<close> is stored without a byte swap.\<close>

definition put_file_entry :: "mkext_abi \<Rightarrow> nat \<Rightarrow> u32 \<Rightarrow> u32 \<Rightarrow> u32 \<Rightarrow> bytes \<Rightarrow> bytes" where
  "put_file_entry abi e off rsize csize d =
     (let d = put32 (e + f_offset abi) off d;
          d = put32 (e + f_realsize abi) rsize d;
          d = put32 (e + f_compsize abi) csize d
      in put32 (e + f_modifiedsecs abi) 0 d)"

definition addDataToMkext ::
  "mkext_abi \<Rightarrow> mkext_env \<Rightarrow> bytes \<Rightarrow> mkext1_context \<Rightarrow> bool \<Rightarrow> bool \<times> mkext1_context" where
  "addDataToMkext abi env data ctx isInfoDict =
     (let addedDataFullLength = (of_nat (length data) :: u32);
          full = unat addedDataFullLength;
          newMkextLength = length (mkext ctx) + full in
      if \<not> can_resize env then (False, ctx)
      else
        (let ctx = ctx\<lparr>mkext := set_data_length newMkextLength (mkext ctx)\<rparr>;
             origCompressOffset = compressOffset ctx;
             start = unat origCompressOffset;
             packed = (if compress ctx
                       then compress_lzss (can_compress env) full (take full data) else None);
             finish = (\<lambda>ctx addedDataEnd compressedLength.
               (True, ctx\<lparr>mkext :=
                  put_file_entry abi (file_entry abi (kextIndex ctx) isInfoDict)
                    origCompressOffset addedDataFullLength compressedLength
                    (set_data_length addedDataEnd (mkext ctx))\<rparr>))
         in
         case packed of
           None \<Rightarrow>
             finish (ctx\<lparr>mkext := write_at start (take full data) (mkext ctx),
                         compressOffset := origCompressOffset + addedDataFullLength\<rparr>)
                    (start + full) 0
         | Some out \<Rightarrow>
             (let compressedLength = (of_nat (length out) :: u32);
                  ctx = ctx\<lparr>mkext := write_at start out (mkext ctx),
                            compressOffset := origCompressOffset + compressedLength\<rparr> in
              if \<not> can_check env then (False, ctx)
              else
                (let checkBuffer = decompress_lzss (stack_junk env) full out;
                     checkLength = length checkBuffer in
                 if checkLength \<noteq> full then (False, ctx)
                 else if checkBuffer \<noteq> take checkLength data then (False, ctx)
                 else finish ctx (start + length out) compressedLength))))"

section \<open>Adding one kext\<close>

text \<open>\<open>addToMkext1\<close>: every failure marks the context fatal, which makes the remaining kexts
  be skipped.\<close>

definition addToMkext1 ::
  "mkext_abi \<Rightarrow> mkext_env \<Rightarrow> oskext \<Rightarrow> mkext1_context \<Rightarrow> mkext1_context" where
  "addToMkext1 abi env aKext ctx =
     (if fatal ctx then ctx
      else if \<not> k_bundle aKext then ctx\<lparr>fatal := True\<rparr>
      else if \<not> k_info_url aKext then ctx\<lparr>fatal := True\<rparr>
      else if \<not> k_info_path aKext then ctx\<lparr>fatal := True\<rparr>
      else
        (case k_info_data aKext of
           None \<Rightarrow> ctx\<lparr>fatal := True\<rparr>
         | Some rawInfoDict \<Rightarrow>
             (case addDataToMkext abi env rawInfoDict ctx True of
                (False, ctx) \<Rightarrow> ctx\<lparr>fatal := True\<rparr>
              | (True, ctx) \<Rightarrow>
                  (case k_executable aKext (c_arch ctx) of
                     Some executable \<Rightarrow>
                       (case addDataToMkext abi env executable ctx False of
                          (False, ctx) \<Rightarrow> ctx\<lparr>fatal := True\<rparr>
                        | (True, ctx) \<Rightarrow> ctx\<lparr>kextIndex := kextIndex ctx + 1\<rparr>)
                   | None \<Rightarrow>
                       if k_declares_exec aKext then ctx\<lparr>fatal := True\<rparr>
                       else ctx\<lparr>kextIndex := kextIndex ctx + 1\<rparr>))))"

section \<open>Building the archive\<close>

text \<open>The selection loop of \<open>createMkext1ForArch\<close>: one kext per bundle identifier among
  those that support the architecture, the first one of the highest version.\<close>

fun select_kexts ::
  "arch_info \<Rightarrow> oskext list \<Rightarrow> (string \<times> oskext) list \<Rightarrow> (string \<times> oskext) list" where
  "select_kexts arch [] kextsByIdentifier = kextsByIdentifier"
| "select_kexts arch (theKext # rest) kextsByIdentifier =
     (let bundleIdentifier = k_identifier theKext;
          savedKext = dict_get (=) kextsByIdentifier bundleIdentifier in
      if \<not> k_supports theKext arch then select_kexts arch rest kextsByIdentifier
      else
        (case savedKext of
           None \<Rightarrow> select_kexts arch rest (dict_set (=) kextsByIdentifier bundleIdentifier theKext)
         | Some saved \<Rightarrow>
             if k_version theKext > k_version saved
             then select_kexts arch rest (dict_set (=) kextsByIdentifier bundleIdentifier theKext)
             else select_kexts arch rest kextsByIdentifier))"

text \<open>The header stores after all kexts are in; the checksum covers the archive from the
  version field on, so it is stored last.\<close>

definition fill_header :: "mkext_abi \<Rightarrow> arch_info \<Rightarrow> nat \<Rightarrow> bytes \<Rightarrow> bytes" where
  "fill_header abi arch n d =
     (let d = put32 (o_magic abi) (MKEXT_MAGIC abi) d;
          d = put32 (o_signature abi) (MKEXT_SIGN abi) d;
          d = put32 (o_version abi) 0x01008000 d;
          d = put32 (o_numkexts abi) (of_nat n) d;
          d = put32 (o_cputype abi) (cputype arch) d;
          d = put32 (o_cpusubtype abi) (cpusubtype arch) d;
          d = put32 (o_length abi) (of_nat (length d)) d
      in put32 (o_adler32 abi)
           (local_adler32 (drop (o_version abi) d) (of_nat (length d - o_version abi))) d)"

text \<open>\<open>order\<close> is the order in which \<open>CFDictionaryApplyFunction\<close> visits the dictionary.\<close>

definition createMkext1ForArch ::
  "mkext_abi \<Rightarrow> mkext_env \<Rightarrow> ((string \<times> oskext) list \<Rightarrow> (string \<times> oskext) list) \<Rightarrow>
   arch_info \<Rightarrow> oskext list \<Rightarrow> bool \<Rightarrow> bytes option" where
  "createMkext1ForArch abi env order arch archiveKexts compr =
     (if \<not> can_create env then None
      else
        (let kextsByIdentifier = select_kexts arch archiveKexts [];
             result = set_data_length
               (sizeof_header abi + length kextsByIdentifier * sizeof_kext abi) [];
             context = \<lparr>mkext = result, kextIndex = 0, compressOffset = of_nat (length result),
                        c_arch = arch, fatal = False, compress = compr\<rparr>;
             context = fold (\<lambda>(_, k). addToMkext1 abi env k) (order kextsByIdentifier) context in
         if fatal context then None
         else Some (fill_header abi arch (length kextsByIdentifier) (mkext context))))"

end
