(* ===== verification/FileIO.thy ===== *)
theory FileIO
  imports CFModel
begin

text \<open>
  Transfers through file descriptors: the loops that repeat \<open>write\<close> and \<open>read\<close> until a whole
  buffer is through (src/kext_tools_util.c, src/mkextunpack_main.c), and the numbering loops that
  look for an unused name. The results of the system calls are parameters. The loops run on
  fuel; \<open>None\<close> is a loop that is still running when the fuel is used up.
\<close>

section \<open>Writing\<close>

text \<open>One attempt: \<open>wr off n\<close> is what \<open>write(fd, data + off, n)\<close> returns. \<open>wrap\<close> is the
  width of the counter of the loop. The second component lists the bytes that were accepted.\<close>

fun write_loop ::
  "(nat \<Rightarrow> nat) \<Rightarrow> (nat \<Rightarrow> nat \<Rightarrow> int) \<Rightarrow> nat \<Rightarrow> bytes \<Rightarrow> nat \<Rightarrow> (bool \<times> bytes list) option" where
  "write_loop wrap wr 0 data sofar = None"
| "write_loop wrap wr (Suc fuel) data sofar =
     (if sofar < length data then
        (let bytesWritten = wr sofar (length data - sofar) in
         if bytesWritten < 0 then Some (False, [])
         else map_option (map_prod id ((#) (take (nat bytesWritten) (drop sofar data))))
                (write_loop wrap wr fuel data (wrap (sofar + nat bytesWritten))))
      else Some (True, []))"

text \<open>What \<open>write\<close> promises on a regular file with room: it takes at least one byte, and never
  more than it was given.\<close>

definition write_progress :: "(nat \<Rightarrow> nat \<Rightarrow> int) \<Rightarrow> bool" where
  "write_progress wr \<longleftrightarrow> (\<forall>off n. 0 < n \<longrightarrow> 0 < wr off n \<and> wr off n \<le> int n)"

lemma write_loop_complete:
  assumes wr: "write_progress wr" and wrap: "\<And>n. n \<le> length data \<Longrightarrow> wrap n = n"
  shows "sofar \<le> length data \<Longrightarrow> length data - sofar < fuel \<Longrightarrow>
    \<exists>chunks. write_loop wrap wr fuel data sofar = Some (True, chunks) \<and> concat chunks = drop sofar data"
proof (induction fuel arbitrary: sofar)
  case (Suc fuel)
  show ?case
  proof (cases "sofar < length data")
    case True
    let ?n = "length data - sofar"
    let ?r = "nat (wr sofar ?n)"
    have r: "0 < wr sofar ?n" "wr sofar ?n \<le> int ?n"
      using wr True unfolding write_progress_def by (metis zero_less_diff)+
    then have step: "sofar + ?r \<le> length data" "length data - (sofar + ?r) < fuel"
      using Suc.prems True by linarith+
    with Suc.IH [OF step] obtain chunks where rest:
      "write_loop wrap wr fuel data (sofar + ?r) = Some (True, chunks)"
      "concat chunks = drop (sofar + ?r) data" by blast
    have "take ?r (drop sofar data) @ drop (sofar + ?r) data = drop sofar data"
      by (metis add.commute append_take_drop_id drop_drop)
    with rest r step wrap True show ?thesis by (simp add: Let_def)
  qed (use Suc.prems in simp)
qed simp

text \<open>Whatever was written is a prefix of the data, also when the loop gives up.\<close>

lemma write_loop_prefix:
  assumes wr: "\<And>off n. wr off n \<le> int n" and wrap: "\<And>n. n \<le> length data \<Longrightarrow> wrap n = n"
  shows "write_loop wrap wr fuel data sofar = Some (ok, chunks) \<Longrightarrow> sofar \<le> length data \<Longrightarrow>
    \<exists>rest. drop sofar data = concat chunks @ rest \<and> (ok \<longrightarrow> rest = [])"
proof (induction fuel arbitrary: sofar chunks)
  case (Suc fuel)
  show ?case
  proof (cases "sofar < length data \<and> 0 \<le> wr sofar (length data - sofar)")
    case True
    let ?r = "nat (wr sofar (length data - sofar))"
    have bound: "sofar + ?r \<le> length data"
      using wr [of sofar "length data - sofar"] True by linarith
    from Suc.prems True bound obtain chunks' where c: "chunks = take ?r (drop sofar data) # chunks'"
      and rest: "write_loop wrap wr fuel data (sofar + ?r) = Some (ok, chunks')"
      by (auto simp: Let_def wrap split: option.splits)
    have "take ?r (drop sofar data) @ drop (sofar + ?r) data = drop sofar data"
      by (metis add.commute append_take_drop_id drop_drop)
    moreover obtain z where "drop (sofar + ?r) data = concat chunks' @ z" "ok \<longrightarrow> z = []"
      using Suc.IH [OF rest bound] by blast
    ultimately have "drop sofar data = concat chunks @ z" by (simp add: c)
    with \<open>ok \<longrightarrow> z = []\<close> show ?thesis by blast
  next
    case False
    with Suc.prems show ?thesis by (auto simp: Let_def split: if_splits)
  qed
qed simp

section \<open>Reading\<close>

text \<open>\<open>rd off n\<close> is what \<open>read(fd, buffer + off, n)\<close> delivers: \<open>None\<close> for an error, the empty
  list at the end of the file. The loop of \<open>createCFDataFromFD\<close> does not look for the latter.\<close>

fun read_loop :: "(nat \<Rightarrow> nat \<Rightarrow> bytes option) \<Rightarrow> nat \<Rightarrow> nat \<Rightarrow> bytes \<Rightarrow> bytes option option" where
  "read_loop rd 0 len buffer = None"
| "read_loop rd (Suc fuel) len buffer =
     (if length buffer < len then
        (case rd (length buffer) (len - length buffer) of
           None \<Rightarrow> Some None
         | Some bs \<Rightarrow> read_loop rd fuel len (buffer @ bs))
      else Some (Some buffer))"

text \<open>What \<open>read\<close> promises on a regular file with contents \<open>file\<close>: a non-empty piece of what
  is left at the offset, and nothing at its end.\<close>

definition reads_file :: "bytes \<Rightarrow> (nat \<Rightarrow> nat \<Rightarrow> bytes option) \<Rightarrow> bool" where
  "reads_file file rd \<longleftrightarrow>
     (\<forall>off n. 0 < n \<longrightarrow> (\<exists>k \<le> n. rd off n = Some (take k (drop off file)) \<and> (off < length file \<longrightarrow> 0 < k)))"

lemma reads_fileD:
  assumes "reads_file file rd" "off < len"
  obtains k where "k \<le> len - off" "rd off (len - off) = Some (take k (drop off file))"
    "off < length file \<longrightarrow> 0 < k"
  using assms unfolding reads_file_def by (meson zero_less_diff)

lemma take_length_take: "take (length (take m xs)) xs = take m xs"
  by (simp add: min_def)

lemma read_loop_complete:
  assumes rd: "reads_file file rd"
  shows "buffer = take (length buffer) file \<Longrightarrow> length buffer \<le> len \<Longrightarrow> len \<le> length file \<Longrightarrow>
    len - length buffer < fuel \<Longrightarrow> read_loop rd fuel len buffer = Some (Some (take len file))"
proof (induction fuel arbitrary: buffer)
  case (Suc fuel)
  show ?case
  proof (cases "length buffer < len")
    case True
    let ?n = "length buffer"
    obtain k where k: "k \<le> len - ?n" "rd ?n (len - ?n) = Some (take k (drop ?n file))" "0 < k"
      using reads_fileD [OF rd True] True Suc.prems(3) by (metis less_le_trans)
    let ?b = "buffer @ take k (drop ?n file)"
    have len: "length ?b = ?n + k" using k(1) True Suc.prems(3) by simp
    have "?b = take (?n + k) file" using Suc.prems(1) by (metis take_add)
    then have "read_loop rd fuel len ?b = Some (Some (take len file))"
      using len k(1,3) True Suc.prems by (intro Suc.IH) simp_all
    with True k(2) show ?thesis by simp
  next
    case False
    with Suc.prems show ?thesis by (metis le_antisym not_less read_loop.simps(2))
  qed
qed simp

text \<open>A file that ends before the length taken from \<open>fstat\<close> keeps the loop running.\<close>

lemma read_loop_stuck:
  assumes rd: "reads_file file rd" and short: "length file < len"
  shows "read_loop rd fuel len buffer = None \<or> buffer \<noteq> take (length buffer) file"
proof (induction fuel arbitrary: buffer)
  case (Suc fuel)
  show ?case
  proof (cases "buffer = take (length buffer) file")
    case True
    let ?n = "length buffer"
    from True have "?n \<le> length file" by (metis length_take min.cobounded2 min.commute)
    with short have less: "?n < len" by simp
    then obtain k where k: "rd ?n (len - ?n) = Some (take k (drop ?n file))"
      using reads_fileD [OF rd less] by metis
    let ?b = "buffer @ take k (drop ?n file)"
    have "?b = take (?n + k) file" using True by (metis take_add)
    then have "?b = take (length ?b) file" by (metis take_length_take)
    with Suc.IH [of ?b] less k show ?thesis by simp
  qed simp
qed simp

section \<open>Numbers in names\<close>

text \<open>\<open>%d\<close> of a number.\<close>

fun dec :: "nat \<Rightarrow> string" where
  "dec n = (if n < 10 then [char_of (48 + n)] else dec (n div 10) @ [char_of (48 + n mod 10)])"

declare dec.simps [simp del]

definition dec_value :: "string \<Rightarrow> nat" where
  "dec_value s = foldl (\<lambda>a c. 10 * a + (of_char c - 48)) 0 s"

lemma dec_value_dec [simp]: "dec_value (dec n) = n"
proof (induction n rule: dec.induct)
  case (1 n)
  have digit: "(of_char (char_of (48 + k) :: char) :: nat) - 48 = k" if "k < 10" for k :: nat
    using that by simp
  show ?case
  proof (cases "n < 10")
    case True
    then show ?thesis using digit [of n] by (simp add: dec.simps [of n] dec_value_def)
  next
    case False
    with 1 show ?thesis
      using digit [of "n mod 10"] by (subst dec.simps) (simp add: dec_value_def)
  qed
qed

lemma dec_inject [simp]: "dec m = dec n \<longleftrightarrow> m = n"
  by (metis dec_value_dec)

text \<open>The loops that number a name until it is not taken, from \<open>i\<close> on, on fuel.\<close>

fun first_free :: "(string \<Rightarrow> bool) \<Rightarrow> (nat \<Rightarrow> string) \<Rightarrow> nat \<Rightarrow> nat \<Rightarrow> string option" where
  "first_free taken name 0 i = None"
| "first_free taken name (Suc fuel) i =
     (if taken (name i) then first_free taken name fuel (i + 1) else Some (name i))"

lemma first_free_Some: "first_free taken name fuel i = Some s \<Longrightarrow> \<not> taken s \<and> (\<exists>j \<ge> i. s = name j)"
proof (induction fuel arbitrary: i)
  case (Suc fuel)
  then show ?case by (cases "taken (name i)") (auto, metis Suc_leD)
qed simp

lemma first_free_bound:
  "first_free taken name fuel i = Some s \<Longrightarrow> \<exists>j. i \<le> j \<and> j < i + fuel \<and> s = name j"
proof (induction fuel arbitrary: i)
  case (Suc fuel)
  show ?case
  proof (cases "taken (name i)")
    case True
    with Suc.prems Suc.IH [of "i + 1"] obtain j where "i + 1 \<le> j" "j < i + 1 + fuel" "s = name j"
      by auto
    then show ?thesis by (intro exI [of _ j]) simp
  qed (use Suc.prems in auto)
qed simp

lemma first_free_exists:
  "\<not> taken (name j) \<Longrightarrow> i \<le> j \<Longrightarrow> j < i + fuel \<Longrightarrow> \<exists>s. first_free taken name fuel i = Some s"
proof (induction fuel arbitrary: i)
  case (Suc fuel)
  then show ?case by (cases "i = j") auto
qed simp

end
