(* ===== verification/Mkextunpack.thy ===== *)
theory Mkextunpack
  imports Mkext1 FileIO
begin

text \<open>
  src/mkextunpack_main.c: finding the archive of an architecture in a file, checking its
  header and checksum, and unpacking version 1 entries into named kexts and then into files.
  Property lists, the fat-file iterator and the file system are parameters; every read of the
  mapped archive is explicit, and one that leaves the mapping is the error \<open>Fault\<close>, because
  the C code checks no offset against the end of the archive.
\<close>

section \<open>Locating and checking the archive\<close>

datatype unpack_error =
    FatHeader | ArchNotFound | BadMagic | BadLength | BadCputype | BadChecksum
  | MallocFailure | WrongSize | Fault

text \<open>What the fat-file library answers for the mapped file: whether its magic is that of a
  fat file, whether an iterator could be made, and the slice of an architecture.\<close>

record fat_file =
  ISFAT :: bool
  fat_iterator_ok :: bool
  fat_iterator_find_arch :: "arch_info \<Rightarrow> (nat \<times> nat) option"

definition slice :: "nat \<Rightarrow> nat \<Rightarrow> 'a list \<Rightarrow> 'a list" where
  "slice a b xs = take (b - a) (drop a xs)"

text \<open>The checks of \<open>getMkextDataForArch\<close> on the archive bytes, in the order of the code.\<close>

definition check_mkext_header ::
  "mkext_abi \<Rightarrow> arch_info option \<Rightarrow> bytes \<Rightarrow> unpack_error + u32" where
  "check_mkext_header abi archInfo mk =
     (if length mk < o_kext abi then Inl Fault
      else if get32 (o_magic abi) mk \<noteq> MKEXT_MAGIC abi \<or> get32 (o_signature abi) mk \<noteq> MKEXT_SIGN abi
      then Inl BadMagic
      else if unat (get32 (o_length abi) mk) \<noteq> length mk then Inl BadLength
      else if (case archInfo of None \<Rightarrow> False
               | Some a \<Rightarrow> get32 (o_cputype abi) mk \<noteq> cputype a) then Inl BadCputype
      else if get32 (o_adler32 abi) mk \<noteq>
              local_adler32 (drop (o_version abi) mk)
                (of_nat (unat (get32 (o_length abi) mk) - o_version abi))
      then Inl BadChecksum
      else Inr (get32 (o_version abi) mk))"

definition getMkextDataForArch ::
  "mkext_abi \<Rightarrow> fat_file \<Rightarrow> arch_info \<Rightarrow> arch_info option \<Rightarrow> bytes \<Rightarrow> unpack_error + (bytes \<times> u32)" where
  "getMkextDataForArch abi fat localArch archInfo fileData =
     (if ISFAT fat then
        (let a = (case archInfo of None \<Rightarrow> localArch | Some a \<Rightarrow> a) in
         if \<not> fat_iterator_ok fat then Inl FatHeader
         else
           (case fat_iterator_find_arch fat a of
              None \<Rightarrow> Inl ArchNotFound
            | Some (mkextStart, mkextEnd) \<Rightarrow>
                map_sum id (Pair (slice mkextStart mkextEnd fileData))
                  (check_mkext_header abi (Some a) (slice mkextStart mkextEnd fileData))))
      else map_sum id (Pair fileData) (check_mkext_header abi archInfo fileData))"

section \<open>Uncompressing one entry\<close>

text \<open>\<open>uncompressMkext1Entry\<close> of the file entry at \<open>e\<close>: \<open>Inr None\<close> is the "nothing to
  uncompress" result (no data object, but true). \<open>malloc_ok\<close> stands for the two allocations.\<close>

definition uncompressMkext1Entry ::
  "mkext_abi \<Rightarrow> bool \<Rightarrow> byte carray \<Rightarrow> bytes \<Rightarrow> nat \<Rightarrow> unpack_error + bytes option" where
  "uncompressMkext1Entry abi malloc_ok junk mk e =
     (let off = unat (get32 (e + f_offset abi) mk);
          compsize = unat (get32 (e + f_compsize abi) mk);
          realsize = unat (get32 (e + f_realsize abi) mk);
          modifiedsecs = unat (get32 (e + f_modifiedsecs abi) mk) in
      if realsize = 0 \<or> (off = 0 \<and> compsize = 0 \<and> modifiedsecs = 0) then Inr None
      else if \<not> malloc_ok then Inl MallocFailure
      else if compsize \<noteq> 0 then
        (case read_at off compsize mk of
           None \<Rightarrow> Inl Fault
         | Some src \<Rightarrow>
             (let uncompressed_data = decompress_lzss junk realsize src in
              if length uncompressed_data \<noteq> realsize then Inl WrongSize
              else Inr (Some uncompressed_data)))
      else
        (case read_at off realsize mk of
           None \<Rightarrow> Inl Fault
         | Some data \<Rightarrow> Inr (Some data)))"

section \<open>Naming a kext\<close>

text \<open>Values of an info dictionary as far as the tool looks at them.\<close>

datatype cf_value = CFString string | CFOther

type_synonym plist = "(string \<times> cf_value) list"

text \<open>\<open>CFStringCreateArrayBySeparatingStrings\<close> with a one-character separator; never empty.\<close>

fun split_on :: "'a \<Rightarrow> 'a list \<Rightarrow> 'a list list" where
  "split_on c [] = [[]]"
| "split_on c (x # xs) =
     (if x = c then [] # split_on c xs
      else (case split_on c xs of [] \<Rightarrow> [[x]] | y # ys \<Rightarrow> (x # y) # ys))"

text \<open>The name the plist suggests: the executable's, or else the last component of the
  identifier when it is not empty. The values are used as strings without a type check, so a
  value of another type is a \<open>Fault\<close>.\<close>

definition plist_name :: "plist \<Rightarrow> unpack_error + string option" where
  "plist_name kextPlist =
     (case dict_get (=) kextPlist ''CFBundleExecutable'' of
        Some (CFString s) \<Rightarrow> Inr (Some s)
      | Some CFOther \<Rightarrow> Inl Fault
      | None \<Rightarrow>
          (case dict_get (=) kextPlist ''CFBundleIdentifier'' of
             None \<Rightarrow> Inr None
           | Some CFOther \<Rightarrow> Inl Fault
           | Some (CFString s) \<Rightarrow>
               (let bundleName = last (split_on (CHR ''.'') s) in
                Inr (if bundleName = [] then None else Some bundleName))))"

text \<open>\<open>createKextNameFromPlist\<close>; the counter is its static \<open>nameUnknownIndex\<close>, and \<open>cf\<close> is the
  case folding of the dictionary's key callbacks. The fuel is one more than the number of
  entries, enough by the free-name lemma of CFModel.\<close>

definition createKextNameFromPlist ::
  "(string \<Rightarrow> 'f) \<Rightarrow> (string \<times> 'e) list \<Rightarrow> plist \<Rightarrow> nat \<Rightarrow> unpack_error + (string option \<times> nat)" where
  "createKextNameFromPlist cf entries kextPlist nameUnknownIndex =
     (case plist_name kextPlist of
        Inl e \<Rightarrow> Inl e
      | Inr None \<Rightarrow> Inr (Some (''NameUnknown-'' @ dec nameUnknownIndex), nameUnknownIndex + 1)
      | Inr (Some bundleName) \<Rightarrow>
          (if dict_get (fold_eq cf) entries bundleName = None
           then Inr (Some bundleName, nameUnknownIndex)
           else Inr (first_free (\<lambda>result. dict_get (fold_eq cf) entries result \<noteq> None)
                       (\<lambda>dupIndex. bundleName @ ''-'' @ dec dupIndex) (length entries + 1) 1,
                     nameUnknownIndex)))"

section \<open>Identifier and version\<close>

text \<open>\<open>getBundleIDAndVersion\<close>: 1 with both strings, 0 when one is missing or no string, -1
  when one does not fit the code's buffers of \<open>KMOD_MAX_NAME\<close> bytes.\<close>

definition string_property :: "nat \<Rightarrow> plist \<Rightarrow> string \<Rightarrow> int + string" where
  "string_property kmod_max_name kextPlist key =
     (case dict_get (=) kextPlist key of
        None \<Rightarrow> Inl 0
      | Some CFOther \<Rightarrow> Inl 0
      | Some (CFString s) \<Rightarrow> if length s + 1 \<le> kmod_max_name - 1 then Inr s else Inl (-1))"

definition getBundleIDAndVersion :: "nat \<Rightarrow> plist \<Rightarrow> int \<times> (string \<times> string) option" where
  "getBundleIDAndVersion kmod_max_name kextPlist =
     (case string_property kmod_max_name kextPlist ''CFBundleIdentifier'' of
        Inl r \<Rightarrow> (r, None)
      | Inr bundle_id \<Rightarrow>
          (case string_property kmod_max_name kextPlist ''CFBundleVersion'' of
             Inl r \<Rightarrow> (r, None)
           | Inr bundle_vers \<Rightarrow> (1, Some (bundle_id, bundle_vers))))"

section \<open>Extracting the kexts of a version 1 archive\<close>

text \<open>A kext found in the archive: the dictionary with the keys plistData, plist and
  executable. The entries are kept under their names up to case.\<close>

record kext_entry =
  plistData :: "bytes option"
  e_plist :: plist
  executable :: "bytes option"

type_synonym entries = "(string \<times> kext_entry) list"

text \<open>The environment of the unpacker: the option \<open>-v\<close>, buffer sizes of the system headers,
  memory, the property list parser (\<open>Some None\<close>: a property list that is no dictionary), and
  what lies under the decoder's ring.\<close>

record unpack_env =
  gVerbose :: bool
  KMOD_MAX_NAME :: nat
  PATH_MAX :: nat
  dict_ok :: bool
  malloc_ok :: bool
  parse_plist :: "bytes \<Rightarrow> plist option option"
  u_junk :: "byte carray"

record unpacker =
  u_entries :: entries
  nameUnknown :: nat

text \<open>How one turn of the loop over the kexts ends: \<open>Next\<close> goes on with the next one, \<open>Stop\<close>
  is a \<open>goto finish\<close> that hands out the entries so far, \<open>Abort\<close> one that releases them. The
  inner declaration \<open>CFErrorRef error\<close> hides the flag \<open>error\<close>, so that the assignments after
  it do not release anything; they are \<open>Stop\<close>s.\<close>

datatype turn = Next unpacker | Stop unpacker | Abort | Undefined

definition get_executable ::
  "mkext_abi \<Rightarrow> unpack_env \<Rightarrow> bytes \<Rightarrow> nat \<Rightarrow> unpack_error + bytes option" where
  "get_executable abi env mk module_file =
     (if get32 (module_file + f_offset abi) mk \<noteq> 0 \<or> get32 (module_file + f_compsize abi) mk \<noteq> 0 \<or>
         get32 (module_file + f_realsize abi) mk \<noteq> 0 \<or> get32 (module_file + f_modifiedsecs abi) mk \<noteq> 0
      then uncompressMkext1Entry abi (malloc_ok env) (u_junk env) mk module_file
      else Inr None)"

text \<open>The end of a turn: the executable is fetched and the entry is put into the
  dictionary. A kext whose executable cannot be read is left out.\<close>

definition add_entry ::
  "(string \<Rightarrow> 'f) \<Rightarrow> mkext_abi \<Rightarrow> unpack_env \<Rightarrow> bytes \<Rightarrow> nat \<Rightarrow> string \<Rightarrow> kext_entry \<Rightarrow> unpacker \<Rightarrow> turn" where
  "add_entry cf abi env mk module_file entryName entryDict u =
     (case get_executable abi env mk module_file of
        Inl Fault \<Rightarrow> Undefined
      | Inl _ \<Rightarrow> Next u
      | Inr kextExecutable \<Rightarrow>
          Next (u\<lparr>u_entries := dict_set (fold_eq cf) (u_entries u) entryName
                    (entryDict\<lparr>executable := kextExecutable\<rparr>)\<rparr>))"

text \<open>The verbose output; a kext without identifier or version is skipped by its
  \<open>continue\<close>, before the executable is looked at.\<close>

definition report_entry :: "unpack_env \<Rightarrow> string \<Rightarrow> plist \<Rightarrow> int option" where
  "report_entry env entryName kextPlist =
     (if gVerbose env \<and> length entryName + 1 \<le> PATH_MAX env - 1
      then Some (fst (getBundleIDAndVersion (KMOD_MAX_NAME env) kextPlist)) else None)"

definition extract_turn ::
  "(string \<Rightarrow> 'f) \<Rightarrow> mkext_abi \<Rightarrow> unpack_env \<Rightarrow> bytes \<Rightarrow> nat \<Rightarrow> unpacker \<Rightarrow> turn" where
  "extract_turn cf abi env mk i u =
     (if \<not> dict_ok env then Abort
      else if length mk < o_kext abi + (i + 1) * sizeof_kext abi then Undefined
      else
        (case uncompressMkext1Entry abi (malloc_ok env) (u_junk env) mk (file_entry abi i True) of
           Inl Fault \<Rightarrow> Undefined
         | Inl _ \<Rightarrow> Next u
         | Inr None \<Rightarrow> Next u
         | Inr (Some kextPlistDataObject) \<Rightarrow>
             (case parse_plist env kextPlistDataObject of
                None \<Rightarrow> Stop u
              | Some None \<Rightarrow> Undefined
              | Some (Some kextPlist) \<Rightarrow>
                  (case createKextNameFromPlist cf (u_entries u) kextPlist (nameUnknown u) of
                     Inl _ \<Rightarrow> Undefined
                   | Inr (None, n) \<Rightarrow> Stop (u\<lparr>nameUnknown := n\<rparr>)
                   | Inr (Some entryName, n) \<Rightarrow>
                       (let u = u\<lparr>nameUnknown := n\<rparr>;
                            entryDict = \<lparr>plistData = Some kextPlistDataObject,
                                         e_plist = kextPlist, executable = None\<rparr>;
                            go = add_entry cf abi env mk (file_entry abi i False) entryName entryDict u in
                        case report_entry env entryName kextPlist of
                          None \<Rightarrow> go
                        | Some r \<Rightarrow> if r = 1 then go else if r = 0 then Next u else Stop u)))))"

text \<open>The loop, from index \<open>i\<close> with \<open>n\<close> kexts left.\<close>

fun extract_loop ::
  "(string \<Rightarrow> 'f) \<Rightarrow> mkext_abi \<Rightarrow> unpack_env \<Rightarrow> bytes \<Rightarrow> nat \<Rightarrow> nat \<Rightarrow> unpacker \<Rightarrow> turn" where
  "extract_loop cf abi env mk i 0 u = Stop u"
| "extract_loop cf abi env mk i (Suc n) u =
     (case extract_turn cf abi env mk i u of
        Next u \<Rightarrow> extract_loop cf abi env mk (i + 1) n u
      | t \<Rightarrow> t)"

text \<open>\<open>extractEntriesFromMkext1\<close>: \<open>Inr None\<close> is its NULL result.\<close>

definition extractEntriesFromMkext1 ::
  "(string \<Rightarrow> 'f) \<Rightarrow> mkext_abi \<Rightarrow> unpack_env \<Rightarrow> bytes \<Rightarrow> unpack_error + entries option" where
  "extractEntriesFromMkext1 cf abi env mk =
     (case extract_loop cf abi env mk 0 (unat (get32 (o_numkexts abi) mk))
             \<lparr>u_entries = [], nameUnknown = 1\<rparr> of
        Stop u \<Rightarrow> Inr (Some (u_entries u))
      | Next u \<Rightarrow> Inr (Some (u_entries u))
      | Abort \<Rightarrow> Inr None
      | Undefined \<Rightarrow> Inl Fault)"

section \<open>Writing kexts to a directory\<close>

text \<open>The system calls that \<open>writeFileInDirectory\<close> makes, in order, and what the system
  answers: \<open>mkdir_ok\<close> includes EEXIST, \<open>write_result\<close> is as in FileIO.\<close>

datatype fs_op = Mkdir string | OpenFile string | WriteBytes bytes

record fs_env =
  mkdir_ok :: "string \<Rightarrow> bool"
  open_ok :: "string \<Rightarrow> bool"
  write_result :: "nat \<Rightarrow> nat \<Rightarrow> int"
  path_max :: nat

text \<open>The loop over the path components: each \<open>strlcat\<close> must leave room for the terminator.
  The buffer holds the path so far.\<close>

fun make_dirs :: "fs_env \<Rightarrow> string \<Rightarrow> string list \<Rightarrow> string option \<times> fs_op list" where
  "make_dirs fs path [] = (Some path, [])"
| "make_dirs fs path (c # cs) =
     (let path' = path @ ''/'' @ c in
      if length path + 1 \<ge> path_max fs \<or> length path' \<ge> path_max fs then (None, [])
      else if \<not> mkdir_ok fs path' then (None, [Mkdir path'])
      else map_prod id ((#) (Mkdir path')) (make_dirs fs path' cs))"

text \<open>\<open>writeFileInDirectory\<close>: the counter of its write loop is a \<open>uint32_t\<close>. \<open>None\<close> is a
  write loop that does not end.\<close>

definition writeFileInDirectory ::
  "fs_env \<Rightarrow> nat \<Rightarrow> string \<Rightarrow> string \<Rightarrow> string \<Rightarrow> bytes \<Rightarrow> (bool \<times> fs_op list) option" where
  "writeFileInDirectory fs fuel basePath subPath fileName fileData =
     (if length basePath \<ge> path_max fs then Some (False, [])
      else
        (case make_dirs fs basePath (split_on (CHR ''/'') subPath) of
           (None, ops) \<Rightarrow> Some (False, ops)
         | (Some path, ops) \<Rightarrow>
             (let path' = path @ ''/'' @ fileName in
              if length path + 1 \<ge> path_max fs \<or> length path' \<ge> path_max fs then Some (False, ops)
              else if \<not> open_ok fs path' then Some (False, ops @ [OpenFile path'])
              else map_option (\<lambda>(ok, chunks). (ok, ops @ OpenFile path' # map WriteBytes chunks))
                     (write_loop (\<lambda>n. n mod 2 ^ 32) (write_result fs) fuel fileData 0))))"

text \<open>One kext of \<open>writeMkext1EntriesToDirectory\<close>: a failed write ends the whole loop
  (\<open>False\<close>), a missing file skips the kext. A CFBundleExecutable that is no string is used as
  one (\<open>Fault\<close>).\<close>

type_synonym write_result = "unpack_error + (bool \<times> fs_op list) option"

definition then_write :: "write_result \<Rightarrow> write_result \<Rightarrow> write_result" where
  "then_write a b =
     (case a of
        Inl e \<Rightarrow> Inl e
      | Inr None \<Rightarrow> Inr None
      | Inr (Some (False, ops)) \<Rightarrow> Inr (Some (False, ops))
      | Inr (Some (True, ops)) \<Rightarrow> map_sum id (map_option (map_prod id ((@) ops))) b)"

definition write_executable ::
  "fs_env \<Rightarrow> nat \<Rightarrow> string \<Rightarrow> string \<Rightarrow> kext_entry \<Rightarrow> write_result" where
  "write_executable fs fuel outputDirectory kext_name entry =
     (case executable entry of
        None \<Rightarrow> Inr (Some (True, []))
      | Some fileData \<Rightarrow>
          (let subPath = kext_name @ ''.kext/Contents/MacOS'' in
           if length subPath \<ge> path_max fs - 1 then Inr (Some (False, []))
           else
             (case dict_get (=) (e_plist entry) ''CFBundleExecutable'' of
                None \<Rightarrow> Inr (Some (True, []))
              | Some CFOther \<Rightarrow> Inl Fault
              | Some (CFString executableName) \<Rightarrow>
                  Inr (writeFileInDirectory fs fuel outputDirectory subPath executableName fileData))))"

definition write_kext1 ::
  "fs_env \<Rightarrow> nat \<Rightarrow> string \<Rightarrow> string \<Rightarrow> kext_entry \<Rightarrow> write_result" where
  "write_kext1 fs fuel outputDirectory kext_name entry =
     (case plistData entry of
        None \<Rightarrow> Inr (Some (True, []))
      | Some fileData \<Rightarrow>
          (let subPath = kext_name @ ''.kext/Contents'' in
           if length subPath \<ge> path_max fs - 1 then Inr (Some (False, []))
           else then_write
             (Inr (writeFileInDirectory fs fuel outputDirectory subPath ''Info.plist'' fileData))
             (write_executable fs fuel outputDirectory kext_name entry)))"

fun writeMkext1EntriesToDirectory :: "fs_env \<Rightarrow> nat \<Rightarrow> entries \<Rightarrow> string \<Rightarrow> write_result" where
  "writeMkext1EntriesToDirectory fs fuel [] outputDirectory = Inr (Some (True, []))"
| "writeMkext1EntriesToDirectory fs fuel ((kextName, kextEntry) # rest) outputDirectory =
     then_write (write_kext1 fs fuel outputDirectory kextName kextEntry)
       (writeMkext1EntriesToDirectory fs fuel rest outputDirectory)"

section \<open>Version 2 archives\<close>

text \<open>What the OSKext library answers for a kext of a version 2 archive: its info dictionary,
  the XML form of that, its path, its executable, and whether the conversion of its identifier
  and path for the verbose listing works.\<close>

record kext2 =
  infoDict :: "plist option"
  infoDictXML :: "bytes option"
  kext2_path :: "string option"
  kext2_executable :: "bytes option"

text \<open>\<open>rindex\<close>: what follows the last occurrence of a character; \<open>strstr\<close>: what precedes the
  first occurrence of a string.\<close>

definition after_last :: "char \<Rightarrow> string \<Rightarrow> string option" where
  "after_last c s = (if c \<in> set s then Some (rev (takeWhile (\<lambda>x. x \<noteq> c) (rev s))) else None)"

fun before_sub :: "string \<Rightarrow> string \<Rightarrow> string option" where
  "before_sub sub s =
     (if take (length sub) s = sub then Some []
      else (case s of [] \<Rightarrow> None | x # xs \<Rightarrow> map_option ((#) x) (before_sub sub xs)))"

declare before_sub.simps [simp del]

text \<open>The name part of \<open>writeMkext2ToDirectory\<close>: the last path component, numbered if an
  earlier kext has the same. The names used so far are \<open>kextNames\<close>.\<close>

definition kext2_name :: "string list \<Rightarrow> string \<Rightarrow> (unpack_error + string option)" where
  "kext2_name kextNames path =
     (let kextPath = (if path \<noteq> [] \<and> last path = CHR ''/'' then butlast path else path) in
      case after_last (CHR ''/'') kextPath of
        None \<Rightarrow> Inl Fault
      | Some kextName \<Rightarrow>
          if kextName \<notin> set kextNames then Inr (Some kextName)
          else
            (case before_sub ''.kext'' kextName of
               None \<Rightarrow> Inr None
             | Some stem \<Rightarrow>
                 Inr (first_free (\<lambda>n. n \<in> set kextNames) (\<lambda>i. stem @ ''-'' @ dec i @ ''.kext'')
                        (length kextNames + 1) 1)))"

text \<open>The rest of it: the name is added to the set before anything is written.\<close>

definition writeMkext2ToDirectory ::
  "fs_env \<Rightarrow> nat \<Rightarrow> kext2 \<Rightarrow> string \<Rightarrow> string list \<Rightarrow> string list \<times> write_result" where
  "writeMkext2ToDirectory fs fuel aKext outputDirectory kextNames =
     (case infoDict aKext of
        None \<Rightarrow> (kextNames, Inr (Some (False, [])))
      | Some info \<Rightarrow>
          (case kext2_path aKext of
             None \<Rightarrow> (kextNames, Inr (Some (False, [])))
           | Some path \<Rightarrow>
               (case kext2_name kextNames path of
                  Inl e \<Rightarrow> (kextNames, Inl e)
                | Inr None \<Rightarrow> (kextNames, Inr (Some (False, [])))
                | Inr (Some kextName) \<Rightarrow>
                    (kextName # kextNames,
                     (case infoDictXML aKext of
                        None \<Rightarrow> Inr (Some (False, []))
                      | Some file_data \<Rightarrow>
                          (let subPath = kextName @ ''/Contents'' in
                           if length subPath \<ge> path_max fs - 1 then Inr (Some (False, []))
                           else then_write
                             (Inr (writeFileInDirectory fs fuel outputDirectory subPath ''Info.plist'' file_data))
                             (case kext2_executable aKext of
                                None \<Rightarrow> Inr (Some (True, []))
                              | Some exec \<Rightarrow>
                                  (let subPath = kextName @ ''/Contents/MacOS'' in
                                   if length subPath \<ge> path_max fs - 1 then Inr (Some (False, []))
                                   else
                                     (case dict_get (=) info ''CFBundleExecutable'' of
                                        None \<Rightarrow> Inr (Some (False, []))
                                      | Some CFOther \<Rightarrow> Inl Fault
                                      | Some (CFString n) \<Rightarrow>
                                          Inr (writeFileInDirectory fs fuel outputDirectory subPath n exec))))))))))"

text \<open>\<open>writeMkext2EntriesToDirectory\<close>: its \<open>result\<close> is set to false at the start and never
  to true.\<close>

fun write_all_kext2 ::
  "fs_env \<Rightarrow> nat \<Rightarrow> kext2 list \<Rightarrow> string \<Rightarrow> string list \<Rightarrow> write_result" where
  "write_all_kext2 fs fuel [] outputDirectory kextNames = Inr (Some (True, []))"
| "write_all_kext2 fs fuel (theKext # rest) outputDirectory kextNames =
     (case writeMkext2ToDirectory fs fuel theKext outputDirectory kextNames of
        (kextNames, r) \<Rightarrow> then_write r (write_all_kext2 fs fuel rest outputDirectory kextNames))"

definition writeMkext2EntriesToDirectory ::
  "fs_env \<Rightarrow> nat \<Rightarrow> kext2 list \<Rightarrow> string \<Rightarrow> write_result" where
  "writeMkext2EntriesToDirectory fs fuel kexts outputDirectory =
     map_sum id (map_option (\<lambda>(_, ops). (False, ops))) (write_all_kext2 fs fuel kexts outputDirectory [])"

text \<open>\<open>copyKextsFromMkext2\<close>: the library's kexts, dropped again if a path cannot be printed
  in the verbose listing.\<close>

definition copyKextsFromMkext2 :: "bool \<Rightarrow> kext2 list option \<Rightarrow> kext2 list option" where
  "copyKextsFromMkext2 verbose kexts =
     (case kexts of
        None \<Rightarrow> None
      | Some ks \<Rightarrow>
          if verbose \<and> list_ex (\<lambda>k. kext2_path k = None) ks then None else Some ks)"

section \<open>The tool\<close>

text \<open>The options as \<open>getopt\<close> delivers them (a missing argument never reaches the switch),
  and the settings they make.\<close>

datatype tool_opt = Opt_d string | Opt_h | Opt_v | Opt_a string | Opt_unknown

record settings =
  outputDirectory :: "string option"
  verbose :: bool
  wanted_arch :: "arch_info option"

text \<open>\<open>Inl\<close> is an exit code. An unknown option is passed over.\<close>

fun read_options ::
  "(string \<Rightarrow> arch_info option) \<Rightarrow> tool_opt list \<Rightarrow> settings \<Rightarrow> int + settings" where
  "read_options archs [] st = Inr st"
| "read_options archs (Opt_d d # os) st = read_options archs os (st\<lparr>outputDirectory := Some d\<rparr>)"
| "read_options archs (Opt_h # os) st = Inl 0"
| "read_options archs (Opt_v # os) st = read_options archs os (st\<lparr>verbose := True\<rparr>)"
| "read_options archs (Opt_a name # os) st =
     (case archs name of
        None \<Rightarrow> Inl 1
      | Some a \<Rightarrow> read_options archs os (st\<lparr>wanted_arch := Some a\<rparr>))"
| "read_options archs (Opt_unknown # os) st = read_options archs os st"

text \<open>What the system says about the two paths: a directory that can be written to, and a
  regular file with its contents.\<close>

record sys_env =
  good_directory :: "string \<Rightarrow> bool"
  mapped_file :: "string \<Rightarrow> bytes option"
  fat_of :: "bytes \<Rightarrow> fat_file"
  local_arch :: arch_info
  mkext2_kexts :: "bytes \<Rightarrow> kext2 list option"

text \<open>\<open>main\<close>: the exit code and the operations on the output directory. \<open>order\<close> is the order
  in which \<open>CFDictionaryGetKeysAndValues\<close> lists the entries.\<close>

definition write_exit :: "write_result \<Rightarrow> unpack_error + (int \<times> fs_op list) option" where
  "write_exit r = map_sum id (map_option (\<lambda>(ok, ops). (if ok then 0 else 1, ops))) r"

definition mkextunpack_archive ::
  "(string \<Rightarrow> 'f) \<Rightarrow> mkext_abi \<Rightarrow> unpack_env \<Rightarrow> fs_env \<Rightarrow> sys_env \<Rightarrow> (entries \<Rightarrow> entries) \<Rightarrow> nat \<Rightarrow>
   settings \<Rightarrow> bytes \<Rightarrow> u32 \<Rightarrow> unpack_error + (int \<times> fs_op list) option" where
  "mkextunpack_archive cf abi env fs sys order fuel st mk version =
     (if version = MKEXT_VERS_2 abi then
        (case copyKextsFromMkext2 (verbose st) (mkext2_kexts sys mk) of
           None \<Rightarrow> Inr (Some (1, []))
         | Some oskexts \<Rightarrow>
             (case outputDirectory st of
                None \<Rightarrow> Inr (Some (0, []))
              | Some dir \<Rightarrow> write_exit (writeMkext2EntriesToDirectory fs fuel oskexts dir)))
      else if version = MKEXT_VERS_1 abi then
        (case extractEntriesFromMkext1 cf abi (env\<lparr>gVerbose := verbose st\<rparr>) mk of
           Inl e \<Rightarrow> Inl e
         | Inr None \<Rightarrow> Inr (Some (1, []))
         | Inr (Some entries) \<Rightarrow>
             (case outputDirectory st of
                None \<Rightarrow> Inr (Some (0, []))
              | Some dir \<Rightarrow> write_exit (writeMkext1EntriesToDirectory fs fuel (order entries) dir)))
      else Inr (Some (0, [])))"

definition mkextunpack_main ::
  "(string \<Rightarrow> 'f) \<Rightarrow> mkext_abi \<Rightarrow> unpack_env \<Rightarrow> fs_env \<Rightarrow> sys_env \<Rightarrow> (entries \<Rightarrow> entries) \<Rightarrow> nat \<Rightarrow>
   (string \<Rightarrow> arch_info option) \<Rightarrow> tool_opt list \<Rightarrow> string list \<Rightarrow>
   unpack_error + (int \<times> fs_op list) option" where
  "mkextunpack_main cf abi env fs sys order fuel archs opts args =
     (case read_options archs opts \<lparr>outputDirectory = None, verbose = False, wanted_arch = None\<rparr> of
        Inl code \<Rightarrow> Inr (Some (code, []))
      | Inr st \<Rightarrow>
          (case args of
             [mkextFile] \<Rightarrow>
               if outputDirectory st = None \<and> \<not> verbose st then Inr (Some (1, []))
               else if (case outputDirectory st of None \<Rightarrow> False | Some d \<Rightarrow> \<not> good_directory sys d)
               then Inr (Some (1, []))
               else
                 (case mapped_file sys mkextFile of
                    None \<Rightarrow> Inr (Some (1, []))
                  | Some contents \<Rightarrow>
                      if contents = [] then Inr (Some (1, []))
                      else
                        (case getMkextDataForArch abi (fat_of sys contents) (local_arch sys) (wanted_arch st) contents of
                           Inl Fault \<Rightarrow> Inl Fault
                         | Inl _ \<Rightarrow> Inr (Some (1, []))
                         | Inr (mk, version) \<Rightarrow>
                             mkextunpack_archive cf abi env fs sys order fuel st mk version))
           | _ \<Rightarrow> Inr (Some (1, []))))"

end
