(* ===== verification/MkextProps.thy ===== *)
theory MkextProps
  imports Mkextunpack
begin

text \<open>
  Properties of the archive tools that do not need the archive's layout: which kexts are
  selected, how kexts are named, what is written to a directory, and how errors end the
  extraction.
\<close>

section \<open>Selection\<close>

text \<open>What the dictionary of the selection loop says of the kexts seen so far.\<close>

definition selected :: "arch_info \<Rightarrow> oskext set \<Rightarrow> (string \<times> oskext) list \<Rightarrow> bool" where
  "selected arch seen d \<longleftrightarrow> distinct (map fst d) \<and>
     (\<forall>i k. dict_get (=) d i = Some k \<longrightarrow> k \<in> seen \<and> k_identifier k = i \<and> k_supports k arch) \<and>
     (\<forall>k \<in> seen. k_supports k arch \<longrightarrow>
        (\<exists>k'. dict_get (=) d (k_identifier k) = Some k' \<and> k_version k \<le> k_version k'))"

lemma selected_put:
  assumes "selected arch seen d" and k: "k_supports k arch"
    and newer: "\<And>k'. dict_get (=) d (k_identifier k) = Some k' \<Longrightarrow> k_version k' \<le> k_version k"
  shows "selected arch (insert k seen) (dict_set (=) d (k_identifier k) k)"
proof -
  have get: "dict_get (=) (dict_set (=) d (k_identifier k) k) i =
      (if k_identifier k = i then Some k else dict_get (=) d i)" for i
    by (rule exact.get_put)
  have "\<exists>k'. dict_get (=) (dict_set (=) d (k_identifier k) k) (k_identifier x) = Some k' \<and>
      k_version x \<le> k_version k'" if "x \<in> seen" "k_supports x arch" for x
  proof (cases "k_identifier k = k_identifier x")
    case True
    with that assms(1) newer show ?thesis
      by (auto simp: selected_def get)
  next
    case False
    with that assms(1) show ?thesis by (simp add: selected_def get)
  qed
  then show ?thesis
    using assms(1) k by (auto simp: selected_def get distinct_dict_set split: if_splits)
qed

lemma select_kexts_selected:
  "selected arch seen d \<Longrightarrow> selected arch (seen \<union> set ks) (select_kexts arch ks d)"
proof (induction ks arbitrary: seen d)
  case (Cons k ks)
  have skip: "selected arch (insert k seen) d"
    if "\<not> k_supports k arch \<or> (\<exists>s. dict_get (=) d (k_identifier k) = Some s \<and> k_version k \<le> k_version s)"
    using Cons.prems that by (auto simp: selected_def)
  show ?case
  proof (cases "k_supports k arch \<and>
      (\<forall>s. dict_get (=) d (k_identifier k) = Some s \<longrightarrow> k_version s < k_version k)")
    case True
    have "selected arch (insert k seen) (dict_set (=) d (k_identifier k) k)"
      using True by (intro selected_put [OF Cons.prems]) (auto intro: order.strict_implies_order)
    from Cons.IH [OF this] True show ?thesis by (auto simp: Let_def split: option.splits)
  next
    case False
    then have "select_kexts arch (k # ks) d = select_kexts arch ks d"
      by (auto simp: Let_def split: option.splits)
    moreover have "selected arch (insert k seen) d" using False by (intro skip) (auto simp: not_less)
    ultimately show ?thesis using Cons.IH [of "insert k seen" d] by simp
  qed
qed simp

lemma selected_source:
  assumes "(i, k) \<in> set (select_kexts arch ks [])"
  shows "k \<in> set ks \<and> k_supports k arch"
proof -
  have S: "selected arch (set ks) (select_kexts arch ks [])"
    using select_kexts_selected [of arch "{}" "[]" ks] by (simp add: selected_def)
  then have "dict_get (=) (select_kexts arch ks []) i = Some k"
    using assms in_set_dict_get [of "select_kexts arch ks []" i k] by (auto simp: selected_def)
  with S show ?thesis by (simp add: selected_def)
qed

text \<open>C30. Of the kexts of the input that support the architecture the archive gets exactly one
  per bundle identifier, and no other kext of that identifier has a higher version.\<close>

theorem select_kexts_latest:
  fixes ks :: "oskext list" and arch :: arch_info
  defines "d \<equiv> select_kexts arch ks []"
  shows "distinct (map fst d) \<and>
    (\<forall>i k. (i, k) \<in> set d \<longrightarrow> k \<in> set ks \<and> k_identifier k = i \<and> k_supports k arch) \<and>
    (\<forall>k \<in> set ks. k_supports k arch \<longrightarrow>
       (\<exists>k'. (k_identifier k, k') \<in> set d \<and> k_version k \<le> k_version k'))"
proof -
  have S: "selected arch (set ks) d"
    unfolding d_def using select_kexts_selected [of arch "{}" "[]" ks] by (simp add: selected_def)
  have "(i, k) \<in> set d \<longleftrightarrow> dict_get (=) d i = Some k" for i k
    using S dict_get_in_set [of d i k] in_set_dict_get [of d i k] by (auto simp: selected_def)
  with S show ?thesis unfolding selected_def by simp
qed

section \<open>Names\<close>

text \<open>Case folding keeps numbered names apart.\<close>

definition folds_digits :: "(string \<Rightarrow> 'f) \<Rightarrow> bool" where
  "folds_digits cf \<longleftrightarrow> (\<forall>s i j. cf (s @ ''-'' @ dec i) = cf (s @ ''-'' @ dec j) \<longrightarrow> i = j)"

text \<open>A name taken from the plist is found whenever one is suggested: it is the suggested
  name, or that name with a number, and no entry so far has it, even up to case; the loop that
  looks for the number always ends, at the latest after as many numbers as there are entries.\<close>

theorem createKextName_fresh:
  assumes "folds_digits cf" and "plist_name pl = Inr (Some base)"
  shows "\<exists>name. createKextNameFromPlist cf entries pl n = Inr (Some name, n) \<and>
    dict_get (fold_eq cf) entries name = None \<and>
    (name = base \<or> (\<exists>i. 1 \<le> i \<and> i \<le> length entries + 1 \<and> name = base @ ''-'' @ dec i))"
proof (cases "dict_get (fold_eq cf) entries base")
  case None
  with assms(2) show ?thesis by (simp add: createKextNameFromPlist_def)
next
  case (Some e)
  let ?taken = "\<lambda>s. dict_get (fold_eq cf) entries s \<noteq> None"
  let ?name = "\<lambda>i. base @ ''-'' @ dec i"
  have "\<exists>i \<le> length entries. dict_get (fold_eq cf) entries (?name (i + 1)) = None"
  proof (rule folded.free_name [where name = "\<lambda>i. ?name (i + 1)"])
    show "\<not> fold_eq cf (?name (i + 1)) (?name (j + 1))" if "i < j" "j \<le> length entries" for i j
      using assms(1) that unfolding folds_digits_def fold_eq_def
      by (metis add_right_cancel nat_neq_iff)
  qed simp
  then obtain i where i: "i \<le> length entries" "dict_get (fold_eq cf) entries (?name (i + 1)) = None" by blast
  then obtain s where s: "first_free ?taken ?name (length entries + 1) 1 = Some s"
    using first_free_exists [of ?taken ?name "i + 1" 1 "length entries + 1"] by auto
  note S = first_free_Some [OF s] first_free_bound [OF s]
  have "createKextNameFromPlist cf entries pl n = Inr (Some s, n)"
    using assms(2) Some s by (simp add: createKextNameFromPlist_def del: first_free.simps)
  with S show ?thesis by auto
qed

definition demo_kext :: "string \<Rightarrow> int \<Rightarrow> oskext" where
  "demo_kext i v = \<lparr>k_identifier = i, k_version = v, k_supports = (\<lambda>_. True), k_bundle = True,
     k_info_url = True, k_info_path = True, k_info_data = Some [60], k_executable = (\<lambda>_. None),
     k_declares_exec = False\<rparr>"

lemma select_kexts_latest_witness:
  "\<exists>k'. (''a'', k') \<in> set (select_kexts \<lparr>cputype = 7, cpusubtype = 3\<rparr>
      [demo_kext ''a'' 1, demo_kext ''b'' 5, demo_kext ''a'' 3] []) \<and> 3 \<le> k_version k'"
  using select_kexts_latest [of "\<lparr>cputype = 7, cpusubtype = 3\<rparr>"
      "[demo_kext ''a'' 1, demo_kext ''b'' 5, demo_kext ''a'' 3]"]
  by (auto simp: demo_kext_def)

lemma folds_digits_id: "folds_digits id"
  by (simp add: folds_digits_def)

lemma createKextName_fresh_witness:
  "\<exists>name. createKextNameFromPlist id [(''Foo'', ()), (''Foo-1'', ())]
      [(''CFBundleExecutable'', CFString ''Foo'')] 1 = Inr (Some name, 1) \<and>
    dict_get (fold_eq id) [(''Foo'', ()), (''Foo-1'', ())] name = None"
proof -
  have "plist_name [(''CFBundleExecutable'', CFString ''Foo'')] = Inr (Some ''Foo'')" by code_simp
  from createKextName_fresh [OF folds_digits_id this] show ?thesis by blast
qed

text \<open>Two kexts of a version 2 archive are never written under one name: the name chosen is
  not among the names used so far, and a kext whose path has the suffix ".kext" always gets
  one.\<close>

theorem kext2_name_fresh:
  "(\<forall>name. kext2_name kextNames path = Inr (Some name) \<longrightarrow> name \<notin> set kextNames) \<and>
   (CHR ''/'' \<notin> set stem \<longrightarrow> stem \<noteq> [] \<longrightarrow>
      (\<exists>name. kext2_name kextNames (dir @ ''/'' @ stem @ ''.kext'') = Inr (Some name)))"
proof (intro conjI allI impI)
  show "name \<notin> set kextNames" if "kext2_name kextNames path = Inr (Some name)" for name
    using that by (auto simp: kext2_name_def Let_def split: option.splits if_splits dest: first_free_Some)
next
  assume stem: "CHR ''/'' \<notin> set stem" "stem \<noteq> []"
  let ?name = "stem @ ''.kext''"
  have last: "after_last (CHR ''/'') (dir @ ''/'' @ ?name) = Some ?name"
  proof -
    have "CHR ''/'' \<notin> set (rev ?name)" using stem by auto
    then have "takeWhile (\<lambda>x. x \<noteq> CHR ''/'') (rev (dir @ ''/'' @ ?name)) = rev ?name"
      using takeWhile_until [of "CHR ''/''" "rev ?name" "rev dir"] by simp
    then have "rev (takeWhile (\<lambda>x. x \<noteq> CHR ''/'') (rev (dir @ ''/'' @ ?name))) = ?name" by simp
    then show ?thesis by (simp only: after_last_def) simp
  qed
  have sub: "\<exists>p. before_sub ''.kext'' (s @ ''.kext'') = Some p" for s
    by (induction s) (auto simp: before_sub.simps [of _ "_ # _"] split: option.splits)
  show "\<exists>name. kext2_name kextNames (dir @ ''/'' @ stem @ ''.kext'') = Inr (Some name)"
  proof (cases "?name \<in> set kextNames")
    case False
    with last show ?thesis by (simp add: kext2_name_def)
  next
    case True
    obtain p where p: "before_sub ''.kext'' ?name = Some p" using sub by blast
    let ?num = "\<lambda>i. p @ ''-'' @ dec i @ ''.kext''"
    let ?keys = "map (\<lambda>n. (n, ())) kextNames"
    have "\<exists>i \<le> length kextNames. dict_get (=) ?keys (?num (i + 1)) = None"
      by (rule exact.free_name [where name = "\<lambda>i. ?num (i + 1)"]) simp_all
    moreover have "map fst ?keys = kextNames" by (simp add: comp_def)
    ultimately obtain i where i: "i \<le> length kextNames" "?num (i + 1) \<notin> set kextNames"
      using exact.get_keys [of ?keys] by metis
    then have "\<exists>s. first_free (\<lambda>n. n \<in> set kextNames) ?num (length kextNames + 1) 1 = Some s"
      by (intro first_free_exists [where j = "i + 1"]) simp_all
    with True last p show ?thesis by (simp add: kext2_name_def del: first_free.simps)
  qed
qed

lemma kext2_name_fresh_witness:
  "\<exists>name. kext2_name [''a.kext'', ''a-1.kext''] (''/x'' @ ''/'' @ ''a'' @ ''.kext'') = Inr (Some name)"
  using kext2_name_fresh [of "[''a.kext'', ''a-1.kext'']" "[]" "''a''" "''/x''"] by simp

section \<open>Writing to the directory\<close>

fun path_prefixes :: "string \<Rightarrow> string list \<Rightarrow> string list" where
  "path_prefixes base [] = []"
| "path_prefixes base (c # cs) = (base @ ''/'' @ c) # path_prefixes (base @ ''/'' @ c) cs"

definition full_path :: "string \<Rightarrow> string list \<Rightarrow> string" where
  "full_path base cs = fold (\<lambda>c p. p @ ''/'' @ c) cs base"

lemma full_path_Cons: "full_path base (c # cs) = full_path (base @ ''/'' @ c) cs"
  by (simp add: full_path_def)

lemma full_path_length: "length base \<le> length (full_path base cs)"
proof (induction cs arbitrary: base)
  case (Cons c cs)
  from Cons.IH [of "base @ ''/'' @ c"] show ?case by (simp add: full_path_Cons)
qed (simp add: full_path_def)

lemma make_dirs_ok:
  "length (full_path base cs) < path_max fs \<Longrightarrow> \<forall>p. mkdir_ok fs p \<Longrightarrow>
     make_dirs fs base cs = (Some (full_path base cs), map Mkdir (path_prefixes base cs))"
proof (induction cs arbitrary: base)
  case (Cons c cs)
  let ?p = "base @ ''/'' @ c"
  have "length ?p < path_max fs"
    using Cons.prems(1) full_path_length [of ?p cs] by (simp only: full_path_Cons)
  with Cons show ?case by (simp add: full_path_Cons Let_def)
qed (simp add: full_path_def)

text \<open>When the system calls succeed, writing makes progress and the path fits,
  \<open>writeFileInDirectory\<close> makes every directory of the sub-path from the outside in, opens the
  file in the innermost one, writes exactly the data and reports success.\<close>

theorem writeFileInDirectory_complete:
  assumes "\<forall>p. mkdir_ok fs p" "\<forall>p. open_ok fs p" "write_progress (write_result fs)"
    and "length base < path_max fs"
    and "length (full_path base (split_on (CHR ''/'') sub) @ ''/'' @ name) < path_max fs"
    and "length data < 2 ^ 32"
  shows "\<exists>chunks. writeFileInDirectory fs (length data + 1) base sub name data =
      Some (True, map Mkdir (path_prefixes base (split_on (CHR ''/'') sub)) @
        OpenFile (full_path base (split_on (CHR ''/'') sub) @ ''/'' @ name) # map WriteBytes chunks) \<and>
    concat chunks = data"
proof -
  have "n mod 2 ^ 32 = n" if "n \<le> length data" for n using that assms(6) by simp
  then obtain chunks where c: "concat chunks = data"
    "write_loop (\<lambda>n. n mod 2 ^ 32) (write_result fs) (length data + 1) data 0 = Some (True, chunks)"
    using write_loop_complete [OF assms(3), of data "\<lambda>n. n mod 2 ^ 32" 0 "length data + 1"] by auto
  have "make_dirs fs base (split_on (CHR ''/'') sub) =
      (Some (full_path base (split_on (CHR ''/'') sub)), map Mkdir (path_prefixes base (split_on (CHR ''/'') sub)))"
    using assms(1,5) by (intro make_dirs_ok) auto
  with c show ?thesis
    using assms(2,4,5)
    by (intro exI [of _ chunks]) (simp add: writeFileInDirectory_def Let_def del: write_loop.simps)
qed

definition demo_fs :: fs_env where
  "demo_fs = \<lparr>mkdir_ok = (\<lambda>_. True), open_ok = (\<lambda>_. True), write_result = (\<lambda>off n. 1), path_max = 64\<rparr>"

lemma writeFileInDirectory_complete_witness:
  "\<exists>chunks. writeFileInDirectory demo_fs 3 ''/o'' ''a.kext/Contents'' ''Info.plist'' [1, 2] =
      Some (True, map Mkdir (path_prefixes ''/o'' (split_on (CHR ''/'') ''a.kext/Contents'')) @
        OpenFile (full_path ''/o'' (split_on (CHR ''/'') ''a.kext/Contents'') @ ''/'' @ ''Info.plist'') #
        map WriteBytes chunks) \<and> concat chunks = [1, 2]"
proof -
  have "\<forall>p. mkdir_ok demo_fs p" "\<forall>p. open_ok demo_fs p" "write_progress (write_result demo_fs)"
    "length ''/o'' < path_max demo_fs"
    by (simp_all add: demo_fs_def write_progress_def)
  moreover have "length (full_path ''/o'' (split_on (CHR ''/'') ''a.kext/Contents'') @ ''/'' @ ''Info.plist'') <
      path_max demo_fs"
    by code_simp
  moreover have "length [1, 2 :: byte] + 1 = 3" by simp
  ultimately show ?thesis
    using writeFileInDirectory_complete [of demo_fs "''/o''" "''a.kext/Contents''" "''Info.plist''" "[1, 2]"]
    by (simp only:) simp
qed

text \<open>\<open>writeMkext2EntriesToDirectory\<close> always reports failure, also when every kext was
  written: the tool exits with 1 for every version 2 archive that it unpacks into a
  directory.\<close>

theorem writeMkext2_always_fails:
  "writeMkext2EntriesToDirectory fs fuel kexts dir = Inr (Some (ok, ops)) \<longrightarrow> \<not> ok"
  by (cases "write_all_kext2 fs fuel kexts dir []") (auto simp: writeMkext2EntriesToDirectory_def)

lemma writeMkext2_always_fails_witness: "writeMkext2EntriesToDirectory demo_fs 3 [] ''/o'' = Inr (Some (False, []))"
proof -
  have "writeMkext2EntriesToDirectory demo_fs 3 [] ''/o'' \<noteq> Inr (Some (True, []))"
    using writeMkext2_always_fails [of demo_fs 3 "[]" "''/o''" True "[]"] by blast
  then show ?thesis by (simp add: writeMkext2EntriesToDirectory_def)
qed

section \<open>Errors during the extraction\<close>

lemma extract_turn_no_abort: "dict_ok env \<Longrightarrow> extract_turn cf abi env mk i u \<noteq> Abort"
  by (auto simp: extract_turn_def add_entry_def Let_def
      split: sum.splits option.splits unpack_error.splits if_splits)

lemma extract_loop_no_abort: "dict_ok env \<Longrightarrow> extract_loop cf abi env mk i n u \<noteq> Abort"
  by (induction n arbitrary: i u) (auto split: turn.splits simp: extract_turn_no_abort)

text \<open>The failure flag of \<open>extractEntriesFromMkext1\<close> is never set by an error in an entry:
  while dictionaries can be made, the function does not return NULL, and when the info
  dictionary of a kext cannot be parsed it returns the kexts before it as if they were all.\<close>

theorem extract_errors_hidden:
  assumes "dict_ok env"
  shows "extractEntriesFromMkext1 cf abi env mk \<noteq> Inr None \<and>
    (unat (get32 (o_numkexts abi) mk) = Suc n \<and> o_kext abi + sizeof_kext abi \<le> length mk \<and>
     uncompressMkext1Entry abi (malloc_ok env) (u_junk env) mk (file_entry abi 0 True) = Inr (Some data) \<and>
     parse_plist env data = None \<longrightarrow>
     extractEntriesFromMkext1 cf abi env mk = Inr (Some []))"
proof (intro conjI impI)
  show "extractEntriesFromMkext1 cf abi env mk \<noteq> Inr None"
  proof -
    have "extract_loop cf abi env mk 0 (unat (get32 (o_numkexts abi) mk))
        \<lparr>u_entries = [], nameUnknown = 1\<rparr> \<noteq> Abort"
      by (rule extract_loop_no_abort [OF assms])
    then show ?thesis by (auto simp: extractEntriesFromMkext1_def split: turn.splits)
  qed
next
  assume "unat (get32 (o_numkexts abi) mk) = Suc n \<and> o_kext abi + sizeof_kext abi \<le> length mk \<and>
     uncompressMkext1Entry abi (malloc_ok env) (u_junk env) mk (file_entry abi 0 True) = Inr (Some data) \<and>
     parse_plist env data = None"
  then show "extractEntriesFromMkext1 cf abi env mk = Inr (Some [])"
    using assms by (simp add: extractEntriesFromMkext1_def extract_turn_def)
qed

text \<open>A published layout and constants, and an archive with one kext, for the examples.\<close>

definition demo_abi :: mkext_abi where
  "demo_abi = \<lparr>MKEXT_MAGIC = 0x4D4B5854, MKEXT_SIGN = 0x4D4F5358,
     MKEXT_VERS_1 = 0x01008000, MKEXT_VERS_2 = 0x02002001, sizeof_header = 64, sizeof_kext = 32,
     o_magic = 0, o_signature = 4, o_length = 8, o_adler32 = 12, o_version = 16, o_numkexts = 20,
     o_cputype = 24, o_cpusubtype = 28, o_kext = 32, k_plist = 0, k_module = 16,
     f_offset = 0, f_compsize = 4, f_realsize = 8, f_modifiedsecs = 12\<rparr>"

lemma demo_abi_ok: "abi_ok demo_abi"
  by (simp add: abi_ok_def demo_abi_def)

definition demo_arch :: arch_info where
  "demo_arch = \<lparr>cputype = 7, cpusubtype = 3\<rparr>"

definition demo_unpack_env :: unpack_env where
  "demo_unpack_env = \<lparr>gVerbose = False, KMOD_MAX_NAME = 64, PATH_MAX = 1024, dict_ok = True,
     malloc_ok = True,
     parse_plist = (\<lambda>d. if d = [60] then Some (Some [(''CFBundleExecutable'', CFString ''Foo'')]) else None),
     u_junk = (\<lambda>_. 0)\<rparr>"

definition demo_mkext_env :: mkext_env where
  "demo_mkext_env = \<lparr>can_create = True, can_resize = True, can_compress = True, can_check = True,
     stack_junk = (\<lambda>_. 0)\<rparr>"

text \<open>An archive with one kext whose info dictionary is one byte, stored uncompressed after
  the descriptors. (The extraction does not look at the rest of the header.)\<close>

definition demo_archive :: "byte \<Rightarrow> bytes" where
  "demo_archive b =
     replicate 20 0 @ [0, 0, 0, 1] @ replicate 8 0 @
     [0, 0, 0, 96] @ [0, 0, 0, 0] @ [0, 0, 0, 1] @ replicate 52 0 @ [b]"

lemma extract_errors_hidden_witness:
  "extractEntriesFromMkext1 id demo_abi demo_unpack_env (demo_archive 61) = Inr (Some [])"
proof -
  have "dict_ok demo_unpack_env" by (simp add: demo_unpack_env_def)
  moreover have "unat (get32 (o_numkexts demo_abi) (demo_archive 61)) = Suc 0"
    by code_simp
  moreover have "o_kext demo_abi + sizeof_kext demo_abi \<le> length (demo_archive 61)"
    by code_simp
  moreover have "uncompressMkext1Entry demo_abi (malloc_ok demo_unpack_env) (u_junk demo_unpack_env)
       (demo_archive 61) (file_entry demo_abi 0 True) = Inr (Some [61])"
    by code_simp
  moreover have "parse_plist demo_unpack_env [61] = None"
    by code_simp
  ultimately show ?thesis
    using extract_errors_hidden [of demo_unpack_env id demo_abi "demo_archive 61" 0 "[61]"] by blast
qed

end
