(* ===== verification/LzssTree.thy ===== *)
theory LzssTree
  imports Lzss
begin

text \<open>
  The search trees of the LZSS encoder: the invariant of the three index arrays, and its
  preservation by \<open>insert_node\<close> and \<open>delete_node\<close>. The invariant carries a rank that grows
  along every path, which bounds the walks down the trees: the fuel is never used up. The two
  changes that the code makes to a tree, taking a node out that has at most one child and
  putting a new node in the place of an old one, are treated once, and the removal of a node
  with two children is composed of them.
\<close>

section \<open>The invariant\<close>

definition in_tree :: "nat carray \<Rightarrow> nat \<Rightarrow> bool" where
  "in_tree par p \<longleftrightarrow> p < lz_N \<and> par p \<noteq> NIL"

definition is_root :: "nat \<Rightarrow> bool" where
  "is_root p \<longleftrightarrow> lz_N < p \<and> p \<le> lz_N + 256"

definition live :: "nat carray \<Rightarrow> nat \<Rightarrow> bool" where
  "live par p \<longleftrightarrow> in_tree par p \<or> is_root p"

text \<open>The tree that a node belongs to: the first character of its string; a root stands for
  its character.\<close>

definition colour :: "byte carray \<Rightarrow> nat \<Rightarrow> nat" where
  "colour buf p = (if p < lz_N then unat (buf p) else p - (lz_N + 1))"

definition child_ok :: "(nat \<Rightarrow> nat) \<Rightarrow> nat carray \<Rightarrow> (nat \<Rightarrow> nat) \<Rightarrow> nat \<Rightarrow> nat \<Rightarrow> bool" where
  "child_ok col par d p c \<longleftrightarrow> c = NIL \<or> (c < lz_N \<and> par c = p \<and> d p < d c \<and> col c = col p)"

definition parent_ok :: "nat carray \<Rightarrow> nat carray \<Rightarrow> nat carray \<Rightarrow> (nat \<Rightarrow> nat) \<Rightarrow> nat \<Rightarrow> bool" where
  "parent_ok lch rch par d p \<longleftrightarrow> live par (par p) \<and> d (par p) < d p \<and>
     (rch (par p) = p \<or> par p < lz_N \<and> lch (par p) = p)"

definition tree_ok ::
  "(nat \<Rightarrow> nat) \<Rightarrow> nat carray \<Rightarrow> nat carray \<Rightarrow> nat carray \<Rightarrow> (nat \<Rightarrow> nat) \<Rightarrow> bool" where
  "tree_ok col lch rch par d \<longleftrightarrow>
     (\<forall>p. live par p \<longrightarrow> child_ok col par d p (rch p)) \<and>
     (\<forall>p. in_tree par p \<longrightarrow> child_ok col par d p (lch p) \<and> (lch p \<noteq> NIL \<longrightarrow> lch p \<noteq> rch p)) \<and>
     (\<forall>p. in_tree par p \<longrightarrow> parent_ok lch rch par d p)"

lemma tree_okD:
  assumes "tree_ok col lch rch par d"
  shows "live par p \<Longrightarrow> child_ok col par d p (rch p)"
    and "in_tree par p \<Longrightarrow> child_ok col par d p (lch p)"
    and "in_tree par p \<Longrightarrow> lch p \<noteq> NIL \<Longrightarrow> lch p \<noteq> rch p"
    and "in_tree par p \<Longrightarrow> parent_ok lch rch par d p"
  using assms by (auto simp: tree_ok_def)

lemma child_nil: "child_ok col par d p NIL"
  by (simp add: child_ok_def)

lemma tree_okI:
  assumes "\<And>p. live par p \<Longrightarrow> child_ok col par d p (rch p)"
    and "\<And>p. in_tree par p \<Longrightarrow> child_ok col par d p (lch p)"
    and "\<And>p. in_tree par p \<Longrightarrow> lch p \<noteq> NIL \<Longrightarrow> lch p \<noteq> rch p"
    and "\<And>p. in_tree par p \<Longrightarrow> parent_ok lch rch par d p"
  shows "tree_ok col lch rch par d"
  using assms by (simp add: tree_ok_def)

lemma is_root_simps: "is_root p \<Longrightarrow> \<not> p < lz_N" "is_root p \<Longrightarrow> p \<noteq> NIL"
  by (auto simp: is_root_def)

lemma live_in_tree: "live par p \<Longrightarrow> p < lz_N \<Longrightarrow> in_tree par p"
  by (auto simp: live_def is_root_def)

lemma live_not_NIL: "live par p \<Longrightarrow> p \<noteq> NIL"
  by (auto simp: live_def in_tree_def is_root_def)

text \<open>A node without a parent is nobody's child.\<close>

lemma not_child:
  assumes "tree_ok col lch rch par d" "\<not> in_tree par r" "r < lz_N"
  shows "live par p \<Longrightarrow> rch p \<noteq> r" and "in_tree par p \<Longrightarrow> lch p \<noteq> r"
proof -
  show "rch p \<noteq> r" if "live par p"
    using tree_okD(1) [OF assms(1) that] live_not_NIL [OF that] assms(2,3)
    by (auto simp: child_ok_def in_tree_def)
  show "lch p \<noteq> r" if "in_tree par p"
  proof -
    have "p \<noteq> NIL" using that by (auto simp: in_tree_def)
    then show ?thesis using tree_okD(2) [OF assms(1) that] assms(2,3) by (auto simp: child_ok_def in_tree_def)
  qed
qed

text \<open>Only the live parts of the arrays matter.\<close>

lemma tree_ok_cong:
  assumes ok: "tree_ok col lch rch par d"
    and par: "\<And>p. p < lz_N \<Longrightarrow> par' p = par p"
    and rch: "\<And>p. live par p \<Longrightarrow> rch' p = rch p"
    and lch: "\<And>p. in_tree par p \<Longrightarrow> lch' p = lch p"
  shows "tree_ok col lch' rch' par' d"
proof -
  have i: "in_tree par' = in_tree par" using par by (auto simp: in_tree_def fun_eq_iff)
  then have l: "live par' = live par" by (auto simp: live_def fun_eq_iff)
  have c: "child_ok col par' d p c = child_ok col par d p c" for p c
    using par by (auto simp: child_ok_def)
  have "parent_ok lch' rch' par' d p" if "in_tree par p" for p
  proof -
    have p: "p < lz_N" using that by (simp add: in_tree_def)
    from tree_okD(4) [OF ok that] show ?thesis
      using par [OF p] rch [of "par p"] lch [of "par p"] live_in_tree [of par "par p"]
      by (auto simp: parent_ok_def l)
  qed
  with ok rch lch show ?thesis
    by (intro tree_okI) (simp_all add: i l c tree_okD, metis live_def tree_okD(3))
qed

section \<open>The changes of a tree\<close>

text \<open>A new leaf below \<open>p\<close>, on the right or on the left.\<close>

lemma tree_ok_leaf_right:
  assumes ok: "tree_ok col lch rch par d" and new: "\<not> in_tree par r" "r < lz_N"
    and none: "lch r = NIL" "rch r = NIL"
    and p: "live par p" "rch p = NIL" "col p = col r"
  shows "tree_ok col lch (rch(p := r)) (par(r := p)) (d(r := d p + 1))"
proof -
  have pr: "p \<noteq> r" using p(1) new by (auto simp: live_def is_root_def)
  have pn: "p \<noteq> NIL" using live_not_NIL [OF p(1)] .
  have live': "live (par(r := p)) q \<longleftrightarrow> live par q \<or> q = r" for q
    using new pn by (auto simp: live_def in_tree_def)
  have tree': "in_tree (par(r := p)) q \<longleftrightarrow> in_tree par q \<or> q = r" for q
    using new pn by (auto simp: in_tree_def)
  note nc = not_child [OF ok new]
  have chr: "child_ok col (par(r := p)) (d(r := d p + 1)) q ((rch(p := r)) q)" if "live par q" for q
    using tree_okD(1) [OF ok that] nc(1) [OF that] p new pr that
    by (auto simp: child_ok_def live_def is_root_def)
  have chl: "child_ok col (par(r := p)) (d(r := d p + 1)) q (lch q)" if "in_tree par q" for q
    using tree_okD(2) [OF ok that] nc(2) [OF that] new that
    by (auto simp: child_ok_def in_tree_def)
  have pa: "parent_ok lch (rch(p := r)) (par(r := p)) (d(r := d p + 1)) q" if "in_tree par q" for q
    using tree_okD(4) [OF ok that] that new p pr
    by (auto simp: parent_ok_def live' live_def is_root_def in_tree_def)
  show ?thesis
  proof (rule tree_okI)
    fix q assume "live (par(r := p)) q"
    then show "child_ok col (par(r := p)) (d(r := d p + 1)) q ((rch(p := r)) q)"
      using chr [of q] none pr by (cases "q = r") (simp_all add: live' child_nil)
  next
    fix q assume "in_tree (par(r := p)) q"
    then show "child_ok col (par(r := p)) (d(r := d p + 1)) q (lch q)"
      using chl [of q] none by (cases "q = r") (simp_all add: tree' child_nil)
  next
    fix q assume "in_tree (par(r := p)) q" "lch q \<noteq> NIL"
    with none tree_okD(3) [OF ok] nc(2) show "lch q \<noteq> (rch(p := r)) q"
      by (auto simp: tree')
  next
    fix q assume "in_tree (par(r := p)) q"
    then show "parent_ok lch (rch(p := r)) (par(r := p)) (d(r := d p + 1)) q"
      using pa [of q] p(1) pr
      by (cases "q = r") (simp_all add: tree', simp add: parent_ok_def live')
  qed
qed

lemma tree_ok_leaf_left:
  assumes ok: "tree_ok col lch rch par d" and new: "\<not> in_tree par r" "r < lz_N"
    and none: "lch r = NIL" "rch r = NIL"
    and p: "in_tree par p" "lch p = NIL" "col p = col r"
  shows "tree_ok col (lch(p := r)) rch (par(r := p)) (d(r := d p + 1))"
proof -
  have pr: "p \<noteq> r" using p(1) new by auto
  have pn: "p \<noteq> NIL" "p < lz_N" using p(1) by (auto simp: in_tree_def)
  have live': "live (par(r := p)) q \<longleftrightarrow> live par q \<or> q = r" for q
    using new pn by (auto simp: live_def in_tree_def)
  have tree': "in_tree (par(r := p)) q \<longleftrightarrow> in_tree par q \<or> q = r" for q
    using new pn by (auto simp: in_tree_def)
  note nc = not_child [OF ok new]
  have chr: "child_ok col (par(r := p)) (d(r := d p + 1)) q (rch q)" if "live par q" for q
    using tree_okD(1) [OF ok that] nc(1) [OF that] new that
    by (auto simp: child_ok_def live_def in_tree_def is_root_def)
  have chl: "child_ok col (par(r := p)) (d(r := d p + 1)) q ((lch(p := r)) q)" if "in_tree par q" for q
    using tree_okD(2) [OF ok that] nc(2) [OF that] p new pr that
    by (auto simp: child_ok_def in_tree_def)
  have pa: "parent_ok (lch(p := r)) rch (par(r := p)) (d(r := d p + 1)) q" if "in_tree par q" for q
    using tree_okD(4) [OF ok that] that new p pr
    by (auto simp: parent_ok_def live' live_def is_root_def in_tree_def)
  have lp: "live par p" using p(1) by (simp add: live_def)
  show ?thesis
  proof (rule tree_okI)
    fix q assume "live (par(r := p)) q"
    then show "child_ok col (par(r := p)) (d(r := d p + 1)) q (rch q)"
      using chr [of q] none by (cases "q = r") (simp_all add: live' child_nil)
  next
    fix q assume "in_tree (par(r := p)) q"
    then show "child_ok col (par(r := p)) (d(r := d p + 1)) q ((lch(p := r)) q)"
      using chl [of q] none pr by (cases "q = r") (simp_all add: tree' child_nil)
  next
    fix q assume q: "in_tree (par(r := p)) q" "(lch(p := r)) q \<noteq> NIL"
    show "(lch(p := r)) q \<noteq> rch q"
    proof (cases "q = p")
      case True
      with nc(1) [OF lp] show ?thesis by simp
    next
      case False
      with q none tree_okD(3) [OF ok] show ?thesis by (auto simp: tree')
    qed
  next
    fix q assume "in_tree (par(r := p)) q"
    then show "parent_ok (lch(p := r)) rch (par(r := p)) (d(r := d p + 1)) q"
      using pa [of q] lp pr pn
      by (cases "q = r") (simp_all add: tree', simp add: parent_ok_def live')
  qed
qed

text \<open>The node \<open>r\<close> takes the place of \<open>p\<close>, with its children.\<close>

definition relink :: "nat carray \<Rightarrow> nat carray \<Rightarrow> nat \<Rightarrow> nat \<Rightarrow> nat \<Rightarrow> nat carray \<times> nat carray" where
  "relink lch rch pp p q =
     (if rch pp = p then (lch, rch(pp := q)) else (lch(pp := q), rch))"

lemma tree_ok_replace:
  assumes ok: "tree_ok col lch rch par d" and new: "\<not> in_tree par r" "r < lz_N"
    and p: "in_tree par p" and col: "col p = col r"
    and par': "par' = (par(r := par p, lch p := r, rch p := r))(p := NIL)"
    and link: "(lch', rch') = relink (lch(r := lch p)) (rch(r := rch p)) (par p) p r"
  shows "tree_ok col lch' rch' par' (d(r := d p))"
    and "\<And>q. in_tree par' q \<longleftrightarrow> in_tree par q \<and> q \<noteq> p \<or> q = r"
proof -
  let ?pp = "par p" and ?L = "lch p" and ?R = "rch p"
  have lp: "live par p" using p by (simp add: live_def)
  have pr: "p \<noteq> r" "r \<noteq> NIL" "p < lz_N" using p new by (auto simp: in_tree_def)
  note cR = tree_okD(1) [OF ok lp] and cL = tree_okD(2) [OF ok p]
    and pk = tree_okD(4) [OF ok p] and nc = not_child [OF ok new]
  have pp: "live par ?pp" "d ?pp < d p" "?pp \<noteq> p" "?pp \<noteq> r" "?pp \<noteq> NIL"
    using pk new pr live_not_NIL [of par ?pp] by (auto simp: parent_ok_def live_def is_root_def)
  have L: "?L \<noteq> p" "?L \<noteq> r" "?L \<noteq> NIL \<Longrightarrow> ?L < lz_N \<and> par ?L = p \<and> d p < d ?L \<and> col ?L = col p"
    and R: "?R \<noteq> p" "?R \<noteq> r" "?R \<noteq> NIL \<Longrightarrow> ?R < lz_N \<and> par ?R = p \<and> d p < d ?R \<and> col ?R = col p"
    using cL cR nc(1) [OF lp] nc(2) [OF p] pr by (auto simp: child_ok_def)
  have LR: "?L \<noteq> NIL \<Longrightarrow> ?L \<noteq> ?R" using tree_okD(3) [OF ok p] .
  have P: "par' q = (if q = p then NIL else if q = ?L \<or> q = ?R then r else if q = r then ?pp else par q)" for q
    using L R pr by (auto simp: par')
  have tree': "in_tree par' q \<longleftrightarrow> in_tree par q \<and> q \<noteq> p \<or> q = r" for q
    using L R pr pp new by (auto simp: in_tree_def P)
  then show "\<And>q. in_tree par' q \<longleftrightarrow> in_tree par q \<and> q \<noteq> p \<or> q = r" .
  have live': "live par' q \<longleftrightarrow> live par q \<and> q \<noteq> p \<or> q = r" for q
    using pr by (auto simp: live_def tree' is_root_def)
  have rch': "rch' q = (if q = r then ?R else if q = ?pp \<and> rch ?pp = p then r else rch q)" for q
    using link pp(3,4) by (auto simp: relink_def split: if_splits)
  have lch': "lch' q = (if q = r then ?L else if q = ?pp \<and> rch ?pp \<noteq> p then r else lch q)" for q
    using link pp(3,4) by (auto simp: relink_def split: if_splits)
  have keep: "child_ok col par' (d(r := d p)) q c"
    if "child_ok col par d q c" "q \<noteq> p" "q \<noteq> r" "c \<noteq> p" "c \<noteq> r" for q c
    using that L(3) R(3) by (auto simp: child_ok_def P)
  have own: "child_ok col par' (d(r := d p)) r c" if "c = ?L \<or> c = ?R" for c
    using that L R col by (auto simp: child_ok_def P)
  have self: "child_ok col par' (d(r := d p)) ?pp r" if "rch ?pp = p \<or> ?pp < lz_N \<and> lch ?pp = p"
  proof -
    have "col p = col ?pp"
      using that tree_okD(1) [OF ok pp(1)] tree_okD(2) [OF ok, of ?pp] live_in_tree [OF pp(1)] pr
      by (auto simp: child_ok_def)
    then show ?thesis using pp new pr L R col by (auto simp: child_ok_def P)
  qed
  have up: "par p = q" if "live par q" "rch q = p \<or> in_tree par q \<and> lch q = p" for q
    using that tree_okD(1) [OF ok that(1)] tree_okD(2) [OF ok, of q] pr by (auto simp: child_ok_def)
  show "tree_ok col lch' rch' par' (d(r := d p))"
  proof (rule tree_okI)
    fix q assume "live par' q"
    then consider "q = r" | "q \<noteq> r" "q = ?pp" "rch ?pp = p"
      | "q \<noteq> r" "live par q" "q \<noteq> p" "\<not> (q = ?pp \<and> rch ?pp = p)" by (auto simp: live')
    then show "child_ok col par' (d(r := d p)) q (rch' q)"
    proof cases
      case 3
      have "rch q \<noteq> p" using up [OF 3(2)] 3(4) by metis
      moreover have "rch q \<noteq> r" using nc(1) [OF 3(2)] .
      ultimately have "child_ok col par' (d(r := d p)) q (rch q)"
        using 3 by (intro keep [OF tree_okD(1) [OF ok 3(2)]])
      with 3 show ?thesis by (auto simp: rch')
    qed (use own self in \<open>auto simp: rch'\<close>)
  next
    fix q assume "in_tree par' q"
    then consider "q = r" | "q \<noteq> r" "q = ?pp" "rch ?pp \<noteq> p"
      | "q \<noteq> r" "in_tree par q" "q \<noteq> p" "\<not> (q = ?pp \<and> rch ?pp \<noteq> p)" by (auto simp: tree')
    then show "child_ok col par' (d(r := d p)) q (lch' q)"
    proof cases
      case 2
      with self pk show ?thesis by (auto simp: lch' parent_ok_def)
    next
      case 3
      have "lch q \<noteq> p"
      proof
        assume "lch q = p"
        with up [of q] 3 have "q = ?pp" "rch ?pp = p" by (auto simp: live_def)
        with \<open>lch q = p\<close> tree_okD(3) [OF ok 3(2)] pr show False by auto
      qed
      moreover have "lch q \<noteq> r" using nc(2) 3 by auto
      ultimately have "child_ok col par' (d(r := d p)) q (lch q)"
        using 3 by (intro keep [OF tree_okD(2) [OF ok 3(2)]])
      with 3 show ?thesis by (auto simp: lch')
    qed (use own in \<open>auto simp: lch'\<close>)
  next
    fix q assume q: "in_tree par' q" "lch' q \<noteq> NIL"
    then show "lch' q \<noteq> rch' q"
      using LR tree_okD(3) [OF ok] nc pp(1,4) by (auto simp: tree' lch' rch' live_def split: if_splits)
  next
    fix q assume q: "in_tree par' q"
    then have "q \<noteq> NIL" by (simp add: in_tree_def)
    moreover have "in_tree par q \<and> q \<noteq> p \<or> q = r" using q by (simp only: tree')
    ultimately consider "q = r" | "q = ?L" "q \<noteq> NIL" | "q = ?R" "q \<noteq> NIL"
      | "q \<noteq> r" "in_tree par q" "q \<noteq> p" "q \<noteq> ?L" "q \<noteq> ?R"
      by blast
    then show "parent_ok lch' rch' par' (d(r := d p)) q"
    proof cases
      case 1
      with pp pk pr L R show ?thesis by (auto simp: parent_ok_def P live' lch' rch')
    next
      case 4
      note qk = tree_okD(4) [OF ok 4(2)]
      have u: "live par (par q)" "d (par q) < d q" "par q \<noteq> p" "par q \<noteq> r"
        using qk 4 new by (auto simp: parent_ok_def live_def is_root_def)
      with qk 4 pk show ?thesis
        by (auto simp: parent_ok_def P live' lch' rch')
    qed (use L R new pr in \<open>auto simp: parent_ok_def P live' lch' rch'\<close>)
  qed
qed

text \<open>A node with at most one child is taken out: its child \<open>q\<close> moves up.\<close>

lemma tree_ok_splice:
  assumes ok: "tree_ok col lch rch par d" and p: "in_tree par p"
    and one: "rch p = NIL \<and> q = lch p \<or> lch p = NIL \<and> q = rch p"
    and par': "par' = (par(q := par p))(p := NIL)"
    and link: "(lch', rch') = relink lch rch (par p) p q"
  shows "tree_ok col lch' rch' par' d"
    and "\<And>x. in_tree par' x \<longleftrightarrow> in_tree par x \<and> x \<noteq> p"
proof -
  let ?pp = "par p"
  have lp: "live par p" using p by (simp add: live_def)
  have pn: "p < lz_N" "p \<noteq> NIL" using p by (auto simp: in_tree_def)
  have pk: "parent_ok lch rch par d p" by (rule tree_okD(4) [OF ok p])
  then have pp: "live par ?pp" "d ?pp < d p" "?pp \<noteq> p" "?pp \<noteq> NIL"
    using live_not_NIL [of par ?pp] by (auto simp: parent_ok_def)
  have Q: "q \<noteq> p" "q \<noteq> NIL \<Longrightarrow> q < lz_N \<and> par q = p \<and> d p < d q \<and> col q = col p"
    using one tree_okD(1) [OF ok lp] tree_okD(2) [OF ok p] pn by (auto simp: child_ok_def)
  have Qt: "q \<noteq> NIL \<Longrightarrow> in_tree par q" using Q pn by (auto simp: in_tree_def)
  have P: "par' x = (if x = p then NIL else if x = q then ?pp else par x)" for x
    using Q by (auto simp: par')
  have tree': "in_tree par' x \<longleftrightarrow> in_tree par x \<and> x \<noteq> p" for x
    using Q pn pp by (auto simp: in_tree_def P)
  then show "\<And>x. in_tree par' x \<longleftrightarrow> in_tree par x \<and> x \<noteq> p" .
  have live': "live par' x \<longleftrightarrow> live par x \<and> x \<noteq> p" for x
    using pn by (auto simp: live_def tree' is_root_def)
  have rch': "rch' x = (if x = ?pp \<and> rch ?pp = p then q else rch x)" for x
    using link by (auto simp: relink_def split: if_splits)
  have lch': "lch' x = (if x = ?pp \<and> rch ?pp \<noteq> p then q else lch x)" for x
    using link by (auto simp: relink_def split: if_splits)
  have up: "par p = x" if "live par x" "rch x = p \<or> in_tree par x \<and> lch x = p" for x
    using that tree_okD(1) [OF ok that(1)] tree_okD(2) [OF ok, of x] pn by (auto simp: child_ok_def)
  have keep: "child_ok col par' d x c" if "child_ok col par d x c" "x \<noteq> p" "c \<noteq> p" for x c
    using that Q(2) by (auto simp: child_ok_def P)
  have cpp: "col p = col ?pp"
    using pk tree_okD(1) [OF ok pp(1)] tree_okD(2) [OF ok, of ?pp] live_in_tree [OF pp(1)] pn
    by (auto simp: parent_ok_def child_ok_def)
  have self: "child_ok col par' d ?pp q"
    using Q pp cpp by (auto simp: child_ok_def P)
  have fresh: "c \<noteq> q" if "live par x" "x \<noteq> p" "c \<noteq> NIL" "c = rch x \<or> in_tree par x \<and> c = lch x" for x c
    using that Q(2) tree_okD(1) [OF ok that(1)] tree_okD(2) [OF ok, of x] by (auto simp: child_ok_def)
  show "tree_ok col lch' rch' par' d"
  proof (rule tree_okI)
    fix x assume x: "live par' x"
    show "child_ok col par' d x (rch' x)"
    proof (cases "x = ?pp \<and> rch ?pp = p")
      case True
      with self show ?thesis by (simp add: rch')
    next
      case False
      with x up have "rch x \<noteq> p" by (auto simp: live')
      with x have "child_ok col par' d x (rch x)"
        by (intro keep [OF tree_okD(1) [OF ok]]) (simp_all add: live')
      with False show ?thesis by (auto simp: rch')
    qed
  next
    fix x assume x: "in_tree par' x"
    show "child_ok col par' d x (lch' x)"
    proof (cases "x = ?pp \<and> rch ?pp \<noteq> p")
      case True
      with self show ?thesis by (simp add: lch')
    next
      case False
      have "lch x \<noteq> p"
      proof
        assume l: "lch x = p"
        with up [of x] x have "x = ?pp" by (auto simp: live_def tree')
        with False l tree_okD(3) [OF ok, of x] x pn show False by (auto simp: tree')
      qed
      with x have "child_ok col par' d x (lch x)"
        by (intro keep [OF tree_okD(2) [OF ok]]) (simp_all add: tree')
      with False show ?thesis by (auto simp: lch')
    qed
  next
    fix x assume x: "in_tree par' x" "lch' x \<noteq> NIL"
    then have l: "live par x" "x \<noteq> p" "in_tree par x" by (auto simp: tree' live_def)
    show "lch' x \<noteq> rch' x"
    proof (cases "x = ?pp")
      case True
      then show ?thesis
        using x l fresh [OF l(1,2), of "lch x"] fresh [OF l(1,2), of "rch x"] tree_okD(3) [OF ok l(3)]
        by (auto simp: lch' rch' split: if_splits)
    next
      case False
      with x l tree_okD(3) [OF ok l(3)] show ?thesis by (simp add: lch' rch')
    qed
  next
    fix x assume x: "in_tree par' x"
    then have l: "x \<noteq> p" "in_tree par x" "x \<noteq> NIL" unfolding tree' by (auto simp: in_tree_def)
    show "parent_ok lch' rch' par' d x"
    proof (cases "x = q")
      case True
      with l pp Q pk show ?thesis by (auto simp: parent_ok_def P live' lch' rch')
    next
      case False
      note xk = tree_okD(4) [OF ok l(2)]
      have "par x \<noteq> p"
        using xk one False l by (auto simp: parent_ok_def)
      with xk l False pk show ?thesis by (auto simp: parent_ok_def P live' lch' rch')
    qed
  qed
qed

section \<open>Deleting a node\<close>

definition trees :: "encode_state \<Rightarrow> (nat \<Rightarrow> nat) \<Rightarrow> bool" where
  "trees sp d \<longleftrightarrow> tree_ok (colour (text_buf sp)) (lchild sp) (rchild sp) (parent sp) d"

definition in_trees :: "encode_state \<Rightarrow> nat \<Rightarrow> bool" where
  "in_trees sp p \<longleftrightarrow> in_tree (parent sp) p"

text \<open>\<open>delete_link\<close> as an update of the three arrays.\<close>

lemma delete_link_fields:
  assumes "q \<noteq> p" "(lch', rch') = relink (lchild sp) (rchild sp) (parent sp p) p q"
  shows "lchild (delete_link sp p q) = lch'" "rchild (delete_link sp p q) = rch'"
    "parent (delete_link sp p q) = (parent sp)(q := parent sp p, p := NIL)"
    "text_buf (delete_link sp p q) = text_buf sp"
    "match_length (delete_link sp p q) = match_length sp"
    "match_position (delete_link sp p q) = match_position sp"
  using assms by (auto simp: delete_link_def relink_def Let_def split: if_splits)

lemma delete_link_splice:
  assumes ok: "trees sp d" and p: "in_trees sp p"
    and one: "rchild sp p = NIL \<and> q = lchild sp p \<or> lchild sp p = NIL \<and> q = rchild sp p"
  shows "trees (delete_link sp p q) d"
    and "in_trees (delete_link sp p q) x \<longleftrightarrow> in_trees sp x \<and> x \<noteq> p"
    and "text_buf (delete_link sp p q) = text_buf sp"
proof -
  note ok' = ok [unfolded trees_def] and p' = p [unfolded in_trees_def]
  have lp: "live (parent sp) p" using p' by (simp add: live_def)
  have qp: "q \<noteq> p"
    using one tree_okD(1) [OF ok' lp] tree_okD(2) [OF ok' p'] p' by (auto simp: child_ok_def in_tree_def)
  obtain lch' rch' where link: "(lch', rch') = relink (lchild sp) (rchild sp) (parent sp p) p q"
    by (metis surj_pair)
  note F = delete_link_fields [OF qp link]
  note S = tree_ok_splice [OF ok' p' one refl link]
  show "trees (delete_link sp p q) d" using S(1) by (simp add: trees_def F)
  show "in_trees (delete_link sp p q) x \<longleftrightarrow> in_trees sp x \<and> x \<noteq> p"
    using S(2) by (simp add: in_trees_def F)
qed (simp add: delete_link_def Let_def)

text \<open>The walk to the rightmost node ends after as many steps as there are nodes of a larger
  rank.\<close>

definition above :: "encode_state \<Rightarrow> (nat \<Rightarrow> nat) \<Rightarrow> nat \<Rightarrow> nat set" where
  "above sp d p = {x. in_trees sp x \<and> d p < d x}"

lemma finite_above [simp]: "finite (above sp d p)"
proof -
  have "above sp d p \<subseteq> {..<lz_N}" by (auto simp: above_def in_trees_def in_tree_def)
  then show ?thesis by (rule finite_subset) simp
qed

lemma card_above_less: "in_trees sp c \<Longrightarrow> d p < d c \<Longrightarrow> card (above sp d c) < card (above sp d p)"
  by (rule psubset_card_mono [OF finite_above]) (auto simp: above_def)

lemma card_above_le: "card (above sp d p) \<le> lz_N"
proof -
  have "above sp d p \<subseteq> {..<lz_N}" by (auto simp: above_def in_trees_def in_tree_def)
  then have "card (above sp d p) \<le> card {..<lz_N}" by (intro card_mono) auto
  then show ?thesis by simp
qed

lemma in_trees_child:
  assumes "trees sp d"
  shows "live (parent sp) p \<Longrightarrow> rchild sp p \<noteq> NIL \<Longrightarrow>
      in_trees sp (rchild sp p) \<and> parent sp (rchild sp p) = p \<and> d p < d (rchild sp p) \<and>
      colour (text_buf sp) (rchild sp p) = colour (text_buf sp) p"
    and "in_trees sp p \<Longrightarrow> lchild sp p \<noteq> NIL \<Longrightarrow>
      in_trees sp (lchild sp p) \<and> parent sp (lchild sp p) = p \<and> d p < d (lchild sp p) \<and>
      colour (text_buf sp) (lchild sp p) = colour (text_buf sp) p"
  using tree_okD(1,2) [OF assms [unfolded trees_def], of p] live_not_NIL [of "parent sp" p]
  by (auto simp: child_ok_def in_trees_def in_tree_def)

lemma rightmost_finds:
  assumes ok: "trees sp d"
  shows "in_trees sp q \<Longrightarrow> rchild sp q \<noteq> NIL \<Longrightarrow> card (above sp d q) \<le> fuel \<Longrightarrow>
    \<exists>m. rightmost fuel sp q = Some m \<and> in_trees sp m \<and> rchild sp m = NIL \<and> d q < d m \<and>
      colour (text_buf sp) m = colour (text_buf sp) q \<and>
      in_trees sp (parent sp m) \<and> rchild sp (parent sp m) = m \<and> d q \<le> d (parent sp m)"
proof (induction fuel arbitrary: q)
  case 0
  note C = in_trees_child(1) [OF ok _ 0(2)]
  have "in_trees sp (rchild sp q)" "d q < d (rchild sp q)"
    using C 0(1) by (auto simp: in_trees_def live_def)
  with card_above_less [of sp "rchild sp q" d q] 0(3) show ?case by simp
next
  case (Suc fuel)
  let ?q = "rchild sp q"
  note C = in_trees_child(1) [OF ok _ Suc.prems(2)]
  have q: "in_trees sp ?q" "parent sp ?q = q" "d q < d ?q"
    "colour (text_buf sp) ?q = colour (text_buf sp) q"
    using C Suc.prems(1) by (auto simp: in_trees_def live_def)
  show ?case
  proof (cases "rchild sp ?q = NIL")
    case True
    then show ?thesis using q Suc.prems by simp
  next
    case False
    have "card (above sp d ?q) \<le> fuel"
      using card_above_less [OF q(1,3)] Suc.prems(3) by simp
    from Suc.IH [OF q(1) False this] q False show ?thesis by (auto simp: Let_def)
  qed
qed

text \<open>The state after a change, as far as the trees and the text go.\<close>


text \<open>The effect of putting \<open>q\<close> in the place of \<open>p\<close> on a state.\<close>

lemma replace_fields:
  assumes "lchild sp p \<noteq> p" "rchild sp p \<noteq> p" "p \<noteq> q" "parent sp p \<noteq> q"
    "lchild sp p \<noteq> q" "rchild sp p \<noteq> q" "p \<noteq> NIL"
    and "(lch', rch') = relink ((lchild sp)(q := lchild sp p)) ((rchild sp)(q := rchild sp p)) (parent sp p) p q"
  shows "lchild (replace_node sp q p) = lch'" "rchild (replace_node sp q p) = rch'"
    "parent (replace_node sp q p) =
      (parent sp)(q := parent sp p, lchild sp p := q, rchild sp p := q, p := NIL)"
  using assms by (auto simp: replace_node_def relink_def Let_def fun_upd_def split: if_splits)

lemma replace_node_other [simp]:
  "text_buf (replace_node sp q p) = text_buf sp"
  "match_length (replace_node sp q p) = match_length sp"
  "match_position (replace_node sp q p) = match_position sp"
  by (simp_all add: replace_node_def Let_def)

lemma replace_node_trees:
  assumes ok: "trees sp d" and new: "\<not> in_trees sp r" "r < lz_N" and p: "in_trees sp p"
    and col: "colour (text_buf sp) p = colour (text_buf sp) r"
  shows "trees (replace_node sp r p) (d(r := d p))"
    and "in_trees (replace_node sp r p) q \<longleftrightarrow> in_trees sp q \<and> q \<noteq> p \<or> q = r"
proof -
  note ok' = ok [unfolded trees_def] and p' = p [unfolded in_trees_def]
    and new' = new(1) [unfolded in_trees_def]
  have lp: "live (parent sp) p" using p' by (simp add: live_def)
  have pn: "p \<noteq> NIL" "p \<noteq> r" using p' new' by (auto simp: in_tree_def)
  note nc = not_child [OF ok' new' new(2)]
  have own: "lchild sp p \<noteq> p" "rchild sp p \<noteq> p" "lchild sp p \<noteq> r" "rchild sp p \<noteq> r"
    using tree_okD(1) [OF ok' lp] tree_okD(2) [OF ok' p'] pn nc(1) [OF lp] nc(2) [OF p']
    by (auto simp: child_ok_def)
  have "parent sp p \<noteq> r"
    using tree_okD(4) [OF ok' p'] new' new(2) by (auto simp: parent_ok_def live_def is_root_def)
  note own = own this
  obtain lch' rch' where link: "(lch', rch') =
      relink ((lchild sp)(r := lchild sp p)) ((rchild sp)(r := rchild sp p)) (parent sp p) p r"
    by (metis surj_pair)
  note F = replace_fields [OF own(1,2) pn(2) own(5,3,4) pn(1) link]
  note R = tree_ok_replace [OF ok' new' new(2) p' col refl link]
  show "trees (replace_node sp r p) (d(r := d p))" using R(1) by (simp add: trees_def F)
  show "in_trees (replace_node sp r p) q \<longleftrightarrow> in_trees sp q \<and> q \<noteq> p \<or> q = r"
    using R(2) by (simp add: in_trees_def F)
qed

text \<open>Deleting a node with two children takes the largest node \<open>q\<close> of its left subtree out
  and puts it in the place of \<open>p\<close>; only dead entries of the arrays differ.\<close>

definition delete_two :: "encode_state \<Rightarrow> nat \<Rightarrow> nat \<Rightarrow> encode_state" where
  "delete_two sp p q = replace_node (delete_link sp q (lchild sp q)) q p"

lemma delete_two_trees:
  assumes ok: "trees sp d" and p: "in_trees sp p" and q: "in_trees sp q" "rchild sp q = NIL" "q \<noteq> p"
    and col: "colour (text_buf sp) p = colour (text_buf sp) q"
  shows "trees (delete_two sp p q) (d(q := d p))"
    and "in_trees (delete_two sp p q) x \<longleftrightarrow> in_trees sp x \<and> x \<noteq> p"
proof -
  let ?s = "delete_link sp q (lchild sp q)"
  have one: "rchild sp q = NIL \<and> lchild sp q = lchild sp q \<or> lchild sp q = NIL \<and> lchild sp q = rchild sp q"
    using q(2) by simp
  note S = delete_link_splice [OF ok q(1) one]
  have qn: "q < lz_N" using q(1) by (simp add: in_trees_def in_tree_def)
  note R = replace_node_trees [OF S(1) _ qn, of p]
  show "trees (delete_two sp p q) (d(q := d p))"
    unfolding delete_two_def using S(2,3) p q(3) col by (intro R(1)) auto
  have "in_trees (delete_two sp p q) x \<longleftrightarrow> in_trees ?s x \<and> x \<noteq> p \<or> x = q"
    unfolding delete_two_def using S(2,3) p q(3) col by (intro R(2)) auto
  then show "in_trees (delete_two sp p q) x \<longleftrightarrow> in_trees sp x \<and> x \<noteq> p"
    using S(2) q by auto
qed

lemma trees_cong:
  assumes "trees sp d" "text_buf sp' = text_buf sp"
    and "\<And>p. p < lz_N \<Longrightarrow> parent sp' p = parent sp p"
    and "\<And>p. live (parent sp) p \<Longrightarrow> rchild sp' p = rchild sp p"
    and "\<And>p. in_trees sp p \<Longrightarrow> lchild sp' p = lchild sp p"
  shows "trees sp' d" and "in_trees sp' x = in_trees sp x"
proof -
  show "trees sp' d"
    using tree_ok_cong [OF assms(1) [unfolded trees_def] assms(3,4)] assms(2,5)
    by (simp add: trees_def in_trees_def)
  show "in_trees sp' x = in_trees sp x" using assms(3) by (auto simp: in_trees_def in_tree_def)
qed

text \<open>The two ways the code takes, against \<open>delete_two\<close>.\<close>

lemma delete_two_direct:
  assumes ok: "trees sp d" and p: "in_trees sp p" and two: "lchild sp p \<noteq> NIL" "rchild sp p \<noteq> NIL"
    and q: "q = lchild sp p" "rchild sp q = NIL"
    and s: "s = delete_link (sp\<lparr>rchild := (rchild sp)(q := rchild sp p),
      parent := (parent sp)(rchild sp p := q)\<rparr>) p q"
  shows "x < lz_N \<Longrightarrow> parent s x = parent (delete_two sp p q) x"
    and "rchild s x = rchild (delete_two sp p q) x"
    and "x \<noteq> p \<Longrightarrow> lchild s x = lchild (delete_two sp p q) x"
proof -
  note ok' = ok [unfolded trees_def] and p' = p [unfolded in_trees_def]
  have lp: "live (parent sp) p" using p' by (simp add: live_def)
  note L = in_trees_child(2) [OF ok p two(1), folded q(1)] and R = in_trees_child(1) [OF ok lp two(2)]
  have LR: "q \<noteq> rchild sp p" using tree_okD(3) [OF ok' p' two(1)] by (simp add: q(1))
  have pp: "d (parent sp p) < d p" "parent sp p \<noteq> NIL"
    using tree_okD(4) [OF ok' p'] live_not_NIL [of "parent sp" "parent sp p"] by (auto simp: parent_ok_def)
  have LL: "lchild sp q \<noteq> NIL \<Longrightarrow> parent sp (lchild sp q) = q \<and> d q < d (lchild sp q)"
    using in_trees_child(2) [OF ok, of q] L by blast
  have pn: "p < lz_N" "q < lz_N" using p L by (auto simp: in_trees_def in_tree_def)
  have ne: "q \<noteq> p" "rchild sp p \<noteq> p" "parent sp p \<noteq> p" "parent sp p \<noteq> q"
    "lchild sp q \<noteq> p" "lchild sp q \<noteq> q" "p \<noteq> NIL" "q \<noteq> NIL"
  proof -
    show "q \<noteq> p" "rchild sp p \<noteq> p" "parent sp p \<noteq> p" "p \<noteq> NIL" "q \<noteq> NIL" using L R pp(1) pn by auto
    show "parent sp p \<noteq> q" using L pp(1) by auto
    show "lchild sp q \<noteq> p" "lchild sp q \<noteq> q"
      using LL L pn by (cases "lchild sp q = NIL"; force)+
  qed
  show "x < lz_N \<Longrightarrow> parent s x = parent (delete_two sp p q) x"
    using ne LR L LL q two
    by (auto simp: s delete_two_def delete_link_def replace_node_def Let_def)
  show "rchild s x = rchild (delete_two sp p q) x"
    using ne LR L q two
    by (auto simp: s delete_two_def delete_link_def replace_node_def Let_def)
  show "x \<noteq> p \<Longrightarrow> lchild s x = lchild (delete_two sp p q) x"
    using ne LR L q two
    by (auto simp: s delete_two_def delete_link_def replace_node_def Let_def)
qed

lemma delete_two_unhook:
  assumes ok: "trees sp d" and p: "in_trees sp p" and two: "lchild sp p \<noteq> NIL" "rchild sp p \<noteq> NIL"
    and q: "in_trees sp q" "rchild sp q = NIL" "d (lchild sp p) < d q" "rchild sp (parent sp q) = q"
      "d (lchild sp p) \<le> d (parent sp q)"
    and s1: "s1 = delete_unhook sp p q"
    and s: "s = delete_link (s1\<lparr>rchild := (rchild s1)(q := rchild s1 p),
      parent := (parent s1)(rchild s1 p := q)\<rparr>) p q"
  shows "x < lz_N \<Longrightarrow> parent s x = parent (delete_two sp p q) x"
    and "rchild s x = rchild (delete_two sp p q) x"
    and "lchild s x = lchild (delete_two sp p q) x"
proof -
  note ok' = ok [unfolded trees_def] and p' = p [unfolded in_trees_def]
  have lp: "live (parent sp) p" using p' by (simp add: live_def)
  note L = in_trees_child(2) [OF ok p two(1)] and R = in_trees_child(1) [OF ok lp two(2)]
  have pp: "d (parent sp p) < d p"
    using tree_okD(4) [OF ok' p'] by (simp add: parent_ok_def)
  have LL: "lchild sp q \<noteq> NIL \<Longrightarrow> parent sp (lchild sp q) = q \<and> d q < d (lchild sp q)"
    using in_trees_child(2) [OF ok q(1)] by blast
  have pn: "p < lz_N" "q < lz_N" using p q(1) by (auto simp: in_trees_def in_tree_def)
  have dLq: "d p < d q" using L q(3) by simp
  have ne: "q \<noteq> p" "rchild sp p \<noteq> p" "parent sp p \<noteq> p" "p \<noteq> NIL" "q \<noteq> NIL"
    "parent sp p \<noteq> q" "lchild sp p \<noteq> p" "lchild sp p \<noteq> q" "parent sp q \<noteq> p" "parent sp q \<noteq> q"
  proof -
    show "q \<noteq> p" "rchild sp p \<noteq> p" "parent sp p \<noteq> p" "p \<noteq> NIL" "q \<noteq> NIL" "parent sp p \<noteq> q" "lchild sp p \<noteq> p"
      using L R pp dLq pn by auto
    show "lchild sp p \<noteq> q" "parent sp q \<noteq> p" using q(3,5) L by auto
    show "parent sp q \<noteq> q" using tree_okD(4) [OF ok' q(1) [unfolded in_trees_def]] by (auto simp: parent_ok_def)
  qed
  have RQ: "rchild sp p \<noteq> q"
    using R ne by auto
  have ne2: "lchild sp q \<noteq> p" "lchild sp q \<noteq> q"
    using LL dLq pn by (cases "lchild sp q = NIL"; force)+
  note ne = ne RQ ne2
  show "x < lz_N \<Longrightarrow> parent s x = parent (delete_two sp p q) x"
    using ne q(4)
    by (auto simp: s s1 delete_two_def delete_link_def delete_unhook_def replace_node_def Let_def)
  show "rchild s x = rchild (delete_two sp p q) x"
    using ne q(4)
    by (auto simp: s s1 delete_two_def delete_link_def delete_unhook_def replace_node_def Let_def)
  show "lchild s x = lchild (delete_two sp p q) x"
    using ne q(4)
    by (auto simp: s s1 delete_two_def delete_link_def delete_unhook_def replace_node_def Let_def)
qed

lemma delete_text [simp]:
  "text_buf (delete_link sp p q) = text_buf sp" "text_buf (delete_unhook sp p q) = text_buf sp"
  "text_buf (delete_two sp p q) = text_buf sp"
  by (simp_all add: delete_link_def delete_unhook_def delete_two_def Let_def)

text \<open>\<open>delete_node\<close> always returns, keeps the text and the trees, and takes exactly \<open>p\<close> out.\<close>

theorem delete_node_ok:
  assumes ok: "trees sp d" and p: "p < lz_N"
  shows "\<exists>sp' d'. delete_node sp p = Some sp' \<and> trees sp' d' \<and> text_buf sp' = text_buf sp \<and>
    (\<forall>x. in_trees sp' x \<longleftrightarrow> in_trees sp x \<and> x \<noteq> p)"
proof (cases "in_trees sp p")
  case False
  then have "parent sp p = NIL" using p by (simp add: in_trees_def in_tree_def)
  then have "delete_node sp p = Some sp" by (simp add: delete_node_def)
  moreover have "\<forall>x. in_trees sp x \<longleftrightarrow> in_trees sp x \<and> x \<noteq> p" using False by auto
  ultimately show ?thesis using ok by blast
next
  case True
  then have pn: "parent sp p \<noteq> NIL" by (simp add: in_trees_def in_tree_def)
  have lp: "live (parent sp) p" using True by (simp add: live_def in_trees_def)
  show ?thesis
  proof (cases "lchild sp p = NIL \<or> rchild sp p = NIL")
    case one: True
    define q where "q = (if rchild sp p = NIL then lchild sp p else rchild sp p)"
    have call: "delete_node sp p = Some (delete_link sp p q)"
      using pn one by (auto simp: delete_node_def q_def)
    have "rchild sp p = NIL \<and> q = lchild sp p \<or> lchild sp p = NIL \<and> q = rchild sp p"
      using one by (auto simp: q_def)
    from delete_link_splice [OF ok True this] call show ?thesis by auto
  next
    case False
    then have two: "lchild sp p \<noteq> NIL" "rchild sp p \<noteq> NIL" by auto
    note L = in_trees_child(2) [OF ok True two(1)]
    have finish: "\<exists>s d'. delete_node sp p = Some s \<and> trees s d' \<and> text_buf s = text_buf sp \<and>
        (\<forall>x. in_trees s x \<longleftrightarrow> in_trees sp x \<and> x \<noteq> p)"
      if call: "delete_node sp p = Some s" and tb: "text_buf s = text_buf sp"
        and q: "in_trees sp q" "rchild sp q = NIL" "q \<noteq> p" "colour (text_buf sp) q = colour (text_buf sp) p"
        and same: "\<And>x. x < lz_N \<Longrightarrow> parent s x = parent (delete_two sp p q) x"
          "\<And>x. rchild s x = rchild (delete_two sp p q) x"
          "\<And>x. x \<noteq> p \<Longrightarrow> lchild s x = lchild (delete_two sp p q) x" for s q
    proof -
      note T = delete_two_trees [OF ok True q(1,2,3) q(4) [symmetric]]
      have C: "trees s (d(q := d p))" "in_trees s x = in_trees (delete_two sp p q) x" for x
        using trees_cong [OF T(1), of s] same tb T(2) by auto
      with T(2) call tb show ?thesis by blast
    qed
    show ?thesis
    proof (cases "rchild sp (lchild sp p) = NIL")
      case True
      define s where "s = delete_link (sp\<lparr>rchild := (rchild sp)(lchild sp p := rchild sp p),
        parent := (parent sp)(rchild sp p := lchild sp p)\<rparr>) p (lchild sp p)"
      have call: "delete_node sp p = Some s"
        using pn two True by (simp add: delete_node_def s_def Let_def)
      show ?thesis
        by (rule finish [OF call _ _ True])
          (use L True delete_two_direct [OF ok \<open>in_trees sp p\<close> two refl True s_def] in \<open>auto simp: s_def\<close>)
    next
      case False
      have "card (above sp d (lchild sp p)) \<le> tree_fuel"
        using card_above_le [of sp d "lchild sp p"] by (simp add: tree_fuel_def)
      with rightmost_finds [OF ok _ False, of tree_fuel] L obtain q where
        m: "rightmost tree_fuel sp (lchild sp p) = Some q" "in_trees sp q" "rchild sp q = NIL"
          "d (lchild sp p) < d q" "colour (text_buf sp) q = colour (text_buf sp) (lchild sp p)"
          "in_trees sp (parent sp q)" "rchild sp (parent sp q) = q" "d (lchild sp p) \<le> d (parent sp q)"
        by blast
      define s1 where "s1 = delete_unhook sp p q"
      define s where "s = delete_link (s1\<lparr>rchild := (rchild s1)(q := rchild s1 p),
        parent := (parent s1)(rchild s1 p := q)\<rparr>) p q"
      have call: "delete_node sp p = Some s"
        using pn two False m(1) by (simp add: delete_node_def s_def s1_def Let_def)
      have "q \<noteq> p" using m(4) L by auto
      show ?thesis
        by (rule finish [OF call _ m(2,3) \<open>q \<noteq> p\<close>])
          (use L m(5) delete_two_unhook [OF ok \<open>in_trees sp p\<close> two m(2,3,4,7,8) s1_def s_def]
            in \<open>auto simp: s_def s1_def\<close>)
    qed
  qed
qed

end
