(* ===== verification/LzssInsert.thy ===== *)
theory LzssInsert
  imports LzssTree
begin

text \<open>
  src/compression.c: \<open>insert_node\<close>. The walk down the tree always ends within the fuel, the
  trees stay well formed, the new string is the only new node, and the match that is left in
  the state is a real one: a node of the tree whose text agrees with the new string as far as
  the match says.
\<close>

section \<open>The match\<close>

definition match_ok :: "(nat \<Rightarrow> bool) \<Rightarrow> byte carray \<Rightarrow> nat \<Rightarrow> nat \<Rightarrow> nat \<Rightarrow> bool" where
  "match_ok T buf r ml mp \<longleftrightarrow> ml \<le> lz_F \<and>
     (ml > 0 \<longrightarrow> T mp \<and> (\<forall>i < ml. buf (r + i) = buf (mp + i)))"

lemma match_scan_equal:
  "match_scan sp r p i n cmp = (j, c) \<Longrightarrow> i \<le> j \<and> j \<le> i + n \<and>
     (\<forall>x. i \<le> x \<longrightarrow> x < j \<longrightarrow> text_buf sp (r + x) = text_buf sp (p + x))"
proof (induction n arbitrary: i cmp)
  case (Suc n)
  show ?case
  proof (cases "text_buf sp (r + i) = text_buf sp (p + i)")
    case True
    then have "match_scan sp r p (i + 1) n 0 = (j, c)" using Suc.prems by simp
    from Suc.IH [OF this] have IH: "i + 1 \<le> j" "j \<le> i + 1 + n"
      "\<And>x. i + 1 \<le> x \<Longrightarrow> x < j \<Longrightarrow> text_buf sp (r + x) = text_buf sp (p + x)" by auto
    have "text_buf sp (r + x) = text_buf sp (p + x)" if "i \<le> x" "x < j" for x
      using IH(3) [of x] that True by (cases "x = i") auto
    with IH(1,2) show ?thesis by simp
  next
    case False
    then have "uint (text_buf sp (r + i)) \<noteq> uint (text_buf sp (p + i))" by (simp add: word_uint_eq_iff)
    then show ?thesis using Suc.prems by (simp add: Let_def)
  qed
qed simp

lemma match_scan_ok:
  assumes "match_scan sp r p 1 (lz_F - 1) cmp = (i, c)" and "T p" and "text_buf sp p = text_buf sp r"
  shows "match_ok T (text_buf sp) r i p"
proof -
  have M: "1 \<le> i" "i \<le> lz_F" "\<And>x. 1 \<le> x \<Longrightarrow> x < i \<Longrightarrow> text_buf sp (r + x) = text_buf sp (p + x)"
    using match_scan_equal [OF assms(1)] by auto
  have "text_buf sp (r + x) = text_buf sp (p + x)" if "x < i" for x
    using M(3) [of x] that assms(3) by (cases "x = 0") auto
  then show ?thesis using M(2) assms(2) by (simp add: match_ok_def)
qed

section \<open>The walk\<close>

text \<open>What \<open>insert_node\<close> promises about the state it leaves.\<close>

definition inserted :: "encode_state \<Rightarrow> nat \<Rightarrow> encode_state \<Rightarrow> bool" where
  "inserted sp r sp' \<longleftrightarrow> (\<exists>d. trees sp' d) \<and> text_buf sp' = text_buf sp \<and>
     (\<forall>q. in_trees sp' q \<longrightarrow> in_trees sp q \<or> q = r) \<and>
     match_ok (in_trees sp) (text_buf sp) r (match_length sp') (match_position sp')"

lemma insert_leaf:
  assumes ok: "trees sp d" and new: "\<not> in_trees sp r" "r < lz_N"
    and none: "lchild sp r = NIL" "rchild sp r = NIL"
    and col: "colour (text_buf sp) p = colour (text_buf sp) r"
    and match: "match_ok (in_trees sp) (text_buf sp) r (match_length sp) (match_position sp)"
  shows "live (parent sp) p \<Longrightarrow> rchild sp p = NIL \<Longrightarrow>
      inserted sp r (sp\<lparr>rchild := (rchild sp)(p := r), parent := (parent sp)(r := p)\<rparr>)"
    and "in_trees sp p \<Longrightarrow> lchild sp p = NIL \<Longrightarrow>
      inserted sp r (sp\<lparr>lchild := (lchild sp)(p := r), parent := (parent sp)(r := p)\<rparr>)"
proof -
  note ok' = ok [unfolded trees_def] and new' = new(1) [unfolded in_trees_def] new(2)
  show "inserted sp r (sp\<lparr>rchild := (rchild sp)(p := r), parent := (parent sp)(r := p)\<rparr>)"
    if "live (parent sp) p" "rchild sp p = NIL"
    using tree_ok_leaf_right [OF ok' new' none that col] match
    by (auto simp: inserted_def trees_def in_trees_def in_tree_def)
  show "inserted sp r (sp\<lparr>lchild := (lchild sp)(p := r), parent := (parent sp)(r := p)\<rparr>)"
    if "in_trees sp p" "lchild sp p = NIL"
    using tree_ok_leaf_left [OF ok' new' none that(1) [unfolded in_trees_def] that(2) col] match
    by (auto simp: inserted_def trees_def in_trees_def in_tree_def)
qed

lemma trees_match [simp]:
  "trees (sp\<lparr>match_position := m, match_length := l\<rparr>) d \<longleftrightarrow> trees sp d"
  "in_trees (sp\<lparr>match_position := m, match_length := l\<rparr>) p \<longleftrightarrow> in_trees sp p"
  "above (sp\<lparr>match_position := m, match_length := l\<rparr>) d p = above sp d p"
  by (simp_all add: trees_def in_trees_def above_def)

lemma inserted_match [simp]:
  "inserted (sp\<lparr>match_position := m, match_length := l\<rparr>) r sp' \<longleftrightarrow> inserted sp r sp'"
  by (simp add: inserted_def trees_match(2) [abs_def])

lemma insert_replace:
  assumes ok: "trees sp d" and new: "\<not> in_trees sp r" "r < lz_N" and p: "in_trees sp p"
    and col: "colour (text_buf sp) p = colour (text_buf sp) r"
    and match: "match_ok (in_trees sp) (text_buf sp) r (match_length sp) (match_position sp)"
  shows "inserted sp r (replace_node sp r p)"
proof -
  note R = replace_node_trees [OF ok new p col]
  show ?thesis using R(1) R(2) match by (auto simp: inserted_def)
qed

lemma insert_loop_ok:
  "trees sp d \<Longrightarrow> \<not> in_trees sp r \<Longrightarrow> r < lz_N \<Longrightarrow> lchild sp r = NIL \<Longrightarrow> rchild sp r = NIL \<Longrightarrow>
   live (parent sp) p \<Longrightarrow> (cmp < 0 \<Longrightarrow> in_trees sp p) \<Longrightarrow>
   colour (text_buf sp) p = colour (text_buf sp) r \<Longrightarrow>
   match_ok (in_trees sp) (text_buf sp) r (match_length sp) (match_position sp) \<Longrightarrow>
   card (above sp d p) < fuel \<Longrightarrow>
   \<exists>sp'. insert_loop fuel sp r p cmp = Some sp' \<and> inserted sp r sp'"
proof (induction fuel arbitrary: sp p cmp)
  case (Suc fuel)
  note ok = Suc.prems(1)
  define c where "c = (if cmp \<ge> 0 then rchild sp p else lchild sp p)"
  show ?case
  proof (cases "c = NIL")
    case True
    then show ?thesis
      using insert_leaf [OF ok Suc.prems(2,3,4,5,8,9)] Suc.prems(6,7)
      by (cases "cmp \<ge> 0") (auto simp: c_def)
  next
    case False
    have C: "in_trees sp c" "d p < d c" "colour (text_buf sp) c = colour (text_buf sp) p"
      using in_trees_child [OF ok, of p] Suc.prems(6,7) False by (auto simp: c_def split: if_splits)
    obtain i cmp' where scan: "match_scan sp r c 1 (lz_F - 1) cmp = (i, cmp')"
      by (cases "match_scan sp r c 1 (lz_F - 1) cmp")
    have cn: "c < lz_N" using C(1) by (simp add: in_trees_def in_tree_def)
    have "text_buf sp c = text_buf sp r"
      using C(3) Suc.prems(8) cn Suc.prems(3) by (simp add: colour_def word_unat_eq_iff)
    then have M: "match_ok (in_trees sp) (text_buf sp) r i c"
      by (rule match_scan_ok [where T = "in_trees sp", OF scan C(1)])
    have lc: "live (parent sp) c" using C(1) by (simp add: live_def in_trees_def)
    have fuel: "card (above sp d c) < fuel"
      using card_above_less [OF C(1,2)] Suc.prems(10) by simp
    have col: "colour (text_buf sp) c = colour (text_buf sp) r" using C(3) Suc.prems(8) by simp
    show ?thesis
    proof (cases "i > match_length sp")
      case True
      let ?sp = "sp\<lparr>match_position := c, match_length := i\<rparr>"
      have new: "insert_loop (Suc fuel) sp r p cmp =
          (if i \<ge> lz_F then Some (replace_node ?sp r c) else insert_loop fuel ?sp r c cmp')"
        using False True scan by (simp add: c_def [symmetric] Let_def)
      have "inserted sp r (replace_node ?sp r c)"
        using insert_replace [of ?sp d r c] ok Suc.prems(2,3) C(1) col M
        by (simp add: trees_match(2) [abs_def])
      moreover have "\<exists>sp'. insert_loop fuel ?sp r c cmp' = Some sp' \<and> inserted sp r sp'"
        using Suc.IH [of ?sp c cmp'] ok Suc.prems(2,3,4,5) lc C(1) col M fuel
        by (simp add: trees_match(2) [abs_def])
      ultimately show ?thesis using new by simp
    next
      case no: False
      have "insert_loop (Suc fuel) sp r p cmp = insert_loop fuel sp r c cmp'"
        using False no scan by (simp add: c_def [symmetric] Let_def)
      moreover have "\<exists>sp'. insert_loop fuel sp r c cmp' = Some sp' \<and> inserted sp r sp'"
        by (rule Suc.IH [OF ok Suc.prems(2,3,4,5) lc C(1) col Suc.prems(9) fuel])
      ultimately show ?thesis by simp
    qed
  qed
qed simp

theorem insert_node_ok:
  assumes ok: "trees sp d" and new: "\<not> in_trees sp r" "r < lz_N"
  shows "\<exists>sp'. insert_node sp r = Some sp' \<and> inserted sp r sp'"
proof -
  define p where "p = lz_N + 1 + unat (text_buf sp r)"
  define s where "s = sp\<lparr>rchild := (rchild sp)(r := NIL), lchild := (lchild sp)(r := NIL), match_length := 0\<rparr>"
  have root: "is_root p" "colour (text_buf s) p = colour (text_buf s) r"
    using unat_byte_less [of "text_buf sp r"] new(2) by (auto simp: is_root_def p_def colour_def s_def)
  have dead: "\<not> live (parent sp) r" using new by (auto simp: live_def in_trees_def is_root_def)
  have par: "parent s = parent sp" "text_buf s = text_buf sp" by (simp_all add: s_def)
  have T: "trees s d" "in_trees s = in_trees sp"
  proof -
    show "trees s d"
      by (rule trees_cong [OF ok])
        (use dead new in \<open>auto simp: s_def live_def in_trees_def\<close>)
    show "in_trees s = in_trees sp" by (rule ext) (simp add: in_trees_def par)
  qed
  have lp: "live (parent s) p" using root by (simp add: live_def)
  have nil: "lchild s r = NIL" "rchild s r = NIL" by (simp_all add: s_def)
  have m: "match_ok (in_trees s) (text_buf s) r (match_length s) (match_position s)"
    by (simp add: match_ok_def s_def)
  have "card (above s d p) < tree_fuel" using card_above_le [of s d p] by (simp add: tree_fuel_def)
  from insert_loop_ok [OF T(1) _ new(2) nil lp _ root(2) m this, of 1] new(1) T(2)
  obtain sp' where "insert_loop tree_fuel s r p 1 = Some sp'" "inserted s r sp'" by auto
  moreover have "insert_node sp r = insert_loop tree_fuel s r p 1"
    by (simp add: insert_node_def Let_def p_def s_def)
  ultimately show ?thesis using T(2) par(2) by (auto simp: inserted_def)
qed

end
