(* ===== verification/LzssStream.thy ===== *)
theory LzssStream
  imports Lzss
begin

text \<open>
  src/compression.c: what the compressed form means. A text is covered by tokens, literals and
  references into the window of the last 4096 bytes; eight tokens are packed behind a flag
  byte. The decoder, run on a packed covering of a text, writes that text, whatever the part
  of its ring buffer held that it does not initialise.
\<close>

section \<open>The text behind the ring\<close>

text \<open>The virtual text: the spaces that both sides put in front, then the source.\<close>

definition vtext :: "bytes \<Rightarrow> nat \<Rightarrow> byte" where
  "vtext src v = (if v < lz_N - lz_F then 0x20 else src ! (v - (lz_N - lz_F)))"

text \<open>A ring holds the virtual text up to position \<open>lim\<close>, as far back as it can.\<close>

definition holds :: "bytes \<Rightarrow> byte carray \<Rightarrow> nat \<Rightarrow> bool" where
  "holds src buf lim \<longleftrightarrow> (\<forall>v. v < lim \<longrightarrow> lim \<le> v + lz_N \<longrightarrow> buf (v mod lz_N) = vtext src v)"

lemma mod_ring_inj:
  assumes "a mod 4096 = b mod 4096" "a \<le> b" "b < a + 4096"
  shows "a = (b :: nat)"
proof -
  have "4096 dvd b - a" using assms(1,2) mod_eq_dvd_iff_nat [of a b 4096] by simp
  moreover have "b - a < 4096" using assms(2,3) by simp
  ultimately have "b - a = 0" using dvd_imp_le by fastforce
  with assms(2) show ?thesis by simp
qed

lemma holds_store:
  assumes "holds src buf lim"
  shows "holds src (buf(lim mod lz_N := vtext src lim)) (lim + 1)"
  unfolding holds_def
proof (intro allI impI)
  fix v assume v: "v < lim + 1" "lim + 1 \<le> v + lz_N"
  show "(buf(lim mod lz_N := vtext src lim)) (v mod lz_N) = vtext src v"
  proof (cases "v = lim")
    case False
    with v have "v < lim" "lim \<le> v + lz_N" by auto
    moreover have "v mod lz_N \<noteq> lim mod lz_N" using mod_ring_inj [of v lim] v False by auto
    ultimately show ?thesis using assms by (simp add: holds_def)
  qed simp
qed

section \<open>Tokens\<close>

datatype token = Lit byte | Ref nat nat

fun is_lit :: "token \<Rightarrow> bool" where
  "is_lit (Lit b) = True"
| "is_lit (Ref p l) = False"

fun token_bytes :: "token \<Rightarrow> bytes" where
  "token_bytes (Lit b) = [b]"
| "token_bytes (Ref p l) =
     [of_nat p, of_nat ((drop_bit 4 p AND 0xF0) OR (l - (THRESHOLD + 1)))]"

text \<open>\<open>covers src c ts c'\<close>: the tokens describe the bytes \<open>c\<close> to \<open>c'\<close> of the source.\<close>

definition token_ok :: "bytes \<Rightarrow> nat \<Rightarrow> token \<Rightarrow> nat \<Rightarrow> bool" where
  "token_ok src c t c' \<longleftrightarrow> c' \<le> length src \<and>
     (case t of
        Lit b \<Rightarrow> c' = c + 1 \<and> b = src ! c
      | Ref p l \<Rightarrow> c' = c + l \<and> THRESHOLD < l \<and> l \<le> lz_F \<and>
          (\<exists>v. c \<le> v \<and> v < lz_N - lz_F + c \<and> p = v mod lz_N \<and>
             (\<forall>i < l. vtext src (v + i) = vtext src (lz_N - lz_F + c + i))))"

fun covers :: "bytes \<Rightarrow> nat \<Rightarrow> token list \<Rightarrow> nat \<Rightarrow> bool" where
  "covers src c [] c' \<longleftrightarrow> c' = c"
| "covers src c (t # ts) c'' \<longleftrightarrow> (\<exists>c'. token_ok src c t c' \<and> covers src c' ts c'')"

lemma covers_append: "covers src c (ts @ us) c'' \<longleftrightarrow> (\<exists>c'. covers src c ts c' \<and> covers src c' us c'')"
  by (induction ts arbitrary: c) auto

text \<open>The flag byte of a group and the group.\<close>

fun flag_bits :: "token list \<Rightarrow> byte" where
  "flag_bits [] = 0"
| "flag_bits (t # ts) = of_bool (is_lit t) OR push_bit 1 (flag_bits ts)"

definition group :: "token list \<Rightarrow> bytes" where
  "group ts = flag_bits ts # concat (map token_bytes ts)"

lemma bit_flag_bits: "length ts \<le> 8 \<Longrightarrow> i < length ts \<Longrightarrow> bit (flag_bits ts) i = is_lit (ts ! i)"
proof (induction ts arbitrary: i)
  case (Cons t ts)
  show ?case
  proof (cases i)
    case 0
    then show ?thesis by (simp only: flag_bits.simps bit_or_iff bit_push_bit_iff) (simp add: bit_0)
  next
    case (Suc j)
    then have "bit (flag_bits ts) j = is_lit (ts ! j)" "j < 8" using Cons by auto
    then show ?thesis using Suc Cons.prems
      by (simp only: flag_bits.simps bit_or_iff bit_push_bit_iff) (simp add: bit_simps)
  qed
qed simp

lemma flag_bits_append:
  "flag_bits (ts @ [t]) = flag_bits ts OR (if is_lit t then push_bit (length ts) 1 else 0)"
  by (induction ts) (auto simp: push_bit_or of_bool_def ac_simps)

section \<open>Decoding the tokens\<close>

text \<open>The decoder after \<open>c\<close> bytes of the source.\<close>

definition decoded :: "bytes \<Rightarrow> nat \<Rightarrow> decoder \<Rightarrow> bool" where
  "decoded src c d \<longleftrightarrow> c \<le> length src \<and> d_out d = take c src \<and>
     d_r d = (lz_N - lz_F + c) mod lz_N \<and> holds src (d_buf d) (lz_N - lz_F + c)"

lemma decoded_flags [simp]: "decoded src c (d\<lparr>d_flags := f\<rparr>) \<longleftrightarrow> decoded src c d"
  by (simp add: decoded_def)

lemma d_put_decoded:
  assumes "decoded src c d" and "c < length src" and "length src \<le> dstlen"
  shows "\<exists>d'. d_put dstlen (src ! c) d = Some d' \<and> decoded src (c + 1) d' \<and> d_flags d' = d_flags d"
proof -
  have "vtext src (lz_N - lz_F + c) = src ! c" by (simp add: vtext_def)
  with assms holds_store [of src "d_buf d" "lz_N - lz_F + c"] show ?thesis
    by (auto simp: d_put_def decoded_def ring_mod take_Suc_conv_app_nth mod_Suc_eq)
qed

lemma lz_copy_decoded:
  "decoded src (c + k) d \<Longrightarrow> c + k + n \<le> length src \<Longrightarrow> length src \<le> dstlen \<Longrightarrow>
   c \<le> v \<Longrightarrow> v < lz_N - lz_F + c \<Longrightarrow>
   (\<And>i. i < k + n \<Longrightarrow> vtext src (v + i) = vtext src (lz_N - lz_F + c + i)) \<Longrightarrow>
   k + n \<le> lz_F \<Longrightarrow>
   decoded src (c + k + n) (lz_copy dstlen (v mod lz_N) k n d) \<and>
   d_flags (lz_copy dstlen (v mod lz_N) k n d) = d_flags d"
proof (induction n arbitrary: k d)
  case (Suc n)
  have "d_buf d (ring (v mod lz_N + k)) = d_buf d ((v + k) mod lz_N)"
    by (simp add: ring_mod mod_simps)
  also have "\<dots> = vtext src (v + k)"
    using Suc.prems(1,4,5,7) by (simp add: decoded_def holds_def)
  also have "\<dots> = src ! (c + k)" using Suc.prems(6) [of k] by (simp add: vtext_def)
  finally have byte: "d_buf d (ring (v mod lz_N + k)) = src ! (c + k)" .
  obtain d' where put: "d_put dstlen (src ! (c + k)) d = Some d'"
    and d': "decoded src (c + (k + 1)) d'" "d_flags d' = d_flags d"
    using d_put_decoded [OF Suc.prems(1) _ Suc.prems(3)] Suc.prems(2) by (auto simp: ac_simps)
  show ?case
    using Suc.IH [OF d'(1) _ Suc.prems(3,4,5)] Suc.prems(2,6,7) d'(2) by (simp add: byte put)
qed simp

text \<open>The two bytes of a reference give position and length back.\<close>

lemma ref_bytes:
  assumes p: "p < 4096" and l: "2 < l" "l \<le> 18"
  defines "j \<equiv> (of_nat ((drop_bit 4 p AND 0xF0) OR (l - 3)) :: byte)"
  shows "unat (of_nat p :: byte) OR push_bit 4 (unat j AND 0xF0) = p"
    and "(unat j AND 0x0F) + 2 + 1 = l"
proof -
  have m: "l - 3 < 2 ^ 4" using l by simp
  have b4: "\<not> bit (l - 3) n" if "4 \<le> n" for n
    using m that by (metis bit_take_bit_iff leD take_bit_nat_eq_self)
  have bp: "\<not> bit p n" if "12 \<le> n" for n
  proof -
    have "p < 2 ^ 12" using p by simp
    then show ?thesis using that by (metis bit_take_bit_iff leD take_bit_nat_eq_self)
  qed
  have f0: "bit (0xF0 :: nat) n \<longleftrightarrow> 4 \<le> n \<and> n < 8" for n
  proof -
    have eq: "(0xF0 :: nat) = push_bit 4 (mask 4)" by (simp add: mask_eq_exp_minus_1 push_bit_eq_mult)
    show ?thesis unfolding eq bit_push_bit_iff bit_mask_iff by auto
  qed
  have ff: "bit (0x0F :: nat) n \<longleftrightarrow> n < 4" for n
  proof -
    have eq: "(0x0F :: nat) = mask 4" by (simp add: mask_eq_exp_minus_1)
    show ?thesis unfolding eq bit_mask_iff by auto
  qed
  have uj: "unat j = take_bit 8 ((drop_bit 4 p AND 0xF0) OR (l - 3))"
    by (simp add: j_def unat_of_nat take_bit_eq_mod)
  have up: "unat (of_nat p :: byte) = take_bit 8 p"
    by (simp add: unat_of_nat take_bit_eq_mod)
  show "unat (of_nat p :: byte) OR push_bit 4 (unat j AND 0xF0) = p"
  proof (rule bit_eqI)
    fix n
    show "bit (unat (of_nat p :: byte) OR push_bit 4 (unat j AND 0xF0)) n = bit p n"
      unfolding uj up bit_or_iff bit_push_bit_iff bit_and_iff bit_take_bit_iff bit_drop_bit_eq f0 o_apply
      using bp [of n] b4 [of "n - 4"] by (cases "n < 8"; cases "n < 12") auto
  qed
  have "unat j AND 0x0F = l - 3"
  proof (rule bit_eqI)
    fix n
    show "bit (unat j AND 0x0F) n = bit (l - 3) n"
      unfolding uj bit_or_iff bit_and_iff bit_take_bit_iff f0 ff
      using b4 [of n] by (cases "n < 4") auto
  qed
  then show "(unat j AND 0x0F) + 2 + 1 = l" using l by simp
qed

text \<open>The flag word \<open>j\<close> tokens into a group with flag byte \<open>f\<close>.\<close>

definition flags_at :: "byte \<Rightarrow> nat \<Rightarrow> u32" where
  "flags_at f j = drop_bit j (ucast f OR 0xFF00)"

lemma bit_flags_at: "bit (flags_at f j) k \<longleftrightarrow> bit f (j + k) \<or> 8 \<le> j + k \<and> j + k < 16"
proof -
  have eq: "(0xFF00 :: u32) = push_bit 8 (mask 8)" by (simp add: mask_eq_exp_minus_1 push_bit_eq_mult)
  have "bit f (j + k) \<Longrightarrow> j + k < 8" using bit_imp_le_length [of f "j + k"] by simp
  then show ?thesis
    unfolding flags_at_def eq bit_drop_bit_eq bit_or_iff bit_push_bit_iff bit_mask_iff o_apply bit_ucast_iff
    by (cases "j + k < 8"; cases "j + k < 16") auto
qed

lemma and_0x100: "(x :: u32) AND 0x100 = 0 \<longleftrightarrow> \<not> bit x 8"
  using and_exp_eq_0_iff_not_bit [of x 8] by simp

lemma and_one: "(x :: u32) AND 1 \<noteq> 0 \<longleftrightarrow> bit x 0"
  using and_exp_eq_0_iff_not_bit [of x 0] by simp

lemma next_flags_shift:
  "1 \<le> j \<Longrightarrow> j \<le> 7 \<Longrightarrow> lz_next_flags (flags_at f (j - 1)) src = Some (flags_at f j, src)"
proof -
  assume j: "1 \<le> j" "j \<le> 7"
  then obtain k where "j = Suc k" by (cases j) auto
  then have "drop_bit 1 (flags_at f (j - 1)) = flags_at f j"
    by (simp add: flags_at_def drop_bit_drop_bit add.commute)
  then show ?thesis
    using j bit_flags_at [of f j 8] by (simp only: lz_next_flags_def Let_def and_0x100) simp
qed

lemma next_flags_load: "\<not> bit w 9 \<Longrightarrow> lz_next_flags w (f # src) = Some (flags_at f 0, src)"
  by (simp only: lz_next_flags_def Let_def and_0x100 bit_drop_bit_eq) (simp add: flags_at_def)

lemma lz_unit_token:
  assumes next_f: "\<And>x. lz_next_flags (d_flags d) (pre @ x) = Some (F, x)"
    and flag: "bit F 0 = is_lit t" and d: "decoded src c d" and t: "token_ok src c t c'"
    and len: "length src \<le> dstlen"
  shows "\<exists>d'. lz_unit dstlen (pre @ token_bytes t @ rest) d = (d', Some rest) \<and>
    decoded src c' d' \<and> d_flags d' = F"
proof (cases t)
  case (Lit b)
  have c: "c < length src" "b = src ! c" "c' = c + 1" using t Lit by (auto simp: token_ok_def)
  have "decoded src c (d\<lparr>d_flags := F\<rparr>)" using d by simp
  from d_put_decoded [OF this c(1) len] obtain d'
    where "d_put dstlen b (d\<lparr>d_flags := F\<rparr>) = Some d'" "decoded src c' d'" "d_flags d' = F"
    using c by auto
  then show ?thesis using flag Lit by (simp add: lz_unit_def next_f and_one Let_def)
next
  case (Ref p l)
  then obtain v where c: "c' \<le> length src" "c' = c + l" "2 < l" "l \<le> 18" "c \<le> v" "v < lz_N - lz_F + c"
    and p: "p = v mod lz_N" and same: "\<forall>i < l. vtext src (v + i) = vtext src (lz_N - lz_F + c + i)"
    using t by (auto simp: token_ok_def)
  have "decoded src (c + 0) (d\<lparr>d_flags := F\<rparr>)" using d by simp
  from lz_copy_decoded [OF this _ len c(5,6), of l] c same
  have "decoded src c' (lz_copy dstlen p 0 l (d\<lparr>d_flags := F\<rparr>))"
    "d_flags (lz_copy dstlen p 0 l (d\<lparr>d_flags := F\<rparr>)) = F"
    by (auto simp: p)
  moreover have "lz_unit dstlen (pre @ token_bytes t @ rest) d =
      (lz_copy dstlen p 0 l (d\<lparr>d_flags := F\<rparr>), Some rest)"
  proof -
    have "p < 4096" by (simp add: p)
    note R = ref_bytes [OF this c(3,4)]
    have pb: "token_bytes (Ref p l) =
        [of_nat p, of_nat ((drop_bit 4 p AND 0xF0) OR (l - 3))]" by simp
    have "bit F 0 = False" using flag Ref by simp
    then show ?thesis
      unfolding Ref pb lz_unit_def append_Cons append_Nil next_f option.case prod.case Let_def
        and_one list.case R by simp
  qed
  ultimately show ?thesis by blast
qed

lemma lz_loop_tokens:
  "1 \<le> j \<Longrightarrow> j + length ts \<le> 8 \<Longrightarrow> d_flags d = flags_at f (j - 1) \<Longrightarrow>
   (\<And>i. i < length ts \<Longrightarrow> bit f (j + i) = is_lit (ts ! i)) \<Longrightarrow>
   decoded src c d \<Longrightarrow> covers src c ts c' \<Longrightarrow> length src \<le> dstlen \<Longrightarrow>
   \<exists>d'. lz_loop dstlen (concat (map token_bytes ts) @ rest) d = lz_loop dstlen rest d' \<and>
     decoded src c' d' \<and> d_flags d' = flags_at f (j + length ts - 1)"
proof (induction ts arbitrary: j c d)
  case Nil
  then show ?case by auto
next
  case (Cons t ts)
  obtain c1 where t: "token_ok src c t c1" and ts: "covers src c1 ts c'" using Cons.prems(6) by auto
  let ?bytes = "concat (map token_bytes ts) @ rest"
  have fl: "lz_next_flags (d_flags d) ([] @ x) = Some (flags_at f j, x)" for x
    using next_flags_shift [of j f x] Cons.prems(1,2,3) by simp
  have "bit (flags_at f j) 0 = is_lit t"
    using bit_flags_at [of f j 0] Cons.prems(4) [of 0] Cons.prems(2) by simp
  from lz_unit_token [OF fl this Cons.prems(5) t Cons.prems(7), of ?bytes] obtain d1
    where d1: "lz_unit dstlen (token_bytes t @ ?bytes) d = (d1, Some ?bytes)"
      "decoded src c1 d1" "d_flags d1 = flags_at f j" by auto
  have step: "lz_loop dstlen (token_bytes t @ ?bytes) d = lz_loop dstlen ?bytes d1"
    by (subst lz_loop.simps) (simp add: d1(1))
  have "bit f (j + 1 + i) = is_lit (ts ! i)" if "i < length ts" for i
    using Cons.prems(4) [of "Suc i"] that by simp
  with Cons.IH [of "j + 1" d1, OF _ _ _ _ d1(2) ts Cons.prems(7)] Cons.prems(2) d1(3) step
  show ?case by simp
qed

lemma lz_loop_group:
  assumes ts: "ts \<noteq> []" "length ts \<le> 8" and w: "\<not> bit (d_flags d) 9"
    and d: "decoded src c d" and c: "covers src c ts c'" and len: "length src \<le> dstlen"
  shows "\<exists>d'. lz_loop dstlen (group ts @ rest) d = lz_loop dstlen rest d' \<and>
    decoded src c' d' \<and> d_flags d' = flags_at (flag_bits ts) (length ts - 1)"
proof -
  obtain t us where t: "ts = t # us" using ts(1) by (cases ts) auto
  obtain c1 where c1: "token_ok src c t c1" "covers src c1 us c'" using c t by auto
  let ?bytes = "concat (map token_bytes us) @ rest" and ?f = "flag_bits ts"
  have fl: "lz_next_flags (d_flags d) ([?f] @ x) = Some (flags_at ?f 0, x)" for x
    using next_flags_load [OF w] by simp
  note bits = bit_flag_bits [OF ts(2)]
  have "bit (flags_at ?f 0) 0 = is_lit t"
    using bit_flags_at [of ?f 0 0] bits [of 0] t by simp
  from lz_unit_token [OF fl this d c1(1) len, of ?bytes] obtain d1
    where d1: "lz_unit dstlen ([?f] @ token_bytes t @ ?bytes) d = (d1, Some ?bytes)"
      "decoded src c1 d1" "d_flags d1 = flags_at ?f 0" by auto
  have step: "lz_loop dstlen (group ts @ rest) d = lz_loop dstlen ?bytes d1"
    using d1(1) by (subst lz_loop.simps) (simp add: group_def t)
  have "bit ?f (1 + i) = is_lit (us ! i)" if "i < length us" for i
    using bits [of "Suc i"] that t by simp
  with lz_loop_tokens [of 1 us d1 ?f src c1 c' dstlen rest] ts(2) d1(2,3) c1(2) len t step
  show ?thesis by auto
qed

lemma lz_loop_end: "d_out (lz_loop dstlen [] d) = d_out d"
  by (subst lz_loop.simps) (auto simp: lz_unit_def lz_next_flags_def Let_def split: option.splits)

text \<open>Packed tokens: full groups, then a group that is not full.\<close>

definition packed :: "token list list \<Rightarrow> token list \<Rightarrow> bytes" where
  "packed gs cur = concat (map group gs) @ (if cur = [] then [] else group cur)"

lemma lz_loop_packed:
  "\<forall>g \<in> set gs. length g = 8 \<Longrightarrow> length cur < 8 \<Longrightarrow> \<not> bit (d_flags d) 9 \<Longrightarrow>
   decoded src c d \<Longrightarrow> covers src c (concat gs @ cur) c' \<Longrightarrow> length src \<le> dstlen \<Longrightarrow>
   d_out (lz_loop dstlen (packed gs cur) d) = take c' src"
proof (induction gs arbitrary: c d)
  case Nil
  show ?case
  proof (cases "cur = []")
    case True
    then show ?thesis using Nil lz_loop_end [of dstlen d] by (simp add: packed_def decoded_def)
  next
    case False
    with lz_loop_group [of cur d src c c' dstlen "[]"] Nil lz_loop_end [of dstlen]
    show ?thesis by (auto simp: packed_def decoded_def)
  qed
next
  case (Cons g gs)
  obtain c1 where c1: "covers src c g c1" "covers src c1 (concat gs @ cur) c'"
    using Cons.prems(5) by (auto simp: covers_append)
  have g: "g \<noteq> []" "length g \<le> 8" "length g - 1 = 7" using Cons.prems(1) by auto
  from lz_loop_group [OF g(1,2) Cons.prems(3,4) c1(1) Cons.prems(6), of "packed gs cur"] obtain d1
    where d1: "lz_loop dstlen (group g @ packed gs cur) d = lz_loop dstlen (packed gs cur) d1"
      "decoded src c1 d1" "d_flags d1 = flags_at (flag_bits g) 7" using g(3) by auto
  have "\<not> bit (d_flags d1) 9"
  proof -
    have "\<not> bit (flag_bits g) 16" using bit_imp_le_length [of "flag_bits g" 16] by auto
    then show ?thesis by (simp add: d1(3) bit_flags_at)
  qed
  from Cons.IH [OF _ Cons.prems(2) this d1(2) c1(2) Cons.prems(6)] Cons.prems(1) d1(1)
  show ?case by (simp add: packed_def)
qed

text \<open>The decoder turns a packed covering of a text into the text.\<close>

theorem decompress_packed:
  assumes "\<forall>g \<in> set gs. length g = 8" and "length cur < 8"
    and "covers src 0 (concat gs @ cur) (length src)" and "length src \<le> dstlen"
  shows "decompress_lzss junk dstlen (packed gs cur) = src"
proof -
  let ?d = "\<lparr>d_out = [], d_buf = (\<lambda>i. if i < lz_N - lz_F then 0x20 else junk i),
    d_r = lz_N - lz_F, d_flags = 0\<rparr>"
  have "decoded src 0 ?d" by (simp add: decoded_def holds_def vtext_def)
  from lz_loop_packed [OF assms(1,2) _ this assms(3,4)] show ?thesis
    by (simp add: decompress_lzss_def)
qed

end
