(* ===== verification/LzssRound.thy ===== *)
theory LzssRound
  imports LzssInsert LzssStream
begin

text \<open>
  src/compression.c: the encoder against the decoder. The encoder's loop keeps an invariant
  over the whole state: the trees index the window of the virtual text, the match in the state
  is a match in the text, the bytes written so far are packed tokens that cover the text up to
  the read position. So compression succeeds for every non-empty text that the destination
  has room for, and decompression gives the text back.
\<close>

section \<open>The encoder's invariant\<close>

lemma mod_add_wrap:
  assumes "4096 \<le> v mod 4096 + i" and "i < 4096"
  shows "(v + i) mod 4096 = v mod 4096 + i - (4096 :: nat)"
proof -
  have "(v + i) mod 4096 = (v mod 4096 + i) mod 4096" by (simp add: mod_add_left_eq)
  also have "\<dots> = (v mod 4096 + i - 4096) mod 4096" using assms(1) by (simp only: le_mod_geq)
  also have "\<dots> = v mod 4096 + i - 4096"
    using assms(2) mod_less_divisor [of 4096 v] by (intro mod_less) linarith
  finally show ?thesis .
qed

lemma mod_add_nowrap: "v mod 4096 + i < 4096 \<Longrightarrow> (v + i) mod 4096 = v mod 4096 + (i :: nat)"
  by (metis mod_add_left_eq mod_less)

text \<open>The nodes of the trees are positions of the window; \<open>k\<close> is the distance from its
  start.\<close>

definition window :: "nat \<Rightarrow> nat \<Rightarrow> encode_state \<Rightarrow> bool" where
  "window c w sp \<longleftrightarrow> (\<forall>p. in_trees sp p \<longrightarrow> (\<exists>k < w. p = (c + k) mod lz_N))"

text \<open>The extension of the ring by \<open>F - 1\<close> bytes repeats its start.\<close>

definition mirror :: "nat \<Rightarrow> byte carray \<Rightarrow> bool" where
  "mirror rd buf \<longleftrightarrow> (\<forall>x < lz_F - 1. x + lz_F < rd \<longrightarrow> buf (lz_N + x) = buf x)"

text \<open>The match of the state against the text.\<close>

definition match_text :: "bytes \<Rightarrow> nat \<Rightarrow> nat \<Rightarrow> encode_state \<Rightarrow> bool" where
  "match_text src c rd sp \<longleftrightarrow> match_length sp \<le> lz_F \<and>
     (match_length sp > 0 \<longrightarrow>
       (\<exists>v. c \<le> v \<and> v < lz_N - lz_F + c \<and> match_position sp = v mod lz_N \<and>
         (\<forall>i < match_length sp. c + i < rd \<longrightarrow> vtext src (v + i) = vtext src (lz_N - lz_F + c + i))))"

text \<open>The ring and the trees between two strings: \<open>c\<close> bytes are coded, \<open>rd\<close> are read, and
  the window has \<open>w\<close> positions.\<close>

definition ring_ok :: "bytes \<Rightarrow> nat \<Rightarrow> nat \<Rightarrow> nat \<Rightarrow> encode_state \<Rightarrow> bool" where
  "ring_ok src c rd w sp \<longleftrightarrow> (\<exists>d. trees sp d) \<and> window c w sp \<and>
     holds src (text_buf sp) (lz_N - lz_F + rd) \<and> mirror rd (text_buf sp) \<and>
     rd \<le> length src \<and> rd \<le> c + lz_F"

lemma read_text:
  assumes ok: "ring_ok src c rd w sp" and v: "c \<le> v" "i < lz_F" "v + i < lz_N - lz_F + rd"
  shows "text_buf sp (v mod lz_N + i) = vtext src (v + i)"
proof -
  have H: "text_buf sp (u mod lz_N) = vtext src u" if "u < lz_N - lz_F + rd" "lz_N - lz_F + rd \<le> u + lz_N" for u
    using ok that by (simp add: ring_ok_def holds_def)
  have rd: "rd \<le> c + lz_F" using ok by (simp add: ring_ok_def)
  have here: "text_buf sp ((v + i) mod lz_N) = vtext src (v + i)" using H [of "v + i"] v rd by simp
  show ?thesis
  proof (cases "v mod lz_N + i < lz_N")
    case True
    then have "(v + i) mod lz_N = v mod lz_N + i" by (rule mod_add_nowrap)
    with here show ?thesis by simp
  next
    case False
    define x where "x = v mod lz_N + i - lz_N"
    have xlt: "x < lz_F - 1" using v(2) mod_less_divisor [of lz_N v] by (simp add: x_def)
    have eq: "v mod lz_N + i = lz_N + x" using False by (simp add: x_def)
    then have "(v + i) mod lz_N = x" using mod_add_wrap [of v i] v(2) by simp
    moreover have "lz_N + x \<le> v + i" using eq mod_less_eq_dividend [of v lz_N] by linarith
    then have "x + lz_F < rd" using v(3) by simp
    then have "text_buf sp (lz_N + x) = text_buf sp x"
      using ok xlt by (simp add: ring_ok_def mirror_def)
    ultimately show ?thesis using here eq by simp
  qed
qed

text \<open>Inserting the string at the read position.\<close>

lemma window_new:
  assumes "window c w sp" and "w \<le> lz_N - lz_F"
  shows "\<not> in_trees sp ((lz_N - lz_F + c) mod lz_N)"
proof
  assume "in_trees sp ((lz_N - lz_F + c) mod lz_N)"
  with assms(1) obtain k where "k < w" "(lz_N - lz_F + c) mod lz_N = (c + k) mod lz_N"
    unfolding window_def by blast
  with assms(2) have k: "k < lz_N - lz_F" "(c + k) mod lz_N = (lz_N - lz_F + c) mod lz_N" by auto
  with mod_ring_inj [of "c + k" "lz_N - lz_F + c"] show False by simp
qed

lemma ring_insert:
  assumes ok: "ring_ok src c rd (lz_N - lz_F) sp" and rd: "c < rd"
  shows "\<exists>sp'. insert_node sp ((lz_N - lz_F + c) mod lz_N) = Some sp' \<and>
    ring_ok src c rd (lz_N - lz_F + 1) sp' \<and> match_text src c rd sp'"
proof -
  let ?r = "(lz_N - lz_F + c) mod lz_N"
  obtain d where d: "trees sp d" and w: "window c (lz_N - lz_F) sp" using ok by (auto simp: ring_ok_def)
  obtain sp' where sp': "insert_node sp ?r = Some sp'" and i: "inserted sp ?r sp'"
    using insert_node_ok [OF d window_new [OF w order_refl]] by auto
  have tb: "text_buf sp' = text_buf sp" using i by (simp add: inserted_def)
  have "window c (lz_N - lz_F + 1) sp'"
    unfolding window_def
  proof (intro allI impI)
    fix p assume "in_trees sp' p"
    then consider "in_trees sp p" | "p = ?r" using i by (auto simp: inserted_def)
    then show "\<exists>k < lz_N - lz_F + 1. p = (c + k) mod lz_N"
    proof cases
      case 1
      then show ?thesis using w less_SucI unfolding window_def by (metis Suc_eq_plus1)
    next
      case 2
      then show ?thesis by (intro exI [of _ "lz_N - lz_F"]) (simp add: add.commute)
    qed
  qed
  then have ring: "ring_ok src c rd (lz_N - lz_F + 1) sp'"
    using ok i by (simp add: ring_ok_def inserted_def)
  have "match_text src c rd sp'"
  proof (cases "match_length sp' > 0")
    case True
    have m: "match_length sp' \<le> lz_F" "in_trees sp (match_position sp')"
      "\<And>i. i < match_length sp' \<Longrightarrow> text_buf sp (?r + i) = text_buf sp (match_position sp' + i)"
      using i True by (auto simp: inserted_def match_ok_def)
    then obtain k where k: "k < lz_N - lz_F" "match_position sp' = (c + k) mod lz_N"
      using w unfolding window_def by blast
    have "vtext src (c + k + i) = vtext src (lz_N - lz_F + c + i)"
      if ih: "i < match_length sp'" "c + i < rd" for i
      using read_text [OF ok, of "c + k" i] read_text [OF ok, of "lz_N - lz_F + c" i] m(1) m(3) [OF ih(1)] ih k
      by simp
    then show ?thesis using m(1) k unfolding match_text_def by (auto intro!: exI [of _ "c + k"])
  next
    case False
    then show ?thesis by (simp add: match_text_def)
  qed
  with sp' ring show ?thesis by blast
qed

text \<open>Removing the oldest string, and storing a byte in its place.\<close>

lemma ring_delete:
  assumes ok: "ring_ok src c rd (lz_N - lz_F + 1) sp" and rd: "c < rd"
  shows "\<exists>sp'. delete_node sp (c mod lz_N) = Some sp' \<and> ring_ok src (c + 1) rd (lz_N - lz_F) sp' \<and>
    \<not> in_trees sp' (c mod lz_N)"
proof -
  obtain d where d: "trees sp d" and w: "window c (lz_N - lz_F + 1) sp" using ok by (auto simp: ring_ok_def)
  obtain sp' d' where sp': "delete_node sp (c mod lz_N) = Some sp'" "trees sp' d'" "text_buf sp' = text_buf sp"
    and i: "\<forall>x. in_trees sp' x \<longleftrightarrow> in_trees sp x \<and> x \<noteq> c mod lz_N"
    using delete_node_ok [OF d, of "c mod lz_N"] by auto
  have "window (c + 1) (lz_N - lz_F) sp'"
    unfolding window_def
  proof (intro allI impI)
    fix p assume "in_trees sp' p"
    with i have "in_trees sp p" "p \<noteq> c mod lz_N" by auto
    with w obtain k where k: "k < lz_N - lz_F + 1" "p = (c + k) mod lz_N" unfolding window_def by blast
    with \<open>p \<noteq> c mod lz_N\<close> have "k \<noteq> 0" by (metis add_0_right)
    with k show "\<exists>k < lz_N - lz_F. p = (c + 1 + k) mod lz_N" by (intro exI [of _ "k - 1"]) simp
  qed
  with ok sp' i show ?thesis by (auto simp: ring_ok_def)
qed

lemma trees_store:
  assumes "trees sp d" and "\<not> in_trees sp p" and "\<And>q. q < lz_N \<Longrightarrow> q \<noteq> p \<Longrightarrow> text_buf sp' q = text_buf sp q"
    and "lchild sp' = lchild sp" "rchild sp' = rchild sp" "parent sp' = parent sp"
  shows "trees sp' d"
proof -
  have col: "colour (text_buf sp') q = colour (text_buf sp) q" if "live (parent sp) q" for q
  proof (cases "q < lz_N")
    case True
    with that assms(2) have "q \<noteq> p" by (auto simp: live_def in_trees_def is_root_def)
    with assms(3) [OF True] show ?thesis by (simp add: colour_def)
  qed (simp add: colour_def)
  have child: "child_ok (colour (text_buf sp')) (parent sp) d q c"
    if "live (parent sp) q" "child_ok (colour (text_buf sp)) (parent sp) d q c" for q c
  proof (cases "c = NIL")
    case False
    with that(2) have "parent sp c = q" "c < lz_N" by (auto simp: child_ok_def)
    then have "live (parent sp) c" using live_not_NIL [OF that(1)] by (simp add: live_def in_tree_def)
    with col that show ?thesis by (simp add: child_ok_def)
  qed (simp add: child_nil)
  note ok = assms(1) [unfolded trees_def]
  show ?thesis
    unfolding trees_def assms(4,5,6)
    by (intro tree_okI) (use child tree_okD [OF ok] in \<open>auto simp: live_def\<close>)
qed

lemma ring_store:
  assumes ok: "ring_ok src (c + 1) rd (lz_N - lz_F) sp" and dead: "\<not> in_trees sp (c mod lz_N)"
    and rd: "rd = c + lz_F" "rd < length src" and b: "b = src ! rd"
    and sp': "sp' = sp\<lparr>text_buf := (text_buf sp)(c mod lz_N := b)\<rparr>"
  defines "sp'' \<equiv> (if c mod lz_N < lz_F - 1 then sp'\<lparr>text_buf := (text_buf sp')(c mod lz_N + lz_N := b)\<rparr> else sp')"
  shows "ring_ok src (c + 1) (rd + 1) (lz_N - lz_F) sp''"
proof -
  have tb: "text_buf sp'' q = (if q = c mod lz_N \<or> q = c mod lz_N + lz_N \<and> c mod lz_N < lz_F - 1 then b else text_buf sp q)" for q
    by (simp add: sp''_def sp')
  have rest: "lchild sp'' = lchild sp" "rchild sp'' = rchild sp" "parent sp'' = parent sp"
    by (simp_all add: sp''_def sp')
  obtain d where d: "trees sp d" using ok by (auto simp: ring_ok_def)
  have 1: "trees sp'' d" using trees_store [OF d dead _ rest] by (simp add: tb)
  have 2: "window (c + 1) (lz_N - lz_F) sp''"
    using ok rest by (simp add: ring_ok_def window_def in_trees_def)
  have vb: "b = vtext src (lz_N - lz_F + rd)" using b by (simp add: vtext_def)
  have pos: "(lz_N - lz_F + rd) mod lz_N = c mod lz_N"
  proof -
    have "lz_N - lz_F + rd = c + lz_N" using rd(1) by simp
    then show ?thesis by simp
  qed
  have "holds src ((text_buf sp)(c mod lz_N := b)) (lz_N - lz_F + rd + 1)"
    using holds_store [of src "text_buf sp" "lz_N - lz_F + rd"] ok unfolding pos vb by (simp add: ring_ok_def)
  moreover have "text_buf sp'' (v mod lz_N) = ((text_buf sp)(c mod lz_N := b)) (v mod lz_N)" for v
    using mod_less_divisor [of lz_N v] by (auto simp: tb)
  ultimately have 3: "holds src (text_buf sp'') (lz_N - lz_F + (rd + 1))" by (simp add: holds_def)
  have 4: "mirror (rd + 1) (text_buf sp'')"
    unfolding mirror_def
  proof (intro allI impI)
    fix x assume x: "x < lz_F - 1" "x + lz_F < rd + 1"
    show "text_buf sp'' (lz_N + x) = text_buf sp'' x"
    proof (cases "x = c mod lz_N")
      case True
      then show ?thesis using x(1) by (simp add: tb add.commute)
    next
      case False
      have "x \<noteq> c" using False x(1) by auto
      then have "x + lz_F < rd" using x(2) rd(1) by simp
      with ok x(1) have "text_buf sp (lz_N + x) = text_buf sp x" by (simp add: ring_ok_def mirror_def)
      moreover have "lz_N + x \<noteq> c mod lz_N" using mod_less_divisor [of lz_N c] by linarith
      moreover have "x \<noteq> c mod lz_N + lz_N" using x(1) by simp
      ultimately show ?thesis using False by (simp add: tb)
    qed
  qed
  show ?thesis using 1 2 3 4 rd by (auto simp: ring_ok_def)
qed

section \<open>Passing over the bytes of a token\<close>

definition enc_ring :: "bytes \<Rightarrow> nat \<Rightarrow> nat \<Rightarrow> encoder \<Rightarrow> bool" where
  "enc_ring src c rd e \<longleftrightarrow> e_src e = drop rd src \<and> rd \<le> length src \<and> e_len e = rd - c \<and> c \<le> rd \<and>
     (e_src e \<noteq> [] \<longrightarrow> rd = c + lz_F) \<and>
     e_r e = (lz_N - lz_F + c) mod lz_N \<and> e_s e = c mod lz_N \<and>
     (c < rd \<longrightarrow> ring_ok src c rd (lz_N - lz_F + 1) (e_sp e))"

definition same_output :: "encoder \<Rightarrow> encoder \<Rightarrow> bool" where
  "same_output e e' \<longleftrightarrow> e_dst e' = e_dst e \<and> e_code e' = e_code e \<and> e_mask e' = e_mask e"

definition enc_step :: "encoder \<Rightarrow> encoder option" where
  "enc_step e = (case e_src e of c # src \<Rightarrow> enc_read e c src | [] \<Rightarrow> enc_drain e)"

lemma ring_next: "ring (c mod lz_N + 1) = (c + 1) mod lz_N"
  by (simp add: ring_mod mod_Suc_eq)

lemma enc_step_ok:
  assumes ok: "enc_ring src c rd e" and c: "c < rd"
  shows "\<exists>e' rd'. enc_step e = Some e' \<and> rd \<le> rd' \<and> enc_ring src (c + 1) rd' e' \<and> same_output e e' \<and>
    (c + 1 < rd' \<longrightarrow> match_text src (c + 1) rd' (e_sp e'))"
proof -
  have R: "ring_ok src c rd (lz_N - lz_F + 1) (e_sp e)" "e_s e = c mod lz_N"
    "e_r e = (lz_N - lz_F + c) mod lz_N" "e_src e = drop rd src" "rd \<le> length src" "e_len e = rd - c"
    using ok c unfolding enc_ring_def by blast+
  obtain sp where sp: "delete_node (e_sp e) (c mod lz_N) = Some sp"
    "ring_ok src (c + 1) rd (lz_N - lz_F) sp" "\<not> in_trees sp (c mod lz_N)"
    using ring_delete [OF R(1) c] by (elim exE conjE) (rule that)
  define r' where "r' = (lz_N - lz_F + (c + 1)) mod lz_N"
  have r1: "ring (e_r e + 1) = r'"
    using ring_next [of "lz_N - lz_F + c"] unfolding R(3) add.assoc r'_def .
  have r2: "ring (Suc (e_r e)) = r'" using r1 by simp
  have s1: "ring (e_s e + 1) = (c + 1) mod lz_N" using ring_next R(2) by simp
  show ?thesis
  proof (cases "e_src e")
    case Nil
    then have rd: "rd = length src" using R(4,5) by simp
    show ?thesis
    proof (cases "c + 1 < rd")
      case True
      obtain sp2 where sp2: "insert_node sp r' = Some sp2"
        "ring_ok src (c + 1) rd (lz_N - lz_F + 1) sp2" "match_text src (c + 1) rd sp2"
        using ring_insert [OF sp(2) True, folded r'_def] by (elim exE conjE) (rule that)
      define e' where "e' = e\<lparr>e_sp := sp2, e_s := ring (e_s e + 1), e_r := ring (e_r e + 1), e_len := e_len e - 1\<rparr>"
      have "enc_step e = Some e'"
        using Nil R(2,6) sp(1) sp2(1) True by (simp add: enc_step_def enc_drain_def Let_def r2 e'_def)
      moreover have "enc_ring src (c + 1) rd e'"
        unfolding enc_ring_def using sp2(2) True R(4,5,6) Nil by (simp add: e'_def r1 [simplified] s1 [simplified] r'_def)
      ultimately show ?thesis
        using sp2(3) by (intro exI [of _ e'] exI [of _ rd]) (simp add: same_output_def e'_def)
    next
      case False
      define e' where "e' = e\<lparr>e_sp := sp, e_s := ring (e_s e + 1), e_r := ring (e_r e + 1), e_len := e_len e - 1\<rparr>"
      have "enc_step e = Some e'"
        using Nil R(2,6) sp(1) c False by (simp add: enc_step_def enc_drain_def Let_def e'_def)
      moreover have "enc_ring src (c + 1) rd e'"
        unfolding enc_ring_def using False c R(4,5,6) Nil by (simp add: e'_def r1 [simplified] s1 [simplified] r'_def)
      ultimately show ?thesis
        using False by (intro exI [of _ e'] exI [of _ rd]) (simp add: same_output_def e'_def)
    qed
  next
    case (Cons b rest)
    have rd: "rd = c + lz_F" using ok Cons unfolding enc_ring_def by simp
    have drop: "drop rd src = b # rest" using R(4) Cons by simp
    then have rdl: "rd < length src" by (metis drop_all list.distinct(1) not_le)
    with drop have b: "b = src ! rd" "rest = drop (rd + 1) src"
      using Cons_nth_drop_Suc [OF rdl] by auto
    note rd = rd rdl
    define sp1 where "sp1 = sp\<lparr>text_buf := (text_buf sp)(c mod lz_N := b)\<rparr>"
    define sp2 where "sp2 = (if c mod lz_N < lz_F - 1 then sp1\<lparr>text_buf := (text_buf sp1)(c mod lz_N + lz_N := b)\<rparr> else sp1)"
    have "ring_ok src (c + 1) (rd + 1) (lz_N - lz_F) sp2"
      unfolding sp2_def by (rule ring_store [OF sp(2,3) rd b(1) sp1_def])
    from ring_insert [OF this, folded r'_def] rd(1) obtain sp3 where sp3: "insert_node sp2 r' = Some sp3"
      "ring_ok src (c + 1) (rd + 1) (lz_N - lz_F + 1) sp3" "match_text src (c + 1) (rd + 1) sp3"
      by auto
    define e' where "e' = e\<lparr>e_sp := sp3, e_src := rest, e_s := ring (e_s e + 1), e_r := ring (e_r e + 1)\<rparr>"
    have "enc_step e = Some e'"
      using Cons R(2) sp(1) sp3(1)
      by (cases "c mod lz_N < lz_F - 1") (simp_all add: enc_step_def enc_read_def Let_def r2 sp1_def sp2_def e'_def)
    moreover have "enc_ring src (c + 1) (rd + 1) e'"
      unfolding enc_ring_def using sp3(2) rd R(6) b by (simp add: e'_def r1 [simplified] s1 [simplified] r'_def)
    ultimately show ?thesis
      using sp3(3) by (intro exI [of _ e'] exI [of _ "rd + 1"]) (simp add: same_output_def e'_def)
  qed
qed

lemma enc_advance_step:
  "enc_advance (Suc n) e = (case enc_step e of None \<Rightarrow> None | Some e' \<Rightarrow> enc_advance n e')"
  by (simp add: enc_step_def)

lemma same_output_trans: "same_output a b \<Longrightarrow> same_output b c \<Longrightarrow> same_output a c"
  by (simp add: same_output_def)

lemma enc_advance_ok:
  "enc_ring src c rd e \<Longrightarrow> 0 < k \<Longrightarrow> c + k \<le> rd \<Longrightarrow>
   \<exists>e' rd'. enc_advance k e = Some e' \<and> enc_ring src (c + k) rd' e' \<and> same_output e e' \<and>
     (c + k < rd' \<longrightarrow> match_text src (c + k) rd' (e_sp e'))"
proof (induction k arbitrary: c rd e)
  case (Suc k)
  obtain e1 rd1 where e1: "enc_step e = Some e1" "rd \<le> rd1" "enc_ring src (c + 1) rd1 e1"
    "same_output e e1" "c + 1 < rd1 \<longrightarrow> match_text src (c + 1) rd1 (e_sp e1)"
    using enc_step_ok [OF Suc.prems(1)] Suc.prems(3) by auto
  show ?case
  proof (cases "k = 0")
    case True
    with e1 show ?thesis by (auto simp: enc_advance_step simp del: enc_advance.simps(2))
  next
    case False
    then have "0 < k" "c + 1 + k \<le> rd1" using Suc.prems(3) e1(2) by auto
    from Suc.IH [OF e1(3) this] e1(1,4) show ?thesis
      by (auto simp: enc_advance_step simp del: enc_advance.simps(2) dest: same_output_trans)
  qed
qed simp

section \<open>One token\<close>

lemma enc_ring_cong:
  assumes "enc_ring src c rd e" "e_src e' = e_src e" "e_len e' = e_len e" "e_r e' = e_r e" "e_s e' = e_s e"
    and "ring_ok src c rd (lz_N - lz_F + 1) (e_sp e) \<Longrightarrow> ring_ok src c rd (lz_N - lz_F + 1) (e_sp e')"
  shows "enc_ring src c rd e'"
  using assms(1,6) unfolding enc_ring_def assms(2,3,4,5) by blast

lemma enc_unit_ok:
  assumes ring: "enc_ring src c rd e" and m: "match_text src c rd (e_sp e)" and c: "c < rd"
    and code: "e_code e = group cur" "e_mask e = push_bit (length cur) 1"
  defines "k \<equiv> match_length (e_sp (enc_unit e))"
  shows "\<exists>t. 1 \<le> k \<and> c + k \<le> rd \<and> token_ok src c t (c + k) \<and> enc_ring src c rd (enc_unit e) \<and>
    e_code (enc_unit e) = group (cur @ [t]) \<and> e_mask (enc_unit e) = e_mask e"
proof -
  have ok: "ring_ok src c rd (lz_N - lz_F + 1) (e_sp e)" and len: "e_len e = rd - c" and r: "e_r e = (lz_N - lz_F + c) mod lz_N"
    and rd: "rd \<le> length src" using ring c unfolding enc_ring_def by blast+
  have keep: "enc_ring src c rd (e\<lparr>e_sp := e_sp e\<lparr>match_length := l\<rparr>, e_code := x\<rparr>)" for l x
    by (rule enc_ring_cong [OF ring]) (simp_all add: ring_ok_def trees_def window_def in_trees_def)
  define l where "l = min (match_length (e_sp e)) (rd - c)"
  have clip: "(if match_length (e_sp e) > e_len e then e_sp e\<lparr>match_length := e_len e\<rparr> else e_sp e) =
      e_sp e\<lparr>match_length := l\<rparr>" by (simp add: l_def len)
  show ?thesis
  proof (cases "l \<le> THRESHOLD")
    case True
    have "text_buf (e_sp e) (e_r e) = src ! c"
      using read_text [OF ok, of "lz_N - lz_F + c" 0] c by (simp add: r vtext_def)
    then have u: "enc_unit e = e\<lparr>e_sp := e_sp e\<lparr>match_length := 1\<rparr>,
        e_code := (e_code e)[0 := e_code e ! 0 OR e_mask e] @ [src ! c]\<rparr>"
      using True by (simp add: enc_unit_def clip Let_def)
    have k: "k = 1" by (simp add: k_def u)
    have "token_ok src c (Lit (src ! c)) (c + k)" using c rd by (simp add: token_ok_def k)
    moreover have "enc_ring src c rd (enc_unit e)" unfolding u by (rule keep)
    moreover have "e_code (enc_unit e) = group (cur @ [Lit (src ! c)])"
      by (simp add: u code group_def flag_bits_append)
    moreover have "e_mask (enc_unit e) = e_mask e" by (simp add: u)
    ultimately show ?thesis using k c by (intro exI [of _ "Lit (src ! c)"]) simp
  next
    case False
    then have u: "enc_unit e = e\<lparr>e_sp := e_sp e\<lparr>match_length := l\<rparr>,
        e_code := e_code e @ token_bytes (Ref (match_position (e_sp e)) l)\<rparr>"
      by (simp add: enc_unit_def clip Let_def)
    have k: "k = l" by (simp add: k_def u)
    have l: "l \<le> match_length (e_sp e)" "l \<le> rd - c" "0 < match_length (e_sp e)"
      using False by (auto simp: l_def)
    have "token_ok src c (Ref (match_position (e_sp e)) l) (c + k)"
    proof -
      obtain v where "match_length (e_sp e) \<le> lz_F" "c \<le> v" "v < lz_N - lz_F + c" "match_position (e_sp e) = v mod lz_N"
        "\<forall>i < match_length (e_sp e). c + i < rd \<longrightarrow> vtext src (v + i) = vtext src (lz_N - lz_F + c + i)"
        using m l(3) unfolding match_text_def by blast
      moreover have "\<forall>i < l. c + i < rd" using l(2) by auto
      ultimately show ?thesis
        using False l rd c unfolding token_ok_def k token.case
        by (intro conjI exI [of _ v]) (auto dest: less_le_trans)
    qed
    moreover have "enc_ring src c rd (enc_unit e)" unfolding u by (rule keep)
    moreover have "e_code (enc_unit e) = group (cur @ [Ref (match_position (e_sp e)) l])"
      by (simp add: u code group_def flag_bits_append)
    moreover have "e_mask (enc_unit e) = e_mask e" by (simp add: u)
    ultimately show ?thesis using k l c False by (intro exI [of _ "Ref (match_position (e_sp e)) l"]) simp
  qed
qed

section \<open>The bytes written\<close>

definition output_ok :: "bytes \<Rightarrow> nat \<Rightarrow> encoder \<Rightarrow> token list list \<Rightarrow> token list \<Rightarrow> bool" where
  "output_ok src c e gs cur \<longleftrightarrow> (\<forall>g \<in> set gs. length g = 8) \<and> length cur < 8 \<and>
     covers src 0 (concat gs @ cur) c \<and> e_dst e = concat (map group gs) \<and> e_code e = group cur \<and>
     e_mask e = push_bit (length cur) 1"

lemma token_size: "token_ok src c t c' \<Longrightarrow> c + length (token_bytes t) \<le> c' \<and> c + 1 \<le> c'"
  by (cases t) (auto simp: token_ok_def)

lemma covers_size:
  "covers src c ts c' \<Longrightarrow> c + length (concat (map token_bytes ts)) \<le> c' \<and> c + length ts \<le> c'"
proof (induction ts arbitrary: c)
  case (Cons t ts)
  then obtain c1 where "token_ok src c t c1" "covers src c1 ts c'" by auto
  with Cons.IH [of c1] token_size [of src c t c1] show ?case by simp
qed simp

text \<open>A covering of \<open>c\<close> bytes takes at most \<open>c\<close> bytes and a flag byte per eight tokens.\<close>

lemma groups_size:
  "\<forall>g \<in> set gs. length g = 8 \<Longrightarrow>
   length (concat gs) = 8 * length gs \<and>
   length (concat (map group gs)) = length gs + length (concat (map token_bytes (concat gs)))"
  by (induction gs) (auto simp: group_def)

lemma written_size:
  assumes "\<forall>g \<in> set gs. length g = 8" "length cur \<le> 8" "cur \<noteq> []" "covers src 0 (concat gs @ cur) c"
  shows "length (concat (map group gs)) + length (group cur) \<le> c + (c + 7) div 8"
proof -
  have "8 * length gs + length cur \<le> c" "length (concat (map token_bytes (concat gs))) +
      length (concat (map token_bytes cur)) \<le> c"
    using covers_size [OF assms(4)] groups_size [OF assms(1)] by auto
  moreover have "1 \<le> length cur" using assms(3) by (cases cur) auto
  moreover have "length (group cur) = 1 + length (concat (map token_bytes cur))" by (simp add: group_def)
  ultimately show ?thesis using groups_size [OF assms(1)] by linarith
qed

lemma code_flush_eq:
  "code_flush n dst bs = (if bs = [] \<or> length dst + length bs \<le> n then Some (dst @ bs) else None)"
  by (induction n dst bs rule: code_flush.induct) auto

lemma mask_shift: "n < 8 \<Longrightarrow> push_bit 1 (push_bit n 1 :: byte) = 0 \<longleftrightarrow> n = 7"
proof -
  assume "n < 8"
  then have "n \<in> {0, 1, 2, 3, 4, 5, 6, 7}" by (auto simp: less_Suc_eq eval_nat_numeral)
  then show ?thesis by auto
qed

lemma enc_shift_ok:
  assumes e: "e_dst e = concat (map group gs)" "e_code e = group ts" "e_mask e = push_bit (length ts - 1) 1"
    and gs: "\<forall>g \<in> set gs. length g = 8" "ts \<noteq> []" "length ts \<le> 8"
    and c: "covers src 0 (concat gs @ ts) c"
  shows "case enc_shift n e of None \<Rightarrow> n < c + (c + 7) div 8
    | Some e' \<Rightarrow> (\<exists>gs cur. output_ok src c e' gs cur) \<and> e_sp e' = e_sp e \<and> e_src e' = e_src e \<and>
        e_len e' = e_len e \<and> e_r e' = e_r e \<and> e_s e' = e_s e"
proof (cases "length ts = 8")
  case True
  then have m: "push_bit 1 (e_mask e) = 0" using mask_shift [of 7] e(3) by simp
  have size: "length (concat (map group gs)) + length (group ts) \<le> c + (c + 7) div 8"
    by (rule written_size [OF gs(1,3,2) c])
  have "output_ok src c (e\<lparr>e_dst := concat (map group gs) @ group ts, e_code := [0], e_mask := 1\<rparr>) (gs @ [ts]) []"
    using gs True c by (simp add: output_ok_def group_def)
  then show ?thesis
    using m size by (auto simp: enc_shift_def Let_def code_flush_eq e group_def split: if_splits)
next
  case False
  then have n: "length ts - 1 < 8" "length ts - 1 \<noteq> 7" "Suc (length ts - 1) = length ts"
    using gs by (auto simp: less_Suc_eq_le Suc_le_eq)
  have m: "push_bit 1 (e_mask e) \<noteq> 0" using mask_shift [OF n(1)] n(2) e(3) by simp
  have "push_bit 1 (e_mask e) = push_bit (length ts) 1"
    using n(3) by (metis e(3) push_bit_push_bit Suc_eq_plus1 add.commute)
  then have "output_ok src c (e\<lparr>e_mask := push_bit 1 (e_mask e)\<rparr>) gs ts"
    using gs c e False by (simp add: output_ok_def)
  then show ?thesis using m by (auto simp: enc_shift_def Let_def)
qed

section \<open>The whole text\<close>

text \<open>The outcome of the loop: the tokens of the whole text, unless the destination is
  smaller than the text needs without any compression.\<close>

definition covered :: "nat \<Rightarrow> bytes \<Rightarrow> encoder option \<Rightarrow> bool" where
  "covered dstlen src r \<longleftrightarrow> (case r of
     None \<Rightarrow> dstlen < length src + (length src + 7) div 8
   | Some e \<Rightarrow> \<exists>gs cur. output_ok src (length src) e gs cur)"

lemma enc_loop_ok:
  "enc_ring src c rd e \<Longrightarrow> match_text src c rd (e_sp e) \<Longrightarrow> c < rd \<Longrightarrow> output_ok src c e gs cur \<Longrightarrow>
   length src - c \<le> fuel \<Longrightarrow> covered dstlen src (enc_loop fuel dstlen e)"
proof (induction fuel arbitrary: c rd e gs cur)
  case 0
  then show ?case unfolding enc_ring_def by linarith
next
  case (Suc fuel)
  note out = Suc.prems(4) [unfolded output_ok_def]
  define k where "k = match_length (e_sp (enc_unit e))"
  obtain t where t: "1 \<le> k" "c + k \<le> rd" "token_ok src c t (c + k)" "enc_ring src c rd (enc_unit e)"
    "e_code (enc_unit e) = group (cur @ [t])" "e_mask (enc_unit e) = e_mask e"
    using enc_unit_ok [OF Suc.prems(1,2,3), of cur] out k_def by auto
  have rd: "rd \<le> length src" using Suc.prems(1) unfolding enc_ring_def by blast
  have cov: "covers src 0 (concat gs @ cur @ [t]) (c + k)" using out t(3) by (auto simp: covers_append)
  have S: "case enc_shift dstlen (enc_unit e) of None \<Rightarrow> dstlen < c + k + (c + k + 7) div 8
    | Some e' \<Rightarrow> (\<exists>gs cur. output_ok src (c + k) e' gs cur) \<and> e_sp e' = e_sp (enc_unit e) \<and>
        e_src e' = e_src (enc_unit e) \<and> e_len e' = e_len (enc_unit e) \<and> e_r e' = e_r (enc_unit e) \<and>
        e_s e' = e_s (enc_unit e)"
    using out t cov by (intro enc_shift_ok [where gs = gs and ts = "cur @ [t]"]) auto
  show ?case
  proof (cases "enc_shift dstlen (enc_unit e)")
    case None
    then have "dstlen < c + k + (c + k + 7) div 8" using S by simp
    also have "\<dots> \<le> length src + (length src + 7) div 8"
      using t(2) rd by (intro add_mono div_le_mono) auto
    finally show ?thesis using None by (simp add: covered_def Let_def)
  next
    case (Some e1)
    note S1 = S [unfolded Some option.case]
    obtain gs1 cur1 where o1: "output_ok src (c + k) e1 gs1 cur1" using S1 by blast
    have "enc_ring src c rd e1" using S1 by (intro enc_ring_cong [OF t(4)]) auto
    from enc_advance_ok [OF this _ t(2)] t(1) obtain e2 rd2 where e2: "enc_advance k e1 = Some e2"
      "enc_ring src (c + k) rd2 e2" "same_output e1 e2" "c + k < rd2 \<longrightarrow> match_text src (c + k) rd2 (e_sp e2)"
      by auto
    have o2: "output_ok src (c + k) e2 gs1 cur1"
      using o1 e2(3) by (simp add: output_ok_def same_output_def)
    have k1: "match_length (e_sp e1) = k" using S1 by (simp add: k_def)
    have run: "enc_loop (Suc fuel) dstlen e = (if e_len e2 > 0 then enc_loop fuel dstlen e2 else Some e2)"
      using Some e2(1) k1 by (simp add: Let_def)
    have len: "e_len e2 = rd2 - (c + k)" "c + k \<le> rd2" "e_src e2 = drop rd2 src" "rd2 \<le> length src"
      "e_src e2 \<noteq> [] \<longrightarrow> rd2 = c + k + lz_F"
      using e2(2) unfolding enc_ring_def by blast+
    show ?thesis
    proof (cases "c + k < rd2")
      case True
      have "length src - (c + k) \<le> fuel" using Suc.prems(5) t(1) by simp
      from Suc.IH [OF e2(2) e2(4) [rule_format, OF True] True o2 this] run len(1) True
      show ?thesis by simp
    next
      case False
      then have "rd2 = c + k" using len(2) by simp
      with len have "length src = c + k" by (cases "e_src e2 = []") auto
      with o2 run len(1) \<open>rd2 = c + k\<close> show ?thesis by (auto simp: covered_def)
    qed
  qed
qed

lemma store_lookahead_eq:
  "store_lookahead k bs buf = (\<lambda>i. if k \<le> i \<and> i < k + length bs then bs ! (i - k) else buf i)"
proof (induction bs arbitrary: k buf)
  case (Cons b bs)
  show ?case
  proof
    fix i
    show "store_lookahead k (b # bs) buf i =
      (if k \<le> i \<and> i < k + length (b # bs) then (b # bs) ! (i - k) else buf i)"
    proof (cases "i = k")
      case False
      then have "k < i \<Longrightarrow> i - k = Suc (i - Suc k)" by simp
      then show ?thesis using False by (auto simp: Cons)
    qed (simp add: Cons)
  qed
qed (auto simp: fun_eq_iff)

lemma insert_prefix_ok:
  "(\<exists>d. trees sp d) \<Longrightarrow> (\<And>p. in_trees sp p \<Longrightarrow> r - i < p \<and> p < r) \<Longrightarrow> r < lz_N \<Longrightarrow> i + n \<le> r \<Longrightarrow> 1 \<le> i \<Longrightarrow>
   \<exists>sp'. insert_prefix r i n sp = Some sp' \<and> (\<exists>d. trees sp' d) \<and> (\<forall>p. in_trees sp' p \<longrightarrow> p < r) \<and>
     text_buf sp' = text_buf sp"
proof (induction n arbitrary: i sp)
  case (Suc n)
  obtain d where d: "trees sp d" using Suc.prems(1) by blast
  have new: "\<not> in_trees sp (r - i)" using Suc.prems(2) [of "r - i"] by auto
  obtain sp1 where sp1: "insert_node sp (r - i) = Some sp1" "inserted sp (r - i) sp1"
    using insert_node_ok [OF d new] Suc.prems(3) by fastforce
  have "r - (i + 1) < p \<and> p < r" if "in_trees sp1 p" for p
  proof -
    have "in_trees sp p \<or> p = r - i" using sp1(2) that by (auto simp: inserted_def)
    then show ?thesis using Suc.prems(2) [of p] Suc.prems(4,5) by auto
  qed
  from Suc.IH [of sp1 "i + 1", OF _ this] Suc.prems(3,4) sp1 show ?case by (auto simp: inserted_def)
qed auto

text \<open>The state before the first token.\<close>

lemma encoder_start:
  assumes src: "src \<noteq> []"
  defines "rd \<equiv> min lz_F (length src)"
  shows "\<exists>sp1 sp2. insert_prefix (lz_N - lz_F) 1 lz_F
      (init_state\<lparr>text_buf := store_lookahead (lz_N - lz_F) (take lz_F src) (text_buf init_state)\<rparr>) = Some sp1 \<and>
    insert_node sp1 (lz_N - lz_F) = Some sp2 \<and>
    ring_ok src 0 rd (lz_N - lz_F + 1) sp2 \<and> match_text src 0 rd sp2"
proof -
  let ?sp = "init_state\<lparr>text_buf := store_lookahead (lz_N - lz_F) (take lz_F src) (text_buf init_state)\<rparr>"
  have none: "\<not> in_trees ?sp p" for p by (auto simp: in_trees_def in_tree_def init_state_def)
  have "trees ?sp (\<lambda>_. 0)"
    using none unfolding trees_def in_trees_def
    by (intro tree_okI) (auto simp: live_def is_root_def child_ok_def init_state_def)
  then have "\<exists>d. trees ?sp d" by blast
  from insert_prefix_ok [of ?sp "lz_N - lz_F" 1 lz_F, OF this] none obtain sp1 where
    sp1: "insert_prefix (lz_N - lz_F) 1 lz_F ?sp = Some sp1" "\<exists>d. trees sp1 d"
      "\<forall>p. in_trees sp1 p \<longrightarrow> p < lz_N - lz_F" "text_buf sp1 = text_buf ?sp" by auto
  have tb: "text_buf sp1 v = vtext src v" if "v < lz_N - lz_F + rd" for v
    using that by (auto simp: sp1(4) store_lookahead_eq init_state_def vtext_def rd_def)
  have "v mod lz_N = v" if "v < lz_N - lz_F + rd" for v using that by (simp add: rd_def)
  then have "holds src (text_buf sp1) (lz_N - lz_F + rd)" using tb by (simp add: holds_def)
  moreover have "window 0 (lz_N - lz_F) sp1" 
    unfolding window_def
  proof (intro allI impI)
    fix p assume "in_trees sp1 p"
    with sp1(3) have "p < 4078" by auto
    then show "\<exists>k < lz_N - lz_F. p = (0 + k) mod lz_N" by (intro exI [of _ p]) simp
  qed
  moreover have "mirror rd (text_buf sp1)" by (simp add: mirror_def rd_def)
  ultimately have "ring_ok src 0 rd (lz_N - lz_F) sp1"
    using sp1(2) by (simp add: ring_ok_def rd_def)
  from ring_insert [OF this] src obtain sp2 where "insert_node sp1 ((lz_N - lz_F + 0) mod lz_N) = Some sp2"
    "ring_ok src 0 rd (lz_N - lz_F + 1) sp2" "match_text src 0 rd sp2"
    by (auto simp: rd_def)
  with sp1(1) show ?thesis by auto
qed

lemma token_bytes_nonempty: "token_bytes t \<noteq> []"
  by (cases t) auto

lemma compress_lzss_tokens:
  assumes src: "src \<noteq> []"
  shows "case compress_lzss True dstlen src of
      None \<Rightarrow> dstlen < length src + (length src + 7) div 8
    | Some out \<Rightarrow> \<exists>gs cur. (\<forall>g \<in> set gs. length g = 8) \<and> length cur < 8 \<and>
        covers src 0 (concat gs @ cur) (length src) \<and> out = packed gs cur"
proof -
  define rd where "rd = min lz_F (length src)"
  obtain sp1 sp2 where sp: "insert_prefix (lz_N - lz_F) 1 lz_F
      (init_state\<lparr>text_buf := store_lookahead (lz_N - lz_F) (take lz_F src) (text_buf init_state)\<rparr>) = Some sp1"
    "insert_node sp1 (lz_N - lz_F) = Some sp2" "ring_ok src 0 rd (lz_N - lz_F + 1) sp2" "match_text src 0 rd sp2"
    using encoder_start [OF src] unfolding rd_def by blast
  let ?e = "\<lparr>e_sp = sp2, e_src = drop lz_F src, e_dst = [], e_len = rd, e_r = lz_N - lz_F, e_s = 0,
    e_code = [0], e_mask = 1\<rparr>"
  have rd: "0 < rd" using src by (simp add: rd_def)
  have "enc_ring src 0 rd ?e" using sp(3) by (auto simp: enc_ring_def rd_def min_def)
  moreover have "output_ok src 0 ?e [] []" by (simp add: output_ok_def group_def)
  ultimately have C: "covered dstlen src (enc_loop (length src) dstlen ?e)"
    using enc_loop_ok [of src 0 rd ?e "[]" "[]"] sp(4) rd by simp
  have run: "compress_lzss True dstlen src = (case enc_loop (length src) dstlen ?e of None \<Rightarrow> None
    | Some e \<Rightarrow> if length (e_code e) > 1 then code_flush dstlen (e_dst e) (e_code e) else Some (e_dst e))"
    using sp rd by (simp add: compress_lzss_def Let_def rd_def min.commute)
  show ?thesis
  proof (cases "enc_loop (length src) dstlen ?e")
    case None
    then show ?thesis using C run by (simp add: covered_def)
  next
    case (Some e)
    then obtain gs cur where o: "output_ok src (length src) e gs cur" using C by (auto simp: covered_def)
    note run' = run [unfolded Some option.case]
    show ?thesis
    proof (cases "cur = []")
      case True
      with o have "compress_lzss True dstlen src = Some (packed gs cur)"
        by (simp add: run' output_ok_def packed_def group_def)
      with o show ?thesis by (auto simp: output_ok_def)
    next
      case False
      then have "compress_lzss True dstlen src = code_flush dstlen (concat (map group gs)) (group cur)"
        using o token_bytes_nonempty [of "hd cur"]
        by (cases cur) (auto simp: run' output_ok_def group_def)
      moreover have "length (concat (map group gs)) + length (group cur) \<le> length src + (length src + 7) div 8"
        using o False by (intro written_size) (auto simp: output_ok_def)
      moreover have "group cur \<noteq> []" by (simp add: group_def)
      ultimately show ?thesis
        using o False by (auto simp: code_flush_eq output_ok_def packed_def)
    qed
  qed
qed

section \<open>Properties\<close>

lemma lzss_decodes:
  assumes "compress_lzss malloc_ok dstlen src = Some out" and "length src \<le> n"
  shows "decompress_lzss junk n out = src"
proof -
  have m: "malloc_ok" "src \<noteq> []" using assms(1) by (auto simp: compress_lzss_def split: if_splits)
  with compress_lzss_tokens [OF m(2), of dstlen] assms(1) obtain gs cur where
    "\<forall>g \<in> set gs. length g = 8" "length cur < 8" "covers src 0 (concat gs @ cur) (length src)"
    "out = packed gs cur" by auto
  with decompress_packed [OF _ _ _ assms(2)] show ?thesis by blast
qed

text \<open>C7. Whatever \<open>compress_lzss\<close> delivers, \<open>decompress_lzss\<close> turns it back into the text,
  for any destination that is large enough and whatever its uninitialised ring bytes hold. No
  assumption on the text: matches, overlapping copies and wraps of the ring included.\<close>

theorem lzss_round_trip:
  "compress_lzss malloc_ok dstlen src = Some out \<Longrightarrow> length src \<le> n \<Longrightarrow>
   decompress_lzss junk n out = src"
  by (rule lzss_decodes)

text \<open>C9. \<open>compress_lzss\<close> always returns, and it succeeds for every non-empty text when the
  state can be allocated and the destination has room for the text and one flag byte per eight
  bytes. So no walk over the search trees runs for ever and the output never exceeds that
  size.\<close>

theorem compress_lzss_succeeds:
  assumes "src \<noteq> []" and "length src + (length src + 7) div 8 \<le> dstlen"
  shows "\<exists>out. compress_lzss True dstlen src = Some out \<and> length out \<le> dstlen"
  using compress_lzss_tokens [OF assms(1), of dstlen] assms(2) compress_lzss_bounded [of True dstlen src]
  by (auto split: option.splits)

lemma compress_lzss_succeeds_witness:
  "\<exists>out. compress_lzss True 11 [97, 98, 97, 98, 97, 98, 97, 98, 99] = Some out \<and> length out \<le> 11"
  by (rule compress_lzss_succeeds) simp_all

lemma lzss_round_trip_witness:
  "\<exists>out. compress_lzss True 11 [97, 98, 97, 98, 97, 98, 97, 98, 99] = Some out \<and>
     decompress_lzss (\<lambda>_. 7) 9 out = [97, 98, 97, 98, 97, 98, 97, 98, 99]"
proof -
  obtain out where "compress_lzss True 11 [97, 98, 97, 98, 97, 98, 97, 98, 99] = Some out"
    using compress_lzss_tokens [of "[97, 98, 97, 98, 97, 98, 97, 98, 99]" 11] by (auto split: option.splits)
  with lzss_round_trip [OF this] show ?thesis by simp
qed

end
