(* ===== verification/MkextRound.thy ===== *)
theory MkextRound
  imports MkextProps LzssRound "HOL-Library.Multiset"
begin

text \<open>
  The two archive tools against each other: what \<open>createMkext1ForArch\<close> (Mkext1) writes,
  \<open>getMkextDataForArch\<close> and \<open>uncompressMkext1Entry\<close> (Mkextunpack) read back. The invariant
  \<open>stored\<close> says that a file entry of a growing archive yields a byte string; \<open>building\<close> says
  it of all entries written so far.
\<close>

section \<open>One file entry\<close>

definition entry_content :: "bytes \<Rightarrow> bytes option" where
  "entry_content data = (if data = [] then None else Some data)"

definition stored :: "mkext_abi \<Rightarrow> byte carray \<Rightarrow> nat \<Rightarrow> bytes \<Rightarrow> nat \<Rightarrow> bytes \<Rightarrow> bool" where
  "stored abi junk base d e data \<longleftrightarrow>
     e + 16 \<le> base \<and> base \<le> length d \<and>
     uncompressMkext1Entry abi True junk d e = Inr (entry_content data) \<and>
     (data \<noteq> [] \<longrightarrow> base \<le> unat (get32 (e + f_offset abi) d))"

lemma read_at_cong:
  assumes "read_at off n d = Some x" "base \<le> off" "length d \<le> length d'"
    and same: "\<And>p. base \<le> p \<Longrightarrow> p < length d \<Longrightarrow> d' ! p = d ! p"
  shows "read_at off n d' = Some x"
  using assms(1-3) take_drop_cong [of off n d' d] same
  by (auto simp: read_at_def split: if_splits)

lemma entry_fields_cong:
  assumes abi: "abi_ok abi" and "e + 16 \<le> length d" "e + 16 \<le> length d'"
    and same: "\<And>p. e \<le> p \<Longrightarrow> p < e + 16 \<Longrightarrow> d' ! p = d ! p"
  shows "get32 (e + f_offset abi) d' = get32 (e + f_offset abi) d"
    and "get32 (e + f_compsize abi) d' = get32 (e + f_compsize abi) d"
    and "get32 (e + f_realsize abi) d' = get32 (e + f_realsize abi) d"
    and "get32 (e + f_modifiedsecs abi) d' = get32 (e + f_modifiedsecs abi) d"
  using assms by (auto simp: abi_ok_def intro!: get32_cong)

lemma stored_frame:
  assumes abi: "abi_ok abi" and st: "stored abi junk base d e data"
    and len: "length d \<le> length d'"
    and head: "\<And>p. e \<le> p \<Longrightarrow> p < e + 16 \<Longrightarrow> d' ! p = d ! p"
    and tail: "\<And>p. base \<le> p \<Longrightarrow> p < length d \<Longrightarrow> d' ! p = d ! p"
  shows "stored abi junk base d' e data"
proof -
  have "e + 16 \<le> length d" using st by (simp add: stored_def)
  then have fields: "get32 (e + f_offset abi) d' = get32 (e + f_offset abi) d"
    "get32 (e + f_compsize abi) d' = get32 (e + f_compsize abi) d"
    "get32 (e + f_realsize abi) d' = get32 (e + f_realsize abi) d"
    "get32 (e + f_modifiedsecs abi) d' = get32 (e + f_modifiedsecs abi) d"
    using entry_fields_cong [OF abi _ _ head] len by simp_all
  have "uncompressMkext1Entry abi True junk d' e = Inr (entry_content data)"
  proof (cases "data = []")
    case True
    with st show ?thesis
      by (auto simp: stored_def uncompressMkext1Entry_def fields entry_content_def Let_def
          split: if_splits option.splits)
  next
    case False
    with st have "base \<le> unat (get32 (e + f_offset abi) d)" by (simp add: stored_def)
    then have read: "read_at (unat (get32 (e + f_offset abi) d)) n d' = Some x"
      if "read_at (unat (get32 (e + f_offset abi) d)) n d = Some x" for n x
      using read_at_cong [OF that _ len tail] by simp
    from st False show ?thesis
      by (auto simp: stored_def uncompressMkext1Entry_def fields entry_content_def Let_def
          split: if_splits option.splits dest: read)
  qed
  with st fields len show ?thesis by (auto simp: stored_def)
qed

lemma append_at_end:
  "length src \<le> full \<Longrightarrow>
     set_data_length (length mk + length src)
       (write_at (length mk) src (set_data_length (length mk + full) mk)) = mk @ src"
  by (simp add: set_data_length_def write_at_def)

lemma put_file_entry_all:
  "put_file_entry abi e off rsize csize d = be32_slots.put_all
     [(e + f_offset abi, off), (e + f_realsize abi, rsize), (e + f_compsize abi, csize),
      (e + f_modifiedsecs abi, 0)] d"
  by (simp add: put_file_entry_def be32_slots.put_all_def Let_def)

lemma put_file_entry_facts:
  fixes off rsize csize :: u32 and d :: bytes
  assumes abi: "abi_ok abi" and room: "e + 16 \<le> length d"
  defines "d' \<equiv> put_file_entry abi e off rsize csize d"
  shows "length d' = length d"
    and "get32 (e + f_offset abi) d' = off" "get32 (e + f_realsize abi) d' = rsize"
    and "get32 (e + f_compsize abi) d' = csize" "get32 (e + f_modifiedsecs abi) d' = 0"
    and "\<And>p. p < length d \<Longrightarrow> p < e \<or> e + 16 \<le> p \<Longrightarrow> d' ! p = d ! p"
proof -
  let ?ps = "[(e + f_offset abi, off), (e + f_realsize abi, rsize),
    (e + f_compsize abi, csize), (e + f_modifiedsecs abi, 0)]"
  have fit: "list_all (\<lambda>p. fst p + 4 \<le> length d) ?ps"
    and ap: "all_apart 4 (map fst ?ps)"
    using abi room by (simp_all add: abi_ok_def apart_def)
  show "length d' = length d"
    using be32_slots.size_put_all [OF fit] by (simp add: d'_def put_file_entry_all)
  show "get32 (e + f_offset abi) d' = off" "get32 (e + f_realsize abi) d' = rsize"
    "get32 (e + f_compsize abi) d' = csize" "get32 (e + f_modifiedsecs abi) d' = 0"
    unfolding d'_def put_file_entry_all
    by (rule be32_slots.get_put_all [OF ap fit]; simp)+
  show "d' ! p = d ! p" if "p < length d" "p < e \<or> e + 16 \<le> p" for p
    unfolding d'_def put_file_entry_all
    using that abi by (intro nth_put_all_apart [OF fit]) (auto simp: abi_ok_def)
qed

text \<open>What one call of \<open>addDataToMkext\<close> adds: the file's entry now yields the data, and
  every byte outside the entry is kept.\<close>

definition grows :: "mkext1_context \<Rightarrow> mkext1_context \<Rightarrow> nat \<Rightarrow> nat \<Rightarrow> bool" where
  "grows ctx ctx' e n \<longleftrightarrow>
     length (mkext ctx) \<le> length (mkext ctx') \<and> length (mkext ctx') \<le> length (mkext ctx) + n \<and>
     unat (compressOffset ctx') = length (mkext ctx') \<and>
     kextIndex ctx' = kextIndex ctx \<and> c_arch ctx' = c_arch ctx \<and> fatal ctx' = fatal ctx \<and>
     (\<forall>p < length (mkext ctx). p < e \<or> e + 16 \<le> p \<longrightarrow> mkext ctx' ! p = mkext ctx ! p)"

lemma uncompress_stored:
  assumes abi: "abi_ok abi" and room: "e + 16 \<le> length mk" "32 \<le> e"
    and small: "length mk + length data < 2 ^ 32" "length src \<le> length data"
    and src: "csize = 0 \<and> src = data \<or>
      csize = of_nat (length src) \<and> decompress_lzss junk (length data) src = data"
  shows "uncompressMkext1Entry abi True junk
      (put_file_entry abi e (of_nat (length mk)) (of_nat (length data)) csize (mk @ src)) e =
      Inr (entry_content data)"
    (is "uncompressMkext1Entry abi True junk ?d e = _")
proof -
  have room': "e + 16 \<le> length (mk @ src)" using room by simp
  define d where "d = ?d"
  note facts = put_file_entry_facts [OF abi room', where off = "of_nat (length mk)"
      and rsize = "of_nat (length data)" and csize = csize, folded d_def]
  have sizes: "unat (of_nat (length mk) :: u32) = length mk"
    "unat (of_nat (length data) :: u32) = length data"
    "unat (of_nat (length src) :: u32) = length src"
    using small by (simp_all add: unat_of_nat_small)
  have read: "read_at (length mk) (length src) d = Some src"
  proof -
    have "take (length src) (drop (length mk) d) = take (length src) (drop (length mk) (mk @ src))"
      using facts(1,6) room by (intro take_drop_cong) auto
    then show ?thesis by (simp add: read_at_def facts(1))
  qed
  have "mk \<noteq> []" using room by auto
  have dec0: "decompress_lzss junk n [] = []" for n
    by (simp add: decompress_lzss_def, subst lz_loop.simps) (simp add: lz_unit_def lz_next_flags_def)
  have realsize_zero: ?thesis if "data = []"
    unfolding d_def [symmetric]
    using that by (simp add: uncompressMkext1Entry_def facts entry_content_def)
  have pos: "unat (of_nat (length data) :: u32) \<noteq> 0" "unat (of_nat (length mk) :: u32) \<noteq> 0"
    if "data \<noteq> []"
    unfolding sizes using that \<open>mk \<noteq> []\<close> by auto
  from src show ?thesis
    unfolding d_def [symmetric]
  proof
    assume "csize = 0 \<and> src = data"
    with read pos realsize_zero [folded d_def]
    show "uncompressMkext1Entry abi True junk d e = Inr (entry_content data)"
      by (cases "data = []")
        (simp_all add: uncompressMkext1Entry_def facts sizes entry_content_def)
  next
    assume "csize = of_nat (length src) \<and> decompress_lzss junk (length data) src = data"
    with read pos realsize_zero [folded d_def] dec0
    show "uncompressMkext1Entry abi True junk d e = Inr (entry_content data)"
      by (cases "data = []"; cases "src = []")
        (simp_all add: uncompressMkext1Entry_def facts sizes entry_content_def)
  qed
qed

lemma addDataToMkext_adds:
  assumes abi: "abi_ok abi" and ok: "addDataToMkext abi env data ctx isInfoDict = (True, ctx')"
    and off: "unat (compressOffset ctx) = length (mkext ctx)"
    and small: "length (mkext ctx) + length data < 2 ^ 32"
    and e: "e = file_entry abi (kextIndex ctx) isInfoDict"
    and base: "e + 16 \<le> base" "base \<le> length (mkext ctx)"
  shows "grows ctx ctx' e (length data)"
    and "stored abi junk base (mkext ctx') e data"
proof -
  let ?mk = "mkext ctx"
  have full: "unat (of_nat (length data) :: u32) = length data"
    using small by (simp add: unat_of_nat_small)
  have start: "compressOffset ctx = of_nat (length ?mk)"
    using off by (metis of_nat_unat ucast_id)
  have mk: "unat (of_nat (length ?mk) :: u32) = length ?mk"
    using small by (simp add: unat_of_nat_small)
  have e32: "32 \<le> e" using abi by (simp add: e file_entry_def abi_ok_def)
  obtain src csize where src: "length src \<le> length data"
      "csize = 0 \<and> src = data \<or>
       csize = of_nat (length src) \<and> decompress_lzss junk (length data) src = data"
    and ctx': "ctx' = ctx\<lparr>compressOffset := of_nat (length ?mk) + of_nat (length src), mkext :=
          put_file_entry abi e (of_nat (length ?mk)) (of_nat (length data)) csize (?mk @ src)\<rparr>"
  proof (cases "if compress ctx then compress_lzss (can_compress env) (length data) data else None")
    case None
    with ok show thesis
      using append_at_end [of data "length data" ?mk] that [of data 0]
      by (auto simp: addDataToMkext_def Let_def full mk start e split: if_splits)
  next
    case (Some out)
    then have out: "length out \<le> length data"
      by (auto split: if_splits dest: compress_lzss_bounded)
    from Some have "decompress_lzss junk (length data) out = data"
      by (auto split: if_splits dest: lzss_decodes)
    with Some ok out show thesis
      using append_at_end [of out "length data" ?mk] that [of out "of_nat (length out)"]
      by (auto simp: addDataToMkext_def Let_def full mk start e split: if_splits)
  qed
  have room: "e + 16 \<le> length (?mk @ src)" using base by simp
  note facts = put_file_entry_facts [OF abi room, where off = "of_nat (length ?mk)"
      and rsize = "of_nat (length data)" and csize = csize]
  have "unat (compressOffset ctx') = length ?mk + length src"
    using small src(1) by (simp add: ctx' unat_of_nat_small flip: of_nat_add)
  then show "grows ctx ctx' e (length data)"
    using src(1) facts(1,6) by (auto simp: grows_def ctx')
  show "stored abi junk base (mkext ctx') e data"
    using uncompress_stored [OF abi _ e32 small src] base facts(1,2) small
    by (simp add: stored_def ctx' unat_of_nat_small)
qed

section \<open>The whole archive\<close>

text \<open>What is stored for a kext: its raw info dictionary, and its executable for the
  architecture, if any.\<close>

definition info_bytes :: "oskext \<Rightarrow> bytes" where
  "info_bytes k = (case k_info_data k of None \<Rightarrow> [] | Some d \<Rightarrow> d)"

definition exec_bytes :: "arch_info \<Rightarrow> oskext \<Rightarrow> bytes" where
  "exec_bytes arch k = (case k_executable k arch of None \<Rightarrow> [] | Some d \<Rightarrow> d)"

definition kext_bytes :: "arch_info \<Rightarrow> oskext \<Rightarrow> nat" where
  "kext_bytes arch k = length (info_bytes k) + length (exec_bytes arch k)"

definition kext_stored :: "mkext_abi \<Rightarrow> byte carray \<Rightarrow> nat \<Rightarrow> arch_info \<Rightarrow> bytes \<Rightarrow> nat \<Rightarrow> oskext \<Rightarrow> bool" where
  "kext_stored abi junk base arch d i k \<longleftrightarrow>
     stored abi junk base d (file_entry abi i True) (info_bytes k) \<and>
     stored abi junk base d (file_entry abi i False) (exec_bytes arch k)"

definition building ::
  "mkext_abi \<Rightarrow> byte carray \<Rightarrow> nat \<Rightarrow> arch_info \<Rightarrow> oskext list \<Rightarrow> mkext1_context \<Rightarrow> bool" where
  "building abi junk base arch ks ctx \<longleftrightarrow>
     c_arch ctx = arch \<and> kextIndex ctx = length ks \<and>
     unat (compressOffset ctx) = length (mkext ctx) \<and> base \<le> length (mkext ctx) \<and>
     length (mkext ctx) \<le> base + sum_list (map (kext_bytes arch) ks) \<and>
     (\<forall>i < length ks. kext_stored abi junk base arch (mkext ctx) i (ks ! i)) \<and>
     (\<forall>p. 32 + 32 * length ks \<le> p \<and> p < base \<longrightarrow> mkext ctx ! p = 0)"

lemma get32_zero:
  "off + 4 \<le> length d \<Longrightarrow> (\<And>p. off \<le> p \<Longrightarrow> p < off + 4 \<Longrightarrow> d ! p = 0) \<Longrightarrow> get32 off d = 0"
  by (simp add: get32_def take_drop_conv_map of_be32_def eval_nat_numeral)

lemma stored_empty_slot:
  assumes "abi_ok abi" "e + 16 \<le> base" "base \<le> length d"
    and "\<And>p. e \<le> p \<Longrightarrow> p < e + 16 \<Longrightarrow> d ! p = 0"
  shows "stored abi junk base d e []"
proof -
  have "get32 (e + f_realsize abi) d = 0"
    using assms by (intro get32_zero) (auto simp: abi_ok_def)
  with assms show ?thesis
    by (simp add: stored_def uncompressMkext1Entry_def entry_content_def)
qed

lemma file_entry_simps:
  "abi_ok abi \<Longrightarrow> file_entry abi i True = 32 + 32 * i"
  "abi_ok abi \<Longrightarrow> file_entry abi i False = 48 + 32 * i"
  by (simp_all add: file_entry_def abi_ok_def)

lemma kext_stored_frame:
  assumes abi: "abi_ok abi" and st: "kext_stored abi junk base arch d i k"
    and len: "length d \<le> length d'"
    and same: "\<And>p. p < length d \<Longrightarrow> 32 + 32 * i \<le> p \<and> p < 64 + 32 * i \<or> base \<le> p \<Longrightarrow> d' ! p = d ! p"
  shows "kext_stored abi junk base arch d' i k"
proof -
  have "64 + 32 * i \<le> base" "base \<le> length d"
    using st abi by (simp_all add: kext_stored_def stored_def file_entry_simps)
  with st show ?thesis
    unfolding kext_stored_def
    by (auto intro!: stored_frame [OF abi _ len] same simp: file_entry_simps [OF abi])
qed

lemma grows_step:
  assumes abi: "abi_ok abi" and inv: "grows ctx ctx' e n"
    and st: "kext_stored abi junk base arch (mkext ctx) i k" and e: "e + 16 \<le> base"
    and other: "64 + 32 * i \<le> e \<or> e + 16 \<le> 32 + 32 * i"
  shows "kext_stored abi junk base arch (mkext ctx') i k"
  using inv e other by (intro kext_stored_frame [OF abi st]) (auto simp: grows_def)

text \<open>One kext of the archive.\<close>

lemma addToMkext1_builds:
  assumes abi: "abi_ok abi" and inv: "building abi junk base arch ks ctx"
    and live: "\<not> fatal (addToMkext1 abi env k ctx)"
    and room: "64 + 32 * length ks \<le> base"
    and small: "base + sum_list (map (kext_bytes arch) (ks @ [k])) < 2 ^ 32"
  shows "building abi junk base arch (ks @ [k]) (addToMkext1 abi env k ctx)"
proof -
  let ?n = "length ks" and ?mk = "mkext ctx"
  let ?e1 = "file_entry abi ?n True" and ?e2 = "file_entry abi ?n False"
  note inv' = inv [unfolded building_def]
  have e1: "?e1 = 32 + 32 * ?n" and e2: "?e2 = 48 + 32 * ?n"
    by (simp_all add: file_entry_simps [OF abi])
  from live obtain raw ctx1 where raw: "k_info_data k = Some raw"
    and add1: "addDataToMkext abi env raw ctx True = (True, ctx1)"
    and step: "addToMkext1 abi env k ctx =
       (case k_executable k (c_arch ctx1) of
          Some module \<Rightarrow>
            (case addDataToMkext abi env module ctx1 False of
               (False, ctx) \<Rightarrow> ctx\<lparr>fatal := True\<rparr>
             | (True, ctx) \<Rightarrow> ctx\<lparr>kextIndex := kextIndex ctx + 1\<rparr>)
        | None \<Rightarrow>
            if k_declares_exec k then ctx1\<lparr>fatal := True\<rparr>
            else ctx1\<lparr>kextIndex := kextIndex ctx1 + 1\<rparr>)"
    by (auto simp: addToMkext1_def split: if_splits option.splits prod.splits bool.splits)
  have sizes: "length raw = length (info_bytes k)" "raw = info_bytes k"
    by (simp_all add: info_bytes_def raw)
  have small1: "length ?mk + length raw < 2 ^ 32"
    using small inv' by (simp add: sizes kext_bytes_def)
  have idx: "?e1 = file_entry abi (kextIndex ctx) True" using inv' by simp
  have fits: "?e1 + 16 \<le> base" "?e2 + 16 \<le> base" "base \<le> length ?mk"
    using room inv' by (simp_all add: e1 e2)
  note A = addDataToMkext_adds [OF abi add1 _ small1 idx fits(1) fits(3)]
  have g1: "grows ctx ctx1 ?e1 (length raw)" and s1: "stored abi junk base (mkext ctx1) ?e1 raw"
    using A inv' by simp_all
  have arch1: "c_arch ctx1 = arch" "kextIndex ctx1 = ?n" using g1 inv' by (simp_all add: grows_def)
  have old1: "kext_stored abi junk base arch (mkext ctx1) i (ks ! i)" if "i < ?n" for i
    using grows_step [OF abi g1, of junk base arch i "ks ! i"] that inv' fits
    by (simp add: e1)
  have zero1: "mkext ctx1 ! p = 0" if "48 + 32 * ?n \<le> p" "p < base" for p
    using g1 inv' that fits by (simp add: grows_def e1)
  have len1: "base \<le> length (mkext ctx1)" using g1 fits by (simp add: grows_def)
  show ?thesis
  proof (cases "k_executable k arch")
    case None
    then have exec: "exec_bytes arch k = []" by (simp add: exec_bytes_def)
    from None live step arch1 have new: "addToMkext1 abi env k ctx = ctx1\<lparr>kextIndex := kextIndex ctx1 + 1\<rparr>"
      by (simp split: if_splits)
    have "stored abi junk base (mkext ctx1) ?e2 []"
      using stored_empty_slot [OF abi fits(2) len1] zero1 fits by (simp add: e2)
    with s1 old1 g1 inv' zero1 len1 show ?thesis
      by (auto simp: building_def new arch1 grows_def kext_stored_def exec sizes kext_bytes_def
          nth_append less_Suc_eq)
  next
    case (Some x)
    then have exec: "exec_bytes arch k = x" by (simp add: exec_bytes_def)
    from Some live step arch1 obtain ctx2 where add2: "addDataToMkext abi env x ctx1 False = (True, ctx2)"
      and new: "addToMkext1 abi env k ctx = ctx2\<lparr>kextIndex := kextIndex ctx2 + 1\<rparr>"
      by (auto split: prod.splits bool.splits)
    have small2: "length (mkext ctx1) + length x < 2 ^ 32"
      using small inv' g1 by (simp add: sizes exec kext_bytes_def grows_def)
    have idx2: "?e2 = file_entry abi (kextIndex ctx1) False" by (simp add: arch1)
    note B = addDataToMkext_adds [OF abi add2 _ small2 idx2 fits(2) len1]
    have g2: "grows ctx1 ctx2 ?e2 (length x)"
      and s2: "stored abi junk base (mkext ctx2) ?e2 x"
      using B g1 by (simp_all add: grows_def)
    have old2: "kext_stored abi junk base arch (mkext ctx2) i (ks ! i)" if "i < ?n" for i
      using grows_step [OF abi g2 old1 [OF that] fits(2)] that by (simp add: e2)
    have s1': "stored abi junk base (mkext ctx2) ?e1 raw"
      using g2 fits len1 by (intro stored_frame [OF abi s1]) (auto simp: grows_def e1 e2)
    have "kext_stored abi junk base arch (mkext ctx2) ?n k"
      using s1' s2 by (simp add: kext_stored_def sizes exec)
    moreover have "mkext ctx2 ! p = 0" if "64 + 32 * ?n \<le> p" "p < base" for p
      using g2 zero1 [of p] len1 that by (simp add: grows_def e2)
    ultimately show ?thesis
      using old2 g1 g2 inv' len1
      by (auto simp: building_def new grows_def exec sizes kext_bytes_def nth_append less_Suc_eq)
  qed
qed

text \<open>All kexts of the archive: a fatal error stops the rest, so a build that ends without one
  had none.\<close>

lemma addToMkext1_fatal: "fatal ctx \<Longrightarrow> fatal (addToMkext1 abi env k ctx)"
  by (simp add: addToMkext1_def)

lemma fold_fatal: "fatal ctx \<Longrightarrow> fatal (fold (\<lambda>(_, k). addToMkext1 abi env k) ps ctx)"
  by (induction ps arbitrary: ctx) (auto simp: addToMkext1_fatal)

lemma fold_builds:
  assumes abi: "abi_ok abi"
  shows "building abi junk base arch ks ctx \<Longrightarrow>
     \<not> fatal (fold (\<lambda>(_, k). addToMkext1 abi env k) ps ctx) \<Longrightarrow>
     32 + 32 * (length ks + length ps) \<le> base \<Longrightarrow>
     base + sum_list (map (kext_bytes arch) (ks @ map snd ps)) < 2 ^ 32 \<Longrightarrow>
     building abi junk base arch (ks @ map snd ps)
       (fold (\<lambda>(_, k). addToMkext1 abi env k) ps ctx)"
proof (induction ps arbitrary: ks ctx)
  case (Cons p ps)
  obtain i k where p: "p = (i, k)" by (cases p)
  let ?ctx = "addToMkext1 abi env k ctx"
  have "\<not> fatal ?ctx" using Cons.prems(2) fold_fatal by (auto simp: p)
  then have "building abi junk base arch (ks @ [k]) ?ctx"
    using Cons.prems by (intro addToMkext1_builds [OF abi]) (simp_all add: p)
  from Cons.IH [OF this] Cons.prems show ?case by (simp add: p add.assoc)
qed simp

lemma fill_header_facts:
  fixes n :: nat and arch :: arch_info and d :: bytes
  assumes abi: "abi_ok abi" and room: "32 \<le> length d" and small: "length d < 2 ^ 32"
  defines "d' \<equiv> fill_header abi arch n d"
  shows "length d' = length d"
    and "get32 (o_numkexts abi) d' = of_nat n"
    and "check_mkext_header abi (Some arch) d' = Inr 0x01008000"
    and "\<And>p. 32 \<le> p \<Longrightarrow> p < length d \<Longrightarrow> d' ! p = d ! p"
proof -
  let ?ps = "[(o_magic abi, MKEXT_MAGIC abi), (o_signature abi, MKEXT_SIGN abi),
     (o_version abi, 0x01008000), (o_numkexts abi, of_nat n), (o_cputype abi, cputype arch),
     (o_cpusubtype abi, cpusubtype arch), (o_length abi, of_nat (length d))]"
  define b where "b = be32_slots.put_all ?ps d"
  define ck where "ck = local_adler32 (drop (o_version abi) b) (of_nat (length b - o_version abi))"
  have fit: "list_all (\<lambda>p. fst p + 4 \<le> length d) ?ps" and ap: "all_apart 4 (map fst ?ps)"
    using abi room by (simp_all add: abi_ok_def apart_def)
  have lenb: "length b = length d" using be32_slots.size_put_all [OF fit] by (simp add: b_def)
  have d': "d' = put32 (o_adler32 abi) ck b"
    using abi room
    by (simp add: d'_def fill_header_def b_def ck_def be32_slots.put_all_def Let_def abi_ok_def)
  show len: "length d' = length d" using abi room by (simp add: d' lenb abi_ok_def)
  have slot: "get32 off d' = v" if "(off, v) \<in> set ?ps" for off v
  proof -
    have "get32 off b = v" unfolding b_def by (rule be32_slots.get_put_all [OF ap fit that])
    moreover have "get32 off d' = get32 off b"
      unfolding d' using that abi room
      by (intro be32_slots.get_put_apart) (auto simp: lenb abi_ok_def apart_def)
    ultimately show ?thesis by simp
  qed
  have fields: "get32 (o_magic abi) d' = MKEXT_MAGIC abi" "get32 (o_signature abi) d' = MKEXT_SIGN abi"
    "get32 (o_version abi) d' = 0x01008000" "get32 (o_cputype abi) d' = cputype arch"
    "get32 (o_length abi) d' = of_nat (length d)"
    by (rule slot; simp)+
  show "get32 (o_numkexts abi) d' = of_nat n" by (rule slot) simp
  have "drop (o_version abi) d' = drop (o_version abi) b"
    using abi room lenb
    by (intro nth_equalityI) (auto simp: d' abi_ok_def nth_put32_apart)
  moreover have "get32 (o_adler32 abi) d' = ck"
    unfolding d' using abi room by (intro be32_slots.get_put_slot) (simp add: lenb abi_ok_def)
  moreover have "unat (get32 (o_length abi) d') = length d'"
    unfolding fields len using small by (intro unat_of_nat_small) simp
  moreover have "\<not> length d' < o_kext abi" using abi room len by (simp add: abi_ok_def)
  ultimately show "check_mkext_header abi (Some arch) d' = Inr 0x01008000"
    using lenb len by (simp add: check_mkext_header_def fields ck_def)
  show "d' ! p = d ! p" if "32 \<le> p" "p < length d" for p
  proof -
    have "d' ! p = b ! p" using that abi room lenb by (simp add: d' abi_ok_def nth_put32_apart)
    also have "\<dots> = d ! p"
      unfolding b_def using that abi by (intro nth_put_all_apart [OF fit]) (auto simp: abi_ok_def)
    finally show ?thesis .
  qed
qed

text \<open>The initial context satisfies the invariant.\<close>

lemma building_start:
  "unat (of_nat base :: u32) = base \<Longrightarrow>
   building abi junk base arch []
     \<lparr>mkext = set_data_length base [], kextIndex = 0, compressOffset = of_nat base,
      c_arch = arch, fatal = False, compress = compr\<rparr>"
  by (simp add: building_def set_data_length_def)

text \<open>The size that the archive has at most.\<close>

definition archive_bound :: "mkext_abi \<Rightarrow> arch_info \<Rightarrow> oskext list \<Rightarrow> nat" where
  "archive_bound abi arch archiveKexts =
     (let sel = select_kexts arch archiveKexts [] in
      sizeof_header abi + length sel * sizeof_kext abi +
      sum_list (map (\<lambda>p. kext_bytes arch (snd p)) sel))"

lemma createMkext1_kexts_stored:
  assumes abi: "abi_ok abi"
    and order: "mset (order (select_kexts arch archiveKexts [])) = mset (select_kexts arch archiveKexts [])"
    and made: "createMkext1ForArch abi env order arch archiveKexts compr = Some d"
    and small: "archive_bound abi arch archiveKexts < 2 ^ 32"
  defines "ps \<equiv> order (select_kexts arch archiveKexts [])"
  shows "check_mkext_header abi (Some arch) d = Inr 0x01008000"
    and "get32 (o_numkexts abi) d = of_nat (length ps)"
    and "\<And>i. i < length ps \<Longrightarrow>
      kext_stored abi junk (64 + 32 * length ps) arch d i (snd (ps ! i))"
proof -
  let ?sel = "select_kexts arch archiveKexts []"
  let ?n = "length ?sel"
  let ?base = "64 + 32 * ?n"
  have mset: "mset ps = mset ?sel" using order by (simp add: ps_def)
  have len: "length ps = ?n" using mset_eq_length [OF mset] .
  have sum: "sum_list (map (\<lambda>p. kext_bytes arch (snd p)) ps) =
      sum_list (map (\<lambda>p. kext_bytes arch (snd p)) ?sel)"
    by (simp add: mset flip: sum_mset_sum_list)
  have base: "sizeof_header abi + ?n * sizeof_kext abi = ?base"
    using abi by (simp add: abi_ok_def)
  have small': "?base + sum_list (map (kext_bytes arch) (map snd ps)) < 2 ^ 32"
    using small unfolding archive_bound_def Let_def base sum [symmetric] map_map comp_def .
  define ctx where "ctx = fold (\<lambda>(_, k). addToMkext1 abi env k) ps
     \<lparr>mkext = set_data_length ?base [], kextIndex = 0, compressOffset = of_nat ?base,
      c_arch = arch, fatal = False, compress = compr\<rparr>"
  from made have live: "\<not> fatal ctx" and d: "d = fill_header abi arch ?n (mkext ctx)"
    unfolding createMkext1ForArch_def Let_def base length_set_data_length ps_def [symmetric]
      ctx_def [symmetric]
    by (auto split: if_splits)
  have "building abi junk ?base arch ([] @ map snd ps) ctx"
    unfolding ctx_def
  proof (rule fold_builds [OF abi])
    show "building abi junk ?base arch [] \<lparr>mkext = set_data_length ?base [],
        kextIndex = 0, compressOffset = of_nat ?base, c_arch = arch, fatal = False,
        compress = compr\<rparr>"
      using small' by (intro building_start unat_of_nat_small) simp
  qed (use live small' len in \<open>simp_all add: ctx_def\<close>)
  note B = this [unfolded building_def, simplified]
  have fits: "32 \<le> length (mkext ctx)" "length (mkext ctx) < 2 ^ 32"
    using B small' by simp_all
  note H = fill_header_facts [OF abi fits, where arch = arch and n = ?n, folded d]
  show "check_mkext_header abi (Some arch) d = Inr 0x01008000" by (rule H(3))
  show "get32 (o_numkexts abi) d = of_nat (length ps)" using H(2) by (simp add: len)
  show "kext_stored abi junk (64 + 32 * length ps) arch d i (snd (ps ! i))"
    if "i < length ps" for i
  proof (rule kext_stored_frame [OF abi])
    show "kext_stored abi junk (64 + 32 * length ps) arch (mkext ctx) i (snd (ps ! i))"
      using B that len by simp
    show "d ! p = mkext ctx ! p"
      if "p < length (mkext ctx)"
        "32 + 32 * i \<le> p \<and> p < 64 + 32 * i \<or> 64 + 32 * length ps \<le> p" for p
      using H(4) that by auto
  qed (simp add: H(1))
qed

section \<open>Unpacking what was packed\<close>

text \<open>The name that the unpacker gives a kext whose info dictionary names its executable, and
  the entry it makes.\<close>

definition unpacked_plist :: "unpack_env \<Rightarrow> oskext \<Rightarrow> plist" where
  "unpacked_plist ue k =
     (case parse_plist ue (info_bytes k) of Some (Some pl) \<Rightarrow> pl | _ \<Rightarrow> [])"

definition unpacked_name :: "unpack_env \<Rightarrow> oskext \<Rightarrow> string" where
  "unpacked_name ue k =
     (case dict_get (=) (unpacked_plist ue k) ''CFBundleExecutable'' of
        Some (CFString s) \<Rightarrow> s | _ \<Rightarrow> [])"

definition unpacked_entry :: "unpack_env \<Rightarrow> arch_info \<Rightarrow> oskext \<Rightarrow> string \<times> kext_entry" where
  "unpacked_entry ue arch k =
     (unpacked_name ue k,
      \<lparr>plistData = Some (info_bytes k), e_plist = unpacked_plist ue k,
       executable = entry_content (exec_bytes arch k)\<rparr>)"

definition well_named :: "unpack_env \<Rightarrow> oskext \<Rightarrow> bool" where
  "well_named ue k \<longleftrightarrow>
     info_bytes k \<noteq> [] \<and> parse_plist ue (info_bytes k) = Some (Some (unpacked_plist ue k)) \<and>
     dict_get (=) (unpacked_plist ue k) ''CFBundleExecutable'' = Some (CFString (unpacked_name ue k))"

lemma get_executable_stored:
  assumes abi: "abi_ok abi" and st: "stored abi (u_junk ue) base d e data" and m: "malloc_ok ue"
  shows "get_executable abi ue d e = Inr (entry_content data)"
proof (cases "get32 (e + f_realsize abi) d = 0")
  case True
  with st have "entry_content data = None"
    by (auto simp: stored_def uncompressMkext1Entry_def)
  with st m show ?thesis by (simp add: get_executable_def stored_def)
next
  case False
  with st m show ?thesis by (simp add: get_executable_def stored_def)
qed

lemma extract_turn_stored:
  assumes abi: "abi_ok abi" and st: "kext_stored abi (u_junk ue) base arch d i k"
    and ue: "malloc_ok ue" "dict_ok ue" "\<not> gVerbose ue"
    and named: "well_named ue k"
    and fresh: "dict_get (fold_eq cf) (u_entries u) (unpacked_name ue k) = None"
  shows "extract_turn cf abi ue d i u =
    Next (u\<lparr>u_entries := u_entries u @ [unpacked_entry ue arch k]\<rparr>)"
proof -
  have room: "\<not> length d < o_kext abi + (i + 1) * sizeof_kext abi"
    using st abi by (auto simp: kext_stored_def stored_def file_entry_simps abi_ok_def)
  have plist: "uncompressMkext1Entry abi True (u_junk ue) d (file_entry abi i True) =
      Inr (Some (info_bytes k))"
    using st named by (simp add: kext_stored_def stored_def entry_content_def well_named_def)
  have exec: "get_executable abi ue d (file_entry abi i False) = Inr (entry_content (exec_bytes arch k))"
    using st by (intro get_executable_stored [OF abi _ ue(1), where base = base]) (simp add: kext_stored_def)
  have name: "createKextNameFromPlist cf (u_entries u) (unpacked_plist ue k) (nameUnknown u) =
      Inr (Some (unpacked_name ue k), nameUnknown u)"
    using named fresh by (simp add: createKextNameFromPlist_def plist_name_def well_named_def)
  from named have parse: "parse_plist ue (info_bytes k) = Some (Some (unpacked_plist ue k))"
    by (simp add: well_named_def)
  show ?thesis
    using room ue
    by (simp add: extract_turn_def plist parse name report_entry_def add_entry_def exec
        dict_set_fresh [OF fresh] unpacked_entry_def Let_def)
qed

lemma extract_loop_stored:
  assumes abi: "abi_ok abi" and ue: "malloc_ok ue" "dict_ok ue" "\<not> gVerbose ue"
  shows "\<forall>j < length ks. kext_stored abi (u_junk ue) base arch d (i + j) (ks ! j) \<Longrightarrow>
    list_all (well_named ue) ks \<Longrightarrow>
    distinct (map (cf \<circ> fst) (u_entries u) @ map (cf \<circ> unpacked_name ue) ks) \<Longrightarrow>
    extract_loop cf abi ue d i (length ks) u =
      Stop (u\<lparr>u_entries := u_entries u @ map (unpacked_entry ue arch) ks\<rparr>)"
proof (induction ks arbitrary: i u)
  case (Cons k ks)
  have st: "kext_stored abi (u_junk ue) base arch d i k" using Cons.prems(1) by force
  have "dict_get (fold_eq cf) (u_entries u) (unpacked_name ue k) = None"
    using Cons.prems(3) folded.get_keys [of cf "u_entries u" "unpacked_name ue k"]
    by (auto simp: fold_eq_def image_iff)
  then have turn: "extract_turn cf abi ue d i u =
      Next (u\<lparr>u_entries := u_entries u @ [unpacked_entry ue arch k]\<rparr>)"
    using Cons.prems(2) by (intro extract_turn_stored [OF abi st ue]) simp
  have "\<forall>j < length ks. kext_stored abi (u_junk ue) base arch d (i + 1 + j) (ks ! j)"
    using Cons.prems(1) by force
  from Cons.IH [OF this, of "u\<lparr>u_entries := u_entries u @ [unpacked_entry ue arch k]\<rparr>"] Cons.prems
  show ?case by (simp add: turn unpacked_entry_def)
qed simp

lemma selected_count_small:
  assumes "abi_ok abi" "archive_bound abi arch archiveKexts < 2 ^ 32"
  shows "length (select_kexts arch archiveKexts []) < 2 ^ 32"
  using assms unfolding archive_bound_def Let_def abi_ok_def by simp

lemma extract_created:
  assumes abi: "abi_ok abi"
    and order: "mset (order (select_kexts arch archiveKexts [])) = mset (select_kexts arch archiveKexts [])"
    and made: "createMkext1ForArch abi env order arch archiveKexts compr = Some d"
    and small: "archive_bound abi arch archiveKexts < 2 ^ 32"
    and ue: "malloc_ok ue" "dict_ok ue" "\<not> gVerbose ue"
  defines "ks \<equiv> map snd (order (select_kexts arch archiveKexts []))"
  assumes named: "list_all (well_named ue) ks" and names: "distinct (map (cf \<circ> unpacked_name ue) ks)"
  shows "extractEntriesFromMkext1 cf abi ue d = Inr (Some (map (unpacked_entry ue arch) ks))"
proof -
  note C = createMkext1_kexts_stored [OF abi order made small]
  have len: "length ks = length (select_kexts arch archiveKexts [])"
    using mset_eq_length [OF order] by (simp add: ks_def)
  have count: "unat (get32 (o_numkexts abi) d) = length ks"
    unfolding C(2) using selected_count_small [OF abi small] len
    by (simp add: ks_def unat_of_nat_small)
  have "extract_loop cf abi ue d 0 (length ks) \<lparr>u_entries = [], nameUnknown = 1\<rparr> =
      Stop (\<lparr>u_entries = [], nameUnknown = 1\<rparr>\<lparr>u_entries :=
        u_entries \<lparr>u_entries = [], nameUnknown = 1\<rparr> @ map (unpacked_entry ue arch) ks\<rparr>)"
    using C(3) named names
    by (intro extract_loop_stored [OF abi ue, where base = "64 + 32 * length ks"])
      (simp_all add: ks_def)
  then show ?thesis by (simp add: extractEntriesFromMkext1_def count)
qed

section \<open>Creation succeeds\<close>

text \<open>A kext that has all that an archive needs, and an environment without failures.\<close>

definition packable :: "arch_info \<Rightarrow> oskext \<Rightarrow> bool" where
  "packable arch k \<longleftrightarrow> k_bundle k \<and> k_info_url k \<and> k_info_path k \<and> k_info_data k \<noteq> None \<and>
     (k_executable k arch = None \<longrightarrow> \<not> k_declares_exec k)"

definition resources :: "mkext_env \<Rightarrow> bool" where
  "resources env \<longleftrightarrow> can_create env \<and> can_resize env \<and> can_check env"

lemma addDataToMkext_succeeds:
  assumes "resources env"
  shows "\<exists>ctx'. addDataToMkext abi env data ctx isInfoDict = (True, ctx') \<and> fatal ctx' = fatal ctx \<and>
    c_arch ctx' = c_arch ctx"
proof -
  define full where "full = unat (of_nat (length data) :: u32)"
  have "full \<le> length data" by (simp add: full_def unat_of_nat)
  then have "length (take full data) = full" by simp
  then have check: "decompress_lzss (stack_junk env) full out = take full data \<and> length (take full data) = full"
    if "(if compress ctx then compress_lzss (can_compress env) full (take full data) else None) = Some out" for out
    using that lzss_decodes [of "can_compress env" full "take full data" out full] by (auto split: if_splits)
  show ?thesis
  proof (cases "if compress ctx then compress_lzss (can_compress env) full (take full data) else None")
    case None
    with assms show ?thesis
      by (simp add: addDataToMkext_def Let_def full_def [symmetric] resources_def split: if_splits)
  next
    case (Some out)
    from check [OF Some] Some assms show ?thesis
      by (simp add: addDataToMkext_def Let_def full_def [symmetric] resources_def split: if_splits)
  qed
qed

lemma addToMkext1_succeeds:
  assumes env: "resources env" and k: "packable (c_arch ctx) k" and ok: "\<not> fatal ctx"
  shows "\<not> fatal (addToMkext1 abi env k ctx) \<and> c_arch (addToMkext1 abi env k ctx) = c_arch ctx"
proof -
  obtain raw where raw: "k_info_data k = Some raw" using k by (auto simp: packable_def)
  obtain ctx1 where 1: "addDataToMkext abi env raw ctx True = (True, ctx1)" "fatal ctx1 = fatal ctx"
    "c_arch ctx1 = c_arch ctx" using addDataToMkext_succeeds [OF env] by blast
  show ?thesis
  proof (cases "k_executable k (c_arch ctx)")
    case None
    then show ?thesis using k ok raw 1 by (simp add: addToMkext1_def packable_def)
  next
    case (Some x)
    obtain ctx2 where 2: "addDataToMkext abi env x ctx1 False = (True, ctx2)" "fatal ctx2 = fatal ctx1"
      "c_arch ctx2 = c_arch ctx1" using addDataToMkext_succeeds [OF env] by blast
    show ?thesis using k ok raw 1 2 Some by (simp add: addToMkext1_def packable_def)
  qed
qed

lemma fold_succeeds:
  "resources env \<Longrightarrow> \<forall>p \<in> set ps. packable (c_arch ctx) (snd p) \<Longrightarrow> \<not> fatal ctx \<Longrightarrow>
   \<not> fatal (fold (\<lambda>(_, k). addToMkext1 abi env k) ps ctx)"
proof (induction ps arbitrary: ctx)
  case (Cons p ps)
  obtain i k where p: "p = (i, k)" by (cases p)
  have "packable (c_arch ctx) k" using Cons.prems(2) p by simp
  from addToMkext1_succeeds [OF Cons.prems(1) this Cons.prems(3), of abi] Cons show ?case
    by (simp add: p)
qed simp

lemma created:
  assumes "resources env" and "mset (order (select_kexts arch ks [])) = mset (select_kexts arch ks [])"
    and "\<forall>k \<in> set ks. k_supports k arch \<longrightarrow> packable arch k"
  shows "\<exists>d. createMkext1ForArch abi env order arch ks compr = Some d"
proof -
  let ?sel = "select_kexts arch ks []"
  have "packable arch k" if "(i, k) \<in> set ?sel" for i k
    using assms(3) that selected_source [of i k arch ks] by blast
  moreover have "set (order ?sel) = set ?sel" using assms(2) by (rule mset_eq_setD)
  ultimately have "\<forall>p \<in> set (order ?sel). packable arch (snd p)" by auto
  from fold_succeeds [OF assms(1), of "order ?sel"] this assms(1)
  show ?thesis by (simp add: createMkext1ForArch_def Let_def resources_def)
qed

section \<open>Properties\<close>

text \<open>Every archive that \<open>createMkext1ForArch\<close> delivers passes the checks of
  \<open>getMkextDataForArch\<close> for its architecture (magic, signature, length, processor, checksum),
  announces as many kexts as were selected, and each of them, in the order of the archive, is
  read back by \<open>uncompressMkext1Entry\<close>: the info dictionary from its first entry and the
  executable from its second (nothing, where there is none), compressed or not.\<close>

theorem created_archive_readable:
  assumes "abi_ok abi"
    and "mset (order (select_kexts arch archiveKexts [])) = mset (select_kexts arch archiveKexts [])"
    and "createMkext1ForArch abi env order arch archiveKexts compr = Some d"
    and "archive_bound abi arch archiveKexts < 2 ^ 32"
  defines "ps \<equiv> order (select_kexts arch archiveKexts [])"
  shows "check_mkext_header abi (Some arch) d = Inr 0x01008000 \<and>
    get32 (o_numkexts abi) d = of_nat (length ps) \<and>
    (\<forall>i < length ps.
       uncompressMkext1Entry abi True junk d (file_entry abi i True) =
         Inr (entry_content (info_bytes (snd (ps ! i)))) \<and>
       uncompressMkext1Entry abi True junk d (file_entry abi i False) =
         Inr (entry_content (exec_bytes arch (snd (ps ! i)))))"
proof -
  note C = createMkext1_kexts_stored [OF assms(1-4), folded ps_def]
  show ?thesis
    using C(1,2) C(3) [where junk = junk] by (simp add: kext_stored_def stored_def)
qed

text \<open>C2. Archiving and extracting: with memory available, an archive of packable kexts is
  always created (the check by decompression inside \<open>addDataToMkext\<close> never fails), its header
  is accepted, and extracting it yields exactly the selected kexts, each under the name of its
  executable with its info dictionary and its executable, provided that those names differ and
  that the property list parser reads the info dictionaries.\<close>

theorem mkext1_round_trip:
  assumes "abi_ok abi" "resources env"
    and "mset (order (select_kexts arch archiveKexts [])) = mset (select_kexts arch archiveKexts [])"
    and "\<forall>k \<in> set archiveKexts. k_supports k arch \<longrightarrow> packable arch k"
    and "archive_bound abi arch archiveKexts < 2 ^ 32"
    and "malloc_ok ue" "dict_ok ue" "\<not> gVerbose ue"
  defines "ks \<equiv> map snd (order (select_kexts arch archiveKexts []))"
  assumes "list_all (well_named ue) ks" and "distinct (map (cf \<circ> unpacked_name ue) ks)"
  shows "\<exists>d. createMkext1ForArch abi env order arch archiveKexts compr = Some d \<and>
    check_mkext_header abi (Some arch) d = Inr 0x01008000 \<and>
    extractEntriesFromMkext1 cf abi ue d = Inr (Some (map (unpacked_entry ue arch) ks))"
proof -
  obtain d where d: "createMkext1ForArch abi env order arch archiveKexts compr = Some d"
    using created [where order = order and arch = arch and ks = archiveKexts, OF assms(2-4)] by blast
  show ?thesis
    using d createMkext1_kexts_stored(1) [OF assms(1,3) d assms(5)]
      extract_created [OF assms(1,3) d assms(5,6,7,8)] assms(9-11) by blast
qed

text \<open>One kext whose info dictionary names its executable, and that has one.\<close>

definition packed_kext :: oskext where
  "packed_kext = \<lparr>k_identifier = ''a'', k_version = 1, k_supports = (\<lambda>_. True), k_bundle = True,
     k_info_url = True, k_info_path = True, k_info_data = Some [60],
     k_executable = (\<lambda>_. Some (replicate 40 7)), k_declares_exec = True\<rparr>"

lemma packed_kext_select: "select_kexts demo_arch [packed_kext] [] = [(''a'', packed_kext)]"
  by (simp add: packed_kext_def)

lemma demo_env_facts:
  "resources demo_mkext_env" "malloc_ok demo_unpack_env" "dict_ok demo_unpack_env" "\<not> gVerbose demo_unpack_env"
  by (simp_all add: resources_def demo_mkext_env_def demo_unpack_env_def)

lemma packed_kext_bound: "archive_bound demo_abi demo_arch [packed_kext] < 2 ^ 32"
  by (simp add: archive_bound_def packed_kext_select del: select_kexts.simps)
    (simp add: packed_kext_def kext_bytes_def info_bytes_def exec_bytes_def demo_abi_def)

lemma mkext1_round_trip_witness:
  "\<exists>d. createMkext1ForArch demo_abi demo_mkext_env id demo_arch [packed_kext] True = Some d \<and>
    extractEntriesFromMkext1 id demo_abi demo_unpack_env d =
      Inr (Some [(''Foo'', \<lparr>plistData = Some [60], e_plist = [(''CFBundleExecutable'', CFString ''Foo'')],
        executable = Some (replicate 40 7)\<rparr>)])"
proof -
  have plist: "unpacked_plist demo_unpack_env packed_kext = [(''CFBundleExecutable'', CFString ''Foo'')]"
    by (simp add: unpacked_plist_def info_bytes_def packed_kext_def demo_unpack_env_def)
  have name: "unpacked_name demo_unpack_env packed_kext = ''Foo''"
    by (simp add: unpacked_name_def plist)
  have "well_named demo_unpack_env packed_kext"
    by (simp add: well_named_def plist name)
      (simp add: info_bytes_def packed_kext_def demo_unpack_env_def)
  moreover have "packable demo_arch packed_kext" by (simp add: packable_def packed_kext_def)
  ultimately have "\<exists>d. createMkext1ForArch demo_abi demo_mkext_env id demo_arch [packed_kext] True = Some d \<and>
    check_mkext_header demo_abi (Some demo_arch) d = Inr 0x01008000 \<and>
    extractEntriesFromMkext1 id demo_abi demo_unpack_env d =
      Inr (Some (map (unpacked_entry demo_unpack_env demo_arch) (map snd (id (select_kexts demo_arch [packed_kext] [])))))"
    by (intro mkext1_round_trip demo_abi_ok demo_env_facts packed_kext_bound)
      (simp_all add: packed_kext_select del: select_kexts.simps)
  then show ?thesis
    by (simp add: packed_kext_select unpacked_entry_def name plist del: select_kexts.simps)
      (auto simp: info_bytes_def exec_bytes_def packed_kext_def entry_content_def)
qed

lemma created_archive_readable_witness:
  "\<exists>d. createMkext1ForArch demo_abi demo_mkext_env id demo_arch [packed_kext] True = Some d \<and>
    uncompressMkext1Entry demo_abi True (\<lambda>_. 9) d (file_entry demo_abi 0 False) = Inr (Some (replicate 40 7))"
proof -
  have "packable demo_arch packed_kext" by (simp add: packable_def packed_kext_def)
  then obtain d where d: "createMkext1ForArch demo_abi demo_mkext_env id demo_arch [packed_kext] True = Some d"
    using created [of demo_mkext_env id demo_arch "[packed_kext]" demo_abi True] demo_env_facts(1) by auto
  have "mset (id (select_kexts demo_arch [packed_kext] [])) = mset (select_kexts demo_arch [packed_kext] [])"
    by simp
  from created_archive_readable [OF demo_abi_ok this d packed_kext_bound, of "\<lambda>_. 9"] d show ?thesis
    by (auto simp: packed_kext_select simp del: select_kexts.simps)
      (simp add: exec_bytes_def packed_kext_def entry_content_def)
qed

end
