(* ===== verification/HexBytes.thy ===== *)
theory HexBytes
  imports Prelude
begin

text \<open>
  src/kext_tools_util.c: byte strings to hexadecimal text and back
  (\<open>createHexStringFromRawBytes\<close>, \<open>createRawBytesFromHexString\<close>). Both write into a buffer of
  the caller, whose contents after the call are part of the result; \<open>None\<close> stands for a null
  pointer.
\<close>

section \<open>From text to bytes\<close>

definition hex_nibble :: "char \<Rightarrow> byte option" where
  "hex_nibble hex =
     (let c = (of_char hex :: nat) in
      if 48 \<le> c \<and> c \<le> 57 then Some (of_nat (c - 48))
      else if 65 \<le> c \<and> c \<le> 70 then Some (10 + of_nat (c - 65))
      else if 97 \<le> c \<and> c \<le> 102 then Some (10 + of_nat (c - 97))
      else None)"

fun hex_loop :: "bytes \<Rightarrow> nat \<Rightarrow> string \<Rightarrow> bool \<times> bytes" where
  "hex_loop buf index [] = (True, buf)"
| "hex_loop buf index (hex # rest) =
     (let shift = (if (index + 1) mod 2 \<noteq> 0 then 4 else 0) in
      case hex_nibble hex of
        None \<Rightarrow> (False, buf)
      | Some nibble \<Rightarrow>
          hex_loop (buf[index div 2 := buf ! (index div 2) + push_bit shift nibble]) (index + 1) rest)"

definition createRawBytesFromHexString :: "bytes option \<Rightarrow> string option \<Rightarrow> bool \<times> bytes option" where
  "createRawBytesFromHexString bytePtr hexPtr =
     (case (bytePtr, hexPtr) of
        (Some buf, Some hex) \<Rightarrow>
          (let minByteLen = (length hex + 1) div 2 in
           if length hex mod 2 \<noteq> 0 then (False, Some buf)
           else if minByteLen > length buf then (False, Some buf)
           else map_prod id Some (hex_loop (replicate minByteLen 0 @ drop minByteLen buf) 0 hex))
      | _ \<Rightarrow> (False, bytePtr))"

section \<open>From bytes to text\<close>

definition hexes :: string where
  "hexes = ''0123456789abcdef''"

fun dump_loop :: "string \<Rightarrow> nat \<Rightarrow> bytes \<Rightarrow> string" where
  "dump_loop buf hidx [] = buf"
| "dump_loop buf hidx (byte # rest) =
     (let buf = buf[hidx := hexes ! unat (drop_bit 4 byte)];
          buf = buf[hidx + 1 := hexes ! unat (byte AND 0x0f)]
      in dump_loop buf (hidx + 2) rest)"

definition createHexStringFromRawBytes :: "string option \<Rightarrow> bytes option \<Rightarrow> bool \<times> string option" where
  "createHexStringFromRawBytes hexPtr bytePtr =
     (case (hexPtr, bytePtr) of
        (Some buf, Some data) \<Rightarrow>
          (let minHexLen = length data * 2 + 1 in
           if minHexLen > length buf then (False, Some buf)
           else (True, Some ((dump_loop buf 0 data)[minHexLen - 1 := CHR 0x00])))
      | _ \<Rightarrow> (False, hexPtr))"

section \<open>Reference functions\<close>

text \<open>The two digits of a byte, and the bytes of a text, without buffers.\<close>

definition hex_digits :: "byte \<Rightarrow> string" where
  "hex_digits b = [hexes ! unat (drop_bit 4 b), hexes ! unat (b AND 0x0f)]"

fun hex_decode :: "string \<Rightarrow> bytes option" where
  "hex_decode [] = Some []"
| "hex_decode (a # b # rest) =
     (case (hex_nibble a, hex_nibble b, hex_decode rest) of
        (Some x, Some y, Some bs) \<Rightarrow> Some ((push_bit 4 x + y) # bs)
      | _ \<Rightarrow> None)"
| "hex_decode [_] = None"

lemma unat_hi_nibble: "unat (drop_bit 4 (b :: byte)) = unat b div 16"
  by (simp add: drop_bit_eq_div unat_div)

lemma unat_lo_nibble: "unat ((b :: byte) AND 0x0f) = unat b mod 16"
proof -
  have "b AND 0x0f = take_bit 4 b" by (simp add: take_bit_eq_mask mask_eq_exp_minus_1)
  then show ?thesis by (simp add: unsigned_take_bit_eq take_bit_nat_def)
qed

lemma hex_nibble_hexes: "n < 16 \<Longrightarrow> hex_nibble (hexes ! n) = Some (of_nat n)"
proof -
  have "list_all (\<lambda>n. hex_nibble (hexes ! n) = Some (of_nat n)) [0..<16]" by code_simp
  then show "n < 16 \<Longrightarrow> hex_nibble (hexes ! n) = Some (of_nat n)" by (simp add: list_all_iff)
qed

lemma nibbles_join: "push_bit 4 (of_nat (unat b div 16)) + of_nat (unat b mod 16) = (b :: byte)"
proof -
  have "push_bit 4 (of_nat (unat b div 16)) + of_nat (unat b mod 16) =
      (of_nat (unat b div 16 * 16 + unat b mod 16) :: byte)"
    unfolding push_bit_eq_mult of_nat_add of_nat_mult by simp
  also have "\<dots> = b" by (simp only: div_mult_mod_eq) (metis of_nat_unat ucast_id)
  finally show ?thesis .
qed

lemma hex_decode_digits: "hex_decode (hex_digits b @ s) = map_option ((#) b) (hex_decode s)"
proof -
  have "hex_nibble (hexes ! (unat b div 16)) = Some (of_nat (unat b div 16))"
    "hex_nibble (hexes ! (unat b mod 16)) = Some (of_nat (unat b mod 16))"
    using unat_byte_less [of b] by (intro hex_nibble_hexes; simp)+
  then show ?thesis
    by (simp add: hex_digits_def unat_hi_nibble unat_lo_nibble nibbles_join split: option.splits)
qed

lemma hex_decode_dump: "hex_decode (concat (map hex_digits bs)) = Some bs"
  by (induction bs) (simp_all add: hex_decode_digits)

section \<open>The loops against the reference functions\<close>

lemma hex_decode_length: "hex_decode hex = Some bs \<Longrightarrow> length hex = 2 * length bs"
  by (induction hex arbitrary: bs rule: hex_decode.induct) (auto split: option.splits)

lemma hex_decode_odd: "odd (length hex) \<Longrightarrow> hex_decode hex = None"
  using hex_decode_length [of hex] by (cases "hex_decode hex") auto

lemma hex_loop_pair:
  assumes "k < length buf" "buf ! k = 0"
  shows "hex_loop buf (2 * k) (a # b # rest) =
    (case hex_nibble a of None \<Rightarrow> (False, buf)
     | Some x \<Rightarrow> (case hex_nibble b of None \<Rightarrow> (False, buf[k := push_bit 4 x])
       | Some y \<Rightarrow> hex_loop (buf[k := push_bit 4 x + y]) (2 * (k + 1)) rest))"
  using assms by (simp add: Let_def split: option.splits)

lemma hex_loop_decode:
  "even (length hex) \<Longrightarrow> k + length hex div 2 \<le> length buf \<Longrightarrow>
   \<forall>j. k \<le> j \<and> j < k + length hex div 2 \<longrightarrow> buf ! j = 0 \<Longrightarrow>
   (case hex_decode hex of
      None \<Rightarrow> \<not> fst (hex_loop buf (2 * k) hex)
    | Some bs \<Rightarrow> hex_loop buf (2 * k) hex = (True, take k buf @ bs @ drop (k + length bs) buf))"
proof (induction hex arbitrary: k buf rule: hex_decode.induct)
  case (2 a b rest)
  have k: "k < length buf" "buf ! k = 0" using "2.prems" by auto
  have IH: "case hex_decode rest of
      None \<Rightarrow> \<not> fst (hex_loop (buf[k := v]) (2 * (k + 1)) rest)
    | Some bs \<Rightarrow> hex_loop (buf[k := v]) (2 * (k + 1)) rest =
        (True, take (k + 1) (buf[k := v]) @ bs @ drop (k + 1 + length bs) (buf[k := v]))" for v
    by (rule "2.IH") (use "2.prems" in auto)
  have upd: "take (k + 1) (buf[k := v]) = take k buf @ [v]" for v
    using k(1) by (simp add: take_Suc_conv_app_nth)
  show ?case
  proof (cases "hex_nibble a = None \<or> hex_nibble b = None")
    case True
    then show ?thesis
      unfolding hex_loop_pair [OF k] by (auto split: option.splits)
  next
    case False
    then obtain x y where xy: "hex_nibble a = Some x" "hex_nibble b = Some y" by auto
    have loop: "hex_loop buf (2 * k) (a # b # rest) =
        hex_loop (buf[k := push_bit 4 x + y]) (2 * (k + 1)) rest"
      unfolding hex_loop_pair [OF k] by (simp add: xy)
    show ?thesis
    proof (cases "hex_decode rest")
      case None
      with IH [of "push_bit 4 x + y"] show ?thesis unfolding loop by (simp add: xy)
    next
      case (Some bs)
      with IH [of "push_bit 4 x + y"] show ?thesis
        unfolding loop upd by (simp add: xy)
    qed
  qed
qed simp_all

lemma dump_loop_concat:
  "h + 2 * length bs \<le> length buf \<Longrightarrow>
     dump_loop buf h bs = take h buf @ concat (map hex_digits bs) @ drop (h + 2 * length bs) buf"
proof (induction bs arbitrary: h buf)
  case (Cons b bs)
  let ?buf = "(buf[h := hexes ! unat (drop_bit 4 b)])[h + 1 := hexes ! unat (b AND 0x0f)]"
  have "take (h + 2) ?buf = take h buf @ hex_digits b"
    using Cons.prems by (simp add: hex_digits_def take_Suc_conv_app_nth numeral_2_eq_2)
  moreover have "drop (h + 2 + 2 * length bs) ?buf = drop (h + 2 + 2 * length bs) buf" by simp
  ultimately show ?case
    using Cons.IH [of "h + 2" ?buf] Cons.prems by (simp add: Let_def)
qed simp

lemma length_hex_digits [simp]: "length (concat (map hex_digits bs)) = 2 * length bs"
  by (induction bs) (simp_all add: hex_digits_def)

section \<open>Properties\<close>

text \<open>\<open>createRawBytesFromHexString\<close> accepts exactly the texts of an even number of
  hexadecimal digits that fit the buffer, and then it has put their value at the start of the
  buffer and left the rest of it alone.\<close>

theorem createRawBytesFromHexString_spec:
  "createRawBytesFromHexString (Some buf) (Some hex) = (True, Some buf') \<longleftrightarrow>
     (\<exists>bs. hex_decode hex = Some bs \<and> length bs \<le> length buf \<and> buf' = bs @ drop (length bs) buf)"
proof (cases "even (length hex) \<and> length hex div 2 \<le> length buf")
  case True
  let ?n = "length hex div 2"
  have fit: "(length hex + 1) div 2 = ?n" using True by presburger
  have call: "createRawBytesFromHexString (Some buf) (Some hex) =
      map_prod id Some (hex_loop (replicate ?n 0 @ drop ?n buf) 0 hex)"
    using True by (simp add: createRawBytesFromHexString_def Let_def fit even_iff_mod_2_eq_zero)
  have loop: "case hex_decode hex of
      None \<Rightarrow> \<not> fst (hex_loop (replicate ?n 0 @ drop ?n buf) (2 * 0) hex)
    | Some bs \<Rightarrow> hex_loop (replicate ?n 0 @ drop ?n buf) (2 * 0) hex =
        (True, take 0 (replicate ?n 0 @ drop ?n buf) @ bs @
           drop (0 + length bs) (replicate ?n 0 @ drop ?n buf))"
    using True by (intro hex_loop_decode) auto
  show ?thesis
  proof (cases "hex_decode hex")
    case None
    with loop show ?thesis
      by (cases "hex_loop (replicate ?n 0 @ drop ?n buf) 0 hex") (simp add: call)
  next
    case (Some bs)
    with hex_decode_length [OF Some] loop True show ?thesis by (auto simp: call)
  qed
next
  case False
  then have "(length hex + 1) div 2 > length buf \<or> length hex mod 2 \<noteq> 0" by presburger
  then have "createRawBytesFromHexString (Some buf) (Some hex) = (False, Some buf)"
    by (auto simp: createRawBytesFromHexString_def Let_def)
  moreover have "\<not> (\<exists>bs. hex_decode hex = Some bs \<and> length bs \<le> length buf)"
    using hex_decode_length [of hex] False by auto
  ultimately show ?thesis by auto
qed

text \<open>C35. Dumping bytes and reading the text back gives the bytes, for every byte string and
  whatever the two buffers held; the dump is terminated, and its text has two characters a
  byte.\<close>

theorem hex_round_trip:
  assumes "2 * length bs + 1 \<le> length buf" and "length bs \<le> length out"
  shows "\<exists>text rest. createHexStringFromRawBytes (Some buf) (Some bs) = (True, Some (text @ CHR 0x00 # rest)) \<and>
    length text = 2 * length bs \<and>
    createRawBytesFromHexString (Some out) (Some text) = (True, Some (bs @ drop (length bs) out))"
proof (intro exI conjI)
  let ?text = "concat (map hex_digits bs)"
  let ?rest = "drop (2 * length bs + 1) buf"
  have "dump_loop buf 0 bs = ?text @ drop (2 * length bs) buf"
    using dump_loop_concat [of 0 bs buf] assms(1) by simp
  also have "drop (2 * length bs) buf = buf ! (2 * length bs) # ?rest"
    using assms(1) by (simp add: Cons_nth_drop_Suc)
  finally show "createHexStringFromRawBytes (Some buf) (Some bs) = (True, Some (?text @ CHR 0x00 # ?rest))"
    using assms(1)
    by (simp add: createHexStringFromRawBytes_def Let_def list_update_append mult.commute)
  show "createRawBytesFromHexString (Some out) (Some ?text) = (True, Some (bs @ drop (length bs) out))"
    using assms(2) by (simp add: createRawBytesFromHexString_spec hex_decode_dump)
qed (rule length_hex_digits)

lemma hex_round_trip_witness:
  "\<exists>text rest. createHexStringFromRawBytes (Some (replicate 5 CHR ''x'')) (Some [0x0a, 0xff]) =
      (True, Some (text @ CHR 0x00 # rest)) \<and> length text = 4 \<and>
    createRawBytesFromHexString (Some [7, 7, 7]) (Some text) = (True, Some [0x0a, 0xff, 7])"
  using hex_round_trip [of "[0x0a, 0xff]" "replicate 5 CHR ''x''" "[7, 7, 7]"] by simp

end
