(* ===== verification/ToolsUtil.thy ===== *)
theory ToolsUtil
  imports CFModel FileIO
begin

text \<open>
  src/kext_tools_util.c: the helpers that the tools share. Path checks and file times work over
  a parameter for the file system's answers; the interactive questions work over the list of
  characters still to come from standard input; the log filter option works over the argument
  vector. Reads beyond a table or writes beyond a buffer are values of their own.
\<close>

section \<open>Arrays and the alert dictionary\<close>

definition addToArrayIfAbsent :: "'a list \<Rightarrow> 'a \<Rightarrow> 'a list" where
  "addToArrayIfAbsent array value = (if value \<in> set array then array else array @ [value])"

text \<open>What \<open>addKextToAlertDict\<close> asks of a kext.\<close>

record alert_kext =
  a_bundle_id :: "string option"
  a_apple_prefix :: bool
  a_version :: "string option"
  a_path :: "string option"

record alert_info =
  KextIdentifier :: string
  KextVersion :: string
  KextPathKey :: string

text \<open>\<open>CFDictionaryContainsValue\<close> looks at all three values of an entry.\<close>

definition contains_value :: "alert_info \<Rightarrow> string \<Rightarrow> bool" where
  "contains_value d v \<longleftrightarrow> v = KextIdentifier d \<or> v = KextVersion d \<or> v = KextPathKey d"

text \<open>The dictionary is the list under its one key, \<open>None\<close> before the list is made; the outer
  option is the caller's pointer. \<open>mem\<close> is whether allocations succeed.\<close>

definition addKextToAlertDict ::
  "bool \<Rightarrow> alert_kext \<Rightarrow> alert_info list option option \<Rightarrow> alert_info list option option" where
  "addKextToAlertDict mem theKext theDict =
     (case (case theDict of None \<Rightarrow> if mem then Some None else None | Some d \<Rightarrow> Some d) of
        None \<Rightarrow> None
      | Some myAlertInfoDict \<Rightarrow>
          (case (a_bundle_id theKext, a_version theKext, a_path theKext) of
             (Some myBundleID, Some myBundleVersion, Some myKextPath) \<Rightarrow>
               if a_apple_prefix theKext then Some myAlertInfoDict
               else if myAlertInfoDict = None \<and> \<not> mem then Some myAlertInfoDict
               else
                 (let myKextArray = (case myAlertInfoDict of None \<Rightarrow> [] | Some a \<Rightarrow> a) in
                  if list_ex (\<lambda>d. contains_value d myBundleID \<and> contains_value d myBundleVersion) myKextArray
                  then Some (Some myKextArray)
                  else if \<not> mem then Some (Some myKextArray)
                  else Some (Some (myKextArray @
                    [\<lparr>KextIdentifier = myBundleID, KextVersion = myBundleVersion, KextPathKey = myKextPath\<rparr>])))
           | _ \<Rightarrow> Some myAlertInfoDict))"

section \<open>Files\<close>

text \<open>\<open>createCFDataFromFD\<close>: \<open>st\<close> is what \<open>fstat\<close> said, whether the file is regular and its
  size. \<open>None\<close> is a loop that does not end.\<close>

definition createCFDataFromFD ::
  "(nat \<Rightarrow> nat \<Rightarrow> bytes option) \<Rightarrow> nat \<Rightarrow> (bool \<times> nat) option \<Rightarrow> bool \<Rightarrow> bytes option option" where
  "createCFDataFromFD rd fuel st create_ok =
     (case st of
        None \<Rightarrow> Some None
      | Some (regular, st_len) \<Rightarrow>
          if \<not> regular then Some None
          else if st_len = 0 then Some None
          else map_option (\<lambda>r. case r of None \<Rightarrow> None | Some b \<Rightarrow> if create_ok then Some b else None)
                 (read_loop rd fuel st_len []))"

definition createCFDataFromFile ::
  "bool \<Rightarrow> (nat \<Rightarrow> nat \<Rightarrow> bytes option) \<Rightarrow> nat \<Rightarrow> (bool \<times> nat) option \<Rightarrow> bool \<Rightarrow> bytes option option" where
  "createCFDataFromFile opens rd fuel st create_ok =
     (if \<not> opens then Some None else createCFDataFromFD rd fuel st create_ok)"

definition writeToFile ::
  "(nat \<Rightarrow> nat \<Rightarrow> int) \<Rightarrow> nat \<Rightarrow> bytes \<Rightarrow> (exit_status \<times> bytes list) option" where
  "writeToFile wr fuel data =
     map_option (\<lambda>(ok, chunks). (if ok then EX_OK else EX_OSERR, chunks)) (write_loop id wr fuel data 0)"

section \<open>Path names\<close>

text \<open>The loop that peels trailing slashes off, from length \<open>pathLength\<close>: \<open>None\<close> is the
  \<open>goto finish\<close> for a path of slashes.\<close>

fun strip_slashes :: "string \<Rightarrow> nat \<Rightarrow> nat option" where
  "strip_slashes path 0 = Some 0"
| "strip_slashes path (Suc k) =
     (if path ! k = CHR ''/'' then (if k = 0 then None else strip_slashes path k) else Some (k + 1))"

datatype name_check = NameGood | NameBad | NameEmpty

definition check_suffix :: "string \<Rightarrow> string \<Rightarrow> name_check" where
  "check_suffix path suffix =
     (if path = [] \<or> suffix = [] then NameEmpty
      else
        (case strip_slashes path (length path) of
           None \<Rightarrow> NameBad
         | Some pathLength \<Rightarrow>
             if length suffix \<ge> pathLength then NameBad
             else
               (let suffixIndex = pathLength - length suffix;
                    periodIndex = suffixIndex - 1 in
                if path ! periodIndex \<noteq> CHR ''.'' \<or>
                   take (length suffix) (drop suffixIndex path) \<noteq> suffix
                then NameBad else NameGood)))"

record path_env =
  stat_dir :: "string \<Rightarrow> bool option"
  writable :: "string \<Rightarrow> bool"

definition checkPath ::
  "path_env \<Rightarrow> string option \<Rightarrow> string option \<Rightarrow> bool \<Rightarrow> bool \<Rightarrow> exit_status" where
  "checkPath env path suffix directoryRequired writableRequired =
     (case path of
        None \<Rightarrow> EX_SOFTWARE
      | Some path \<Rightarrow>
          (case (case suffix of None \<Rightarrow> NameGood | Some s \<Rightarrow> check_suffix path s) of
             NameEmpty \<Rightarrow> EX_SOFTWARE
           | NameBad \<Rightarrow> EX_USAGE
           | NameGood \<Rightarrow>
               (case stat_dir env path of
                  None \<Rightarrow> EX_NOINPUT
                | Some is_dir \<Rightarrow>
                    if directoryRequired \<and> \<not> is_dir then EX_NOINPUT
                    else if writableRequired \<and> \<not> writable env path then EX_NOPERM
                    else EX_OK)))"

text \<open>\<open>strrchr\<close>: the index of the last occurrence.\<close>

fun strrchr :: "char \<Rightarrow> string \<Rightarrow> nat option" where
  "strrchr c [] = None"
| "strrchr c (x # xs) =
     (case strrchr c xs of Some i \<Rightarrow> Some (i + 1) | None \<Rightarrow> if x = c then Some 0 else None)"

text \<open>The parent of a path as \<open>statParentPath\<close> and \<open>getParentPathTimes\<close> take it. The bound
  given to \<open>strlcpy\<close> is the length of the parent, not the size of the buffer, which is looked
  at afterwards: a longer parent is written past the end of the buffer.\<close>

datatype parent_path = NoParent | Overflow | Parent string

definition copy_parent :: "nat \<Rightarrow> string \<Rightarrow> parent_path" where
  "copy_parent path_max thePath =
     (case strrchr (CHR ''/'') thePath of
        None \<Rightarrow> NoParent
      | Some lastSlash \<Rightarrow>
          if lastSlash < 2 then NoParent
          else if path_max < lastSlash + 1 then Overflow
          else if length thePath \<ge> path_max then NoParent
          else Parent (take lastSlash thePath))"

section \<open>Stat and file times\<close>

text \<open>The fields of \<open>struct stat\<close> that are used; times are seconds and microseconds.\<close>

type_synonym timeval = "int \<times> int"

record stat_buf =
  st_dev :: int
  st_uid :: nat
  st_mode :: "16 word"
  st_ino :: int
  st_size :: int
  st_atime :: timeval
  st_mtime :: timeval

definition timer_gt :: "timeval \<Rightarrow> timeval \<Rightarrow> bool" where
  "timer_gt a b \<longleftrightarrow> (if fst a = fst b then snd a > snd b else fst a > fst b)"

text \<open>\<open>buf\<close> is the caller's buffer, kept when the call fails.\<close>

definition statPath ::
  "(string \<Rightarrow> stat_buf option) \<Rightarrow> string \<Rightarrow> stat_buf \<Rightarrow> exit_status \<times> stat_buf" where
  "statPath stat path buf = (case stat path of None \<Rightarrow> (EX_OSERR, buf) | Some s \<Rightarrow> (EX_OK, s))"

text \<open>A URL is the path it stands for, if it has one that fits. The status of \<open>statPath\<close> is
  overwritten.\<close>

definition statURL ::
  "(string \<Rightarrow> stat_buf option) \<Rightarrow> string option \<Rightarrow> stat_buf \<Rightarrow> exit_status \<times> stat_buf" where
  "statURL stat anURL buf =
     (case anURL of
        None \<Rightarrow> (EX_OSERR, buf)
      | Some path \<Rightarrow>
          (let (result, buf) = statPath stat path buf in
           if result = EX_OK then (result, buf) else (EX_OK, buf)))"

datatype parent_result = Done exit_status stat_buf | OutOfBuffer

definition statParentPath ::
  "(string \<Rightarrow> stat_buf option) \<Rightarrow> nat \<Rightarrow> string option \<Rightarrow> stat_buf \<Rightarrow> parent_result" where
  "statParentPath stat path_max thePath buf =
     (case thePath of
        None \<Rightarrow> Done EX_SOFTWARE buf
      | Some p \<Rightarrow>
          (case copy_parent path_max p of
             NoParent \<Rightarrow> Done EX_SOFTWARE buf
           | Overflow \<Rightarrow> OutOfBuffer
           | Parent d \<Rightarrow> (let (r, b) = statPath stat d buf in Done r b)))"

type_synonym times = "timeval \<times> timeval"

definition getFilePathTimes ::
  "(string \<Rightarrow> stat_buf option) \<Rightarrow> string \<Rightarrow> times \<Rightarrow> exit_status \<times> times" where
  "getFilePathTimes stat filePath t =
     (case stat filePath of
        None \<Rightarrow> (EX_OSERR, t)
      | Some s \<Rightarrow> (EX_OK, (st_atime s, st_mtime s)))"

text \<open>\<open>getParentPathTimes\<close>; \<open>None\<close> is the write past the buffer.\<close>

definition getParentPathTimes ::
  "(string \<Rightarrow> stat_buf option) \<Rightarrow> nat \<Rightarrow> string option \<Rightarrow> times \<Rightarrow> (exit_status \<times> times) option" where
  "getParentPathTimes stat path_max thePath t =
     (case thePath of
        None \<Rightarrow> Some (EX_SOFTWARE, t)
      | Some p \<Rightarrow>
          (case copy_parent path_max p of
             NoParent \<Rightarrow> Some (EX_SOFTWARE, t)
           | Overflow \<Rightarrow> None
           | Parent d \<Rightarrow> Some (getFilePathTimes stat d t)))"

text \<open>The step that keeps the times of the latest modification seen so far.\<close>

definition later_times :: "stat_buf \<Rightarrow> times \<Rightarrow> times" where
  "later_times s t = (if timer_gt (st_mtime s) (snd t) then (st_atime s, st_mtime s) else t)"

text \<open>The loop of \<open>getLatestTimesFromCFURLArray\<close>: a missing array element ends it with the
  status of the element before; the buffer \<open>buf\<close> lives across the iterations.\<close>

fun latest_loop ::
  "(string \<Rightarrow> stat_buf option) \<Rightarrow> string option option list \<Rightarrow> exit_status \<Rightarrow> stat_buf \<Rightarrow> times \<Rightarrow>
   exit_status \<times> times" where
  "latest_loop stat [] result buf t = (EX_OK, t)"
| "latest_loop stat (None # urls) result buf t = (result, t)"
| "latest_loop stat (Some myURL # urls) result buf t =
     (let (result, buf) = statURL stat myURL buf in
      if result \<noteq> EX_OK then (result, t)
      else latest_loop stat urls result buf (later_times buf t))"

definition getLatestTimesFromCFURLArray ::
  "(string \<Rightarrow> stat_buf option) \<Rightarrow> string option option list option \<Rightarrow> stat_buf \<Rightarrow> times \<Rightarrow>
   exit_status \<times> times" where
  "getLatestTimesFromCFURLArray stat dirURLArray buf t =
     (case dirURLArray of
        None \<Rightarrow> (EX_SOFTWARE, t)
      | Some urls \<Rightarrow> latest_loop stat urls EX_SOFTWARE buf ((0, 0), (0, 0)))"

text \<open>\<open>getLatestTimesFromDirURL\<close>: the enumerated URLs of the directory, if it could be
  enumerated.\<close>

fun dir_loop ::
  "(string \<Rightarrow> stat_buf option) \<Rightarrow> string option list \<Rightarrow> stat_buf \<Rightarrow> times \<Rightarrow> exit_status \<times> times" where
  "dir_loop stat [] buf t = (EX_OK, t)"
| "dir_loop stat (myURL # urls) buf t =
     (let (result, buf) = statURL stat myURL buf in
      if result \<noteq> EX_OK then (EX_SOFTWARE, t)
      else dir_loop stat urls buf (later_times buf t))"

definition getLatestTimesFromDirURL ::
  "(string \<Rightarrow> stat_buf option) \<Rightarrow> string option list option \<Rightarrow> stat_buf \<Rightarrow> exit_status \<times> times" where
  "getLatestTimesFromDirURL stat entries buf =
     (case entries of
        None \<Rightarrow> (EX_SOFTWARE, ((0, 0), (0, 0)))
      | Some urls \<Rightarrow> dir_loop stat urls buf ((0, 0), (0, 0)))"

section \<open>File identity\<close>

datatype lookup = Found int int | NoEntry | Failed

definition isSameFileDevAndIno ::
  "(bool \<Rightarrow> string \<Rightarrow> lookup) \<Rightarrow> (int \<Rightarrow> bool \<Rightarrow> string \<Rightarrow> lookup) \<Rightarrow>
   int \<Rightarrow> string \<Rightarrow> bool \<Rightarrow> int \<Rightarrow> int \<Rightarrow> bool" where
  "isSameFileDevAndIno stat_path stat_at the_fd thePath followSymlinks the_dev_t the_ino_t =
     (case (if the_fd = -1 then stat_path followSymlinks thePath
            else stat_at the_fd followSymlinks thePath) of
        Found d i \<Rightarrow> the_dev_t = d \<and> the_ino_t = i
      | NoEntry \<Rightarrow> the_dev_t = 0 \<and> the_ino_t = 0
      | Failed \<Rightarrow> False)"

definition getFileDevAndIno :: "(string \<Rightarrow> stat_buf + int) \<Rightarrow> string \<Rightarrow> int \<times> (int \<times> int) option" where
  "getFileDevAndIno stat thePath =
     (case stat thePath of
        Inl s \<Rightarrow> (0, Some (st_dev s, st_ino s))
      | Inr errno \<Rightarrow> (errno, None))"

definition isSameFileDevAndInoWith_fd :: "(int \<Rightarrow> stat_buf option) \<Rightarrow> int \<Rightarrow> int \<Rightarrow> int \<Rightarrow> bool" where
  "isSameFileDevAndInoWith_fd fstat the_fd the_dev_t the_ino_t =
     (case fstat the_fd of
        None \<Rightarrow> False
      | Some s \<Rightarrow> the_dev_t = st_dev s \<and> the_ino_t = st_ino s)"

section \<open>Properties\<close>

lemma timer_gt_less: "timer_gt a b \<longleftrightarrow> fst b < fst a \<or> fst b = fst a \<and> snd b < snd a"
  by (auto simp: timer_gt_def)

text \<open>The entries of the alert list never agree in identifier and version.\<close>

definition alert_ok :: "alert_info list \<Rightarrow> bool" where
  "alert_ok infos \<longleftrightarrow> distinct (map (\<lambda>d. (KextIdentifier d, KextVersion d)) infos)"

definition alert_list :: "alert_info list option option \<Rightarrow> alert_info list" where
  "alert_list d = (case d of Some (Some a) \<Rightarrow> a | _ \<Rightarrow> [])"

lemma contains_own: "contains_value d (KextIdentifier d)" "contains_value d (KextVersion d)"
  by (simp_all add: contains_value_def)

lemma addKextToAlertDict_cases:
  "alert_list (addKextToAlertDict mem theKext theDict) = alert_list theDict \<or>
   (\<exists>b v p. a_bundle_id theKext = Some b \<and> a_version theKext = Some v \<and>
      a_path theKext = Some p \<and> \<not> a_apple_prefix theKext \<and>
      \<not> list_ex (\<lambda>d. contains_value d b \<and> contains_value d v) (alert_list theDict) \<and>
      alert_list (addKextToAlertDict mem theKext theDict) = alert_list theDict @
        [\<lparr>KextIdentifier = b, KextVersion = v, KextPathKey = p\<rparr>])"
  by (cases theDict; cases mem; cases "a_bundle_id theKext"; cases "a_version theKext";
      cases "a_path theKext"; cases "the theDict")
    (simp_all add: addKextToAlertDict_def alert_list_def Let_def)

text \<open>\<open>addKextToAlertDict\<close> keeps the alert list free of duplicates, keeps what is in it,
  and adds at most one entry, the one of the kext that was passed; a kext of Apple's is never
  added, whatever the state.\<close>

theorem addKextToAlertDict_invariant:
  assumes "alert_ok (alert_list theDict)"
  shows "alert_ok (alert_list (addKextToAlertDict mem theKext theDict)) \<and>
    (\<exists>new. alert_list (addKextToAlertDict mem theKext theDict) = alert_list theDict @ new \<and>
       (\<forall>d \<in> set new. \<not> a_apple_prefix theKext \<and> a_bundle_id theKext = Some (KextIdentifier d) \<and>
          a_version theKext = Some (KextVersion d) \<and> a_path theKext = Some (KextPathKey d)))"
proof -
  let ?r = "addKextToAlertDict mem theKext theDict"
  consider (same) "alert_list ?r = alert_list theDict"
    | (new) b v p where "a_bundle_id theKext = Some b" "a_version theKext = Some v"
        "a_path theKext = Some p" "\<not> a_apple_prefix theKext"
        "\<not> list_ex (\<lambda>d. contains_value d b \<and> contains_value d v) (alert_list theDict)"
        "alert_list ?r = alert_list theDict @
           [\<lparr>KextIdentifier = b, KextVersion = v, KextPathKey = p\<rparr>]"
    using addKextToAlertDict_cases by blast
  then show ?thesis
  proof cases
    case same
    with assms show ?thesis by simp
  next
    case new
    have "(b, v) \<noteq> (KextIdentifier d, KextVersion d)" if "d \<in> set (alert_list theDict)" for d
      using that new(5) contains_own [of d] by (auto simp: list_ex_iff)
    with assms new show ?thesis by (auto simp: alert_ok_def)
  qed
qed

lemma addKextToAlertDict_invariant_witness:
  "alert_ok (alert_list (addKextToAlertDict True
     \<lparr>a_bundle_id = Some ''com.example.b'', a_apple_prefix = False, a_version = Some ''1'', a_path = Some ''/b''\<rparr>
     (Some (Some [\<lparr>KextIdentifier = ''com.example.a'', KextVersion = ''1'', KextPathKey = ''/a''\<rparr>]))))"
proof -
  have "alert_ok (alert_list (Some (Some
      [\<lparr>KextIdentifier = ''com.example.a'', KextVersion = ''1'', KextPathKey = ''/a''\<rparr>])))"
    by (simp add: alert_ok_def alert_list_def)
  then show ?thesis using addKextToAlertDict_invariant by blast
qed

text \<open>The path test against its description.\<close>

lemma strip_slashes_Some:
  "strip_slashes path n = Some k \<Longrightarrow> n \<le> length path \<Longrightarrow> 0 < n \<Longrightarrow>
     0 < k \<and> k \<le> n \<and> path ! (k - 1) \<noteq> CHR ''/'' \<and> (\<forall>i. k \<le> i \<and> i < n \<longrightarrow> path ! i = CHR ''/'')"
proof (induction n)
  case (Suc n)
  then show ?case by (cases "n = 0") (auto split: if_splits simp: less_Suc_eq)
qed simp

lemma strip_slashes_None:
  "strip_slashes path n = None \<Longrightarrow> \<forall>i < n. path ! i = CHR ''/''"
  by (induction n) (auto split: if_splits simp: less_Suc_eq)

lemma strip_slashes_append:
  assumes "stem \<noteq> []" "last stem \<noteq> CHR ''/''"
  shows "strip_slashes (stem @ replicate n (CHR ''/'')) (length stem + n) = Some (length stem)"
proof -
  obtain j where j: "length stem = Suc j" using assms(1) by (cases stem) auto
  have base: "strip_slashes path (length stem) = Some (length stem)"
    if "take (length stem) path = stem" for path
  proof -
    have "path ! j = stem ! j" using that j by (metis lessI nth_take)
    also have "\<dots> = last stem" using assms(1) j by (simp add: last_conv_nth)
    finally show ?thesis using assms(2) by (simp add: j)
  qed
  have "m \<le> n \<Longrightarrow> strip_slashes (stem @ replicate n (CHR ''/'')) (length stem + m) = Some (length stem)" for m
  proof (induction m)
    case 0
    then show ?case using base [of "stem @ replicate n (CHR ''/'')"] by simp
  next
    case (Suc m)
    then show ?case using assms(1) by (simp add: nth_append)
  qed
  then show ?thesis by simp
qed

lemma check_suffix_good:
  "check_suffix path suffix = NameGood \<longleftrightarrow>
     suffix \<noteq> [] \<and> last suffix \<noteq> CHR ''/'' \<and>
     (\<exists>stem n. path = stem @ ''.'' @ suffix @ replicate n (CHR ''/''))"
proof
  assume good: "check_suffix path suffix = NameGood"
  then have ne: "path \<noteq> []" "suffix \<noteq> []" by (auto simp: check_suffix_def)
  from good ne obtain k where strip: "strip_slashes path (length path) = Some k"
    and k: "length suffix < k" "path ! (k - length suffix - 1) = CHR ''.''"
      "take (length suffix) (drop (k - length suffix) path) = suffix"
    by (auto simp: check_suffix_def Let_def not_le split: option.splits if_splits)
  note S = strip_slashes_Some [OF strip order_refl] 
  let ?m = "length suffix"
  have kl: "k \<le> length path" using S ne by auto
  have "path = take (k - ?m - 1) path @ [path ! (k - ?m - 1)] @ take ?m (drop (k - ?m) path) @ drop k path"
  proof -
    have "take k path = take (k - ?m) path @ take ?m (drop (k - ?m) path)"
      using k(1) by (metis le_add_diff_inverse2 less_or_eq_imp_le take_add)
    moreover have "take (k - ?m) path = take (k - ?m - 1) path @ [path ! (k - ?m - 1)]"
    proof -
      have "k - ?m = Suc (k - ?m - 1)" using k(1) by simp
      moreover have "k - ?m - 1 < length path" using kl k(1) ne by (cases suffix) auto
      ultimately show ?thesis by (metis take_Suc_conv_app_nth)
    qed
    ultimately show ?thesis by (metis append_assoc append_take_drop_id)
  qed
  moreover have "drop k path = replicate (length path - k) (CHR ''/'')"
    using S ne by (intro nth_equalityI) auto
  moreover have "last suffix \<noteq> CHR ''/''"
  proof -
    have "suffix ! (?m - 1) = take ?m (drop (k - ?m) path) ! (?m - 1)" by (simp only: k(3))
    also have "\<dots> = path ! (k - ?m + (?m - 1))" using ne k(1) kl by simp
    also have "k - ?m + (?m - 1) = k - 1" using ne k(1) by (cases suffix) auto
    finally have "suffix ! (?m - 1) = path ! (k - 1)" .
    with S ne k(1) show ?thesis by (simp add: last_conv_nth)
  qed
  ultimately show "suffix \<noteq> [] \<and> last suffix \<noteq> CHR ''/'' \<and>
     (\<exists>stem n. path = stem @ ''.'' @ suffix @ replicate n (CHR ''/''))"
    using ne k by metis
next
  assume R: "suffix \<noteq> [] \<and> last suffix \<noteq> CHR ''/'' \<and>
     (\<exists>stem n. path = stem @ ''.'' @ suffix @ replicate n (CHR ''/''))"
  then obtain stem n where p: "path = (stem @ ''.'' @ suffix) @ replicate n (CHR ''/'')" by auto
  have "strip_slashes path (length path) = Some (length stem + 1 + length suffix)"
    using strip_slashes_append [of "stem @ ''.'' @ suffix" n] R by (simp add: p add.assoc del: strip_slashes.simps)
  moreover have "path ! length stem = CHR ''.''" "path \<noteq> []"
    "take (length suffix) (drop (length stem + 1) path) = suffix"
    by (simp_all add: p)
  ultimately show "check_suffix path suffix = NameGood"
    using R unfolding check_suffix_def by (simp add: Let_def)
qed

text \<open>\<open>checkPath\<close> with a suffix: the path is accepted exactly if it is a stem, a period and
  the suffix, followed by any number of slashes, and the file system has it as required. (A
  suffix is a non-empty name, without a slash at its end.)\<close>

theorem checkPath_accepts:
  "checkPath env (Some path) (Some suffix) directoryRequired writableRequired = EX_OK \<longleftrightarrow>
     suffix \<noteq> [] \<and> last suffix \<noteq> CHR ''/'' \<and>
     (\<exists>stem n. path = stem @ ''.'' @ suffix @ replicate n (CHR ''/'')) \<and>
     (\<exists>is_dir. stat_dir env path = Some is_dir \<and> (\<not> directoryRequired \<or> is_dir)) \<and>
     (\<not> writableRequired \<or> writable env path)"
proof -
  have "checkPath env (Some path) (Some suffix) directoryRequired writableRequired = EX_OK \<longleftrightarrow>
     check_suffix path suffix = NameGood \<and>
     (\<exists>is_dir. stat_dir env path = Some is_dir \<and> (\<not> directoryRequired \<or> is_dir)) \<and>
     (\<not> writableRequired \<or> writable env path)"
    by (cases "check_suffix path suffix"; cases "stat_dir env path") (auto simp: checkPath_def)
  then show ?thesis unfolding check_suffix_good by blast
qed

lemma checkPath_accepts_witness:
  "checkPath \<lparr>stat_dir = (\<lambda>_. Some True), writable = (\<lambda>_. False)\<rparr>
     (Some ''/System/Foo.kext/'') (Some ''kext'') True False = EX_OK"
proof -
  have "''/System/Foo.kext/'' = ''/System/Foo'' @ ''.'' @ ''kext'' @ replicate 1 (CHR ''/'')" by simp
  then show ?thesis by (subst checkPath_accepts) fastforce
qed

text \<open>The latest time.\<close>

lemma later_times_mono: "\<not> timer_gt (snd t) (snd (later_times s t))"
  "\<not> timer_gt (st_mtime s) (snd (later_times s t))"
  by (auto simp: later_times_def timer_gt_less)

lemma timer_le_trans: "\<not> timer_gt a b \<Longrightarrow> \<not> timer_gt b c \<Longrightarrow> \<not> timer_gt a c"
  by (auto simp: timer_gt_less)

definition stat_of_url :: "(string \<Rightarrow> stat_buf option) \<Rightarrow> string option option \<Rightarrow> stat_buf option" where
  "stat_of_url stat u = (case u of Some (Some p) \<Rightarrow> stat p | _ \<Rightarrow> None)"

lemma latest_loop_fold:
  "\<forall>u \<in> set urls. stat_of_url stat u \<noteq> None \<Longrightarrow>
   latest_loop stat urls result buf t =
     (EX_OK, fold later_times (map (\<lambda>u. the (stat_of_url stat u)) urls) t)"
proof (induction urls arbitrary: result buf t)
  case (Cons u urls)
  then obtain p s where "u = Some (Some p)" "stat p = Some s"
    by (auto simp: stat_of_url_def split: option.splits)
  with Cons show ?case by (simp add: statURL_def statPath_def stat_of_url_def)
qed simp

lemma fold_later_times:
  "\<not> timer_gt (snd t) (snd (fold later_times ss t)) \<and>
   (\<forall>s \<in> set ss. \<not> timer_gt (st_mtime s) (snd (fold later_times ss t))) \<and>
   (fold later_times ss t = t \<or> (\<exists>s \<in> set ss. fold later_times ss t = (st_atime s, st_mtime s)))"
proof (induction ss arbitrary: t)
  case (Cons s ss)
  let ?r = "fold later_times ss (later_times s t)"
  note IH = Cons.IH [of "later_times s t"]
  have "\<not> timer_gt (snd t) (snd ?r)" "\<not> timer_gt (st_mtime s) (snd ?r)"
    using IH later_times_mono [where t = t and s = s] timer_le_trans by blast+
  moreover have "?r = t \<or> (\<exists>x \<in> set (s # ss). ?r = (st_atime x, st_mtime x))"
  proof -
    have "later_times s t = t \<or> later_times s t = (st_atime s, st_mtime s)"
      by (simp add: later_times_def)
    with IH show ?thesis by (metis list.set_intros)
  qed
  ultimately show ?case using IH by simp
qed (simp add: timer_gt_less)

text \<open>If every URL of the array can be looked at, \<open>getLatestTimesFromCFURLArray\<close> succeeds
  and delivers the times of a file of the array whose modification time no other file exceeds
  (or zero times, when no file was modified after time zero).\<close>

theorem getLatestTimes_latest:
  assumes "\<forall>u \<in> set urls. stat_of_url stat u \<noteq> None"
  shows "\<exists>t'. getLatestTimesFromCFURLArray stat (Some urls) buf t = (EX_OK, t') \<and>
    (\<forall>u \<in> set urls. \<not> timer_gt (st_mtime (the (stat_of_url stat u))) (snd t')) \<and>
    (t' = ((0, 0), (0, 0)) \<or>
     (\<exists>u \<in> set urls. t' = (st_atime (the (stat_of_url stat u)), st_mtime (the (stat_of_url stat u)))))"
proof (intro exI conjI)
  let ?ss = "map (\<lambda>u. the (stat_of_url stat u)) urls"
  let ?t = "fold later_times ?ss ((0, 0), (0, 0))"
  show "getLatestTimesFromCFURLArray stat (Some urls) buf t = (EX_OK, ?t)"
    by (simp add: getLatestTimesFromCFURLArray_def latest_loop_fold [OF assms])
  show "\<forall>u \<in> set urls. \<not> timer_gt (st_mtime (the (stat_of_url stat u))) (snd ?t)"
    using fold_later_times [of "((0, 0), (0, 0))" ?ss] by simp
  show "?t = ((0, 0), (0, 0)) \<or>
     (\<exists>u \<in> set urls. ?t = (st_atime (the (stat_of_url stat u)), st_mtime (the (stat_of_url stat u))))"
    using fold_later_times [of "((0, 0), (0, 0))" ?ss] by auto
qed

lemma getLatestTimes_latest_witness:
  "\<not> timer_gt (5, 1) (snd (snd (getLatestTimesFromCFURLArray
     (\<lambda>p. Some \<lparr>st_dev = 1, st_uid = 0, st_mode = 0x81A4, st_ino = 2, st_size = 0, st_atime = (9, 9), st_mtime = (if p = ''a'' then (5, 1) else (5, 2))\<rparr>)
     (Some [Some (Some ''a''), Some (Some ''b'')]) \<lparr>st_dev = 0, st_uid = 0, st_mode = 0x81A4, st_ino = 0, st_size = 0, st_atime = (0, 0), st_mtime = (0, 0)\<rparr>
     ((0, 0), (0, 0)))))"
  using getLatestTimes_latest [of "[Some (Some ''a''), Some (Some ''b'')]"
      "\<lambda>p. Some \<lparr>st_dev = 1, st_uid = 0, st_mode = 0x81A4, st_ino = 2, st_size = 0, st_atime = (9, 9), st_mtime = (if p = ''a'' then (5, 1) else (5, 2))\<rparr>"
      "\<lparr>st_dev = 0, st_uid = 0, st_mode = 0x81A4, st_ino = 0, st_size = 0, st_atime = (0, 0), st_mtime = (0, 0)\<rparr>" "((0, 0), (0, 0))"]
  by (fastforce simp: stat_of_url_def)

text \<open>\<open>statURL\<close> never reports that the file is missing: for any URL with a path it returns
  success, and leaves the buffer as it was when there is no such file.\<close>

theorem statURL_hides_failure:
  "statURL stat (Some path) buf = (EX_OK, case stat path of None \<Rightarrow> buf | Some s \<Rightarrow> s)"
  by (simp add: statURL_def statPath_def split: option.splits)

lemma strrchr_append: "c \<notin> set name \<Longrightarrow> strrchr c (dir @ c # name) = Some (length dir)"
proof -
  assume "c \<notin> set name"
  then have "strrchr c name = None" by (induction name) auto
  then show ?thesis by (induction dir) auto
qed

text \<open>The parent of a path: for a directory of at least two characters the status of the
  directory is taken when the whole path fits the buffer; when the directory alone does not
  fit, the copy leaves the buffer, because the bound given to it is the directory's length.\<close>

theorem statParentPath_parent:
  assumes "CHR ''/'' \<notin> set name" and "2 \<le> length dir"
  shows "statParentPath stat path_max (Some (dir @ ''/'' @ name)) buf =
    (if path_max \<le> length dir then OutOfBuffer
     else if length dir + 1 + length name < path_max
     then Done (fst (statPath stat dir buf)) (snd (statPath stat dir buf))
     else Done EX_SOFTWARE buf)"
proof -
  have "strrchr (CHR ''/'') (dir @ ''/'' @ name) = Some (length dir)"
    using strrchr_append [OF assms(1), of dir] by simp
  then show ?thesis
    using assms(2) by (simp add: statParentPath_def copy_parent_def case_prod_beta Let_def)
qed

lemma statParentPath_parent_witness:
  "statParentPath (\<lambda>p. if p = ''/a'' then Some \<lparr>st_dev = 1, st_uid = 0, st_mode = 0x81A4, st_ino = 7, st_size = 0, st_atime = (0, 0), st_mtime = (0, 0)\<rparr> else None)
     1024 (Some ''/a/b'') \<lparr>st_dev = 0, st_uid = 0, st_mode = 0x81A4, st_ino = 0, st_size = 0, st_atime = (0, 0), st_mtime = (0, 0)\<rparr> =
   Done EX_OK \<lparr>st_dev = 1, st_uid = 0, st_mode = 0x81A4, st_ino = 7, st_size = 0, st_atime = (0, 0), st_mtime = (0, 0)\<rparr>"
  by (subst statParentPath_parent [of "''b''" "''/a''", simplified]) (simp_all add: statPath_def)

text \<open>C36. Writing and reading whole files: while the system calls make progress,
  \<open>writeToFile\<close> returns, reports success and has written exactly the data, and
  \<open>createCFDataFromFD\<close> returns the contents of a non-empty regular file.\<close>

theorem file_transfer_complete:
  assumes "write_progress wr" and "reads_file file rd" and "file \<noteq> []"
  shows "(\<exists>chunks. writeToFile wr (length data + 1) data = Some (EX_OK, chunks) \<and> concat chunks = data) \<and>
    createCFDataFromFD rd (length file + 1) (Some (True, length file)) True = Some (Some file)"
proof
  show "\<exists>chunks. writeToFile wr (length data + 1) data = Some (EX_OK, chunks) \<and> concat chunks = data"
    using write_loop_complete [OF assms(1), of data id 0 "length data + 1"]
    by (auto simp: writeToFile_def simp del: write_loop.simps)
  have "read_loop rd (length file + 1) (length file) [] = Some (Some file)"
    using read_loop_complete [OF assms(2), of "[]" "length file" "length file + 1"]
    by (simp del: read_loop.simps)
  then show "createCFDataFromFD rd (length file + 1) (Some (True, length file)) True = Some (Some file)"
    using assms(3) by (simp add: createCFDataFromFD_def del: read_loop.simps)
qed

lemma file_transfer_complete_witness:
  "(\<exists>chunks. writeToFile (\<lambda>off n. 1) 3 [1, 2] = Some (EX_OK, chunks) \<and> concat chunks = [1, 2]) \<and>
   createCFDataFromFD (\<lambda>off n. Some (take 1 (drop off [7, 8, 9]))) 4 (Some (True, 3)) True = Some (Some [7, 8, 9])"
proof -
  have "write_progress (\<lambda>off n. 1)" by (simp add: write_progress_def)
  moreover have "reads_file [7, 8, 9] (\<lambda>off n. Some (take 1 (drop off [7, 8, 9])))"
    unfolding reads_file_def by (intro allI impI exI [of _ 1]) simp
  ultimately show ?thesis
    using file_transfer_complete [of "\<lambda>off n. 1" "[7, 8, 9]" "\<lambda>off n. Some (take 1 (drop off [7, 8, 9]))" "[1, 2]"]
    by (simp add: eval_nat_numeral del: write_loop.simps read_loop.simps)
qed

text \<open>A file that gets shorter after its size was taken keeps \<open>createCFDataFromFD\<close> in its
  loop: no number of iterations is enough.\<close>

theorem createCFDataFromFD_stuck:
  assumes "reads_file file rd" and "length file < st_len"
  shows "createCFDataFromFD rd fuel (Some (True, st_len)) create_ok = None"
  using read_loop_stuck [OF assms, of fuel "[]"] assms(2) by (simp add: createCFDataFromFD_def)

lemma createCFDataFromFD_stuck_witness:
  "createCFDataFromFD (\<lambda>off n. Some (take n (drop off [7]))) 1000 (Some (True, 2)) True = None"
proof -
  have "reads_file [7] (\<lambda>off n. Some (take n (drop off [7])))"
    unfolding reads_file_def by auto
  then show ?thesis by (rule createCFDataFromFD_stuck) simp
qed

end
