(* ===== verification/ToolsOptions.thy ===== *)
theory ToolsOptions
  imports Prelude
begin

text \<open>
  src/kext_tools_util.c, continued: the verbose option and the log filter it sets, the boot
  arguments of the kernel, the names of kernel files, and the questions put to the user. C
  strings are read through \<open>char_at\<close>, which gives the terminator after the last character.
\<close>

definition char_at :: "string \<Rightarrow> nat \<Rightarrow> char" where
  "char_at s i = (if i < length s then s ! i else CHR 0x00)"

text \<open>The value of a C \<open>char\<close>, which is signed.\<close>

definition schar :: "char \<Rightarrow> int" where
  "schar c = (let n = (of_char c :: nat) in if n < 128 then int n else int n - 256)"

definition digit_value :: "char \<Rightarrow> nat" where
  "digit_value c =
     (let n = (of_char c :: nat) in
      if 48 \<le> n \<and> n \<le> 57 then n - 48
      else if 65 \<le> n \<and> n \<le> 90 then n - 55
      else if 97 \<le> n \<and> n \<le> 122 then n - 87
      else 255)"

definition is_digit :: "nat \<Rightarrow> char \<Rightarrow> bool" where
  "is_digit base c \<longleftrightarrow> digit_value c < base"

definition digits_value :: "nat \<Rightarrow> string \<Rightarrow> nat" where
  "digits_value base s = foldl (\<lambda>a c. base * a + digit_value c) 0 s"

text \<open>\<open>strtoul\<close> of digits in a base: the value, at most \<open>ULONG_MAX\<close>, and what follows.\<close>

definition strtoul_digits :: "nat \<Rightarrow> string \<Rightarrow> nat \<times> string" where
  "strtoul_digits base s =
     (min (digits_value base (takeWhile (is_digit base) s)) (2 ^ 64 - 1), dropWhile (is_digit base) s)"

text \<open>The prefix \<open>0x\<close> counts only if a hexadecimal digit follows.\<close>

definition has_0x :: "string \<Rightarrow> bool" where
  "has_0x s \<longleftrightarrow> char_at s 0 = CHR ''0'' \<and> (char_at s 1 = CHR ''x'' \<or> char_at s 1 = CHR ''X'')"

definition strtoul16 :: "string \<Rightarrow> nat \<times> string" where
  "strtoul16 s =
     (if has_0x s \<and> is_digit 16 (char_at s 2) then strtoul_digits 16 (drop 2 s)
      else strtoul_digits 16 s)"

section \<open>The verbose option\<close>

text \<open>\<open>setLogFilterForOpt\<close>: \<open>levels\<close> is the table \<open>_sLogSpecsForVerboseLevels\<close>. The result is
  the usage error, the new \<open>optind\<close> with the filter that is set, or a read outside the table
  or the argument.\<close>

datatype filter_result = UsageError | SetFilter nat u32 | OutOfBounds

definition table_filter :: "u32 list \<Rightarrow> char \<Rightarrow> u32 option" where
  "table_filter levels c =
     (let i = schar c - 48 in
      if 0 \<le> i \<and> i < int (length levels) then Some (levels ! nat i) else None)"

definition setLogFilterForOpt ::
  "u32 list \<Rightarrow> string option \<Rightarrow> nat \<Rightarrow> string list \<Rightarrow> u32 \<Rightarrow> filter_result" where
  "setLogFilterForOpt levels optarg optind argv forceOnFlags =
     (let next = (if optarg = None then optind + 1 else optind) in
      if optarg = None \<and> optind \<ge> length argv
      then SetFilter optind (levels ! 1 OR forceOnFlags)
      else
        (let localOptarg = (case optarg of Some s \<Rightarrow> s | None \<Rightarrow> argv ! optind) in
         if take 3 localOptarg = ''-v='' then UsageError
         else
           (let localOptarg =
                  (if char_at localOptarg 0 = CHR ''-'' \<and> char_at localOptarg 1 = CHR ''v'' \<and>
                      has_0x (drop 2 localOptarg)
                   then drop 2 localOptarg else localOptarg) in
            if has_0x localOptarg then
              (let (parsedFlags, endptr) = strtoul16 localOptarg in
               if endptr \<noteq> [] then UsageError
               else SetFilter next (of_nat parsedFlags OR forceOnFlags))
            else if localOptarg = [] then OutOfBounds
            else if (schar (char_at localOptarg 0) \<ge> 48 \<or> schar (char_at localOptarg 0) \<le> 54) \<and>
                    char_at localOptarg 1 = CHR 0x00
            then
              (case table_filter levels (char_at localOptarg 0) of
                 None \<Rightarrow> OutOfBounds
               | Some logFilter \<Rightarrow> SetFilter next (logFilter OR forceOnFlags))
            else SetFilter optind (levels ! 1 OR forceOnFlags))))"

section \<open>Boot arguments\<close>

definition to_lower :: "char \<Rightarrow> char" where
  "to_lower c = (let n = (of_char c :: nat) in if 65 \<le> n \<and> n \<le> 90 then char_of (n + 32) else c)"

definition is_space :: "char \<Rightarrow> bool" where
  "is_space c \<longleftrightarrow> c = CHR '' '' \<or> c \<in> {CHR 0x09, CHR 0x0A, CHR 0x0B, CHR 0x0C, CHR 0x0D}"

text \<open>\<open>strcasestr\<close>: from the first place where the needle occurs, up to case.\<close>

fun strcasestr :: "string \<Rightarrow> string \<Rightarrow> string option" where
  "strcasestr [] needle = (if needle = [] then Some [] else None)"
| "strcasestr (c # hay) needle =
     (if map to_lower (take (length needle) (c # hay)) = map to_lower needle then Some (c # hay)
      else strcasestr hay needle)"

text \<open>\<open>get_bootarg\<close>: the boot arguments are fetched once; \<open>None\<close> if that fails.\<close>

definition get_bootarg :: "string option \<Rightarrow> string \<Rightarrow> string option" where
  "get_bootarg bootArgs bootArg = (case bootArgs of None \<Rightarrow> None | Some s \<Rightarrow> strcasestr s bootArg)"

text \<open>\<open>strtoul\<close> with base 0: white space, a sign, and the base by prefix; without digits the
  end pointer is the start of the text.\<close>

definition strtoul0 :: "string \<Rightarrow> nat \<times> string" where
  "strtoul0 s =
     (let t = dropWhile is_space s;
          neg = (char_at t 0 = CHR ''-'');
          t = (if neg \<or> char_at t 0 = CHR ''+'' then drop 1 t else t);
          (v, rest) =
            (if has_0x t \<and> is_digit 16 (char_at t 2) then strtoul_digits 16 (drop 2 t)
             else if char_at t 0 = CHR ''0'' then strtoul_digits 8 t
             else strtoul_digits 10 t)
      in if rest = t then (0, s)
         else (if neg then (2 ^ 64 - v) mod 2 ^ 64 else v, rest))"

text \<open>\<open>get_bootarg_int\<close>: its buffer has 64 bytes; longer names are not used and are left out
  here (\<open>None\<close>).\<close>

definition get_bootarg_int :: "string option \<Rightarrow> string \<Rightarrow> u32 option" where
  "get_bootarg_int bootArgs bootArg =
     (let argStr = take 63 (bootArg @ ''='');
          argLen = length bootArg + 1 in
      if length bootArg \<ge> 64 then None
      else
        (case get_bootarg bootArgs argStr of
           None \<Rightarrow> None
         | Some argStart \<Rightarrow>
             (let (v, token) = strtoul0 (drop argLen argStart) in
              if token = [] \<or> is_space (hd token) then Some (of_nat v) else None)))"

definition isDebugSetInBootargs :: "string option \<Rightarrow> bool" where
  "isDebugSetInBootargs bootArgs =
     (case get_bootarg_int bootArgs ''debug'' of None \<Rightarrow> False | Some v \<Rightarrow> v \<noteq> 0)"

section \<open>Kernel files\<close>

definition useDevelopmentKernel :: "(string \<Rightarrow> bool) \<Rightarrow> nat \<Rightarrow> bool \<Rightarrow> string \<Rightarrow> bool" where
  "useDevelopmentKernel exists path_max malloc_ok theKernelPath =
     (exists ''/AppleInternal'' \<and> malloc_ok \<and> length theKernelPath < path_max \<and>
      length theKernelPath + length ''.development'' < path_max \<and>
      exists (theKernelPath @ ''.development''))"

definition strip_trailing :: "char \<Rightarrow> string \<Rightarrow> string" where
  "strip_trailing c s = rev (dropWhile (\<lambda>x. x = c) (rev s))"

definition last_part :: "string \<Rightarrow> string" where
  "last_part s = rev (takeWhile (\<lambda>x. x \<noteq> CHR ''/'') (rev s))"

text \<open>\<open>basename_r\<close> and \<open>dirname_r\<close> of the C library; both give up on results that do not fit
  \<open>path_max\<close>.\<close>

definition basename_r :: "nat \<Rightarrow> string \<Rightarrow> string option" where
  "basename_r path_max path =
     (let s = strip_trailing (CHR ''/'') path;
          b = (if path = [] then ''.'' else if s = [] then ''/'' else last_part s)
      in if length b \<ge> path_max then None else Some b)"

definition dirname_r :: "nat \<Rightarrow> string \<Rightarrow> string option" where
  "dirname_r path_max path =
     (let s = strip_trailing (CHR ''/'') path;
          head = take (length s - length (last_part s)) s;
          d = (if path = [] then ''.''
               else if s = [] then ''/''
               else if head = [] then ''.''
               else (let h = strip_trailing (CHR ''/'') head in if h = [] then ''/'' else h))
      in if length d \<ge> path_max then None else Some d)"

text \<open>\<open>strlcpy\<close> and \<open>strlcat\<close>: the new contents of a buffer of \<open>n\<close> bytes and the length that
  was asked for.\<close>

definition strlcpy :: "nat \<Rightarrow> string \<Rightarrow> string \<times> nat" where
  "strlcpy n src = (take (n - 1) src, length src)"

definition strlcat :: "nat \<Rightarrow> string \<Rightarrow> string \<Rightarrow> string \<times> nat" where
  "strlcat n dst src = (take (n - 1) (dst @ src), length dst + length src)"

text \<open>\<open>translatePrelinkedToImmutablePath\<close>: \<open>prelinked\<close> is the name of the prelinked kernel of
  the system headers. The result is the new path, if any.\<close>

definition translatePrelinkedToImmutablePath ::
  "nat \<Rightarrow> string \<Rightarrow> string \<Rightarrow> nat \<Rightarrow> string option" where
  "translatePrelinkedToImmutablePath path_max prelinked prelinked_path imk_len =
     (if imk_len < length prelinked then None
      else
        (case (basename_r path_max prelinked_path, dirname_r path_max prelinked_path) of
           (Some plk_name, Some dir) \<Rightarrow>
             (let plk_path = (if dir = ''.'' then [] else dir) in
              if length plk_name < length prelinked \<or> take (length prelinked) plk_name \<noteq> prelinked
              then None
              else
                (let plk_suffix = drop (length prelinked) plk_name;
                     (imk_path, n1) = strlcpy imk_len plk_path;
                     (imk_path, n2) = strlcat imk_len imk_path ''immutablekernel'';
                     (imk_path, n3) = strlcat imk_len imk_path plk_suffix
                 in if n1 > imk_len \<or> n2 > imk_len \<or> n3 > imk_len then None else Some imk_path))
         | _ \<Rightarrow> None))"

section \<open>Questions to the user\<close>

datatype reply = REPLY_ERROR | REPLY_NO | REPLY_YES | REPLY_ALL

text \<open>The rest of a line; \<open>None\<close> at the end of the input.\<close>

fun skip_line :: "string \<Rightarrow> string option" where
  "skip_line [] = None"
| "skip_line (x # rest) = (if x = CHR 0x0A then Some rest else skip_line rest)"

lemma skip_line_length: "skip_line s = Some rest \<Longrightarrow> length rest < length s"
  by (induction s) (auto split: if_splits)

text \<open>\<open>user_approve\<close> over the input still to come: the reply and the input that is left.\<close>

function user_approve :: "bool \<Rightarrow> reply \<Rightarrow> string \<Rightarrow> reply \<times> string" where
  "user_approve ask_all default_answer [] = (REPLY_ERROR, [])"
| "user_approve ask_all default_answer (c # input) =
     (case (if c \<noteq> CHR 0x0A then skip_line input else Some input) of
        None \<Rightarrow> (REPLY_ERROR, [])
      | Some rest \<Rightarrow>
          if c = CHR 0x0A then (default_answer, rest)
          else if to_lower c = CHR ''y'' then (REPLY_YES, rest)
          else if to_lower c = CHR ''n'' then (REPLY_NO, rest)
          else if ask_all \<and> to_lower c = CHR ''a'' then (REPLY_ALL, rest)
          else user_approve ask_all default_answer rest)"
  by pat_completeness auto
termination
  by (relation "measure (\<lambda>(a, d, input). length input)")
    (auto split: if_splits dest!: skip_line_length)

declare user_approve.simps(2) [simp del]

text \<open>\<open>user_input\<close>: the line typed, if it has fewer than 80 characters, whether the end of the
  input was met, and the input that is left.\<close>

fun input_loop :: "string \<Rightarrow> string \<Rightarrow> string option \<times> bool \<times> string" where
  "input_loop acc [] = (None, True, [])"
| "input_loop acc (c # input) =
     (if c = CHR 0x0A then (Some acc, False, input)
      else if length acc \<ge> 79 then (None, False, input)
      else input_loop (acc @ [c]) input)"

definition user_input :: "bool \<Rightarrow> string \<Rightarrow> string option \<times> bool \<times> string" where
  "user_input malloc_ok input = (if malloc_ok then input_loop [] input else (None, False, input))"

section \<open>Saving a symbol file\<close>

record save_context =
  overwrite :: bool
  save_fatal :: bool

text \<open>\<open>saveFile\<close> for one file: what the URL calls and the system say (\<open>savePath\<close>, whether it
  exists, whether it can be opened), the input for the question, and the data. The result is
  the context, the input left, and the data that was written, if the file was opened for
  writing.\<close>

record save_env =
  savePath_ok :: bool
  save_exists :: bool
  save_open_ok :: bool

definition save_data :: "save_env \<Rightarrow> bytes \<Rightarrow> bytes option" where
  "save_data env fileData = (if save_open_ok env then Some fileData else None)"

definition saveFile ::
  "save_env \<Rightarrow> bytes \<Rightarrow> save_context \<times> string \<Rightarrow> (save_context \<times> string) \<times> bytes option" where
  "saveFile env fileData st =
     (case st of (context, input) \<Rightarrow>
        if save_fatal context then ((context, input), None)
        else if \<not> savePath_ok env then ((context\<lparr>save_fatal := True\<rparr>, input), None)
        else if overwrite context then ((context, input), save_data env fileData)
        else if \<not> save_exists env then ((context\<lparr>save_fatal := True\<rparr>, input), None)
        else
          (case user_approve True REPLY_YES input of
             (REPLY_YES, rest) \<Rightarrow> ((context, rest), save_data env fileData)
           | (REPLY_ALL, rest) \<Rightarrow> ((context\<lparr>overwrite := True\<rparr>, rest), save_data env fileData)
           | (REPLY_NO, rest) \<Rightarrow> ((context, rest), None)
           | (REPLY_ERROR, rest) \<Rightarrow> ((context\<lparr>save_fatal := True\<rparr>, rest), None)))"

section \<open>Properties\<close>

lemma takeWhile_digits: "list_all (is_digit base) ds \<Longrightarrow> takeWhile (is_digit base) ds = ds"
  by (induction ds) simp_all

lemma dropWhile_digits: "list_all (is_digit base) ds \<Longrightarrow> dropWhile (is_digit base) ds = []"
  by (induction ds) simp_all

lemma has_0x_Cons: "has_0x (CHR ''0'' # x # s) \<longleftrightarrow> x = CHR ''x'' \<or> x = CHR ''X''"
  by (simp add: has_0x_def char_at_def)

lemma strtoul16_hex:
  assumes "ds \<noteq> []" "list_all (is_digit 16) ds"
  shows "strtoul16 (CHR ''0'' # CHR ''x'' # ds) = (min (digits_value 16 ds) (2 ^ 64 - 1), [])"
proof -
  have "is_digit 16 (char_at (CHR ''0'' # CHR ''x'' # ds) 2)"
    using assms by (cases ds) (simp_all add: char_at_def)
  then show ?thesis
    using assms
    by (simp add: strtoul16_def has_0x_Cons strtoul_digits_def takeWhile_digits dropWhile_digits
        del: takeWhile_eq_all_conv dropWhile_eq_Nil_conv)
qed

text \<open>A hexadecimal argument of the verbose option sets exactly the bits it names and the
  forced ones, in all of its spellings, and is consumed when it is a separate argument.\<close>

theorem setLogFilter_hex:
  assumes "ds \<noteq> []" "list_all (is_digit 16) ds" "digits_value 16 ds < 2 ^ 32"
    and "arg = CHR ''0'' # CHR ''x'' # ds \<or> arg = CHR ''-'' # CHR ''v'' # CHR ''0'' # CHR ''x'' # ds"
  shows "setLogFilterForOpt levels (Some arg) optind argv force =
      SetFilter optind (of_nat (digits_value 16 ds) OR force) \<and>
    setLogFilterForOpt levels None 0 (arg # argv) force =
      SetFilter 1 (of_nat (digits_value 16 ds) OR force)"
proof -
  have parse: "strtoul16 (CHR ''0'' # CHR ''x'' # ds) = (digits_value 16 ds, [])"
    using strtoul16_hex [OF assms(1,2)] assms(3) by simp
  have "\<not> has_0x (CHR ''-'' # s)" for s by (simp add: has_0x_def char_at_def)
  with assms(4) show ?thesis
    by (auto simp: setLogFilterForOpt_def Let_def has_0x_Cons parse char_at_def)
qed

lemma setLogFilter_hex_witness:
  "setLogFilterForOpt [1, 2, 3, 4, 5, 6, 7] (Some ''0xff'') 3 [] 1 = SetFilter 3 (0xff OR 1) \<and>
   setLogFilterForOpt [1, 2, 3, 4, 5, 6, 7] None 0 [''0xff'', ''x''] 1 = SetFilter 1 (0xff OR 1)"
proof -
  have "digits_value 16 ''ff'' = 255" "list_all (is_digit 16) ''ff''" by code_simp+
  then show ?thesis
    using setLogFilter_hex [of "''ff''" "''0xff''" "[1, 2, 3, 4, 5, 6, 7]" 3 "[]" 1]
      setLogFilter_hex [of "''ff''" "''0xff''" "[1, 2, 3, 4, 5, 6, 7]" 3 "[''x'']" 1] by simp
qed

text \<open>A verbose argument of one character: 0 to 6 select an entry of the table of seven
  filters; for every other character the test of the range lets it through and the table is
  read outside its bounds.\<close>

theorem setLogFilter_single:
  assumes "length levels = 7"
  shows "setLogFilterForOpt levels (Some [c]) optind argv force =
    (if 48 \<le> schar c \<and> schar c \<le> 54
     then SetFilter optind (levels ! nat (schar c - 48) OR force) else OutOfBounds)"
proof -
  have "schar c \<ge> 48 \<or> schar c \<le> 54" by linarith
  then show ?thesis
    using assms
    by (simp add: setLogFilterForOpt_def Let_def table_filter_def char_at_def has_0x_def)
qed

lemma setLogFilter_single_witness:
  "setLogFilterForOpt [1, 2, 3, 4, 5, 6, 7] (Some ''2'') 0 [] 8 = SetFilter 0 (3 OR 8) \<and>
   setLogFilterForOpt [1, 2, 3, 4, 5, 6, 7] (Some ''9'') 0 [] 8 = OutOfBounds"
proof -
  have "schar (CHR ''2'') = 50" "schar (CHR ''9'') = 57" by code_simp+
  then show ?thesis
    using setLogFilter_single [of "[1, 2, 3, 4, 5, 6, 7]" "CHR ''2''" 0 "[]" 8]
      setLogFilter_single [of "[1, 2, 3, 4, 5, 6, 7]" "CHR ''9''" 0 "[]" 8] by simp
qed

lemma skip_line_append: "CHR 0x0A \<notin> set line \<Longrightarrow> skip_line (line @ CHR 0x0A # rest) = Some rest"
  by (induction line) auto

definition answer_of :: "bool \<Rightarrow> reply \<Rightarrow> string \<Rightarrow> reply option" where
  "answer_of ask_all default_answer line =
     (case line of
        [] \<Rightarrow> Some default_answer
      | c # _ \<Rightarrow>
          if to_lower c = CHR ''y'' then Some REPLY_YES
          else if to_lower c = CHR ''n'' then Some REPLY_NO
          else if ask_all \<and> to_lower c = CHR ''a'' then Some REPLY_ALL
          else None)"

lemma user_approve_line:
  assumes "CHR 0x0A \<notin> set line"
  shows "user_approve ask_all default_answer (line @ CHR 0x0A # rest) =
    (case answer_of ask_all default_answer line of
       Some r \<Rightarrow> (r, rest) | None \<Rightarrow> user_approve ask_all default_answer rest)"
proof (cases line)
  case Nil
  then show ?thesis by (simp add: user_approve.simps(2) answer_of_def)
next
  case (Cons c cs)
  then have "c \<noteq> CHR 0x0A" "CHR 0x0A \<notin> set cs" using assms by auto
  with Cons show ?thesis
    by (simp add: user_approve.simps(2) answer_of_def skip_line_append)
qed

text \<open>\<open>user_approve\<close> passes over the lines that are no answer and takes the first one that
  is: an empty line is the default, otherwise the first letter decides, up to case; "a" counts
  only where it is offered. The rest of the input is left for later questions.\<close>

theorem user_approve_first_answer:
  assumes "\<forall>l \<in> set bad. CHR 0x0A \<notin> set l \<and> answer_of ask_all default_answer l = None"
    and "CHR 0x0A \<notin> set line" and "answer_of ask_all default_answer line = Some r"
  shows "user_approve ask_all default_answer
      (concat (map (\<lambda>l. l @ [CHR 0x0A]) bad) @ line @ CHR 0x0A # rest) = (r, rest)"
  using assms(1)
proof (induction bad)
  case Nil
  with assms(2,3) show ?case by (simp add: user_approve_line)
next
  case (Cons l bad)
  then show ?case
    using user_approve_line [of l ask_all default_answer
        "concat (map (\<lambda>l. l @ [CHR 0x0A]) bad) @ line @ CHR 0x0A # rest"]
    by simp
qed

lemma user_approve_first_answer_witness:
  "user_approve False REPLY_YES (concat (map (\<lambda>l. l @ [CHR 0x0A]) [''all'', ''what'']) @ ''No'' @ CHR 0x0A # ''y'') =
     (REPLY_NO, ''y'')"
proof (rule user_approve_first_answer)
  show "\<forall>l \<in> set [''all'', ''what'']. CHR 0x0A \<notin> set l \<and> answer_of False REPLY_YES l = None" by code_simp
qed code_simp+

text \<open>\<open>saveFile\<close> writes only with permission: outside the overwrite mode a file is written
  only if it exists and the user said yes (or all, which turns the mode on); a file that does
  not exist yet is not written at all but ends the saving of all files.\<close>

theorem saveFile_permission:
  assumes "\<not> save_fatal context" "savePath_ok env" "\<not> overwrite context"
  shows "(snd (saveFile env fileData (context, input)) \<noteq> None \<longrightarrow>
      save_exists env \<and> fst (user_approve True REPLY_YES input) \<in> {REPLY_YES, REPLY_ALL}) \<and>
    (overwrite (fst (fst (saveFile env fileData (context, input)))) \<longrightarrow>
      fst (user_approve True REPLY_YES input) = REPLY_ALL) \<and>
    (\<not> save_exists env \<longrightarrow>
      saveFile env fileData (context, input) = ((context\<lparr>save_fatal := True\<rparr>, input), None))"
  using assms
  by (cases "user_approve True REPLY_YES input"; cases "fst (user_approve True REPLY_YES input)")
    (simp_all add: saveFile_def)

lemma saveFile_permission_witness:
  "saveFile \<lparr>savePath_ok = True, save_exists = False, save_open_ok = True\<rparr> [1]
     (\<lparr>overwrite = False, save_fatal = False\<rparr>, ''y'') =
   ((\<lparr>overwrite = False, save_fatal = True\<rparr>, ''y''), None)"
  using saveFile_permission [of "\<lparr>overwrite = False, save_fatal = False\<rparr>"
      "\<lparr>savePath_ok = True, save_exists = False, save_open_ok = True\<rparr>" "[1]" "''y''"]
  by simp

lemma strip_trailing_id: "s = [] \<or> last s \<noteq> c \<Longrightarrow> strip_trailing c s = s"
  by (cases s rule: rev_cases) (auto simp: strip_trailing_def)

lemma strip_trailing_snoc: "strip_trailing c (s @ [c]) = strip_trailing c s"
  by (simp add: strip_trailing_def)

lemma last_part_name: "CHR ''/'' \<notin> set name \<Longrightarrow> last_part (dir @ CHR ''/'' # name) = name"
  using takeWhile_until [of "CHR ''/''" "rev name" "rev dir"] by (simp add: last_part_def)

lemma last_part_bare: "CHR ''/'' \<notin> set name \<Longrightarrow> last_part name = name"
  using takeWhile_none [of "CHR ''/''" "rev name"]
  by (simp only: last_part_def set_rev not_False_eq_True rev_rev_ident)

lemma base_dir_of_name:
  assumes "CHR ''/'' \<notin> set name" "name \<noteq> []" "length name < path_max"
  shows "basename_r path_max name = Some name" "1 < path_max \<Longrightarrow> dirname_r path_max name = Some ''.''"
proof -
  have "last name \<noteq> CHR ''/''" using assms last_in_set by metis
  then have s: "strip_trailing (CHR ''/'') name = name" by (simp add: strip_trailing_id)
  show "basename_r path_max name = Some name"
    using assms by (simp add: basename_r_def Let_def s last_part_bare)
  show "1 < path_max \<Longrightarrow> dirname_r path_max name = Some ''.''"
    using assms by (simp add: dirname_r_def Let_def s last_part_bare)
qed

lemma base_dir_of_path:
  assumes "CHR ''/'' \<notin> set name" "name \<noteq> []" "dir \<noteq> []" "last dir \<noteq> CHR ''/''"
    "length name < path_max" "length dir < path_max"
  shows "basename_r path_max (dir @ ''/'' @ name) = Some name"
    "dirname_r path_max (dir @ ''/'' @ name) = Some dir"
proof -
  have "last name \<noteq> CHR ''/''" using assms last_in_set by metis
  then have s: "strip_trailing (CHR ''/'') (dir @ CHR ''/'' # name) = dir @ CHR ''/'' # name"
    using assms by (intro strip_trailing_id) simp
  show "basename_r path_max (dir @ ''/'' @ name) = Some name"
    using assms by (simp add: basename_r_def Let_def s last_part_name)
  have "take (length (dir @ CHR ''/'' # name) - length name) (dir @ CHR ''/'' # name) = dir @ ''/''"
    by simp
  moreover have "strip_trailing (CHR ''/'') (dir @ ''/'') = dir"
    using assms by (simp add: strip_trailing_snoc strip_trailing_id)
  ultimately show "dirname_r path_max (dir @ ''/'' @ name) = Some dir"
    using assms by (simp add: dirname_r_def Let_def s last_part_name del: length_append)
qed

text \<open>\<open>translatePrelinkedToImmutablePath\<close> turns the bare name of a prelinked kernel into
  the name of the immutable kernel with the same suffix; for a path it appends the new name to
  the directory without a separator, so the result is not in that directory.\<close>

theorem translatePrelinked_result:
  assumes "CHR ''/'' \<notin> set name" "name = prelinked @ suffix" "prelinked \<noteq> []"
    and "dir \<noteq> []" "last dir \<noteq> CHR ''/''" "dir \<noteq> ''.''"
    and "length name < path_max" "length dir < path_max"
    and "length prelinked \<le> imk_len" "length dir + 15 + length suffix < imk_len"
  shows "translatePrelinkedToImmutablePath path_max prelinked name imk_len =
      Some (''immutablekernel'' @ suffix) \<and>
    translatePrelinkedToImmutablePath path_max prelinked (dir @ ''/'' @ name) imk_len =
      Some (dir @ ''immutablekernel'' @ suffix)"
proof -
  have ne: "name \<noteq> []" using assms(2,3) by simp
  have "length dir \<noteq> 0" using assms(4) by simp
  then have pm: "1 < path_max" using assms(8) by linarith
  note bare = base_dir_of_name [OF assms(1) ne(1) assms(7)]
  note path = base_dir_of_path [OF assms(1) ne(1) assms(4,5,7,8)]
  have parts: "\<not> length name < length prelinked" "take (length prelinked) name = prelinked"
    "drop (length prelinked) name = suffix"
    by (simp_all add: assms(2))
  show ?thesis
    using assms(6,9,10) pm parts path
    by (simp add: translatePrelinkedToImmutablePath_def bare strlcpy_def strlcat_def Let_def)
qed

lemma translatePrelinked_result_witness:
  "translatePrelinkedToImmutablePath 64 ''plk'' ''plk.kasan'' 64 = Some (''immutablekernel'' @ ''.kasan'') \<and>
   translatePrelinkedToImmutablePath 64 ''plk'' (''/a'' @ ''/'' @ ''plk.kasan'') 64 =
      Some (''/a'' @ ''immutablekernel'' @ ''.kasan'')"
  by (rule translatePrelinked_result) code_simp+

end
