(* ===== verification/AllowList.thy ===== *)
theory AllowList
  imports ToolsUtil
begin

text \<open>
  src/kext_tools_util.c, the kext allow list and the property lists read beside it: the reader
  and the writer of the "kextallow" file, the migration list of the system policy, and the
  kernel path of the boot caches. Property lists are values of a datatype; a Core Foundation
  call on an object of the wrong class is the result \<open>Crash\<close>.
\<close>

section \<open>Property lists\<close>

datatype cf_type =
  CFStr string | CFArr "cf_type list" | CFDict "(string \<times> cf_type) list" | CFMisc

datatype 'a cf_result = Crash | Ok 'a

text \<open>\<open>CFDictionaryGetValue\<close> on a value that should be a dictionary.\<close>

definition get_key :: "cf_type \<Rightarrow> string \<Rightarrow> cf_type option cf_result" where
  "get_key d k = (case d of CFDict ps \<Rightarrow> Ok (dict_get (=) ps k) | _ \<Rightarrow> Crash)"

section \<open>Bundle identifiers\<close>

definition well_known_bundles :: "string list" where
  "well_known_bundles =
     [''com.ATTO.driver.ATTOExpressSASHBA2'', ''com.Accusys.driver.Acxxx'',
      ''com.softraid.driver.SoftRAID'', ''com.highpoint-tech.kext.HighPointIOP'',
      ''com.CalDigit.driver.HDPro'', ''com.highpoint-tech.kext.HighPointRR'',
      ''com.Areca.ArcMSR'', ''com.ATTO.driver.ATTOCelerityFC8'',
      ''com.promise.driver.stex'', ''com.ATTO.driver.ATTOExpressSASRAID2'']"

definition addWellKnownBundleIDs :: "cf_type list \<Rightarrow> cf_type list" where
  "addWellKnownBundleIDs allowBundleIDs = allowBundleIDs @ map CFStr well_known_bundles"

text \<open>One value of the SignedKernelExtensions dictionary: an array of arrays, of which only
  the first is looked at.\<close>

definition migration_id :: "cf_type \<Rightarrow> cf_type list cf_result" where
  "migration_id v =
     (case v of
        CFArr (arr # _) \<Rightarrow>
          (case arr of
             CFArr (bundleID # _ # _) \<Rightarrow>
               (case bundleID of CFStr _ \<Rightarrow> Ok [bundleID] | _ \<Rightarrow> Ok [])
           | _ \<Rightarrow> Ok [])
      | _ \<Rightarrow> Crash)"

fun migration_ids :: "cf_type list \<Rightarrow> cf_type list cf_result" where
  "migration_ids [] = Ok []"
| "migration_ids (v # vs) =
     (case migration_id v of
        Crash \<Rightarrow> Crash
      | Ok ids \<Rightarrow> (case migration_ids vs of Crash \<Rightarrow> Crash | Ok rest \<Rightarrow> Ok (ids @ rest)))"

text \<open>\<open>readMigrationPlistIntoBundleIDs\<close>: a file that is missing or cannot be read changes
  nothing.\<close>

definition readMigrationPlistIntoBundleIDs :: "cf_type option \<Rightarrow> cf_type list \<Rightarrow> cf_type list cf_result" where
  "readMigrationPlistIntoBundleIDs migrationPlist allowBundleIDs =
     (case migrationPlist of
        None \<Rightarrow> Ok allowBundleIDs
      | Some p \<Rightarrow>
          (case get_key p ''SignedKernelExtensions'' of
             Crash \<Rightarrow> Crash
           | Ok (Some (CFDict kernelExtDict)) \<Rightarrow>
               (case migration_ids (map snd kernelExtDict) of
                  Crash \<Rightarrow> Crash
                | Ok ids \<Rightarrow> Ok (allowBundleIDs @ ids))
           | Ok _ \<Rightarrow> Ok allowBundleIDs))"

section \<open>Reading the allow list\<close>

text \<open>What the function reads: the boot session, the allow list file (\<open>None\<close> when it is
  missing or no property list) and the migration file; and which results the caller wants.\<close>

record allow_env =
  bootsessionuuid :: "string option"
  allow_plist :: "cf_type option"
  migration_plist :: "cf_type option"

record allow_wanted =
  want_uuid :: bool
  want_hashes :: bool
  want_bundles :: bool
  want_exceptions :: bool

record allow_out =
  bootUUIDStr :: "string option"
  allowedHashes :: "cf_type list option"
  allowedBundleIDs :: "cf_type list option"
  exceptionList :: "cf_type list option"

definition no_out :: allow_out where
  "no_out = \<lparr>bootUUIDStr = None, allowedHashes = None, allowedBundleIDs = None, exceptionList = None\<rparr>"

text \<open>The part after the boot session was accepted. An entry CDHashArray that is missing or no
  array is reported and then used all the same.\<close>

definition read_lists :: "allow_env \<Rightarrow> allow_wanted \<Rightarrow> cf_type \<Rightarrow> allow_out \<Rightarrow> (bool \<times> allow_out) cf_result" where
  "read_lists env want allowPlist out =
     (case get_key allowPlist ''CDHashArray'' of
        Ok (Some (CFArr cdhashArrayRef)) \<Rightarrow>
          (let out = (if want_hashes want then out\<lparr>allowedHashes := Some cdhashArrayRef\<rparr> else out);
               allowBundleIDs =
                 (case get_key allowPlist ''NullHashBundles'' of Ok (Some (CFArr a)) \<Rightarrow> a | _ \<Rightarrow> []) in
           case (if allowBundleIDs = []
                 then readMigrationPlistIntoBundleIDs (migration_plist env) allowBundleIDs
                 else Ok allowBundleIDs) of
             Crash \<Rightarrow> Crash
           | Ok ids \<Rightarrow>
               (let ids = addWellKnownBundleIDs ids;
                    out = (if want_bundles want then out\<lparr>allowedBundleIDs := Some ids\<rparr> else out);
                    exceptions =
                      (case get_key allowPlist ''ExceptionListBundles'' of Ok (Some (CFArr a)) \<Rightarrow> a | _ \<Rightarrow> []);
                    out = (if want_exceptions want then out\<lparr>exceptionList := Some exceptions\<rparr> else out)
                in Ok (True, out)))
      | _ \<Rightarrow> Crash)"

definition readKextHashAllowList ::
  "(string \<Rightarrow> 'f) \<Rightarrow> allow_env \<Rightarrow> allow_wanted \<Rightarrow> bool \<Rightarrow> (bool \<times> allow_out) cf_result" where
  "readKextHashAllowList cf env want mustMatchCurrentBoot =
     (case bootsessionuuid env of
        None \<Rightarrow> Ok (False, no_out)
      | Some bootuuid \<Rightarrow>
          (case allow_plist env of
             None \<Rightarrow> Ok (False, no_out)
           | Some allowPlist \<Rightarrow>
               (case get_key allowPlist ''BootSessionUUID'' of
                  Crash \<Rightarrow> Crash
                | Ok (Some (CFStr bootUUIDRef)) \<Rightarrow>
                    (let out = (if want_uuid want then no_out\<lparr>bootUUIDStr := Some bootUUIDRef\<rparr> else no_out) in
                     if mustMatchCurrentBoot \<and> \<not> fold_eq cf bootUUIDRef (take 36 bootuuid)
                     then Ok (False, out)
                     else if \<not> want_hashes want \<and> \<not> want_bundles want then Ok (True, out)
                     else read_lists env want allowPlist out)
                | Ok _ \<Rightarrow> Ok (False, no_out))))"

section \<open>Writing the allow list\<close>

definition validateCDHashDataForWriting ::
  "(string \<Rightarrow> 'f) \<Rightarrow> (bytes \<Rightarrow> cf_type option) \<Rightarrow> string \<Rightarrow> bytes \<Rightarrow> bool cf_result" where
  "validateCDHashDataForWriting cf parse current_bootuuid cdhashData =
     (case parse cdhashData of
        None \<Rightarrow> Ok False
      | Some allowPlist \<Rightarrow>
          (case get_key allowPlist ''BootSessionUUID'' of
             Crash \<Rightarrow> Crash
           | Ok (Some (CFStr bootUUIDRef)) \<Rightarrow>
               if \<not> fold_eq cf bootUUIDRef current_bootuuid then Ok False
               else
                 (case get_key allowPlist ''CDHashArray'' of
                    Ok (Some (CFArr _)) \<Rightarrow> Ok True
                  | _ \<Rightarrow> Ok False)
           | Ok _ \<Rightarrow> Ok False))"

text \<open>The operations on the file system, in order. \<open>Rename\<close> puts the temporary file in the
  place of the allow list.\<close>

datatype allow_op = TmpCreate string | TmpWrite bytes | Rename string | TmpUnlink string

record write_env =
  caches_root :: string
  w_path_max :: nat
  calloc_ok :: bool
  mkstemp :: "string \<Rightarrow> string option"
  fchmod_ok :: bool
  basename_ok :: bool
  dirname_ok :: bool
  open_dir_ok :: bool
  w_result :: "nat \<Rightarrow> nat \<Rightarrow> int"
  rename_ok :: bool

definition tmp_template :: "write_env \<Rightarrow> string \<Rightarrow> string option" where
  "tmp_template env to_fname =
     (let p1 = caches_root env @ ''/.'';
          p2 = p1 @ to_fname;
          p3 = p2 @ ''.XXXXXX'' in
      if length p1 \<ge> w_path_max env then None
      else if length p2 \<ge> w_path_max env then None
      else if length p3 \<ge> w_path_max env then None
      else Some p3)"

text \<open>\<open>writeKextAllowList\<close>: the outer option is the write loop's fuel. The clean-up at the end
  unlinks the temporary file while its descriptor is open; the descriptor is closed before
  the rename.\<close>

definition writeKextAllowList ::
  "(string \<Rightarrow> 'f) \<Rightarrow> (bytes \<Rightarrow> cf_type option) \<Rightarrow> write_env \<Rightarrow> nat \<Rightarrow> string \<Rightarrow> bytes option \<Rightarrow> bool \<Rightarrow>
   string option \<Rightarrow> (exit_status \<times> allow_op list) cf_result option" where
  "writeKextAllowList cf parse env fuel bootuuid cdhashData dir_fd_ok to_fname =
     (case (cdhashData, to_fname) of
        (Some data, Some fname) \<Rightarrow>
          if \<not> dir_fd_ok then Some (Ok (EX_OSERR, []))
          else
            (case validateCDHashDataForWriting cf parse bootuuid data of
               Crash \<Rightarrow> Some Crash
             | Ok False \<Rightarrow> Some (Ok (EX_OSERR, []))
             | Ok True \<Rightarrow>
                 if \<not> calloc_ok env then Some (Ok (EX_OSERR, []))
                 else
                   (case tmp_template env fname of
                      None \<Rightarrow> Some (Ok (EX_OSERR, []))
                    | Some template \<Rightarrow>
                        (case mkstemp env template of
                           None \<Rightarrow> Some (Ok (EX_OSERR, []))
                         | Some tmpPath \<Rightarrow>
                             if \<not> fchmod_ok env \<or> \<not> basename_ok env \<or> \<not> dirname_ok env
                             then Some (Ok (EX_OSERR, [TmpCreate tmpPath, TmpUnlink tmpPath]))
                             else if \<not> open_dir_ok env
                             then Some (Ok (EX_NOPERM, [TmpCreate tmpPath, TmpUnlink tmpPath]))
                             else
                               (case writeToFile (w_result env) fuel data of
                                  None \<Rightarrow> None
                                | Some (result, chunks) \<Rightarrow>
                                    (let ops = TmpCreate tmpPath # map TmpWrite chunks in
                                     if result \<noteq> EX_OK then Some (Ok (result, ops @ [TmpUnlink tmpPath]))
                                     else if \<not> rename_ok env then Some (Ok (EX_OSFILE, ops))
                                     else Some (Ok (EX_OK, ops @ [Rename fname])))))))
      | _ \<Rightarrow> Some (Ok (EX_OSERR, [])))"

section \<open>The kernel of the boot caches\<close>

text \<open>\<open>copyBootCachesDictForURL\<close>: the file is read only if it is trusted, reachable, owned by
  root and not writable by group or others. Owner and mode are those that \<open>statURL\<close> left in a
  buffer on the stack: when \<open>stat\<close> fails \<open>statURL\<close> succeeds all the same, and they are what the
  buffer held before, the parameter \<open>buf\<close>. A file has a path for its URL when that fits.\<close>

definition S_IWGRP :: "16 word" where "S_IWGRP = 0x10"
definition S_IWOTH :: "16 word" where "S_IWOTH = 0x2"

record plist_file =
  pf_trusted :: bool
  pf_reachable :: bool
  pf_path :: "string option"
  pf_plist :: "cf_type option"

definition bootcaches_path :: "string option \<Rightarrow> string" where
  "bootcaches_path volRoot =
     (case volRoot of None \<Rightarrow> [] | Some v \<Rightarrow> v) @ ''/usr/standalone/bootcaches.plist''"

definition copyBootCachesDictForURL ::
  "(string \<Rightarrow> plist_file) \<Rightarrow> (string \<Rightarrow> stat_buf option) \<Rightarrow> stat_buf \<Rightarrow> string option \<Rightarrow> cf_type option" where
  "copyBootCachesDictForURL files stat buf theVolRoot =
     (let f = files (bootcaches_path theVolRoot) in
      if \<not> pf_trusted f then None
      else if \<not> pf_reachable f then None
      else
        (case statURL stat (pf_path f) buf of
           (myExitStatus, myStatBuf) \<Rightarrow>
             if myExitStatus \<noteq> EX_OK then None
             else if st_uid myStatBuf \<noteq> 0 then None
             else if st_mode myStatBuf AND S_IWGRP \<noteq> 0 \<or> st_mode myStatBuf AND S_IWOTH \<noteq> 0 then None
             else pf_plist f))"

text \<open>The dictionary of the newest kernel cache format that has an entry. \<open>None\<close> stands for a
  null pointer.\<close>

fun first_key :: "(string \<times> cf_type) list \<Rightarrow> string list \<Rightarrow> cf_type option" where
  "first_key d [] = None"
| "first_key d (k # ks) = (case dict_get (=) d k of Some v \<Rightarrow> Some v | None \<Rightarrow> first_key d ks)"

definition kernelcache_keys :: "string list" where
  "kernelcache_keys = [''Kernelcache v1.6'', ''Kernelcache v1.5'', ''Kernelcache v1.4'', ''Kernelcache v1.3'']"

definition kernel_path_string :: "cf_type \<Rightarrow> string option cf_result" where
  "kernel_path_string myDict =
     (case get_key myDict ''PostBootPaths'' of
        Crash \<Rightarrow> Crash
      | Ok (Some (CFDict postBootPathsDict)) \<Rightarrow>
          (case first_key postBootPathsDict kernelcache_keys of
             Some (CFDict kernelCacheDict) \<Rightarrow>
               (case dict_get (=) kernelCacheDict ''KernelPath'' of
                  Some (CFStr s) \<Rightarrow> Ok (Some s)
                | _ \<Rightarrow> Ok None)
           | _ \<Rightarrow> Ok None)
      | Ok _ \<Rightarrow> Ok None)"

text \<open>\<open>getKernelPathForURL\<close>: whether the path was found and exists, and the caller's buffer.\<close>

definition getKernelPathForURL ::
  "(string \<Rightarrow> plist_file) \<Rightarrow> (string \<Rightarrow> stat_buf option) \<Rightarrow> stat_buf \<Rightarrow> string option \<Rightarrow> nat option \<Rightarrow>
   (bool \<times> string option) cf_result" where
  "getKernelPathForURL files stat buf theVolRoot theBufferSize =
     (case theBufferSize of
        None \<Rightarrow> Ok (False, None)
      | Some bufsize \<Rightarrow>
          (case copyBootCachesDictForURL files stat buf theVolRoot of
             None \<Rightarrow> Ok (False, Some [])
           | Some myDict \<Rightarrow>
               (case kernel_path_string myDict of
                  Crash \<Rightarrow> Crash
                | Ok None \<Rightarrow> Ok (False, Some [])
                | Ok (Some s) \<Rightarrow>
                    if length s < bufsize then Ok (stat s \<noteq> None, Some s) else Ok (False, Some []))))"

section \<open>Properties\<close>

text \<open>C32. What passes the check before writing is accepted by the reader in the same boot
  session: the reader does not crash, succeeds, and hands out the session and the hashes of
  the list that was written. The allowed bundles are those of the list, or, when it names none,
  those of the migration file, and the well-known ones after them. The migration file may be
  missing; one that is there must not make its own reader crash.\<close>

theorem allow_list_write_read:
  assumes "validateCDHashDataForWriting cf parse (take 36 bootuuid) data = Ok True"
    and "parse data = Some p"
    and "readMigrationPlistIntoBundleIDs migration [] = Ok migrated"
  shows "\<exists>out uuid hashes. readKextHashAllowList cf
      \<lparr>bootsessionuuid = Some bootuuid, allow_plist = Some p, migration_plist = migration\<rparr>
      \<lparr>want_uuid = True, want_hashes = True, want_bundles = True, want_exceptions = we\<rparr> True = Ok (True, out) \<and>
    bootUUIDStr out = Some uuid \<and> cf uuid = cf (take 36 bootuuid) \<and>
    allowedHashes out = Some hashes \<and> get_key p ''CDHashArray'' = Ok (Some (CFArr hashes)) \<and>
    (\<exists>own. allowedBundleIDs out = Some ((if own = [] then migrated else own) @ map CFStr well_known_bundles) \<and>
      (case get_key p ''NullHashBundles'' of Ok (Some (CFArr a)) \<Rightarrow> own = a | _ \<Rightarrow> own = []))"
proof -
  from assms obtain uuid hashes where p: "get_key p ''BootSessionUUID'' = Ok (Some (CFStr uuid))"
    "fold_eq cf uuid (take 36 bootuuid)" "get_key p ''CDHashArray'' = Ok (Some (CFArr hashes))"
    unfolding validateCDHashDataForWriting_def
    by (auto split: cf_result.splits option.splits cf_type.splits if_splits)
  then show ?thesis using assms(3)
    by (auto simp: readKextHashAllowList_def read_lists_def no_out_def Let_def addWellKnownBundleIDs_def fold_eq_def
        split: cf_result.split option.split cf_type.split)
qed

definition demo_list :: cf_type where
  "demo_list = CFDict [(''BootSessionUUID'', CFStr ''B1''), (''CDHashArray'', CFArr [CFStr ''h''])]"

definition demo_migration :: cf_type where
  "demo_migration = CFDict [(''SignedKernelExtensions'',
     CFDict [(''T1'', CFArr [CFArr [CFStr ''com.example.kext'', CFMisc]])])]"

lemma allow_list_write_read_witness:
  "\<exists>out. readKextHashAllowList id
      \<lparr>bootsessionuuid = Some ''B1'', allow_plist = Some demo_list, migration_plist = Some demo_migration\<rparr>
      \<lparr>want_uuid = True, want_hashes = True, want_bundles = True, want_exceptions = True\<rparr> True = Ok (True, out) \<and>
    allowedBundleIDs out = Some (CFStr ''com.example.kext'' # map CFStr well_known_bundles)"
proof -
  have "validateCDHashDataForWriting id (\<lambda>_. Some demo_list) (take 36 ''B1'') [] = Ok True"
    "readMigrationPlistIntoBundleIDs (Some demo_migration) [] = Ok [CFStr ''com.example.kext'']"
    "get_key demo_list ''NullHashBundles'' = Ok None"
    by code_simp+
  from allow_list_write_read [OF this(1) refl this(2), of True] this(3) show ?thesis by auto
qed

lemma writeKextAllowList_cases:
  assumes "writeKextAllowList cf parse env fuel bootuuid (Some data) dir_fd_ok (Some fname) = Some (Ok (status, ops))"
  obtains (early) "status \<noteq> EX_OK" "ops = []"
  | (tmp_only) tmp where "status \<noteq> EX_OK" "ops = [TmpCreate tmp, TmpUnlink tmp]"
  | (written) tmp result chunks where
      "writeToFile (w_result env) fuel data = Some (result, chunks)"
      "validateCDHashDataForWriting cf parse bootuuid data = Ok True"
      "(status, ops) =
        (if result \<noteq> EX_OK then (result, (TmpCreate tmp # map TmpWrite chunks) @ [TmpUnlink tmp])
         else if \<not> rename_ok env then (EX_OSFILE, TmpCreate tmp # map TmpWrite chunks)
         else (EX_OK, (TmpCreate tmp # map TmpWrite chunks) @ [Rename fname]))"
  using assms
  by (auto simp: writeKextAllowList_def Let_def
      split: if_splits option.splits cf_result.splits bool.splits)

text \<open>C31. The allow list is replaced only by a complete and validated one: a rename is the last
  operation of a call that returns success after the whole data was written to the temporary
  file; every other call leaves the list alone, and removes the temporary file it made, except
  when the rename itself fails, which leaves that file behind.\<close>

theorem writeKextAllowList_safe:
  assumes "\<And>off n. w_result env off n \<le> int n"
    and "writeKextAllowList cf parse env fuel bootuuid (Some data) dir_fd_ok (Some fname) = Some (Ok (status, ops))"
  shows "(Rename fname \<in> set ops \<longleftrightarrow> status = EX_OK) \<and>
    (status = EX_OK \<longrightarrow> validateCDHashDataForWriting cf parse bootuuid data = Ok True \<and>
      (\<exists>tmp chunks. ops = TmpCreate tmp # map TmpWrite chunks @ [Rename fname] \<and> concat chunks = data)) \<and>
    (status \<noteq> EX_OK \<longrightarrow> ops = [] \<or>
      (\<exists>tmp chunks. ops = TmpCreate tmp # map TmpWrite chunks @ [TmpUnlink tmp]) \<or>
      status = EX_OSFILE \<and> (\<exists>tmp chunks. ops = TmpCreate tmp # map TmpWrite chunks))"
  using assms(2)
proof (cases rule: writeKextAllowList_cases)
  case early
  then show ?thesis by simp
next
  case (tmp_only tmp)
  then have "ops = TmpCreate tmp # map TmpWrite [] @ [TmpUnlink tmp]" by simp
  with tmp_only show ?thesis by auto
next
  case (written tmp result chunks)
  have "result = EX_OK \<Longrightarrow> concat chunks = data"
    using written(1) write_loop_prefix [of "w_result env" data id fuel 0] assms(1)
    by (fastforce simp: writeToFile_def split: if_splits)
  with written show ?thesis by (auto split: if_splits)
qed

definition demo_write_env :: write_env where
  "demo_write_env = \<lparr>caches_root = ''/c'', w_path_max = 64, calloc_ok = True, mkstemp = Some,
     fchmod_ok = True, basename_ok = True, dirname_ok = True, open_dir_ok = True,
     w_result = (\<lambda>off n. int n), rename_ok = True\<rparr>"

lemma writeKextAllowList_safe_witness:
  "writeKextAllowList id (\<lambda>_. Some demo_list) demo_write_env 3 ''B1'' (Some [1, 2]) True (Some ''kextallow'') =
     Some (Ok (EX_OK, [TmpCreate ''/c/.kextallow.XXXXXX'', TmpWrite [1, 2], Rename ''kextallow''])) \<and>
   (\<exists>tmp chunks. [TmpCreate ''/c/.kextallow.XXXXXX'', TmpWrite [1, 2], Rename ''kextallow''] =
       TmpCreate tmp # map TmpWrite chunks @ [Rename ''kextallow''] \<and> concat chunks = [1, 2])"
proof -
  have run: "writeKextAllowList id (\<lambda>_. Some demo_list) demo_write_env 3 ''B1'' (Some [1, 2]) True (Some ''kextallow'') =
      Some (Ok (EX_OK, [TmpCreate ''/c/.kextallow.XXXXXX'', TmpWrite [1, 2], Rename ''kextallow'']))"
    by code_simp
  have "w_result demo_write_env off n \<le> int n" for off n by (simp add: demo_write_env_def)
  from writeKextAllowList_safe [OF this run] run show ?thesis by blast
qed

lemma first_key_Some:
  "first_key d ks = Some v \<Longrightarrow>
     \<exists>i < length ks. dict_get (=) d (ks ! i) = Some v \<and> (\<forall>j < i. dict_get (=) d (ks ! j) = None)"
proof (induction ks)
  case (Cons k ks)
  show ?case
  proof (cases "dict_get (=) d k")
    case None
    with Cons obtain i where i: "i < length ks" "dict_get (=) d (ks ! i) = Some v"
      "\<forall>j < i. dict_get (=) d (ks ! j) = None" by auto
    show ?thesis
      using None i by (intro exI [of _ "Suc i"]) (auto simp: less_Suc_eq_0_disj)
  next
    case (Some a)
    with Cons.prems show ?thesis by (intro exI [of _ 0]) simp
  qed
qed simp

text \<open>C33. \<open>getKernelPathForURL\<close> returns true only for a file that exists, named by the newest
  kernel cache format that the volume's boot caches mention, and the path fits the caller's
  buffer. The property list is trusted. It belongs to root and cannot be written by others, if
  \<open>stat\<close> worked on it; when that fails these tests are made on what the buffer held before.\<close>

theorem getKernelPathForURL_newest:
  assumes "getKernelPathForURL files stat buf vol (Some n) = Ok (True, Some s)"
  defines "f \<equiv> files (bootcaches_path vol)"
  shows "pf_trusted f \<and> stat s \<noteq> None \<and> length s < n \<and>
    (\<exists>path sb. pf_path f = Some path \<and> sb = (case stat path of Some st \<Rightarrow> st | None \<Rightarrow> buf) \<and>
       st_uid sb = 0 \<and> st_mode sb AND S_IWGRP = 0 \<and> st_mode sb AND S_IWOTH = 0) \<and>
    (\<exists>p pb i kd. pf_plist f = Some p \<and> get_key p ''PostBootPaths'' = Ok (Some (CFDict pb)) \<and>
       i < 4 \<and> dict_get (=) pb (kernelcache_keys ! i) = Some (CFDict kd) \<and>
       (\<forall>j < i. dict_get (=) pb (kernelcache_keys ! j) = None) \<and>
       dict_get (=) kd ''KernelPath'' = Some (CFStr s))"
proof -
  from assms obtain p where pl: "copyBootCachesDictForURL files stat buf vol = Some p"
    and path: "kernel_path_string p = Ok (Some s)" "length s < n" "stat s \<noteq> None"
    by (auto simp: getKernelPathForURL_def split: option.splits cf_result.splits if_splits)
  from pl have f: "pf_trusted f" "pf_plist f = Some p"
    "\<exists>path sb. pf_path f = Some path \<and> sb = (case stat path of Some st \<Rightarrow> st | None \<Rightarrow> buf) \<and>
       st_uid sb = 0 \<and> st_mode sb AND S_IWGRP = 0 \<and> st_mode sb AND S_IWOTH = 0"
    by (auto simp: copyBootCachesDictForURL_def f_def Let_def statURL_def statPath_def
        split: if_splits option.splits prod.splits)
  from path(1) obtain pb kd where "get_key p ''PostBootPaths'' = Ok (Some (CFDict pb))"
    and first: "first_key pb kernelcache_keys = Some (CFDict kd)"
    and "dict_get (=) kd ''KernelPath'' = Some (CFStr s)"
    unfolding kernel_path_string_def
    by (auto split: cf_result.splits option.splits cf_type.splits)
  moreover have "length kernelcache_keys = 4" by (simp add: kernelcache_keys_def)
  ultimately show ?thesis
    using f path(2,3) first_key_Some [OF first] by metis
qed

definition demo_boot_files :: "string \<Rightarrow> plist_file" where
  "demo_boot_files path =
     \<lparr>pf_trusted = True, pf_reachable = True, pf_path = Some path,
      pf_plist = Some (CFDict [(''PostBootPaths'', CFDict [(''Kernelcache v1.4'',
        CFDict [(''KernelPath'', CFStr ''/k'')])])])\<rparr>"

definition demo_stat :: "16 word \<Rightarrow> stat_buf" where
  "demo_stat mode = \<lparr>st_dev = 0, st_uid = 0, st_mode = mode, st_ino = 0, st_size = 0, st_atime = (0, 0), st_mtime = (0, 0)\<rparr>"

lemma getKernelPathForURL_newest_witness:
  "\<exists>p pb i kd. pf_plist (demo_boot_files (bootcaches_path None)) = Some p \<and>
     get_key p ''PostBootPaths'' = Ok (Some (CFDict pb)) \<and>
     i < 4 \<and> dict_get (=) pb (kernelcache_keys ! i) = Some (CFDict kd) \<and>
     (\<forall>j < i. dict_get (=) pb (kernelcache_keys ! j) = None) \<and>
     dict_get (=) kd ''KernelPath'' = Some (CFStr ''/k'')"
proof -
  have "getKernelPathForURL demo_boot_files (\<lambda>_. Some (demo_stat 0x81A4)) (demo_stat 0) None (Some 10) = Ok (True, Some ''/k'')"
    by code_simp
  from getKernelPathForURL_newest [OF this] show ?thesis by blast
qed

text \<open>A property list whose owner was never examined: \<open>stat\<close> failed, and the buffer happened to hold zeros.\<close>

lemma unexamined_plist_used:
  "getKernelPathForURL demo_boot_files (\<lambda>p. if p = ''/k'' then Some (demo_stat 0x81A4) else None) (demo_stat 0) None (Some 10) =
     Ok (True, Some ''/k'')"
  by code_simp

end
