(* ===== verification/QEQuery.thy ===== *)
theory QEQuery
  imports CFModel
begin

text \<open>
  src/QEQuery.c: the query engine of kextfind. A query is a tree of mutable elements that is
  built while the command line is read; open groups are on a stack and at the same time the
  last argument of the group around them. Elements live in a store addressed by numbers, as
  the dictionaries of the C code do, so the sharing between the stack and the tree is explicit.
  Client callbacks are functions over the element they are given, the client's data and the
  error code.
\<close>

section \<open>Elements\<close>

datatype QEQueryError =
    kQEQueryErrorNone | kQEQueryErrorUnspecified | kQEQueryErrorNoMemory
  | kQEQueryErrorGroupNesting | kQEQueryErrorEmptyGroup | kQEQueryErrorSyntax
  | kQEQueryErrorNoParseCallback | kQEQueryErrorNoEvaluationCallback
  | kQEQueryErrorInvalidOrMissingArgument | kQEQueryErrorParseCallbackFailed
  | kQEQueryErrorEvaluationCallbackFailed

text \<open>The objects in an argument array: elements in groups, strings, numbers and booleans in
  the elements of clients.\<close>

datatype arg = ElementRef nat | StringArg string | NumberArg int | BoolArg bool

text \<open>An element dictionary by its three keys; a missing key is \<open>None\<close> or \<open>False\<close>.\<close>

record element =
  Predicate :: string
  Arguments :: "arg list option"
  Negated :: bool

definition kQEQueryPredicateAnd :: string where "kQEQueryPredicateAnd = ''_QEQueryAndGroup''"
definition kQEQueryPredicateOr :: string where "kQEQueryPredicateOr = ''_QEQueryOrGroup''"

definition kQEQueryTokenAnd :: string where "kQEQueryTokenAnd = ''-and''"
definition kQEQueryTokenOr :: string where "kQEQueryTokenOr = ''-or''"
definition kQEQueryTokenNot :: string where "kQEQueryTokenNot = ''-not''"
definition kQEQueryTokenGroupStart :: string where "kQEQueryTokenGroupStart = ''(''"
definition kQEQueryTokenGroupEnd :: string where "kQEQueryTokenGroupEnd = '')''"

definition QEQueryElementGetArguments :: "element \<Rightarrow> arg list" where
  "QEQueryElementGetArguments e = (case Arguments e of None \<Rightarrow> [] | Some args \<Rightarrow> args)"

definition QEQueryElementSetPredicate :: "string \<Rightarrow> element \<Rightarrow> element" where
  "QEQueryElementSetPredicate p e = e\<lparr>Predicate := p\<rparr>"

definition QEQueryElementSetArgumentsArray :: "arg list \<Rightarrow> element \<Rightarrow> element" where
  "QEQueryElementSetArgumentsArray args e = e\<lparr>Arguments := Some args\<rparr>"

definition QEQueryElementAppendArgument :: "arg \<Rightarrow> element \<Rightarrow> element" where
  "QEQueryElementAppendArgument arg e = e\<lparr>Arguments := Some (QEQueryElementGetArguments e @ [arg])\<rparr>"

text \<open>The strings that are NULL are passed over; no argument at all is a failure.\<close>

definition QEQueryElementSetArguments :: "string option list \<Rightarrow> element \<Rightarrow> bool \<times> element" where
  "QEQueryElementSetArguments strs e =
     (if strs = [] then (False, e)
      else (True, fold (\<lambda>s e. case s of None \<Rightarrow> e | Some s \<Rightarrow> QEQueryElementAppendArgument (StringArg s) e)
              strs (e\<lparr>Arguments := Some (QEQueryElementGetArguments e)\<rparr>)))"

definition QEQueryElementGetArgumentAtIndex :: "element \<Rightarrow> nat \<Rightarrow> arg option" where
  "QEQueryElementGetArgumentAtIndex e i =
     (let args = QEQueryElementGetArguments e in if i < length args then Some (args ! i) else None)"

definition QEQueryElementNegate :: "element \<Rightarrow> element" where
  "QEQueryElementNegate e = e\<lparr>Negated := \<not> Negated e\<rparr>"

section \<open>Queries\<close>

text \<open>A parse callback gets the arguments from its keyword on; it returns whether it succeeded
  and how many it used. An evaluation callback gets the element and the object.\<close>

type_synonym 'u parse_callback =
  "string list \<Rightarrow> element \<times> 'u \<times> QEQueryError \<Rightarrow> bool \<times> nat \<times> element \<times> 'u \<times> QEQueryError"

type_synonym ('o, 'u) eval_callback =
  "element \<Rightarrow> 'o \<Rightarrow> 'u \<times> QEQueryError \<Rightarrow> bool \<times> 'u \<times> QEQueryError"

text \<open>\<open>struct __QEQuery\<close>, with the store of elements and the number of the next one;
  \<open>can_alloc\<close> is whether memory can be allocated.\<close>

record ('o, 'u) query =
  elements :: "nat \<Rightarrow> element"
  next_element :: nat
  can_alloc :: bool
  queryRoot :: nat
  queryStack :: "nat list"
  queryStackTop :: nat
  nestingLevel :: u32
  logicOpActive :: bool
  shortCircuitEval :: bool
  lastError :: QEQueryError
  synonyms :: "(string \<times> string) list"
  operators :: "(string \<times> string) list"
  parseCallbacks :: "(string \<times> 'u parse_callback) list"
  evaluationCallbacks :: "(string \<times> ('o, 'u) eval_callback) list"
  userData :: 'u

definition set_element :: "nat \<Rightarrow> element \<Rightarrow> ('o, 'u) query \<Rightarrow> ('o, 'u) query" where
  "set_element a e q = q\<lparr>elements := (elements q)(a := e)\<rparr>"

definition new_element :: "element \<Rightarrow> ('o, 'u) query \<Rightarrow> nat \<times> ('o, 'u) query" where
  "new_element e q =
     (next_element q, q\<lparr>elements := (elements q)(next_element q := e), next_element := next_element q + 1\<rparr>)"

definition set_error :: "QEQueryError \<Rightarrow> ('o, 'u) query \<Rightarrow> ('o, 'u) query" where
  "set_error err q = q\<lparr>lastError := err\<rparr>"

definition group_element :: "bool \<Rightarrow> element" where
  "group_element andFlag =
     \<lparr>Predicate = (if andFlag then kQEQueryPredicateAnd else kQEQueryPredicateOr),
      Arguments = Some [], Negated = False\<rparr>"

definition QEQueryCreateGroup :: "bool \<Rightarrow> ('o, 'u) query \<Rightarrow> nat option \<times> ('o, 'u) query" where
  "QEQueryCreateGroup andFlag q =
     (if \<not> can_alloc q then (None, q)
      else (let (a, q) = new_element (group_element andFlag) q in (Some a, q)))"

definition QEQuerySetOperators ::
  "string option \<Rightarrow> string option \<Rightarrow> string option \<Rightarrow> string option \<Rightarrow> string option \<Rightarrow>
   ('o, 'u) query \<Rightarrow> ('o, 'u) query" where
  "QEQuerySetOperators andP orP notP startP endP q =
     (let put = (\<lambda>tok p ops. dict_set (=) ops tok (case p of None \<Rightarrow> tok | Some s \<Rightarrow> s)) in
      q\<lparr>operators := put kQEQueryTokenGroupEnd endP (put kQEQueryTokenGroupStart startP
          (put kQEQueryTokenNot notP (put kQEQueryTokenOr orP (put kQEQueryTokenAnd andP (operators q)))))\<rparr>)"

definition QEQueryCreate :: "bool \<Rightarrow> 'u \<Rightarrow> ('o, 'u) query option" where
  "QEQueryCreate mem client_data =
     (if \<not> mem then None
      else Some (QEQuerySetOperators None None None None None
        \<lparr>elements = (\<lambda>_. group_element False), next_element = 1, can_alloc = mem, queryRoot = 0,
         queryStack = [0], queryStackTop = 0, nestingLevel = 0, logicOpActive = False,
         shortCircuitEval = True, lastError = kQEQueryErrorNone, synonyms = [], operators = [],
         parseCallbacks = [], evaluationCallbacks = [], userData = client_data\<rparr>))"

definition QEQuerySetParseCallbackForPredicate ::
  "string \<Rightarrow> 'u parse_callback option \<Rightarrow> ('o, 'u) query \<Rightarrow> ('o, 'u) query" where
  "QEQuerySetParseCallbackForPredicate p cb q =
     (case cb of
        Some f \<Rightarrow> q\<lparr>parseCallbacks := dict_set (=) (parseCallbacks q) p f\<rparr>
      | None \<Rightarrow> q\<lparr>parseCallbacks := filter (\<lambda>x. fst x \<noteq> p) (parseCallbacks q)\<rparr>)"

definition QEQuerySetEvaluationCallbackForPredicate ::
  "string \<Rightarrow> ('o, 'u) eval_callback option \<Rightarrow> ('o, 'u) query \<Rightarrow> ('o, 'u) query" where
  "QEQuerySetEvaluationCallbackForPredicate p cb q =
     (case cb of
        Some f \<Rightarrow> q\<lparr>evaluationCallbacks := dict_set (=) (evaluationCallbacks q) p f\<rparr>
      | None \<Rightarrow> q\<lparr>evaluationCallbacks := filter (\<lambda>x. fst x \<noteq> p) (evaluationCallbacks q)\<rparr>)"

definition QEQuerySetSynonymForPredicate ::
  "string \<Rightarrow> string option \<Rightarrow> ('o, 'u) query \<Rightarrow> ('o, 'u) query" where
  "QEQuerySetSynonymForPredicate synonym p q =
     (case p of
        Some p \<Rightarrow> q\<lparr>synonyms := dict_set (=) (synonyms q) synonym p\<rparr>
      | None \<Rightarrow> q\<lparr>synonyms := filter (\<lambda>x. fst x \<noteq> synonym) (synonyms q)\<rparr>)"

definition QEQueryEmptyParseDictionaries :: "('o, 'u) query \<Rightarrow> ('o, 'u) query" where
  "QEQueryEmptyParseDictionaries q = q\<lparr>parseCallbacks := [], evaluationCallbacks := [], synonyms := []\<rparr>"

definition QEQuerySetShortCircuits :: "bool \<Rightarrow> ('o, 'u) query \<Rightarrow> ('o, 'u) query" where
  "QEQuerySetShortCircuits flag q = q\<lparr>shortCircuitEval := flag\<rparr>"

definition QEQueryIsComplete :: "('o, 'u) query \<Rightarrow> bool" where
  "QEQueryIsComplete q \<longleftrightarrow> nestingLevel q = 0 \<and> \<not> logicOpActive q \<and> lastError q = kQEQueryErrorNone"

section \<open>The stack of open groups\<close>

definition top_element :: "('o, 'u) query \<Rightarrow> element" where
  "top_element q = elements q (queryStackTop q)"

definition QEQueryStackTopIsAndGroup :: "('o, 'u) query \<Rightarrow> bool" where
  "QEQueryStackTopIsAndGroup q \<longleftrightarrow> Predicate (top_element q) = kQEQueryPredicateAnd"

definition QEQueryStackTopIsOrGroup :: "('o, 'u) query \<Rightarrow> bool" where
  "QEQueryStackTopIsOrGroup q \<longleftrightarrow> Predicate (top_element q) = kQEQueryPredicateOr"

definition QEQueryStackTopHasCount :: "('o, 'u) query \<Rightarrow> nat \<Rightarrow> bool" where
  "QEQueryStackTopHasCount q count \<longleftrightarrow> length (QEQueryElementGetArguments (top_element q)) = count"

text \<open>\<open>CFArrayAppendValue\<close> on the argument array of the top group.\<close>

definition append_to_top_array :: "nat \<Rightarrow> ('o, 'u) query \<Rightarrow> ('o, 'u) query" where
  "append_to_top_array a q =
     set_element (queryStackTop q) (QEQueryElementAppendArgument (ElementRef a) (top_element q)) q"

definition QEQueryYankElement :: "('o, 'u) query \<Rightarrow> nat option \<times> ('o, 'u) query" where
  "QEQueryYankElement q =
     (case rev (QEQueryElementGetArguments (top_element q)) of
        ElementRef a # rest \<Rightarrow>
          (Some a, set_element (queryStackTop q) ((top_element q)\<lparr>Arguments := Some (rev rest)\<rparr>) q)
      | _ \<Rightarrow> (None, q))"

text \<open>The end of \<open>QEQueryAppendElement\<close>, after its test for an implicit AND. This is all that it
  does on a group without elements, as in \<open>_QEQueryPushGroup\<close>.\<close>

definition append_element_tail :: "nat \<Rightarrow> ('o, 'u) query \<Rightarrow> ('o, 'u) query" where
  "append_element_tail a q = (append_to_top_array a q)\<lparr>logicOpActive := False\<rparr>"

definition QEQueryPushGroup :: "bool \<Rightarrow> bool \<Rightarrow> ('o, 'u) query \<Rightarrow> bool \<times> ('o, 'u) query" where
  "QEQueryPushGroup negated andFlag q =
     (case QEQueryCreateGroup andFlag q of
        (None, q) \<Rightarrow> (False, set_error kQEQueryErrorNoMemory q)
      | (Some newGroup, q) \<Rightarrow>
          (let q = (if negated
                    then set_element newGroup ((elements q newGroup)\<lparr>Negated := True\<rparr>) q else q);
               (yankedElement, q) =
                 (if andFlag then QEQueryYankElement q
                  else (None, q\<lparr>nestingLevel := nestingLevel q + 1\<rparr>));
               q = append_to_top_array newGroup q;
               q = q\<lparr>queryStack := queryStack q @ [newGroup], queryStackTop := newGroup\<rparr>
           in case yankedElement of
                None \<Rightarrow> (True, q)
              | Some a \<Rightarrow> (True, append_element_tail a q)))"

definition QEQueryPopGroup :: "('o, 'u) query \<Rightarrow> bool \<times> ('o, 'u) query" where
  "QEQueryPopGroup q =
     (let stackDepth = length (queryStack q) in
      if stackDepth < 2 then (False, set_error kQEQueryErrorGroupNesting q)
      else (True, q\<lparr>queryStack := take (stackDepth - 1) (queryStack q),
                    queryStackTop := queryStack q ! (stackDepth - 2)\<rparr>))"

definition QEQueryPopGroupAndCoalesce :: "bool \<Rightarrow> ('o, 'u) query \<Rightarrow> bool \<times> ('o, 'u) query" where
  "QEQueryPopGroupAndCoalesce onlyIfCanCoalesce q =
     (let topArgs = QEQueryElementGetArguments (top_element q);
          canCoalesce = (QEQueryStackTopHasCount q 1 \<and> queryStackTop q \<noteq> queryRoot q) in
      if onlyIfCanCoalesce \<and> \<not> canCoalesce then (True, q)
      else
        (case QEQueryPopGroup q of
           (False, q) \<Rightarrow> (False, q)
         | (True, q) \<Rightarrow>
             if \<not> canCoalesce then (True, q)
             else
               (case topArgs ! 0 of
                  ElementRef singleElement \<Rightarrow>
                    (case QEQueryYankElement q of
                       (None, q) \<Rightarrow> (False, set_error kQEQueryErrorGroupNesting q)
                     | (Some groupOfOne, q) \<Rightarrow>
                         (let q = (if Negated (elements q groupOfOne)
                                   then set_element singleElement
                                     (QEQueryElementNegate (elements q singleElement)) q
                                   else q)
                          in (True, append_to_top_array singleElement q)))
                | _ \<Rightarrow> (False, q))))"

section \<open>Building a query\<close>

definition QEQueryStartGroup_internal :: "bool \<Rightarrow> bool \<Rightarrow> ('o, 'u) query \<Rightarrow> bool \<times> ('o, 'u) query" where
  "QEQueryStartGroup_internal andFlag negated q =
     (case (if \<not> logicOpActive q \<and> QEQueryStackTopIsOrGroup q
            then QEQueryPushGroup False True q else (True, q)) of
        (False, q) \<Rightarrow> (False, q)
      | (True, q) \<Rightarrow> QEQueryPushGroup negated andFlag q)"

definition QEQueryStartGroup :: "bool \<Rightarrow> ('o, 'u) query \<Rightarrow> bool \<times> ('o, 'u) query" where
  "QEQueryStartGroup negated q = QEQueryStartGroup_internal False negated q"

definition QEQueryAppendAndOperator :: "('o, 'u) query \<Rightarrow> bool \<times> ('o, 'u) query" where
  "QEQueryAppendAndOperator q =
     (if logicOpActive q then (False, set_error kQEQueryErrorSyntax q)
      else
        (let q = q\<lparr>logicOpActive := True\<rparr> in
         if QEQueryStackTopIsOrGroup q then QEQueryStartGroup_internal True False q else (True, q)))"

definition QEQueryAppendOrOperator :: "('o, 'u) query \<Rightarrow> bool \<times> ('o, 'u) query" where
  "QEQueryAppendOrOperator q =
     (if logicOpActive q then (False, set_error kQEQueryErrorSyntax q)
      else
        (let q = q\<lparr>logicOpActive := True\<rparr> in
         if QEQueryStackTopIsAndGroup q then QEQueryPopGroup q else (True, q)))"

definition QEQueryAppendElement :: "nat \<Rightarrow> ('o, 'u) query \<Rightarrow> bool \<times> ('o, 'u) query" where
  "QEQueryAppendElement a q =
     (case (if \<not> logicOpActive q \<and> \<not> QEQueryStackTopHasCount q 0
            then QEQueryAppendAndOperator q else (True, q)) of
        (False, q) \<Rightarrow> (False, q)
      | (True, q) \<Rightarrow> (True, append_element_tail a q))"

definition QEQueryEndGroup :: "('o, 'u) query \<Rightarrow> bool \<times> ('o, 'u) query" where
  "QEQueryEndGroup q =
     (if QEQueryIsComplete q then (False, set_error kQEQueryErrorGroupNesting q)
      else if QEQueryStackTopHasCount q 0 then (False, set_error kQEQueryErrorEmptyGroup q)
      else
        (case (if QEQueryStackTopIsAndGroup q then QEQueryPopGroup q else (True, q)) of
           (False, q) \<Rightarrow> (False, q)
         | (True, q) \<Rightarrow>
             if QEQueryStackTopIsAndGroup q then (False, set_error kQEQueryErrorGroupNesting q)
             else if \<not> QEQueryStackTopIsOrGroup q then (False, set_error kQEQueryErrorGroupNesting q)
             else
               (case QEQueryPopGroupAndCoalesce False q of
                  (False, q) \<Rightarrow> (False, set_error kQEQueryErrorGroupNesting q)
                | (True, q) \<Rightarrow>
                    (let q = q\<lparr>nestingLevel := nestingLevel q - 1\<rparr> in
                     if QEQueryStackTopIsAndGroup q then
                       (case QEQueryPopGroupAndCoalesce True q of
                          (False, q) \<Rightarrow> (False, set_error kQEQueryErrorGroupNesting q)
                        | (True, q) \<Rightarrow> (True, q))
                     else (True, q)))))"

definition QEQueryCreateElement ::
  "string \<Rightarrow> arg list option \<Rightarrow> bool \<Rightarrow> ('o, 'u) query \<Rightarrow> nat option \<times> ('o, 'u) query" where
  "QEQueryCreateElement p arguments negated q =
     (if \<not> can_alloc q then (None, set_error kQEQueryErrorNoMemory q)
      else
        (let p = (case dict_get (=) (synonyms q) p of Some synonym \<Rightarrow> synonym | None \<Rightarrow> p);
             (a, q) = new_element \<lparr>Predicate = p, Arguments = arguments, Negated = negated\<rparr> q
         in (Some a, q)))"

section \<open>Reading a query from the command line\<close>

definition QEPredicateForString :: "('o, 'u) query \<Rightarrow> string \<Rightarrow> string" where
  "QEPredicateForString q s = (case dict_get (=) (synonyms q) s of Some synonym \<Rightarrow> synonym | None \<Rightarrow> s)"

definition QEQueryOperatorForToken :: "('o, 'u) query \<Rightarrow> string \<Rightarrow> string option" where
  "QEQueryOperatorForToken q token = dict_get (=) (operators q) token"

definition is_operator :: "('o, 'u) query \<Rightarrow> string \<Rightarrow> string \<Rightarrow> bool" where
  "is_operator q token p \<longleftrightarrow> QEQueryOperatorForToken q token = Some p"

text \<open>The last branch of \<open>QEQueryAppendElementFromArgs\<close>: a predicate of the client, with the
  arguments from its keyword on. The number is what the callback used.\<close>

definition append_client_element ::
  "string \<Rightarrow> bool \<Rightarrow> string list \<Rightarrow> ('o, 'u) query \<Rightarrow> bool \<times> nat \<times> ('o, 'u) query" where
  "append_client_element p negated argv q =
     (case QEQueryCreateElement p None negated q of
        (None, q) \<Rightarrow> (False, 0, q)
      | (Some a, q) \<Rightarrow>
          (case dict_get (=) (parseCallbacks q) p of
             None \<Rightarrow> (False, 0, set_error kQEQueryErrorNoParseCallback q)
           | Some parseCallback \<Rightarrow>
               (case parseCallback argv (elements q a, userData q, lastError q) of
                  (ok, used, e, u, err) \<Rightarrow>
                    (let q = (set_element a e q)\<lparr>userData := u, lastError := err\<rparr> in
                     if \<not> ok then (False, 0, q)
                     else (case QEQueryAppendElement a q of (ok, q) \<Rightarrow> (ok, used, q))))))"

text \<open>The branches on the predicate, after a possible NOT; the number is how many arguments
  were used.\<close>

definition append_predicate ::
  "string \<Rightarrow> bool \<Rightarrow> string list \<Rightarrow> ('o, 'u) query \<Rightarrow> bool \<times> nat \<times> ('o, 'u) query" where
  "append_predicate p negated argv q =
     (if is_operator q kQEQueryTokenAnd p then
        (if negated then (False, 0, set_error kQEQueryErrorSyntax q)
         else (case QEQueryAppendAndOperator q of (ok, q) \<Rightarrow> (ok, 1, q)))
      else if is_operator q kQEQueryTokenOr p then
        (if negated then (False, 0, set_error kQEQueryErrorSyntax q)
         else (case QEQueryAppendOrOperator q of (ok, q) \<Rightarrow> (ok, 1, q)))
      else if is_operator q kQEQueryTokenGroupStart p then
        (case QEQueryStartGroup_internal False negated q of (ok, q) \<Rightarrow> (ok, 1, q))
      else if is_operator q kQEQueryTokenGroupEnd p then
        (case QEQueryEndGroup q of (ok, q) \<Rightarrow> (ok, 1, q))
      else append_client_element p negated argv q)"

text \<open>\<open>QEQueryAppendElementFromArgs\<close>: the result, what is added to \<open>num_used\<close>, and the query.
  The list ends where \<open>argv\<close> has its NULL.\<close>

definition QEQueryAppendElementFromArgs ::
  "string list \<Rightarrow> ('o, 'u) query \<Rightarrow> bool \<times> nat \<times> ('o, 'u) query" where
  "QEQueryAppendElementFromArgs argv q =
     (case argv of
        [] \<Rightarrow> (False, 0, q)
      | arg # rest \<Rightarrow>
          if is_operator q kQEQueryTokenNot (QEPredicateForString q arg) then
            (case rest of
               [] \<Rightarrow> (False, 1, set_error kQEQueryErrorSyntax q)
             | arg2 # _ \<Rightarrow>
                 (case append_predicate (QEPredicateForString q arg2) True rest q of
                    (True, n, q) \<Rightarrow> (True, n + 1, q)
                  | (False, n, q) \<Rightarrow> (False, 1, q)))
          else
            (case append_predicate (QEPredicateForString q arg) False argv q of
               (True, n, q) \<Rightarrow> (True, n, q)
             | (False, n, q) \<Rightarrow> (False, 0, q)))"

text \<open>The loops of kextfind: as long as an element can be appended, go on behind what was used;
  the loop for the query ends before the argument \<open>stop\<close>, the loop for the report has no such
  argument. The result is the number of arguments used and the query.\<close>

fun append_all_args ::
  "string option \<Rightarrow> nat \<Rightarrow> string list \<Rightarrow> nat \<Rightarrow> ('o, 'u) query \<Rightarrow> (nat \<times> ('o, 'u) query) option" where
  "append_all_args stop 0 argv used q = None"
| "append_all_args stop (Suc fuel) argv used q =
     (case QEQueryAppendElementFromArgs (drop used argv) q of
        (True, n, q) \<Rightarrow>
          (let used = used + n in
           if used < length argv \<and> stop = Some (argv ! used) then Some (used, q)
           else append_all_args stop fuel argv used q)
      | (False, n, q) \<Rightarrow> Some (used + n, q))"

section \<open>Evaluating a query\<close>

text \<open>The end of \<open>_QEQueryElementEvaluate\<close>: negation, and false upon any error.\<close>

definition finish_eval :: "bool \<Rightarrow> bool \<times> 'u \<times> QEQueryError \<Rightarrow> bool \<times> 'u \<times> QEQueryError" where
  "finish_eval negated r =
     (case r of (result, u, err) \<Rightarrow>
       ((if negated then \<not> result else result) \<and> err = kQEQueryErrorNone, u, err))"

fun element_of :: "arg \<Rightarrow> nat" where
  "element_of (ElementRef a) = a"
| "element_of _ = 0"

type_synonym 'u outcome = "bool \<times> 'u \<times> QEQueryError"

text \<open>The loops over the elements of a group, with the evaluation of one element as \<open>ev\<close>;
  \<open>eval_or\<close> carries the result so far.\<close>

fun eval_and ::
  "('v \<Rightarrow> 'u \<times> QEQueryError \<Rightarrow> 'u outcome option) \<Rightarrow> bool \<Rightarrow> 'v list \<Rightarrow> 'u \<times> QEQueryError \<Rightarrow>
   'u outcome option" where
  "eval_and ev shortCircuit [] st = Some (True, st)"
| "eval_and ev shortCircuit (v # vs) st =
     (case ev v st of
        None \<Rightarrow> None
      | Some (r, st) \<Rightarrow> if \<not> r \<and> shortCircuit then Some (False, st) else eval_and ev shortCircuit vs st)"

fun eval_or ::
  "('v \<Rightarrow> 'u \<times> QEQueryError \<Rightarrow> 'u outcome option) \<Rightarrow> bool \<Rightarrow> 'v list \<Rightarrow> bool \<Rightarrow> 'u \<times> QEQueryError \<Rightarrow>
   'u outcome option" where
  "eval_or ev shortCircuit [] result st = Some (result, st)"
| "eval_or ev shortCircuit (v # vs) result st =
     (case ev v st of
        None \<Rightarrow> None
      | Some (r, st) \<Rightarrow>
          if r \<and> shortCircuit then Some (True, st) else eval_or ev shortCircuit vs (r \<or> result) st)"

text \<open>\<open>_QEQueryElementEvaluate\<close>: the recursion goes over the store, on fuel.\<close>

fun eval_element ::
  "nat \<Rightarrow> ('o, 'u) query \<Rightarrow> nat \<Rightarrow> 'o \<Rightarrow> 'u \<times> QEQueryError \<Rightarrow> 'u outcome option" where
  "eval_element 0 q a obj st = None"
| "eval_element (Suc n) q a obj st =
     (let e = elements q a;
          args = QEQueryElementGetArguments e;
          ev = (\<lambda>v. eval_element n q (element_of v) obj) in
      if Predicate e = kQEQueryPredicateAnd then
        map_option (finish_eval (Negated e)) (eval_and ev (shortCircuitEval q) args st)
      else if Predicate e = kQEQueryPredicateOr then
        map_option (finish_eval (Negated e)) (eval_or ev (shortCircuitEval q) args (args = []) st)
      else
        (case dict_get (=) (evaluationCallbacks q) (Predicate e) of
           Some evalCallback \<Rightarrow> Some (finish_eval (Negated e) (evalCallback e obj st))
         | None \<Rightarrow> Some (finish_eval (Negated e) (False, fst st, kQEQueryErrorNoEvaluationCallback))))"

text \<open>A tree has no more levels than there are elements.\<close>

definition QEQueryEvaluate :: "'o \<Rightarrow> ('o, 'u) query \<Rightarrow> (bool \<times> ('o, 'u) query) option" where
  "QEQueryEvaluate obj q =
     (if \<not> QEQueryIsComplete q \<or> lastError q \<noteq> kQEQueryErrorNone then Some (False, q)
      else map_option (\<lambda>(r, u, err). (r, q\<lparr>userData := u, lastError := err\<rparr>))
        (eval_element (next_element q) q (queryRoot q) obj (userData q, lastError q)))"

end
