(* ===== verification/QEQueryTree.thy ===== *)
theory QEQueryTree
  imports QEQuery
begin

text \<open>
  src/QEQuery.c against an abstract specification. The store of elements holds a tree; the
  stack of open groups is a path in it from the root to the last element. The abstract state
  is that path cut open: the groups that are open, each with the closed elements it has so
  far. Every operation of the engine is simulated by an operation on that state, and the
  evaluation over the store is the evaluation of the tree.
\<close>

section \<open>Trees and their evaluation\<close>

datatype tree = Leaf element | Node bool bool "tree list"

lemma eval_and_cong [fundef_cong]:
  "vs = vs' \<Longrightarrow> (\<And>v st. v \<in> set vs' \<Longrightarrow> ev v st = ev' v st) \<Longrightarrow>
   eval_and ev sc vs st = eval_and ev' sc vs' st"
proof (induction vs' arbitrary: vs st)
  case (Cons v vs')
  have "eval_and ev sc vs' st = eval_and ev' sc vs' st" for st
    by (rule Cons.IH [OF refl]) (simp add: Cons.prems(2))
  then show ?case using Cons.prems by (auto split: option.splits)
qed simp

lemma eval_or_cong [fundef_cong]:
  "vs = vs' \<Longrightarrow> (\<And>v st. v \<in> set vs' \<Longrightarrow> ev v st = ev' v st) \<Longrightarrow>
   eval_or ev sc vs r st = eval_or ev' sc vs' r st"
proof (induction vs' arbitrary: vs r st)
  case (Cons v vs')
  have "eval_or ev sc vs' r st = eval_or ev' sc vs' r st" for r st
    by (rule Cons.IH [OF refl]) (simp add: Cons.prems(2))
  then show ?case using Cons.prems by (auto split: option.splits)
qed simp

definition eval_leaf :: "('o, 'u) query \<Rightarrow> element \<Rightarrow> 'o \<Rightarrow> 'u \<times> QEQueryError \<Rightarrow> 'u outcome" where
  "eval_leaf q e obj st = finish_eval (Negated e)
     (case dict_get (=) (evaluationCallbacks q) (Predicate e) of
        Some evalCallback \<Rightarrow> evalCallback e obj st
      | None \<Rightarrow> (False, fst st, kQEQueryErrorNoEvaluationCallback))"

fun eval_tree :: "('o, 'u) query \<Rightarrow> 'o \<Rightarrow> tree \<Rightarrow> 'u \<times> QEQueryError \<Rightarrow> 'u outcome option" where
  "eval_tree q obj (Leaf e) st = Some (eval_leaf q e obj st)"
| "eval_tree q obj (Node andFlag neg ts) st =
     map_option (finish_eval neg)
       (if andFlag then eval_and (eval_tree q obj) (shortCircuitEval q) ts st
        else eval_or (eval_tree q obj) (shortCircuitEval q) ts (ts = []) st)"

lemma eval_and_total: "\<forall>v \<in> set vs. \<forall>st. \<exists>r. ev v st = Some r \<Longrightarrow> \<exists>r. eval_and ev sc vs st = Some r"
proof (induction vs arbitrary: st)
  case (Cons v vs)
  obtain r st' where "ev v st = Some (r, st')" using Cons.prems by fastforce
  with Cons.IH [of st'] Cons.prems show ?case by auto
qed (simp del: split_paired_Ex)

lemma eval_or_total: "\<forall>v \<in> set vs. \<forall>st. \<exists>r. ev v st = Some r \<Longrightarrow> \<exists>r. eval_or ev sc vs b st = Some r"
proof (induction vs arbitrary: b st)
  case (Cons v vs)
  obtain r st' where "ev v st = Some (r, st')" using Cons.prems by fastforce
  with Cons.IH [of "r \<or> b" st'] Cons.prems show ?case by auto
qed (simp del: split_paired_Ex)

lemma eval_tree_total: "\<exists>r. eval_tree q obj t st = Some r"
proof (induction t arbitrary: st)
  case (Node andFlag neg ts)
  then have "\<forall>v \<in> set ts. \<forall>st. \<exists>r. eval_tree q obj v st = Some r" by blast
  from eval_and_total [OF this, of "shortCircuitEval q" st]
    eval_or_total [OF this, of "shortCircuitEval q" "ts = []" st]
  show ?case by (cases andFlag) (auto simp del: split_paired_Ex)
qed (simp del: split_paired_Ex)

section \<open>Trees in the store\<close>

definition group_predicate :: "bool \<Rightarrow> string" where
  "group_predicate andFlag = (if andFlag then kQEQueryPredicateAnd else kQEQueryPredicateOr)"

lemma group_predicate_simps [simp]:
  "group_predicate b = kQEQueryPredicateAnd \<longleftrightarrow> b" "group_predicate b = kQEQueryPredicateOr \<longleftrightarrow> \<not> b"
  "kQEQueryPredicateOr \<noteq> kQEQueryPredicateAnd" "kQEQueryPredicateAnd \<noteq> kQEQueryPredicateOr"
  by (auto simp: group_predicate_def kQEQueryPredicateAnd_def kQEQueryPredicateOr_def)

definition group_at :: "bool \<Rightarrow> bool \<Rightarrow> nat list \<Rightarrow> element" where
  "group_at andFlag neg cs =
     \<lparr>Predicate = group_predicate andFlag, Arguments = Some (map ElementRef cs), Negated = neg\<rparr>"

lemma map_ElementRef_inj [simp]: "map ElementRef cs = map ElementRef cs' \<longleftrightarrow> cs = cs'"
  by (rule inj_map_eq_map) (simp add: inj_def)

lemma group_at_simps [simp]:
  "Predicate (group_at b n cs) = group_predicate b" "Negated (group_at b n cs) = n"
  "QEQueryElementGetArguments (group_at b n cs) = map ElementRef cs"
  "Arguments (group_at b n cs) = Some (map ElementRef cs)"
  "group_at b n cs = group_at b' n' cs' \<longleftrightarrow> b = b' \<and> n = n' \<and> cs = cs'"
  by (auto simp: group_at_def QEQueryElementGetArguments_def group_predicate_def
      kQEQueryPredicateAnd_def kQEQueryPredicateOr_def split: if_splits)

definition leaf_ok :: "element \<Rightarrow> bool" where
  "leaf_ok e \<longleftrightarrow> Predicate e \<noteq> kQEQueryPredicateAnd \<and> Predicate e \<noteq> kQEQueryPredicateOr"

text \<open>\<open>rep h a t A\<close>: the element at \<open>a\<close> is the tree \<open>t\<close>, which lies in the addresses \<open>A\<close> and
  shares none of them with anything else in it.\<close>

fun rep :: "(nat \<Rightarrow> element) \<Rightarrow> nat \<Rightarrow> tree \<Rightarrow> nat set \<Rightarrow> bool"
  and reps :: "(nat \<Rightarrow> element) \<Rightarrow> nat list \<Rightarrow> tree list \<Rightarrow> nat set \<Rightarrow> bool" where
  "rep h a (Leaf e) A \<longleftrightarrow> h a = e \<and> leaf_ok e \<and> A = {a}"
| "rep h a (Node andFlag neg ts) A \<longleftrightarrow>
     (\<exists>cs B. h a = group_at andFlag neg cs \<and> reps h cs ts B \<and> a \<notin> B \<and> A = insert a B)"
| "reps h [] [] A \<longleftrightarrow> A = {}"
| "reps h (c # cs) (t # ts) A \<longleftrightarrow> (\<exists>B C. rep h c t B \<and> reps h cs ts C \<and> B \<inter> C = {} \<and> A = B \<union> C)"
| "reps h [] (t # ts) A \<longleftrightarrow> False"
| "reps h (c # cs) [] A \<longleftrightarrow> False"

lemma reps_ConsI:
  "rep h c t B \<Longrightarrow> reps h cs ts C \<Longrightarrow> B \<inter> C = {} \<Longrightarrow> A = B \<union> C \<Longrightarrow> reps h (c # cs) (t # ts) A"
  by auto

lemma rep_frame:
  "rep h a t A \<Longrightarrow> (\<And>x. x \<in> A \<Longrightarrow> h' x = h x) \<Longrightarrow> rep h' a t A"
  "reps h cs ts A \<Longrightarrow> (\<And>x. x \<in> A \<Longrightarrow> h' x = h x) \<Longrightarrow> reps h' cs ts A"
proof (induction h a t A and h cs ts A rule: rep_reps.induct)
  case (2 h a andFlag neg ts A)
  then obtain cs B where B: "h a = group_at andFlag neg cs" "reps h cs ts B" "a \<notin> B" "A = insert a B" by auto
  with 2 show ?case by auto
next
  case (4 h c cs t ts A)
  then obtain B C where "rep h c t B" "reps h cs ts C" "B \<inter> C = {}" "A = B \<union> C" by auto
  with 4 show ?case by (intro reps_ConsI [of h' c t B cs ts C]) auto
qed auto

lemma rep_in: "rep h a t A \<Longrightarrow> a \<in> A"
  by (cases t) auto

lemma reps_append:
  "reps h cs ts B \<Longrightarrow> reps h ds us C \<Longrightarrow> B \<inter> C = {} \<Longrightarrow> reps h (cs @ ds) (ts @ us) (B \<union> C)"
proof (induction cs ts arbitrary: B rule: list_induct2')
  case (4 c cs t ts)
  then obtain B1 B2 where B: "rep h c t B1" "reps h cs ts B2" "B1 \<inter> B2 = {}" "B = B1 \<union> B2" by auto
  with 4(1) [of B2] 4(3,4) have "reps h (cs @ ds) (ts @ us) (B2 \<union> C)" by auto
  then have "reps h (c # cs @ ds) (t # ts @ us) (B \<union> C)"
    using B 4(4) by (intro reps_ConsI [OF B(1), of "cs @ ds" "ts @ us" "B2 \<union> C"]) auto
  then show ?case by simp
qed auto

lemma reps_snocD:
  "reps h cs (ts @ [t]) A \<Longrightarrow>
   \<exists>cs' c B C. cs = cs' @ [c] \<and> reps h cs' ts B \<and> rep h c t C \<and> B \<inter> C = {} \<and> A = B \<union> C"
proof (induction ts arbitrary: cs A)
  case Nil
  then obtain c where "cs = [c]" by (cases cs; cases "tl cs") auto
  with Nil show ?case by auto
next
  case (Cons u ts)
  then obtain c ds B C where C: "cs = c # ds" "rep h c u B" "reps h ds (ts @ [t]) C" "B \<inter> C = {}" "A = B \<union> C"
    by (cases cs) auto
  from Cons.IH [OF C(3)] obtain cs' d B' C' where D: "ds = cs' @ [d]" "reps h cs' ts B'" "rep h d t C'"
    "B' \<inter> C' = {}" "C = B' \<union> C'" by blast
  have "reps h (c # cs') (u # ts) (B \<union> B')" using C D by (intro reps_ConsI [OF C(2) D(2)]) auto
  with C D show ?case by (intro exI [of _ "c # cs'"] exI [of _ d] exI [of _ "B \<union> B'"] exI [of _ C']) auto
qed

lemma reps_length: "reps h cs ts A \<Longrightarrow> length cs = length ts"
  by (induction cs ts arbitrary: A rule: list_induct2') auto

lemma rep_finite: "rep h a t A \<Longrightarrow> finite A" "reps h cs ts A \<Longrightarrow> finite A"
  by (induction h a t A and h cs ts A rule: rep_reps.induct) auto

text \<open>Evaluation over the store is evaluation of the tree; the number of addresses of the tree
  is enough fuel.\<close>

lemma reps_and:
  "reps h cs ts A \<Longrightarrow> (\<And>c t B. t \<in> set ts \<Longrightarrow> B \<subseteq> A \<Longrightarrow> rep h c t B \<Longrightarrow> ev (ElementRef c) = ev' t) \<Longrightarrow>
   eval_and ev sc (map ElementRef cs) st = eval_and ev' sc ts st"
proof (induction cs ts arbitrary: A st rule: list_induct2')
  case (4 c cs t ts)
  then obtain B C where BC: "rep h c t B" "reps h cs ts C" "A = B \<union> C" by auto
  have same: "ev (ElementRef x) = ev' u" if "u \<in> set ts" "D \<subseteq> C" "rep h x u D" for x u D
    by (rule 4(3) [of u D x]) (use that BC(3) in auto)
  have "eval_and ev sc (map ElementRef cs) st = eval_and ev' sc ts st" for st
    by (rule 4(1) [OF BC(2)]) (rule same)
  moreover have "ev (ElementRef c) = ev' t" using 4(3) BC by auto
  ultimately show ?case by (auto split: option.splits)
qed auto

lemma reps_or:
  "reps h cs ts A \<Longrightarrow> (\<And>c t B. t \<in> set ts \<Longrightarrow> B \<subseteq> A \<Longrightarrow> rep h c t B \<Longrightarrow> ev (ElementRef c) = ev' t) \<Longrightarrow>
   eval_or ev sc (map ElementRef cs) b st = eval_or ev' sc ts b st"
proof (induction cs ts arbitrary: A b st rule: list_induct2')
  case (4 c cs t ts)
  then obtain B C where BC: "rep h c t B" "reps h cs ts C" "A = B \<union> C" by auto
  have same: "ev (ElementRef x) = ev' u" if "u \<in> set ts" "D \<subseteq> C" "rep h x u D" for x u D
    by (rule 4(3) [of u D x]) (use that BC(3) in auto)
  have "eval_or ev sc (map ElementRef cs) b st = eval_or ev' sc ts b st" for b st
    by (rule 4(1) [OF BC(2)]) (rule same)
  moreover have "ev (ElementRef c) = ev' t" using 4(3) BC by auto
  ultimately show ?case by (auto split: option.splits)
qed auto

lemma eval_element_rep:
  "rep (elements q) a t A \<Longrightarrow> card A \<le> n \<Longrightarrow> eval_element n q a obj = eval_tree q obj t"
proof (induction n arbitrary: a t A)
  case 0
  then show ?case using rep_in [OF 0(1)] rep_finite(1) [OF 0(1)] by auto
next
  case (Suc n)
  show ?case
  proof (cases t)
    case (Leaf e)
    with Suc.prems show ?thesis
      by (auto simp: fun_eq_iff leaf_ok_def eval_leaf_def split: option.splits)
  next
    case (Node andFlag neg ts)
    with Suc.prems(1) obtain cs B where g: "elements q a = group_at andFlag neg cs" "reps (elements q) cs ts B"
      "a \<notin> B" "A = insert a B" by auto
    have fin: "finite B" using rep_finite(2) [OF g(2)] .
    have step: "eval_element n q (element_of (ElementRef c)) obj = eval_tree q obj u"
      if "C \<subseteq> B" "rep (elements q) c u C" for c u C
    proof -
      have "card C \<le> n" using card_mono [OF fin that(1)] Suc.prems(2) g(3,4) fin by simp
      from Suc.IH [OF that(2) this] show ?thesis by simp
    qed
    have A: "eval_and (\<lambda>v. eval_element n q (element_of v) obj) sc (map ElementRef cs) st =
        eval_and (eval_tree q obj) sc ts st" for sc st
      by (rule reps_and [OF g(2)]) (use step in blast)
    have O: "eval_or (\<lambda>v. eval_element n q (element_of v) obj) sc (map ElementRef cs) b st =
        eval_or (eval_tree q obj) sc ts b st" for sc b st
      by (rule reps_or [OF g(2)]) (use step in blast)
    have "cs = [] \<longleftrightarrow> ts = []" using reps_length [OF g(2)] by auto
    then show ?thesis
      by (rule_tac ext) (simp add: Node g(1) A O Let_def)
  qed
qed

end
