(* ===== verification/QEQueryStack.thy ===== *)
theory QEQueryStack
  imports QEQueryTree
begin

text \<open>
  src/QEQuery.c: the stack of open groups as a path in the tree of elements, and what each of
  the engine's internal operations does to it. A frame is an open group with the elements it
  has so far; in the store it has, unless it is the innermost one, one argument more: the
  group that is open inside it.
\<close>

section \<open>The open groups in the store\<close>

datatype frame = Frame (f_and: bool) (f_neg: bool) (f_done: "tree list")

fun stack_rep :: "(nat \<Rightarrow> element) \<Rightarrow> nat list \<Rightarrow> frame list \<Rightarrow> nat list \<Rightarrow> nat set \<Rightarrow> bool" where
  "stack_rep h [] [] ext A \<longleftrightarrow> A = {}"
| "stack_rep h (a # as) (Frame an ng ts # fs) ext A \<longleftrightarrow>
     (\<exists>cs B C. h a = group_at an ng (cs @ ext) \<and> reps h cs ts B \<and> stack_rep h as fs [a] C \<and>
        a \<notin> B \<and> a \<notin> C \<and> B \<inter> C = {} \<and> A = insert a (B \<union> C))"
| "stack_rep h [] (f # fs) ext A \<longleftrightarrow> False"
| "stack_rep h (a # as) [] ext A \<longleftrightarrow> False"

lemma stack_rep_frame:
  "stack_rep h as fs ext A \<Longrightarrow> (\<And>x. x \<in> A \<Longrightarrow> h' x = h x) \<Longrightarrow> stack_rep h' as fs ext A"
proof (induction h as fs ext A rule: stack_rep.induct)
  case (2 h a as an ng ts fs ext A)
  from 2(2) obtain cs B C where D: "h a = group_at an ng (cs @ ext)" "reps h cs ts B" "stack_rep h as fs [a] C"
    "a \<notin> B" "a \<notin> C" "B \<inter> C = {}" "A = insert a (B \<union> C)" by auto
  have "reps h' cs ts B" by (rule rep_frame(2) [OF D(2)]) (simp add: 2(3) D(7))
  moreover have "stack_rep h' as fs [a] C" by (rule 2(1) [OF D(3)]) (simp add: 2(3) D(7))
  moreover have "h' a = group_at an ng (cs @ ext)" using 2(3) [of a] D(1,7) by simp
  ultimately show ?case using D(4-7) by auto
qed auto

lemma stack_rep_in: "stack_rep h as fs ext A \<Longrightarrow> set as \<subseteq> A \<and> length as = length fs \<and> distinct as"
proof (induction h as fs ext A rule: stack_rep.induct)
  case (2 h a as an ng ts fs ext A)
  then obtain cs B C where "stack_rep h as fs [a] C" "a \<notin> C" "A = insert a (B \<union> C)" by auto
  with 2 show ?case by auto
qed auto

text \<open>\<open>qrep q fs cs ts\<close>: the query has the open groups \<open>fs\<close>, and the elements \<open>cs\<close> are trees
  \<open>ts\<close> that are not (or no longer) part of it.\<close>

definition qrep :: "('o, 'u) query \<Rightarrow> frame list \<Rightarrow> nat list \<Rightarrow> tree list \<Rightarrow> bool" where
  "qrep q fs cs ts \<longleftrightarrow>
     (\<exists>A B. stack_rep (elements q) (rev (queryStack q)) fs [] A \<and> reps (elements q) cs ts B \<and>
        A \<inter> B = {} \<and> A \<union> B \<subseteq> {..<next_element q}) \<and>
     fs \<noteq> [] \<and> queryStackTop q = last (queryStack q) \<and> queryRoot q = hd (queryStack q) \<and> can_alloc q"

lemma qrep_fields [simp]:
  "qrep (q\<lparr>logicOpActive := l\<rparr>) fs cs ts = qrep q fs cs ts"
  "qrep (q\<lparr>nestingLevel := n\<rparr>) fs cs ts = qrep q fs cs ts"
  "qrep (q\<lparr>lastError := err\<rparr>) fs cs ts = qrep q fs cs ts"
  "qrep (q\<lparr>userData := u\<rparr>) fs cs ts = qrep q fs cs ts"
  by (simp_all add: qrep_def)

text \<open>The shape of a query with an innermost group.\<close>

lemma qrepE:
  assumes "qrep q (Frame an ng us # fs) cs ts"
  obtains a as ds B C D where "rev (queryStack q) = a # as" "queryStackTop q = a"
    "queryStack q = rev as @ [a]" "queryRoot q = last (a # as)"
    "elements q a = group_at an ng ds" "reps (elements q) ds us B" "stack_rep (elements q) as fs [a] C"
    "reps (elements q) cs ts D" "a \<notin> B" "a \<notin> C" "a \<notin> D" "B \<inter> C = {}" "B \<inter> D = {}" "C \<inter> D = {}"
    "insert a (B \<union> C \<union> D) \<subseteq> {..<next_element q}" "can_alloc q"
proof -
  from assms obtain A D where A: "stack_rep (elements q) (rev (queryStack q)) (Frame an ng us # fs) [] A"
    "reps (elements q) cs ts D" "A \<inter> D = {}" "A \<union> D \<subseteq> {..<next_element q}"
    "queryStackTop q = last (queryStack q)" "queryRoot q = hd (queryStack q)" "can_alloc q"
    unfolding qrep_def by blast
  then obtain a as where as: "rev (queryStack q) = a # as" by (cases "rev (queryStack q)") auto
  then have st: "queryStack q = rev as @ [a]" by (metis rev.simps(2) rev_rev_ident)
  from A(1) as obtain ds B C where "elements q a = group_at an ng ds" "reps (elements q) ds us B"
    "stack_rep (elements q) as fs [a] C" "a \<notin> B" "a \<notin> C" "B \<inter> C = {}" "A = insert a (B \<union> C)" by auto
  moreover have "queryRoot q = last (a # as)" using A(6) st by (cases as rule: rev_cases) auto
  moreover have "queryStackTop q = a" using A(5) st by simp
  ultimately show thesis using A as st by (intro that [of a as ds B C D]) auto
qed

lemma qrepI:
  assumes "rev (queryStack q) = a # as" "queryStackTop q = a" "queryRoot q = last (a # as)"
    "elements q a = group_at an ng ds" "reps (elements q) ds us B" "stack_rep (elements q) as fs [a] C"
    "reps (elements q) cs ts D" "a \<notin> B" "a \<notin> C" "a \<notin> D" "B \<inter> C = {}" "B \<inter> D = {}" "C \<inter> D = {}"
    "insert a (B \<union> C \<union> D) \<subseteq> {..<next_element q}" "can_alloc q"
  shows "qrep q (Frame an ng us # fs) cs ts"
proof -
  have st: "queryStack q = rev as @ [a]" using assms(1) by (metis rev.simps(2) rev_rev_ident)
  have "stack_rep (elements q) (rev (queryStack q)) (Frame an ng us # fs) [] (insert a (B \<union> C))"
    using assms by auto
  moreover have "queryRoot q = hd (queryStack q)" using assms(3) st by (cases as rule: rev_cases) auto
  ultimately show ?thesis
    unfolding qrep_def using assms st by (intro conjI exI [of _ "insert a (B \<union> C)"] exI [of _ D]) auto
qed

section \<open>The internal operations\<close>

lemma top_facts:
  assumes "qrep q (Frame an ng us # fs) cs ts"
  shows "QEQueryStackTopIsAndGroup q \<longleftrightarrow> an" "QEQueryStackTopIsOrGroup q \<longleftrightarrow> \<not> an"
    "QEQueryStackTopHasCount q n \<longleftrightarrow> length us = n"
    "queryStackTop q = queryRoot q \<longleftrightarrow> fs = []" "length (queryStack q) = Suc (length fs)"
  using assms
proof -
  from assms obtain a as ds B C D where Q: "rev (queryStack q) = a # as" "queryStackTop q = a"
    "queryRoot q = last (a # as)" "elements q a = group_at an ng ds" "reps (elements q) ds us B"
    "stack_rep (elements q) as fs [a] C" "a \<notin> C" by (elim qrepE)
  show "QEQueryStackTopIsAndGroup q \<longleftrightarrow> an" "QEQueryStackTopIsOrGroup q \<longleftrightarrow> \<not> an"
    "QEQueryStackTopHasCount q n \<longleftrightarrow> length us = n"
    using Q reps_length [OF Q(5)]
    by (simp_all add: QEQueryStackTopIsAndGroup_def QEQueryStackTopIsOrGroup_def
        QEQueryStackTopHasCount_def top_element_def)
  have len: "length as = length fs" "a \<notin> set as" using stack_rep_in [OF Q(6)] Q(7) by auto
  then show "queryStackTop q = queryRoot q \<longleftrightarrow> fs = []"
    using Q(2,3) by (cases as) auto
  show "length (queryStack q) = Suc (length fs)" using len Q(1) by (metis length_Cons length_rev)
qed

lemma append_to_top_rep:
  assumes "qrep q (Frame an ng us # fs) (c # cs) (t # ts)"
  shows "qrep (append_to_top_array c q) (Frame an ng (us @ [t]) # fs) cs ts"
proof -
  from assms obtain a as ds B C D where Q: "rev (queryStack q) = a # as" "queryStackTop q = a"
    "queryRoot q = last (a # as)" "elements q a = group_at an ng ds" "reps (elements q) ds us B"
    "stack_rep (elements q) as fs [a] C" "reps (elements q) (c # cs) (t # ts) D" "a \<notin> B" "a \<notin> C" "a \<notin> D"
    "B \<inter> C = {}" "B \<inter> D = {}" "C \<inter> D = {}" "insert a (B \<union> C \<union> D) \<subseteq> {..<next_element q}" "can_alloc q"
    by (elim qrepE)
  from Q(7) obtain D1 D2 where D: "rep (elements q) c t D1" "reps (elements q) cs ts D2" "D1 \<inter> D2 = {}" "D = D1 \<union> D2"
    by auto
  let ?q = "append_to_top_array c q"
  have el: "elements ?q = (elements q)(a := group_at an ng (ds @ [c]))"
    by (simp add: append_to_top_array_def set_element_def top_element_def Q(2,4)
        QEQueryElementAppendArgument_def) (simp add: group_at_def)
  have fields: "queryStack ?q = queryStack q" "queryStackTop ?q = queryStackTop q" "queryRoot ?q = queryRoot q"
    "next_element ?q = next_element q" "can_alloc ?q = can_alloc q"
    by (simp_all add: append_to_top_array_def set_element_def)
  have one: "reps (elements q) [c] [t] D1" using D(1) by auto
  have "reps (elements q) (ds @ [c]) (us @ [t]) (B \<union> D1)"
    by (rule reps_append [OF Q(5) one]) (use Q(12) D(4) in auto)
  then have "reps (elements ?q) (ds @ [c]) (us @ [t]) (B \<union> D1)"
    by (rule rep_frame(2)) (use Q(8,10) D(4) in \<open>auto simp: el\<close>)
  moreover have "stack_rep (elements ?q) as fs [a] C"
    by (rule stack_rep_frame [OF Q(6)]) (use Q(9) in \<open>auto simp: el\<close>)
  moreover have "reps (elements ?q) cs ts D2"
    by (rule rep_frame(2) [OF D(2)]) (use Q(10) D(4) in \<open>auto simp: el\<close>)
  ultimately show ?thesis
    using Q D(3,4) by (intro qrepI [where a = a and as = as and ds = "ds @ [c]" and B = "B \<union> D1" and C = C and D = D2])
      (auto simp: fields el)
qed

lemma yank_rep:
  assumes "qrep q (Frame an ng (us @ [t]) # fs) cs ts"
  shows "\<exists>c h. QEQueryYankElement q = (Some c, q\<lparr>elements := h\<rparr>) \<and>
    qrep (q\<lparr>elements := h\<rparr>) (Frame an ng us # fs) (c # cs) (t # ts)"
proof -
  from assms obtain a as ds B C D where Q: "rev (queryStack q) = a # as" "queryStackTop q = a"
    "queryRoot q = last (a # as)" "elements q a = group_at an ng ds" "reps (elements q) ds (us @ [t]) B"
    "stack_rep (elements q) as fs [a] C" "reps (elements q) cs ts D" "a \<notin> B" "a \<notin> C" "a \<notin> D"
    "B \<inter> C = {}" "B \<inter> D = {}" "C \<inter> D = {}" "insert a (B \<union> C \<union> D) \<subseteq> {..<next_element q}" "can_alloc q"
    by (elim qrepE)
  obtain ds' c B1 B2 where S: "ds = ds' @ [c]" "reps (elements q) ds' us B1" "rep (elements q) c t B2"
    "B1 \<inter> B2 = {}" "B = B1 \<union> B2" using reps_snocD [OF Q(5)] by blast
  let ?h = "(elements q)(a := group_at an ng ds')"
  have yank: "QEQueryYankElement q = (Some c, q\<lparr>elements := ?h\<rparr>)"
    by (simp add: QEQueryYankElement_def top_element_def Q(2,4) S(1) set_element_def rev_map)
      (simp add: group_at_def rev_map)
  have 1: "reps ?h ds' us B1" by (rule rep_frame(2) [OF S(2)]) (use Q(8) S(5) in auto)
  have 2: "rep ?h c t B2" by (rule rep_frame(1) [OF S(3)]) (use Q(8) S(5) in auto)
  have 3: "stack_rep ?h as fs [a] C" by (rule stack_rep_frame [OF Q(6)]) (use Q(9) in auto)
  have 4: "reps ?h cs ts D" by (rule rep_frame(2) [OF Q(7)]) (use Q(10) in auto)
  have "reps ?h (c # cs) (t # ts) (B2 \<union> D)" by (rule reps_ConsI [OF 2 4]) (use Q(12) S(5) in auto)
  with 1 3 have "qrep (q\<lparr>elements := ?h\<rparr>) (Frame an ng us # fs) (c # cs) (t # ts)"
    using Q S(4,5)
    by (intro qrepI [where a = a and as = as and ds = ds' and B = B1 and C = C and D = "B2 \<union> D"]) auto
  with yank show ?thesis by blast
qed

lemma yank_empty: "qrep q (Frame an ng [] # fs) cs ts \<Longrightarrow> QEQueryYankElement q = (None, q)"
  by (elim qrepE) (auto simp: QEQueryYankElement_def top_element_def dest: reps_length split: list.splits)

lemma new_element_rep:
  assumes "qrep q fs cs ts"
  shows "leaf_ok e \<Longrightarrow> qrep (snd (new_element e q)) fs (next_element q # cs) (Leaf e # ts)"
    and "qrep (snd (new_element (group_at an ng []) q)) fs (next_element q # cs) (Node an ng [] # ts)"
proof -
  let ?n = "next_element q"
  obtain A B where Q: "stack_rep (elements q) (rev (queryStack q)) fs [] A" "reps (elements q) cs ts B"
    "A \<inter> B = {}" "A \<union> B \<subseteq> {..<?n}" "fs \<noteq> []" "queryStackTop q = last (queryStack q)"
    "queryRoot q = hd (queryStack q)" "can_alloc q"
    using assms unfolding qrep_def by blast
  have fresh: "?n \<notin> A" "?n \<notin> B" using Q(4) by auto
  have fresh_rep: "qrep (snd (new_element e q)) fs (?n # cs) (t # ts)"
    if "rep ((elements q)(?n := e)) ?n t {?n}" for e t
  proof -
    let ?h = "(elements q)(?n := e)"
    have "stack_rep ?h (rev (queryStack q)) fs [] A" by (rule stack_rep_frame [OF Q(1)]) (use fresh in auto)
    moreover have "reps ?h cs ts B" by (rule rep_frame(2) [OF Q(2)]) (use fresh in auto)
    then have "reps ?h (?n # cs) (t # ts) ({?n} \<union> B)" using fresh by (intro reps_ConsI [OF that]) auto
    ultimately show ?thesis
      using Q fresh unfolding qrep_def new_element_def
      by (intro conjI exI [of _ A] exI [of _ "{?n} \<union> B"]) auto
  qed
  show "leaf_ok e \<Longrightarrow> qrep (snd (new_element e q)) fs (?n # cs) (Leaf e # ts)" by (rule fresh_rep) simp
  show "qrep (snd (new_element (group_at an ng []) q)) fs (?n # cs) (Node an ng [] # ts)"
    by (rule fresh_rep) (auto intro!: exI [of _ "[]"])
qed

text \<open>A loose group is opened below the innermost one; the innermost group is closed.\<close>

lemma open_rep:
  assumes "qrep q (Frame bn bg us # fs) (g # cs) (Node an ng ws # ts)"
  shows "qrep ((append_to_top_array g q)\<lparr>queryStack := queryStack q @ [g], queryStackTop := g\<rparr>)
    (Frame an ng ws # Frame bn bg us # fs) cs ts"
proof -
  from assms obtain a as ds B C D where Q: "rev (queryStack q) = a # as" "queryStackTop q = a"
    "queryRoot q = last (a # as)" "elements q a = group_at bn bg ds" "reps (elements q) ds us B"
    "stack_rep (elements q) as fs [a] C" "reps (elements q) (g # cs) (Node an ng ws # ts) D"
    "a \<notin> B" "a \<notin> C" "a \<notin> D"
    "B \<inter> C = {}" "B \<inter> D = {}" "C \<inter> D = {}" "insert a (B \<union> C \<union> D) \<subseteq> {..<next_element q}" "can_alloc q"
    by (elim qrepE)
  from Q(7) obtain D1 D2 where D: "rep (elements q) g (Node an ng ws) D1" "reps (elements q) cs ts D2"
    "D1 \<inter> D2 = {}" "D = D1 \<union> D2" by auto
  from D(1) obtain es E where E: "elements q g = group_at an ng es" "reps (elements q) es ws E" "g \<notin> E" "D1 = insert g E"
    by auto
  let ?q = "append_to_top_array g q"
  let ?h = "(elements q)(a := group_at bn bg (ds @ [g]))"
  have el: "elements ?q = ?h"
    by (simp add: append_to_top_array_def set_element_def top_element_def Q(2,4)
        QEQueryElementAppendArgument_def) (simp add: group_at_def)
  have fields: "queryStack ?q = queryStack q" "queryRoot ?q = queryRoot q"
    "next_element ?q = next_element q" "can_alloc ?q = can_alloc q"
    by (simp_all add: append_to_top_array_def set_element_def)
  have ag: "a \<noteq> g" using Q(10) D(4) E(4) by auto
  have 1: "reps ?h es ws E" by (rule rep_frame(2) [OF E(2)]) (use Q(10) D(4) E(4) in auto)
  have 2: "reps ?h ds us B" by (rule rep_frame(2) [OF Q(5)]) (use Q(8) in auto)
  have 3: "stack_rep ?h as fs [a] C" by (rule stack_rep_frame [OF Q(6)]) (use Q(9) in auto)
  have 4: "reps ?h cs ts D2" by (rule rep_frame(2) [OF D(2)]) (use Q(10) D(4) in auto)
  have "stack_rep ?h (a # as) (Frame bn bg us # fs) [g] (insert a (B \<union> C))"
    using 2 3 Q(8,9,11) by auto
  then show ?thesis
    using Q D(3,4) E 1 4 ag
    by (intro qrepI [where a = g and as = "a # as" and ds = es and B = E and C = "insert a (B \<union> C)" and D = D2])
      (auto simp: fields el)
qed

lemma close_rep:
  assumes "qrep q (Frame an ng ws # Frame bn bg us # fs) cs ts"
  shows "QEQueryPopGroup q = (True, q\<lparr>queryStack := butlast (queryStack q), queryStackTop := last (butlast (queryStack q))\<rparr>)"
    and "qrep (q\<lparr>queryStack := butlast (queryStack q), queryStackTop := last (butlast (queryStack q))\<rparr>)
      (Frame bn bg (us @ [Node an ng ws]) # fs) cs ts"
proof -
  from assms obtain a as ds B C D where Q: "rev (queryStack q) = a # as" "queryStack q = rev as @ [a]"
    "queryRoot q = last (a # as)" "elements q a = group_at an ng ds" "reps (elements q) ds ws B"
    "stack_rep (elements q) as (Frame bn bg us # fs) [a] C" "reps (elements q) cs ts D"
    "a \<notin> B" "a \<notin> C" "a \<notin> D"
    "B \<inter> C = {}" "B \<inter> D = {}" "C \<inter> D = {}" "insert a (B \<union> C \<union> D) \<subseteq> {..<next_element q}" "can_alloc q"
    by (elim qrepE)
  from Q(6) obtain b bs where as: "as = b # bs" by (cases as) auto
  from Q(6) as obtain es E F where E: "elements q b = group_at bn bg (es @ [a])" "reps (elements q) es us E"
    "stack_rep (elements q) bs fs [b] F" "b \<notin> E" "b \<notin> F" "E \<inter> F = {}" "C = insert b (E \<union> F)" by auto
  have len: "length (queryStack q) = Suc (Suc (length bs))" using Q(2) as by simp
  show "QEQueryPopGroup q = (True, q\<lparr>queryStack := butlast (queryStack q), queryStackTop := last (butlast (queryStack q))\<rparr>)"
    using len by (simp add: QEQueryPopGroup_def butlast_conv_take Q(2) as nth_append)
  have "rep (elements q) a (Node an ng ws) (insert a B)" using Q(4,5,8) by auto
  then have "reps (elements q) [a] [Node an ng ws] (insert a B)" by auto
  then have "reps (elements q) (es @ [a]) (us @ [Node an ng ws]) (E \<union> insert a B)"
    using Q(9,11) E(7) by (intro reps_append [OF E(2)]) auto
  then show "qrep (q\<lparr>queryStack := butlast (queryStack q), queryStackTop := last (butlast (queryStack q))\<rparr>)
      (Frame bn bg (us @ [Node an ng ws]) # fs) cs ts"
  proof (intro qrepI [where a = b and as = bs and ds = "es @ [a]" and B = "E \<union> insert a B" and C = F and D = D])
    have st: "butlast (queryStack q) = rev bs @ [b]" using Q(2) as by (simp add: butlast_append)
    show "rev (queryStack (q\<lparr>queryStack := butlast (queryStack q), queryStackTop := last (butlast (queryStack q))\<rparr>)) = b # bs"
      "queryStackTop (q\<lparr>queryStack := butlast (queryStack q), queryStackTop := last (butlast (queryStack q))\<rparr>) = b"
      by (simp_all add: st)
    show "queryRoot (q\<lparr>queryStack := butlast (queryStack q), queryStackTop := last (butlast (queryStack q))\<rparr>) = last (b # bs)"
      using Q(3) as by simp
  qed (use Q(7-15) E(1,3-7) in auto)
qed

text \<open>The elements that are not part of the query.\<close>

lemma loose_drop: "qrep q fs (c # cs) (t # ts) \<Longrightarrow> qrep q fs cs ts"
proof -
  assume "qrep q fs (c # cs) (t # ts)"
  then obtain A B where Q: "stack_rep (elements q) (rev (queryStack q)) fs [] A"
    "reps (elements q) (c # cs) (t # ts) B" "A \<inter> B = {}" "A \<union> B \<subseteq> {..<next_element q}"
    and rest: "fs \<noteq> []" "queryStackTop q = last (queryStack q)" "queryRoot q = hd (queryStack q)" "can_alloc q"
    unfolding qrep_def by blast
  from Q(2) obtain C where "reps (elements q) cs ts C" "C \<subseteq> B" by auto
  with Q rest show "qrep q fs cs ts"
    unfolding qrep_def by (intro conjI exI [of _ A] exI [of _ C]) auto
qed

lemma loose_swap:
  "qrep q fs (c # g # cs) (v # w # ts) \<Longrightarrow> qrep q fs (g # c # cs) (w # v # ts)"
proof -
  assume "qrep q fs (c # g # cs) (v # w # ts)"
  then obtain A B where Q: "stack_rep (elements q) (rev (queryStack q)) fs [] A"
    "reps (elements q) (c # g # cs) (v # w # ts) B" "A \<inter> B = {}" "A \<union> B \<subseteq> {..<next_element q}"
    and rest: "fs \<noteq> []" "queryStackTop q = last (queryStack q)" "queryRoot q = hd (queryStack q)" "can_alloc q"
    unfolding qrep_def by blast
  from Q(2) obtain B1 B2 B3 where B: "rep (elements q) c v B1" "rep (elements q) g w B2" "reps (elements q) cs ts B3"
    "B1 \<inter> (B2 \<union> B3) = {}" "B2 \<inter> B3 = {}" "B = B1 \<union> (B2 \<union> B3)" by auto
  have r: "reps (elements q) (c # cs) (v # ts) (B1 \<union> B3)" by (rule reps_ConsI [OF B(1,3)]) (use B(4-6) in auto)
  have "reps (elements q) (g # c # cs) (w # v # ts) B" by (rule reps_ConsI [OF B(2) r]) (use B(4-6) in auto)
  with Q rest show ?thesis unfolding qrep_def by (intro conjI exI [of _ A] exI [of _ B]) auto
qed

fun negate_tree :: "tree \<Rightarrow> tree" where
  "negate_tree (Leaf e) = Leaf (QEQueryElementNegate e)"
| "negate_tree (Node an ng ts) = Node an (\<not> ng) ts"

lemma rep_negate:
  assumes "rep h c t A"
  shows "rep (h(c := QEQueryElementNegate (h c))) c (negate_tree t) A"
proof (cases t)
  case (Leaf e)
  then show ?thesis using assms by (simp add: leaf_ok_def QEQueryElementNegate_def)
next
  case (Node an ng ts)
  with assms obtain cs B where N: "h c = group_at an ng cs" "reps h cs ts B" "c \<notin> B" "A = insert c B" by auto
  have "reps (h(c := QEQueryElementNegate (h c))) cs ts B" by (rule rep_frame(2) [OF N(2)]) (use N(3) in auto)
  then show ?thesis using N Node by (auto simp: QEQueryElementNegate_def group_at_def)
qed

lemma loose_negate:
  assumes "qrep q fs (c # cs) (t # ts)"
  shows "qrep (set_element c (QEQueryElementNegate (elements q c)) q) fs (c # cs) (negate_tree t # ts)"
proof -
  obtain A B where Q: "stack_rep (elements q) (rev (queryStack q)) fs [] A" "reps (elements q) (c # cs) (t # ts) B"
    "A \<inter> B = {}" "A \<union> B \<subseteq> {..<next_element q}" "fs \<noteq> []" "queryStackTop q = last (queryStack q)"
    "queryRoot q = hd (queryStack q)" "can_alloc q"
    using assms unfolding qrep_def by blast
  from Q(2) obtain B1 B2 where B: "rep (elements q) c t B1" "reps (elements q) cs ts B2" "B1 \<inter> B2 = {}" "B = B1 \<union> B2"
    by auto
  let ?h = "(elements q)(c := QEQueryElementNegate (elements q c))"
  have c: "c \<in> B1" by (rule rep_in [OF B(1)])
  have "stack_rep ?h (rev (queryStack q)) fs [] A" by (rule stack_rep_frame [OF Q(1)]) (use Q(3) B(4) c in auto)
  moreover have "reps ?h cs ts B2" by (rule rep_frame(2) [OF B(2)]) (use B(3) c in auto)
  then have "reps ?h (c # cs) (negate_tree t # ts) B"
    using B by (intro reps_ConsI [OF rep_negate [OF B(1)]]) auto
  ultimately show ?thesis
    using Q unfolding qrep_def set_element_def by (intro conjI exI [of _ A] exI [of _ B]) auto
qed

text \<open>Taking the only element out of a loose group.\<close>

lemma loose_unwrap:
  assumes "qrep q fs (g # cs) (Node an ng [t] # ts)"
  shows "\<exists>c. elements q g = group_at an ng [c] \<and> qrep q fs (c # cs) (t # ts)"
proof -
  obtain A B where Q: "stack_rep (elements q) (rev (queryStack q)) fs [] A"
    "reps (elements q) (g # cs) (Node an ng [t] # ts) B"
    "A \<inter> B = {}" "A \<union> B \<subseteq> {..<next_element q}" "fs \<noteq> []" "queryStackTop q = last (queryStack q)"
    "queryRoot q = hd (queryStack q)" "can_alloc q"
    using assms unfolding qrep_def by blast
  from Q(2) obtain B1 B2 where B: "rep (elements q) g (Node an ng [t]) B1" "reps (elements q) cs ts B2" "B1 \<inter> B2 = {}"
    "B = B1 \<union> B2" by auto
  from B(1) obtain es E where E: "elements q g = group_at an ng es" "reps (elements q) es [t] E" "B1 = insert g E" by auto
  then obtain c where c: "es = [c]" "rep (elements q) c t E" by (cases es; cases "tl es") auto
  have "reps (elements q) (c # cs) (t # ts) (E \<union> B2)" using B E c by (intro reps_ConsI [OF c(2) B(2)]) auto
  then have "qrep q fs (c # cs) (t # ts)"
    using Q B(4) E(3) unfolding qrep_def by (intro conjI exI [of _ A] exI [of _ "E \<union> B2"]) auto
  with E(1) c(1) show ?thesis by blast
qed

end
