(* ===== verification/QEQueryRefine.thy ===== *)
theory QEQueryRefine
  imports QEQueryStack
begin

text \<open>
  src/QEQuery.c: the engine's operations refine operations on the open groups. The abstract
  state is the list of open groups and the flag of a pending operator; its operations are
  functions that fail with an error code exactly when the engine does. A complete query
  evaluates as the tree of its groups.
\<close>

section \<open>Operations on the open groups\<close>

type_synonym zstate = "frame list \<times> bool"

fun z_push_and :: "frame list \<Rightarrow> frame list" where
  "z_push_and (Frame an ng us # fs) =
     (if us = [] then Frame True False [] # Frame an ng [] # fs
      else Frame True False [last us] # Frame an ng (butlast us) # fs)"
| "z_push_and [] = []"

fun z_close :: "frame list \<Rightarrow> frame list" where
  "z_close (Frame an ng ws # Frame bn bg us # fs) = Frame bn bg (us @ [Node an ng ws]) # fs"
| "z_close fs = fs"

definition single :: "bool \<Rightarrow> bool \<Rightarrow> tree list \<Rightarrow> tree" where
  "single an ng ws = (case ws of [w] \<Rightarrow> (if ng then negate_tree w else w) | _ \<Rightarrow> Node an ng ws)"

fun z_coalesce :: "frame list \<Rightarrow> frame list" where
  "z_coalesce (Frame an ng ws # Frame bn bg us # fs) = Frame bn bg (us @ [single an ng ws]) # fs"
| "z_coalesce fs = fs"

fun z_put :: "tree \<Rightarrow> frame list \<Rightarrow> frame list" where
  "z_put t (Frame an ng us # fs) = Frame an ng (us @ [t]) # fs"
| "z_put t [] = []"

definition z_is_and :: "frame list \<Rightarrow> bool" where
  "z_is_and fs = f_and (hd fs)"

definition z_count :: "frame list \<Rightarrow> nat" where
  "z_count fs = length (f_done (hd fs))"

definition levels :: "frame list \<Rightarrow> nat" where
  "levels fs = length (filter (\<lambda>f. \<not> f_and f) fs) - 1"

definition z_and :: "zstate \<Rightarrow> QEQueryError + zstate" where
  "z_and z = (case z of (fs, l) \<Rightarrow>
     if l then Inl kQEQueryErrorSyntax
     else if z_is_and fs then Inr (fs, True)
     else Inr (z_push_and fs, z_count fs = 0))"

definition z_or :: "zstate \<Rightarrow> QEQueryError + zstate" where
  "z_or z = (case z of (fs, l) \<Rightarrow>
     if l then Inl kQEQueryErrorSyntax
     else Inr (if z_is_and fs then z_close fs else fs, True))"

definition z_element :: "tree \<Rightarrow> zstate \<Rightarrow> zstate" where
  "z_element t z = (case z of (fs, l) \<Rightarrow>
     (z_put t (if \<not> l \<and> z_count fs \<noteq> 0 \<and> \<not> z_is_and fs then z_push_and fs else fs), False))"

definition z_start :: "bool \<Rightarrow> zstate \<Rightarrow> zstate" where
  "z_start neg z = (case z of (fs, l) \<Rightarrow>
     (Frame False neg [] # (if \<not> l \<and> \<not> z_is_and fs then z_push_and fs else fs), l))"

definition z_end :: "zstate \<Rightarrow> QEQueryError + zstate" where
  "z_end z = (case z of (fs, l) \<Rightarrow>
     if levels fs = 0 \<and> \<not> l then Inl kQEQueryErrorGroupNesting
     else if z_count fs = 0 then Inl kQEQueryErrorEmptyGroup
     else
       (let fs = (if z_is_and fs then z_close fs else fs) in
        if length fs = 1 then Inl kQEQueryErrorGroupNesting
        else
          (let fs = z_coalesce fs in
           Inr (if z_is_and fs \<and> z_count fs = 1 then z_coalesce fs else fs, l))))"

text \<open>The root is an OR group that is not negated; an AND group is implicit, never negated and
  directly inside an OR group.\<close>

fun wf_frames :: "frame list \<Rightarrow> bool" where
  "wf_frames [] \<longleftrightarrow> False"
| "wf_frames [f] \<longleftrightarrow> \<not> f_and f \<and> \<not> f_neg f"
| "wf_frames (f # g # fs) \<longleftrightarrow> (f_and f \<longrightarrow> \<not> f_and g \<and> \<not> f_neg f) \<and> wf_frames (g # fs)"

lemma wf_and_inner: "wf_frames (Frame True ng ws # fs) \<Longrightarrow> \<exists>bg us gs. fs = Frame False bg us # gs \<and> \<not> ng"
  by (cases fs rule: list.exhaust; cases "hd fs") auto

lemma wf_cases:
  assumes "wf_frames fs"
  obtains (or) ng us gs where "fs = Frame False ng us # gs"
    | (and_or) ws bg us gs where "fs = Frame True False ws # Frame False bg us # gs"
proof -
  obtain an ng us gs where fs: "fs = Frame an ng us # gs"
    using assms by (cases fs; cases "hd fs") auto
  show thesis
  proof (cases an)
    case True
    with wf_and_inner [of ng us gs] assms fs show ?thesis by (auto intro: and_or)
  qed (use fs or in auto)
qed

lemma wf_done: "wf_frames (Frame an ng us # fs) = wf_frames (Frame an ng vs # fs)"
  by (cases fs) auto

lemma wf_tail: "wf_frames (f # g # fs) \<Longrightarrow> wf_frames (g # fs)"
  by simp

lemma levels_simps [simp]:
  "levels (Frame True ng us # fs) = levels fs"
  "fs \<noteq> [] \<Longrightarrow> wf_frames fs \<Longrightarrow> levels (Frame False ng us # fs) = Suc (levels fs)"
  "levels [Frame False ng us] = 0"
proof -
  show "levels (Frame False ng us # fs) = Suc (levels fs)" if "fs \<noteq> []" "wf_frames fs"
    using that(2) by (cases rule: wf_cases) (auto simp: levels_def)
qed (simp_all add: levels_def)

lemma levels_done: "levels (Frame an ng us # fs) = levels (Frame an ng vs # fs)"
  by (simp add: levels_def)

section \<open>The simulation\<close>

definition same_env :: "('o, 'u) query \<Rightarrow> ('o, 'u) query \<Rightarrow> bool" where
  "same_env q q' \<longleftrightarrow> synonyms q' = synonyms q \<and> operators q' = operators q \<and>
     parseCallbacks q' = parseCallbacks q \<and> evaluationCallbacks q' = evaluationCallbacks q \<and>
     shortCircuitEval q' = shortCircuitEval q \<and> userData q' = userData q \<and> lastError q' = lastError q"

lemma same_env_refl [simp]: "same_env q q"
  by (simp add: same_env_def)

lemma same_env_trans [trans]: "same_env p q \<Longrightarrow> same_env q r \<Longrightarrow> same_env p r"
  by (simp add: same_env_def)

text \<open>\<open>sim q z cs ts\<close>: the query is in the abstract state \<open>z\<close>, with loose elements.\<close>

definition sim :: "('o, 'u) query \<Rightarrow> zstate \<Rightarrow> nat list \<Rightarrow> tree list \<Rightarrow> bool" where
  "sim q z cs ts \<longleftrightarrow> qrep q (fst z) cs ts \<and> wf_frames (fst z) \<and> logicOpActive q = snd z \<and>
     nestingLevel q = of_nat (levels (fst z)) \<and> lastError q = kQEQueryErrorNone"

lemma sim_top:
  assumes "sim q (fs, l) cs ts"
  shows "QEQueryStackTopIsAndGroup q \<longleftrightarrow> z_is_and fs" "QEQueryStackTopIsOrGroup q \<longleftrightarrow> \<not> z_is_and fs"
    "QEQueryStackTopHasCount q n \<longleftrightarrow> z_count fs = n" "logicOpActive q \<longleftrightarrow> l"
    "queryStackTop q = queryRoot q \<longleftrightarrow> length fs = 1" "length (queryStack q) = length fs"
proof -
  obtain an ng us gs where fs: "fs = Frame an ng us # gs"
    using assms by (cases fs; cases "hd fs") (auto simp: sim_def)
  with assms have "qrep q (Frame an ng us # gs) cs ts" by (simp add: sim_def)
  from top_facts [OF this] show "QEQueryStackTopIsAndGroup q \<longleftrightarrow> z_is_and fs"
    "QEQueryStackTopIsOrGroup q \<longleftrightarrow> \<not> z_is_and fs" "QEQueryStackTopHasCount q n \<longleftrightarrow> z_count fs = n"
    "queryStackTop q = queryRoot q \<longleftrightarrow> length fs = 1" "length (queryStack q) = length fs"
    by (auto simp: fs z_is_and_def z_count_def)
  show "logicOpActive q \<longleftrightarrow> l" using assms by (simp add: sim_def)
qed

lemma sim_logic [simp]: "sim (q\<lparr>logicOpActive := l'\<rparr>) (fs, l') cs ts \<longleftrightarrow> sim q (fs, logicOpActive q) cs ts"
  by (simp add: sim_def)

lemma append_to_top_fields [simp]:
  "queryStack (append_to_top_array a q) = queryStack q" "logicOpActive (append_to_top_array a q) = logicOpActive q"
  "nestingLevel (append_to_top_array a q) = nestingLevel q" "lastError (append_to_top_array a q) = lastError q"
  "same_env q (append_to_top_array a q)" "next_element (append_to_top_array a q) = next_element q"
  by (simp_all add: append_to_top_array_def set_element_def same_env_def)

lemma group_element_at: "group_element an = group_at an False []"
  by (simp add: group_element_def group_at_def group_predicate_def)

text \<open>The new group of a push, already negated if it is to be.\<close>

lemma push_start:
  assumes "can_alloc q"
  shows "QEQueryPushGroup ng an q =
    (let g = next_element q; q = snd (new_element (group_at an ng []) q);
         (yanked, q) = (if an then QEQueryYankElement q else (None, q\<lparr>nestingLevel := nestingLevel q + 1\<rparr>));
         q = append_to_top_array g q;
         q = q\<lparr>queryStack := queryStack q @ [g], queryStackTop := g\<rparr>
     in case yanked of None \<Rightarrow> (True, q) | Some a \<Rightarrow> (True, append_element_tail a q))"
proof -
  have neg: "(group_at b False [])\<lparr>Negated := True\<rparr> = group_at b True []" for b by (simp add: group_at_def)
  have order: "q\<lparr>next_element := n, elements := h\<rparr> = q\<lparr>elements := h, next_element := n\<rparr>" for n h by simp
  show ?thesis
    using assms
    by (cases ng; cases an)
      (simp_all add: QEQueryPushGroup_def QEQueryCreateGroup_def new_element_def Let_def set_element_def
        group_element_at neg order)
qed

lemma push_or_sim:
  assumes "sim q (fs, l) cs ts"
  shows "\<exists>q'. QEQueryPushGroup ng False q = (True, q') \<and> sim q' (Frame False ng [] # fs, l) cs ts \<and> same_env q q'"
proof -
  obtain bn bg us gs where fs: "fs = Frame bn bg us # gs"
    using assms by (cases fs; cases "hd fs") (auto simp: sim_def)
  let ?g = "next_element q" and ?q1 = "snd (new_element (group_at False ng []) q)"
  let ?q2 = "(append_to_top_array ?g (?q1\<lparr>nestingLevel := nestingLevel q + 1\<rparr>))
    \<lparr>queryStack := queryStack q @ [?g], queryStackTop := ?g\<rparr>"
  have alloc: "can_alloc q" using assms by (simp add: sim_def qrep_def)
  have st: "queryStack ?q1 = queryStack q" "nestingLevel ?q1 = nestingLevel q" by (simp_all add: new_element_def)
  have push: "QEQueryPushGroup ng False q = (True, ?q2)"
    by (simp add: push_start [OF alloc] Let_def st)
  have "qrep (?q1\<lparr>nestingLevel := nestingLevel q + 1\<rparr>) (Frame bn bg us # gs) (?g # cs) (Node False ng [] # ts)"
    using assms new_element_rep(2) [of q "Frame bn bg us # gs" cs ts False ng] by (simp add: sim_def fs)
  from open_rep [OF this] have "qrep ?q2 (Frame False ng [] # fs) cs ts" by (simp add: fs st)
  moreover have "wf_frames (Frame False ng [] # fs)" using assms by (simp add: sim_def fs)
  moreover have "same_env q ?q2" by (simp add: same_env_def append_to_top_array_def set_element_def new_element_def)
  moreover have "logicOpActive ?q2 = l" "lastError ?q2 = kQEQueryErrorNone"
    using assms by (simp_all add: sim_def new_element_def)
  moreover have "nestingLevel ?q2 = of_nat (levels (Frame False ng [] # fs))"
    using assms by (simp add: sim_def fs new_element_def)
  ultimately show ?thesis using push by (auto simp: sim_def)
qed

lemma push_and_sim:
  assumes "sim q (fs, l) cs ts" and or: "\<not> z_is_and fs"
  shows "\<exists>q'. QEQueryPushGroup False True q = (True, q') \<and>
    sim q' (z_push_and fs, z_count fs = 0 \<and> l) cs ts \<and> same_env q q'"
proof -
  obtain bg us gs where fs: "fs = Frame False bg us # gs"
    using assms or by (cases fs; cases "hd fs") (auto simp: sim_def z_is_and_def)
  let ?g = "next_element q" and ?q1 = "snd (new_element (group_at True False []) q)"
  have alloc: "can_alloc q" using assms by (simp add: sim_def qrep_def)
  have wf: "wf_frames fs" and lev: "nestingLevel q = of_nat (levels fs)" "logicOpActive q = l"
    "lastError q = kQEQueryErrorNone" using assms by (auto simp: sim_def)
  have q1: "qrep ?q1 (Frame False bg us # gs) (?g # cs) (Node True False [] # ts)"
    using assms new_element_rep(2) [of q "Frame False bg us # gs" cs ts True False] by (simp add: sim_def fs)
  have st: "queryStack ?q1 = queryStack q" "nestingLevel ?q1 = nestingLevel q" "same_env q ?q1"
    "logicOpActive ?q1 = logicOpActive q" "lastError ?q1 = lastError q"
    by (simp_all add: new_element_def same_env_def)
  show ?thesis
  proof (cases us rule: rev_cases)
    case Nil
    let ?q2 = "(append_to_top_array ?g ?q1)\<lparr>queryStack := queryStack q @ [?g], queryStackTop := ?g\<rparr>"
    have "QEQueryPushGroup False True q = (True, ?q2)"
      using yank_empty [OF q1 [unfolded Nil]] by (simp add: push_start [OF alloc] Let_def st)
    moreover have "qrep ?q2 (z_push_and fs) cs ts" using open_rep [OF q1] by (simp add: fs st Nil)
    moreover have "wf_frames (z_push_and fs)" using wf by (simp add: fs Nil)
    moreover have "levels (z_push_and fs) = levels fs" by (simp add: fs Nil)
    moreover have "same_env q ?q2" using st(3) by (simp add: same_env_def append_to_top_array_def set_element_def)
    ultimately show ?thesis using lev st by (auto simp: sim_def z_count_def fs Nil)
  next
    case (snoc vs v)
    obtain c h where y: "QEQueryYankElement ?q1 = (Some c, ?q1\<lparr>elements := h\<rparr>)"
      "qrep (?q1\<lparr>elements := h\<rparr>) (Frame False bg vs # gs) (c # ?g # cs) (v # Node True False [] # ts)"
      using yank_rep [of ?q1 False bg vs v gs] q1 snoc by blast
    have "qrep (?q1\<lparr>elements := h\<rparr>) (Frame False bg vs # gs) (?g # c # cs) (Node True False [] # v # ts)"
      using y(2) by (rule loose_swap)
    from open_rep [OF this] have o: "qrep ((append_to_top_array ?g (?q1\<lparr>elements := h\<rparr>))
        \<lparr>queryStack := queryStack q @ [?g], queryStackTop := ?g\<rparr>)
      (Frame True False [] # Frame False bg vs # gs) (c # cs) (v # ts)" (is "qrep ?q2 _ _ _")
      by (simp add: st)
    have "QEQueryPushGroup False True q = (True, append_element_tail c ?q2)"
      using y(1) by (simp add: push_start [OF alloc] Let_def st)
    moreover have "qrep (append_element_tail c ?q2) (z_push_and fs) cs ts"
      using append_to_top_rep [OF o] by (simp add: append_element_tail_def fs snoc)
    moreover have "wf_frames (z_push_and fs)" using wf wf_done [of False bg us gs vs] by (simp add: fs snoc)
    moreover have "levels (z_push_and fs) = levels fs" using levels_done [of False bg us gs vs] by (simp add: fs snoc)
    moreover have "same_env q (append_element_tail c ?q2)"
      using st(3) by (simp add: append_element_tail_def same_env_def append_to_top_array_def set_element_def)
    ultimately show ?thesis using lev st by (auto simp: sim_def z_count_def fs snoc append_element_tail_def)
  qed
qed

text \<open>Closing the innermost group, and replacing a group of one by its element.\<close>

lemma two_frames:
  assumes "qrep q (Frame an ng ws # Frame bn bg us # fs) cs ts"
  obtains a b bs ds es where "queryStack q = rev bs @ [b, a]" "queryStackTop q = a" "a \<noteq> b"
    "elements q a = group_at an ng ds" "length ds = length ws" "elements q b = group_at bn bg (es @ [a])"
proof -
  from assms obtain a as ds B C D where Q: "queryStack q = rev as @ [a]" "queryStackTop q = a"
    "elements q a = group_at an ng ds" "reps (elements q) ds ws B"
    "stack_rep (elements q) as (Frame bn bg us # fs) [a] C" "a \<notin> C"
    by (elim qrepE)
  from Q(5) obtain b bs where as: "as = b # bs" by (cases as) auto
  with Q(5) obtain es where "elements q b = group_at bn bg (es @ [a])" "b \<in> C" by auto
  with Q as reps_length [OF Q(4)] show thesis by (intro that [of bs b a ds es]) auto
qed

lemma coalesce_rep:
  assumes Q: "qrep q (Frame an ng ws # Frame bn bg us # fs) [] []" and one: "only \<Longrightarrow> length ws = 1"
  shows "\<exists>q'. QEQueryPopGroupAndCoalesce only q = (True, q') \<and>
    qrep q' (Frame bn bg (us @ [single an ng ws]) # fs) [] [] \<and>
    logicOpActive q' = logicOpActive q \<and> nestingLevel q' = nestingLevel q \<and> same_env q q'"
proof -
  let ?q1 = "q\<lparr>queryStack := butlast (queryStack q), queryStackTop := last (butlast (queryStack q))\<rparr>"
  note pop = close_rep [OF Q]
  note top = top_facts [OF Q]
  show ?thesis
  proof (cases "length ws = 1")
    case False
    then have "single an ng ws = Node an ng ws" by (auto simp: single_def split: list.splits)
    then show ?thesis
      using pop one False top(3) [of 1]
      by (cases only) (simp_all add: QEQueryPopGroupAndCoalesce_def Let_def same_env_def)
  next
    case True
    then obtain w where w: "ws = [w]" by (cases ws; cases "tl ws") auto
    obtain a b bs ds es where S: "queryStack q = rev bs @ [b, a]" "queryStackTop q = a" "a \<noteq> b"
      "elements q a = group_at an ng ds" "length ds = length ws" "elements q b = group_at bn bg (es @ [a])"
      by (rule two_frames [OF Q])
    from S(5) w obtain c where c: "ds = [c]" by (cases ds; cases "tl ds") auto
    have top1: "queryStackTop ?q1 = b" by (simp add: S(1) butlast_append)
    define h where "h = (elements q)(b := group_at bn bg es)"
    define q2 where "q2 = ?q1\<lparr>elements := h\<rparr>"
    have yank: "QEQueryYankElement ?q1 = (Some a, q2)"
      by (simp add: QEQueryYankElement_def top_element_def S(1,6) set_element_def butlast_append h_def q2_def)
        (simp add: group_at_def rev_map)
    with yank_rep [OF pop(2)] have q2: "qrep q2 (Frame bn bg us # fs) [a] [Node an ng [w]]"
      by (auto simp: w)
    have "elements q2 a = group_at an ng [c]" using S(3,4) c by (simp add: q2_def h_def)
    with loose_unwrap [OF q2] have q3: "qrep q2 (Frame bn bg us # fs) [c] [w]" by auto
    have neg: "Negated (elements q2 a) = ng" using S(3,4) by (simp add: q2_def h_def)
    define q4 where "q4 = (if ng then set_element c (QEQueryElementNegate (elements q2 c)) q2 else q2)"
    have q4: "qrep q4 (Frame bn bg us # fs) [c] [if ng then negate_tree w else w]"
      using q3 loose_negate [OF q3] by (simp add: q4_def)
    have "QEQueryPopGroupAndCoalesce only q = (True, append_to_top_array c q4)"
      using pop(1) yank top(3) [of 1] top(4)
      by (simp add: QEQueryPopGroupAndCoalesce_def Let_def w top_element_def S(2,4) c neg q4_def [symmetric])
    moreover have "qrep (append_to_top_array c q4) (Frame bn bg (us @ [single an ng ws]) # fs) [] []"
      using append_to_top_rep [OF q4] by (simp add: single_def w)
    ultimately show ?thesis
      by (simp add: same_env_def q4_def q2_def append_to_top_array_def set_element_def)
  qed
qed

section \<open>Every operation\<close>

datatype query_op = OpElement element | OpAnd | OpOr | OpStart bool | OpEnd

fun run_op :: "query_op \<Rightarrow> ('o, 'u) query \<Rightarrow> bool \<times> ('o, 'u) query" where
  "run_op (OpElement e) q = (let (a, q) = new_element e q in QEQueryAppendElement a q)"
| "run_op OpAnd q = QEQueryAppendAndOperator q"
| "run_op OpOr q = QEQueryAppendOrOperator q"
| "run_op (OpStart negated) q = QEQueryStartGroup negated q"
| "run_op OpEnd q = QEQueryEndGroup q"

fun z_op :: "query_op \<Rightarrow> zstate \<Rightarrow> QEQueryError + zstate" where
  "z_op (OpElement e) z = Inr (z_element (Leaf e) z)"
| "z_op OpAnd z = z_and z"
| "z_op OpOr z = z_or z"
| "z_op (OpStart negated) z = Inr (z_start negated z)"
| "z_op OpEnd z = z_end z"

definition op_ok :: "query_op \<Rightarrow> bool" where
  "op_ok x \<longleftrightarrow> (case x of OpElement e \<Rightarrow> leaf_ok e | _ \<Rightarrow> True)"

text \<open>A step of the engine simulates a step of the abstract state.\<close>

definition simulates :: "bool \<times> ('o, 'u) query \<Rightarrow> ('o, 'u) query \<Rightarrow> QEQueryError + zstate \<Rightarrow> bool" where
  "simulates r q z \<longleftrightarrow> (case z of
     Inr z' \<Rightarrow> fst r \<and> sim (snd r) z' [] [] \<and> same_env q (snd r)
   | Inl err \<Rightarrow> \<not> fst r \<and> lastError (snd r) = err)"

lemma close_sim:
  assumes "sim q (fs, l) cs ts" and "z_is_and fs"
  shows "\<exists>q'. QEQueryPopGroup q = (True, q') \<and> sim q' (z_close fs, l) cs ts \<and> same_env q q'"
proof -
  have wf: "wf_frames fs" using assms by (simp add: sim_def)
  then obtain ws bg us gs where fs: "fs = Frame True False ws # Frame False bg us # gs"
    using assms(2) by (cases rule: wf_cases) (auto simp: z_is_and_def)
  note C = close_rep [of q True False ws False bg us gs cs ts]
  have "wf_frames (z_close fs)" using wf wf_done [of False bg us gs] by (simp add: fs)
  moreover have "levels (z_close fs) = levels fs" unfolding fs z_close.simps levels_simps(1) by (rule levels_done)
  ultimately show ?thesis using C assms(1) by (auto simp: sim_def fs same_env_def)
qed

lemma and_sim:
  assumes "sim q (fs, l) cs ts"
  shows "case z_and (fs, l) of
      Inr z' \<Rightarrow> \<exists>q'. QEQueryAppendAndOperator q = (True, q') \<and> sim q' z' cs ts \<and> same_env q q'
    | Inl err \<Rightarrow> \<exists>q'. QEQueryAppendAndOperator q = (False, q') \<and> lastError q' = err"
proof (cases "l \<or> z_is_and fs")
  case True
  have s: "sim (q\<lparr>logicOpActive := True\<rparr>) (fs, True) cs ts" using assms by (simp add: sim_def)
  with True sim_top [OF assms] sim_top [OF s] show ?thesis
    by (auto simp: z_and_def QEQueryAppendAndOperator_def set_error_def Let_def same_env_def)
next
  case False
  have s: "sim (q\<lparr>logicOpActive := True\<rparr>) (fs, True) cs ts" using assms by (simp add: sim_def)
  obtain q' where q': "QEQueryPushGroup False True (q\<lparr>logicOpActive := True\<rparr>) = (True, q')"
    "sim q' (z_push_and fs, z_count fs = 0 \<and> True) cs ts" "same_env (q\<lparr>logicOpActive := True\<rparr>) q'"
    using push_and_sim [OF s] False by blast
  have "same_env q q'" using q'(3) by (simp add: same_env_def)
  then show ?thesis
    using False sim_top [OF assms] sim_top [OF s] q'(1,2)
    by (simp add: z_and_def QEQueryAppendAndOperator_def QEQueryStartGroup_internal_def Let_def)
qed

lemma element_sim:
  assumes "sim q (fs, l) (a # cs) (t # ts)"
  shows "\<exists>q'. QEQueryAppendElement a q = (True, q') \<and> sim q' (z_element t (fs, l)) cs ts \<and> same_env q q'"
proof -
  have tail: "sim (append_element_tail a p) (z_put t gs, False) cs ts \<and> same_env p (append_element_tail a p)"
    if p: "sim p (gs, m) (a # cs) (t # ts)" for p :: "('a, 'b) query" and gs m
  proof -
    obtain an ng us hs where gs: "gs = Frame an ng us # hs"
      using p by (cases gs; cases "hd gs") (auto simp: sim_def)
    have "wf_frames (z_put t gs)" using p wf_done [of an ng us hs] by (auto simp: sim_def gs)
    moreover have "levels (z_put t gs) = levels gs" unfolding gs z_put.simps by (rule levels_done)
    ultimately show ?thesis
      using p append_to_top_rep [of p an ng us hs a cs t ts]
      by (auto simp: sim_def append_element_tail_def gs same_env_def append_to_top_array_def set_element_def)
  qed
  show ?thesis
  proof (cases "\<not> l \<and> z_count fs \<noteq> 0")
    case True
    with and_sim [OF assms] obtain q1 m where q1: "QEQueryAppendAndOperator q = (True, q1)"
      "sim q1 (if z_is_and fs then fs else z_push_and fs, m) (a # cs) (t # ts)" "same_env q q1"
      by (auto simp: z_and_def split: if_splits)
    from tail [OF q1(2)] q1 True sim_top [OF assms] show ?thesis
      by (auto simp: QEQueryAppendElement_def z_element_def dest: same_env_trans)
  next
    case False
    from tail [OF assms] False sim_top [OF assms] show ?thesis
      by (auto simp: QEQueryAppendElement_def z_element_def)
  qed
qed

lemma start_sim:
  assumes "sim q (fs, l) cs ts"
  shows "\<exists>q'. QEQueryStartGroup_internal False neg q = (True, q') \<and> sim q' (z_start neg (fs, l)) cs ts \<and> same_env q q'"
proof (cases "\<not> l \<and> \<not> z_is_and fs")
  case True
  obtain q1 where q1: "QEQueryPushGroup False True q = (True, q1)" "sim q1 (z_push_and fs, l) cs ts" "same_env q q1"
    using push_and_sim [OF assms] True by auto
  from push_or_sim [OF q1(2), of neg] q1 True sim_top [OF assms] show ?thesis
    by (auto simp: QEQueryStartGroup_internal_def z_start_def dest: same_env_trans)
next
  case False
  from push_or_sim [OF assms, of neg] False sim_top [OF assms] show ?thesis
    by (auto simp: QEQueryStartGroup_internal_def z_start_def)
qed

lemma or_sim:
  assumes "sim q (fs, l) [] []"
  shows "simulates (QEQueryAppendOrOperator q) q (z_or (fs, l))"
proof -
  have s: "sim (q\<lparr>logicOpActive := True\<rparr>) (fs, True) [] []" using assms by (simp add: sim_def)
  show ?thesis
  proof (cases "\<not> l \<and> z_is_and fs")
    case True
    with close_sim [OF s] obtain q' where "QEQueryPopGroup (q\<lparr>logicOpActive := True\<rparr>) = (True, q')"
      "sim q' (z_close fs, True) [] []" "same_env (q\<lparr>logicOpActive := True\<rparr>) q'" by auto
    with True sim_top [OF assms] sim_top [OF s] show ?thesis
      by (auto simp: simulates_def QEQueryAppendOrOperator_def z_or_def Let_def same_env_def)
  next
    case False
    with s sim_top [OF assms] sim_top [OF s] show ?thesis
      by (auto simp: simulates_def QEQueryAppendOrOperator_def z_or_def Let_def same_env_def set_error_def)
  qed
qed

lemma coalesce_sim:
  assumes "sim q (fs, l) [] []" and len: "2 \<le> length fs" and one: "only \<Longrightarrow> z_count fs = 1"
  shows "\<exists>q'. QEQueryPopGroupAndCoalesce only q = (True, q') \<and> qrep q' (z_coalesce fs) [] [] \<and>
    wf_frames (z_coalesce fs) \<and> logicOpActive q' = l \<and> nestingLevel q' = nestingLevel q \<and>
    lastError q' = kQEQueryErrorNone \<and> same_env q q' \<and>
    levels fs = levels (z_coalesce fs) + (if z_is_and fs then 0 else 1)"
proof -
  obtain an ng ws bn bg us gs where fs: "fs = Frame an ng ws # Frame bn bg us # gs"
    using len by (cases fs; cases "hd fs"; cases "tl fs"; cases "hd (tl fs)") auto
  have wf: "wf_frames (Frame bn bg us # gs)" using assms(1) by (simp add: sim_def fs)
  then have "wf_frames (z_coalesce fs)" using wf_done [of bn bg us gs] by (simp add: fs)
  moreover have "levels (z_coalesce fs) = levels (Frame bn bg us # gs)"
    unfolding fs z_coalesce.simps by (rule levels_done)
  with wf have "levels fs = levels (z_coalesce fs) + (if z_is_and fs then 0 else 1)"
    by (cases an) (simp_all add: fs z_is_and_def)
  moreover have "only \<Longrightarrow> length ws = 1" using one by (simp add: fs z_count_def)
  with coalesce_rep [of q an ng ws bn bg us gs only] assms(1)
  obtain q' where "QEQueryPopGroupAndCoalesce only q = (True, q')" "qrep q' (z_coalesce fs) [] []"
    "logicOpActive q' = logicOpActive q" "nestingLevel q' = nestingLevel q" "same_env q q'"
    by (auto simp: sim_def fs)
  ultimately show ?thesis using assms(1) by (auto simp: sim_def same_env_def)
qed

lemma end_inner:
  assumes s: "sim q (fs, l) [] []" and or: "\<not> z_is_and fs" and len: "length fs \<noteq> 1"
    and d: "\<not> QEQueryIsComplete p" "\<not> QEQueryStackTopHasCount p 0"
    and p: "(if QEQueryStackTopIsAndGroup p then QEQueryPopGroup p else (True, p)) = (True, q)"
    and env: "same_env p q"
  shows "simulates (QEQueryEndGroup p) p
    (let fs = z_coalesce fs in Inr (if z_is_and fs \<and> z_count fs = 1 then z_coalesce fs else fs, l))"
proof -
  have ne: "fs \<noteq> []" using s by (auto simp: sim_def)
  then have two: "2 \<le> length fs" using len by (cases fs; cases "tl fs") auto
  obtain q1 where q1: "QEQueryPopGroupAndCoalesce False q = (True, q1)" "qrep q1 (z_coalesce fs) [] []"
    "wf_frames (z_coalesce fs)" "logicOpActive q1 = l" "nestingLevel q1 = nestingLevel q"
    "lastError q1 = kQEQueryErrorNone" "same_env q q1" "levels fs = levels (z_coalesce fs) + 1"
    using coalesce_sim [OF s two, of False] or by auto
  define q2 where "q2 = q1\<lparr>nestingLevel := nestingLevel q1 - 1\<rparr>"
  have "nestingLevel q2 = of_nat (levels (z_coalesce fs))"
    using s q1(5,8) by (simp add: q2_def sim_def)
  then have s2: "sim q2 (z_coalesce fs, l) [] []" using q1(2-4,6) by (simp add: sim_def q2_def)
  have env2: "same_env p q2" using env q1(7) by (simp add: same_env_def q2_def)
  have start: "QEQueryEndGroup p = (if QEQueryStackTopIsAndGroup q2 then
      (case QEQueryPopGroupAndCoalesce True q2 of
         (False, q) \<Rightarrow> (False, set_error kQEQueryErrorGroupNesting q) | (True, q) \<Rightarrow> (True, q)) else (True, q2))"
    using sim_top [OF s] or q1(1) d p by (simp add: QEQueryEndGroup_def q2_def Let_def)
  show ?thesis
  proof (cases "z_is_and (z_coalesce fs) \<and> z_count (z_coalesce fs) = 1")
    case True
    from q1(3) True have "2 \<le> length (z_coalesce fs)"
      by (cases rule: wf_cases) (auto simp: z_is_and_def)
    with coalesce_sim [OF s2, of True] True obtain q3 where q3:
      "QEQueryPopGroupAndCoalesce True q2 = (True, q3)" "sim q3 (z_coalesce (z_coalesce fs), l) [] []" "same_env q2 q3"
      using s2 by (auto simp: sim_def)
    then show ?thesis using True start sim_top [OF s2] same_env_trans [OF env2 q3(3)] by (simp add: simulates_def Let_def)
  next
    case False
    with sim_top [OF s2] have "QEQueryStackTopIsAndGroup q2 \<Longrightarrow> QEQueryPopGroupAndCoalesce True q2 = (True, q2)"
      by (simp add: QEQueryPopGroupAndCoalesce_def Let_def)
    with False start s2 env2 sim_top [OF s2] show ?thesis by (simp add: simulates_def Let_def)
  qed
qed

lemma end_sim:
  assumes s: "sim q (fs, l) [] []" and bound: "levels fs < 2 ^ 32"
  shows "simulates (QEQueryEndGroup q) q (z_end (fs, l))"
proof -
  have "(of_nat (levels fs) :: u32) = 0 \<longleftrightarrow> levels fs = 0"
    using bound by (auto simp: word_of_nat_eq_0_iff dest: nat_dvd_not_less)
  then have complete: "QEQueryIsComplete q \<longleftrightarrow> levels fs = 0 \<and> \<not> l"
    using s by (auto simp: QEQueryIsComplete_def sim_def)
  note top = sim_top [OF s]
  consider (no_group) "levels fs = 0 \<and> \<not> l" | (empty) "\<not> (levels fs = 0 \<and> \<not> l)" "z_count fs = 0"
    | (in_and) "\<not> (levels fs = 0 \<and> \<not> l)" "z_count fs \<noteq> 0" "z_is_and fs"
    | (in_or) "\<not> (levels fs = 0 \<and> \<not> l)" "z_count fs \<noteq> 0" "\<not> z_is_and fs" by blast
  then show ?thesis
  proof cases
    case in_and
    obtain q1 where q1: "QEQueryPopGroup q = (True, q1)" "sim q1 (z_close fs, l) [] []" "same_env q q1"
      using close_sim [OF s in_and(3)] by blast
    have "wf_frames fs" using s by (simp add: sim_def)
    then have or: "\<not> z_is_and (z_close fs)" using in_and(3) by (cases rule: wf_cases) (auto simp: z_is_and_def)
    have p: "(if QEQueryStackTopIsAndGroup q then QEQueryPopGroup q else (True, q)) = (True, q1)"
      using in_and(3) top q1 by simp
    show ?thesis
    proof (cases "length (z_close fs) = 1")
      case True
      with or sim_top [OF q1(2)] p in_and complete top show ?thesis
        by (simp add: simulates_def z_end_def QEQueryEndGroup_def QEQueryPopGroupAndCoalesce_def QEQueryPopGroup_def
            Let_def set_error_def)
    next
      case False
      with end_inner [OF q1(2) or False _ _ p q1(3)] in_and complete top show ?thesis
        by (auto simp: z_end_def Let_def)
    qed
  next
    case in_or
    have p: "(if QEQueryStackTopIsAndGroup q then QEQueryPopGroup q else (True, q)) = (True, q)"
      using in_or(3) top by simp
    show ?thesis
    proof (cases "length fs = 1")
      case True
      with in_or p complete top show ?thesis
        by (simp add: simulates_def z_end_def QEQueryEndGroup_def QEQueryPopGroupAndCoalesce_def QEQueryPopGroup_def
            Let_def set_error_def)
    next
      case False
      with end_inner [OF s in_or(3) False _ _ p same_env_refl] in_or complete top show ?thesis
        by (auto simp: z_end_def Let_def)
    qed
  qed (use complete top in \<open>auto simp: simulates_def z_end_def QEQueryEndGroup_def set_error_def\<close>)
qed

text \<open>One operation, and a sequence of operations up to the first that fails.\<close>

lemma step_sim:
  assumes s: "sim q z [] []" and ok: "op_ok x" and bound: "levels (fst z) < 2 ^ 32"
  shows "simulates (run_op x q) q (z_op x z)"
proof -
  obtain fs l where z: "z = (fs, l)" by (cases z)
  show ?thesis
  proof (cases x)
    case (OpElement e)
    have "sim (snd (new_element e q)) (fs, l) [next_element q] [Leaf e]" "same_env q (snd (new_element e q))"
      using s new_element_rep(1) [of q fs "[]" "[]" e] ok OpElement
      by (auto simp: sim_def z op_ok_def new_element_def same_env_def)
    with element_sim [OF this(1)] show ?thesis
      by (auto simp: simulates_def OpElement z new_element_def intro: same_env_trans)
  next
    case OpAnd
    with and_sim [of q fs l "[]" "[]"] s show ?thesis by (auto simp: z simulates_def split: sum.splits)
  next
    case OpOr
    with or_sim s show ?thesis by (simp add: z)
  next
    case (OpStart neg)
    with start_sim [of q fs l "[]" "[]" neg] s show ?thesis by (auto simp: z simulates_def QEQueryStartGroup_def)
  next
    case OpEnd
    with end_sim s bound show ?thesis by (simp add: z)
  qed
qed

fun run_ops :: "query_op list \<Rightarrow> ('o, 'u) query \<Rightarrow> bool \<times> ('o, 'u) query" where
  "run_ops [] q = (True, q)"
| "run_ops (x # xs) q = (case run_op x q of (True, q) \<Rightarrow> run_ops xs q | (False, q) \<Rightarrow> (False, q))"

fun z_ops :: "query_op list \<Rightarrow> zstate \<Rightarrow> QEQueryError + zstate" where
  "z_ops [] z = Inr z"
| "z_ops (x # xs) z = (case z_op x z of Inr z \<Rightarrow> z_ops xs z | Inl err \<Rightarrow> Inl err)"

definition or_groups :: "frame list \<Rightarrow> nat" where
  "or_groups fs = length (filter (\<lambda>f. \<not> f_and f) fs)"

lemma or_groups_le:
  "or_groups (z_push_and fs) = or_groups fs" "or_groups (z_put t fs) = or_groups fs"
  "or_groups (z_close fs) \<le> or_groups fs" "or_groups (z_coalesce fs) \<le> or_groups fs"
  "or_groups (z_coalesce (z_coalesce fs)) \<le> or_groups fs"
  "or_groups (z_coalesce (z_close fs)) \<le> or_groups fs"
  "or_groups (z_coalesce (z_coalesce (z_close fs))) \<le> or_groups fs"
  "or_groups (Frame False neg [] # fs) = Suc (or_groups fs)"
proof -
  have c: "or_groups (z_coalesce fs) \<le> or_groups fs" for fs
    by (cases fs rule: z_coalesce.cases) (simp_all add: or_groups_def)
  have d: "or_groups (z_close fs) \<le> or_groups fs"
    by (cases fs rule: z_close.cases) (simp_all add: or_groups_def)
  show "or_groups (z_push_and fs) = or_groups fs" "or_groups (z_put t fs) = or_groups fs"
    by (cases fs; cases "hd fs"; simp add: or_groups_def)+
  show "or_groups (Frame False neg [] # fs) = Suc (or_groups fs)" by (simp add: or_groups_def)
  show "or_groups (z_close fs) \<le> or_groups fs" "or_groups (z_coalesce fs) \<le> or_groups fs"
    "or_groups (z_coalesce (z_coalesce fs)) \<le> or_groups fs"
    "or_groups (z_coalesce (z_close fs)) \<le> or_groups fs"
    "or_groups (z_coalesce (z_coalesce (z_close fs))) \<le> or_groups fs"
    using c d by (meson le_trans)+
qed

lemma levels_op: "z_op x (fs, l) = Inr z \<Longrightarrow> levels (fst z) \<le> Suc (levels fs)"
proof -
  assume z: "z_op x (fs, l) = Inr z"
  have "or_groups (fst z) \<le> Suc (or_groups fs)"
    using z by (cases x)
      (auto simp: z_and_def z_or_def z_element_def z_start_def z_end_def Let_def or_groups_le le_SucI split: if_splits)
  then show ?thesis by (auto simp: levels_def or_groups_def)
qed

lemma levels_ops: "z_ops xs z = Inr z' \<Longrightarrow> levels (fst z') \<le> levels (fst z) + length xs"
proof (induction xs arbitrary: z)
  case (Cons x xs)
  then obtain z1 where z1: "z_op x z = Inr z1" "z_ops xs z1 = Inr z'" by (auto split: sum.splits)
  with levels_op [of x "fst z" "snd z"] Cons.IH [OF z1(2)] show ?case by simp
qed simp

lemma ops_sim:
  assumes "sim q z [] []" and "\<forall>x \<in> set xs. op_ok x" and "levels (fst z) + length xs < 2 ^ 32"
  shows "simulates (run_ops xs q) q (z_ops xs z)"
  using assms
proof (induction xs arbitrary: q z)
  case (Cons x xs)
  have step: "simulates (run_op x q) q (z_op x z)" using Cons.prems by (intro step_sim) auto
  show ?case
  proof (cases "z_op x z")
    case (Inl err)
    then show ?thesis using step by (cases "run_op x q") (auto simp: simulates_def split: bool.splits)
  next
    case (Inr z')
    obtain q' where q': "run_op x q = (True, q')" "sim q' z' [] []" "same_env q q'"
      using step Inr by (cases "run_op x q") (auto simp: simulates_def)
    have "levels (fst z') \<le> Suc (levels (fst z))" using levels_op [of x "fst z" "snd z"] Inr by simp
    then have "simulates (run_ops xs q') q' (z_ops xs z')" using Cons.IH [OF q'(2)] Cons.prems by simp
    then show ?thesis
      using q' Inr by (auto simp: simulates_def intro: same_env_trans split: sum.splits)
  qed
qed (simp add: simulates_def)

section \<open>A complete query\<close>

lemma length_z_close: "length (z_close (f # g # fs)) = Suc (length fs)"
  by (cases f; cases g) simp

function z_tree :: "frame list \<Rightarrow> tree" where
  "z_tree [] = Node False False []"
| "z_tree [Frame an ng us] = Node an ng us"
| "z_tree (Frame an ng us # f # fs) = z_tree (z_close (Frame an ng us # f # fs))"
  by pat_completeness auto

termination by (relation "measure length") (simp_all add: length_z_close)

lemma qrep_tree:
  "qrep q fs [] [] \<Longrightarrow> \<exists>A. rep (elements q) (queryRoot q) (z_tree fs) A \<and> A \<subseteq> {..<next_element q}"
proof (induction fs arbitrary: q rule: z_tree.induct)
  case 1
  then show ?case by (simp add: qrep_def)
next
  case (2 an ng us)
  from 2 obtain a as ds B C where Q: "queryRoot q = last (a # as)" "elements q a = group_at an ng ds"
    "reps (elements q) ds us B" "stack_rep (elements q) as [] [a] C" "a \<notin> B"
    "insert a (B \<union> C) \<subseteq> {..<next_element q}" by (elim qrepE) auto
  from Q(4) have "as = []" by (cases as) auto
  with Q show ?case by (intro exI [of _ "insert a B"]) auto
next
  case (3 an ng us f fs)
  obtain bn bg vs where f: "f = Frame bn bg vs" by (cases f)
  from 3(1) [OF close_rep(2) [OF 3(2) [unfolded f], folded z_close.simps, folded f]]
  show ?case
    using 3(2) by (auto simp: qrep_def f butlast_rev [symmetric])
qed

lemma eval_leaf_env: "same_env q q' \<Longrightarrow> eval_leaf q' = eval_leaf q"
  by (simp add: fun_eq_iff eval_leaf_def same_env_def)

lemma eval_tree_env: "same_env q q' \<Longrightarrow> eval_tree q' obj t st = eval_tree q obj t st"
proof (induction t arbitrary: st)
  case (Node an ng ts)
  have "eval_and (eval_tree q' obj) sc ts st = eval_and (eval_tree q obj) sc ts st" for sc st
    by (rule eval_and_cong) (use Node in auto)
  moreover have "eval_or (eval_tree q' obj) sc ts b st = eval_or (eval_tree q obj) sc ts b st" for sc b st
    by (rule eval_or_cong) (use Node in auto)
  ultimately show ?case using Node.prems by (simp add: same_env_def)
qed (simp add: eval_leaf_env)

lemma evaluate_sim:
  assumes s: "sim q (fs, l) [] []" and bound: "levels fs < 2 ^ 32"
  shows "QEQueryIsComplete q \<longleftrightarrow> levels fs = 0 \<and> \<not> l"
    and "QEQueryEvaluate obj q =
      (if levels fs = 0 \<and> \<not> l
       then map_option (\<lambda>(r, u, err). (r, q\<lparr>userData := u, lastError := err\<rparr>))
         (eval_tree q obj (z_tree fs) (userData q, kQEQueryErrorNone))
       else Some (False, q))"
proof -
  have "(of_nat (levels fs) :: u32) = 0 \<longleftrightarrow> levels fs = 0"
    using bound by (auto simp: word_of_nat_eq_0_iff dest: nat_dvd_not_less)
  then show complete: "QEQueryIsComplete q \<longleftrightarrow> levels fs = 0 \<and> \<not> l"
    using s by (auto simp: QEQueryIsComplete_def sim_def)
  obtain A where A: "rep (elements q) (queryRoot q) (z_tree fs) A" "A \<subseteq> {..<next_element q}"
    using s qrep_tree [of q fs] by (auto simp: sim_def)
  then have "card A \<le> next_element q" using card_mono [OF _ A(2)] by simp
  from eval_element_rep [OF A(1) this] complete s
  show "QEQueryEvaluate obj q =
      (if levels fs = 0 \<and> \<not> l
       then map_option (\<lambda>(r, u, err). (r, q\<lparr>userData := u, lastError := err\<rparr>))
         (eval_tree q obj (z_tree fs) (userData q, kQEQueryErrorNone))
       else Some (False, q))"
    by (simp add: QEQueryEvaluate_def sim_def)
qed

text \<open>A query as \<open>QEQueryCreate\<close> and the functions that set it up leave it.\<close>

definition fresh_query :: "('o, 'u) query \<Rightarrow> bool" where
  "fresh_query q \<longleftrightarrow> elements q 0 = group_element False \<and> next_element q = 1 \<and> can_alloc q \<and>
     queryRoot q = 0 \<and> queryStack q = [0] \<and> queryStackTop q = 0 \<and> nestingLevel q = 0 \<and>
     \<not> logicOpActive q \<and> lastError q = kQEQueryErrorNone"

abbreviation z_fresh :: zstate where
  "z_fresh \<equiv> ([Frame False False []], False)"

lemma fresh_sim: "fresh_query q \<Longrightarrow> sim q z_fresh [] []"
  unfolding sim_def qrep_def fresh_query_def
  by (auto simp: group_element_at intro!: exI [of _ "{0}"])

lemma fresh_setup:
  "QEQueryCreate mem client_data = Some q \<Longrightarrow> fresh_query q"
  "fresh_query q \<Longrightarrow> fresh_query (QEQuerySetParseCallbackForPredicate p cb q)"
  "fresh_query q \<Longrightarrow> fresh_query (QEQuerySetEvaluationCallbackForPredicate p ecb q)"
  "fresh_query q \<Longrightarrow> fresh_query (QEQuerySetSynonymForPredicate s op q)"
  "fresh_query q \<Longrightarrow> fresh_query (QEQuerySetShortCircuits flag q)"
  "fresh_query q \<Longrightarrow> fresh_query (QEQuerySetOperators a o' n st en q)"
  by (auto simp: fresh_query_def QEQueryCreate_def QEQuerySetOperators_def Let_def
      QEQuerySetParseCallbackForPredicate_def QEQuerySetEvaluationCallbackForPredicate_def
      QEQuerySetSynonymForPredicate_def QEQuerySetShortCircuits_def split: if_splits option.splits)

section \<open>Properties\<close>

text \<open>C10. The engine refines the open groups. From a fresh query, any sequence of calls to append
  elements (of client predicates) and operators and to start and end groups, fewer than 2^32 of
  them, fails with an error code exactly when the sequence fails on the abstract state, and with
  the same code. When it succeeds, the query is complete exactly when no group is open and no
  operator is pending, and then evaluating it over the store ends and is the evaluation of the
  tree that the abstract state closes to; the query is otherwise unchanged by evaluation.\<close>

theorem query_refines_groups:
  assumes "fresh_query q" and "\<forall>x \<in> set xs. op_ok x" and "length xs < 2 ^ 32"
  shows "case z_ops xs z_fresh of
      Inl err \<Rightarrow> \<exists>q'. run_ops xs q = (False, q') \<and> lastError q' = err
    | Inr (fs, l) \<Rightarrow> \<exists>q'. run_ops xs q = (True, q') \<and>
        (QEQueryIsComplete q' \<longleftrightarrow> levels fs = 0 \<and> \<not> l) \<and>
        (QEQueryIsComplete q' \<longrightarrow> (\<exists>r u err.
           eval_tree q obj (z_tree fs) (userData q, kQEQueryErrorNone) = Some (r, u, err) \<and>
           QEQueryEvaluate obj q' = Some (r, q'\<lparr>userData := u, lastError := err\<rparr>)))"
proof -
  note sim = ops_sim [OF fresh_sim [OF assms(1)] assms(2)]
  show ?thesis
  proof (cases "z_ops xs z_fresh")
    case (Inl err)
    with sim assms(3) show ?thesis by (cases "run_ops xs q") (simp add: simulates_def)
  next
    case (Inr z)
    obtain fs l where z: "z = (fs, l)" by (cases z)
    obtain q' where q': "run_ops xs q = (True, q')" "sim q' (fs, l) [] []" "same_env q q'"
      using sim assms(3) Inr z by (cases "run_ops xs q") (auto simp: simulates_def)
    have bound: "levels fs < 2 ^ 32" using levels_ops [OF Inr] assms(3) by (simp add: z)
    obtain r u err where ev: "eval_tree q obj (z_tree fs) (userData q, kQEQueryErrorNone) = Some (r, u, err)"
      using eval_tree_total [of q obj "z_tree fs" "(userData q, kQEQueryErrorNone)"] by (metis prod_cases3)
    have "userData q' = userData q" using q'(3) by (simp add: same_env_def)
    with ev have "QEQueryIsComplete q' \<Longrightarrow>
        QEQueryEvaluate obj q' = Some (r, q'\<lparr>userData := u, lastError := err\<rparr>)"
      using evaluate_sim(2) [OF q'(2) bound, of obj] evaluate_sim(1) [OF q'(2) bound] eval_tree_env [OF q'(3)] by simp
    with evaluate_sim(1) [OF q'(2) bound] q'(1) ev show ?thesis by (simp add: Inr z)
  qed
qed

end
