(* ===== verification/QEQueryBool.thy ===== *)
theory QEQueryBool
  imports QEQueryRefine
begin

text \<open>
  src/QEQuery.c: the language of queries. An expression is a disjunction of terms, a term a
  conjunction of factors with or without the operator between them, a factor a predicate of the
  client or a group, which may be negated. The operations that spell an expression build, from a
  fresh query, the tree of the expression; its evaluation is the Boolean value.
\<close>

section \<open>Expressions\<close>

text \<open>The first flag is whether the operator -and stands before the factor.\<close>

datatype expr = Atom bool element | Group bool bool "expr list list"

fun explicit :: "expr \<Rightarrow> bool" where
  "explicit (Atom x e) = x"
| "explicit (Group x neg ts) = x"

fun factor_ops :: "expr \<Rightarrow> query_op list"
  and rest_ops :: "expr list \<Rightarrow> query_op list"
  and term_ops :: "expr list \<Rightarrow> query_op list"
  and more_ops :: "expr list list \<Rightarrow> query_op list"
  and query_ops :: "expr list list \<Rightarrow> query_op list" where
  "factor_ops (Atom x e) = [OpElement e]"
| "factor_ops (Group x neg ts) = OpStart neg # query_ops ts @ [OpEnd]"
| "rest_ops [] = []"
| "rest_ops (f # fs) = (if explicit f then [OpAnd] else []) @ factor_ops f @ rest_ops fs"
| "term_ops [] = []"
| "term_ops (f # fs) = factor_ops f @ rest_ops fs"
| "more_ops [] = []"
| "more_ops (t # ts) = OpOr # term_ops t @ more_ops ts"
| "query_ops [] = []"
| "query_ops (t # ts) = term_ops t @ more_ops ts"

text \<open>No term and no group is empty, and the elements are the client's.\<close>

fun expr_ok :: "expr \<Rightarrow> bool" where
  "expr_ok (Atom x e) \<longleftrightarrow> leaf_ok e"
| "expr_ok (Group x neg ts) \<longleftrightarrow> ts \<noteq> [] \<and> (\<forall>t \<in> set ts. t \<noteq> [] \<and> (\<forall>f \<in> set t. expr_ok f))"

definition terms_ok :: "expr list list \<Rightarrow> bool" where
  "terms_ok ts \<longleftrightarrow> ts \<noteq> [] \<and> (\<forall>t \<in> set ts. t \<noteq> [] \<and> (\<forall>f \<in> set t. expr_ok f))"

lemma expr_ok_Group [simp]: "expr_ok (Group x neg ts) \<longleftrightarrow> terms_ok ts"
  by (simp add: terms_ok_def)

declare expr_ok.simps(2) [simp del]

text \<open>The value, with \<open>p\<close> the value of a predicate with its arguments.\<close>

fun expr_val :: "(string \<Rightarrow> arg list option \<Rightarrow> bool) \<Rightarrow> expr \<Rightarrow> bool" where
  "expr_val p (Atom x e) = (p (Predicate e) (Arguments e) \<noteq> Negated e)"
| "expr_val p (Group x neg ts) = (list_ex (list_all (expr_val p)) ts \<noteq> neg)"

definition query_val :: "(string \<Rightarrow> arg list option \<Rightarrow> bool) \<Rightarrow> expr list list \<Rightarrow> bool" where
  "query_val p ts = (\<exists>t \<in> set ts. \<forall>f \<in> set t. expr_val p f)"

section \<open>The tree of an expression\<close>

definition term_tree :: "tree list \<Rightarrow> tree" where
  "term_tree us = (case us of [u] \<Rightarrow> u | _ \<Rightarrow> Node True False us)"

fun expr_tree :: "expr \<Rightarrow> tree" where
  "expr_tree (Atom x e) = Leaf e"
| "expr_tree (Group x neg ts) = single False neg (map (\<lambda>t. term_tree (map expr_tree t)) ts)"

definition query_trees :: "expr list list \<Rightarrow> tree list" where
  "query_trees ts = map (\<lambda>t. term_tree (map expr_tree t)) ts"

text \<open>The open groups after the factors \<open>vs\<close> of a term, in a group with the terms \<open>us\<close>.\<close>

definition in_term :: "tree list \<Rightarrow> bool \<Rightarrow> tree list \<Rightarrow> frame list \<Rightarrow> frame list" where
  "in_term vs ng us fs =
     (if length vs = 1 then Frame False ng (us @ vs) # fs else Frame True False vs # Frame False ng us # fs)"

lemma z_ops_append: "z_ops (xs @ ys) z = (case z_ops xs z of Inr z \<Rightarrow> z_ops ys z | Inl err \<Rightarrow> Inl err)"
  by (induction xs arbitrary: z) (auto split: sum.splits)

lemma in_term_snoc: "vs \<noteq> [] \<Longrightarrow> in_term (vs @ [v]) ng us fs = Frame True False (vs @ [v]) # Frame False ng us # fs"
  by (cases vs) (simp_all add: in_term_def)

lemma single_one [simp]: "single an False [w] = w"
  by (simp add: single_def)

text \<open>What a factor does at the start of a term and inside one.\<close>

definition factor_step :: "query_op list \<Rightarrow> tree \<Rightarrow> bool" where
  "factor_step xs u \<longleftrightarrow>
     (\<forall>ng us fs l. (us = [] \<or> l) \<longrightarrow>
        z_ops xs (Frame False ng us # fs, l) = Inr (Frame False ng (us @ [u]) # fs, False)) \<and>
     (\<forall>vs ng us fs. vs \<noteq> [] \<longrightarrow> z_ops xs (in_term vs ng us fs, False) = Inr (in_term (vs @ [u]) ng us fs, False)) \<and>
     (\<forall>vs ng us fs l. vs \<noteq> [] \<longrightarrow>
        z_ops xs (Frame True False vs # Frame False ng us # fs, l) = Inr (in_term (vs @ [u]) ng us fs, False))"

lemma in_term_cases:
  assumes "vs \<noteq> []"
  obtains (one) v where "vs = [v]" "in_term vs ng us fs = Frame False ng (us @ [v]) # fs"
    | (more) "in_term vs ng us fs = Frame True False vs # Frame False ng us # fs" "2 \<le> length vs"
  using assms by (cases vs; cases "tl vs") (auto simp: in_term_def)

lemma atom_step: "factor_step [OpElement e] (Leaf e)"
proof -
  have "z_ops [OpElement e] (in_term vs ng us fs, False) = Inr (in_term (vs @ [Leaf e]) ng us fs, False)"
    if vs: "vs \<noteq> []" for vs ng us fs
    using vs by (cases rule: in_term_cases [OF vs, of ng us fs])
      (simp_all add: in_term_snoc z_element_def z_count_def z_is_and_def in_term_def)
  then show ?thesis
    by (auto simp: factor_step_def z_element_def z_count_def z_is_and_def in_term_snoc)
qed

text \<open>The terms of a group, from its start to the last of them.\<close>

definition in_query :: "tree list list \<Rightarrow> bool \<Rightarrow> tree list \<Rightarrow> frame list \<Rightarrow> frame list" where
  "in_query vss ng us fs = in_term (last vss) ng (us @ map term_tree (butlast vss)) fs"

lemma end_step:
  assumes vss: "vss \<noteq> []" "\<forall>vs \<in> set vss. vs \<noteq> []" and or: "or_groups (Frame an ng us # fs) \<noteq> 0"
  shows "z_end (in_query vss neg [] (Frame an ng us # fs), False) =
    (let gs = Frame an ng (us @ [single False neg (map term_tree vss)]) # fs in
     Inr (if an \<and> us = [] then z_coalesce gs else gs, False))"
proof -
  obtain wss ws where w: "vss = wss @ [ws]" using vss(1) by (cases vss rule: rev_cases) auto
  have ws: "ws \<noteq> []" using vss(2) by (simp add: w)
  show ?thesis
    using or
    by (cases rule: in_term_cases [OF ws, of neg "map term_tree wss" "Frame an ng us # fs"])
      (auto simp: in_query_def w z_end_def levels_def or_groups_def z_count_def z_is_and_def Let_def term_tree_def
        split: list.splits)
qed

lemma and_step:
  assumes "vs \<noteq> []"
  obtains l where "z_and (in_term vs ng us fs, False) = Inr (Frame True False vs # Frame False ng us # fs, l)"
  using assms
  by (cases rule: in_term_cases [OF assms, of ng us fs]) (auto simp: z_and_def z_is_and_def z_count_def)

lemma or_step:
  assumes vss: "vss \<noteq> []" "\<forall>vs \<in> set vss. vs \<noteq> []"
  shows "z_or (in_query vss ng us fs, False) = Inr (Frame False ng (us @ map term_tree vss) # fs, True)"
proof -
  obtain wss ws where w: "vss = wss @ [ws]" using vss(1) by (cases vss rule: rev_cases) auto
  have ws: "ws \<noteq> []" using vss(2) by (simp add: w)
  show ?thesis
    by (cases rule: in_term_cases [OF ws, of ng "us @ map term_tree wss" fs])
      (auto simp: in_query_def w z_or_def z_is_and_def term_tree_def split: list.splits)
qed

lemma group_step:
  assumes inner: "\<And>ng fs l. z_ops (query_ops ts) (Frame False ng [] # fs, l) = Inr (in_query vss ng [] fs, False)"
    and vss: "vss \<noteq> []" "\<forall>vs \<in> set vss. vs \<noteq> []"
  shows "factor_step (OpStart neg # query_ops ts @ [OpEnd]) (single False neg (map term_tree vss))"
proof -
  let ?u = "single False neg (map term_tree vss)"
  have run: "z_ops (OpStart neg # query_ops ts @ [OpEnd]) (gs, l) = z_end (in_query vss neg [] gs', False)"
    if "z_start neg (gs, l) = (Frame False neg [] # gs', l)" for gs l gs'
    using that by (simp add: z_ops_append inner split: sum.splits)
  have or: "or_groups (Frame False ng us # fs) \<noteq> 0" "or_groups (Frame True bg vs # Frame False ng us # fs) \<noteq> 0"
    for ng us fs bg vs by (simp_all add: or_groups_def)
  have "z_ops (OpStart neg # query_ops ts @ [OpEnd]) (Frame False ng us # fs, l) =
      Inr (Frame False ng (us @ [?u]) # fs, False)" if "us = [] \<or> l" for ng us fs l
  proof (cases l)
    case True
    then show ?thesis
      using end_step [OF vss, of False ng us fs neg] or(1) [of ng us fs]
      by (subst run) (simp_all add: z_start_def z_is_and_def)
  next
    case False
    with that show ?thesis
      using end_step [OF vss, of True False "[]" "Frame False ng [] # fs" neg] or(2) [of False "[]" ng "[]" fs]
      by (subst run) (simp_all add: z_start_def z_is_and_def)
  qed
  moreover have and_frame: "z_ops (OpStart neg # query_ops ts @ [OpEnd])
      (Frame True False vs # Frame False ng us # fs, l) = Inr (in_term (vs @ [?u]) ng us fs, False)"
    if "vs \<noteq> []" for vs ng us fs l
    using that end_step [OF vss, of True False vs "Frame False ng us # fs" neg] or(2) [of False vs ng us fs]
    by (subst run) (simp_all add: z_start_def z_is_and_def in_term_snoc)
  moreover have "z_ops (OpStart neg # query_ops ts @ [OpEnd]) (in_term vs ng us fs, False) =
      Inr (in_term (vs @ [?u]) ng us fs, False)" if vs: "vs \<noteq> []" for vs ng us fs
  proof (cases rule: in_term_cases [OF vs, of ng us fs])
    case (1 v)
    then show ?thesis
      using end_step [OF vss, of True False "[v]" "Frame False ng us # fs" neg] or(2) [of False "[v]" ng us fs]
      by (subst run) (simp_all add: z_start_def z_is_and_def in_term_def)
  qed (use and_frame vs in simp)
  ultimately show ?thesis by (simp add: factor_step_def)
qed

lemma ops_build:
  "expr_ok f \<Longrightarrow> factor_step (factor_ops f) (expr_tree f)"
  "\<forall>f \<in> set fs. expr_ok f \<Longrightarrow> \<forall>vs ng us gs. vs \<noteq> [] \<longrightarrow>
     z_ops (rest_ops fs) (in_term vs ng us gs, False) = Inr (in_term (vs @ map expr_tree fs) ng us gs, False)"
  "t \<noteq> [] \<Longrightarrow> \<forall>f \<in> set t. expr_ok f \<Longrightarrow> \<forall>ng us gs l. us = [] \<or> l \<longrightarrow>
     z_ops (term_ops t) (Frame False ng us # gs, l) = Inr (in_term (map expr_tree t) ng us gs, False)"
  "\<forall>t \<in> set ts. t \<noteq> [] \<and> (\<forall>f \<in> set t. expr_ok f) \<Longrightarrow>
     \<forall>vss ng us gs. vss \<noteq> [] \<longrightarrow> (\<forall>vs \<in> set vss. vs \<noteq> []) \<longrightarrow>
     z_ops (more_ops ts) (in_query vss ng us gs, False) = Inr (in_query (vss @ map (map expr_tree) ts) ng us gs, False)"
  "terms_ok ss \<Longrightarrow> \<forall>ng us gs l. us = [] \<or> l \<longrightarrow>
     z_ops (query_ops ss) (Frame False ng us # gs, l) = Inr (in_query (map (map expr_tree) ss) ng us gs, False)"
proof (induction f and fs and t and ts and ss rule: factor_ops_rest_ops_term_ops_more_ops_query_ops.induct)
  case (1 x e)
  then show ?case by (simp add: atom_step)
next
  case (2 x neg ts)
  have ok: "terms_ok ts" using 2 by simp
  have "factor_step (OpStart neg # query_ops ts @ [OpEnd])
      (single False neg (map term_tree (map (map expr_tree) ts)))"
    by (rule group_step) (use 2(1) [OF ok] ok in \<open>auto simp: terms_ok_def\<close>)
  then show ?case by (simp add: comp_def)
next
  case (4 f fs)
  have step: "factor_step (factor_ops f) (expr_tree f)" using 4 by simp
  have rest: "z_ops (rest_ops fs) (in_term (vs @ [expr_tree f]) ng us gs, False) =
      Inr (in_term (vs @ map expr_tree (f # fs)) ng us gs, False)" for vs ng us gs
    using 4 by simp
  show ?case
  proof (intro allI impI)
    fix vs :: "tree list" and ng us gs
    assume vs: "vs \<noteq> []"
    obtain l where l: "z_and (in_term vs ng us gs, False) = Inr (Frame True False vs # Frame False ng us # gs, l)"
      by (rule and_step [OF vs])
    have "z_ops (factor_ops f) (in_term vs ng us gs, False) = Inr (in_term (vs @ [expr_tree f]) ng us gs, False)"
      "z_ops (factor_ops f) (Frame True False vs # Frame False ng us # gs, l) =
         Inr (in_term (vs @ [expr_tree f]) ng us gs, False)"
      using step vs by (simp_all add: factor_step_def)
    then show "z_ops (rest_ops (f # fs)) (in_term vs ng us gs, False) =
        Inr (in_term (vs @ map expr_tree (f # fs)) ng us gs, False)"
      using rest [of vs ng us gs] by (simp add: z_ops_append l)
  qed
next
  case (6 f fs)
  have step: "factor_step (factor_ops f) (expr_tree f)" using 6 by simp
  show ?case
  proof (intro allI impI)
    fix ng and us :: "tree list" and gs l
    assume "us = [] \<or> l"
    with step have "z_ops (factor_ops f) (Frame False ng us # gs, l) = Inr (in_term [expr_tree f] ng us gs, False)"
      by (auto simp: factor_step_def in_term_def)
    then show "z_ops (term_ops (f # fs)) (Frame False ng us # gs, l) =
        Inr (in_term (map expr_tree (f # fs)) ng us gs, False)"
      using 6 by (simp add: z_ops_append)
  qed
next
  case (8 t ts)
  show ?case
  proof (intro allI impI)
    fix vss :: "tree list list" and ng us gs
    assume vss: "vss \<noteq> []" "\<forall>vs \<in> set vss. vs \<noteq> []"
    have "z_ops (term_ops t) (Frame False ng (us @ map term_tree vss) # gs, True) =
        Inr (in_query (vss @ [map expr_tree t]) ng us gs, False)"
      using 8 by (simp add: in_query_def)
    moreover have "z_ops (more_ops ts) (in_query (vss @ [map expr_tree t]) ng us gs, False) =
        Inr (in_query (vss @ [map expr_tree t] @ map (map expr_tree) ts) ng us gs, False)"
      using 8 vss by (auto simp del: append.simps)
    ultimately show "z_ops (more_ops (t # ts)) (in_query vss ng us gs, False) =
        Inr (in_query (vss @ map (map expr_tree) (t # ts)) ng us gs, False)"
      by (simp add: z_ops_append or_step [OF vss])
  qed
next
  case (10 t ts)
  show ?case
  proof (intro allI impI)
    fix ng and us :: "tree list" and gs l
    assume "us = [] \<or> l"
    then have "z_ops (term_ops t) (Frame False ng us # gs, l) = Inr (in_query [map expr_tree t] ng us gs, False)"
      using 10 by (auto simp: in_query_def terms_ok_def)
    moreover have "z_ops (more_ops ts) (in_query [map expr_tree t] ng us gs, False) =
        Inr (in_query ([map expr_tree t] @ map (map expr_tree) ts) ng us gs, False)"
      using 10 by (simp add: terms_ok_def)
    ultimately show "z_ops (query_ops (t # ts)) (Frame False ng us # gs, l) =
        Inr (in_query (map (map expr_tree) (t # ts)) ng us gs, False)"
      by (simp add: z_ops_append)
  qed
qed (simp_all add: terms_ok_def)

section \<open>The value of a tree\<close>

fun tree_val :: "(string \<Rightarrow> arg list option \<Rightarrow> bool) \<Rightarrow> tree \<Rightarrow> bool" where
  "tree_val p (Leaf e) = (p (Predicate e) (Arguments e) \<noteq> Negated e)"
| "tree_val p (Node an ng ts) =
     ((if an then list_all (tree_val p) ts else ts = [] \<or> list_ex (tree_val p) ts) \<noteq> ng)"

fun tree_all :: "(element \<Rightarrow> bool) \<Rightarrow> tree \<Rightarrow> bool" where
  "tree_all P (Leaf e) = P e"
| "tree_all P (Node an ng ts) = list_all (tree_all P) ts"

text \<open>The client's callback for an element succeeds, without a change of its data, and its result
  is \<open>p\<close> of the predicate and the arguments.\<close>

definition evaluates :: "('o, 'u) query \<Rightarrow> 'o \<Rightarrow> (string \<Rightarrow> arg list option \<Rightarrow> bool) \<Rightarrow> element \<Rightarrow> bool" where
  "evaluates q obj p e \<longleftrightarrow>
     (\<exists>cb. dict_get (=) (evaluationCallbacks q) (Predicate e) = Some cb \<and>
        (\<forall>neg st. cb (e\<lparr>Negated := neg\<rparr>) obj st = (p (Predicate e) (Arguments e), st)))"

lemma evaluates_leaf:
  "evaluates q obj p e \<Longrightarrow>
   eval_leaf q e obj (u, kQEQueryErrorNone) = (p (Predicate e) (Arguments e) \<noteq> Negated e, u, kQEQueryErrorNone)"
proof -
  assume "evaluates q obj p e"
  then obtain cb where "dict_get (=) (evaluationCallbacks q) (Predicate e) = Some cb"
    "\<And>neg st. cb (e\<lparr>Negated := neg\<rparr>) obj st = (p (Predicate e) (Arguments e), st)"
    by (auto simp: evaluates_def)
  from this(1) this(2) [of "Negated e" "(u, kQEQueryErrorNone)"] show ?thesis by (auto simp: eval_leaf_def finish_eval_def)
qed

lemma eval_and_val:
  "\<forall>t \<in> set ts. ev t st = Some (tree_val p t, st) \<Longrightarrow>
   eval_and ev True ts st = Some (list_all (tree_val p) ts, st)"
  by (induction ts) auto

lemma eval_or_val:
  "\<forall>t \<in> set ts. ev t st = Some (tree_val p t, st) \<Longrightarrow>
   eval_or ev True ts b st = Some (b \<or> list_ex (tree_val p) ts, st)"
  by (induction ts arbitrary: b) auto

lemma eval_tree_val:
  assumes "shortCircuitEval q"
  shows "tree_all (evaluates q obj p) t \<Longrightarrow>
    eval_tree q obj t (u, kQEQueryErrorNone) = Some (tree_val p t, u, kQEQueryErrorNone)"
proof (induction t)
  case (Node an ng ts)
  then have "\<forall>t \<in> set ts. eval_tree q obj t (u, kQEQueryErrorNone) = Some (tree_val p t, u, kQEQueryErrorNone)"
    by (auto simp: list_all_iff)
  then show ?case
    using eval_and_val [of ts "eval_tree q obj" "(u, kQEQueryErrorNone)" p]
      eval_or_val [of ts "eval_tree q obj" "(u, kQEQueryErrorNone)" p "ts = []"]
    by (auto simp: assms finish_eval_def)
qed (simp add: evaluates_leaf)

text \<open>The tree of an expression has its value.\<close>

fun expr_all :: "(element \<Rightarrow> bool) \<Rightarrow> expr \<Rightarrow> bool" where
  "expr_all P (Atom x e) = P e"
| "expr_all P (Group x neg ts) = list_all (list_all (expr_all P)) ts"

lemma negate_val: "tree_val p (negate_tree t) = (\<not> tree_val p t)"
  by (cases t) (auto simp: QEQueryElementNegate_def)

lemma single_val: "us \<noteq> [] \<Longrightarrow> tree_val p (single False neg us) = (list_ex (tree_val p) us \<noteq> neg)"
  by (auto simp: single_def negate_val split: list.splits)

lemma term_val: "vs \<noteq> [] \<Longrightarrow> tree_val p (term_tree vs) = list_all (tree_val p) vs"
  by (auto simp: term_tree_def split: list.splits)

lemma expr_tree_val: "expr_ok f \<Longrightarrow> tree_val p (expr_tree f) = expr_val p f"
proof (induction f)
  case (Group x neg ts)
  have ok: "ts \<noteq> []" "\<And>t. t \<in> set ts \<Longrightarrow> t \<noteq> []" "\<And>t f. t \<in> set ts \<Longrightarrow> f \<in> set t \<Longrightarrow> expr_ok f"
    using Group.prems by (auto simp: terms_ok_def)
  have "tree_val p (term_tree (map expr_tree t)) = list_all (expr_val p) t" if "t \<in> set ts" for t
    using Group.IH [OF that] ok that by (auto simp: term_val list_all_iff)
  with ok(1) show ?case by (auto simp: single_val list_ex_iff)
qed simp

lemma negate_all: "(\<And>e. P (QEQueryElementNegate e) = P e) \<Longrightarrow> tree_all P (negate_tree t) = tree_all P t"
  by (cases t) auto

lemma expr_tree_all:
  assumes "\<And>e. P (QEQueryElementNegate e) = P e"
  shows "expr_ok f \<Longrightarrow> expr_all P f \<Longrightarrow> tree_all P (expr_tree f)"
proof (induction f)
  case (Group x neg ts)
  have "tree_all P (term_tree (map expr_tree t))" if "t \<in> set ts" for t
    using Group that by (auto simp: term_tree_def list_all_iff terms_ok_def split: list.splits)
  then show ?case
    using negate_all [of P, OF assms] by (auto simp: single_def list_all_iff split: list.splits)
qed simp

lemma evaluates_negate: "evaluates q obj p (QEQueryElementNegate e) = evaluates q obj p e"
  by (simp add: evaluates_def QEQueryElementNegate_def)

section \<open>Reading an expression from the command line\<close>

text \<open>How the operators and the elements are spelled, the latter without a NOT.\<close>

record spelling =
  w_and :: string
  w_or :: string
  w_not :: string
  w_start :: string
  w_end :: string
  w_element :: "element \<Rightarrow> string list"

fun op_words :: "spelling \<Rightarrow> query_op \<Rightarrow> string list" where
  "op_words s OpAnd = [w_and s]"
| "op_words s OpOr = [w_or s]"
| "op_words s OpEnd = [w_end s]"
| "op_words s (OpStart neg) = (if neg then [w_not s] else []) @ [w_start s]"
| "op_words s (OpElement e) = (if Negated e then [w_not s] else []) @ w_element s e"

definition tokens :: "string list" where
  "tokens = [kQEQueryTokenAnd, kQEQueryTokenOr, kQEQueryTokenNot, kQEQueryTokenGroupStart, kQEQueryTokenGroupEnd]"

text \<open>The operators have their own names, and the words stand for them, directly or as synonyms.\<close>

definition spells :: "('o, 'u) query \<Rightarrow> spelling \<Rightarrow> bool" where
  "spells q s \<longleftrightarrow> list_all (\<lambda>t. QEQueryOperatorForToken q t = Some t) tokens \<and>
     map (QEPredicateForString q) [w_and s, w_or s, w_not s, w_start s, w_end s] = tokens"

text \<open>The client's parse callback makes the element from the words, whatever follows them.\<close>

definition readable :: "('o, 'u) query \<Rightarrow> spelling \<Rightarrow> element \<Rightarrow> bool" where
  "readable q s e \<longleftrightarrow> leaf_ok e \<and>
     (\<exists>w ws p cb. w_element s e = w # ws \<and> QEPredicateForString q w = p \<and> p \<notin> set tokens \<and>
        dict_get (=) (parseCallbacks q) p = Some cb \<and>
        (\<forall>rest u. cb (w # ws @ rest)
             (\<lparr>Predicate = QEPredicateForString q p, Arguments = None, Negated = Negated e\<rparr>, u, kQEQueryErrorNone) =
           (True, length (w # ws), e, u, kQEQueryErrorNone)))"

definition op_readable :: "('o, 'u) query \<Rightarrow> spelling \<Rightarrow> query_op \<Rightarrow> bool" where
  "op_readable q s x \<longleftrightarrow> (case x of OpElement e \<Rightarrow> readable q s e | _ \<Rightarrow> True)"

lemma tokens_distinct [simp]:
  "kQEQueryTokenAnd \<noteq> kQEQueryTokenOr" "kQEQueryTokenAnd \<noteq> kQEQueryTokenNot"
  "kQEQueryTokenAnd \<noteq> kQEQueryTokenGroupStart" "kQEQueryTokenAnd \<noteq> kQEQueryTokenGroupEnd"
  "kQEQueryTokenOr \<noteq> kQEQueryTokenNot" "kQEQueryTokenOr \<noteq> kQEQueryTokenGroupStart"
  "kQEQueryTokenOr \<noteq> kQEQueryTokenGroupEnd" "kQEQueryTokenNot \<noteq> kQEQueryTokenGroupStart"
  "kQEQueryTokenNot \<noteq> kQEQueryTokenGroupEnd" "kQEQueryTokenGroupStart \<noteq> kQEQueryTokenGroupEnd"
  by (simp_all add: kQEQueryTokenAnd_def kQEQueryTokenOr_def kQEQueryTokenNot_def kQEQueryTokenGroupStart_def
      kQEQueryTokenGroupEnd_def)

lemmas tokens_distinct_sym [simp] = tokens_distinct [symmetric]

lemma spells_operator:
  assumes "spells q s" and "t \<in> set tokens"
  shows "is_operator q t p \<longleftrightarrow> p = t"
  using assms by (auto simp: spells_def is_operator_def list_all_iff)

lemma spells_words:
  assumes "spells q s"
  shows "QEPredicateForString q (w_and s) = kQEQueryTokenAnd" "QEPredicateForString q (w_or s) = kQEQueryTokenOr"
    "QEPredicateForString q (w_not s) = kQEQueryTokenNot"
    "QEPredicateForString q (w_start s) = kQEQueryTokenGroupStart"
    "QEPredicateForString q (w_end s) = kQEQueryTokenGroupEnd"
  using assms by (auto simp: spells_def tokens_def)

lemma tokens_in [simp]:
  "kQEQueryTokenAnd \<in> set tokens" "kQEQueryTokenOr \<in> set tokens" "kQEQueryTokenNot \<in> set tokens"
  "kQEQueryTokenGroupStart \<in> set tokens" "kQEQueryTokenGroupEnd \<in> set tokens"
  by (simp_all add: tokens_def)

text \<open>The words of an operation are one element from the arguments.\<close>

lemma read_element:
  assumes r: "readable q s e" and sp: "spells q s" and none: "lastError q = kQEQueryErrorNone" "can_alloc q"
    and run: "run_op (OpElement e) q = (True, q')" and neg: "neg = Negated e"
  shows "append_predicate (QEPredicateForString q (hd (w_element s e))) neg (w_element s e @ rest) q =
    (True, length (w_element s e), q')"
proof -
  obtain w ws p cb where w: "w_element s e = w # ws" "QEPredicateForString q w = p" "p \<notin> set tokens"
    "dict_get (=) (parseCallbacks q) p = Some cb"
    and cb: "\<And>rest u. cb (w # ws @ rest)
        (\<lparr>Predicate = QEPredicateForString q p, Arguments = None, Negated = Negated e\<rparr>, u, kQEQueryErrorNone) =
      (True, length (w # ws), e, u, kQEQueryErrorNone)"
    using r unfolding readable_def by blast
  have op: "\<not> is_operator q t p" if "t \<in> set tokens" for t
    using spells_operator [OF sp that] w(3) that by auto
  have pred: "(case dict_get (=) (synonyms q) p of None \<Rightarrow> p | Some synonym \<Rightarrow> synonym) = QEPredicateForString q p"
    by (simp add: QEPredicateForString_def)
  have "(set_element a e (snd (new_element f q)))\<lparr>userData := userData q, lastError := kQEQueryErrorNone\<rparr> =
      snd (new_element e q)" if "a = next_element q" for a f
    using that none by (simp add: set_element_def new_element_def)
  then show ?thesis
    using run op w(1,2,4) none cb
    by (simp add: append_predicate_def append_client_element_def QEQueryCreateElement_def Let_def pred new_element_def
        neg split: prod.splits)
qed

lemma read_op:
  assumes r: "op_readable q s x" and sp: "spells q s" and none: "lastError q = kQEQueryErrorNone" "can_alloc q"
    and run: "run_op x q = (True, q')"
  shows "QEQueryAppendElementFromArgs (op_words s x @ rest) q = (True, length (op_words s x), q')"
proof -
  note op = spells_operator [OF sp] and words = spells_words [OF sp]
  show ?thesis
  proof (cases x)
    case (OpElement e)
    have r: "readable q s e" using r by (simp add: op_readable_def OpElement)
    then obtain w ws where w: "w_element s e = w # ws" "QEPredicateForString q w \<notin> set tokens"
      unfolding readable_def by blast
    then have "QEPredicateForString q w \<noteq> kQEQueryTokenNot" by auto
    then show ?thesis
      using read_element [OF r sp none run [unfolded OpElement], of "Negated e" rest] w(1)
      by (cases "Negated e") (simp_all add: QEQueryAppendElementFromArgs_def op words OpElement)
  next
    case (OpStart neg)
    then show ?thesis
      using run
      by (cases neg) (simp_all add: QEQueryAppendElementFromArgs_def op words append_predicate_def QEQueryStartGroup_def)
  qed (use run in \<open>simp_all add: QEQueryAppendElementFromArgs_def op words append_predicate_def\<close>)
qed

lemma env_same:
  assumes "same_env q q'"
  shows "spells q' s = spells q s" "op_readable q' s x = op_readable q s x"
    "evaluates q' obj p e = evaluates q obj p e" "shortCircuitEval q' = shortCircuitEval q"
  using assms
  by (auto simp: same_env_def spells_def op_readable_def readable_def evaluates_def QEQueryOperatorForToken_def
      QEPredicateForString_def split: query_op.splits)

lemma append_all_args_step:
  "QEQueryAppendElementFromArgs (drop used argv) q = (True, n, q') \<Longrightarrow>
   \<not> (used + n < length argv \<and> stop = Some (argv ! (used + n))) \<Longrightarrow>
   append_all_args stop (Suc fuel) argv used q = append_all_args stop fuel argv (used + n) q'"
  unfolding append_all_args.simps(2) Let_def by auto

lemma read_ops:
  assumes "sim q z [] []" and "z_ops xs z = Inr z'" and "levels (fst z) + length xs < 2 ^ 32"
    and "spells q s" and "\<forall>x \<in> set xs. op_readable q s x"
    and "\<forall>x \<in> set xs. stop \<noteq> Some (hd (op_words s x))"
  shows "\<exists>q'. append_all_args stop (Suc (length xs)) (pre @ concat (map (op_words s) xs)) (length pre) q =
      Some (length pre + length (concat (map (op_words s) xs)), q') \<and> sim q' z' [] [] \<and> same_env q q'"
  using assms
proof (induction xs arbitrary: q z pre)
  case Nil
  then show ?case by (simp add: QEQueryAppendElementFromArgs_def)
next
  case (Cons x xs)
  obtain z1 where z1: "z_op x z = Inr z1" "z_ops xs z1 = Inr z'" using Cons.prems(2) by (auto split: sum.splits)
  have ok: "op_ok x" "op_readable q s x"
    using Cons.prems(5) by (auto simp: op_ok_def op_readable_def readable_def split: query_op.splits)
  have "simulates (run_op x q) q (z_op x z)" using Cons.prems ok by (intro step_sim) auto
  then obtain q1 where q1: "run_op x q = (True, q1)" "sim q1 z1 [] []" "same_env q q1"
    using z1 by (cases "run_op x q") (auto simp: simulates_def)
  have "lastError q = kQEQueryErrorNone" "can_alloc q" using Cons.prems(1) by (auto simp: sim_def qrep_def)
  note read = read_op [OF ok(2) Cons.prems(4) this q1(1)]
  have lev: "levels (fst z1) + length xs < 2 ^ 32"
    using levels_op [of x "fst z" "snd z" z1] z1(1) Cons.prems(3) by simp
  have prems: "spells q1 s" "\<forall>x \<in> set xs. op_readable q1 s x"
    using Cons.prems(4,5) env_same [OF q1(3)] by auto
  have go: "\<forall>x \<in> set xs. stop \<noteq> Some (hd (op_words s x))" using Cons.prems(6) by simp
  obtain q' where q': "append_all_args stop (Suc (length xs)) ((pre @ op_words s x) @ concat (map (op_words s) xs))
      (length (pre @ op_words s x)) q1 =
      Some (length (pre @ op_words s x) + length (concat (map (op_words s) xs)), q')"
    "sim q' z' [] []" "same_env q1 q'"
    using Cons.IH [OF q1(2) z1(2) lev prems go] by blast
  have nonempty: "op_words s y \<noteq> []" if "op_readable q s y" for y
    using that by (cases y) (auto simp: op_readable_def readable_def)
  have "\<not> (length pre + length (op_words s x) < length (pre @ concat (map (op_words s) (x # xs))) \<and>
      stop = Some ((pre @ concat (map (op_words s) (x # xs))) ! (length pre + length (op_words s x))))"
  proof (cases xs)
    case (Cons y ys)
    with nonempty [of y] Cons.prems(5) obtain w ws where "op_words s y = w # ws" by (cases "op_words s y") auto
    with Cons Cons.prems(6) show ?thesis by (auto simp: nth_append)
  qed simp
  then have "append_all_args stop (Suc (length (x # xs))) (pre @ concat (map (op_words s) (x # xs))) (length pre) q =
      append_all_args stop (Suc (length xs)) (pre @ concat (map (op_words s) (x # xs)))
        (length pre + length (op_words s x)) q1"
    using read [of "concat (map (op_words s) xs)"] unfolding length_Cons by (intro append_all_args_step) simp_all
  then show ?case using q' same_env_trans [OF q1(3) q'(3)] by (auto simp: add.assoc)
qed

lemma all_ops:
  "expr_all P f \<Longrightarrow> list_all (\<lambda>x. case x of OpElement e \<Rightarrow> P e | _ \<Rightarrow> True) (factor_ops f)"
  "list_all (expr_all P) fs \<Longrightarrow> list_all (\<lambda>x. case x of OpElement e \<Rightarrow> P e | _ \<Rightarrow> True) (rest_ops fs)"
  "list_all (expr_all P) t \<Longrightarrow> list_all (\<lambda>x. case x of OpElement e \<Rightarrow> P e | _ \<Rightarrow> True) (term_ops t)"
  "list_all (list_all (expr_all P)) ts \<Longrightarrow> list_all (\<lambda>x. case x of OpElement e \<Rightarrow> P e | _ \<Rightarrow> True) (more_ops ts)"
  "list_all (list_all (expr_all P)) ss \<Longrightarrow> list_all (\<lambda>x. case x of OpElement e \<Rightarrow> P e | _ \<Rightarrow> True) (query_ops ss)"
  by (induction f and fs and t and ts and ss rule: factor_ops_rest_ops_term_ops_more_ops_query_ops.induct) auto

text \<open>The abstract state at the end of an expression closes to the tree of the expression.\<close>

lemma end_of_query:
  assumes "vss \<noteq> []" "\<forall>vs \<in> set vss. vs \<noteq> []"
  shows "levels (in_query vss False [] []) = 0" "z_tree (in_query vss False [] []) = Node False False (map term_tree vss)"
proof -
  obtain wss ws where w: "vss = wss @ [ws]" using assms(1) by (cases vss rule: rev_cases) auto
  have ws: "ws \<noteq> []" using assms(2) by (simp add: w)
  show "levels (in_query vss False [] []) = 0" "z_tree (in_query vss False [] []) = Node False False (map term_tree vss)"
    by (cases rule: in_term_cases [OF ws, of False "map term_tree wss" "[]"];
      auto simp: in_query_def w levels_def term_tree_def split: list.splits)+
qed

section \<open>The property\<close>

text \<open>C4. The command line of kextfind means the Boolean expression it spells. Take any expression of
  predicates, -and (or nothing), -or, -not and parentheses in which no term and no group is empty, of
  fewer than 2^32 operations, with words for the operators that are directly or by synonym the engine's,
  and predicates whose parse callback makes the element from its words. From a fresh query, reading the
  words to the end uses all of them and leaves a complete query; evaluating it with callbacks that compute
  \<open>p\<close> gives the value of the expression under \<open>p\<close> and no change of the query.\<close>

theorem query_language:
  assumes fresh: "fresh_query q" and sc: "shortCircuitEval q" and sp: "spells q s" and ok: "terms_ok ts"
    and read: "list_all (list_all (expr_all (readable q s))) ts"
    and eval: "list_all (list_all (expr_all (evaluates q obj p))) ts"
    and bound: "length (query_ops ts) < 2 ^ 32"
    and go_on: "\<forall>x \<in> set (query_ops ts). stop \<noteq> Some (hd (op_words s x))"
    and argv: "argv = concat (map (op_words s) (query_ops ts))"
  shows "\<exists>q'. append_all_args stop (Suc (length (query_ops ts))) argv 0 q = Some (length argv, q') \<and>
    QEQueryIsComplete q' \<and> QEQueryEvaluate obj q' = Some (query_val p ts, q')"
proof -
  let ?vss = "map (map expr_tree) ts"
  have run: "z_ops (query_ops ts) z_fresh = Inr (in_query ?vss False [] [], False)"
    using ops_build(5) [OF ok] by simp
  have "\<forall>x \<in> set (query_ops ts). op_readable q s x"
    using all_ops(5) [OF read] by (simp add: list_all_iff op_readable_def)
  from read_ops [OF fresh_sim [OF fresh] run _ sp this go_on, of "[]"] bound obtain q' where q':
    "append_all_args stop (Suc (length (query_ops ts))) argv 0 q = Some (length argv, q')"
    "sim q' (in_query ?vss False [] [], False) [] []" "same_env q q'"
    by (auto simp: argv)
  have vss: "?vss \<noteq> []" "\<forall>vs \<in> set ?vss. vs \<noteq> []" using ok by (auto simp: terms_ok_def)
  note fin = end_of_query [OF vss]
  have env: "evaluates q' obj p = evaluates q obj p" using env_same(3) [OF q'(3)] by (rule ext)
  have val: "tree_val p (term_tree (map expr_tree t)) = (\<forall>f \<in> set t. expr_val p f)"
    "tree_all (evaluates q' obj p) (term_tree (map expr_tree t))" if "t \<in> set ts" for t
    using ok eval that expr_tree_val [of _ p] expr_tree_all [of "evaluates q obj p", OF evaluates_negate]
    by (auto simp: terms_ok_def term_val list_all_iff env term_tree_def split: list.splits)
  let ?t = "Node False False (map term_tree ?vss)"
  have "tree_val p ?t = query_val p ts"
    using ok val(1) by (auto simp: terms_ok_def query_val_def list_ex_iff)
  moreover have "eval_tree q' obj ?t (userData q', kQEQueryErrorNone) =
      Some (tree_val p ?t, userData q', kQEQueryErrorNone)"
    using val(2) sc env_same(4) [OF q'(3)] by (intro eval_tree_val) (auto simp: list_all_iff)
  moreover have "lastError q' = kQEQueryErrorNone" using q'(2) by (simp add: sim_def)
  then have "q'\<lparr>userData := userData q', lastError := kQEQueryErrorNone\<rparr> = q'" by simp
  ultimately have "QEQueryEvaluate obj q' = Some (query_val p ts, q')"
    using evaluate_sim(2) [OF q'(2), of obj] fin by (simp del: eval_tree.simps)
  with q'(1) evaluate_sim(1) [OF q'(2)] fin show ?thesis by auto
qed

text \<open>A query of two predicates; a bundle has one of them.\<close>

definition sample_element :: "string \<Rightarrow> bool \<Rightarrow> element" where
  "sample_element p neg = \<lparr>Predicate = p, Arguments = None, Negated = neg\<rparr>"

definition sample_query :: "(string, nat) query" where
  "sample_query = the (QEQueryCreate True 0)
     \<lparr>parseCallbacks := [(''-l'', \<lambda>argv (e, st). (True, 1, e, st)), (''-x'', \<lambda>argv (e, st). (True, 1, e, st))],
      evaluationCallbacks := [(''-l'', \<lambda>e obj st. (obj = Predicate e, st)), (''-x'', \<lambda>e obj st. (obj = Predicate e, st))]\<rparr>"

definition sample_spelling :: spelling where
  "sample_spelling = \<lparr>w_and = ''-and'', w_or = ''-or'', w_not = ''-not'', w_start = ''('', w_end = '')'',
     w_element = \<lambda>e. [Predicate e]\<rparr>"

definition sample_expr :: "expr list list" where
  "sample_expr = [[Atom False (sample_element ''-l'' False), Atom True (sample_element ''-x'' True)],
     [Group False True [[Atom False (sample_element ''-l'' False)]]]]"

lemma sample_fresh: "fresh_query sample_query" "shortCircuitEval sample_query"
  by (simp_all add: sample_query_def fresh_query_def QEQueryCreate_def QEQuerySetOperators_def Let_def)

lemma sample_spells: "spells sample_query sample_spelling"
  by (simp add: spells_def sample_query_def sample_spelling_def tokens_def QEQueryCreate_def QEQuerySetOperators_def
      Let_def QEQueryOperatorForToken_def QEPredicateForString_def kQEQueryTokenAnd_def kQEQueryTokenOr_def
      kQEQueryTokenNot_def kQEQueryTokenGroupStart_def kQEQueryTokenGroupEnd_def)

lemma sample_readable:
  "p = ''-l'' \<or> p = ''-x'' \<Longrightarrow> readable sample_query sample_spelling (sample_element p neg)"
  "p = ''-l'' \<or> p = ''-x'' \<Longrightarrow> evaluates sample_query obj (\<lambda>p args. obj = p) (sample_element p neg)"
  by (auto simp: readable_def evaluates_def sample_query_def sample_element_def sample_spelling_def tokens_def
      QEQueryCreate_def QEQuerySetOperators_def Let_def QEPredicateForString_def kQEQueryTokenAnd_def
      kQEQueryTokenOr_def kQEQueryTokenNot_def kQEQueryTokenGroupStart_def kQEQueryTokenGroupEnd_def
      leaf_ok_def kQEQueryPredicateAnd_def kQEQueryPredicateOr_def)

theorem query_language_witness:
  "\<exists>q'. append_all_args (Some ''-report'') 8 [''-l'', ''-and'', ''-not'', ''-x'', ''-or'', ''-not'', ''('', ''-l'', '')''] 0 sample_query =
      Some (9, q') \<and> QEQueryIsComplete q' \<and> QEQueryEvaluate ''-x'' q' = Some (True, q')"
proof -
  let ?e = "\<lambda>p neg. sample_element p neg"
  have ok: "terms_ok sample_expr"
    by (simp add: terms_ok_def sample_expr_def)
      (simp add: sample_element_def leaf_ok_def kQEQueryPredicateAnd_def kQEQueryPredicateOr_def)
  have ops: "query_ops sample_expr = [OpElement (?e ''-l'' False), OpAnd, OpElement (?e ''-x'' True), OpOr,
      OpStart True, OpElement (?e ''-l'' False), OpEnd]"
    by (simp add: sample_expr_def)
  have val: "query_val (\<lambda>p args. ''-x'' = p) sample_expr"
    by (simp add: query_val_def sample_expr_def) (simp add: sample_element_def)
  have all: "list_all (list_all (expr_all P)) sample_expr"
    if "P (?e ''-l'' False)" "P (?e ''-x'' True)" for P
    using that by (simp add: sample_expr_def)
  have words: "concat (map (op_words sample_spelling) (query_ops sample_expr)) =
      [''-l'', ''-and'', ''-not'', ''-x'', ''-or'', ''-not'', ''('', ''-l'', '')'']"
    by (simp add: ops sample_spelling_def) (simp add: sample_element_def)
  have len: "Suc (length (query_ops sample_expr)) = 8" "length (query_ops sample_expr) < 2 ^ 32" by (simp_all add: ops)
  have go: "\<forall>x \<in> set (query_ops sample_expr). Some ''-report'' \<noteq> Some (hd (op_words sample_spelling x))"
    by (simp add: ops sample_spelling_def) (simp add: sample_element_def)
  have read: "list_all (list_all (expr_all (readable sample_query sample_spelling))) sample_expr"
    "list_all (list_all (expr_all (evaluates sample_query ''-x'' (\<lambda>p args. ''-x'' = p)))) sample_expr"
    by (rule all; rule sample_readable; simp)+
  show ?thesis
    using query_language [OF sample_fresh sample_spells ok read len(2) go words [symmetric]] val unfolding len(1)
    by (simp add: eval_nat_numeral del: append_all_args.simps)
qed

text \<open>A trailing operator can go unnoticed. kextfind means to refuse it ("Unbalanced groups or
  trailing operator."), but an -and after the first factor of a term moves that factor into a new AND
  group, and the append that does this clears the flag of the pending operator: "a -and" and
  "a -and -or b" read to the end as complete queries, the first with the meaning of "a", the second with
  the meaning of "a -or b".\<close>

theorem dangling_and_accepted:
  assumes fresh: "fresh_query q" and sc: "shortCircuitEval q" and sp: "spells q s"
    and a: "readable q s a" "evaluates q obj p a" and b: "readable q s b" "evaluates q obj p b"
  shows "\<exists>q1 q2. append_all_args None 3 (op_words s (OpElement a) @ [w_and s]) 0 q =
        Some (length (op_words s (OpElement a)) + 1, q1) \<and>
      QEQueryIsComplete q1 \<and> QEQueryEvaluate obj q1 = Some (p (Predicate a) (Arguments a) \<noteq> Negated a, q1) \<and>
      append_all_args None 5 (op_words s (OpElement a) @ [w_and s, w_or s] @ op_words s (OpElement b)) 0 q =
        Some (length (op_words s (OpElement a)) + 2 + length (op_words s (OpElement b)), q2) \<and>
      QEQueryIsComplete q2 \<and> QEQueryEvaluate obj q2 =
        Some ((p (Predicate a) (Arguments a) \<noteq> Negated a) \<or> (p (Predicate b) (Arguments b) \<noteq> Negated b), q2)"
proof -
  have one: "\<exists>q'. append_all_args None (Suc (length xs)) (concat (map (op_words s) xs)) 0 q =
        Some (length (concat (map (op_words s) xs)), q') \<and> QEQueryIsComplete q' \<and>
      QEQueryEvaluate obj q' = Some (tree_val p t, q')"
    if xs: "z_ops xs z_fresh = Inr (fs, False)" "length xs < 2 ^ 32" "\<forall>x \<in> set xs. op_readable q s x"
      and t: "levels fs = 0" "z_tree fs = t" "tree_all (evaluates q obj p) t" for xs fs t
  proof -
    obtain q' where q': "append_all_args None (Suc (length xs)) (concat (map (op_words s) xs)) 0 q =
        Some (length (concat (map (op_words s) xs)), q')" "sim q' (fs, False) [] []" "same_env q q'"
      using read_ops [OF fresh_sim [OF fresh] xs(1) _ sp xs(3), of None "[]"] xs(2) by auto
    have "evaluates q' obj p = evaluates q obj p" using env_same(3) [OF q'(3)] by (rule ext)
    then have "eval_tree q' obj t (userData q', kQEQueryErrorNone) =
        Some (tree_val p t, userData q', kQEQueryErrorNone)"
      using t(3) sc env_same(4) [OF q'(3)] by (intro eval_tree_val) auto
    moreover have "lastError q' = kQEQueryErrorNone" using q'(2) by (simp add: sim_def)
    then have "q'\<lparr>userData := userData q', lastError := kQEQueryErrorNone\<rparr> = q'" by simp
    ultimately have "QEQueryEvaluate obj q' = Some (tree_val p t, q')"
      using evaluate_sim(2) [OF q'(2), of obj] t by (simp del: eval_tree.simps)
    with q'(1) evaluate_sim(1) [OF q'(2)] t(1) show ?thesis by auto
  qed
  have A: "\<forall>x \<in> set [OpElement a, OpAnd]. op_readable q s x"
    "\<forall>x \<in> set [OpElement a, OpAnd, OpOr, OpElement b]. op_readable q s x"
    using a b by (simp_all add: op_readable_def)
  have z: "z_ops [OpElement a, OpAnd] z_fresh = Inr ([Frame True False [Leaf a], Frame False False []], False)"
    "z_ops [OpElement a, OpAnd, OpOr, OpElement b] z_fresh =
       Inr ([Frame False False [Node True False [Leaf a], Leaf b]], False)"
    by (simp_all add: z_element_def z_and_def z_or_def z_is_and_def z_count_def)
  have "levels [Frame True False [Leaf a], Frame False False []] = 0"
    "levels [Frame False False [Node True False [Leaf a], Leaf b]] = 0"
    by (simp_all add: levels_def)
  note lev = this
  have all: "tree_all (evaluates q obj p) (z_tree [Frame True False [Leaf a], Frame False False []])"
    "tree_all (evaluates q obj p) (z_tree [Frame False False [Node True False [Leaf a], Leaf b]])"
    using a(2) b(2) by simp_all
  have words: "concat (map (op_words s) [OpElement a, OpAnd]) = op_words s (OpElement a) @ [w_and s]"
    "concat (map (op_words s) [OpElement a, OpAnd, OpOr, OpElement b]) =
       op_words s (OpElement a) @ [w_and s, w_or s] @ op_words s (OpElement b)" by simp_all
  have len: "Suc (length [OpElement a, OpAnd]) = 3" "Suc (length [OpElement a, OpAnd, OpOr, OpElement b]) = 5"
    "length (op_words s (OpElement a) @ [w_and s]) = length (op_words s (OpElement a)) + 1"
    "length (op_words s (OpElement a) @ [w_and s, w_or s] @ op_words s (OpElement b)) =
       length (op_words s (OpElement a)) + 2 + length (op_words s (OpElement b))" by simp_all
  have val: "tree_val p (z_tree [Frame True False [Leaf a], Frame False False []]) =
      (p (Predicate a) (Arguments a) \<noteq> Negated a)"
    "tree_val p (z_tree [Frame False False [Node True False [Leaf a], Leaf b]]) =
      ((p (Predicate a) (Arguments a) \<noteq> Negated a) \<or> (p (Predicate b) (Arguments b) \<noteq> Negated b))"
    by simp_all
  note q1 = one [OF z(1) _ A(1) lev(1) refl all(1), unfolded words len val]
    and q2 = one [OF z(2) _ A(2) lev(2) refl all(2), unfolded words len val]
  from q1 q2 show ?thesis by fastforce
qed

theorem dangling_and_accepted_witness:
  "\<exists>q1. append_all_args None 3 [''-l'', ''-and''] 0 sample_query = Some (2, q1) \<and>
     QEQueryIsComplete q1 \<and> QEQueryEvaluate ''-l'' q1 = Some (True, q1)"
proof -
  have r: "readable sample_query sample_spelling (sample_element ''-l'' False)"
    "evaluates sample_query ''-l'' (\<lambda>p args. ''-l'' = p) (sample_element ''-l'' False)"
    by (rule sample_readable; simp)+
  have w: "op_words sample_spelling (OpElement (sample_element ''-l'' False)) = [''-l'']"
    "w_and sample_spelling = ''-and''" "length [''-l''] = 1"
    by (simp_all add: sample_spelling_def sample_element_def)
  have v: "Predicate (sample_element ''-l'' False) = ''-l''" "Negated (sample_element ''-l'' False) = False"
    by (simp_all add: sample_element_def)
  show ?thesis
    using dangling_and_accepted [OF sample_fresh sample_spells r r, unfolded w v]
    by (auto simp: numeral_2_eq_2 simp del: append_all_args.simps)
qed

text \<open>A NOT before the end of a group is dropped: "-not )" uses two words and does exactly what
  ")" does, though NOT before an operator is a syntax error.\<close>

theorem not_before_group_end_ignored:
  assumes "spells q s"
  shows "QEQueryAppendElementFromArgs (w_not s # w_end s # rest) q =
      (case QEQueryEndGroup q of (True, q') \<Rightarrow> (True, 2, q') | (False, q') \<Rightarrow> (False, 1, q')) \<and>
    QEQueryAppendElementFromArgs (w_end s # rest) q =
      (case QEQueryEndGroup q of (True, q') \<Rightarrow> (True, 1, q') | (False, q') \<Rightarrow> (False, 0, q')) \<and>
    QEQueryAppendElementFromArgs (w_not s # w_or s # rest) q = (False, 1, set_error kQEQueryErrorSyntax q)"
  by (intro conjI) (auto simp: QEQueryAppendElementFromArgs_def append_predicate_def spells_operator [OF assms]
      spells_words [OF assms] split: prod.splits bool.splits)

theorem not_before_group_end_ignored_witness:
  "QEQueryAppendElementFromArgs [''-not'', '')''] sample_query =
     (case QEQueryEndGroup sample_query of (True, q') \<Rightarrow> (True, 2, q') | (False, q') \<Rightarrow> (False, 1, q'))"
  using not_before_group_end_ignored [OF sample_spells, of "[]"] by (simp add: sample_spelling_def)

text \<open>The engine against its abstract state, at the sample query.\<close>

theorem query_refines_groups_witness:
  "\<exists>q'. run_ops [OpElement (sample_element ''-l'' False), OpOr, OpElement (sample_element ''-x'' True)] sample_query =
     (True, q') \<and> QEQueryIsComplete q'"
proof -
  have ok: "\<forall>x \<in> set [OpElement (sample_element ''-l'' False), OpOr, OpElement (sample_element ''-x'' True)]. op_ok x"
    by (simp add: op_ok_def leaf_ok_def sample_element_def kQEQueryPredicateAnd_def kQEQueryPredicateOr_def)
  show ?thesis
    using query_refines_groups [OF sample_fresh(1) ok, of undefined]
    by (auto simp: z_element_def z_or_def z_is_and_def z_count_def levels_def simp del: run_ops.simps)
qed

end
