(* ===== verification/Errno.thy ===== *)
theory Errno
  imports Main
begin

text \<open>
  The constants of sys/errno.h and sys/syslimits.h that the sources of kext_tools compare with.
\<close>

definition EPERM :: int where "EPERM = 1"
definition ENOENT :: int where "ENOENT = 2"
definition EIO :: int where "EIO = 5"
definition ENOMEM :: int where "ENOMEM = 12"
definition EBUSY :: int where "EBUSY = 16"
definition EEXIST :: int where "EEXIST = 17"
definition ENODEV :: int where "ENODEV = 19"
definition ENOTDIR :: int where "ENOTDIR = 20"
definition EISDIR :: int where "EISDIR = 21"
definition EINVAL :: int where "EINVAL = 22"
definition EAGAIN :: int where "EAGAIN = 35"
definition EALREADY :: int where "EALREADY = 37"
definition ENAMETOOLONG :: int where "ENAMETOOLONG = 63"
definition ENOTEMPTY :: int where "ENOTEMPTY = 66"
definition ENOLCK :: int where "ENOLCK = 77"
definition EFTYPE :: int where "EFTYPE = 79"
definition EOVERFLOW :: int where "EOVERFLOW = 84"
definition ELAST :: int where "ELAST = 106"

definition PATH_MAX :: nat where "PATH_MAX = 1024"

lemmas errno_defs = EPERM_def ENOENT_def EIO_def ENOMEM_def EBUSY_def EEXIST_def ENODEV_def ENOTDIR_def
  EISDIR_def EINVAL_def EAGAIN_def EALREADY_def ENAMETOOLONG_def ENOTEMPTY_def ENOLCK_def EFTYPE_def
  EOVERFLOW_def ELAST_def

end
