(* ===== verification/KextdState.thy ===== *)
theory KextdState
  imports CFModel Errno "HOL-Library.Multiset"
begin

text \<open>
  src/kextd_watchvol.c: the state of kextd's volume watcher. \<open>struct watchedVol\<close>s are in a store
  addressed by numbers, because the module keeps pointers to them in two tables, in run-loop
  timers and in the contexts of Mach ports, and frees them when a volume goes away; \<open>stale\<close>
  records an access to a freed one. A CFMachPort is named by the port it wraps (Core Foundation
  keeps one object per port); \<open>ports\<close> has the context of the ports that are tracked. What
  the system answers during one event, and whether its services succeed, is in \<open>env\<close>.
\<close>

section \<open>Volumes\<close>

text \<open>\<open>struct bootCaches\<close>, as far as the watcher reads it.\<close>

record bootCaches =
  root :: string
  bsdname :: string
  bcTime :: "int \<times> int"
  kernelpath :: string
  kext_boot_cache_file :: string
  watchedExts :: "string list"
  locSource :: string
  bgImage :: string
  rpspaths :: "string list"
  efibooter :: string
  ofbooter :: string
  miscpaths :: "string list"
  kernelsCount :: int
  extraKernelCachePaths :: "string list option"

record watchedVol =
  delayer :: bool
  lock :: "nat option"
  waiters :: "nat list"
  updterrs :: i32
  updtattempts :: i32
  origMntFlags :: u32
  isBootRoot :: bool
  notify_tokens :: "nat list"
  caches :: bootCaches
  vol_index :: nat

datatype port_context = RebootContext | VolumeContext nat

text \<open>What the module does to the rest of the system, in order.\<close>

datatype action =
    Launched string | ReplyVolume nat int | ReplyReboot nat int | ReplyFailed nat | ReplyDropped nat
  | BootDevice string | UnlinkStamps string | SetMount string u32 | RescanExtensions

text \<open>The module-wide data; \<open>asked\<close> lists the reply ports of the requests that were left waiting.\<close>

record kextd =
  vols :: "nat \<Rightarrow> watchedVol option"
  sFsysWatchDict :: "(nat \<times> nat) list option"
  sVolTable :: "(nat \<times> nat) list"
  sReplyPorts :: "(nat \<times> nat) list"
  sRebootLock :: "nat option"
  sRebootWaiter :: "nat option"
  sAutoUpdateDelayer :: bool
  sNextVolIndex :: nat
  ports :: "nat \<Rightarrow> port_context option"
  out :: "action list"
  asked :: "nat list"
  stale :: bool

text \<open>A disk by its description.\<close>

record disk =
  d_uuid :: "nat option"
  d_path :: "string option"
  d_writable :: "bool option"
  d_network :: "bool option"

text \<open>The system during an event. \<open>malloc\<close> is given the structs in use.\<close>

record env =
  malloc :: "(nat \<Rightarrow> watchedVol option) \<Rightarrow> nat option"
  gClientUID :: nat
  out_of_my_way :: bool
  base_system :: bool
  statfs_flags :: "string \<Rightarrow> u32 option"
  read_caches :: "disk \<Rightarrow> bootCaches option"
  boots :: "string \<Rightarrow> bool \<times> string list option \<times> string list option"
  notify_token :: "string \<Rightarrow> nat option"
  kernels_beside :: "string \<Rightarrow> string list"
  cache_stale :: "string \<Rightarrow> string \<Rightarrow> string \<Rightarrow> bool"
  autorebuild_disabled :: bool
  csfde_stale :: "string \<Rightarrow> bool"
  needs_updates :: "string \<Rightarrow> bool"
  launch_ok :: "string \<Rightarrow> bool"
  plists_stale :: bool
  path_extension :: "string \<Rightarrow> string option"
  memory_ok :: bool
  port_ok :: "nat \<Rightarrow> bool"
  reply_ok :: "nat \<Rightarrow> bool"
  timers_ok :: bool
  installer_active :: "string \<Rightarrow> bool"
  stat_plist :: "string \<Rightarrow> int + int \<times> int"
  disk_for_mount :: "string \<Rightarrow> disk option"
  local_mounts :: "string list"

definition kMaxUpdateFailures :: int where "kMaxUpdateFailures = 5"
definition kMaxUpdateAttempts :: int where "kMaxUpdateAttempts = 25"


definition MNT_RDONLY :: u32 where "MNT_RDONLY = 0x1"
definition MNT_DONTBROWSE :: u32 where "MNT_DONTBROWSE = 0x100000"
definition MNT_IGNORE_OWNERSHIP :: u32 where "MNT_IGNORE_OWNERSHIP = 0x200000"

section \<open>Access to the state\<close>

definition emit :: "action \<Rightarrow> kextd \<Rightarrow> kextd" where
  "emit x s = s\<lparr>out := out s @ [x]\<rparr>"

definition no_caches :: bootCaches where
  "no_caches = \<lparr>root = [], bsdname = [], bcTime = (0, 0), kernelpath = [], kext_boot_cache_file = [],
     watchedExts = [], locSource = [], bgImage = [], rpspaths = [], efibooter = [], ofbooter = [],
     miscpaths = [], kernelsCount = 0, extraKernelCachePaths = None\<rparr>"

text \<open>A struct as \<open>calloc\<close> makes it.\<close>

definition new_vol :: "bootCaches \<Rightarrow> watchedVol" where
  "new_vol c = \<lparr>delayer = False, lock = None, waiters = [], updterrs = 0, updtattempts = 0, origMntFlags = 0,
     isBootRoot = False, notify_tokens = [], caches = c, vol_index = 0\<rparr>"

text \<open>Using a pointer that was freed is recorded; what is then read is of no importance.\<close>

definition touch :: "nat \<Rightarrow> kextd \<Rightarrow> kextd" where
  "touch a s = (if vols s a = None then s\<lparr>stale := True\<rparr> else s)"

definition vol :: "kextd \<Rightarrow> nat \<Rightarrow> watchedVol" where
  "vol s a = (case vols s a of Some w \<Rightarrow> w | None \<Rightarrow> new_vol no_caches)"

definition upd_vol :: "nat \<Rightarrow> (watchedVol \<Rightarrow> watchedVol) \<Rightarrow> kextd \<Rightarrow> kextd" where
  "upd_vol a f s = (case vols s a of Some w \<Rightarrow> s\<lparr>vols := (vols s)(a \<mapsto> f w)\<rparr> | None \<Rightarrow> s\<lparr>stale := True\<rparr>)"

definition vol_root :: "kextd \<Rightarrow> nat \<Rightarrow> string" where
  "vol_root s a = root (caches (vol s a))"

definition watch_list :: "kextd \<Rightarrow> (nat \<times> nat) list" where
  "watch_list s = (case sFsysWatchDict s of Some d \<Rightarrow> d | None \<Rightarrow> [])"

definition watched_at :: "kextd \<Rightarrow> nat \<Rightarrow> nat option" where
  "watched_at s uuid = dict_get (=) (watch_list s) uuid"

text \<open>\<open>CFDictionaryGetCountOfValue\<close> as a test.\<close>

definition is_watched :: "kextd \<Rightarrow> nat \<Rightarrow> bool" where
  "is_watched s a \<longleftrightarrow> a \<in> set (map snd (watch_list s))"

definition dict_remove :: "('k \<times> 'v) list \<Rightarrow> 'k \<Rightarrow> ('k \<times> 'v) list" where
  "dict_remove d k = filter (\<lambda>x. fst x \<noteq> k) d"

section \<open>Ports\<close>

text \<open>\<open>createWatchedPort\<close>: the port keeps the context that it was first given.\<close>

definition createWatchedPort :: "env \<Rightarrow> nat \<Rightarrow> port_context \<Rightarrow> kextd \<Rightarrow> nat option \<times> kextd" where
  "createWatchedPort e mport ctx s =
     (if \<not> port_ok e mport then (None, s)
      else (Some mport, if ports s mport = None then s\<lparr>ports := (ports s)(mport \<mapsto> ctx)\<rparr> else s))"

text \<open>\<open>cleanupPort\<close>: the port is no longer tracked; a reply right that is still there is dropped.\<close>

definition cleanupPort :: "nat \<Rightarrow> kextd \<Rightarrow> kextd" where
  "cleanupPort port s =
     (let s = s\<lparr>ports := (ports s)(port := None)\<rparr>;
          s = (case dict_get (=) (sReplyPorts s) port of
                 Some replyPort \<Rightarrow> emit (ReplyDropped replyPort) s | None \<Rightarrow> s)
      in s\<lparr>sReplyPorts := dict_remove (sReplyPorts s) port\<rparr>)"

text \<open>\<open>signalWaiter\<close>: whether the reply was sent.\<close>

definition signalWaiter :: "env \<Rightarrow> nat \<Rightarrow> int \<Rightarrow> kextd \<Rightarrow> bool \<times> kextd" where
  "signalWaiter e waiter status s =
     (let replyPort = dict_get (=) (sReplyPorts s) waiter;
          s = s\<lparr>sReplyPorts := dict_remove (sReplyPorts s) waiter\<rparr>
      in case replyPort of
           None \<Rightarrow> (False, s)
         | Some r \<Rightarrow>
             if \<not> reply_ok e r then (False, emit (ReplyFailed r) s)
             else (True, emit (if sRebootWaiter s = Some waiter then ReplyReboot r status else ReplyVolume r status) s))"

section \<open>Structs\<close>

text \<open>\<open>destroy_watchedVol\<close>; notifications are only cancelled.\<close>

definition destroy_watchedVol :: "nat \<Rightarrow> kextd \<Rightarrow> kextd" where
  "destroy_watchedVol a s =
     (let s = touch a s
      in s\<lparr>sVolTable := dict_remove (sVolTable s) (vol_index (vol s a)), vols := (vols s)(a := None)\<rparr>)"

definition create_watchedVol :: "env \<Rightarrow> disk \<Rightarrow> kextd \<Rightarrow> nat option \<times> kextd" where
  "create_watchedVol e d s =
     (case malloc e (vols s) of
        None \<Rightarrow> (None, s)
      | Some a \<Rightarrow>
          (case read_caches e d of
             None \<Rightarrow> (None, s)
           | Some c \<Rightarrow>
               (let boot_root = fst (boots e (bsdname c));
                    s = (if boot_root then s else emit (UnlinkStamps (root c)) s)
                in if \<not> memory_ok e then (None, s)
                   else (Some a,
                     s\<lparr>vols := (vols s)(a \<mapsto> (new_vol c)\<lparr>isBootRoot := boot_root, vol_index := sNextVolIndex s\<rparr>),
                       sVolTable := dict_set (=) (sVolTable s) (sNextVolIndex s) a,
                       sNextVolIndex := sNextVolIndex s + 1\<rparr>))))"

end
