(* ===== verification/KextdWatch.thy ===== *)
theory KextdWatch
  imports KextdState
begin

text \<open>
  src/kextd_watchvol.c: checking volumes and reacting to their appearance, change and
  disappearance. Every operation is a function from the state to the state and what it returns;
  the parameter \<open>e\<close> is the system during the event.
\<close>

section \<open>Checking a volume\<close>

text \<open>The first data partition or boot partition is made the boot device if its name fits.\<close>

definition set_boot_device :: "string list \<Rightarrow> kextd \<Rightarrow> kextd" where
  "set_boot_device parts s =
     (case parts of [] \<Rightarrow> s | p # _ \<Rightarrow> if length p < 128 then emit (BootDevice p) s else s)"

text \<open>\<open>check_boots_set_nvram\<close> and \<open>check_rebuild\<close> call each other; here the former is given what to
  call.\<close>

definition check_boots_with :: "(kextd \<Rightarrow> bool \<times> kextd) \<Rightarrow> env \<Rightarrow> nat \<Rightarrow> kextd \<Rightarrow> kextd" where
  "check_boots_with rebuild e a s =
     (case vols s a of
        None \<Rightarrow> touch a s
      | Some w \<Rightarrow>
          (case boots e (bsdname (caches w)) of
             (hasBoots, Some bparts, Some dparts) \<Rightarrow>
               if hasBoots then
                 (if isBootRoot w then s
                  else
                    (let s = upd_vol a (\<lambda>w. w\<lparr>isBootRoot := True\<rparr>) s; s = snd (rebuild s)
                     in if vol_root s a = ''/'' then set_boot_device bparts s else s))
               else
                 (if isBootRoot w then
                    (let s = upd_vol a (\<lambda>w. w\<lparr>isBootRoot := False\<rparr>) s; s = emit (UnlinkStamps (vol_root s a)) s
                     in if vol_root s a = ''/'' \<and> length dparts = 1 then set_boot_device dparts s else s)
                  else s)
           | _ \<Rightarrow> s))"

definition extra_caches :: "bootCaches \<Rightarrow> string list" where
  "extra_caches c = (case extraKernelCachePaths c of None \<Rightarrow> [] | Some paths \<Rightarrow> paths)"

text \<open>Whether an extra kernel cache has to be rebuilt; a name that does not fit is passed over.\<close>

definition extra_stale :: "env \<Rightarrow> bootCaches \<Rightarrow> string \<Rightarrow> bool" where
  "extra_stale e c rpath =
     (case path_extension e rpath of
        None \<Rightarrow> False
      | Some suffix \<Rightarrow>
          length (kernelpath c @ ''.'' @ suffix) < PATH_MAX \<and>
          cache_stale e (root c) rpath (kernelpath c @ ''.'' @ suffix) \<and> \<not> autorebuild_disabled e)"

text \<open>The end of \<open>check_rebuild\<close>, from its label \<open>dorebuild\<close>.\<close>

definition do_rebuild :: "env \<Rightarrow> nat \<Rightarrow> bool \<Rightarrow> kextd \<Rightarrow> bool \<times> kextd" where
  "do_rebuild e a wantRebuild s =
     (let (launched, s) =
        (if wantRebuild then
           (if launch_ok e (vol_root s a)
            then (True, upd_vol a (\<lambda>w. w\<lparr>updtattempts := updtattempts w + 1\<rparr>) (emit (Launched (vol_root s a)) s))
            else (False, upd_vol a (\<lambda>w. w\<lparr>updterrs := updterrs w + 1\<rparr>) s))
         else (False, s))
      in (launched, if vol_root s a = ''/'' \<and> plists_stale e then emit RescanExtensions s else s))"

text \<open>\<open>check_rebuild\<close>; the fuel is for the call by \<open>check_boots_set_nvram\<close>.\<close>

fun check_rebuild_fuel :: "nat \<Rightarrow> env \<Rightarrow> nat \<Rightarrow> kextd \<Rightarrow> bool \<times> kextd" where
  "check_rebuild_fuel 0 e a s = (False, s)"
| "check_rebuild_fuel (Suc n) e a s =
     (let s = upd_vol a (\<lambda>w. w\<lparr>delayer := False\<rparr>) s; w = vol s a; c = caches w in
      if sint (updtattempts w) > kMaxUpdateAttempts then (False, s)
      else if out_of_my_way e then (False, s)
      else if cache_stale e (root c) (kext_boot_cache_file c) (kernelpath c) \<and> \<not> autorebuild_disabled e
      then do_rebuild e a True s
      else if extraKernelCachePaths c \<noteq> None \<and> \<not> memory_ok e then (False, s)
      else if \<exists>rpath \<in> set (extra_caches c). extra_stale e c rpath
      then do_rebuild e a True s
      else
        (let s = check_boots_with (check_rebuild_fuel n e a) e a s in
         do_rebuild e a
           (isBootRoot (vol s a) \<and> (csfde_stale e (vol_root s a) \<or> needs_updates e (vol_root s a))) s))"

text \<open>Two levels are enough: the inner call finds the volume with its boot partitions.\<close>

definition check_rebuild :: "env \<Rightarrow> nat \<Rightarrow> kextd \<Rightarrow> bool \<times> kextd" where
  "check_rebuild = check_rebuild_fuel 2"

definition check_boots_set_nvram :: "env \<Rightarrow> nat \<Rightarrow> kextd \<Rightarrow> kextd" where
  "check_boots_set_nvram e a s = check_boots_with (check_rebuild e a) e a s"

definition check_vol_busy :: "env \<Rightarrow> nat \<Rightarrow> kextd \<Rightarrow> bool \<times> kextd" where
  "check_vol_busy e a s =
     (let s = touch a s; w = vol s a in
      if lock w \<noteq> None then (True, s)
      else if sint (updterrs w) < kMaxUpdateFailures \<and> sint (updtattempts w) < kMaxUpdateAttempts then check_rebuild e a s
      else (False, s))"

text \<open>\<open>check_locked\<close> for each watched volume; the last busy one is in \<open>busyVol\<close>.\<close>

definition check_locked :: "env \<Rightarrow> nat \<Rightarrow> string \<times> kextd \<Rightarrow> string \<times> kextd" where
  "check_locked e a st =
     (case st of (busyVol, s) \<Rightarrow>
        (case check_vol_busy e a s of (busy, s) \<Rightarrow> (if busy then vol_root s a else busyVol, s)))"

definition checkAllWatched :: "env \<Rightarrow> kextd \<Rightarrow> bool \<times> string \<times> kextd" where
  "checkAllWatched e s =
     (case fold (\<lambda>x. check_locked e (snd x)) (watch_list s) ([], s) of
        (busyVol, s) \<Rightarrow> (busyVol \<noteq> [], busyVol, s))"

section \<open>Volumes that disappear and appear\<close>

text \<open>The waiters are told from the last to the first.\<close>

definition abandon_waiters :: "env \<Rightarrow> nat list \<Rightarrow> kextd \<Rightarrow> kextd" where
  "abandon_waiters e ws s = fold (\<lambda>w s. cleanupPort w (snd (signalWaiter e w ENOENT s))) (rev ws) s"

definition vol_disappeared :: "env \<Rightarrow> disk option \<Rightarrow> kextd \<Rightarrow> kextd" where
  "vol_disappeared e d s =
     (case d of
        None \<Rightarrow> s
      | Some d \<Rightarrow>
          (case d_uuid d of
             None \<Rightarrow> s
           | Some uuid \<Rightarrow>
               (case watched_at s uuid of
                  None \<Rightarrow> s
                | Some a \<Rightarrow>
                    (let s = touch a s in
                     if vol_root s a = ''/'' then s
                     else
                       (let s = s\<lparr>sFsysWatchDict := map_option (\<lambda>l. dict_remove l uuid) (sFsysWatchDict s)\<rparr>;
                            s = upd_vol a (\<lambda>w. w\<lparr>delayer := False\<rparr>) s;
                            s = abandon_waiters e (waiters (vol s a)) s
                        in destroy_watchedVol a s)))))"

definition kInstallCommitPath :: string where "kInstallCommitPath = ''/private/var/run/installd.commit.pid''"
definition kBootCachesPath :: string where "kBootCachesPath = ''/usr/standalone/bootcaches.plist''"
definition kWatchKeyBase :: string where "kWatchKeyBase = ''com.apple.system.kextd.fswatch''"

text \<open>\<open>watch_path\<close>: the key must fit, and notifyd must give a token.\<close>

definition watch_path :: "env \<Rightarrow> string \<Rightarrow> nat \<Rightarrow> kextd \<Rightarrow> bool \<times> kextd" where
  "watch_path e path a s =
     (if length (kWatchKeyBase @ path) \<ge> PATH_MAX then (False, s)
      else
        (case notify_token e path of
           None \<Rightarrow> (False, s)
         | Some token \<Rightarrow> (True, upd_vol a (\<lambda>w. w\<lparr>notify_tokens := notify_tokens w @ [token]\<rparr>) s)))"

text \<open>\<open>WATCH\<close> on one path after the other.\<close>

fun watch_all :: "env \<Rightarrow> nat \<Rightarrow> string list \<Rightarrow> kextd \<Rightarrow> bool \<times> kextd" where
  "watch_all e a [] s = (True, s)"
| "watch_all e a (p # ps) s =
     (let fullp = vol_root s a @ p in
      if length fullp \<ge> PATH_MAX then (False, s)
      else (case watch_path e fullp a s of (False, s) \<Rightarrow> (False, s) | (True, s) \<Rightarrow> watch_all e a ps s))"

text \<open>\<open>watch_kernels\<close>: the directory of the kernel and the kernels in it that have one suffix; what
  cannot be watched is passed over. \<open>kernels_beside\<close> lists the directory by path and last component.\<close>

definition parent_of :: "string \<Rightarrow> string" where
  "parent_of path = rev (tl (dropWhile (\<lambda>c. c \<noteq> CHR ''/'') (rev path)))"

definition other_kernel :: "string \<Rightarrow> bool" where
  "other_kernel name \<longleftrightarrow> take 7 name = ''kernel.'' \<and> drop (length name - 4) name \<noteq> ''dSYM'' \<and>
     length (filter (\<lambda>c. c = CHR ''.'') name) \<le> 1"

definition watch_kernels :: "env \<Rightarrow> nat \<Rightarrow> string \<Rightarrow> kextd \<Rightarrow> kextd" where
  "watch_kernels e a kernelPath s =
     (let kernel = vol_root s a @ kernelPath; dir = parent_of kernel in
      if length kernel \<ge> PATH_MAX then s
      else fold (\<lambda>p s. snd (watch_path e p a s))
             (dir # map (\<lambda>n. dir @ ''/'' @ n) (filter other_kernel (kernels_beside e dir))) s)"

definition nonempty_path :: "string \<Rightarrow> string list" where
  "nonempty_path p = (if p = [] then [] else [p])"

text \<open>All paths that are watched on a volume.\<close>

definition watch_volume :: "env \<Rightarrow> nat \<Rightarrow> kextd \<Rightarrow> bool \<times> kextd" where
  "watch_volume e a s =
     (let c = caches (vol s a) in
      case watch_all e a ([kBootCachesPath, kInstallCommitPath] @ watchedExts c @ [kernelpath c]) s of
        (False, s) \<Rightarrow> (False, s)
      | (True, s) \<Rightarrow>
          (case (if kernelsCount c > 0
                 then watch_all e a (extra_caches c) (watch_kernels e a (kernelpath c) s)
                 else (True, s)) of
             (False, s) \<Rightarrow> (False, s)
           | (True, s) \<Rightarrow>
               watch_all e a ([locSource c, bgImage c] @ rpspaths c @ nonempty_path (efibooter c) @
                 nonempty_path (ofbooter c) @ miscpaths c) s))"

text \<open>The tests of \<open>vol_appeared\<close> on a mounted volume. The variable that the code calls \<open>isRoot\<close> is
  true when the path is not the root.\<close>

definition wants_watch :: "env \<Rightarrow> disk \<Rightarrow> bool" where
  "wants_watch e d \<longleftrightarrow>
     (case d_path d of
        None \<Rightarrow> False
      | Some path \<Rightarrow>
          length path < PATH_MAX \<and>
          (case statfs_flags e path of
             None \<Rightarrow> False
           | Some flags \<Rightarrow>
               (let isRoot = (path \<noteq> ''/'') in
                \<not> ((\<not> isRoot \<or> (isRoot \<and> base_system e)) \<and> and flags MNT_RDONLY \<noteq> 0) \<and>
                and flags MNT_DONTBROWSE = 0)) \<and>
          d_writable d = Some True \<and> d_network d = Some False)"

definition add_watch :: "env \<Rightarrow> disk \<Rightarrow> nat \<Rightarrow> kextd \<Rightarrow> bool \<times> kextd" where
  "add_watch e d uuid s =
     (if \<not> wants_watch e d then (False, s)
      else
        (case create_watchedVol e d s of
           (None, s) \<Rightarrow> (False, s)
         | (Some a, s) \<Rightarrow>
             (case watch_volume e a s of
                (False, s) \<Rightarrow> (False, destroy_watchedVol a s)
              | (True, s) \<Rightarrow>
                  (let s = s\<lparr>sFsysWatchDict := map_option (\<lambda>l. dict_set (=) l uuid a) (sFsysWatchDict s)\<rparr> in
                   if sAutoUpdateDelayer s then (False, s) else check_rebuild e a s))))"

text \<open>\<open>vol_appeared\<close>, with whether an update was launched.\<close>

definition vol_appeared :: "env \<Rightarrow> disk option \<Rightarrow> kextd \<Rightarrow> bool \<times> kextd" where
  "vol_appeared e d s =
     (case d of
        None \<Rightarrow> (False, s)
      | Some d \<Rightarrow>
          (case d_uuid d of
             None \<Rightarrow> (False, s)
           | Some uuid \<Rightarrow>
               (case watched_at s uuid of
                  None \<Rightarrow> add_watch e d uuid s
                | Some a \<Rightarrow>
                    (let s = touch a s in
                     if vol_root s a = ''/'' then (False, s)
                     else add_watch e d uuid (vol_disappeared e (Some d) s)))))"

text \<open>\<open>vol_changed\<close>: the keys are walked through from the last to the first, with the struct that
  the volume had when it began. Once freed memory was used, nothing more matters.\<close>

datatype change = VolumePathKey | MediaContentKey | OtherKey

definition changed_key :: "env \<Rightarrow> disk \<Rightarrow> nat option \<Rightarrow> change \<Rightarrow> kextd \<Rightarrow> kextd" where
  "changed_key e d watched key s =
     (case key of
        VolumePathKey \<Rightarrow>
          (let s = (if watched \<noteq> None then vol_disappeared e (Some d) s else s)
           in if d_path d \<noteq> None then snd (vol_appeared e (Some d) s) else s)
      | MediaContentKey \<Rightarrow>
          (case watched of
             None \<Rightarrow> snd (vol_appeared e (Some d) s)
           | Some a \<Rightarrow> check_boots_set_nvram e a s)
      | OtherKey \<Rightarrow> s)"

definition vol_changed :: "env \<Rightarrow> disk option \<Rightarrow> change list \<Rightarrow> kextd \<Rightarrow> kextd" where
  "vol_changed e d keys s =
     (case d of
        None \<Rightarrow> s
      | Some d \<Rightarrow>
          (case d_uuid d of
             None \<Rightarrow> s
           | Some uuid \<Rightarrow>
               (let watched = watched_at s uuid
                in fold (\<lambda>key s. if stale s then s else changed_key e d watched key s) (rev keys) s)))"

section \<open>Timers and notifications\<close>

definition checkScheduleUpdate :: "env \<Rightarrow> nat \<Rightarrow> kextd \<Rightarrow> kextd" where
  "checkScheduleUpdate e a s =
     (if \<not> is_watched s a then s
      else
        (let s = touch a s; r = vol_root s a in
         if length (r @ kInstallCommitPath) \<ge> PATH_MAX then s
         else if installer_active e r then s
         else if out_of_my_way e then s
         else if length (r @ kBootCachesPath) \<ge> PATH_MAX then s
         else
           (case stat_plist e (r @ kBootCachesPath) of
              Inl errno \<Rightarrow> s
            | Inr time \<Rightarrow>
                if time \<noteq> bcTime (caches (vol s a)) then
                  (case disk_for_mount e r of
                     None \<Rightarrow> s
                   | Some d \<Rightarrow> snd (vol_appeared e (Some d) (vol_disappeared e (Some d) s)))
                else if \<not> sAutoUpdateDelayer s then upd_vol a (\<lambda>w. w\<lparr>delayer := timers_ok e\<rparr>) s
                else s)))"

definition fsys_changed :: "env \<Rightarrow> nat option \<Rightarrow> kextd \<Rightarrow> kextd" where
  "fsys_changed e nstate s =
     (case nstate of
        None \<Rightarrow> s
      | Some n \<Rightarrow>
          if n > sNextVolIndex s then s
          else (case dict_get (=) (sVolTable s) n of None \<Rightarrow> s | Some a \<Rightarrow> checkScheduleUpdate e a s))"

definition check_now :: "env \<Rightarrow> nat \<Rightarrow> kextd \<Rightarrow> kextd" where
  "check_now e a s =
     (if is_watched s a then snd (check_rebuild e a (upd_vol a (\<lambda>w. w\<lparr>delayer := False\<rparr>) s)) else s)"

definition checkAutoUpdate :: "env \<Rightarrow> kextd \<Rightarrow> kextd" where
  "checkAutoUpdate e s = (case checkAllWatched e (s\<lparr>sAutoUpdateDelayer := False\<rparr>) of (_, _, s) \<Rightarrow> s)"

text \<open>\<open>is_dadisk_busy\<close>: whether the unmount is objected to.\<close>

definition is_dadisk_busy :: "env \<Rightarrow> disk option \<Rightarrow> kextd \<Rightarrow> bool \<times> kextd" where
  "is_dadisk_busy e d s =
     (if base_system e then (False, s)
      else
        (case d of
           None \<Rightarrow> (False, s)
         | Some d \<Rightarrow>
             (case d_uuid d of
                None \<Rightarrow> (False, s)
              | Some uuid \<Rightarrow>
                  (let s = (if sAutoUpdateDelayer s then s\<lparr>sAutoUpdateDelayer := timers_ok e\<rparr> else s);
                       s = (if watched_at s uuid = None then snd (vol_appeared e (Some d) s) else s)
                   in case watched_at s uuid of
                        None \<Rightarrow> (False, s)
                      | Some a \<Rightarrow>
                          if (case d_path d of
                                None \<Rightarrow> False
                              | Some p \<Rightarrow> length p < PATH_MAX \<and> stat_plist e (p @ kBootCachesPath) = Inl ENOENT)
                          then (False, s)
                          else
                            (let s = touch a s;
                                 (busy, s) = (if lock (vol s a) \<noteq> None then (True, s)
                                              else if isBootRoot (vol s a) then check_vol_busy e a s else (False, s))
                             in if busy then (True, upd_vol a (\<lambda>w. if updterrs w = 0 then w\<lparr>updterrs := 1\<rparr> else w) s)
                                else (False, s))))))"

section \<open>Looking at all mounts\<close>

definition reconsiderVolume :: "env \<Rightarrow> string \<Rightarrow> kextd \<Rightarrow> bool \<times> kextd" where
  "reconsiderVolume e mount s =
     (case disk_for_mount e mount of
        None \<Rightarrow> (False, s)
      | Some d \<Rightarrow>
          (case d_uuid d of
             None \<Rightarrow> (False, s)
           | Some uuid \<Rightarrow>
               if watched_at s uuid = None then vol_appeared e (Some d) s
               else (False, vol_changed e (Some d) [MediaContentKey] s)))"

fun reconsider_all :: "env \<Rightarrow> string list \<Rightarrow> string option \<Rightarrow> kextd \<Rightarrow> string option \<times> kextd" where
  "reconsider_all e [] busyVol s = (busyVol, s)"
| "reconsider_all e (m # ms) busyVol s =
     (case reconsiderVolume e m s of
        (launched, s) \<Rightarrow> reconsider_all e ms (if launched \<and> busyVol = None then Some m else busyVol) s)"

definition reconsiderVolumes :: "env \<Rightarrow> kextd \<Rightarrow> string option \<times> kextd" where
  "reconsiderVolumes e s =
     (if sFsysWatchDict s = None then (None, s) else reconsider_all e (local_mounts e) None s)"

text \<open>\<open>updateVolForMedia\<close>, on a RAID set or a CoreStorage volume that changed, with the description of
  its volume. The third parameter is whether removing the stamps worked.\<close>

definition updateVolForMedia :: "env \<Rightarrow> disk option \<Rightarrow> bool \<Rightarrow> bool \<Rightarrow> kextd \<Rightarrow> kextd" where
  "updateVolForMedia e d invalidateStamps unlinked s =
     (case d of
        None \<Rightarrow> s
      | Some d \<Rightarrow>
          (case d_uuid d of
             None \<Rightarrow> s
           | Some uuid \<Rightarrow>
               (case watched_at s uuid of
                  None \<Rightarrow> s
                | Some a \<Rightarrow>
                    if invalidateStamps \<and> \<not> unlinked then s
                    else checkScheduleUpdate e a
                      (if invalidateStamps then emit (UnlinkStamps (vol_root s a)) s else s))))"

end
