(* ===== verification/KextdLocks.thy ===== *)
theory KextdLocks
  imports KextdWatch
begin

text \<open>
  src/kextd_watchvol.c: the locks that kextd arbitrates. kextcache locks a volume while it updates
  it, shutdown and reboot lock out everything; a client that may wait is queued and answered
  later, and a client that dies is found out by its port. The events the module reacts to and the
  states it can reach are an inductive relation.
\<close>

section \<open>Handing a lock on\<close>

text \<open>The loop of \<open>handleWatchedHandoff\<close>: waiters whose reply fails are cleaned up.\<close>

fun grant_next :: "env \<Rightarrow> nat \<Rightarrow> nat list \<Rightarrow> kextd \<Rightarrow> kextd" where
  "grant_next e a [] s = s"
| "grant_next e a (w # ws) s =
     (let s = upd_vol a (\<lambda>v. v\<lparr>lock := Some w, waiters := ws\<rparr>) s in
      case signalWaiter e w 0 s of
        (True, s) \<Rightarrow> s
      | (False, s) \<Rightarrow> grant_next e a ws (upd_vol a (\<lambda>v. v\<lparr>lock := None\<rparr>) (cleanupPort w s)))"

definition handleWatchedHandoff :: "env \<Rightarrow> nat \<Rightarrow> kextd \<Rightarrow> kextd" where
  "handleWatchedHandoff e a s =
     (let s = touch a s;
          s = (case lock (vol s a) of
                 Some p \<Rightarrow> upd_vol a (\<lambda>v. v\<lparr>lock := None\<rparr>) (cleanupPort p s)
               | None \<Rightarrow> s)
      in grant_next e a (waiters (vol s a)) s)"

definition handleRebootHandoff :: "env \<Rightarrow> kextd \<Rightarrow> kextd" where
  "handleRebootHandoff e s =
     (case checkAllWatched e s of
        (True, busyVol, s) \<Rightarrow> s
      | (False, busyVol, s) \<Rightarrow>
          (case sRebootWaiter s of
             None \<Rightarrow> s
           | Some w \<Rightarrow>
               (case signalWaiter e w 0 s of
                  (True, s) \<Rightarrow> s\<lparr>sRebootLock := Some w, sRebootWaiter := None\<rparr>
                | (False, s) \<Rightarrow> s\<lparr>sRebootWaiter := None\<rparr>)))"

text \<open>What follows the release of a volume in its two callers.\<close>

definition after_release :: "env \<Rightarrow> nat \<Rightarrow> kextd \<Rightarrow> kextd" where
  "after_release e a s =
     (let s = handleWatchedHandoff e a s in
      if sRebootLock s = None \<and> sRebootWaiter s \<noteq> None then handleRebootHandoff e s else s)"

text \<open>Owners are disabled again if they were enabled for the locker.\<close>

definition restore_owners :: "nat \<Rightarrow> kextd \<Rightarrow> kextd" where
  "restore_owners a s =
     (if origMntFlags (vol s a) \<noteq> 0
      then upd_vol a (\<lambda>w. w\<lparr>origMntFlags := 0\<rparr>) (emit (SetMount (vol_root s a) (origMntFlags (vol s a))) s)
      else s)"

section \<open>The services\<close>

text \<open>A service answers with a status, leaves the client waiting, or fails.\<close>

datatype service = Answer int | NoReply | Failure

definition kextmanager_lock_reboot :: "env \<Rightarrow> nat \<Rightarrow> nat \<Rightarrow> bool \<Rightarrow> kextd \<Rightarrow> service \<times> kextd" where
  "kextmanager_lock_reboot e replyPort client waitForLock s =
     (if gClientUID e \<noteq> 0 then (Answer EPERM, s)
      else if sRebootLock s \<noteq> None then (Answer EALREADY, s)
      else
        (let (busy, _, s) = checkAllWatched e s;
             (busy, s) = (if busy then (True, s)
                          else (case reconsiderVolumes e s of (busyVol, s) \<Rightarrow> (busyVol \<noteq> None, s)))
         in if \<not> busy then
              (case createWatchedPort e client RebootContext s of
                 (None, s) \<Rightarrow> (Failure, s)
               | (Some p, s) \<Rightarrow> (Answer 0, s\<lparr>sRebootLock := Some p\<rparr>))
            else if waitForLock \<and> sRebootWaiter s = None then
              (case createWatchedPort e client RebootContext s of
                 (None, s) \<Rightarrow> (Answer EBUSY, s)
               | (Some p, s) \<Rightarrow>
                   (NoReply, s\<lparr>sRebootWaiter := Some p, sReplyPorts := dict_set (=) (sReplyPorts s) p replyPort,
                              asked := asked s @ [replyPort]\<rparr>))
            else (Answer EBUSY, s)))"

text \<open>Enabling owners for the locker.\<close>

definition enable_owners :: "env \<Rightarrow> nat \<Rightarrow> kextd \<Rightarrow> kextd" where
  "enable_owners e a s =
     (case statfs_flags e (vol_root s a) of
        None \<Rightarrow> s
      | Some flags \<Rightarrow>
          (let mntgoal = and flags (not MNT_IGNORE_OWNERSHIP) in
           if flags \<noteq> mntgoal
           then upd_vol a (\<lambda>w. w\<lparr>origMntFlags := flags\<rparr>) (emit (SetMount (vol_root s a) mntgoal) s)
           else s))"

definition kextmanager_lock_volume :: "env \<Rightarrow> nat \<Rightarrow> nat \<Rightarrow> nat \<Rightarrow> bool \<Rightarrow> kextd \<Rightarrow> service \<times> kextd" where
  "kextmanager_lock_volume e replyPort client uuid waitForLock s =
     (if gClientUID e \<noteq> 0 then (Answer EPERM, s)
      else if sFsysWatchDict s = None then (Answer EAGAIN, s)
      else if sRebootLock s \<noteq> None then (Answer ENOLCK, s)
      else if \<not> memory_ok e then (Failure, s)
      else
        (case watched_at s uuid of
           None \<Rightarrow> (Answer ENOENT, s)
         | Some a \<Rightarrow>
             (let s = touch a s in
              if lock (vol s a) = None then
                (case createWatchedPort e client (VolumeContext a) s of
                   (None, s) \<Rightarrow> (Failure, s)
                 | (Some p, s) \<Rightarrow> (Answer 0, enable_owners e a (upd_vol a (\<lambda>w. w\<lparr>lock := Some p\<rparr>) s)))
              else if \<not> waitForLock then (Answer EBUSY, s)
              else
                (case createWatchedPort e client (VolumeContext a) s of
                   (None, s) \<Rightarrow> (Failure, s)
                 | (Some p, s) \<Rightarrow>
                     (let s = upd_vol a (\<lambda>w. w\<lparr>waiters := waiters w @ [p]\<rparr>) s in
                      (NoReply, s\<lparr>sReplyPorts := dict_set (=) (sReplyPorts s) p replyPort,
                                 asked := asked s @ [replyPort]\<rparr>))))))"

text \<open>The accounting of what the locker reports.\<close>

definition count_result :: "int \<Rightarrow> watchedVol \<Rightarrow> watchedVol" where
  "count_result exitstatus w =
     (if exitstatus = 0 then (if sint (updterrs w) > 0 then w\<lparr>updterrs := 0, updtattempts := 0\<rparr> else w)
      else w\<lparr>updterrs := updterrs w + 1\<rparr>)"

definition kextmanager_unlock_volume :: "env \<Rightarrow> nat \<Rightarrow> nat \<Rightarrow> int \<Rightarrow> kextd \<Rightarrow> service \<times> kextd" where
  "kextmanager_unlock_volume e client uuid exitstatus s =
     (if gClientUID e \<noteq> 0 then (Answer 0, s)
      else if sFsysWatchDict s = None \<or> \<not> memory_ok e then (Failure, s)
      else
        (case watched_at s uuid of
           None \<Rightarrow> (Failure, s)
         | Some a \<Rightarrow>
             (let s = touch a s in
              if lock (vol s a) \<noteq> Some client then (Failure, s)
              else (Answer 0, after_release e a (restore_owners a (upd_vol a (count_result exitstatus) s))))))"

text \<open>\<open>port_died\<close>: the port is invalid when it is called; a waiter is taken out where it comes last.\<close>

definition port_died :: "env \<Rightarrow> nat \<Rightarrow> kextd \<Rightarrow> kextd" where
  "port_died e p s =
     (case ports s p of
        None \<Rightarrow> s
      | Some context \<Rightarrow>
          (let s = s\<lparr>ports := (ports s)(p := None)\<rparr> in
           case context of
             RebootContext \<Rightarrow>
               if sRebootLock s = Some p then (cleanupPort p s)\<lparr>sRebootLock := None\<rparr>
               else if sRebootWaiter s = Some p then (cleanupPort p s)\<lparr>sRebootWaiter := None\<rparr>
               else s
           | VolumeContext a \<Rightarrow>
               if \<not> is_watched s a then cleanupPort p s
               else
                 (let s = touch a s in
                  if lock (vol s a) = Some p then
                    after_release e a (upd_vol a (\<lambda>w. w\<lparr>updterrs := updterrs w + 1\<rparr>) (restore_owners a s))
                  else if p \<in> set (waiters (vol s a)) then
                    upd_vol a (\<lambda>w. w\<lparr>waiters := rev (remove1 p (rev (waiters w)))\<rparr>) (cleanupPort p s)
                  else s)))"

section \<open>Starting and stopping\<close>

definition kextd_stop_volwatch :: "kextd \<Rightarrow> kextd" where
  "kextd_stop_volwatch s =
     (fold (\<lambda>x. destroy_watchedVol (snd x)) (watch_list s) s)\<lparr>sFsysWatchDict := None\<rparr>"

text \<open>\<open>kextd_watch_volumes\<close>; the sessions with Disk Arbitration are set up if memory allows.\<close>

definition kextd_watch_volumes :: "env \<Rightarrow> kextd \<Rightarrow> bool \<times> kextd" where
  "kextd_watch_volumes e s =
     (if sFsysWatchDict s \<noteq> None then (False, s)
      else if \<not> memory_ok e then (False, kextd_stop_volwatch s)
      else
        (let s = s\<lparr>sFsysWatchDict := Some [], sVolTable := [], sReplyPorts := []\<rparr> in
         if \<not> timers_ok e then (False, kextd_stop_volwatch s) else (True, s\<lparr>sAutoUpdateDelayer := True\<rparr>)))"

text \<open>The module before \<open>kextd_watch_volumes\<close>.\<close>

definition initial :: kextd where
  "initial = \<lparr>vols = Map.empty, sFsysWatchDict = None, sVolTable = [], sReplyPorts = [], sRebootLock = None,
     sRebootWaiter = None, sAutoUpdateDelayer = False, sNextVolIndex = 0, ports = Map.empty, out = [], asked = [],
     stale = False\<rparr>"

section \<open>Events\<close>

datatype event =
    Appeared "disk option" | Disappeared "disk option" | Changed "disk option" "change list"
  | UnmountRequested "disk option" | FileChanged "nat option" | TimerFired nat | AutoUpdateTimer
  | MediaChanged "disk option" bool bool
  | LockReboot nat nat bool | LockVolume nat nat nat bool | UnlockVolume nat nat int | PortDied nat

fun handle :: "env \<Rightarrow> event \<Rightarrow> kextd \<Rightarrow> kextd" where
  "handle e (Appeared d) s = snd (vol_appeared e d s)"
| "handle e (Disappeared d) s = vol_disappeared e d s"
| "handle e (Changed d keys) s = vol_changed e d keys s"
| "handle e (UnmountRequested d) s = snd (is_dadisk_busy e d s)"
| "handle e (FileChanged n) s = fsys_changed e n s"
| "handle e (TimerFired a) s = check_now e a s"
| "handle e AutoUpdateTimer s = checkAutoUpdate e s"
| "handle e (MediaChanged d stamps unlinked) s = updateVolForMedia e d stamps unlinked s"
| "handle e (LockReboot r client w) s = snd (kextmanager_lock_reboot e r client w s)"
| "handle e (LockVolume r client uuid w) s = snd (kextmanager_lock_volume e r client uuid w s)"
| "handle e (UnlockVolume client uuid status) s = snd (kextmanager_unlock_volume e client uuid status s)"
| "handle e (PortDied p) s = port_died e p s"

text \<open>A timer fires for the struct that it was made for while it is pending, a port dies while it is
  tracked, and a client asks with a port and a reply port that are not in use already.\<close>

fun possible :: "kextd \<Rightarrow> event \<Rightarrow> bool" where
  "possible s (TimerFired a) \<longleftrightarrow> (case vols s a of Some w \<Rightarrow> delayer w | None \<Rightarrow> False)"
| "possible s AutoUpdateTimer \<longleftrightarrow> sAutoUpdateDelayer s"
| "possible s (PortDied p) \<longleftrightarrow> ports s p \<noteq> None"
| "possible s (LockReboot r client w) \<longleftrightarrow> ports s client = None \<and> r \<notin> set (asked s)"
| "possible s (LockVolume r client uuid w) \<longleftrightarrow> ports s client = None \<and> r \<notin> set (asked s)"
| "possible s _ \<longleftrightarrow> True"

text \<open>Between two events the system can change; what \<open>malloc\<close> returns is not in use, and the root that
  \<open>readBootCachesForDADisk\<close> finds is a path. After a use of freed
  memory nothing is said any more.\<close>

definition env_ok :: "env \<Rightarrow> bool" where
  "env_ok e \<longleftrightarrow> (\<forall>m a. malloc e m = Some a \<longrightarrow> m a = None) \<and>
     (\<forall>d c. read_caches e d = Some c \<longrightarrow> root c \<noteq> [])"

inductive kextd_step :: "kextd \<Rightarrow> event \<Rightarrow> kextd \<Rightarrow> bool" where
  step: "env_ok e \<Longrightarrow> possible s ev \<Longrightarrow> kextd_step s ev (handle e ev s)"

inductive reachable :: "kextd \<Rightarrow> bool" where
  start: "kextd_watch_volumes e initial = (True, s) \<Longrightarrow> reachable s"
| next_event: "reachable s \<Longrightarrow> kextd_step s ev s' \<Longrightarrow> \<not> stale s' \<Longrightarrow> reachable s'"

inductive_cases kextd_stepE: "kextd_step s ev s'"

inductive_simps kextd_step_Lock: "kextd_step s (LockVolume r client uuid w) s'"

end
