(* ===== verification/KextdInv.thy ===== *)
theory KextdInv
  imports KextdLocks
begin

text \<open>
  The invariants of src/kextd_watchvol.c. Checks of a volume are quiet: they change counters and
  timers and start updates, but neither the tables nor the locks. The tables, the locks and the
  waiting clients keep their bookkeeping through every event.
\<close>

section \<open>Quiet operations\<close>

definition counters_ok :: "watchedVol \<Rightarrow> bool" where
  "counters_ok w \<longleftrightarrow> 0 \<le> sint (updtattempts w) \<and> sint (updtattempts w) \<le> kMaxUpdateAttempts + 2"

text \<open>The reply ports that were answered or given up.\<close>

fun finished :: "action \<Rightarrow> nat list" where
  "finished (ReplyVolume r st) = [r]"
| "finished (ReplyReboot r st) = [r]"
| "finished (ReplyFailed r) = [r]"
| "finished (ReplyDropped r) = [r]"
| "finished _ = []"

definition all_finished :: "kextd \<Rightarrow> nat list" where
  "all_finished s = concat (map finished (out s))"

definition same_vol :: "watchedVol \<Rightarrow> watchedVol \<Rightarrow> bool" where
  "same_vol w w' \<longleftrightarrow> lock w' = lock w \<and> waiters w' = waiters w \<and> caches w' = caches w \<and>
     vol_index w' = vol_index w \<and> (counters_ok w \<longrightarrow> counters_ok w')"

definition same_tables :: "kextd \<Rightarrow> kextd \<Rightarrow> bool" where
  "same_tables s s' \<longleftrightarrow> sFsysWatchDict s' = sFsysWatchDict s \<and> sVolTable s' = sVolTable s \<and>
     sReplyPorts s' = sReplyPorts s \<and> sRebootLock s' = sRebootLock s \<and> sRebootWaiter s' = sRebootWaiter s \<and>
     sNextVolIndex s' = sNextVolIndex s \<and> ports s' = ports s \<and> asked s' = asked s \<and> stale s' = stale s \<and>
     all_finished s' = all_finished s"

definition quiet :: "kextd \<Rightarrow> kextd \<Rightarrow> bool" where
  "quiet s s' \<longleftrightarrow> same_tables s s' \<and> (\<forall>b. rel_option same_vol (vols s b) (vols s' b))"

named_theorems quiet_intros

lemma same_vol_refl [simp]: "same_vol w w"
  by (simp add: same_vol_def)

lemma same_tables_refl [simp]: "same_tables s s"
  by (simp add: same_tables_def)

lemma quiet_refl [simp, quiet_intros]: "quiet s s"
  by (auto simp: quiet_def option.rel_refl)

lemma quiet_trans [trans]: "quiet s t \<Longrightarrow> quiet t u \<Longrightarrow> quiet s u"
proof -
  assume q: "quiet s t" "quiet t u"
  have "rel_option same_vol (vols s b) (vols u b)" for b
  proof -
    have "rel_option same_vol (vols s b) (vols t b)" "rel_option same_vol (vols t b) (vols u b)"
      using q by (simp_all add: quiet_def)
    then show ?thesis
      by (cases "vols s b"; cases "vols t b"; cases "vols u b") (auto simp: same_vol_def)
  qed
  then show "quiet s u" using q by (auto simp: quiet_def same_tables_def)
qed

lemma quiet_alive: "quiet s t \<Longrightarrow> vols t a = None \<longleftrightarrow> vols s a = None"
  by (auto simp: quiet_def dest!: spec [of _ a])

lemma quiet_vol: "quiet s t \<Longrightarrow> vols s a = Some w \<Longrightarrow> \<exists>w'. vols t a = Some w' \<and> same_vol w w'"
  by (auto simp: quiet_def dest!: spec [of _ a]) (cases "vols t a"; simp)

lemma quiet_vol': "quiet s t \<Longrightarrow> vols t a = Some w' \<Longrightarrow> \<exists>w. vols s a = Some w \<and> same_vol w w'"
  by (auto simp: quiet_def dest!: spec [of _ a]) (cases "vols s a"; simp)

lemma quiet_emit [quiet_intros]: "finished x = [] \<Longrightarrow> quiet s (emit x s)"
  by (auto simp: quiet_def same_tables_def emit_def all_finished_def option.rel_refl)

lemma quiet_emitI: "quiet s t \<Longrightarrow> finished x = [] \<Longrightarrow> quiet s (emit x t)"
  using quiet_trans quiet_emit by blast

lemma quiet_upd:
  assumes "vols s a = Some w" and "same_vol w (f w)"
  shows "quiet s (upd_vol a f s)"
  using assms by (auto simp: quiet_def same_tables_def upd_vol_def all_finished_def option.rel_refl)

lemma emit_fields [simp]:
  "vols (emit x s) = vols s" "vol (emit x s) = vol s" "vol_root (emit x s) = vol_root s"
  by (auto simp: emit_def vol_def vol_root_def fun_eq_iff)

lemma vol_Some [simp]: "vols s a = Some w \<Longrightarrow> vol s a = w"
  by (simp add: vol_def)

lemma touch_alive [simp]: "vols s a = Some w \<Longrightarrow> touch a s = s"
  by (simp add: touch_def)

lemma upd_vol_vols: "vols s a = Some w \<Longrightarrow> vols (upd_vol a f s) = (vols s)(a \<mapsto> f w)"
  by (simp add: upd_vol_def)

text \<open>A step that may fail to find the struct, in a state where it is there.\<close>

lemma quiet_upd_trans:
  assumes "quiet s t" and "vols s a = Some w" and "\<And>v. same_vol w v \<Longrightarrow> vols t a = Some v \<Longrightarrow> same_vol v (f v)"
  shows "quiet s (upd_vol a f t)"
proof -
  obtain v where v: "vols t a = Some v" "same_vol w v" using quiet_vol [OF assms(1,2)] by blast
  show ?thesis by (rule quiet_trans [OF assms(1)]) (rule quiet_upd [OF v(1)], rule assms(3) [OF v(2,1)])
qed

lemma quiet_set_boot_device: "quiet s (set_boot_device parts s)"
  by (auto simp: set_boot_device_def intro: quiet_emit split: list.splits)

lemma quiet_do_rebuild:
  assumes "vols s a = Some w" and "sint (updtattempts w) \<le> kMaxUpdateAttempts + 1"
  shows "quiet s (snd (do_rebuild e a want s))"
proof -
  have "same_vol w (w\<lparr>updtattempts := updtattempts w + 1\<rparr>)" "same_vol w (w\<lparr>updterrs := updterrs w + 1\<rparr>)"
    using assms(2) by (auto simp: same_vol_def counters_ok_def sint_inc kMaxUpdateAttempts_def)
  note same = this
  have launched: "quiet s (emit (Launched (vol_root s a)) s)" by (simp add: quiet_emit)
  have upd: "quiet s (upd_vol a (\<lambda>w. w\<lparr>updterrs := updterrs w + 1\<rparr>) s)"
    by (rule quiet_upd [OF assms(1)]) (rule same(2))
  have "quiet (emit (Launched (vol_root s a)) s)
      (upd_vol a (\<lambda>w. w\<lparr>updtattempts := updtattempts w + 1\<rparr>) (emit (Launched (vol_root s a)) s))"
    by (rule quiet_upd [where w = w]) (simp_all add: assms(1) same)
  from quiet_trans [OF launched this] upd
  show ?thesis
    by (auto simp: do_rebuild_def Let_def intro!: quiet_emitI)
qed

definition attempts :: "kextd \<Rightarrow> nat \<Rightarrow> int" where
  "attempts s a = sint (updtattempts (vol s a))"

lemma attempts_simps [simp]:
  "attempts (emit x s) a = attempts s a"
  "vols s a = Some w \<Longrightarrow> attempts s a = sint (updtattempts w)"
  by (simp_all add: attempts_def)

lemma alive_upd: "vols s a = Some w \<Longrightarrow> vols (upd_vol a f s) a = Some (f w)"
  by (simp add: upd_vol_def)

lemma attempts_do_rebuild: "vols s a = Some w \<Longrightarrow> attempts (snd (do_rebuild e a want s)) a \<le> attempts s a + 1"
  by (auto simp: do_rebuild_def Let_def attempts_def vol_def upd_vol_def intro: sint_inc_le)

lemma boot_root_upd [simp]:
  "vols s a = Some w \<Longrightarrow> isBootRoot (vol (upd_vol a (\<lambda>w. w\<lparr>isBootRoot := b\<rparr>) s) a) = b"
  by (simp add: upd_vol_def vol_def)

text \<open>On a volume that is known to have its boot partitions, nothing is checked twice.\<close>

lemma check_boots_known:
  "vols s a = Some w \<Longrightarrow> isBootRoot w \<Longrightarrow> fst (boots e (bsdname (caches w))) \<Longrightarrow> check_boots_with rebuild e a s = s"
  by (auto simp: check_boots_with_def split: prod.splits option.splits)

lemma quiet_check_boots_with:
  assumes "vols s a = Some w" and "\<And>t v. vols t a = Some v \<Longrightarrow> quiet t (snd (rebuild t))"
  shows "quiet s (check_boots_with rebuild e a s)"
proof -
  have upd: "quiet s (upd_vol a (\<lambda>w. w\<lparr>isBootRoot := b\<rparr>) s)" for b
    by (rule quiet_upd [OF assms(1)]) (simp add: same_vol_def counters_ok_def)
  have "quiet s (snd (rebuild (upd_vol a (\<lambda>w. w\<lparr>isBootRoot := True\<rparr>) s)))"
    by (rule quiet_trans [OF upd]) (rule assms(2) [OF alive_upd [OF assms(1)]])
  moreover have "quiet s (emit (UnlinkStamps r) (upd_vol a (\<lambda>w. w\<lparr>isBootRoot := False\<rparr>) s))" for r
    by (rule quiet_trans [OF upd quiet_emit]) simp
  ultimately show ?thesis
    using assms(1) quiet_trans [OF _ quiet_set_boot_device]
    by (auto simp: check_boots_with_def Let_def split: prod.splits option.splits)
qed

lemma attempts_quiet_out: "attempts (set_boot_device parts s) a = attempts s a"
  by (simp add: set_boot_device_def split: list.splits)

lemma attempts_upd_root [simp]:
  "attempts (upd_vol a (\<lambda>w. w\<lparr>isBootRoot := b\<rparr>) s) a = attempts s a"
  "attempts (upd_vol a (\<lambda>w. w\<lparr>delayer := b\<rparr>) s) a = attempts s a"
  by (auto simp: attempts_def upd_vol_def vol_def split: option.splits)

lemma attempts_check_boots:
  assumes "vols s a = Some w"
    and "\<And>t v. vols t a = Some v \<Longrightarrow> isBootRoot v \<Longrightarrow> fst (boots e (bsdname (caches v))) \<Longrightarrow>
      attempts (snd (rebuild t)) a \<le> attempts t a + 1"
  shows "attempts (check_boots_with rebuild e a s) a \<le> attempts s a + 1"
proof -
  let ?t = "upd_vol a (\<lambda>w. w\<lparr>isBootRoot := True\<rparr>) s"
  have "attempts (snd (rebuild ?t)) a \<le> attempts s a + 1" if "fst (boots e (bsdname (caches w)))"
    using assms(2) [OF alive_upd [OF assms(1)], of "\<lambda>w. w\<lparr>isBootRoot := True\<rparr>"] that by simp
  with assms(1) show ?thesis
    by (auto simp: check_boots_with_def Let_def attempts_quiet_out simp del: attempts_simps(2)
        split: prod.splits option.splits)
qed

lemma quiet_check_rebuild_fuel:
  "vols s a = Some w \<Longrightarrow> quiet s (snd (check_rebuild_fuel n e a s)) \<and>
     (isBootRoot w \<and> fst (boots e (bsdname (caches w))) \<longrightarrow>
        attempts (snd (check_rebuild_fuel n e a s)) a \<le> attempts s a + 1)"
proof (induction n arbitrary: s w)
  case (Suc n)
  let ?s = "upd_vol a (\<lambda>w. w\<lparr>delayer := False\<rparr>) s" and ?w = "w\<lparr>delayer := False\<rparr>"
  have alive: "vols ?s a = Some ?w" using alive_upd [OF Suc.prems] by simp
  have q: "quiet s ?s" by (rule quiet_upd [OF Suc.prems]) (simp add: same_vol_def counters_ok_def)
  let ?c = "check_boots_with (check_rebuild_fuel n e a) e a ?s"
  have qc: "quiet ?s ?c" using Suc.IH by (intro quiet_check_boots_with [OF alive]) blast
  obtain v where v: "vols ?c a = Some v" using quiet_vol [OF qc alive] by blast
  have "attempts ?c a \<le> attempts ?s a + 1" using Suc.IH by (intro attempts_check_boots [OF alive]) blast
  then have small: "sint (updtattempts v) \<le> kMaxUpdateAttempts + 1" if "sint (updtattempts w) \<le> kMaxUpdateAttempts"
    using that alive v Suc.prems by simp
  have known: "?c = ?s" if "isBootRoot w" "fst (boots e (bsdname (caches w)))"
    using check_boots_known [OF alive] that by simp
  note out = attempts_do_rebuild [OF alive]
  show ?case
    using quiet_do_rebuild [OF alive] quiet_do_rebuild [OF v small] q qc out known alive
    by (auto simp: Let_def simp del: attempts_simps(2) intro: quiet_trans)
qed simp

lemma quiet_check_rebuild: "vols s a = Some w \<Longrightarrow> quiet s (snd (check_rebuild e a s))"
  unfolding check_rebuild_def using quiet_check_rebuild_fuel by blast

lemma quiet_check_boots: "vols s a = Some w \<Longrightarrow> quiet s (check_boots_set_nvram e a s)"
  unfolding check_boots_set_nvram_def by (rule quiet_check_boots_with) (auto intro: quiet_check_rebuild)

lemma quiet_check_vol_busy: "vols s a = Some w \<Longrightarrow> quiet s (snd (check_vol_busy e a s))"
  by (auto simp: check_vol_busy_def Let_def intro: quiet_check_rebuild)

lemma check_vol_busy_locked: "vols s a = Some w \<Longrightarrow> lock w \<noteq> None \<Longrightarrow> fst (check_vol_busy e a s)"
  by (auto simp: check_vol_busy_def Let_def)

lemma quiet_eqs:
  assumes "quiet s t"
  shows "lock (vol t a) = lock (vol s a)" "waiters (vol t a) = waiters (vol s a)" "caches (vol t a) = caches (vol s a)"
    "vol_index (vol t a) = vol_index (vol s a)" "vol_root t a = vol_root s a"
    "counters_ok (vol s a) \<Longrightarrow> counters_ok (vol t a)"
proof -
  have "same_vol (vol s a) (vol t a)"
    using assms by (cases "vols s a") (auto simp: quiet_def vol_def dest!: spec [of _ a] split: option.splits)
  then show "lock (vol t a) = lock (vol s a)" "waiters (vol t a) = waiters (vol s a)"
    "caches (vol t a) = caches (vol s a)" "vol_index (vol t a) = vol_index (vol s a)" "vol_root t a = vol_root s a"
    "counters_ok (vol s a) \<Longrightarrow> counters_ok (vol t a)"
    by (simp_all add: same_vol_def vol_root_def)
qed

lemma quiet_tables:
  assumes "quiet s t"
  shows "sFsysWatchDict t = sFsysWatchDict s" "sVolTable t = sVolTable s" "sReplyPorts t = sReplyPorts s"
    "sRebootLock t = sRebootLock s" "sRebootWaiter t = sRebootWaiter s" "sNextVolIndex t = sNextVolIndex s"
    "ports t = ports s" "asked t = asked s" "stale t = stale s" "all_finished t = all_finished s"
    "watch_list t = watch_list s" "watched_at t = watched_at s" "is_watched t = is_watched s"
  using assms
  by (auto simp: quiet_def same_tables_def watch_list_def watched_at_def is_watched_def fun_eq_iff)

text \<open>After the check of all volumes, if none is busy then none is locked.\<close>

lemma check_locked_eq:
  "check_vol_busy e a s = (busy, t) \<Longrightarrow> check_locked e a (b, s) = (if busy then vol_root t a else b, t)"
  by (simp add: check_locked_def)

lemma fold_check_locked:
  assumes "\<forall>x \<in> set l. \<exists>w. vols s (snd x) = Some w \<and> root (caches w) \<noteq> []"
    and "fold (\<lambda>x. check_locked e (snd x)) l (b, s) = (b', s')"
  shows "quiet s s' \<and> (b' = [] \<longrightarrow> b = [] \<and> (\<forall>x \<in> set l. lock (vol s (snd x)) = None))"
  using assms
proof (induction l arbitrary: s b)
  case (Cons x l)
  obtain w where w: "vols s (snd x) = Some w" "root (caches w) \<noteq> []" using Cons.prems(1) by auto
  obtain busy t where t: "check_vol_busy e (snd x) s = (busy, t)" by (cases "check_vol_busy e (snd x) s")
  have q: "quiet s t" using quiet_check_vol_busy [OF w(1), of e] by (simp add: t)
  obtain v where v: "vols t (snd x) = Some v" "same_vol w v" using quiet_vol [OF q w(1)] by blast
  have alive: "\<forall>y \<in> set l. \<exists>w. vols t (snd y) = Some w \<and> root (caches w) \<noteq> []"
  proof
    fix y assume "y \<in> set l"
    with Cons.prems(1) obtain u where "vols s (snd y) = Some u" "root (caches u) \<noteq> []" by auto
    with quiet_vol [OF q] show "\<exists>w. vols t (snd y) = Some w \<and> root (caches w) \<noteq> []" by (fastforce simp: same_vol_def)
  qed
  let ?b = "if busy then root (caches v) else b"
  have rest: "fold (\<lambda>x. check_locked e (snd x)) l (?b, t) = (b', s')"
    using Cons.prems(2) v(1) by (simp add: check_locked_eq [OF t] vol_root_def split: if_splits)
  have IH: "quiet t s'" "b' = [] \<longrightarrow> ?b = [] \<and> (\<forall>y \<in> set l. lock (vol t (snd y)) = None)"
    using Cons.IH [OF alive rest] by auto
  have "lock (vol t (snd y)) = lock (vol s (snd y))" for y by (rule quiet_eqs(1) [OF q])
  moreover have "root (caches v) \<noteq> []" using v(2) w(2) by (simp add: same_vol_def)
  moreover have "\<not> busy \<longrightarrow> lock w = None" using check_vol_busy_locked [OF w(1), of e] t by (cases "lock w") auto
  ultimately show ?case using IH quiet_trans [OF q IH(1)] w(1) by (auto split: if_splits)
qed simp

section \<open>The invariant\<close>

definition tables_ok :: "kextd \<Rightarrow> bool" where
  "tables_ok s \<longleftrightarrow> (\<exists>l. sFsysWatchDict s = Some l \<and> distinct (map fst l) \<and> distinct (map snd l) \<and>
       set (map snd l) = dom (vols s)) \<and>
     distinct (map fst (sVolTable s)) \<and>
     (\<forall>(n, a) \<in> set (sVolTable s). n < sNextVolIndex s \<and> (\<exists>w. vols s a = Some w \<and> vol_index w = n)) \<and>
     (\<forall>a w. vols s a = Some w \<longrightarrow> (vol_index w, a) \<in> set (sVolTable s) \<and> root (caches w) \<noteq> [] \<and> counters_ok w)"

text \<open>The clients that wait: in the queue of a volume or for the reboot lock.\<close>

definition waiting :: "kextd \<Rightarrow> nat set" where
  "waiting s = (\<Union>a. set (waiters (vol s a))) \<union> set_option (sRebootWaiter s)"

definition vol_locks_ok :: "kextd \<Rightarrow> nat \<Rightarrow> bool" where
  "vol_locks_ok s a \<longleftrightarrow>
     (lock (vol s a) = None \<longrightarrow> waiters (vol s a) = []) \<and> distinct (waiters (vol s a)) \<and>
     (\<forall>p. lock (vol s a) = Some p \<longrightarrow> p \<notin> set (waiters (vol s a)) \<and> ports s p = Some (VolumeContext a)) \<and>
     (\<forall>p \<in> set (waiters (vol s a)). ports s p = Some (VolumeContext a))"

definition reboot_ok :: "kextd \<Rightarrow> bool" where
  "reboot_ok s \<longleftrightarrow>
     (\<forall>p. sRebootLock s = Some p \<longrightarrow> ports s p = Some RebootContext \<and> sRebootWaiter s \<noteq> Some p) \<and>
     (\<forall>p. sRebootWaiter s = Some p \<longrightarrow> ports s p = Some RebootContext)"

text \<open>The reboot lock excludes the locks of volumes.\<close>

definition exclusive :: "kextd \<Rightarrow> bool" where
  "exclusive s \<longleftrightarrow> sRebootLock s = None \<or> (\<forall>a. lock (vol s a) = None)"

text \<open>Every client that waits has a reply port put aside, and every reply port that was put aside is
  either still there or was used once.\<close>

definition replies_ok :: "kextd \<Rightarrow> bool" where
  "replies_ok s \<longleftrightarrow> distinct (map fst (sReplyPorts s)) \<and> set (map fst (sReplyPorts s)) = waiting s \<and>
     mset (asked s) = mset (map snd (sReplyPorts s)) + mset (all_finished s) \<and> distinct (asked s)"

definition inv_kextd :: "kextd \<Rightarrow> bool" where
  "inv_kextd s \<longleftrightarrow> tables_ok s \<and> (\<forall>a. vol_locks_ok s a) \<and> reboot_ok s \<and> exclusive s \<and> replies_ok s \<and> \<not> stale s"

lemma quiet_inv:
  assumes q: "quiet s t" and inv: "inv_kextd s"
  shows "inv_kextd t"
proof -
  note eqs = quiet_eqs [OF q] quiet_tables [OF q]
  have dom: "dom (vols t) = dom (vols s)" using quiet_alive [OF q] by (auto simp: dom_def)
  have "tables_ok s" using inv by (simp add: inv_kextd_def)
  then have "tables_ok t"
    using quiet_vol [OF q] quiet_vol' [OF q] unfolding tables_ok_def eqs dom by (fastforce simp: same_vol_def)
  moreover have "waiting t = waiting s" by (simp add: waiting_def eqs)
  ultimately show ?thesis
    using inv by (simp add: inv_kextd_def vol_locks_ok_def reboot_ok_def exclusive_def replies_ok_def eqs)
qed

end
