(* ===== verification/KextdVolumes.thy ===== *)
theory KextdVolumes
  imports KextdInv
begin

text \<open>
  src/kextd_watchvol.c: the events of volumes, files and timers keep the invariant.
\<close>

section \<open>Answering and dropping a client\<close>

text \<open>The state with some clients no longer waiting: their reply ports are used.\<close>

definition released :: "kextd \<Rightarrow> nat set \<Rightarrow> kextd \<Rightarrow> bool" where
  "released s ps t \<longleftrightarrow> vols t = vols s \<and> sFsysWatchDict t = sFsysWatchDict s \<and> sVolTable t = sVolTable s \<and>
     sReplyPorts t = filter (\<lambda>x. fst x \<notin> ps) (sReplyPorts s) \<and> sRebootLock t = sRebootLock s \<and>
     sRebootWaiter t = sRebootWaiter s \<and> sNextVolIndex t = sNextVolIndex s \<and> asked t = asked s \<and>
     stale t = stale s \<and> sAutoUpdateDelayer t = sAutoUpdateDelayer s \<and>
     mset (all_finished t) = mset (all_finished s) + mset (map snd (filter (\<lambda>x. fst x \<in> ps) (sReplyPorts s)))"

lemma dict_remove_dict_get: "dict_get (=) (dict_remove d k) k' = (if k' = k then None else dict_get (=) d k')"
  by (induction d) (auto simp: dict_remove_def)

lemma dict_get_Some_in: "dict_get (=) d k = Some v \<Longrightarrow> (k, v) \<in> set d"
  by (induction d) (auto split: if_splits)

lemma dict_get_None_iff: "dict_get (=) d k = None \<longleftrightarrow> k \<notin> fst ` set d"
  by (induction d) (auto split: if_splits)

lemma filter_only_key:
  "distinct (map fst d) \<Longrightarrow> dict_get (=) d k = Some v \<Longrightarrow> filter (\<lambda>x. fst x = k) d = [(k, v)]"
  by (induction d) (auto split: if_splits simp: filter_empty_conv intro: rev_image_eqI)

lemma filter_no_key: "dict_get (=) d k = None \<Longrightarrow> filter (\<lambda>x. fst x = k) d = []"
  by (auto simp: dict_get_None_iff filter_empty_conv)

lemma all_finished_emit: "all_finished (emit x s) = all_finished s @ finished x"
  by (simp add: all_finished_def emit_def)

lemma signal_released:
  assumes "distinct (map fst (sReplyPorts s))" and "signalWaiter e w st s = (ok, t)"
  shows "released s {w} t \<and> ports t = ports s"
  using assms filter_only_key [OF assms(1), of w] filter_no_key [of "sReplyPorts s" w]
  by (cases "dict_get (=) (sReplyPorts s) w")
    (auto simp: signalWaiter_def released_def Let_def dict_remove_def all_finished_def emit_def split: if_splits)

lemma cleanup_released:
  assumes "distinct (map fst (sReplyPorts s))"
  shows "released s {w} (cleanupPort w s) \<and> ports (cleanupPort w s) = (ports s)(w := None)"
  using assms filter_only_key [OF assms, of w] filter_no_key [of "sReplyPorts s" w]
  by (cases "dict_get (=) (sReplyPorts s) w")
    (auto simp: cleanupPort_def released_def Let_def dict_remove_def all_finished_def emit_def)

lemma mset_map_split:
  "mset (map f d) = mset (map f (filter (\<lambda>x. fst x \<notin> P) d)) + mset (map f (filter (\<lambda>x. fst x \<in> P) d))"
  by (induction d) auto

lemma released_trans:
  assumes "released s P t" "released t Q u"
  shows "released s (P \<union> Q) u"
proof -
  have "filter (\<lambda>x. fst x \<notin> Q) (filter (\<lambda>x. fst x \<notin> P) d) = filter (\<lambda>x. fst x \<notin> P \<union> Q) d" for d :: "(nat \<times> nat) list"
    by (induction d) auto
  moreover have "mset (map snd (filter (\<lambda>x. fst x \<in> P) d)) + mset (map snd (filter (\<lambda>x. fst x \<in> Q) (filter (\<lambda>x. fst x \<notin> P) d))) =
      mset (map snd (filter (\<lambda>x. fst x \<in> P \<union> Q) d))" for d :: "(nat \<times> nat) list"
    by (induction d) (auto simp: filter_filter_mset conj_commute)
  ultimately show ?thesis using assms by (simp add: released_def ac_simps)
qed

lemma released_distinct:
  "released s P t \<Longrightarrow> distinct (map fst (sReplyPorts s)) \<Longrightarrow> distinct (map fst (sReplyPorts t))"
  by (simp add: released_def distinct_map_filter)

lemma released_refl: "released s {} s"
  by (simp add: released_def)

lemma abandon_released:
  "distinct (map fst (sReplyPorts s)) \<Longrightarrow>
   released s (set ws) (abandon_waiters e ws s) \<and>
   ports (abandon_waiters e ws s) = (\<lambda>p. if p \<in> set ws then None else ports s p)"
proof (induction ws arbitrary: s rule: rev_induct)
  case (snoc w ws)
  obtain ok t where t: "signalWaiter e w ENOENT s = (ok, t)" by (cases "signalWaiter e w ENOENT s")
  note one = signal_released [OF snoc.prems t]
  note dt = released_distinct [OF conjunct1 [OF one] snoc.prems]
  note two = cleanup_released [OF dt, of w]
  have both: "released s {w} (cleanupPort w t)" using released_trans [of s "{w}" t "{w}"] one two by simp
  note rest = snoc.IH [OF released_distinct [OF both snoc.prems]]
  have "abandon_waiters e (ws @ [w]) s = abandon_waiters e ws (cleanupPort w t)"
    by (simp add: abandon_waiters_def t)
  with released_trans [OF both conjunct1 [OF rest]] rest one two show ?case by (auto simp: fun_eq_iff)
qed (simp add: abandon_waiters_def released_refl)

section \<open>A volume that goes away\<close>

lemma tables_okD:
  assumes "tables_ok s"
  shows "sFsysWatchDict s = Some (watch_list s)" "distinct (map fst (watch_list s))"
    "distinct (map snd (watch_list s))" "snd ` set (watch_list s) = dom (vols s)"
    "distinct (map fst (sVolTable s))"
    "(n, b) \<in> set (sVolTable s) \<Longrightarrow> n < sNextVolIndex s \<and> (\<exists>w. vols s b = Some w \<and> vol_index w = n)"
    "vols s b = Some w \<Longrightarrow> (vol_index w, b) \<in> set (sVolTable s) \<and> root (caches w) \<noteq> [] \<and> counters_ok w"
proof -
  obtain l where "sFsysWatchDict s = Some l" "distinct (map fst l)" "distinct (map snd l)" "set (map snd l) = dom (vols s)"
    using assms by (auto simp: tables_ok_def)
  then show "sFsysWatchDict s = Some (watch_list s)" "distinct (map fst (watch_list s))"
    "distinct (map snd (watch_list s))" "snd ` set (watch_list s) = dom (vols s)"
    by (simp_all add: watch_list_def)
qed (use assms in \<open>auto simp: tables_ok_def\<close>)

lemma dict_remove_values:
  assumes "distinct (map snd d)" "(k, v) \<in> set d" "distinct (map fst d)"
  shows "snd ` set (dict_remove d k) = snd ` set d - {v}" "distinct (map fst (dict_remove d k))"
    "distinct (map snd (dict_remove d k))"
proof -
  have "snd x = v \<longleftrightarrow> fst x = k" if "x \<in> set d" for x
    using inj_on_eq_iff [of snd "set d" x "(k, v)"] inj_on_eq_iff [of fst "set d" x "(k, v)"] assms that
    by (simp add: distinct_map)
  then show "snd ` set (dict_remove d k) = snd ` set d - {v}" by (auto simp: dict_remove_def)
  show "distinct (map fst (dict_remove d k))" "distinct (map snd (dict_remove d k))"
    using assms by (simp_all add: dict_remove_def distinct_map_filter)
qed

lemma watched_alive:
  assumes "tables_ok s" and "watched_at s uuid = Some a"
  obtains w where "vols s a = Some w" "(uuid, a) \<in> set (watch_list s)"
proof -
  have "(uuid, a) \<in> set (watch_list s)" using assms(2) dict_get_Some_in unfolding watched_at_def by fast
  moreover from this have "a \<in> dom (vols s)" using tables_okD(4) [OF assms(1)] by force
  ultimately show thesis using that by auto
qed

lemma remove_vol_inv:
  assumes inv: "inv_kextd s" and at: "watched_at s uuid = Some a"
    and t: "vols t = (vols s)(a := None)"
      "sFsysWatchDict t = map_option (\<lambda>l. dict_remove l uuid) (sFsysWatchDict s)"
      "sVolTable t = dict_remove (sVolTable s) (vol_index (vol s a))" "sNextVolIndex t = sNextVolIndex s"
      "sRebootLock t = sRebootLock s" "sRebootWaiter t = sRebootWaiter s" "asked t = asked s" "stale t = stale s"
      "sReplyPorts t = filter (\<lambda>x. fst x \<notin> set (waiters (vol s a))) (sReplyPorts s)"
      "ports t = (\<lambda>p. if p \<in> set (waiters (vol s a)) then None else ports s p)"
      "mset (all_finished t) = mset (all_finished s) +
         mset (map snd (filter (\<lambda>x. fst x \<in> set (waiters (vol s a))) (sReplyPorts s)))"
  shows "inv_kextd t"
proof -
  have I: "tables_ok s" "\<And>b. vol_locks_ok s b" "reboot_ok s" "exclusive s" "replies_ok s" "\<not> stale s"
    using inv by (auto simp: inv_kextd_def)
  obtain w where w: "vols s a = Some w" "(uuid, a) \<in> set (watch_list s)" by (rule watched_alive [OF I(1) at])
  note l = tables_okD [OF I(1)]
  have vol: "vol t b = (if b = a then new_vol no_caches else vol s b)" for b by (simp add: vol_def t(1))
  have idx: "vol_index v \<noteq> vol_index w" if "vols s b = Some v" "b \<noteq> a" for b v
    using l(7) [OF that(1)] l(7) [OF w(1)] that(2) eq_key_imp_eq_value [OF l(5)] by metis
  have "tables_ok t"
    unfolding tables_ok_def
  proof (intro conjI exI)
    show "sFsysWatchDict t = Some (dict_remove (watch_list s) uuid)" by (simp add: t(2) l(1))
    show "distinct (map fst (dict_remove (watch_list s) uuid))" "distinct (map snd (dict_remove (watch_list s) uuid))"
      "set (map snd (dict_remove (watch_list s) uuid)) = dom (vols t)"
      using dict_remove_values [OF l(3) _ l(2), of uuid a] w(2) l(4) by (auto simp: t(1))
    show "distinct (map fst (sVolTable t))" using l(5) by (simp add: t(3) dict_remove_def distinct_map_filter)
    show "\<forall>(n, b) \<in> set (sVolTable t). n < sNextVolIndex t \<and> (\<exists>v. vols t b = Some v \<and> vol_index v = n)"
      using l(6) w(1) by (fastforce simp: t dict_remove_def)
    show "\<forall>b v. vols t b = Some v \<longrightarrow> (vol_index v, b) \<in> set (sVolTable t) \<and> root (caches v) \<noteq> [] \<and> counters_ok v"
      using l(7) idx w(1) by (auto simp: t dict_remove_def)
  qed
  moreover have other: "p \<notin> set (waiters (vol s a))" if "ports s p = Some c" "c \<noteq> VolumeContext a" for p c
    using that I(2) [of a] by (auto simp: vol_locks_ok_def)
  then have "vol_locks_ok t b" for b
    using I(2) [of b] by (auto simp: vol_locks_ok_def vol t(10) new_vol_def)
  moreover have "reboot_ok t" using I(3) other by (auto simp: reboot_ok_def t)
  moreover have "exclusive t" using I(4) by (auto simp: exclusive_def t vol new_vol_def)
  moreover have "replies_ok t"
  proof -
    have "waiting t = waiting s - set (waiters (vol s a))"
    proof -
      have "x \<notin> set (waiters (vol s a))" if "b \<noteq> a" "x \<in> set (waiters (vol s b))" for b x
        using I(2) [of b] other that by (auto simp: vol_locks_ok_def)
      moreover have "p \<notin> set (waiters (vol s a))" if "sRebootWaiter s = Some p" for p
        using I(3) other that by (auto simp: reboot_ok_def)
      ultimately show ?thesis by (auto simp: waiting_def vol t(6) new_vol_def split: if_splits)
    qed
    moreover have "mset (map snd (sReplyPorts s)) = mset (map snd (sReplyPorts t)) +
        mset (map snd (filter (\<lambda>x. fst x \<in> set (waiters (vol s a))) (sReplyPorts s)))"
      unfolding t(9) by (rule mset_map_split)
    ultimately show ?thesis
      using I(5) by (auto simp: replies_ok_def t(7,9,11) distinct_map_filter)
  qed
  ultimately show ?thesis using I(6) t(8) by (simp add: inv_kextd_def)
qed

lemma vol_disappeared_inv: "inv_kextd s \<Longrightarrow> inv_kextd (vol_disappeared e d s)"
proof -
  assume inv: "inv_kextd s"
  show ?thesis
  proof (cases "\<exists>x uuid a. d = Some x \<and> d_uuid x = Some uuid \<and> watched_at s uuid = Some a \<and> vol_root s a \<noteq> ''/''")
    case False
    have "touch a s = s" if "watched_at s uuid = Some a" for uuid a
      using inv that by (elim watched_alive [of s uuid a, rotated]) (auto simp: inv_kextd_def)
    with False inv show ?thesis by (auto simp: vol_disappeared_def Let_def split: option.splits)
  next
    case True
    then obtain x uuid a where d: "d = Some x" "d_uuid x = Some uuid" "watched_at s uuid = Some a" "vol_root s a \<noteq> ''/''"
      by blast
    obtain w where w: "vols s a = Some w" using inv d(3) by (auto simp: inv_kextd_def elim: watched_alive)
    let ?s1 = "upd_vol a (\<lambda>w. w\<lparr>delayer := False\<rparr>)
        (s\<lparr>sFsysWatchDict := map_option (\<lambda>l. dict_remove l uuid) (sFsysWatchDict s)\<rparr>)"
    let ?s2 = "abandon_waiters e (waiters w) ?s1"
    have s1: "vols ?s1 = (vols s)(a \<mapsto> w\<lparr>delayer := False\<rparr>)" "sReplyPorts ?s1 = sReplyPorts s" "ports ?s1 = ports s"
      "all_finished ?s1 = all_finished s" "waiters (vol ?s1 a) = waiters w"
      using w by (simp_all add: upd_vol_def all_finished_def vol_def)
    have rel: "released ?s1 (set (waiters w)) ?s2"
      "ports ?s2 = (\<lambda>p. if p \<in> set (waiters w) then None else ports s p)"
      using abandon_released [of ?s1 "waiters w" e] inv s1 by (auto simp: inv_kextd_def replies_ok_def)
    have "vol_disappeared e d s = destroy_watchedVol a ?s2"
      using d w s1 by (simp add: vol_disappeared_def Let_def vol_root_def)
    moreover have "inv_kextd (destroy_watchedVol a ?s2)"
      using rel s1 w by (intro remove_vol_inv [OF inv d(3)])
        (auto simp: released_def destroy_watchedVol_def Let_def touch_def upd_vol_def all_finished_def vol_def)
    ultimately show ?thesis by simp
  qed
qed

lemma vol_disappeared_gone:
  assumes inv: "inv_kextd s" and x: "d_uuid x = Some uuid" "watched_at s uuid = Some a" "vol_root s a \<noteq> ''/''"
  shows "watched_at (vol_disappeared e (Some x) s) uuid = None"
proof -
  obtain w where w: "vols s a = Some w" using inv x(2) by (auto simp: inv_kextd_def elim: watched_alive)
  let ?s1 = "upd_vol a (\<lambda>w. w\<lparr>delayer := False\<rparr>)
      (s\<lparr>sFsysWatchDict := map_option (\<lambda>l. dict_remove l uuid) (sFsysWatchDict s)\<rparr>)"
  have "distinct (map fst (sReplyPorts ?s1))" using inv w by (simp add: inv_kextd_def replies_ok_def upd_vol_def)
  from abandon_released [OF this, of "waiters w" e]
  have "sFsysWatchDict (abandon_waiters e (waiters w) ?s1) = map_option (\<lambda>l. dict_remove l uuid) (sFsysWatchDict s)"
    using w by (simp add: released_def upd_vol_def)
  moreover have "vol_disappeared e (Some x) s = destroy_watchedVol a (abandon_waiters e (waiters w) ?s1)"
    using x w by (simp add: vol_disappeared_def Let_def vol_root_def upd_vol_def vol_def)
  ultimately show ?thesis
    by (auto simp: watched_at_def watch_list_def destroy_watchedVol_def Let_def touch_def dict_remove_dict_get
        split: option.splits)
qed

section \<open>A volume that appears\<close>

lemma quiet_watch_path: "vols s a = Some w \<Longrightarrow> quiet s (snd (watch_path e p a s))"
  by (auto simp: watch_path_def same_vol_def counters_ok_def intro!: quiet_upd split: option.splits)

lemma quiet_watch_all: "vols s a = Some w \<Longrightarrow> quiet s (snd (watch_all e a ps s))"
proof (induction ps arbitrary: s w)
  case (Cons p ps)
  obtain ok t where t: "watch_path e (vol_root s a @ p) a s = (ok, t)" by (cases "watch_path e (vol_root s a @ p) a s")
  have q: "quiet s t" using quiet_watch_path [OF Cons.prems, of e "vol_root s a @ p"] by (simp add: t)
  obtain v where "vols t a = Some v" using quiet_vol [OF q Cons.prems] by blast
  with Cons.IH [of t v] quiet_trans [OF q] q t show ?case by (cases ok) (auto simp: Let_def)
qed simp

lemma quiet_fold_watch:
  "vols s a = Some w \<Longrightarrow> quiet s (fold (\<lambda>p s. snd (watch_path e p a s)) ps s)"
proof (induction ps arbitrary: s w)
  case (Cons p ps)
  have q: "quiet s (snd (watch_path e p a s))" by (rule quiet_watch_path [OF Cons.prems])
  obtain v where "vols (snd (watch_path e p a s)) a = Some v" using quiet_vol [OF q Cons.prems] by blast
  from quiet_trans [OF q Cons.IH [OF this]] show ?case by simp
qed simp

lemma quiet_watch_kernels: "vols s a = Some w \<Longrightarrow> quiet s (watch_kernels e a p s)"
  unfolding watch_kernels_def Let_def by (auto simp del: fold.simps intro: quiet_fold_watch)

text \<open>Two steps, the second only if the first succeeded.\<close>

lemma quiet_then:
  assumes "vols s a = Some w" and "quiet s (snd r)"
    and "\<And>t v. vols t a = Some v \<Longrightarrow> quiet t (snd (f t))"
  shows "quiet s (snd (case r of (False, t) \<Rightarrow> (False, t) | (True, t) \<Rightarrow> f t))"
proof -
  obtain ok t where r: "r = (ok, t)" by (cases r)
  with assms(2) have q: "quiet s t" by simp
  obtain v where "vols t a = Some v" using quiet_vol [OF q assms(1)] by blast
  from quiet_trans [OF q assms(3) [OF this]] q show ?thesis by (cases ok) (simp_all add: r)
qed

lemma quiet_watch_volume:
  assumes "vols s a = Some w"
  shows "quiet s (snd (watch_volume e a s))"
  unfolding watch_volume_def Let_def
proof (rule quiet_then [OF assms quiet_watch_all [OF assms]])
  fix t :: kextd and v assume t: "vols t a = Some v"
  let ?c = "caches (vol s a)"
  let ?k = "watch_kernels e a (kernelpath ?c) t"
  obtain u where u: "vols ?k a = Some u" using quiet_vol [OF quiet_watch_kernels [OF t] t] by blast
  have "quiet t (snd (if kernelsCount ?c > 0 then watch_all e a (extra_caches ?c) ?k else (True, t)))"
    using quiet_trans [OF quiet_watch_kernels [OF t] quiet_watch_all [OF u]] by simp
  then show "quiet t (snd (case (if kernelsCount ?c > 0 then watch_all e a (extra_caches ?c) ?k else (True, t)) of
      (False, s) \<Rightarrow> (False, s)
    | (True, s) \<Rightarrow> watch_all e a ([locSource ?c, bgImage ?c] @ rpspaths ?c @ nonempty_path (efibooter ?c) @
        nonempty_path (ofbooter ?c) @ miscpaths ?c) s))"
    by (rule quiet_then [OF t]) (rule quiet_watch_all)
qed

lemma add_vol_inv:
  assumes inv: "inv_kextd s" and new: "vols s a = None" "watched_at s uuid = None"
    and w: "lock w = None" "waiters w = []" "vol_index w = sNextVolIndex s" "counters_ok w" "root (caches w) \<noteq> []"
  shows "inv_kextd (s\<lparr>vols := (vols s)(a \<mapsto> w), sVolTable := dict_set (=) (sVolTable s) (sNextVolIndex s) a,
      sNextVolIndex := sNextVolIndex s + 1,
      sFsysWatchDict := map_option (\<lambda>l. dict_set (=) l uuid a) (sFsysWatchDict s)\<rparr>)"
proof -
  define t where "t = s\<lparr>vols := (vols s)(a \<mapsto> w), sVolTable := dict_set (=) (sVolTable s) (sNextVolIndex s) a,
      sNextVolIndex := sNextVolIndex s + 1,
      sFsysWatchDict := map_option (\<lambda>l. dict_set (=) l uuid a) (sFsysWatchDict s)\<rparr>"
  have t: "vols t = (vols s)(a \<mapsto> w)" "sVolTable t = dict_set (=) (sVolTable s) (sNextVolIndex s) a"
    "sNextVolIndex t = Suc (sNextVolIndex s)" "sReplyPorts t = sReplyPorts s" "ports t = ports s" "stale t = stale s"
    "sFsysWatchDict t = map_option (\<lambda>l. dict_set (=) l uuid a) (sFsysWatchDict s)"
    "sRebootLock t = sRebootLock s" "sRebootWaiter t = sRebootWaiter s" "asked t = asked s"
    "all_finished t = all_finished s"
    by (simp_all add: t_def all_finished_def)
  have I: "tables_ok s" "\<And>b. vol_locks_ok s b" "reboot_ok s" "exclusive s" "replies_ok s" "\<not> stale s"
    using inv by (auto simp: inv_kextd_def)
  note l = tables_okD [OF I(1)]
  have a: "a \<notin> snd ` set (watch_list s)" using l(4) new(1) by auto
  have u: "uuid \<notin> fst ` set (watch_list s)" using new(2) by (simp add: watched_at_def dict_get_None_iff)
  have i: "sNextVolIndex s \<notin> fst ` set (sVolTable s)" using l(6) by fastforce
  have sets: "dict_set (=) (watch_list s) uuid a = watch_list s @ [(uuid, a)]"
    "dict_set (=) (sVolTable s) (sNextVolIndex s) a = sVolTable s @ [(sNextVolIndex s, a)]"
    using u i by (simp_all add: dict_set_fresh dict_get_None_iff)
  have vol: "vol t b = (if b = a then w else vol s b)" for b by (simp add: vol_def t)
  have old: "lock (vol s a) = None" "waiters (vol s a) = []" using new(1) by (simp_all add: vol_def new_vol_def)
  have "tables_ok t"
    unfolding tables_ok_def
  proof (intro conjI exI)
    show "sFsysWatchDict t = Some (watch_list s @ [(uuid, a)])" by (simp add: t l(1) sets)
    show "distinct (map fst (watch_list s @ [(uuid, a)]))" "distinct (map snd (watch_list s @ [(uuid, a)]))"
      "set (map snd (watch_list s @ [(uuid, a)])) = dom (vols t)"
      using l(2-4) a u by (auto simp: t)
    show "distinct (map fst (sVolTable t))" using l(5) i by (simp add: t sets)
    show "\<forall>(n, b) \<in> set (sVolTable t). n < sNextVolIndex t \<and> (\<exists>v. vols t b = Some v \<and> vol_index v = n)"
      using l(6) new(1) w(3) by (fastforce simp: t sets)
    show "\<forall>b v. vols t b = Some v \<longrightarrow> (vol_index v, b) \<in> set (sVolTable t) \<and> root (caches v) \<noteq> [] \<and> counters_ok v"
      using l(7) w by (auto simp: t sets)
  qed
  moreover have "vol_locks_ok t b" for b using I(2) [of b] w(1,2) by (simp add: vol_locks_ok_def vol t)
  moreover have "reboot_ok t" using I(3) by (simp add: reboot_ok_def t)
  moreover have "exclusive t" using I(4) w(1) by (auto simp: exclusive_def vol t)
  moreover have "waiters (vol t b) = waiters (vol s b)" for b using w(2) old(2) by (simp add: vol)
  then have "waiting t = waiting s" by (simp add: waiting_def t)
  then have "replies_ok t" using I(5) by (simp add: replies_ok_def t)
  ultimately have "inv_kextd t" using I(6) by (simp add: inv_kextd_def t)
  then show ?thesis by (simp add: t_def)
qed

text \<open>A struct that was made and is destroyed again.\<close>

lemma drop_vol_inv:
  assumes inv: "inv_kextd s" and new: "vols s a = None"
  shows "inv_kextd (s\<lparr>sNextVolIndex := sNextVolIndex s + 1\<rparr>)"
  using inv by (auto simp: inv_kextd_def tables_ok_def vol_locks_ok_def reboot_ok_def exclusive_def replies_ok_def
      waiting_def vol_def all_finished_def less_SucI split: option.splits)

lemma quiet_dict:
  "quiet s t \<Longrightarrow> quiet (s\<lparr>sFsysWatchDict := f (sFsysWatchDict s)\<rparr>) (t\<lparr>sFsysWatchDict := f (sFsysWatchDict t)\<rparr>)"
  by (simp add: quiet_def same_tables_def all_finished_def)

lemma add_watch_inv:
  assumes inv: "inv_kextd s" and env: "env_ok e" and new: "watched_at s uuid = None"
  shows "inv_kextd (snd (add_watch e d uuid s))"
proof (cases "wants_watch e d \<and> malloc e (vols s) \<noteq> None \<and> read_caches e d \<noteq> None")
  case False
  then show ?thesis
    using inv by (cases "malloc e (vols s)"; cases "read_caches e d") (auto simp: add_watch_def create_watchedVol_def)
next
  case True
  then obtain a c where wants: "wants_watch e d" and a: "malloc e (vols s) = Some a" and c: "read_caches e d = Some c"
    by auto
  have a0: "vols s a = None" and c0: "root c \<noteq> []" using env a c by (auto simp: env_ok_def)
  let ?b = "fst (boots e (bsdname c))"
  define s0 where "s0 = (if ?b then s else emit (UnlinkStamps (root c)) s)"
  have q0: "quiet s s0" by (simp add: s0_def quiet_emit)
  have inv0: "inv_kextd s0" by (rule quiet_inv [OF q0 inv])
  have v0: "vols s0 = vols s" "sNextVolIndex s0 = sNextVolIndex s" "watched_at s0 uuid = None"
    using new by (auto simp: s0_def emit_def watched_at_def watch_list_def)
  define w where "w = (new_vol c)\<lparr>isBootRoot := ?b, vol_index := sNextVolIndex s0\<rparr>"
  have w: "lock w = None" "waiters w = []" "vol_index w = sNextVolIndex s0" "counters_ok w" "root (caches w) \<noteq> []"
    using c0 by (simp_all add: w_def new_vol_def counters_ok_def kMaxUpdateAttempts_def)
  define s1 where "s1 = s0\<lparr>vols := (vols s0)(a \<mapsto> w), sVolTable := dict_set (=) (sVolTable s0) (sNextVolIndex s0) a,
      sNextVolIndex := sNextVolIndex s0 + 1\<rparr>"
  have create: "create_watchedVol e d s = (if memory_ok e then (Some a, s1) else (None, s0))"
    using a c by (simp add: create_watchedVol_def Let_def s0_def [symmetric] v0 s1_def w_def)
  have w1: "vols s1 a = Some w" by (simp add: s1_def)
  obtain ok s2 where s2: "watch_volume e a s1 = (ok, s2)" by (cases "watch_volume e a s1")
  have q: "quiet s1 s2" using quiet_watch_volume [OF w1, of e] by (simp add: s2)
  obtain w2 where w2: "vols s2 a = Some w2" "same_vol w w2" using quiet_vol [OF q w1] by blast
  let ?f = "map_option (\<lambda>l. dict_set (=) l uuid a)"
  let ?s3 = "s2\<lparr>sFsysWatchDict := ?f (sFsysWatchDict s2)\<rparr>"
  have "s1\<lparr>sFsysWatchDict := ?f (sFsysWatchDict s1)\<rparr> = s0\<lparr>vols := (vols s0)(a \<mapsto> w),
      sVolTable := dict_set (=) (sVolTable s0) (sNextVolIndex s0) a, sNextVolIndex := sNextVolIndex s0 + 1,
      sFsysWatchDict := ?f (sFsysWatchDict s0)\<rparr>"
    by (simp add: s1_def)
  then have "inv_kextd (s1\<lparr>sFsysWatchDict := ?f (sFsysWatchDict s1)\<rparr>)"
    using add_vol_inv [OF inv0 _ v0(3) w] a0 v0(1) by simp
  with quiet_dict [OF q, of ?f] have inv3: "inv_kextd ?s3" by (rule quiet_inv)
  have "quiet ?s3 (snd (check_rebuild e a ?s3))" using w2(1) by (intro quiet_check_rebuild) simp
  note added = inv3 quiet_inv [OF this inv3]
  have "quiet (s0\<lparr>sNextVolIndex := sNextVolIndex s0 + 1\<rparr>) (destroy_watchedVol a s2)"
  proof -
    have idx: "vol_index (vol s2 a) = sNextVolIndex s0" using w(3) w2 by (simp add: same_vol_def)
    have fresh: "sNextVolIndex s0 \<notin> fst ` set (sVolTable s0)"
      using inv0 by (fastforce simp: inv_kextd_def tables_ok_def)
    then have "dict_remove (sVolTable s2) (sNextVolIndex s0) = sVolTable s0"
      using quiet_tables(2) [OF q]
      by (force simp: s1_def dict_set_fresh dict_get_None_iff dict_remove_def intro!: filter_True)
    then have "sVolTable (destroy_watchedVol a s2) = sVolTable s0" using w2(1) idx
      by (simp add: destroy_watchedVol_def Let_def)
    moreover have "rel_option same_vol (vols s0 b) (vols (destroy_watchedVol a s2) b)" for b
    proof (cases "b = a")
      case True
      then show ?thesis using a0 v0 by (simp add: destroy_watchedVol_def Let_def)
    next
      case False
      then have "vols s1 b = vols s0 b" by (simp add: s1_def)
      with q have "rel_option same_vol (vols s0 b) (vols s2 b)" unfolding quiet_def by metis
      then show ?thesis using False w2(1) by (simp add: destroy_watchedVol_def Let_def)
    qed
    ultimately show ?thesis
      using quiet_tables [OF q] w2(1)
      by (auto simp: quiet_def same_tables_def destroy_watchedVol_def Let_def s1_def all_finished_def)
  qed
  from quiet_inv [OF this drop_vol_inv [OF inv0, of a]] have dropped: "inv_kextd (destroy_watchedVol a s2)"
    using a0 v0(1) by simp
  show ?thesis
    using added dropped inv0 wants by (cases ok) (auto simp: add_watch_def create s2 Let_def)
qed

lemma vol_appeared_inv:
  assumes inv: "inv_kextd s" and env: "env_ok e"
  shows "inv_kextd (snd (vol_appeared e d s))"
proof (cases "\<exists>x uuid. d = Some x \<and> d_uuid x = Some uuid")
  case False
  then show ?thesis using inv by (auto simp: vol_appeared_def split: option.splits)
next
  case True
  then obtain x uuid where d: "d = Some x" "d_uuid x = Some uuid" by blast
  show ?thesis
  proof (cases "watched_at s uuid")
    case None
    then show ?thesis using add_watch_inv [OF inv env None] by (simp add: vol_appeared_def d)
  next
    case (Some a)
    then obtain w where w: "vols s a = Some w" using inv by (auto simp: inv_kextd_def elim: watched_alive)
    show ?thesis
    proof (cases "vol_root s a = ''/''")
      case True
      then show ?thesis using inv w Some by (simp add: vol_appeared_def d Let_def)
    next
      case False
      let ?t = "vol_disappeared e d s"
      have inv': "inv_kextd ?t" by (rule vol_disappeared_inv [OF inv])
      have "watched_at ?t uuid = None" using vol_disappeared_gone [OF inv d(2) Some False] by (simp add: d)
      from add_watch_inv [OF inv' env this] show ?thesis
        using w Some False by (simp add: vol_appeared_def d Let_def)
    qed
  qed
qed

section \<open>The other events\<close>

lemma changed_key_inv:
  assumes inv: "inv_kextd s" and env: "env_ok e"
    and alive: "\<And>a. watched = Some a \<Longrightarrow> key = MediaContentKey \<Longrightarrow> vols s a \<noteq> None"
  shows "inv_kextd (changed_key e d watched key s)"
proof (cases key)
  case VolumePathKey
  then show ?thesis using inv vol_disappeared_inv [OF inv] vol_appeared_inv [OF _ env]
    by (auto simp: changed_key_def Let_def)
next
  case MediaContentKey
  show ?thesis
  proof (cases watched)
    case None
    then show ?thesis using MediaContentKey vol_appeared_inv [OF inv env] by (simp add: changed_key_def)
  next
    case (Some a)
    then obtain w where "vols s a = Some w" using alive MediaContentKey by auto
    from quiet_inv [OF quiet_check_boots [OF this] inv] show ?thesis
      using Some MediaContentKey by (simp add: changed_key_def)
  qed
qed (simp add: changed_key_def inv)

text \<open>Freed memory can only be used when the content key is walked through after the path key.\<close>

definition safe_keys :: "change list \<Rightarrow> bool" where
  "safe_keys keys \<longleftrightarrow> VolumePathKey \<notin> set (dropWhile (\<lambda>k. k \<noteq> MediaContentKey) keys)"

lemma changed_keys_stale:
  assumes "env_ok e" and "inv_kextd s \<or> stale s"
  shows "inv_kextd (fold (\<lambda>k s. if stale s then s else changed_key e d watched k s) ks s) \<or>
    stale (fold (\<lambda>k s. if stale s then s else changed_key e d watched k s) ks s)"
  using assms(2)
proof (induction ks arbitrary: s)
  case (Cons k ks)
  have "inv_kextd (changed_key e d watched k s) \<or> stale (changed_key e d watched k s)" if inv: "inv_kextd s"
  proof (cases "\<exists>a. watched = Some a \<and> k = MediaContentKey \<and> vols s a = None")
    case True
    then show ?thesis by (auto simp: changed_key_def check_boots_set_nvram_def check_boots_with_def touch_def)
  next
    case False
    have "inv_kextd (changed_key e d watched k s)"
      by (rule changed_key_inv [OF inv assms(1)]) (use False in auto)
    then show ?thesis ..
  qed
  with Cons show ?case by auto
qed simp

lemma changed_keys_safe:
  assumes "env_ok e" and "inv_kextd s"
    and "(\<forall>a. watched = Some a \<longrightarrow> vols s a \<noteq> None) \<and> safe_keys (rev ks) \<or> MediaContentKey \<notin> set ks"
  shows "inv_kextd (fold (\<lambda>k s. if stale s then s else changed_key e d watched k s) ks s)"
  using assms(2,3)
proof (induction ks arbitrary: s)
  case (Cons k ks)
  have ns: "\<not> stale s" using Cons.prems(1) by (simp add: inv_kextd_def)
  have inv: "inv_kextd (changed_key e d watched k s)"
    using Cons.prems by (intro changed_key_inv assms(1)) auto
  have no_more: "MediaContentKey \<notin> set ks" if "k = VolumePathKey" "safe_keys (rev (k # ks))"
  proof
    assume "MediaContentKey \<in> set ks"
    then have "dropWhile (\<lambda>k. k \<noteq> MediaContentKey) (rev (k # ks)) = dropWhile (\<lambda>k. k \<noteq> MediaContentKey) (rev ks) @ [k]"
      by (simp add: dropWhile_append)
    with that show False by (simp add: safe_keys_def)
  qed
  have safe: "safe_keys (rev ks)" if "safe_keys (rev (k # ks))"
  proof (cases "MediaContentKey \<in> set ks")
    case True
    then show ?thesis using that by (auto simp: safe_keys_def dropWhile_append split: if_splits)
  next
    case False
    then have none: "dropWhile (\<lambda>k. k \<noteq> MediaContentKey) (rev ks) = []"
      by (subst dropWhile_eq_Nil_conv) auto
    show ?thesis unfolding safe_keys_def none by simp
  qed
  have alive: "vols (changed_key e d watched k s) a \<noteq> None"
    if "k \<noteq> VolumePathKey" "watched = Some a" and live: "vols s a \<noteq> None" for a
  proof -
    from live obtain w where w: "vols s a = Some w" by blast
    have "vols (check_boots_set_nvram e a s) a \<noteq> None" using quiet_vol [OF quiet_check_boots [OF w] w] by auto
    then show ?thesis using that by (cases k) (simp_all add: changed_key_def)
  qed
  have "inv_kextd (fold (\<lambda>k s. if stale s then s else changed_key e d watched k s) ks (changed_key e d watched k s))"
    by (rule Cons.IH [OF inv]) (use Cons.prems(2) no_more safe alive in \<open>cases "k = VolumePathKey"; fastforce\<close>)
  with ns show ?case by simp
qed simp

lemma vol_changed_stale:
  "inv_kextd s \<Longrightarrow> env_ok e \<Longrightarrow> inv_kextd (vol_changed e d keys s) \<or> stale (vol_changed e d keys s)"
  using changed_keys_stale [of e s] unfolding vol_changed_def
  by (cases d) (simp_all add: Let_def split: option.splits)

lemma vol_changed_safe:
  assumes "inv_kextd s" "env_ok e" "safe_keys keys"
  shows "inv_kextd (vol_changed e d keys s)"
proof -
  have "vols s a \<noteq> None" if "watched_at s uuid = Some a" for uuid a
    using assms(1) that by (auto simp: inv_kextd_def elim: watched_alive)
  then have "inv_kextd (fold (\<lambda>k s. if stale s then s else changed_key e x watched k s) (rev keys) s)"
    if "watched = watched_at s uuid" for x uuid watched
    using that by (intro changed_keys_safe [OF assms(2,1)]) (simp add: assms(3))
  with assms(1) show ?thesis by (simp add: vol_changed_def Let_def split: option.split)
qed

lemma is_watched_alive: "tables_ok s \<Longrightarrow> is_watched s a \<Longrightarrow> \<exists>w. vols s a = Some w"
  using tables_okD(4) [of s] by (auto simp: is_watched_def)

lemma checkScheduleUpdate_inv:
  assumes inv: "inv_kextd s" and env: "env_ok e"
  shows "inv_kextd (checkScheduleUpdate e a s)"
proof (cases "is_watched s a")
  case True
  then obtain w where w: "vols s a = Some w" using inv is_watched_alive [OF _ True] by (auto simp: inv_kextd_def)
  have "quiet s (upd_vol a (\<lambda>w. w\<lparr>delayer := timers_ok e\<rparr>) s)"
    by (rule quiet_upd [OF w]) (simp add: same_vol_def counters_ok_def)
  from quiet_inv [OF this inv] vol_appeared_inv [OF vol_disappeared_inv [OF inv] env] inv w
  show ?thesis by (auto simp: checkScheduleUpdate_def Let_def split: sum.splits option.splits)
qed (simp add: checkScheduleUpdate_def inv)

lemma fsys_changed_inv: "inv_kextd s \<Longrightarrow> env_ok e \<Longrightarrow> inv_kextd (fsys_changed e n s)"
  by (auto simp: fsys_changed_def checkScheduleUpdate_inv split: option.splits)

lemma check_now_inv:
  assumes inv: "inv_kextd s"
  shows "inv_kextd (check_now e a s)"
proof (cases "is_watched s a")
  case True
  then obtain w where w: "vols s a = Some w" using inv is_watched_alive [OF _ True] by (auto simp: inv_kextd_def)
  have "quiet s (upd_vol a (\<lambda>w. w\<lparr>delayer := False\<rparr>) s)"
    by (rule quiet_upd [OF w]) (simp add: same_vol_def counters_ok_def)
  from quiet_inv [OF quiet_trans [OF this quiet_check_rebuild [OF alive_upd [OF w]]] inv] True
  show ?thesis by (simp add: check_now_def)
qed (simp add: check_now_def inv)

section \<open>All volumes\<close>

text \<open>If no volume is busy then none is locked, whatever was started meanwhile.\<close>

lemma checkAllWatched_quiet:
  assumes inv: "inv_kextd s" and run: "checkAllWatched e s = (busy, busyVol, t)"
  shows "quiet s t" and "\<not> busy \<Longrightarrow> lock (vol t a) = None"
proof -
  obtain l where l: "sFsysWatchDict s = Some l" "set (map snd l) = dom (vols s)"
    using inv by (auto simp: inv_kextd_def tables_ok_def)
  obtain b t' where f: "fold (\<lambda>x. check_locked e (snd x)) l ([], s) = (b, t')" by fastforce
  have t: "t = t'" "busy \<longleftrightarrow> b \<noteq> []" using run f l(1) by (auto simp: checkAllWatched_def watch_list_def)
  have "\<exists>w. vols s (snd x) = Some w \<and> root (caches w) \<noteq> []" if "x \<in> set l" for x
  proof -
    from that have "snd x \<in> dom (vols s)" using l(2) by (metis image_eqI set_map)
    then show ?thesis using inv by (auto simp: inv_kextd_def tables_ok_def)
  qed
  with fold_check_locked [OF _ f] have q: "quiet s t'" "b = [] \<longrightarrow> (\<forall>x \<in> set l. lock (vol s (snd x)) = None)" by auto
  from q(1) show "quiet s t" by (simp add: t)
  assume "\<not> busy"
  then have "lock (vol s (snd x)) = None" if "x \<in> set l" for x using q(2) t that by simp
  then have "lock (vol s a) = None" if "a \<in> dom (vols s)" using l(2) that by (metis imageE set_map)
  then have "lock (vol s a) = None" by (cases "vols s a") (auto simp: vol_def new_vol_def no_caches_def)
  then show "lock (vol t a) = None" using quiet_eqs(1) [OF q(1)] by (simp add: t)
qed

lemma quiet_timer: "quiet s (s\<lparr>sAutoUpdateDelayer := b\<rparr>)"
  by (simp add: quiet_def same_tables_def all_finished_def option.rel_refl)

lemma checkAutoUpdate_inv:
  assumes "inv_kextd s"
  shows "inv_kextd (checkAutoUpdate e s)"
proof -
  have "inv_kextd (s\<lparr>sAutoUpdateDelayer := False\<rparr>)" using quiet_inv [OF quiet_timer assms] .
  then show ?thesis
    using checkAllWatched_quiet(1) quiet_inv by (fastforce simp: checkAutoUpdate_def split: prod.splits)
qed

text \<open>An objection to an unmount counts as an error of the volume.\<close>

lemma is_dadisk_busy_inv:
  assumes inv: "inv_kextd s" and env: "env_ok e"
  shows "inv_kextd (snd (is_dadisk_busy e d s))"
proof (cases "base_system e \<or> (\<forall>x. d = Some x \<longrightarrow> d_uuid x = None)")
  case True
  then show ?thesis using inv by (auto simp: is_dadisk_busy_def split: option.splits)
next
  case False
  then obtain x uuid where d: "d = Some x" "d_uuid x = Some uuid" "\<not> base_system e" by auto
  define s1 where "s1 = (if sAutoUpdateDelayer s then s\<lparr>sAutoUpdateDelayer := timers_ok e\<rparr> else s)"
  have "inv_kextd s1" using quiet_inv [OF quiet_timer inv] inv by (simp add: s1_def)
  then have inv2: "inv_kextd (if watched_at s1 uuid = None then snd (vol_appeared e d s1) else s1)"
    using vol_appeared_inv [OF _ env] by simp
  define s2 where "s2 = (if watched_at s1 uuid = None then snd (vol_appeared e d s1) else s1)"
  have inv2: "inv_kextd s2" using inv2 by (simp add: s2_def)
  show ?thesis
  proof (cases "watched_at s2 uuid")
    case None
    then show ?thesis using inv2
      by (simp add: is_dadisk_busy_def d s1_def [symmetric] s2_def [unfolded d, symmetric])
  next
    case (Some a)
    then obtain w where w: "vols s2 a = Some w" using inv2 by (auto simp: inv_kextd_def elim: watched_alive)
    have counted: "inv_kextd (upd_vol a (\<lambda>w. if updterrs w = 0 then w\<lparr>updterrs := 1\<rparr> else w) t)" if "quiet s2 t" for t
      by (rule quiet_inv [OF quiet_upd_trans [OF that w] inv2]) (auto simp: same_vol_def counters_ok_def)
    obtain busy t where t: "check_vol_busy e a s2 = (busy, t)" by (cases "check_vol_busy e a s2")
    have q: "quiet s2 t" using quiet_check_vol_busy [OF w, of e] by (simp add: t)
    show ?thesis
      using inv2 counted [OF quiet_refl] counted [OF q] quiet_inv [OF q inv2] w Some
      by (auto simp: is_dadisk_busy_def d s1_def [symmetric] s2_def [unfolded d, symmetric] t split: if_splits)
  qed
qed

lemma reconsiderVolume_inv:
  "inv_kextd s \<Longrightarrow> env_ok e \<Longrightarrow> inv_kextd (snd (reconsiderVolume e m s))"
  by (auto simp: reconsiderVolume_def vol_appeared_inv safe_keys_def intro!: vol_changed_safe split: option.splits)

lemma reconsider_all_inv:
  "inv_kextd s \<Longrightarrow> env_ok e \<Longrightarrow> inv_kextd (snd (reconsider_all e ms b s))"
proof (induction ms arbitrary: b s)
  case (Cons m ms)
  then show ?case using reconsiderVolume_inv [of s e m] by (auto split: prod.splits)
qed simp

lemma reconsiderVolumes_inv:
  "inv_kextd s \<Longrightarrow> env_ok e \<Longrightarrow> inv_kextd (snd (reconsiderVolumes e s))"
  by (simp add: reconsiderVolumes_def reconsider_all_inv)

lemma updateVolForMedia_inv:
  assumes "inv_kextd s" "env_ok e"
  shows "inv_kextd (updateVolForMedia e d stamps unlinked s)"
  using assms quiet_inv [OF quiet_emit assms(1)]
  by (auto simp: updateVolForMedia_def checkScheduleUpdate_inv split: option.splits)

end
