(* ===== verification/KextdHandoff.thy ===== *)
theory KextdHandoff
  imports KextdVolumes
begin

text \<open>
  src/kextd_watchvol.c: the locks keep the invariant. A lock that is handed on goes to the first
  waiter that can be told; between two waiters the volume is unlocked with clients in its queue,
  which \<open>inv_at\<close> allows for that one volume.
\<close>

section \<open>Ports that nobody holds\<close>

definition holder :: "kextd \<Rightarrow> nat \<Rightarrow> bool" where
  "holder s p \<longleftrightarrow> p \<in> waiting s \<or> (\<exists>a. lock (vol s a) = Some p) \<or> sRebootLock s = Some p"

lemma inv_parts:
  assumes "inv_kextd s"
  shows "tables_ok s" "vol_locks_ok s a" "reboot_ok s" "exclusive s" "replies_ok s" "\<not> stale s"
  using assms by (simp_all add: inv_kextd_def)

lemma holder_tracked: "inv_kextd s \<Longrightarrow> holder s p \<Longrightarrow> ports s p \<noteq> None"
  by (fastforce simp: holder_def waiting_def inv_kextd_def vol_locks_ok_def reboot_ok_def)

lemma waiting_context:
  assumes "inv_kextd s" and "p \<in> waiting s"
  obtains "sRebootWaiter s = Some p" "ports s p = Some RebootContext"
  | a where "p \<in> set (waiters (vol s a))" "ports s p = Some (VolumeContext a)"
  using assms by (auto simp: waiting_def inv_kextd_def vol_locks_ok_def reboot_ok_def)

lemma not_waiting_no_reply: "replies_ok s \<Longrightarrow> p \<notin> waiting s \<Longrightarrow> dict_get (=) (sReplyPorts s) p = None"
  by (simp add: replies_ok_def dict_get_None_iff)

lemma cleanup_no_reply:
  assumes "dict_get (=) (sReplyPorts s) p = None"
  shows "cleanupPort p s = s\<lparr>ports := (ports s)(p := None)\<rparr>"
proof -
  have "dict_remove (sReplyPorts s) p = sReplyPorts s"
    using assms by (auto simp: dict_remove_def dict_get_None_iff intro!: filter_True)
  then show ?thesis using assms by (simp add: cleanupPort_def)
qed

lemma drop_port_inv:
  assumes "inv_kextd s" and "\<not> holder s p"
  shows "inv_kextd (s\<lparr>ports := (ports s)(p := None)\<rparr>)"
proof -
  let ?t = "s\<lparr>ports := (ports s)(p := None)\<rparr>"
  have vol: "vol ?t = vol s" by (simp add: vol_def fun_eq_iff)
  note I = inv_parts [OF assms(1)]
  have "vol_locks_ok ?t a" for a
    using I(2) [of a] assms(2) by (auto simp: vol_locks_ok_def vol holder_def waiting_def)
  then show ?thesis
    using I assms(2)
    by (auto simp: inv_kextd_def tables_ok_def reboot_ok_def exclusive_def replies_ok_def holder_def waiting_def
        all_finished_def vol)
qed

section \<open>Handing the lock of a volume on\<close>

definition inv_at :: "nat \<Rightarrow> kextd \<Rightarrow> bool" where
  "inv_at a s \<longleftrightarrow> tables_ok s \<and> vols s a \<noteq> None \<and> (\<forall>b. b \<noteq> a \<longrightarrow> vol_locks_ok s b) \<and>
     distinct (waiters (vol s a)) \<and> (\<forall>p \<in> set (waiters (vol s a)). ports s p = Some (VolumeContext a)) \<and>
     (\<forall>p. lock (vol s a) = Some p \<longrightarrow> p \<notin> set (waiters (vol s a)) \<and>
        (ports s p = None \<or> ports s p = Some (VolumeContext a))) \<and>
     sRebootLock s = None \<and> reboot_ok s \<and> replies_ok s \<and> \<not> stale s"

lemma quiet_inv_at:
  assumes q: "quiet s t" and inv: "inv_at a s"
  shows "inv_at a t"
proof -
  note eqs = quiet_eqs [OF q] quiet_tables [OF q]
  have dom: "dom (vols t) = dom (vols s)" using quiet_alive [OF q] by (auto simp: dom_def)
  have "tables_ok s" using inv by (simp add: inv_at_def)
  then have "tables_ok t"
    using quiet_vol [OF q] quiet_vol' [OF q] unfolding tables_ok_def eqs dom by (fastforce simp: same_vol_def)
  moreover have "waiting t = waiting s" by (simp add: waiting_def eqs)
  ultimately show ?thesis
    using inv quiet_alive [OF q] by (simp add: inv_at_def vol_locks_ok_def reboot_ok_def replies_ok_def eqs)
qed

text \<open>The holder of a lock may already be gone.\<close>

lemma locked_inv_at:
  assumes "inv_kextd s" and "lock (vol s a) = Some p" and "vols s a = Some w"
  shows "inv_at a s" and "inv_at a (s\<lparr>ports := (ports s)(p := None)\<rparr>)"
proof -
  have nb: "sRebootLock s = None"
    using inv_parts(4) [OF assms(1)] assms(2) unfolding exclusive_def by (metis option.distinct(1))
  note I = inv_parts [OF assms(1)]
  show "inv_at a s" using I I(2) [of a] nb assms(2,3) by (auto simp: inv_at_def vol_locks_ok_def)
  have p: "ports s p = Some (VolumeContext a)" "p \<notin> set (waiters (vol s a))"
    using I(2) [of a] assms(2) by (auto simp: vol_locks_ok_def)
  let ?t = "s\<lparr>ports := (ports s)(p := None)\<rparr>"
  have vol: "vol ?t = vol s" by (simp add: vol_def fun_eq_iff)
  have "vol_locks_ok ?t b" if "b \<noteq> a" for b
    using I(2) [of b] p(1) that by (auto simp: vol_locks_ok_def vol)
  moreover have "reboot_ok ?t" using I(3) p(1) by (auto simp: reboot_ok_def)
  moreover have "tables_ok ?t" "replies_ok ?t" "\<not> stale ?t"
    using I(1,5,6) by (simp_all add: tables_ok_def replies_ok_def waiting_def all_finished_def vol)
  moreover have "distinct (waiters (vol s a))" "\<forall>q \<in> set (waiters (vol s a)). ports s q = Some (VolumeContext a)"
    using I(2) [of a] by (simp_all add: vol_locks_ok_def)
  ultimately show "inv_at a ?t" using p(2) assms(2,3) nb by (auto simp: inv_at_def vol)
qed

text \<open>Taking one port away from a volume: it gets the lock, or it is dropped.\<close>

lemma released_tables: "released s P t \<Longrightarrow> tables_ok t \<longleftrightarrow> tables_ok s"
  by (simp add: released_def tables_ok_def)

lemma released_replies:
  assumes "replies_ok s" and "waiting t = waiting s - {p}"
    and "sReplyPorts t = filter (\<lambda>x. fst x \<notin> {p}) (sReplyPorts s)" "asked t = asked s"
    and "mset (all_finished t) = mset (all_finished s) + mset (map snd (filter (\<lambda>x. fst x \<in> {p}) (sReplyPorts s)))"
  shows "replies_ok t"
proof -
  have "fst ` {x \<in> set (sReplyPorts s). fst x \<noteq> p} = fst ` set (sReplyPorts s) - {p}" by auto
  then show ?thesis
    using assms mset_map_split [of snd "sReplyPorts s" "{p}"]
    by (auto simp: replies_ok_def distinct_map_filter ac_simps)
qed

lemma other_queues:
  assumes "\<forall>b. b \<noteq> a \<longrightarrow> vol_locks_ok s b" and "p \<in> set (waiters (vol s b))" and "b \<noteq> a"
  shows "ports s p = Some (VolumeContext b)"
  using assms by (auto simp: vol_locks_ok_def)

lemma take_waiter:
  assumes inv: "inv_at a s" and w: "vols s a = Some v" "waiters v = pre @ p # post"
    and rel: "released s' {p} t" and s': "s' = s\<lparr>vols := (vols s)(a \<mapsto> v')\<rparr>"
    and v': "waiters v' = pre @ post" "caches v' = caches v" "vol_index v' = vol_index v" "counters_ok v' = counters_ok v"
    and ports: "ports t = ports s \<or> ports t = (ports s)(p := None)"
  shows "tables_ok t" "vol t a = v'" "\<And>b. b \<noteq> a \<Longrightarrow> vol_locks_ok t b" "reboot_ok t" "replies_ok t" "\<not> stale t"
    "sRebootLock t = None" "vols t a = Some v'"
proof -
  note I = inv [unfolded inv_at_def]
  have t: "vols t = (vols s)(a \<mapsto> v')" "sRebootLock t = sRebootLock s" "sRebootWaiter t = sRebootWaiter s" "stale t = stale s"
    using rel by (simp_all add: released_def s')
  have volt: "vol t = (vol s)(a := v')" by (auto simp: vol_def t fun_eq_iff)
  have ctx: "ports s p = Some (VolumeContext a)" using I w by auto
  have "tables_ok s'"
    using I w(1) v' unfolding tables_ok_def s' by (auto simp: insert_absorb domI)
  then show "tables_ok t" using released_tables [OF rel] by simp
  show "vol t a = v'" "vols t a = Some v'" by (simp_all add: volt t)
  show locks: "vol_locks_ok t b" if "b \<noteq> a" for b
  proof -
    have "vol_locks_ok s b" using I that by blast
    then show ?thesis using that ctx ports by (auto simp: vol_locks_ok_def volt)
  qed
  show "reboot_ok t" using I ctx ports by (auto simp: reboot_ok_def t)
  have waits: "waiting t = waiting s - {p}"
  proof -
    have "p \<notin> set (waiters (vol s b))" if "b \<noteq> a" for b
      using other_queues [of a s p b] I that ctx by auto
    moreover have "sRebootWaiter s \<noteq> Some p" using I ctx by (auto simp: reboot_ok_def)
    moreover have "p \<notin> set (pre @ post)" "distinct (pre @ p # post)" using I w by auto
    ultimately have "set (waiters (vol t b)) = set (waiters (vol s b)) - {p}" for b
      using w v' by (cases "b = a") (auto simp: volt)
    with \<open>sRebootWaiter s \<noteq> Some p\<close> show ?thesis by (auto simp: waiting_def t)
  qed
  have tables: "sReplyPorts t = filter (\<lambda>x. fst x \<notin> {p}) (sReplyPorts s)" "asked t = asked s"
    "mset (all_finished t) = mset (all_finished s) + mset (map snd (filter (\<lambda>x. fst x \<in> {p}) (sReplyPorts s)))"
    using rel unfolding s' by (simp_all add: released_def all_finished_def)
  have "replies_ok s" using I by blast
  then show "replies_ok t" by (rule released_replies [OF _ waits tables])
  show "\<not> stale t" "sRebootLock t = None" using I by (simp_all add: t)
qed

lemma reboot_unlocked_exclusive: "sRebootLock s = None \<Longrightarrow> exclusive s"
  by (simp add: exclusive_def)

lemma inv_at_inv:
  assumes "inv_at a s" and "lock (vol s a) = None \<longrightarrow> waiters (vol s a) = []"
    and "\<forall>p. lock (vol s a) = Some p \<longrightarrow> ports s p = Some (VolumeContext a)"
  shows "inv_kextd s"
proof -
  have "vol_locks_ok s b" for b using assms by (cases "b = a") (auto simp: inv_at_def vol_locks_ok_def)
  then show ?thesis using assms(1) by (simp add: inv_at_def inv_kextd_def exclusive_def)
qed

lemma tables_upd:
  assumes "tables_ok s" "vols s a = Some v"
    and "caches (f v) = caches v" "vol_index (f v) = vol_index v" "counters_ok v \<Longrightarrow> counters_ok (f v)"
  shows "tables_ok (upd_vol a f s)"
  using assms by (auto simp: tables_ok_def upd_vol_def insert_absorb domI)

lemma unlock_inv_at:
  assumes "inv_at a s"
  shows "inv_at a (upd_vol a (\<lambda>v. v\<lparr>lock := None\<rparr>) s)"
proof -
  note I = assms [unfolded inv_at_def]
  obtain v where v: "vols s a = Some v" using I by auto
  let ?u = "upd_vol a (\<lambda>v. v\<lparr>lock := None\<rparr>) s"
  have vol: "vol ?u = (vol s)(a := v\<lparr>lock := None\<rparr>)" using v by (auto simp: upd_vol_def vol_def fun_eq_iff)
  have rest: "sRebootLock ?u = sRebootLock s" "sRebootWaiter ?u = sRebootWaiter s" "ports ?u = ports s"
    "sReplyPorts ?u = sReplyPorts s" "asked ?u = asked s" "all_finished ?u = all_finished s" "stale ?u = stale s"
    using v by (simp_all add: upd_vol_def all_finished_def)
  have "tables_ok ?u" using I by (intro tables_upd [OF _ v]) (simp_all add: counters_ok_def)
  moreover have "waiters (vol ?u b) = waiters (vol s b)" for b using v by (simp add: vol)
  then have "waiting ?u = waiting s" by (simp add: waiting_def rest)
  moreover have "vol_locks_ok ?u b" if "b \<noteq> a" for b using I that by (simp add: vol_locks_ok_def vol rest)
  ultimately show ?thesis
    using I v by (simp add: inv_at_def vol rest reboot_ok_def replies_ok_def alive_upd)
qed

text \<open>\<open>handleWatchedHandoff\<close>: the first waiter that can be told has the lock.\<close>

lemma grant_next_inv:
  "inv_at a s \<Longrightarrow> lock (vol s a) = None \<Longrightarrow> waiters (vol s a) = ws \<Longrightarrow>
   inv_kextd (grant_next e a ws s) \<and> sRebootLock (grant_next e a ws s) = None"
proof (induction ws arbitrary: s)
  case Nil
  then show ?case using inv_at_inv [of a s] by (simp add: inv_at_def)
next
  case (Cons w ws)
  note I = Cons.prems(1) [unfolded inv_at_def]
  obtain v where v: "vols s a = Some v" using I by auto
  with Cons.prems have vw: "waiters v = [] @ w # ws" "lock v = None" by simp_all
  let ?v = "v\<lparr>lock := Some w, waiters := ws\<rparr>"
  let ?s = "s\<lparr>vols := (vols s)(a \<mapsto> ?v)\<rparr>"
  have s1: "upd_vol a (\<lambda>v. v\<lparr>lock := Some w, waiters := ws\<rparr>) s = ?s" using v by (simp add: upd_vol_def)
  have ctx: "ports s w = Some (VolumeContext a)" "distinct (w # ws)" "\<forall>p \<in> set ws. ports s p = Some (VolumeContext a)"
    using I vw v by auto
  obtain ok t where t: "signalWaiter e w 0 ?s = (ok, t)" by (cases "signalWaiter e w 0 ?s")
  have dist: "distinct (map fst (sReplyPorts ?s))" using I by (simp add: replies_ok_def)
  note rel = signal_released [OF dist t]
  have same: "waiters ?v = [] @ ws" "caches ?v = caches v" "vol_index ?v = vol_index v" "counters_ok ?v = counters_ok v"
    by (simp_all add: counters_ok_def)
  show ?case
  proof (cases ok)
    case True
    have "ports t = ports s" using rel by simp
    note taken = take_waiter [OF Cons.prems(1) v vw(1) conjunct1 [OF rel] refl same disjI1, OF this]
    have "inv_at a t" using taken ctx rel by (simp add: inv_at_def)
    then have "inv_kextd t" by (rule inv_at_inv) (use taken ctx rel in simp_all)
    then show ?thesis using True taken by (simp add: s1 t Let_def)
  next
    case False
    let ?u = "upd_vol a (\<lambda>v. v\<lparr>lock := None\<rparr>) (cleanupPort w t)"
    have distt: "distinct (map fst (sReplyPorts t))" using released_distinct [OF conjunct1 [OF rel] dist] .
    note rel2 = cleanup_released [OF distt, of w]
    have rels: "released ?s {w} (cleanupPort w t)" using released_trans [OF conjunct1 [OF rel] conjunct1 [OF rel2]] by simp
    have ports: "ports (cleanupPort w t) = (ports s)(w := None)" using rel rel2 by simp
    note taken = take_waiter [OF Cons.prems(1) v vw(1) rels refl same disjI2, OF ports]
    have mid: "inv_at a (cleanupPort w t)" using taken ctx ports by (auto simp: inv_at_def)
    have "inv_at a ?u" by (rule unlock_inv_at [OF mid])
    moreover have "lock (vol ?u a) = None" "waiters (vol ?u a) = ws" using taken by (simp_all add: upd_vol_def vol_def)
    ultimately have "inv_kextd (grant_next e a ws ?u) \<and> sRebootLock (grant_next e a ws ?u) = None" by (rule Cons.IH)
    then show ?thesis using False by (simp add: s1 t Let_def)
  qed
qed

lemma cleanup_inv_at:
  assumes "inv_at a s" and "lock (vol s a) = Some p"
  shows "inv_at a (cleanupPort p s)" "sRebootLock (cleanupPort p s) = None" "vol (cleanupPort p s) = vol s"
proof -
  note I = assms(1) [unfolded inv_at_def]
  let ?t = "s\<lparr>ports := (ports s)(p := None)\<rparr>"
  have free: "ports s p = None \<or> ports s p = Some (VolumeContext a)" "p \<notin> set (waiters (vol s a))"
    using I assms(2) by auto
  have "p \<notin> set (waiters (vol s b))" for b
    using I free other_queues [of a s p b] by (cases "b = a") auto
  moreover have "sRebootWaiter s \<noteq> Some p" using I free by (auto simp: reboot_ok_def)
  ultimately have no_wait: "p \<notin> waiting s" by (simp add: waiting_def)
  have "replies_ok s" using I by blast
  then have clean: "cleanupPort p s = ?t" using cleanup_no_reply not_waiting_no_reply no_wait by blast
  have vol: "vol ?t = vol s" by (simp add: vol_def fun_eq_iff)
  have locks: "vol_locks_ok ?t b" if "b \<noteq> a" for b
  proof -
    have "vol_locks_ok s b" using I that by blast
    then show ?thesis using that free by (auto simp: vol_locks_ok_def vol)
  qed
  have "reboot_ok ?t" using I free by (auto simp: reboot_ok_def)
  moreover have "tables_ok ?t" "replies_ok ?t"
    using I by (simp_all add: tables_ok_def replies_ok_def waiting_def all_finished_def vol)
  ultimately have "inv_at a ?t" using I locks assms(2) by (auto simp: inv_at_def vol)
  with I show "inv_at a (cleanupPort p s)" "sRebootLock (cleanupPort p s) = None" "vol (cleanupPort p s) = vol s"
    by (simp_all add: clean vol)
qed

lemma handleWatchedHandoff_inv:
  assumes "inv_at a s" and "lock (vol s a) \<noteq> None"
  shows "inv_kextd (handleWatchedHandoff e a s)" "sRebootLock (handleWatchedHandoff e a s) = None"
proof -
  obtain p where p: "lock (vol s a) = Some p" using assms(2) by blast
  obtain v where v: "vols s a = Some v" using assms(1) by (auto simp: inv_at_def)
  note c = cleanup_inv_at [OF assms(1) p]
  let ?u = "upd_vol a (\<lambda>v. v\<lparr>lock := None\<rparr>) (cleanupPort p s)"
  have "lock (vol ?u a) = None"
    using c(1) by (auto simp: inv_at_def upd_vol_def vol_def split: option.splits)
  from grant_next_inv [OF unlock_inv_at [OF c(1)] this refl]
  show "inv_kextd (handleWatchedHandoff e a s)" "sRebootLock (handleWatchedHandoff e a s) = None"
    using p v by (simp_all add: handleWatchedHandoff_def Let_def)
qed

section \<open>The reboot lock\<close>

lemma unlocked_quiet: "quiet s t \<Longrightarrow> \<forall>a. lock (vol s a) = None \<Longrightarrow> lock (vol t a) = None"
  using quiet_eqs(1) by metis

text \<open>The client that waits for the reboot lock is taken out.\<close>

lemma release_reboot_waiter:
  assumes inv: "inv_kextd s" and w: "sRebootWaiter s = Some w" and rel: "released s {w} t"
    and ports: "ports t = ports s \<or> ports t = (ports s)(w := None)"
  shows "inv_kextd (t\<lparr>sRebootWaiter := None\<rparr>)"
proof -
  note I = inv_parts [OF inv]
  let ?t = "t\<lparr>sRebootWaiter := None\<rparr>"
  have ctx: "ports s w = Some RebootContext" using I(3) w by (simp add: reboot_ok_def)
  have t: "vols t = vols s" "sRebootLock t = sRebootLock s" "stale t = stale s" "asked t = asked s"
    using rel by (simp_all add: released_def)
  have vol: "vol ?t = vol s" by (simp add: vol_def t fun_eq_iff)
  have "vol_locks_ok ?t a" for a using I(2) [of a] ctx ports by (auto simp: vol_locks_ok_def vol)
  moreover have "reboot_ok ?t" using I(3) ctx ports w by (auto simp: reboot_ok_def t)
  moreover have "exclusive ?t" using I(4) by (simp add: exclusive_def vol t)
  moreover have "tables_ok ?t" using I(1) rel by (simp add: released_def tables_ok_def)
  moreover have "waiting ?t = waiting s - {w}"
  proof -
    have "w \<notin> set (waiters (vol s a))" for a using I(2) [of a] ctx by (auto simp: vol_locks_ok_def)
    then show ?thesis using w by (auto simp: waiting_def vol)
  qed
  then have "replies_ok ?t"
    by (rule released_replies [OF I(5)]) (use rel in \<open>simp_all add: released_def all_finished_def\<close>)
  ultimately show ?thesis using I(6) by (simp add: inv_kextd_def t)
qed

lemma set_reboot_lock_inv:
  assumes "inv_kextd s" "ports s p = Some RebootContext" "sRebootWaiter s \<noteq> Some p" "\<forall>a. lock (vol s a) = None"
  shows "inv_kextd (s\<lparr>sRebootLock := Some p\<rparr>)"
proof -
  have vol: "vol (s\<lparr>sRebootLock := Some p\<rparr>) = vol s" by (simp add: vol_def fun_eq_iff)
  show ?thesis
    using assms by (simp add: inv_kextd_def vol_locks_ok_def reboot_ok_def exclusive_def replies_ok_def waiting_def
        tables_ok_def all_finished_def vol)
qed

lemma handleRebootHandoff_inv:
  assumes inv: "inv_kextd s"
  shows "inv_kextd (handleRebootHandoff e s)"
proof -
  obtain busy busyVol t where t: "checkAllWatched e s = (busy, busyVol, t)" by (cases "checkAllWatched e s") auto
  note checked = checkAllWatched_quiet [OF inv t]
  have inv_t: "inv_kextd t" using quiet_inv [OF checked(1) inv] .
  show ?thesis
  proof (cases "busy \<or> sRebootWaiter t = None")
    case True
    then show ?thesis using inv_t by (cases busy) (auto simp: handleRebootHandoff_def t)
  next
    case False
    then obtain w where w: "\<not> busy" "sRebootWaiter t = Some w" by auto
    obtain ok u where u: "signalWaiter e w 0 t = (ok, u)" by (cases "signalWaiter e w 0 t")
    have dist: "distinct (map fst (sReplyPorts t))" using inv_t by (simp add: inv_kextd_def replies_ok_def)
    note rel = signal_released [OF dist u]
    have inv_u: "inv_kextd (u\<lparr>sRebootWaiter := None\<rparr>)"
      by (rule release_reboot_waiter [OF inv_t w(2)]) (use rel in simp_all)
    have "vols u = vols t" using rel by (simp add: released_def)
    then have "\<forall>a. lock (vol (u\<lparr>sRebootWaiter := None\<rparr>) a) = None" using checked(2) [OF w(1)] by (simp add: vol_def)
    moreover have "ports t w = Some RebootContext" using inv_t w(2) by (simp add: inv_kextd_def reboot_ok_def)
    ultimately have "inv_kextd (u\<lparr>sRebootWaiter := None, sRebootLock := Some w\<rparr>)"
      using set_reboot_lock_inv [OF inv_u, of w] rel by simp
    moreover have "u\<lparr>sRebootWaiter := None, sRebootLock := Some w\<rparr> = u\<lparr>sRebootLock := Some w, sRebootWaiter := None\<rparr>"
      by simp
    ultimately have "inv_kextd (u\<lparr>sRebootLock := Some w, sRebootWaiter := None\<rparr>)" by (simp only:)
    with inv_u show ?thesis using w by (cases ok) (simp_all add: handleRebootHandoff_def t u)
  qed
qed

end
