(* ===== verification/Systems.thy ===== *)
theory Systems
  imports Main
begin

text \<open>
  Programs that react to events, as start states, steps and an invariant. The daemons of the library
  are interpreted as such systems; what holds in every state that can be reached is proved here once.
\<close>

locale event_system =
  fixes start :: "'s \<Rightarrow> bool"
    and step :: "'s \<Rightarrow> 's \<Rightarrow> bool"
    and invariant :: "'s \<Rightarrow> bool"
  assumes start_invariant: "start s \<Longrightarrow> invariant s"
    and step_invariant: "invariant s \<Longrightarrow> step s t \<Longrightarrow> invariant t"
begin

lemma steps_invariant:
  assumes "step\<^sup>*\<^sup>* s t" and "invariant s"
  shows "invariant t"
  using assms by (induction rule: rtranclp_induct) (auto intro: step_invariant)

lemma reached_invariant: "start s \<Longrightarrow> step\<^sup>*\<^sup>* s t \<Longrightarrow> invariant t"
  using steps_invariant start_invariant by blast

text \<open>A state that the invariant rules out is never reached.\<close>

lemma never_reached:
  assumes "start s" and "step\<^sup>*\<^sup>* s t" and "\<And>u. bad u \<Longrightarrow> \<not> invariant u"
  shows "\<not> bad t"
  using reached_invariant [OF assms(1,2)] assms(3) by blast

end

end
