(* ===== verification/KextdEvents.thy ===== *)
theory KextdEvents
  imports KextdHandoff Systems
begin

text \<open>
  src/kextd_watchvol.c: the services and the death of a client keep the invariant, so every state
  that can be reached has it.
\<close>

section \<open>Looking at all volumes takes no lock\<close>

definition calm :: "kextd \<Rightarrow> kextd \<Rightarrow> bool" where
  "calm s t \<longleftrightarrow> asked t = asked s \<and> sRebootLock t = sRebootLock s \<and> sRebootWaiter t = sRebootWaiter s \<and>
     (\<forall>p. ports s p = None \<longrightarrow> ports t p = None) \<and>
     ((\<forall>a. lock (vol s a) = None) \<longrightarrow> (\<forall>a. lock (vol t a) = None))"

lemma calm_refl [simp]: "calm s s"
  by (simp add: calm_def)

lemma calm_trans: "calm s t \<Longrightarrow> calm t u \<Longrightarrow> calm s u"
  by (simp add: calm_def)

lemma quiet_calm: "quiet s t \<Longrightarrow> calm s t"
  using quiet_eqs(1) [of s t] quiet_tables [of s t] by (simp add: calm_def)

lemma calm_vol_disappeared:
  assumes inv: "inv_kextd s"
  shows "calm s (vol_disappeared e d s)"
proof (cases "\<exists>x uuid a. d = Some x \<and> d_uuid x = Some uuid \<and> watched_at s uuid = Some a \<and> vol_root s a \<noteq> ''/''")
  case False
  then show ?thesis using inv
    by (auto simp: vol_disappeared_def Let_def inv_kextd_def elim: watched_alive split: option.splits)
next
  case True
  then obtain x uuid a where d: "d = Some x" "d_uuid x = Some uuid" "watched_at s uuid = Some a" "vol_root s a \<noteq> ''/''"
    by blast
  then obtain w where w: "vols s a = Some w" using inv by (auto simp: inv_kextd_def elim: watched_alive)
  define s1 where "s1 = upd_vol a (\<lambda>w. w\<lparr>delayer := False\<rparr>)
      (s\<lparr>sFsysWatchDict := map_option (\<lambda>l. dict_remove l uuid) (sFsysWatchDict s)\<rparr>)"
  have s1: "vols s1 = (vols s)(a \<mapsto> w\<lparr>delayer := False\<rparr>)" "sReplyPorts s1 = sReplyPorts s" "ports s1 = ports s"
    "asked s1 = asked s" "sRebootLock s1 = sRebootLock s" "sRebootWaiter s1 = sRebootWaiter s"
    using w by (simp_all add: s1_def upd_vol_def)
  let ?t = "abandon_waiters e (waiters (vol s1 a)) s1"
  have "distinct (map fst (sReplyPorts s1))" using inv by (simp add: inv_kextd_def replies_ok_def s1)
  note rel = abandon_released [OF this, of "waiters (vol s1 a)" e]
  have result: "vol_disappeared e d s = destroy_watchedVol a ?t"
    using d w by (simp add: vol_disappeared_def Let_def s1_def)
  have t: "vols ?t = vols s1" "asked ?t = asked s" "sRebootLock ?t = sRebootLock s" "sRebootWaiter ?t = sRebootWaiter s"
    using rel by (simp_all add: released_def s1)
  have "lock (vol (destroy_watchedVol a ?t) b) = None" if "\<forall>b. lock (vol s b) = None" for b
    using that t s1 by (auto simp: destroy_watchedVol_def Let_def vol_def new_vol_def no_caches_def split: option.splits)
  then show ?thesis
    using t s1 rel by (simp add: calm_def result destroy_watchedVol_def Let_def)
qed

lemma calm_create:
  assumes "create_watchedVol e d s = (Some a, t)" and "env_ok e"
  shows "calm s t" "\<exists>w. vols t a = Some w \<and> lock w = None"
  using assms
  by (auto simp: create_watchedVol_def Let_def calm_def vol_def new_vol_def emit_def split: option.splits if_splits)

lemma calm_dict [simp]: "calm s (t\<lparr>sFsysWatchDict := f\<rparr>) \<longleftrightarrow> calm s t"
  by (simp add: calm_def vol_def)

lemma calm_destroy: "calm s t \<Longrightarrow> vols t a = Some w \<Longrightarrow> calm s (destroy_watchedVol a t)"
  by (auto simp: calm_def destroy_watchedVol_def Let_def vol_def new_vol_def no_caches_def split: option.splits)

lemma calm_add_watch:
  assumes "env_ok e"
  shows "calm s (snd (add_watch e d uuid s))"
proof (cases "create_watchedVol e d s")
  case (Pair r t)
  show ?thesis
  proof (cases r)
    case None
    have "calm s t" using Pair None
      by (auto simp: create_watchedVol_def Let_def calm_def vol_def emit_def split: option.splits if_splits)
    then show ?thesis using Pair None by (simp add: add_watch_def)
  next
    case (Some a)
    note made = calm_create [OF Pair [unfolded Some] assms]
    then obtain w where w: "vols t a = Some w" by blast
    obtain ok u where u: "watch_volume e a t = (ok, u)" by (cases "watch_volume e a t")
    have q: "quiet t u" using quiet_watch_volume [OF w, of e] by (simp add: u)
    have c: "calm s u" by (rule calm_trans [OF made(1) quiet_calm [OF q]])
    obtain w' where w': "vols u a = Some w'" using quiet_vol [OF q w] by blast
    let ?u = "u\<lparr>sFsysWatchDict := map_option (\<lambda>l. dict_set (=) l uuid a) (sFsysWatchDict u)\<rparr>"
    have "quiet ?u (snd (check_rebuild e a ?u))" using w' by (intro quiet_check_rebuild) simp
    then have "calm s (snd (check_rebuild e a ?u))" using c calm_trans quiet_calm calm_dict by blast
    then show ?thesis using c calm_destroy [OF c w'] by (cases ok) (auto simp: add_watch_def Pair Some u Let_def)
  qed
qed

lemma inv_tables: "inv_kextd s \<Longrightarrow> tables_ok s"
  by (simp add: inv_kextd_def)

lemma calm_vol_appeared:
  assumes "inv_kextd s" and "env_ok e"
  shows "calm s (snd (vol_appeared e d s))"
proof -
  have touched: "touch a s = s" if "watched_at s uuid = Some a" for uuid a
    using assms(1) that by (auto simp: inv_kextd_def elim: watched_alive)
  show ?thesis
    using calm_add_watch [OF assms(2)] calm_trans [OF calm_vol_disappeared [OF assms(1)] calm_add_watch [OF assms(2)]]
    by (auto simp: vol_appeared_def Let_def touched split: option.splits)
qed

lemma calm_reconsiderVolume:
  assumes inv: "inv_kextd s" and env: "env_ok e"
  shows "calm s (snd (reconsiderVolume e m s))"
proof -
  have ns: "\<not> stale s" using inv by (simp add: inv_kextd_def)
  have "calm s (vol_changed e d [MediaContentKey] s)" for d
  proof -
    have "calm s (check_boots_set_nvram e a s)" if at: "watched_at s uuid = Some a" for uuid a
    proof -
      obtain w where "vols s a = Some w" by (rule watched_alive [OF inv_tables [OF inv] at])
      then show ?thesis by (intro quiet_calm quiet_check_boots)
    qed
    then show ?thesis using ns calm_vol_appeared [OF inv env]
      by (auto simp: vol_changed_def Let_def changed_key_def split: option.splits)
  qed
  then show ?thesis using calm_vol_appeared [OF inv env] by (auto simp: reconsiderVolume_def split: option.splits)
qed

lemma calm_reconsider_all:
  "inv_kextd s \<Longrightarrow> env_ok e \<Longrightarrow> calm s (snd (reconsider_all e ms b s))"
proof (induction ms arbitrary: b s)
  case (Cons m ms)
  obtain launched t where t: "reconsiderVolume e m s = (launched, t)" by (cases "reconsiderVolume e m s")
  have "calm s t" "inv_kextd t"
    using calm_reconsiderVolume [OF Cons.prems, of m] reconsiderVolume_inv [OF Cons.prems, of m] by (simp_all add: t)
  then show ?case using Cons.IH Cons.prems(2) calm_trans by (auto simp: t)
qed simp

lemma calm_reconsiderVolumes: "inv_kextd s \<Longrightarrow> env_ok e \<Longrightarrow> calm s (snd (reconsiderVolumes e s))"
  by (simp add: reconsiderVolumes_def calm_reconsider_all)

section \<open>A client asks\<close>

lemma vol_updates [simp]:
  "vol (s\<lparr>ports := x1\<rparr>) = vol s" "vol (s\<lparr>sRebootLock := x2\<rparr>) = vol s" "vol (s\<lparr>sRebootWaiter := x2\<rparr>) = vol s"
  "vol (s\<lparr>sReplyPorts := x3\<rparr>) = vol s" "vol (s\<lparr>asked := x4\<rparr>) = vol s" "vol (s\<lparr>sFsysWatchDict := x5\<rparr>) = vol s"
  by (simp_all add: vol_def fun_eq_iff)

lemma all_finished_updates [simp]:
  "all_finished (s\<lparr>ports := x1\<rparr>) = all_finished s" "all_finished (s\<lparr>sRebootLock := x2\<rparr>) = all_finished s"
  "all_finished (s\<lparr>sRebootWaiter := x2\<rparr>) = all_finished s" "all_finished (s\<lparr>sReplyPorts := x3\<rparr>) = all_finished s"
  "all_finished (s\<lparr>asked := x4\<rparr>) = all_finished s" "all_finished (s\<lparr>vols := x6\<rparr>) = all_finished s"
  by (simp_all add: all_finished_def)

lemma track_inv:
  assumes "inv_kextd s" and "ports s p = None"
  shows "inv_kextd (s\<lparr>ports := (ports s)(p \<mapsto> c)\<rparr>)"
proof -
  let ?t = "s\<lparr>ports := (ports s)(p \<mapsto> c)\<rparr>"
  note I = inv_parts [OF assms(1)]
  have "vol_locks_ok ?t a" for a
    using I(2) [of a] assms(2) by (auto simp: vol_locks_ok_def)
  then show ?thesis
    using I assms(2)
    by (auto simp: inv_kextd_def tables_ok_def reboot_ok_def exclusive_def replies_ok_def waiting_def)
qed

lemma created_port:
  assumes "createWatchedPort e p c s = (Some q, t)" and "ports s p = None"
  shows "q = p" "t = s\<lparr>ports := (ports s)(p \<mapsto> c)\<rparr>"
  using assms by (auto simp: createWatchedPort_def split: if_splits)

lemma no_port:
  assumes "createWatchedPort e p c s = (None, t)"
  shows "t = s"
  using assms by (auto simp: createWatchedPort_def split: if_splits)

lemma untracked_not_waiting: "inv_kextd s \<Longrightarrow> ports s p = None \<Longrightarrow> p \<notin> waiting s"
  using holder_tracked [of s p] by (auto simp: holder_def)

text \<open>A reply port is put aside for a client that begins to wait.\<close>

lemma put_aside:
  assumes "replies_ok s" and "p \<notin> waiting s" and "r \<notin> set (asked s)" and "waiting t = insert p (waiting s)"
    and "sReplyPorts t = dict_set (=) (sReplyPorts s) p r" "asked t = asked s @ [r]" "all_finished t = all_finished s"
  shows "replies_ok t"
proof -
  have "dict_get (=) (sReplyPorts s) p = None" using not_waiting_no_reply assms(1,2) by blast
  then have new: "dict_set (=) (sReplyPorts s) p r = sReplyPorts s @ [(p, r)]" "p \<notin> fst ` set (sReplyPorts s)"
    by (simp_all add: dict_set_fresh dict_get_None_iff)
  then show ?thesis using assms by (auto simp: replies_ok_def)
qed

lemma kextmanager_lock_reboot_inv:
  assumes inv: "inv_kextd s" and env: "env_ok e" and fresh: "ports s client = None" "r \<notin> set (asked s)"
  shows "inv_kextd (snd (kextmanager_lock_reboot e r client w s))"
proof (cases "gClientUID e \<noteq> 0 \<or> sRebootLock s \<noteq> None")
  case True
  then show ?thesis using inv by (auto simp: kextmanager_lock_reboot_def)
next
  case False
  obtain busy0 busyVol t where t: "checkAllWatched e s = (busy0, busyVol, t)" by (cases "checkAllWatched e s") auto
  note checked = checkAllWatched_quiet [OF inv t]
  have inv_t: "inv_kextd t" using quiet_inv [OF checked(1) inv] .
  define u where "u = (if busy0 then t else snd (reconsiderVolumes e t))"
  define busy where "busy = (busy0 \<or> fst (reconsiderVolumes e t) \<noteq> None)"
  have inv_u: "inv_kextd u" using reconsiderVolumes_inv [OF inv_t env] inv_t by (simp add: u_def)
  have "calm t u" using calm_reconsiderVolumes [OF inv_t env] by (simp add: u_def)
  note c = calm_trans [OF quiet_calm [OF checked(1)] this]
  have free: "ports u client = None" "r \<notin> set (asked u)" "sRebootLock u = None"
    using c fresh False by (auto simp: calm_def)
  have unlocked: "\<forall>a. lock (vol u a) = None" if "\<not> busy"
    using that checked(2) \<open>calm t u\<close> by (simp add: busy_def calm_def)
  let ?v = "u\<lparr>ports := (ports u)(client \<mapsto> RebootContext)\<rparr>"
  have inv_v: "inv_kextd ?v" by (rule track_inv [OF inv_u free(1)])
  have not_waiting: "client \<notin> waiting u" by (rule untracked_not_waiting [OF inv_u free(1)])
  have locked: "inv_kextd (?v\<lparr>sRebootLock := Some client\<rparr>)" if "\<not> busy"
    using unlocked [OF that] not_waiting by (intro set_reboot_lock_inv [OF inv_v]) (auto simp: waiting_def)
  let ?x = "?v\<lparr>sRebootWaiter := Some client, sReplyPorts := dict_set (=) (sReplyPorts ?v) client r, asked := asked ?v @ [r]\<rparr>"
  have waits: "inv_kextd ?x" if "sRebootWaiter u = None"
  proof -
    have "replies_ok ?x"
      by (rule put_aside [OF inv_parts(5) [OF inv_u] not_waiting free(2)]) (use that in \<open>auto simp: waiting_def\<close>)
    then show ?thesis
      using inv_v free(3) by (simp add: inv_kextd_def tables_ok_def vol_locks_ok_def reboot_ok_def exclusive_def)
  qed
  have run: "kextmanager_lock_reboot e r client w s =
      (if \<not> busy then
         (case createWatchedPort e client RebootContext u of
            (None, s) \<Rightarrow> (Failure, s) | (Some p, s) \<Rightarrow> (Answer 0, s\<lparr>sRebootLock := Some p\<rparr>))
       else if w \<and> sRebootWaiter u = None then
         (case createWatchedPort e client RebootContext u of
            (None, s) \<Rightarrow> (Answer EBUSY, s)
          | (Some p, s) \<Rightarrow>
              (NoReply, s\<lparr>sRebootWaiter := Some p, sReplyPorts := dict_set (=) (sReplyPorts s) p r, asked := asked s @ [r]\<rparr>))
       else (Answer EBUSY, u))"
    using False by (cases "reconsiderVolumes e t") (simp add: kextmanager_lock_reboot_def t u_def busy_def)
  obtain q y where y: "createWatchedPort e client RebootContext u = (q, y)" by (cases "createWatchedPort e client RebootContext u")
  show ?thesis
  proof (cases q)
    case None
    then show ?thesis using inv_u no_port [of e client RebootContext u y] y by (simp add: run)
  next
    case (Some p)
    then have "p = client" "y = ?v" using created_port [of e client RebootContext u p y] y free(1) by auto
    then show ?thesis using inv_u locked waits y Some by (simp add: run)
  qed
qed

text \<open>One volume is changed without touching its tables.\<close>

lemma upd_vol_fields:
  assumes "vols s a = Some w"
  shows "vol (upd_vol a f s) = (vol s)(a := f w)" "ports (upd_vol a f s) = ports s"
    "sRebootLock (upd_vol a f s) = sRebootLock s" "sRebootWaiter (upd_vol a f s) = sRebootWaiter s"
    "sReplyPorts (upd_vol a f s) = sReplyPorts s" "asked (upd_vol a f s) = asked s"
    "all_finished (upd_vol a f s) = all_finished s" "stale (upd_vol a f s) = stale s"
  using assms by (auto simp: upd_vol_def vol_def fun_eq_iff)

lemma tables_updates [simp]:
  "tables_ok (s\<lparr>ports := x1\<rparr>) = tables_ok s" "tables_ok (s\<lparr>sRebootLock := x2\<rparr>) = tables_ok s"
  "tables_ok (s\<lparr>sRebootWaiter := x2\<rparr>) = tables_ok s" "tables_ok (s\<lparr>sReplyPorts := x3\<rparr>) = tables_ok s"
  "tables_ok (s\<lparr>asked := x4\<rparr>) = tables_ok s"
  by (simp_all add: tables_ok_def)

lemma take_lock_inv:
  assumes inv: "inv_kextd s" and w: "vols s a = Some w" "lock w = None" and "sRebootLock s = None"
    and p: "ports s p = Some (VolumeContext a)" "\<not> holder s p"
  shows "inv_kextd (upd_vol a (\<lambda>w. w\<lparr>lock := Some p\<rparr>) s)"
proof -
  let ?t = "upd_vol a (\<lambda>w. w\<lparr>lock := Some p\<rparr>) s"
  note I = inv_parts [OF inv] and t = upd_vol_fields [OF w(1), of "\<lambda>w. w\<lparr>lock := Some p\<rparr>"]
  have "tables_ok ?t" using I(1) by (rule tables_upd [OF _ w(1)]) (simp_all add: counters_ok_def)
  moreover have "vol_locks_ok ?t b" for b
    using I(2) [of b] w p by (cases "b = a") (auto simp: vol_locks_ok_def t)
  moreover have "waiters (vol ?t b) = waiters (vol s b)" for b using w by (simp add: t)
  then have "waiting ?t = waiting s" by (simp add: waiting_def t)
  ultimately show ?thesis using I(3,5,6) assms(4) by (simp add: inv_kextd_def reboot_ok_def exclusive_def replies_ok_def t)
qed

lemma join_queue_inv:
  assumes inv: "inv_kextd s" and w: "vols s a = Some w" "lock w \<noteq> None" and r: "r \<notin> set (asked s)"
    and p: "ports s p = Some (VolumeContext a)" "\<not> holder s p"
  shows "inv_kextd ((upd_vol a (\<lambda>w. w\<lparr>waiters := waiters w @ [p]\<rparr>) s)
    \<lparr>sReplyPorts := dict_set (=) (sReplyPorts s) p r, asked := asked s @ [r]\<rparr>)" (is "inv_kextd ?t")
proof -
  let ?u = "upd_vol a (\<lambda>w. w\<lparr>waiters := waiters w @ [p]\<rparr>) s"
  note I = inv_parts [OF inv] and t = upd_vol_fields [OF w(1), of "\<lambda>w. w\<lparr>waiters := waiters w @ [p]\<rparr>"]
  have not_waiting: "p \<notin> waiting s" using p(2) by (simp add: holder_def)
  then have fresh: "p \<notin> set (waiters (vol s b))" "lock (vol s b) \<noteq> Some p" for b
    using p(2) by (auto simp: waiting_def holder_def)
  have "tables_ok ?u" using I(1) by (rule tables_upd [OF _ w(1)]) (simp_all add: counters_ok_def)
  moreover have "vol_locks_ok ?t b" for b
    using I(2) [of b] w p(1) fresh [of b] by (cases "b = a") (auto simp: vol_locks_ok_def t)
  moreover have "set (waiters (vol ?t b)) = set (waiters (vol s b)) \<union> (if b = a then {p} else {})" for b
    using w by (simp add: t)
  then have "waiting ?t = insert p (waiting s)" by (auto simp: waiting_def t split: if_splits)
  then have "replies_ok ?t" by (rule put_aside [OF I(5) not_waiting r]) (simp_all add: t)
  moreover have "lock (vol ?t b) = lock (vol s b)" for b using w by (simp add: t)
  ultimately show ?thesis using I(3,4,6) by (simp add: inv_kextd_def reboot_ok_def exclusive_def t)
qed

lemma quiet_enable_owners: "vols s a = Some w \<Longrightarrow> quiet s (enable_owners e a s)"
  by (auto simp: enable_owners_def Let_def intro!: quiet_upd_trans quiet_emit simp: same_vol_def counters_ok_def
      split: option.splits)

lemma kextmanager_lock_volume_inv:
  assumes inv: "inv_kextd s" and fresh: "ports s client = None" "r \<notin> set (asked s)"
  shows "inv_kextd (snd (kextmanager_lock_volume e r client uuid w s))"
proof (cases "gClientUID e \<noteq> 0 \<or> sFsysWatchDict s = None \<or> sRebootLock s \<noteq> None \<or> \<not> memory_ok e \<or> watched_at s uuid = None")
  case True
  then show ?thesis using inv by (auto simp: kextmanager_lock_volume_def)
next
  case False
  then obtain a where a: "watched_at s uuid = Some a" "sRebootLock s = None" by blast
  obtain v where v: "vols s a = Some v" by (rule watched_alive [OF inv_tables [OF inv] a(1)])
  let ?s = "s\<lparr>ports := (ports s)(client \<mapsto> VolumeContext a)\<rparr>"
  have inv': "inv_kextd ?s" by (rule track_inv [OF inv fresh(1)])
  have "\<not> holder s client" using holder_tracked [OF inv] fresh(1) by blast
  then have free: "\<not> holder ?s client" "ports ?s client = Some (VolumeContext a)" by (simp_all add: holder_def waiting_def)
  have v': "vols ?s a = Some v" using v by simp
  obtain q t where t: "createWatchedPort e client (VolumeContext a) s = (q, t)"
    by (cases "createWatchedPort e client (VolumeContext a) s")
  show ?thesis
  proof (cases q)
    case None
    then show ?thesis using inv a v False no_port [of e client _ s t] t by (auto simp: kextmanager_lock_volume_def Let_def)
  next
    case (Some p)
    then have p: "p = client" "t = ?s" using created_port [of e client _ s p t] t fresh(1) by auto
    have locked: "inv_kextd (enable_owners e a (upd_vol a (\<lambda>w. w\<lparr>lock := Some client\<rparr>) ?s))" if "lock v = None"
    proof -
      have "inv_kextd (upd_vol a (\<lambda>w. w\<lparr>lock := Some client\<rparr>) ?s)"
        by (rule take_lock_inv [OF inv' v' that]) (use a free in simp_all)
      then show ?thesis using quiet_inv [OF quiet_enable_owners [OF alive_upd [OF v']]] by blast
    qed
    have queued: "inv_kextd ((upd_vol a (\<lambda>w. w\<lparr>waiters := waiters w @ [client]\<rparr>) ?s)
        \<lparr>sReplyPorts := dict_set (=) (sReplyPorts ?s) client r, asked := asked ?s @ [r]\<rparr>)" if "lock v \<noteq> None"
      by (rule join_queue_inv [OF inv' v' that]) (use fresh free in simp_all)
    show ?thesis
      using False a v inv t Some p locked queued
      by (cases "lock v") (simp_all add: kextmanager_lock_volume_def Let_def upd_vol_fields [OF v'])
  qed
qed

section \<open>A client is finished\<close>

lemma quiet_restore_owners: "vols s a = Some w \<Longrightarrow> quiet s (restore_owners a s)"
  by (auto simp: restore_owners_def intro!: quiet_upd_trans quiet_emit simp: same_vol_def counters_ok_def)

lemma quiet_count_result: "vols s a = Some w \<Longrightarrow> quiet s (upd_vol a (count_result n) s)"
  by (rule quiet_upd) (auto simp: count_result_def same_vol_def counters_ok_def kMaxUpdateAttempts_def)

lemma after_release_inv:
  assumes "inv_at a s" and "lock (vol s a) \<noteq> None"
  shows "inv_kextd (after_release e a s)"
  using handleWatchedHandoff_inv [OF assms] handleRebootHandoff_inv by (simp add: after_release_def Let_def)

lemma kextmanager_unlock_volume_inv:
  assumes inv: "inv_kextd s"
  shows "inv_kextd (snd (kextmanager_unlock_volume e client uuid n s))"
proof (cases "gClientUID e = 0 \<and> sFsysWatchDict s \<noteq> None \<and> memory_ok e \<and>
    (\<exists>a. watched_at s uuid = Some a \<and> lock (vol s a) = Some client)")
  case False
  have "touch a s = s" if at: "watched_at s uuid = Some a" for a
  proof -
    obtain w where "vols s a = Some w" by (rule watched_alive [OF inv_tables [OF inv] at])
    then show ?thesis by simp
  qed
  with False inv show ?thesis by (auto simp: kextmanager_unlock_volume_def Let_def split: option.splits)
next
  case True
  then obtain a where a: "watched_at s uuid = Some a" "lock (vol s a) = Some client" by blast
  obtain w where w: "vols s a = Some w" by (rule watched_alive [OF inv_tables [OF inv] a(1)])
  let ?s = "restore_owners a (upd_vol a (count_result n) s)"
  have q: "quiet s ?s"
    by (rule quiet_trans [OF quiet_count_result [OF w] quiet_restore_owners [OF alive_upd [OF w]]])
  have "inv_kextd (after_release e a ?s)"
    using quiet_inv_at [OF q locked_inv_at(1) [OF inv a(2) w]] quiet_eqs(1) [OF q] a(2) by (intro after_release_inv) simp_all
  then show ?thesis using True a w by (auto simp: kextmanager_unlock_volume_def Let_def)
qed

text \<open>A waiter that dies leaves the queue.\<close>

lemma rev_remove1_distinct: "distinct ws \<Longrightarrow> rev (remove1 p (rev ws)) = filter (\<lambda>q. q \<noteq> p) ws"
  by (auto simp: distinct_remove1_removeAll removeAll_filter_not_eq rev_filter [symmetric] intro!: filter_cong)

lemma leave_queue_inv:
  assumes inv: "inv_kextd s" and w: "vols s a = Some w" and p: "p \<in> set (waiters w)"
  shows "inv_kextd (upd_vol a (\<lambda>w. w\<lparr>waiters := rev (remove1 p (rev (waiters w)))\<rparr>) (cleanupPort p s))"
proof -
  note I = inv_parts [OF inv]
  have "distinct (map fst (sReplyPorts s))" using I(5) by (simp add: replies_ok_def)
  note rel = cleanup_released [OF this, of p]
  let ?c = "cleanupPort p s" and ?f = "\<lambda>w. w\<lparr>waiters := rev (remove1 p (rev (waiters w)))\<rparr>"
  let ?t = "upd_vol a ?f ?c"
  have c: "vols ?c = vols s" "sRebootLock ?c = sRebootLock s" "sRebootWaiter ?c = sRebootWaiter s" "stale ?c = stale s"
    "asked ?c = asked s"
    using rel by (simp_all add: released_def)
  have wc: "vols ?c a = Some w" using w by (simp add: c)
  note t = upd_vol_fields [OF wc, of ?f]
  have volc: "vol ?c = vol s" by (simp add: vol_def fun_eq_iff c)
  have ctx: "ports s p = Some (VolumeContext a)" using I(2) [of a] w p by (simp add: vol_locks_ok_def)
  have queue: "waiters (?f w) = filter (\<lambda>q. q \<noteq> p) (waiters w)"
    using I(2) [of a] w by (simp add: vol_locks_ok_def rev_remove1_distinct)
  have "tables_ok ?c" using I(1) released_tables [OF conjunct1 [OF rel]] by simp
  then have "tables_ok ?t" by (rule tables_upd [OF _ wc]) (simp_all add: counters_ok_def)
  moreover have "vol_locks_ok ?t b" for b
    using I(2) [of b] w p ctx rel queue by (cases "b = a") (auto simp: vol_locks_ok_def t volc)
  moreover have "reboot_ok ?t" using I(3) rel ctx by (auto simp: reboot_ok_def t c)
  moreover have "lock (vol ?t b) = lock (vol s b)" for b using w by (simp add: t volc)
  then have "exclusive ?t" using I(4) by (simp add: exclusive_def t c)
  moreover have "waiting ?t = waiting s - {p}"
  proof -
    have "p \<notin> set (waiters (vol s b))" if "b \<noteq> a" for b using I(2) [of b] ctx that by (auto simp: vol_locks_ok_def)
    then have "set (waiters (vol ?t b)) = set (waiters (vol s b)) - {p}" for b
      using w queue by (cases "b = a") (auto simp: t volc)
    moreover have "sRebootWaiter s \<noteq> Some p" using I(3) ctx by (auto simp: reboot_ok_def)
    ultimately show ?thesis by (auto simp: waiting_def t c)
  qed
  then have "replies_ok ?t"
    by (rule released_replies [OF I(5)]) (use rel in \<open>simp_all add: released_def t\<close>)
  ultimately show ?thesis using I(6) by (simp add: inv_kextd_def t c)
qed

lemma cleanup_no_holder:
  assumes "inv_kextd s" and "\<not> holder s p"
  shows "inv_kextd (cleanupPort p s)"
proof -
  have "dict_get (=) (sReplyPorts s) p = None"
    using not_waiting_no_reply [OF inv_parts(5) [OF assms(1)]] assms(2) by (simp add: holder_def)
  then show ?thesis using drop_port_inv [OF assms] by (simp add: cleanup_no_reply)
qed

lemma clear_reboot_lock_inv:
  assumes "inv_kextd s" and "sRebootLock s = Some p"
  shows "inv_kextd ((cleanupPort p s)\<lparr>sRebootLock := None\<rparr>)"
proof -
  note I = inv_parts [OF assms(1)]
  have ctx: "ports s p = Some RebootContext" "sRebootWaiter s \<noteq> Some p" using I(3) assms(2) by (simp_all add: reboot_ok_def)
  let ?s = "s\<lparr>sRebootLock := None\<rparr>"
  have inv': "inv_kextd ?s"
    using I by (simp add: inv_kextd_def vol_locks_ok_def reboot_ok_def exclusive_def replies_ok_def waiting_def)
  have "p \<notin> set (waiters (vol s a))" "lock (vol s a) \<noteq> Some p" for a using I(2) [of a] ctx by (auto simp: vol_locks_ok_def)
  then have "\<not> holder ?s p" using ctx by (simp add: holder_def waiting_def)
  from cleanup_no_holder [OF inv' this] have "inv_kextd (cleanupPort p ?s)" .
  moreover have "cleanupPort p ?s = (cleanupPort p s)\<lparr>sRebootLock := None\<rparr>"
    by (simp add: cleanupPort_def Let_def emit_def split: option.split)
  ultimately show ?thesis by simp
qed

text \<open>\<open>port_died\<close> has already forgotten the port when it cleans up, which makes no difference.\<close>

lemma cleanup_forgotten: "cleanupPort p (s\<lparr>ports := (ports s)(p := None)\<rparr>) = cleanupPort p s"
  by (simp add: cleanupPort_def Let_def emit_def)

lemma port_died_inv:
  assumes inv: "inv_kextd s"
  shows "inv_kextd (port_died e p s)"
proof (cases "ports s p")
  case None
  then show ?thesis using inv by (simp add: port_died_def)
next
  case (Some c)
  note I = inv_parts [OF inv]
  let ?s = "s\<lparr>ports := (ports s)(p := None)\<rparr>"
  have dropped: "inv_kextd ?s" if "\<not> holder s p" by (rule drop_port_inv [OF inv that])
  have cleaned: "inv_kextd (cleanupPort p s)" if "\<not> holder s p" by (rule cleanup_no_holder [OF inv that])
  have vol_holder: "ports s p = Some (VolumeContext a)" if "p \<in> set (waiters (vol s a)) \<or> lock (vol s a) = Some p" for a
    using I(2) [of a] that by (auto simp: vol_locks_ok_def)
  have reboot_holder: "ports s p = Some RebootContext" if "sRebootLock s = Some p \<or> sRebootWaiter s = Some p"
    using I(3) that by (auto simp: reboot_ok_def)
  show ?thesis
  proof (cases c)
    case RebootContext
    then have "\<not> holder s p" if "sRebootLock s \<noteq> Some p" "sRebootWaiter s \<noteq> Some p"
      using that vol_holder Some by (auto simp: holder_def waiting_def)
    moreover have "inv_kextd ((cleanupPort p s)\<lparr>sRebootWaiter := None\<rparr>)" if w: "sRebootWaiter s = Some p"
    proof -
      have "distinct (map fst (sReplyPorts s))" using I(5) by (simp add: replies_ok_def)
      note rel = cleanup_released [OF this, of p]
      show ?thesis by (rule release_reboot_waiter [OF inv w]) (use rel in simp_all)
    qed
    ultimately show ?thesis
      using RebootContext Some dropped clear_reboot_lock_inv [OF inv]
      by (simp add: port_died_def Let_def cleanup_forgotten)
  next
    case (VolumeContext a)
    show ?thesis
    proof (cases "is_watched s a")
      case False
      then have "vols s a = None" using tables_okD(4) [OF I(1)] by (auto simp: is_watched_def)
      then have "waiters (vol s a) = []" "lock (vol s a) = None" by (simp_all add: vol_def new_vol_def)
      then have "\<not> holder s p" using vol_holder reboot_holder Some VolumeContext by (fastforce simp: holder_def waiting_def)
      then show ?thesis using cleaned Some VolumeContext False
        by (simp add: port_died_def Let_def cleanup_forgotten is_watched_def watch_list_def)
    next
      case True
      then obtain w where w: "vols s a = Some w" using is_watched_alive [OF I(1)] by blast
      have vol: "vol ?s = vol s" by simp
      have w': "vols ?s a = Some w" using w by simp
      have watched: "is_watched ?s a" using True by (simp add: is_watched_def watch_list_def)
      note run = Some VolumeContext w watched
      consider "lock w = Some p" | "lock w \<noteq> Some p" "p \<in> set (waiters w)" | "lock w \<noteq> Some p" "p \<notin> set (waiters w)" by blast
      then show ?thesis
      proof cases
        case 1
        let ?t = "upd_vol a (\<lambda>w. w\<lparr>updterrs := updterrs w + 1\<rparr>) (restore_owners a ?s)"
        have q: "quiet ?s ?t"
          by (rule quiet_upd_trans [OF quiet_restore_owners [OF w'] w']) (auto simp: same_vol_def counters_ok_def)
        have "lock (vol s a) = Some p" using 1 w by simp
        from quiet_inv_at [OF q locked_inv_at(2) [OF inv this w]] quiet_eqs(1) [OF q, of a] 1 w
        have "inv_kextd (after_release e a ?t)" by (intro after_release_inv) simp_all
        then show ?thesis using 1 run by (simp add: port_died_def Let_def)
      next
        case 2
        then show ?thesis using run leave_queue_inv [OF inv w 2(2)]
          by (simp add: port_died_def Let_def cleanup_forgotten)
      next
        case 3
        then have "\<not> holder s p" using vol_holder reboot_holder Some VolumeContext w
          by (fastforce simp: holder_def waiting_def)
        then show ?thesis using run dropped 3 by (simp add: port_died_def Let_def)
      qed
    qed
  qed
qed

section \<open>Every event\<close>

lemma initial_inv:
  assumes "kextd_watch_volumes e initial = (True, s)"
  shows "inv_kextd s"
  using assms
  by (auto simp: kextd_watch_volumes_def initial_def inv_kextd_def tables_ok_def vol_locks_ok_def reboot_ok_def
      exclusive_def replies_ok_def waiting_def all_finished_def vol_def new_vol_def Let_def split: if_splits)

text \<open>Every event but a change of a volume keeps the invariant; a change may use freed memory.\<close>

lemma handle_unchanged_inv:
  assumes inv: "inv_kextd s" and env: "env_ok e" and ev: "possible s ev"
    and other: "\<And>d keys. ev \<noteq> Changed d keys"
  shows "inv_kextd (handle e ev s)"
proof (cases ev)
  case (Changed d keys)
  then show ?thesis using other by blast
next
  case (Appeared d)
  then show ?thesis using vol_appeared_inv [OF inv env] by simp
next
  case (Disappeared d)
  then show ?thesis using vol_disappeared_inv [OF inv] by simp
next
  case (UnmountRequested d)
  then show ?thesis using is_dadisk_busy_inv [OF inv env] by simp
next
  case (FileChanged n)
  then show ?thesis using fsys_changed_inv [OF inv env] by simp
next
  case (TimerFired a)
  then show ?thesis using check_now_inv [OF inv] by simp
next
  case AutoUpdateTimer
  then show ?thesis using checkAutoUpdate_inv [OF inv] by simp
next
  case (MediaChanged d stamps unlinked)
  then show ?thesis using updateVolForMedia_inv [OF inv env] by simp
next
  case (LockReboot r client w)
  then show ?thesis using kextmanager_lock_reboot_inv [OF inv env] ev by simp
next
  case (LockVolume r client uuid w)
  then show ?thesis using kextmanager_lock_volume_inv [OF inv] ev by simp
next
  case (UnlockVolume client uuid n)
  then show ?thesis using kextmanager_unlock_volume_inv [OF inv] by simp
next
  case (PortDied p)
  then show ?thesis using port_died_inv [OF inv] by simp
qed

lemma handle_inv:
  assumes "inv_kextd s" "env_ok e" "possible s ev" "\<not> stale (handle e ev s)"
  shows "inv_kextd (handle e ev s)"
proof (cases "\<exists>d keys. ev = Changed d keys")
  case True
  then obtain d keys where ev: "ev = Changed d keys" by blast
  show ?thesis using vol_changed_stale [OF assms(1,2), of d keys] assms(4) by (simp add: ev)
next
  case False
  then show ?thesis by (intro handle_unchanged_inv [OF assms(1-3)]) blast
qed

text \<open>kextd as a system: it starts when the watcher is set up, and no step follows a use of freed memory.\<close>

interpretation kextd: event_system
  "\<lambda>s. \<exists>e. kextd_watch_volumes e initial = (True, s)" "\<lambda>s t. (\<exists>ev. kextd_step s ev t) \<and> \<not> stale t" inv_kextd
  by unfold_locales (auto intro: initial_inv handle_inv elim!: kextd_stepE)

lemma reachable_steps:
  "reachable s \<Longrightarrow> \<exists>s0. (\<exists>e. kextd_watch_volumes e initial = (True, s0)) \<and>
     (\<lambda>s t. (\<exists>ev. kextd_step s ev t) \<and> \<not> stale t)\<^sup>*\<^sup>* s0 s"
proof (induction rule: reachable.induct)
  case (next_event s ev s')
  then obtain s0 where s0: "\<exists>e. kextd_watch_volumes e initial = (True, s0)"
    "(\<lambda>s t. (\<exists>ev. kextd_step s ev t) \<and> \<not> stale t)\<^sup>*\<^sup>* s0 s" by blast
  have "(\<lambda>s t. (\<exists>ev. kextd_step s ev t) \<and> \<not> stale t)\<^sup>*\<^sup>* s0 s'"
    by (rule rtranclp.rtrancl_into_rtrancl [OF s0(2)]) (use next_event.hyps in blast)
  with s0(1) show ?case by blast
qed blast

lemma reachable_inv: "reachable s \<Longrightarrow> inv_kextd s"
  using reachable_steps kextd.reached_invariant by blast

end
