(* ===== verification/KextdProps.thy ===== *)
theory KextdProps
  imports KextdEvents
begin

text \<open>
  What clients of src/kextd_watchvol.c rely on, in every state that can be reached: the reboot lock
  and the locks of volumes exclude each other, every client that waits is answered once, locks are
  handed on in order and freed when their holder dies, and updates are started a bounded number of
  times. Two runs show where the module falls short.
\<close>

section \<open>Runs\<close>

text \<open>A run of events, each with the system it meets; None if an event cannot happen or freed
  memory was used.\<close>

fun run :: "(env \<times> event) list \<Rightarrow> kextd \<Rightarrow> kextd option" where
  "run [] s = Some s"
| "run ((e, ev) # evs) s =
     (if possible s ev \<and> \<not> stale (handle e ev s) then run evs (handle e ev s) else None)"

lemma run_reachable:
  "run evs s = Some t \<Longrightarrow> reachable s \<Longrightarrow> \<forall>x \<in> set evs. env_ok (fst x) \<Longrightarrow> reachable t"
proof (induction evs s rule: run.induct)
  case (2 e ev evs s)
  then have "kextd_step s ev (handle e ev s)" by (auto intro: kextd_step.intros split: if_splits)
  with 2 show ?case by (auto intro: next_event split: if_splits)
qed simp

definition sample_caches :: bootCaches where
  "sample_caches = no_caches\<lparr>root := ''/Volumes/A'', bsdname := ''disk1s2''\<rparr>"

definition sample_disk :: disk where
  "sample_disk = \<lparr>d_uuid = Some 7, d_path = Some ''/Volumes/A'', d_writable = Some True, d_network = Some False\<rparr>"

definition sample_env :: env where
  "sample_env = \<lparr>malloc = (\<lambda>m. if m 1 = None then Some 1 else None), gClientUID = 0, out_of_my_way = False,
     base_system = False, statfs_flags = (\<lambda>_. Some 0), read_caches = (\<lambda>_. Some sample_caches),
     boots = (\<lambda>_. (False, Some [], Some [])), notify_token = (\<lambda>_. Some 3), kernels_beside = (\<lambda>_. []),
     cache_stale = (\<lambda>_ _ _. False), autorebuild_disabled = False, csfde_stale = (\<lambda>_. False),
     needs_updates = (\<lambda>_. False), launch_ok = (\<lambda>_. True), plists_stale = False, path_extension = (\<lambda>_. None),
     memory_ok = True, port_ok = (\<lambda>_. True), reply_ok = (\<lambda>_. True), timers_ok = True,
     installer_active = (\<lambda>_. False), stat_plist = (\<lambda>_. Inl 2), disk_for_mount = (\<lambda>_. None), local_mounts = []\<rparr>"

definition started :: kextd where
  "started = snd (kextd_watch_volumes sample_env initial)"

lemma sample_env_ok: "env_ok sample_env"
  by (simp add: env_ok_def sample_env_def sample_caches_def)

lemma started_reachable: "reachable started"
proof -
  have "kextd_watch_volumes sample_env initial = (True, started)"
    by (simp add: started_def kextd_watch_volumes_def initial_def sample_env_def)
  then show ?thesis by (rule reachable.start)
qed

text \<open>A client locks the volume and a second one waits.\<close>

definition locked_run :: "(env \<times> event) list" where
  "locked_run = map (Pair sample_env) [Appeared (Some sample_disk), LockVolume 100 10 7 True, LockVolume 101 11 7 True]"

definition locked_state :: kextd where
  "locked_state = the (run locked_run started)"

lemma locked_run_ok: "run locked_run started \<noteq> None"
  by code_simp

lemma locked_reachable: "reachable locked_state"
proof -
  obtain t where "run locked_run started = Some t" using locked_run_ok by blast
  moreover from this have "reachable t"
    by (rule run_reachable [OF _ started_reachable]) (auto simp: locked_run_def sample_env_ok)
  ultimately show ?thesis by (simp add: locked_state_def)
qed

section \<open>The tables and the locks\<close>




text \<open>C3. While a client holds the lock for a reboot no volume is locked, and while a volume is locked
  no client holds the lock for a reboot.\<close>

theorem reboot_lock_exclusive:
  assumes "reachable s"
  shows "sRebootLock s = None \<or> (\<forall>a. lock (vol s a) = None)"
  using inv_parts(4) [OF reachable_inv [OF assms]] by (simp add: exclusive_def)

theorem reboot_lock_exclusive_witness:
  "lock (vol locked_state 1) = Some 10 \<and> sRebootLock locked_state = None"
proof -
  have "lock (vol locked_state 1) = Some 10" by code_simp
  then show ?thesis using reboot_lock_exclusive [OF locked_reachable] by auto
qed

text \<open>C8. The reply ports of all requests that were left waiting are different; each one is either still
  put aside, for a client that is in a queue or waits for the reboot lock, or it was used or dropped
  exactly once. The clients for which one is put aside are exactly those that wait.\<close>

theorem replies_exactly_once:
  assumes "reachable s"
  shows "mset (asked s) = mset (map snd (sReplyPorts s)) + mset (all_finished s) \<and> distinct (asked s) \<and>
    distinct (map fst (sReplyPorts s)) \<and>
    set (map fst (sReplyPorts s)) = (\<Union>a. set (waiters (vol s a))) \<union> set_option (sRebootWaiter s)"
  using inv_parts(5) [OF reachable_inv [OF assms]] by (simp add: replies_ok_def waiting_def)

theorem replies_exactly_once_witness:
  "sReplyPorts locked_state = [(11, 101)] \<and> 11 \<in> (\<Union>a. set (waiters (vol locked_state a))) \<union> set_option (sRebootWaiter locked_state)"
proof -
  have "sReplyPorts locked_state = [(11, 101)]" by code_simp
  then show ?thesis using replies_exactly_once [OF locked_reachable] by auto
qed

text \<open>C25. The count of updates that were started for a volume is an \<open>int\<close> that never wraps around: it stays between 0
  and 27, although it is set back only by a success after an error. (The count of errors has no such bound and
  may wrap.)\<close>

theorem update_attempts_bounded:
  assumes "reachable s" and "vols s a = Some w"
  shows "0 \<le> sint (updtattempts w) \<and> sint (updtattempts w) \<le> 27"
  using tables_okD(7) [OF inv_tables [OF reachable_inv [OF assms(1)]] assms(2)]
  by (simp add: counters_ok_def kMaxUpdateAttempts_def)

theorem update_attempts_bounded_witness:
  "vols locked_state 1 \<noteq> None \<and> sint (updtattempts (the (vols locked_state 1))) \<le> 27"
proof -
  have "vols locked_state 1 \<noteq> None" by code_simp
  then obtain w where "vols locked_state 1 = Some w" by blast
  then show ?thesis using update_attempts_bounded [OF locked_reachable] by simp
qed

section \<open>A client that dies\<close>

lemma ports_grant_next: "ports s p = None \<Longrightarrow> ports (grant_next e a ws s) p = None"
proof (induction ws arbitrary: s)
  case (Cons w ws)
  have signal: "ports (snd (signalWaiter e w 0 t)) = ports t" for t
    by (auto simp: signalWaiter_def Let_def emit_def split: option.split)
  have upd: "ports (upd_vol a f t) = ports t" for f t by (auto simp: upd_vol_def split: option.split)
  have clean: "ports (cleanupPort w t) = (ports t)(w := None)" for t
    by (simp add: cleanupPort_def Let_def emit_def split: option.split)
  obtain ok t where t: "signalWaiter e w 0 (upd_vol a (\<lambda>v. v\<lparr>lock := Some w, waiters := ws\<rparr>) s) = (ok, t)"
    by (cases "signalWaiter e w 0 (upd_vol a (\<lambda>v. v\<lparr>lock := Some w, waiters := ws\<rparr>) s)")
  have "ports t p = None" using signal [of "upd_vol a (\<lambda>v. v\<lparr>lock := Some w, waiters := ws\<rparr>) s"] Cons.prems
    by (simp add: t upd)
  then show ?case using Cons.IH by (cases ok) (simp_all add: t upd clean)
qed simp

lemma ports_handleWatchedHandoff: "ports s p = None \<Longrightarrow> ports (handleWatchedHandoff e a s) p = None"
  by (auto simp: handleWatchedHandoff_def Let_def touch_def cleanupPort_def emit_def upd_vol_def
      intro!: ports_grant_next split: option.split)

lemma ports_handleRebootHandoff:
  assumes "inv_kextd s" and "ports s p = None"
  shows "ports (handleRebootHandoff e s) p = None"
proof -
  obtain busy b t where t: "checkAllWatched e s = (busy, b, t)" by (cases "checkAllWatched e s") auto
  have "ports t p = None" using quiet_tables(7) [OF checkAllWatched_quiet(1) [OF assms(1) t]] assms(2) by simp
  then show ?thesis
    by (auto simp: handleRebootHandoff_def t signalWaiter_def Let_def emit_def split: bool.split option.split)
qed

lemma ports_after_release:
  assumes "inv_at a s" and "lock (vol s a) \<noteq> None" and "ports s p = None"
  shows "ports (after_release e a s) p = None"
  using handleWatchedHandoff_inv [OF assms(1,2)] ports_handleWatchedHandoff [OF assms(3)] ports_handleRebootHandoff
  by (simp add: after_release_def Let_def)

lemma ports_port_died:
  assumes inv: "inv_kextd s"
  shows "ports (port_died e p s) p = None"
proof (cases "\<exists>a. ports s p = Some (VolumeContext a) \<and> is_watched s a \<and> lock (vol s a) = Some p")
  case False
  have clean: "ports (cleanupPort p t) p = None" for t
    by (simp add: cleanupPort_def Let_def emit_def split: option.split)
  have upd: "ports (upd_vol a f t) = ports t" for a f t by (auto simp: upd_vol_def split: option.split)
  have watched: "is_watched (s\<lparr>ports := x\<rparr>) = is_watched s" for x by (simp add: is_watched_def watch_list_def fun_eq_iff)
  have touched: "touch a (s\<lparr>ports := x\<rparr>) = s\<lparr>ports := x\<rparr>" if "is_watched s a" for a x
    using is_watched_alive [OF inv_tables [OF inv] that] by (auto simp: touch_def)
  with False show ?thesis
    by (auto simp: port_died_def Let_def clean upd watched touched split: option.split port_context.split)
next
  case True
  then obtain a where a: "ports s p = Some (VolumeContext a)" "is_watched s a" "lock (vol s a) = Some p" by blast
  then obtain w where w: "vols s a = Some w" using is_watched_alive [OF inv_tables [OF inv]] by blast
  let ?s = "s\<lparr>ports := (ports s)(p := None)\<rparr>"
  let ?t = "upd_vol a (\<lambda>w. w\<lparr>updterrs := updterrs w + 1\<rparr>) (restore_owners a ?s)"
  have w': "vols ?s a = Some w" using w by simp
  have q: "quiet ?s ?t"
    by (rule quiet_upd_trans [OF quiet_restore_owners [OF w'] w']) (auto simp: same_vol_def counters_ok_def)
  have "ports (after_release e a ?t) p = None"
    by (rule ports_after_release [OF quiet_inv_at [OF q locked_inv_at(2) [OF inv a(3) w]]])
      (use quiet_eqs(1) [OF q, of a] quiet_tables(7) [OF q] a(3) in simp_all)
  then show ?thesis using a w by (simp add: port_died_def Let_def is_watched_def watch_list_def)
qed

text \<open>C19. Once the death of a client is noticed the client holds no lock and waits for none, and its port is
  no longer tracked.\<close>

theorem dead_client_forgotten:
  assumes "reachable s"
  shows "let t = port_died e p s in
    ports t p = None \<and> (\<forall>a. lock (vol t a) \<noteq> Some p \<and> p \<notin> set (waiters (vol t a))) \<and>
    sRebootLock t \<noteq> Some p \<and> sRebootWaiter t \<noteq> Some p"
proof -
  let ?t = "port_died e p s"
  note inv = reachable_inv [OF assms]
  have "ports ?t p = None" by (rule ports_port_died [OF inv])
  moreover from this have "\<not> holder ?t p" using holder_tracked [OF port_died_inv [OF inv]] by blast
  ultimately show ?thesis by (auto simp: holder_def waiting_def)
qed

theorem dead_client_forgotten_witness:
  "lock (vol locked_state 1) = Some 10 \<and> lock (vol (port_died sample_env 10 locked_state) 1) \<noteq> Some 10"
proof -
  have "lock (vol locked_state 1) = Some 10" by code_simp
  then show ?thesis using dead_client_forgotten [OF locked_reachable, of sample_env 10] by (simp add: Let_def)
qed

section \<open>Handing a lock on in order\<close>

lemma grant_next_order:
  assumes "vols s a \<noteq> None" "distinct ws" "\<forall>w \<in> set ws. dict_get (=) (sReplyPorts s) w = Some (reply w)"
    and "\<forall>w \<in> set ws. sRebootWaiter s \<noteq> Some w" "waiters (vol s a) = ws" "lock (vol s a) = None"
  shows "lock (vol (grant_next e a ws s) a) =
      (case dropWhile (\<lambda>w. \<not> reply_ok e (reply w)) ws of [] \<Rightarrow> None | w # _ \<Rightarrow> Some w) \<and>
    waiters (vol (grant_next e a ws s) a) = tl (dropWhile (\<lambda>w. \<not> reply_ok e (reply w)) ws) \<and>
    out (grant_next e a ws s) = out s @ map (\<lambda>w. ReplyFailed (reply w)) (takeWhile (\<lambda>w. \<not> reply_ok e (reply w)) ws) @
      (case dropWhile (\<lambda>w. \<not> reply_ok e (reply w)) ws of [] \<Rightarrow> [] | w # _ \<Rightarrow> [ReplyVolume (reply w) 0])"
  using assms
proof (induction ws arbitrary: s)
  case (Cons w ws)
  obtain v where v: "vols s a = Some v" using Cons.prems(1) by blast
  let ?s1 = "s\<lparr>vols := (vols s)(a \<mapsto> v\<lparr>lock := Some w, waiters := ws\<rparr>), sReplyPorts := dict_remove (sReplyPorts s) w\<rparr>"
  have s1: "signalWaiter e w 0 (upd_vol a (\<lambda>v. v\<lparr>lock := Some w, waiters := ws\<rparr>) s) =
      (if reply_ok e (reply w) then (True, emit (ReplyVolume (reply w) 0) ?s1) else (False, emit (ReplyFailed (reply w)) ?s1))"
    using v Cons.prems(3,4) by (simp add: signalWaiter_def upd_vol_def Let_def)
  show ?case
  proof (cases "reply_ok e (reply w)")
    case True
    then show ?thesis by (simp add: s1 emit_def vol_def)
  next
    case False
    let ?t = "emit (ReplyFailed (reply w)) ?s1"
    let ?u = "upd_vol a (\<lambda>v. v\<lparr>lock := None\<rparr>) (cleanupPort w ?t)"
    have clean: "cleanupPort w ?t = ?t\<lparr>ports := (ports ?t)(w := None)\<rparr>"
      by (rule cleanup_no_reply) (simp add: emit_def dict_remove_dict_get)
    have u: "vols ?u a = Some (v\<lparr>lock := None, waiters := ws\<rparr>)" "sReplyPorts ?u = dict_remove (sReplyPorts s) w"
      "sRebootWaiter ?u = sRebootWaiter s" "out ?u = out s @ [ReplyFailed (reply w)]"
      unfolding clean upd_vol_def by (simp_all add: emit_def)
    have "grant_next e a (w # ws) s = grant_next e a ws ?u" using False by (simp add: s1)
    moreover have "\<forall>x \<in> set ws. dict_get (=) (sReplyPorts ?u) x = Some (reply x)"
      using Cons.prems(2,3) by (auto simp: u dict_remove_dict_get)
    moreover have "\<forall>x \<in> set ws. sRebootWaiter ?u \<noteq> Some x" using Cons.prems(4) by (simp add: u)
    ultimately show ?thesis using Cons.IH [of ?u] Cons.prems(2) False u(1) by (simp add: u(4))
  qed
qed simp

text \<open>C11. When the lock of a volume is released, the first client in the queue whose reply port still
  works has the lock and is told so; those before it are given up, those after it wait on in order. If
  there is none the volume is unlocked and the queue is empty.\<close>

theorem lock_handed_on_in_order:
  assumes "reachable s" and "lock (vol s a) = Some p"
  shows "\<exists>reply. map_of (sReplyPorts s) = (\<lambda>w. if w \<in> fst ` set (sReplyPorts s) then Some (reply w) else None) \<and>
    (let t = handleWatchedHandoff e a s; dead = (\<lambda>w. \<not> reply_ok e (reply w)); queue = waiters (vol s a) in
      lock (vol t a) = (case dropWhile dead queue of [] \<Rightarrow> None | w # _ \<Rightarrow> Some w) \<and>
      waiters (vol t a) = tl (dropWhile dead queue) \<and>
      out t = out s @ map (\<lambda>w. ReplyFailed (reply w)) (takeWhile dead queue) @
        (case dropWhile dead queue of [] \<Rightarrow> [] | w # _ \<Rightarrow> [ReplyVolume (reply w) 0]))"
proof -
  note inv = reachable_inv [OF assms(1)]
  note I = inv_parts [OF inv]
  have "vols s a \<noteq> None" using assms(2) by (cases "vols s a") (auto simp: vol_def new_vol_def)
  then obtain w where w: "vols s a = Some w" by blast
  define reply where "reply w = the (map_of (sReplyPorts s) w)" for w
  have replies: "map_of (sReplyPorts s) = (\<lambda>w. if w \<in> fst ` set (sReplyPorts s) then Some (reply w) else None)"
    by (auto simp: reply_def fun_eq_iff map_of_eq_None_iff)
  have get: "dict_get (=) d k = map_of d k" for d :: "(nat \<times> nat) list" and k by (induction d) auto
  let ?queue = "waiters (vol s a)"
  have p: "ports s p = Some (VolumeContext a)" "p \<notin> set ?queue" and queue: "distinct ?queue"
    "\<forall>w \<in> set ?queue. ports s w = Some (VolumeContext a)"
    using I(2) [of a] assms(2) by (auto simp: vol_locks_ok_def)
  have "p \<notin> waiting s"
  proof
    assume "p \<in> waiting s"
    then show False by (rule waiting_context [OF inv]) (use p in auto)
  qed
  then have clean: "cleanupPort p s = s\<lparr>ports := (ports s)(p := None)\<rparr>"
    by (intro cleanup_no_reply not_waiting_no_reply [OF I(5)])
  let ?u = "upd_vol a (\<lambda>v. v\<lparr>lock := None\<rparr>) (cleanupPort p s)"
  have u: "vols ?u a = Some (w\<lparr>lock := None\<rparr>)" "sReplyPorts ?u = sReplyPorts s" "sRebootWaiter ?u = sRebootWaiter s"
    "out ?u = out s"
    using w by (simp_all add: clean upd_vol_def)
  have "\<forall>x \<in> set ?queue. x \<in> fst ` set (sReplyPorts s)"
    using I(5) by (auto simp: replies_ok_def waiting_def)
  then have "\<forall>x \<in> set ?queue. dict_get (=) (sReplyPorts ?u) x = Some (reply x)" by (simp add: u get replies)
  moreover have "\<forall>x \<in> set ?queue. sRebootWaiter ?u \<noteq> Some x" using queue(2) I(3) by (auto simp: u reboot_ok_def)
  ultimately have "lock (vol (grant_next e a ?queue ?u) a) =
        (case dropWhile (\<lambda>w. \<not> reply_ok e (reply w)) ?queue of [] \<Rightarrow> None | w # _ \<Rightarrow> Some w) \<and>
      waiters (vol (grant_next e a ?queue ?u) a) = tl (dropWhile (\<lambda>w. \<not> reply_ok e (reply w)) ?queue) \<and>
      out (grant_next e a ?queue ?u) = out ?u @
        map (\<lambda>w. ReplyFailed (reply w)) (takeWhile (\<lambda>w. \<not> reply_ok e (reply w)) ?queue) @
        (case dropWhile (\<lambda>w. \<not> reply_ok e (reply w)) ?queue of [] \<Rightarrow> [] | w # _ \<Rightarrow> [ReplyVolume (reply w) 0])"
    by (intro grant_next_order) (use u(1) w queue(1) in simp_all)
  moreover have "handleWatchedHandoff e a s = grant_next e a ?queue ?u"
    using assms(2) w u(1) by (simp add: handleWatchedHandoff_def Let_def)
  ultimately show ?thesis using replies by (intro exI [of _ reply]) (simp add: Let_def u(4))
qed

theorem lock_handed_on_in_order_witness:
  "lock (vol locked_state 1) = Some 10 \<and>
   lock (vol (handleWatchedHandoff sample_env 1 locked_state) 1) = Some 11"
proof -
  have l: "lock (vol locked_state 1) = Some 10" "waiters (vol locked_state 1) = [11]" by code_simp+
  have "reply_ok sample_env r" for r by (simp add: sample_env_def)
  then show ?thesis using lock_handed_on_in_order [OF locked_reachable l(1), of sample_env] l by (auto simp: Let_def)
qed

section \<open>Refused requests\<close>

text \<open>C24. A request for the lock of a volume is answered as granted only if nobody held it, and then the
  client holds it; it is left without an answer only if it was ready to wait, and then the client is the
  last of the queue with its reply port put aside; in every other case nothing has changed.\<close>

theorem lock_volume_answers:
  assumes "reachable s" and "ports s client = None"
    and "kextmanager_lock_volume e r client uuid waitForLock s = (answer, t)"
  shows "case answer of
      Answer st \<Rightarrow>
        if st = 0 then (\<exists>a. watched_at s uuid = Some a \<and> lock (vol s a) = None \<and> lock (vol t a) = Some client) \<and>
          sRebootLock s = None
        else t = s
    | NoReply \<Rightarrow> waitForLock \<and> (\<exists>a. watched_at s uuid = Some a \<and> lock (vol s a) \<noteq> None \<and>
          lock (vol t a) = lock (vol s a) \<and> waiters (vol t a) = waiters (vol s a) @ [client]) \<and>
          sReplyPorts t = sReplyPorts s @ [(client, r)]
    | Failure \<Rightarrow> t = s"
proof (cases "gClientUID e \<noteq> 0 \<or> sFsysWatchDict s = None \<or> sRebootLock s \<noteq> None \<or> \<not> memory_ok e \<or> watched_at s uuid = None")
  case True
  then show ?thesis using assms(3)
    by (auto simp: kextmanager_lock_volume_def EPERM_def EAGAIN_def ENOLCK_def ENOENT_def split: if_splits)
next
  case False
  note inv = reachable_inv [OF assms(1)]
  from False obtain a where a: "watched_at s uuid = Some a" "sRebootLock s = None" by blast
  obtain v where v: "vols s a = Some v" by (rule watched_alive [OF inv_tables [OF inv] a(1)])
  let ?s = "s\<lparr>ports := (ports s)(client \<mapsto> VolumeContext a)\<rparr>"
  have v': "vols ?s a = Some v" using v by simp
  have own: "lock (vol (enable_owners e a (upd_vol a (\<lambda>w. w\<lparr>lock := Some client\<rparr>) ?s)) a) = Some client"
  proof -
    have "quiet (upd_vol a (\<lambda>w. w\<lparr>lock := Some client\<rparr>) ?s) (enable_owners e a (upd_vol a (\<lambda>w. w\<lparr>lock := Some client\<rparr>) ?s))"
      by (rule quiet_enable_owners [OF alive_upd [OF v']])
    from quiet_eqs(1) [OF this, of a] show ?thesis by (simp add: upd_vol_fields [OF v'])
  qed
  have "client \<notin> waiting s" by (rule untracked_not_waiting [OF inv assms(2)])
  then have new: "dict_set (=) (sReplyPorts s) client r = sReplyPorts s @ [(client, r)]"
    by (intro dict_set_fresh not_waiting_no_reply [OF inv_parts(5) [OF inv]])
  obtain q u where u: "createWatchedPort e client (VolumeContext a) s = (q, u)"
    by (cases "createWatchedPort e client (VolumeContext a) s")
  show ?thesis
  proof (cases q)
    case None
    then have "u = s" using no_port [of e client _ s u] u by simp
    then show ?thesis using assms(3) False a v u None
      by (auto simp: kextmanager_lock_volume_def Let_def EBUSY_def split: if_splits)
  next
    case (Some p)
    then have p: "p = client" "u = ?s" using created_port [of e client _ s p u] u assms(2) by auto
    show ?thesis using assms(3) False a v u Some p own new
      by (auto simp: kextmanager_lock_volume_def Let_def EBUSY_def upd_vol_fields [OF v'] split: if_splits)
  qed
qed

theorem lock_volume_answers_witness:
  "fst (kextmanager_lock_volume sample_env 102 12 7 False locked_state) = Answer 16 \<and>
   snd (kextmanager_lock_volume sample_env 102 12 7 False locked_state) = locked_state"
proof -
  have "ports locked_state 12 = None" by code_simp
  moreover have busy: "fst (kextmanager_lock_volume sample_env 102 12 7 False locked_state) = Answer 16" by code_simp
  ultimately show ?thesis
    using lock_volume_answers [OF locked_reachable _ prod.collapse [symmetric],
        where client = 12 and e = sample_env and r = 102 and uuid = 7 and waitForLock = False] by simp
qed

section \<open>Changes of a volume\<close>

text \<open>C23. No event but a change of a volume ever uses freed memory, and a change does not either unless it
  names the path of the volume after the content of its media.\<close>

theorem no_freed_memory_used:
  assumes "reachable s" and "env_ok e" and "possible s ev"
    and "\<And>d keys. ev = Changed d keys \<Longrightarrow> VolumePathKey \<notin> set (dropWhile (\<lambda>k. k \<noteq> MediaContentKey) keys)"
  shows "\<not> stale (handle e ev s)"
proof -
  note inv = reachable_inv [OF assms(1)]
  have "inv_kextd (handle e ev s)"
  proof (cases "\<exists>d keys. ev = Changed d keys")
    case True
    then obtain d keys where ev: "ev = Changed d keys" by blast
    then have "safe_keys keys" using assms(4) by (simp add: safe_keys_def)
    from vol_changed_safe [OF inv assms(2) this] show ?thesis by (simp add: ev)
  next
    case False
    then show ?thesis by (intro handle_unchanged_inv [OF inv assms(2,3)]) blast
  qed
  then show ?thesis by (rule inv_parts(6))
qed

theorem no_freed_memory_used_witness:
  "\<not> stale (handle sample_env (Changed (Some sample_disk) [VolumePathKey, MediaContentKey]) locked_state)"
proof -
  let ?ev = "Changed (Some sample_disk) [VolumePathKey, MediaContentKey]"
  have "possible locked_state ?ev" by simp
  moreover have "VolumePathKey \<notin> set (dropWhile (\<lambda>k. k \<noteq> MediaContentKey) keys)" if "?ev = Changed d keys" for d keys
  proof -
    from that have "keys = [VolumePathKey, MediaContentKey]" by simp
    then show ?thesis by simp
  qed
  ultimately show ?thesis by (rule no_freed_memory_used [OF locked_reachable sample_env_ok])
qed

text \<open>With the keys the other way round the struct is freed, because the volume lost its path, and then
  used for the content.\<close>

theorem freed_memory_used:
  "stale (handle sample_env (Changed (Some (sample_disk\<lparr>d_path := None\<rparr>)) [MediaContentKey, VolumePathKey]) locked_state)"
  by code_simp

section \<open>A client that waits for ever\<close>

text \<open>A client waits for the reboot lock because a volume is locked, then the volume goes away.\<close>

definition stranded_run :: "(env \<times> event) list" where
  "stranded_run = map (Pair sample_env)
     [Appeared (Some sample_disk), LockVolume 100 10 7 False, LockReboot 101 11 True, Disappeared (Some sample_disk),
      PortDied 10, AutoUpdateTimer, UnlockVolume 10 7 0]"

text \<open>A state can be reached in which no volume is watched or locked and no client has the reboot lock,
  but a client still waits for it; neither the death of the locker, nor its release, nor the automatic
  check wakes it.\<close>

theorem reboot_waiter_stranded:
  "\<exists>s. run stranded_run started = Some s \<and> reachable s \<and> vols s 1 = None \<and> sFsysWatchDict s = Some [] \<and>
     sRebootLock s = None \<and> sRebootWaiter s = Some 11 \<and> sReplyPorts s = [(11, 101)] \<and> all_finished s = []"
proof -
  have ok: "run stranded_run started \<noteq> None" by code_simp
  have "vols (the (run stranded_run started)) 1 = None" "sFsysWatchDict (the (run stranded_run started)) = Some []"
    "sRebootLock (the (run stranded_run started)) = None" "sRebootWaiter (the (run stranded_run started)) = Some 11"
    "sReplyPorts (the (run stranded_run started)) = [(11, 101)]" "all_finished (the (run stranded_run started)) = []"
    by code_simp+
  moreover from ok obtain s where s: "run stranded_run started = Some s" by blast
  moreover have "reachable s"
    by (rule run_reachable [OF s started_reachable]) (auto simp: stranded_run_def sample_env_ok)
  ultimately show ?thesis by simp
qed

section \<open>Checking a volume ends\<close>

text \<open>On a volume that has its boot partitions and is known to have them, no further check is started.\<close>

lemma check_rebuild_known:
  assumes w: "vols s a = Some w" and "isBootRoot w" "fst (boots e (bsdname (caches w)))"
  shows "check_rebuild_fuel (Suc n) e a s = check_rebuild_fuel (Suc 0) e a s"
proof -
  have "check_boots_with rebuild e a (upd_vol a (\<lambda>w. w\<lparr>delayer := False\<rparr>) s) = upd_vol a (\<lambda>w. w\<lparr>delayer := False\<rparr>) s"
    for rebuild
    by (rule check_boots_known [OF alive_upd [OF w]]) (use assms in simp_all)
  then show ?thesis by (simp add: Let_def)
qed

text \<open>C26. \<open>check_rebuild\<close> and \<open>check_boots_set_nvram\<close> call each other at most twice: allowing more nested
  calls changes nothing, so the recursion of the code ends.\<close>

theorem check_rebuild_ends:
  assumes "vols s a = Some w"
  shows "check_rebuild_fuel (n + 2) e a s = check_rebuild e a s"
proof -
  let ?s = "upd_vol a (\<lambda>w. w\<lparr>delayer := False\<rparr>) s"
  have alive: "vols ?s a = Some (w\<lparr>delayer := False\<rparr>)" using alive_upd [OF assms] by simp
  have "check_boots_with (check_rebuild_fuel (Suc n) e a) e a ?s = check_boots_with (check_rebuild_fuel (Suc 0) e a) e a ?s"
  proof (cases "fst (boots e (bsdname (caches w)))")
    case True
    have "check_rebuild_fuel (Suc n) e a (upd_vol a (\<lambda>w. w\<lparr>isBootRoot := True\<rparr>) ?s) =
        check_rebuild_fuel (Suc 0) e a (upd_vol a (\<lambda>w. w\<lparr>isBootRoot := True\<rparr>) ?s)"
      by (rule check_rebuild_known [OF alive_upd [OF alive]]) (use True in simp_all)
    then show ?thesis using alive unfolding check_boots_with_def by (simp split: option.split prod.split)
  next
    case False
    then show ?thesis using alive by (auto simp: check_boots_with_def split: option.split prod.split)
  qed
  then show ?thesis unfolding check_rebuild_def by (simp add: numeral_2_eq_2 Let_def)
qed

theorem check_rebuild_ends_witness:
  "vols locked_state 1 \<noteq> None \<and>
   check_rebuild_fuel (5 + 2) sample_env 1 locked_state = check_rebuild sample_env 1 locked_state"
proof -
  have "vols locked_state 1 \<noteq> None" by code_simp
  then obtain w where "vols locked_state 1 = Some w" by blast
  then show ?thesis using check_rebuild_ends [of locked_state 1 w 5 sample_env] by simp
qed

text \<open>Two nested calls can both start an update: the inner one for a volume that just gained its boot
  partitions, and the outer one because the boot caches are still out of date.\<close>

definition gaining_env :: env where
  "gaining_env = sample_env\<lparr>boots := (\<lambda>_. (True, Some [], Some [])), needs_updates := (\<lambda>_. True)\<rparr>"

lemma update_started_twice:
  "filter (\<lambda>x. x = Launched ''/Volumes/A'') (out (snd (check_rebuild gaining_env 1 locked_state))) =
     [Launched ''/Volumes/A'', Launched ''/Volumes/A'']"
  by code_simp

section \<open>Which volumes are watched\<close>

text \<open>A mounted volume on a local writable disk that may be shown is not watched if it is the root and
  mounted read-only, and any other is watched although it is mounted read-only, unless the system is
  the installer's: the test for the root is the wrong way round.\<close>

theorem read_only_root_not_watched:
  assumes "d_path d = Some path" "length path < PATH_MAX" "statfs_flags e path = Some flags"
    and "and flags MNT_RDONLY \<noteq> 0" "and flags MNT_DONTBROWSE = 0" "d_writable d = Some True" "d_network d = Some False"
  shows "wants_watch e d \<longleftrightarrow> path \<noteq> ''/'' \<and> \<not> base_system e"
  using assms by (auto simp: wants_watch_def)

theorem read_only_root_not_watched_witness:
  "\<not> wants_watch (sample_env\<lparr>statfs_flags := \<lambda>_. Some 1\<rparr>) (sample_disk\<lparr>d_path := Some ''/''\<rparr>)"
  using read_only_root_not_watched [of "sample_disk\<lparr>d_path := Some ''/''\<rparr>" "''/''" "sample_env\<lparr>statfs_flags := \<lambda>_. Some 1\<rparr>" 1]
  by (simp add: sample_disk_def PATH_MAX_def MNT_RDONLY_def MNT_DONTBROWSE_def)

end
