(* ===== verification/KextloadLock.thy ===== *)
theory KextloadLock
  imports KextdState Systems
begin

text \<open>
  src/kextd_serialize_kextload.c and the kernel requests of src/kextd_request.c: kextd puts requests of
  the kernel off while a root client loads kexts itself under a lock, and processes them when the lock
  is given up. The lock is a dispatch source on the client's port, which is cancelled at once but
  freed by its cancel handler, later. The send rights that kextd holds are counted.
\<close>

section \<open>Requests of the kernel\<close>

text \<open>The predicates that the code knows; their names are from a header of IOKit.\<close>

datatype predicate =
    RequestPrelink | RequestKextdExit | RequestLoad | LoadNotification | UnloadNotification
  | RequestResource | RequestDaemonLaunch | UnknownPredicate

text \<open>A request that is there, with its predicate and what it asks for.\<close>

type_synonym request = "(predicate option \<times> nat) option"

datatype kext_action =
    ProcessLoad nat | ProcessResource nat | ProcessDaemonLaunch nat
  | BuildPrelinkedKernel | PostLoad | PostUnload | FlushInfo

text \<open>The flags of \<open>kextd_process_kernel_requests\<close>.\<close>

record request_flags =
  prelinkedKernelRequested :: bool
  shutdownRequested :: bool
  loadNotificationReceived :: bool
  unloadNotificationReceived :: bool

text \<open>What the system answers: the batches of requests that the kernel hands out until it has no more, the
  flags of the volume with the caches, and settings.\<close>

record kernel_env =
  disableKextTools :: bool
  kernel_requests :: "request list list"
  caches_statfs :: "u32 option"
  prelinked_rebuild_disabled :: bool
  source_ok :: bool
  client_uid :: nat

fun note_request :: "request \<Rightarrow> request_flags \<times> kext_action list \<Rightarrow> request_flags \<times> kext_action list" where
  "note_request None (f, acts) = (f, acts)"
| "note_request (Some (None, x)) (f, acts) = (f, acts)"
| "note_request (Some (Some p, x)) (f, acts) =
     (case p of
        RequestPrelink \<Rightarrow> (f\<lparr>prelinkedKernelRequested := True\<rparr>, acts)
      | RequestKextdExit \<Rightarrow> (f\<lparr>shutdownRequested := True\<rparr>, acts)
      | RequestLoad \<Rightarrow> (f, acts @ [ProcessLoad x])
      | LoadNotification \<Rightarrow> (f\<lparr>loadNotificationReceived := True\<rparr>, acts)
      | UnloadNotification \<Rightarrow> (f\<lparr>unloadNotificationReceived := True\<rparr>, acts)
      | RequestResource \<Rightarrow> (f, acts @ [ProcessResource x])
      | RequestDaemonLaunch \<Rightarrow> (f, acts @ [ProcessDaemonLaunch x])
      | UnknownPredicate \<Rightarrow> (f, acts))"

text \<open>The loop over the batches: an empty one ends it.\<close>

fun note_batches :: "request list list \<Rightarrow> request_flags \<times> kext_action list \<Rightarrow> request_flags \<times> kext_action list" where
  "note_batches [] st = st"
| "note_batches (b # bs) st = (if b = [] then st else note_batches bs (fold note_request b st))"

definition no_flags :: request_flags where
  "no_flags = \<lparr>prelinkedKernelRequested = False, shutdownRequested = False, loadNotificationReceived = False,
     unloadNotificationReceived = False\<rparr>"

definition skip_rebuild :: "kernel_env \<Rightarrow> bool" where
  "skip_rebuild e \<longleftrightarrow>
     (case caches_statfs e of None \<Rightarrow> False | Some flags \<Rightarrow> and flags MNT_RDONLY \<noteq> 0) \<or> prelinked_rebuild_disabled e"

section \<open>The lock\<close>

text \<open>\<open>_gKextutilLock\<close> as the port of its client and whether it was cancelled; \<open>rights\<close> are the send rights
  that kextd holds for clients.\<close>

record kextload =
  gKextutilLock :: "(nat \<times> bool) option"
  gKernelRequestsPending :: bool
  rights :: "nat \<Rightarrow> int"
  acts :: "kext_action list"
  run_loop_stopped :: bool
  crashed :: bool

definition kextd_process_kernel_requests :: "kernel_env \<Rightarrow> kextload \<Rightarrow> bool \<times> kextload" where
  "kextd_process_kernel_requests e s =
     (if disableKextTools e then (False, s)
      else
        (case note_batches (kernel_requests e) (no_flags, []) of
           (f, processed) \<Rightarrow>
             (shutdownRequested f,
              s\<lparr>acts := acts s @ processed @
                   (if prelinkedKernelRequested f \<and> \<not> skip_rebuild e then [BuildPrelinkedKernel] else []) @
                   (if loadNotificationReceived f then [PostLoad] else []) @
                   (if unloadNotificationReceived f then [PostUnload] else []) @ [FlushInfo],
                gKernelRequestsPending := False\<rparr>)))"

definition svc_kextd_ping :: "kernel_env \<Rightarrow> kextload \<Rightarrow> kextload" where
  "svc_kextd_ping e s =
     (if gKextutilLock s \<noteq> None then s\<lparr>gKernelRequestsPending := True\<rparr>
      else (case kextd_process_kernel_requests e s of
              (shutdown, s) \<Rightarrow> if shutdown then s\<lparr>run_loop_stopped := True\<rparr> else s))"

text \<open>Cancelling a cancelled source changes nothing. The result of processing the requests is dropped.\<close>

definition removeKextutilLock :: "kernel_env \<Rightarrow> kextload \<Rightarrow> kextload" where
  "removeKextutilLock e s =
     (let s = s\<lparr>gKextutilLock := map_option (\<lambda>(client, _). (client, True)) (gKextutilLock s)\<rparr>
      in if gKernelRequestsPending s then snd (kextd_process_kernel_requests e s) else s)"

definition mach_port_deallocate :: "nat \<Rightarrow> kextload \<Rightarrow> kextload" where
  "mach_port_deallocate p s = s\<lparr>rights := (rights s)(p := rights s p - 1)\<rparr>"

definition add_right :: "nat \<Rightarrow> kextload \<Rightarrow> kextload" where
  "add_right p s = s\<lparr>rights := (rights s)(p := rights s p + 1)\<rparr>"

text \<open>A routine returns a lock status, or an error after which the message layer drops the right that came
  with the call; the routines are given the state with that right.\<close>

datatype mig_result = Success int | MigFailure

definition kextmanager_lock_kextload :: "kernel_env \<Rightarrow> nat \<Rightarrow> kextload \<Rightarrow> mig_result \<times> kextload" where
  "kextmanager_lock_kextload e client s =
     (if client_uid e \<noteq> 0 then (Success EPERM, mach_port_deallocate client s)
      else if gKextutilLock s \<noteq> None then (Success EBUSY, mach_port_deallocate client s)
      else if source_ok e then (Success 0, s\<lparr>gKextutilLock := Some (client, False)\<rparr>)
      else (MigFailure, removeKextutilLock e s))"

text \<open>The handle of a null source is read by \<open>dispatch_source_get_handle\<close> without a test.\<close>

definition kextmanager_unlock_kextload :: "kernel_env \<Rightarrow> nat \<Rightarrow> kextload \<Rightarrow> mig_result \<times> kextload" where
  "kextmanager_unlock_kextload e client s =
     (if client_uid e \<noteq> 0 then (Success 0, mach_port_deallocate client s)
      else
        (case gKextutilLock s of
           None \<Rightarrow> (MigFailure, s\<lparr>crashed := True\<rparr>)
         | Some (holder, _) \<Rightarrow>
             if client \<noteq> holder then (MigFailure, s)
             else (Success 0, mach_port_deallocate client (removeKextutilLock e s))))"

text \<open>A call delivers a send right; after an error the message layer takes it back.\<close>

definition call :: "(kextload \<Rightarrow> mig_result \<times> kextload) \<Rightarrow> nat \<Rightarrow> kextload \<Rightarrow> mig_result \<times> kextload" where
  "call routine client s =
     (case routine (add_right client s) of
        (MigFailure, s) \<Rightarrow> (MigFailure, mach_port_deallocate client s)
      | (Success st, s) \<Rightarrow> (Success st, s))"

definition cancel_handler :: "kextload \<Rightarrow> kextload" where
  "cancel_handler s =
     (case gKextutilLock s of
        None \<Rightarrow> s
      | Some (client, _) \<Rightarrow> (mach_port_deallocate client s)\<lparr>gKextutilLock := None\<rparr>)"

section \<open>Steps\<close>

text \<open>The event handler runs when the client dies, but not after the source was cancelled; the cancel handler
  runs some time after that.\<close>

inductive kextload_step :: "kextload \<Rightarrow> kextload \<Rightarrow> bool" where
  ping: "kextload_step s (svc_kextd_ping e s)"
| lock: "kextload_step s (snd (call (kextmanager_lock_kextload e client) client s))"
| unlock: "client_uid e \<noteq> 0 \<or> gKextutilLock s \<noteq> None \<Longrightarrow>
    kextload_step s (snd (call (kextmanager_unlock_kextload e client) client s))"
| client_died: "gKextutilLock s = Some (client, False) \<Longrightarrow> kextload_step s (removeKextutilLock e s)"
| cancelled: "gKextutilLock s = Some (client, True) \<Longrightarrow> kextload_step s (cancel_handler s)"

inductive_cases kextload_stepE: "kextload_step s t"

definition kextload_start :: kextload where
  "kextload_start = \<lparr>gKextutilLock = None, gKernelRequestsPending = False, rights = (\<lambda>_. 0), acts = [],
     run_loop_stopped = False, crashed = False\<rparr>"

section \<open>Processing requests\<close>

text \<open>What is done for a request right away.\<close>

definition direct :: "request \<Rightarrow> kext_action list" where
  "direct r =
     (case r of
        Some (Some RequestLoad, x) \<Rightarrow> [ProcessLoad x]
      | Some (Some RequestResource, x) \<Rightarrow> [ProcessResource x]
      | Some (Some RequestDaemonLaunch, x) \<Rightarrow> [ProcessDaemonLaunch x]
      | _ \<Rightarrow> [])"

text \<open>Whether a predicate occurs.\<close>

definition requested :: "predicate \<Rightarrow> request list \<Rightarrow> bool" where
  "requested p rs \<longleftrightarrow> (\<exists>x. Some (Some p, x) \<in> set rs)"

lemma note_request_eq:
  "note_request r (f, a) =
     (\<lparr>prelinkedKernelRequested = prelinkedKernelRequested f \<or> requested RequestPrelink [r],
        shutdownRequested = shutdownRequested f \<or> requested RequestKextdExit [r],
        loadNotificationReceived = loadNotificationReceived f \<or> requested LoadNotification [r],
        unloadNotificationReceived = unloadNotificationReceived f \<or> requested UnloadNotification [r]\<rparr>, a @ direct r)"
  by (cases "(r, (f, a))" rule: note_request.cases) (auto simp: requested_def direct_def split: predicate.split)

lemma requested_Cons: "requested p (r # rs) \<longleftrightarrow> requested p [r] \<or> requested p rs"
  by (auto simp: requested_def)

lemma fold_note_request:
  "fold note_request rs (f, a) =
     (\<lparr>prelinkedKernelRequested = prelinkedKernelRequested f \<or> requested RequestPrelink rs,
        shutdownRequested = shutdownRequested f \<or> requested RequestKextdExit rs,
        loadNotificationReceived = loadNotificationReceived f \<or> requested LoadNotification rs,
        unloadNotificationReceived = unloadNotificationReceived f \<or> requested UnloadNotification rs\<rparr>,
      a @ concat (map direct rs))"
proof (induction rs arbitrary: f a)
  case (Cons r rs)
  show ?case by (simp add: note_request_eq Cons requested_Cons [of _ r rs] disj_assoc)
qed (simp add: requested_def)

lemma note_batches_fold: "note_batches bs st = fold note_request (concat (takeWhile (\<lambda>b. b \<noteq> []) bs)) st"
  by (induction bs arbitrary: st) auto

text \<open>C28. All requests of the batches before the first empty one are processed, loads, resources and daemons
  in the order of the kernel; then the prelinked kernel is built, if that was requested and is possible,
  and each notification is posted once, however often it was requested. The run loop is to end if an
  exit was requested anywhere.\<close>

theorem process_requests_spec:
  assumes "\<not> disableKextTools e"
  shows "let rs = concat (takeWhile (\<lambda>b. b \<noteq> []) (kernel_requests e)) in
    kextd_process_kernel_requests e s =
      (requested RequestKextdExit rs,
       s\<lparr>acts := acts s @ concat (map direct rs) @
            (if requested RequestPrelink rs \<and> \<not> skip_rebuild e then [BuildPrelinkedKernel] else []) @
            (if requested LoadNotification rs then [PostLoad] else []) @
            (if requested UnloadNotification rs then [PostUnload] else []) @ [FlushInfo],
         gKernelRequestsPending := False\<rparr>)"
  using assms
  by (simp add: kextd_process_kernel_requests_def note_batches_fold fold_note_request no_flags_def Let_def)

definition sample_kernel :: kernel_env where
  "sample_kernel = \<lparr>disableKextTools = False,
     kernel_requests = [[Some (Some LoadNotification, 0), Some (Some RequestLoad, 5), None],
                        [Some (Some LoadNotification, 0), Some (Some RequestKextdExit, 0)]],
     caches_statfs = Some 1, prelinked_rebuild_disabled = False, source_ok = True, client_uid = 0\<rparr>"

theorem process_requests_spec_witness:
  "fst (kextd_process_kernel_requests sample_kernel kextload_start) \<and>
   acts (snd (kextd_process_kernel_requests sample_kernel kextload_start)) = [ProcessLoad 5, PostLoad, FlushInfo]"
proof -
  have "\<not> disableKextTools sample_kernel" by (simp add: sample_kernel_def)
  from process_requests_spec [OF this, of kextload_start] show ?thesis
    by (simp add: sample_kernel_def kextload_start_def requested_def direct_def)
qed

section \<open>Send rights\<close>

text \<open>kextd holds exactly the right of the client that has the lock, until the source is freed.\<close>

definition rights_ok :: "kextload \<Rightarrow> bool" where
  "rights_ok s \<longleftrightarrow>
     rights s = (\<lambda>p. case gKextutilLock s of Some (client, _) \<Rightarrow> if p = client then 1 else 0 | None \<Rightarrow> 0) \<and> \<not> crashed s"

lemma process_fields [simp]:
  "gKextutilLock (snd (kextd_process_kernel_requests e s)) = gKextutilLock s"
  "rights (snd (kextd_process_kernel_requests e s)) = rights s"
  "crashed (snd (kextd_process_kernel_requests e s)) = crashed s"
  "run_loop_stopped (snd (kextd_process_kernel_requests e s)) = run_loop_stopped s"
  by (auto simp: kextd_process_kernel_requests_def split: prod.split)

lemma ping_fields [simp]:
  "gKextutilLock (svc_kextd_ping e s) = gKextutilLock s" "rights (svc_kextd_ping e s) = rights s"
  "crashed (svc_kextd_ping e s) = crashed s"
  using process_fields [of e s]
  by (cases "kextd_process_kernel_requests e s"; simp add: svc_kextd_ping_def)+

lemma remove_fields [simp]:
  "gKextutilLock (removeKextutilLock e s) = map_option (\<lambda>(client, _). (client, True)) (gKextutilLock s)"
  "rights (removeKextutilLock e s) = rights s" "crashed (removeKextutilLock e s) = crashed s"
  "run_loop_stopped (removeKextutilLock e s) = run_loop_stopped s"
  by (simp_all add: removeKextutilLock_def Let_def)

lemma port_fields [simp]:
  "gKextutilLock (mach_port_deallocate p s) = gKextutilLock s" "crashed (mach_port_deallocate p s) = crashed s"
  "rights (mach_port_deallocate p s) = (rights s)(p := rights s p - 1)"
  "gKextutilLock (add_right p s) = gKextutilLock s" "crashed (add_right p s) = crashed s"
  "rights (add_right p s) = (rights s)(p := rights s p + 1)"
  by (simp_all add: mach_port_deallocate_def add_right_def)

lemma rights_lock:
  assumes "rights_ok s"
  shows "rights_ok (snd (call (kextmanager_lock_kextload e client) client s))"
  using assms
  by (auto simp: call_def kextmanager_lock_kextload_def rights_ok_def fun_eq_iff split: option.splits)

lemma rights_unlock:
  assumes "rights_ok s" and "client_uid e \<noteq> 0 \<or> gKextutilLock s \<noteq> None"
  shows "rights_ok (snd (call (kextmanager_unlock_kextload e client) client s))"
  using assms
  by (auto simp: call_def kextmanager_unlock_kextload_def rights_ok_def fun_eq_iff split: option.splits)

interpretation kextload: event_system "\<lambda>s. s = kextload_start" kextload_step rights_ok
proof unfold_locales
  fix s assume "s = kextload_start"
  then show "rights_ok s" by (simp add: rights_ok_def kextload_start_def)
next
  fix s t assume ok: "rights_ok s" and "kextload_step s t"
  from this(2) show "rights_ok t"
  proof cases
    case (ping e)
    then show ?thesis using ok by (simp add: rights_ok_def)
  next
    case (lock e client)
    then show ?thesis using rights_lock [OF ok] by simp
  next
    case (unlock e client)
    then show ?thesis using rights_unlock [OF ok] by simp
  next
    case (client_died client e)
    then show ?thesis using ok by (auto simp: rights_ok_def fun_eq_iff)
  next
    case (cancelled client)
    then show ?thesis using ok by (auto simp: cancel_handler_def rights_ok_def fun_eq_iff)
  qed
qed

text \<open>C27. Whatever is called and whenever clients die or the cancel handler runs: as long as no client unlocks
  what nobody has locked, kextd holds one send right for the client that has the lock and none for
  any other, so no right is leaked or released twice.\<close>

theorem kextload_rights_balanced:
  assumes "kextload_step\<^sup>*\<^sup>* kextload_start s"
  shows "(\<forall>p. rights s p = (if \<exists>c. gKextutilLock s = Some (p, c) then 1 else 0)) \<and> \<not> crashed s"
  using kextload.reached_invariant [OF refl assms] by (auto simp: rights_ok_def split: option.splits)

theorem kextload_rights_balanced_witness:
  "\<exists>s. kextload_step\<^sup>*\<^sup>* kextload_start s \<and> gKextutilLock s = Some (9, False) \<and> rights s 9 = 1 \<and> rights s 8 = 0"
proof -
  let ?s = "snd (call (kextmanager_lock_kextload sample_kernel 9) 9 kextload_start)"
  have steps: "kextload_step\<^sup>*\<^sup>* kextload_start ?s" by (intro r_into_rtranclp kextload_step.lock)
  have "gKextutilLock ?s = Some (9, False)"
    by (simp add: call_def kextmanager_lock_kextload_def sample_kernel_def kextload_start_def add_right_def)
  then show ?thesis using kextload_rights_balanced [OF steps] steps
    by (intro exI [of _ ?s]) (simp add: ex_bool_eq)
qed

text \<open>The lock is granted only when nobody has it and then the caller has it; a caller that is not root is
  told so, a second one that the lock is taken, and neither changes it. Unlocking is for the holder only;
  without a lock it crashes kextd.\<close>

theorem kextload_lock_cases:
  "gKextutilLock s = None \<Longrightarrow> client_uid e = 0 \<Longrightarrow> source_ok e \<Longrightarrow>
     fst (kextmanager_lock_kextload e client s) = Success 0 \<and>
     gKextutilLock (snd (kextmanager_lock_kextload e client s)) = Some (client, False) \<and>
     fst (kextmanager_lock_kextload e other (snd (kextmanager_lock_kextload e client s))) = Success EBUSY \<and>
     crashed (snd (kextmanager_unlock_kextload e client s)) \<and>
     (other \<noteq> client \<longrightarrow> fst (kextmanager_unlock_kextload e other (snd (kextmanager_lock_kextload e client s))) = MigFailure) \<and>
     fst (kextmanager_unlock_kextload e client (snd (kextmanager_lock_kextload e client s))) = Success 0"
  by (simp add: kextmanager_lock_kextload_def kextmanager_unlock_kextload_def)

theorem kextload_lock_cases_witness:
  "fst (kextmanager_lock_kextload sample_kernel 8 (snd (kextmanager_lock_kextload sample_kernel 9 kextload_start))) = Success EBUSY"
  using kextload_lock_cases [of kextload_start sample_kernel 9 8] by (simp add: kextload_start_def sample_kernel_def)

section \<open>Requests that are put off\<close>

text \<open>C29. When the lock is given up or its holder dies, the requests that were put off are processed; but an exit
  that the kernel requests among them does not end the run loop, as it does without a lock.\<close>

theorem deferred_exit_ignored:
  assumes "gKextutilLock s = Some (client, False)" and "\<not> disableKextTools e"
  shows "let t = removeKextutilLock e (svc_kextd_ping e' s); rs = concat (takeWhile (\<lambda>b. b \<noteq> []) (kernel_requests e)) in
    acts t = acts s @ concat (map direct rs) @
      (if requested RequestPrelink rs \<and> \<not> skip_rebuild e then [BuildPrelinkedKernel] else []) @
      (if requested LoadNotification rs then [PostLoad] else []) @
      (if requested UnloadNotification rs then [PostUnload] else []) @ [FlushInfo] \<and>
    \<not> gKernelRequestsPending t \<and> run_loop_stopped t = run_loop_stopped s \<and>
    (requested RequestKextdExit rs \<longrightarrow> run_loop_stopped (svc_kextd_ping e (s\<lparr>gKextutilLock := None\<rparr>)))"
  using assms
  by (simp add: removeKextutilLock_def svc_kextd_ping_def kextd_process_kernel_requests_def note_batches_fold
      fold_note_request no_flags_def Let_def)

theorem deferred_exit_ignored_witness:
  "\<not> run_loop_stopped (removeKextutilLock sample_kernel
      (svc_kextd_ping sample_kernel (kextload_start\<lparr>gKextutilLock := Some (9, False)\<rparr>)))"
proof -
  have "\<not> disableKextTools sample_kernel" by (simp add: sample_kernel_def)
  from deferred_exit_ignored [OF _ this, of "kextload_start\<lparr>gKextutilLock := Some (9, False)\<rparr>" 9 sample_kernel]
  show ?thesis by (simp add: Let_def kextload_start_def)
qed

text \<open>A request that arrives between the cancellation and its handler is put off with nobody to process it: the
  lock is free then, but the requests are still pending.\<close>

theorem request_left_pending:
  "\<exists>s. kextload_step\<^sup>*\<^sup>* kextload_start s \<and> gKextutilLock s = None \<and> gKernelRequestsPending s \<and> acts s = []"
proof -
  let ?a = "snd (call (kextmanager_lock_kextload sample_kernel 9) 9 kextload_start)"
  let ?b = "removeKextutilLock sample_kernel ?a"
  let ?c = "svc_kextd_ping sample_kernel ?b"
  note defs = call_def kextmanager_lock_kextload_def sample_kernel_def kextload_start_def add_right_def
    removeKextutilLock_def svc_kextd_ping_def cancel_handler_def mach_port_deallocate_def
  have "kextload_step kextload_start ?a" by (rule kextload_step.lock)
  moreover have "gKextutilLock ?a = Some (9, False)" by (simp add: defs)
  then have "kextload_step ?a ?b" by (rule kextload_step.client_died)
  moreover have "kextload_step ?b ?c" by (rule kextload_step.ping)
  moreover have "gKextutilLock ?c = Some (9, True)" by (simp add: defs)
  then have "kextload_step ?c (cancel_handler ?c)" by (rule kextload_step.cancelled)
  ultimately have "kextload_step\<^sup>*\<^sup>* kextload_start (cancel_handler ?c)" by (meson rtranclp.rtrancl_into_rtrancl rtranclp.rtrancl_refl)
  moreover have "gKextutilLock (cancel_handler ?c) = None \<and> gKernelRequestsPending (cancel_handler ?c) \<and> acts (cancel_handler ?c) = []"
    by (simp add: defs)
  ultimately show ?thesis by blast
qed

end
