(* ===== verification/FileTree.thy ===== *)
theory FileTree
  imports Prelude "HOL-Library.AList" "HOL-Library.Sublist"
begin

text \<open>
  File systems as trees: files with their bytes, directories with their entries in the order in
  which readdir(3) returns them, both with an inode number and permissions. Paths of the C code are
  strings; \<open>comps\<close> gives the names they go through. Symbolic links and the name ".." are left
  out: the tools make neither, and the paths they build from mount points and property lists
  hold neither.
\<close>

section \<open>Trees\<close>

type_synonym mode = "16 word"

datatype node = File nat mode bytes | Dir nat mode "(string \<times> node) list"

fun node_at :: "node \<Rightarrow> string list \<Rightarrow> node option" where
  "node_at n [] = Some n"
| "node_at (File i m b) (c # cs) = None"
| "node_at (Dir i m es) (c # cs) = (case map_of es c of None \<Rightarrow> None | Some n \<Rightarrow> node_at n cs)"

definition set_entry :: "string \<Rightarrow> node option \<Rightarrow> (string \<times> node) list \<Rightarrow> (string \<times> node) list" where
  "set_entry c v es = (case v of None \<Rightarrow> AList.delete c es | Some n \<Rightarrow> AList.update c n es)"

fun put_at :: "string list \<Rightarrow> node option \<Rightarrow> node \<Rightarrow> node" where
  "put_at [] v n = n"
| "put_at (c # cs) v (File i m b) = File i m b"
| "put_at (c # cs) v (Dir i m es) =
     (if cs = [] then Dir i m (set_entry c v es)
      else case map_of es c of
             None \<Rightarrow> Dir i m es
           | Some n \<Rightarrow> Dir i m (AList.update c (put_at cs v n) es))"

fun is_dir :: "node \<Rightarrow> bool" where
  "is_dir (Dir i m es) = True"
| "is_dir (File i m b) = False"

fun inode :: "node \<Rightarrow> nat" where
  "inode (Dir i m es) = i"
| "inode (File i m b) = i"

fun perms :: "node \<Rightarrow> mode" where
  "perms (Dir i m es) = m"
| "perms (File i m b) = m"

fun contents :: "node \<Rightarrow> bytes" where
  "contents (File i m b) = b"
| "contents (Dir i m es) = []"

fun entries :: "node \<Rightarrow> (string \<times> node) list" where
  "entries (Dir i m es) = es"
| "entries (File i m b) = []"

lemma map_of_set_entry [simp]: "map_of (set_entry c v es) = (map_of es)(c := v)"
  by (cases v) (auto simp: set_entry_def AList.delete_conv AList.update_conv')

lemma node_at_append: "node_at t (p @ q) = (case node_at t p of None \<Rightarrow> None | Some n \<Rightarrow> node_at n q)"
  by (induction t p rule: node_at.induct) (auto split: option.splits)

lemma node_at_parent_dir:
  assumes "node_at t (p @ q) = Some n" "q \<noteq> []"
  obtains d where "node_at t p = Some d" "is_dir d"
proof (cases "node_at t p")
  case (Some d)
  with assms show thesis by (cases d; cases q) (auto simp: node_at_append intro: that)
qed (use assms in \<open>simp add: node_at_append\<close>)

lemma put_at_same:
  "node_at t p = Some d \<Longrightarrow> is_dir d \<Longrightarrow> node_at (put_at (p @ [c]) v t) (p @ [c]) = v"
proof (induction p arbitrary: t)
  case Nil
  then show ?case by (cases t) (auto split: option.splits)
next
  case (Cons a p)
  then show ?case by (cases t) (auto split: option.splits simp: AList.update_conv')
qed

lemma put_at_other:
  "\<not> prefix p q \<Longrightarrow> \<not> prefix q p \<Longrightarrow> node_at (put_at p v t) q = node_at t q"
proof (induction p v t arbitrary: q rule: put_at.induct)
  case (3 c cs v i m es)
  then obtain d qs where q: "q = d # qs" by (cases q) auto
  with 3 show ?case by (auto split: option.splits simp: AList.update_conv')
qed auto

lemma put_at_below:
  "q \<noteq> [] \<Longrightarrow> node_at (put_at (p @ q) v t) p = map_option (put_at q v) (node_at t p)"
proof (induction p arbitrary: t)
  case (Cons a p)
  then show ?case by (cases t) (auto split: option.splits simp: AList.update_conv')
qed simp

lemma is_dir_put_at [simp]: "is_dir (put_at p v n) = is_dir n"
  by (cases "(p, v, n)" rule: put_at.cases) (auto split: option.splits)

lemma perms_put_at [simp]: "perms (put_at p v n) = perms n"
  by (cases "(p, v, n)" rule: put_at.cases) (auto split: option.splits)

lemma inode_put_at [simp]: "inode (put_at p v n) = inode n"
  by (cases "(p, v, n)" rule: put_at.cases) (auto split: option.splits)

text \<open>What a node is without the entries of a directory: a changed entry leaves that alone in everything
  above it.\<close>

fun shallow :: "node \<Rightarrow> node" where
  "shallow (Dir i m es) = Dir i m []"
| "shallow (File i m b) = File i m b"

lemma shallow_put_at [simp]: "shallow (put_at p v n) = shallow n"
  by (cases "(p, v, n)" rule: put_at.cases) (auto split: option.splits)

lemma shallow_is_dir: "shallow n = shallow n' \<Longrightarrow> is_dir n = is_dir n'"
  by (cases n; cases n') auto

lemma put_at_shallow:
  assumes "\<not> prefix p q"
  shows "map_option shallow (node_at (put_at p v t) q) = map_option shallow (node_at t q)"
proof (cases "prefix q p")
  case True
  with assms obtain r where "p = q @ r" "r \<noteq> []" by (auto simp: prefix_def)
  then show ?thesis by (simp add: put_at_below option.map_comp comp_def)
qed (simp add: assms put_at_other)

section \<open>Paths\<close>

fun split_slash :: "string \<Rightarrow> string list" where
  "split_slash [] = [[]]"
| "split_slash (c # cs) =
     (if c = CHR ''/'' then [] # split_slash cs
      else (case split_slash cs of [] \<Rightarrow> [[c]] | w # ws \<Rightarrow> (c # w) # ws))"

definition comps :: "string \<Rightarrow> string list" where
  "comps path = filter (\<lambda>w. w \<noteq> [] \<and> w \<noteq> ''.'') (split_slash path)"

lemma split_slash_not_Nil [simp]: "split_slash p \<noteq> []"
  by (cases p) (auto split: list.splits)

lemma split_slash_append: "split_slash (a @ CHR ''/'' # b) = split_slash a @ split_slash b"
  by (induction a) (auto split: list.splits simp: Cons_eq_append_conv)

lemma split_slash_word: "CHR ''/'' \<notin> set w \<Longrightarrow> split_slash w = [w]"
  by (induction w) auto

lemma comps_append: "comps (a @ CHR ''/'' # b) = comps a @ comps b"
  by (simp add: comps_def split_slash_append)

lemma comps_slash [simp]: "comps (CHR ''/'' # b) = comps b"
  using comps_append [of "[]" b] by (simp add: comps_def)

lemma comps_simple [simp]: "comps [] = []" "comps ''.'' = []" "comps ''/'' = []"
  by (simp_all add: comps_def)

lemma comps_word: "CHR ''/'' \<notin> set w \<Longrightarrow> w \<noteq> [] \<Longrightarrow> w \<noteq> ''.'' \<Longrightarrow> comps w = [w]"
  by (simp add: comps_def split_slash_word)

text \<open>\<open>dirname\<close> and \<open>basename\<close> of libgen.h.\<close>

definition strip_right :: "string \<Rightarrow> string" where
  "strip_right p = rev (dropWhile (\<lambda>c. c = CHR ''/'') (rev p))"

definition basename :: "string \<Rightarrow> string" where
  "basename p =
     (if p = [] then ''.''
      else if strip_right p = [] then ''/''
      else rev (takeWhile (\<lambda>c. c \<noteq> CHR ''/'') (rev (strip_right p))))"

definition dirname :: "string \<Rightarrow> string" where
  "dirname p =
     (if p = [] then ''.''
      else if strip_right p = [] then ''/''
      else if CHR ''/'' \<notin> set (strip_right p) then ''.''
      else (let d = strip_right (rev (dropWhile (\<lambda>c. c \<noteq> CHR ''/'') (rev (strip_right p))))
            in if d = [] then ''/'' else d))"

lemma strip_right_snoc: obtains n where "p = strip_right p @ replicate n (CHR ''/'')"
proof -
  have "takeWhile (\<lambda>c. c = CHR ''/'') xs = replicate (length (takeWhile (\<lambda>c. c = CHR ''/'') xs)) (CHR ''/'')"
    for xs :: string by (induction xs) auto
  then have "p = strip_right p @ replicate (length (takeWhile (\<lambda>c. c = CHR ''/'') (rev p))) (CHR ''/'')"
    unfolding strip_right_def by (metis rev_append rev_replicate rev_rev_ident takeWhile_dropWhile_id)
  then show thesis by (rule that)
qed

lemma comps_strip_right [simp]: "comps (strip_right p) = comps p"
proof -
  have "comps (a @ replicate n (CHR ''/'')) = comps a" for a n
    by (induction n) (simp_all add: replicate_append_same [symmetric] comps_append flip: append_assoc)
  moreover obtain n where "p = strip_right p @ replicate n (CHR ''/'')" by (rule strip_right_snoc)
  ultimately show ?thesis by metis
qed

lemma comps_dirname: "comps (dirname p) @ comps (basename p) = comps p"
proof (cases "strip_right p = []")
  case True
  then have "comps p = []" using comps_strip_right [of p] by simp
  with True show ?thesis by (cases "p = []") (simp_all add: dirname_def basename_def)
next
  case False
  let ?q = "strip_right p"
  let ?w = "rev (takeWhile (\<lambda>c. c \<noteq> CHR ''/'') (rev ?q))"
  let ?d = "rev (dropWhile (\<lambda>c. c \<noteq> CHR ''/'') (rev ?q))"
  have q: "?q = ?d @ ?w" by (metis rev_append rev_rev_ident takeWhile_dropWhile_id)
  have p: "p \<noteq> []" using False by (auto simp: strip_right_def)
  show ?thesis
  proof (cases "CHR ''/'' \<in> set ?q")
    case True
    let ?r = "dropWhile (\<lambda>c. c \<noteq> CHR ''/'') (rev ?q)"
    have "?r \<noteq> []" using True by (auto simp: dropWhile_eq_Nil_conv)
    then have "hd ?r = CHR ''/''" using hd_dropWhile by blast
    with \<open>?r \<noteq> []\<close> obtain ds where "?r = CHR ''/'' # ds" by (cases ?r) simp_all
    then have "?d = rev ds @ ''/''" by (metis rev.simps(2))
    then obtain d where d: "?d = d @ ''/''" by blast
    have "comps p = comps (d @ CHR ''/'' # ?w)"
      using q d by (metis append_Cons append_Nil append_assoc comps_strip_right)
    also have "\<dots> = comps ?d @ comps ?w" by (simp add: comps_append d)
    finally have main: "comps p = comps ?d @ comps ?w" .
    have "comps (dirname p) = comps (strip_right ?d)"
      using True False p by (auto simp del: comps_strip_right simp: dirname_def Let_def)
    then have "comps (dirname p) = comps ?d" by simp
    with main False p show ?thesis by (simp add: basename_def)
  next
    case nin: False
    then have "takeWhile (\<lambda>c. c \<noteq> CHR ''/'') (rev ?q) = rev ?q"
      by (auto simp: takeWhile_eq_all_conv)
    then have "?w = ?q" by (simp only: rev_rev_ident)
    with False p nin comps_strip_right [of p] show ?thesis
      by (simp add: dirname_def basename_def)
  qed
qed

lemma basename_word: "comps (basename p) = [] \<or> comps (basename p) = [basename p]"
proof (cases "p = [] \<or> strip_right p = []")
  case False
  then have "CHR ''/'' \<notin> set (basename p)"
    by (auto simp: basename_def dest: set_takeWhileD)
  then show ?thesis by (simp add: comps_def split_slash_word)
qed (auto simp: basename_def)

lemma length_strip_right: "length (strip_right p) \<le> length p"
  using length_dropWhile_le [of "\<lambda>c. c = CHR ''/''" "rev p"] by (simp add: strip_right_def)

lemma dirname_shorter: "length (dirname p) < length p \<or> comps (dirname p) = []"
proof (cases "p = [] \<or> strip_right p = [] \<or> CHR ''/'' \<notin> set (strip_right p)")
  case True
  then show ?thesis by (auto simp: dirname_def)
next
  case False
  let ?q = "strip_right p"
  have last: "last ?q \<noteq> CHR ''/''"
    using False hd_dropWhile [of "\<lambda>c. c = CHR ''/''" "rev p"]
    by (simp add: strip_right_def last_rev)
  have "dropWhile (\<lambda>c. c \<noteq> CHR ''/'') (rev ?q) = dropWhile (\<lambda>c. c \<noteq> CHR ''/'') (tl (rev ?q))"
    using last by (cases ?q rule: rev_cases) auto
  then have "length (dropWhile (\<lambda>c. c \<noteq> CHR ''/'') (rev ?q)) < length ?q"
    using False length_dropWhile_le [of "\<lambda>c. c \<noteq> CHR ''/''" "tl (rev ?q)"]
    by (cases ?q rule: rev_cases) auto
  moreover have "length (strip_right (rev (dropWhile (\<lambda>c. c \<noteq> CHR ''/'') (rev ?q))))
      \<le> length (dropWhile (\<lambda>c. c \<noteq> CHR ''/'') (rev ?q))"
    using length_strip_right [of "rev (dropWhile (\<lambda>c. c \<noteq> CHR ''/'') (rev ?q))"] by simp
  ultimately show ?thesis
    using False length_strip_right [of p] by (auto simp: dirname_def Let_def)
qed

lemma split_slash_words: "w \<in> set (split_slash p) \<Longrightarrow> CHR ''/'' \<notin> set w"
  by (induction p arbitrary: w) (auto split: if_splits list.splits)

lemma comps_no_slash:
  assumes "comps w = [w]" shows "CHR ''/'' \<notin> set w \<and> w \<noteq> []"
proof -
  have "w \<in> set (comps w)" by (subst assms) simp
  then have "w \<in> set (split_slash w)" "w \<noteq> []" by (simp_all add: comps_def)
  then show ?thesis using split_slash_words by blast
qed

lemma basename_below:
  assumes "comps w = [w]" shows "basename (p @ CHR ''/'' # w) = w" "comps (dirname (p @ CHR ''/'' # w)) = comps p"
proof -
  have w: "CHR ''/'' \<notin> set w" "w \<noteq> []" using comps_no_slash [OF assms] by simp_all
  then have "dropWhile (\<lambda>c. c = CHR ''/'') (rev w @ xs) = rev w @ xs" for xs
    by (cases w rule: rev_cases) auto
  then have strip: "strip_right (p @ CHR ''/'' # w) = p @ CHR ''/'' # w" by (simp add: strip_right_def)
  have "takeWhile (\<lambda>c. c \<noteq> CHR ''/'') (rev w @ CHR ''/'' # xs) = rev w" for xs
    using w by (subst takeWhile_append2) auto
  with strip show base: "basename (p @ CHR ''/'' # w) = w" by (simp add: basename_def)
  show "comps (dirname (p @ CHR ''/'' # w)) = comps p"
    using comps_dirname [of "p @ CHR ''/'' # w"] by (simp add: base assms comps_append)
qed

end
