(* ===== verification/SafeCalls.thy ===== *)
theory SafeCalls
  imports FileTree Errno "HOL-Library.State_Monad"
begin

text \<open>
  src/safecalls.c: system calls that are confined to the volume of a file descriptor. Every function
  is a program in the state monad over the operating system: the tree of files, \<open>errno\<close>, and a
  counter of the calls made so far, by which the record \<open>world\<close> says which calls fail. All the
  states the disk has been in are kept, so that what a crash leaves behind can be talked about. A
  descriptor that limits a call is the device of its file; an open file is its path together
  with the node it was opened on. Paths are absolute; what the wrappers do to the current
  directory, to get from a checked parent to its child, is the pair of both.
\<close>

section \<open>The operating system\<close>

datatype syscall =
  StatCall | FstatCall | OpenCall | ChdirCall | MkdirCall | RmdirCall | UnlinkCall | RenameCall | ReadCall |
  WriteCall | ChmodCall | ReaddirCall | AllocCall | XattrCall | BlessCall | SyncCall | StatfsCall | UtimesCall

record world =
  fails :: "syscall \<Rightarrow> nat \<Rightarrow> int option"
  short :: "nat \<Rightarrow> nat option"
  dev_of :: "string list \<Rightarrow> nat"
  mounts :: "string list list"
  userdata :: "nat \<Rightarrow> nat \<Rightarrow> bool"
  umask :: mode

text \<open>The table of mounted volumes has the paths of their roots. A volume stays where it is while a tool runs: a
  name is busy when a volume is mounted at it or below it, and then it can neither be removed nor
  renamed. A tree with a mount table is one where devices change at mount points only, and these are
  directories.\<close>

definition busy :: "world \<Rightarrow> string list \<Rightarrow> bool" where
  "busy w p \<longleftrightarrow> (\<exists>m \<in> set (mounts w). prefix p m)"

type_synonym disk = "node \<times> nat \<times> nat"

record os =
  world :: world
  disk :: disk
  history :: "disk list"
  errno :: int
  calls :: nat
  next_ino :: nat

abbreviation return :: "'a \<Rightarrow> ('s, 'a) state" where "return \<equiv> State_Monad.return"

abbreviation tree :: "'z os_scheme \<Rightarrow> node" where "tree s \<equiv> fst (disk s)"

definition gets :: "('s \<Rightarrow> 'a) \<Rightarrow> ('s, 'a) state" where
  "gets f = State (\<lambda>s. (f s, s))"

definition modify :: "('s \<Rightarrow> 's) \<Rightarrow> ('s, unit) state" where
  "modify f = State (\<lambda>s. ((), f s))"

text \<open>A call fails as the world says, and otherwise goes on.\<close>

definition attempt :: "syscall \<Rightarrow> ('z os_scheme, bool) state" where
  "attempt c = State (\<lambda>s.
     case fails (world s) c (calls s) of
       None \<Rightarrow> (True, s\<lparr>calls := Suc (calls s)\<rparr>)
     | Some e \<Rightarrow> (False, s\<lparr>calls := Suc (calls s), errno := e\<rparr>))"

definition set_errno :: "int \<Rightarrow> ('z os_scheme, unit) state" where
  "set_errno e = modify (errno_update (\<lambda>_. e))"

definition fail_with :: "int \<Rightarrow> 'a \<Rightarrow> ('z os_scheme, 'a) state" where
  "fail_with e r = do { set_errno e; return r }"

definition change :: "(disk \<Rightarrow> disk) \<Rightarrow> ('z os_scheme, unit) state" where
  "change f = modify (\<lambda>s. s\<lparr>disk := f (disk s), history := disk s # history s\<rparr>)"

definition put_node :: "string list \<Rightarrow> node option \<Rightarrow> ('z os_scheme, unit) state" where
  "put_node p v = change (map_prod (put_at p v) id)"

definition look :: "string list \<Rightarrow> ('z os_scheme, node option) state" where
  "look p = gets (\<lambda>s. node_at (tree s) p)"

text \<open>What a path that leads nowhere is reported as.\<close>

fun path_error :: "node \<Rightarrow> string list \<Rightarrow> int" where
  "path_error n [] = 0"
| "path_error (File i m b) (c # cs) = ENOTDIR"
| "path_error (Dir i m es) (c # cs) = (case map_of es c of None \<Rightarrow> ENOENT | Some n \<Rightarrow> path_error n cs)"

definition missing :: "string list \<Rightarrow> 'a \<Rightarrow> ('z os_scheme, 'a) state" where
  "missing p r = do { e \<leftarrow> gets (\<lambda>s. path_error (tree s) p); fail_with e r }"

definition parent_is_dir :: "node \<Rightarrow> string list \<Rightarrow> bool" where
  "parent_is_dir t p \<longleftrightarrow> p \<noteq> [] \<and> (case node_at t (butlast p) of None \<Rightarrow> False | Some d \<Rightarrow> is_dir d)"

definition stat_call :: "string \<Rightarrow> ('z os_scheme, node option) state" where
  "stat_call path = do {
     ok \<leftarrow> attempt StatCall;
     if \<not> ok then return None
     else do {
       n \<leftarrow> look (comps path);
       case n of None \<Rightarrow> missing (comps path) None | Some n \<Rightarrow> return (Some n)
     }
   }"

definition mkdir_at :: "string list \<Rightarrow> mode \<Rightarrow> ('z os_scheme, int) state" where
  "mkdir_at p mode = do {
     ok \<leftarrow> attempt MkdirCall;
     if \<not> ok then return (- 1)
     else do {
       t \<leftarrow> gets tree;
       if node_at t p \<noteq> None then fail_with EEXIST (- 1)
       else if \<not> parent_is_dir t p then missing p (- 1)
       else do {
         s \<leftarrow> gets id;
         put_node p (Some (Dir (next_ino s) (mode AND NOT (umask (world s))) []));
         modify (next_ino_update Suc);
         return 0
       }
     }
   }"

definition rmdir_at :: "string list \<Rightarrow> ('z os_scheme, int) state" where
  "rmdir_at p = do {
     ok \<leftarrow> attempt RmdirCall;
     n \<leftarrow> look p;
     w \<leftarrow> gets world;
     if \<not> ok then return (- 1)
     else case n of
       None \<Rightarrow> missing p (- 1)
     | Some (File i m b) \<Rightarrow> fail_with ENOTDIR (- 1)
     | Some (Dir i m es) \<Rightarrow>
         if p = [] then fail_with EINVAL (- 1)
         else if p \<in> set (mounts w) then fail_with EBUSY (- 1)
         else if es \<noteq> [] then fail_with ENOTEMPTY (- 1)
         else do { put_node p None; return 0 }
   }"

definition unlink_at :: "string list \<Rightarrow> ('z os_scheme, int) state" where
  "unlink_at p = do {
     ok \<leftarrow> attempt UnlinkCall;
     n \<leftarrow> look p;
     if \<not> ok then return (- 1)
     else case n of
       None \<Rightarrow> missing p (- 1)
     | Some (Dir i m es) \<Rightarrow> fail_with EPERM (- 1)
     | Some (File i m b) \<Rightarrow> do { put_node p None; return 0 }
   }"

text \<open>Renaming within a directory \<open>d\<close>.\<close>

definition rename_at :: "string list \<Rightarrow> string \<Rightarrow> string \<Rightarrow> ('z os_scheme, int) state" where
  "rename_at d old new = do {
     ok \<leftarrow> attempt RenameCall;
     t \<leftarrow> gets tree;
     w \<leftarrow> gets world;
     if \<not> ok then return (- 1)
     else if comps old = [] \<or> comps new = [] then fail_with EINVAL (- 1)
     else case node_at t (d @ comps old) of
       None \<Rightarrow> missing (d @ comps old) (- 1)
     | Some n \<Rightarrow>
         if comps old = comps new then return 0
         else if busy w (d @ comps old) \<or> busy w (d @ comps new) then fail_with EBUSY (- 1)
         else case node_at t (d @ comps new) of
           Some (File i m b) \<Rightarrow>
             if is_dir n then fail_with ENOTDIR (- 1)
             else do {
               change (map_prod (put_at (d @ comps new) (Some n) \<circ> put_at (d @ comps old) None) id);
               return 0
             }
         | Some (Dir i m es) \<Rightarrow>
             if \<not> is_dir n then fail_with EISDIR (- 1)
             else if es \<noteq> [] then fail_with ENOTEMPTY (- 1)
             else do {
               change (map_prod (put_at (d @ comps new) (Some n) \<circ> put_at (d @ comps old) None) id);
               return 0
             }
         | None \<Rightarrow> do {
               change (map_prod (put_at (d @ comps new) (Some n) \<circ> put_at (d @ comps old) None) id);
               return 0
             }
   }"

datatype open_flags = ReadOnly | ForWriting | Creating bool mode

type_synonym open_file = "string list \<times> node"

definition open_at :: "string list \<Rightarrow> open_flags \<Rightarrow> ('z os_scheme, open_file option) state" where
  "open_at p flags = do {
     ok \<leftarrow> attempt OpenCall;
     s \<leftarrow> gets id;
     if \<not> ok then return None
     else case node_at (tree s) p of
       Some n \<Rightarrow>
         (case flags of
            Creating excl mode \<Rightarrow>
              if excl then fail_with EEXIST None
              else if is_dir n then fail_with EISDIR None else return (Some (p, n))
          | ForWriting \<Rightarrow> if is_dir n then fail_with EISDIR None else return (Some (p, n))
          | ReadOnly \<Rightarrow> return (Some (p, n)))
     | None \<Rightarrow>
         (case flags of
            Creating excl mode \<Rightarrow>
              if \<not> parent_is_dir (tree s) p then missing p None
              else do {
                put_node p (Some (File (next_ino s) (mode AND NOT (umask (world s))) []));
                modify (next_ino_update Suc);
                return (Some (p, File (next_ino s) (mode AND NOT (umask (world s))) []))
              }
          | _ \<Rightarrow> missing p None)
   }"

text \<open>Reading and writing at an offset; the world may have a call transfer less than asked for.\<close>

definition transfer :: "nat \<Rightarrow> ('z os_scheme, nat) state" where
  "transfer n = gets (\<lambda>s. case short (world s) (calls s) of None \<Rightarrow> n | Some k \<Rightarrow> min k n)"

definition read_at :: "open_file \<Rightarrow> nat \<Rightarrow> nat \<Rightarrow> ('z os_scheme, int \<times> bytes) state" where
  "read_at fd off n = do {
     k \<leftarrow> transfer n;
     ok \<leftarrow> attempt ReadCall;
     let data = take k (drop off (contents (snd fd)));
     return (if ok then (int (length data), data) else (- 1, []))
   }"

fun overwrite :: "nat \<Rightarrow> bytes \<Rightarrow> node \<Rightarrow> node" where
  "overwrite off data (File i m b) = File i m (take off b @ data @ drop (off + length data) b)"
| "overwrite off data (Dir i m es) = Dir i m es"

fun set_perms :: "mode \<Rightarrow> node \<Rightarrow> node" where
  "set_perms mode (File i m b) = File i mode b"
| "set_perms mode (Dir i m es) = Dir i mode es"

definition update_at :: "string list \<Rightarrow> (node \<Rightarrow> node) \<Rightarrow> ('z os_scheme, unit) state" where
  "update_at p f = do {
     n \<leftarrow> look p;
     case n of None \<Rightarrow> return () | Some n \<Rightarrow> put_node p (Some (f n))
   }"

fun emptied :: "node \<Rightarrow> node" where
  "emptied (File i m b) = File i m []"
| "emptied (Dir i m es) = Dir i m es"

definition write_at :: "open_file \<Rightarrow> nat \<Rightarrow> bytes \<Rightarrow> ('z os_scheme, int) state" where
  "write_at fd off data = do {
     k \<leftarrow> transfer (length data);
     ok \<leftarrow> attempt WriteCall;
     if \<not> ok then return (- 1)
     else do { update_at (fst fd) (overwrite off (take k data)); return (int k) }
   }"

definition truncate_at :: "open_file \<Rightarrow> ('z os_scheme, int) state" where
  "truncate_at fd = do {
     ok \<leftarrow> attempt WriteCall;
     if \<not> ok then return (- 1)
     else do { update_at (fst fd) emptied; return 0 }
   }"

definition fchmod :: "open_file \<Rightarrow> mode \<Rightarrow> ('z os_scheme, int) state" where
  "fchmod fd mode = do {
     ok \<leftarrow> attempt ChmodCall;
     if \<not> ok then return (- 1) else do { update_at (fst fd) (set_perms mode); return 0 }
   }"

text \<open>A call that changes nothing the model keeps: \<open>fchown\<close>, \<open>fsetxattr\<close>, \<open>fcntl\<close>.\<close>

definition simple_call :: "syscall \<Rightarrow> ('z os_scheme, int) state" where
  "simple_call c = do { ok \<leftarrow> attempt c; return (if ok then 0 else - 1) }"

section \<open>Control flow\<close>

text \<open>\<open>if ((r = m)) goto finish\<close>, where what follows \<open>finish\<close> is in \<open>fin\<close>; and the same for a
  call that yields a descriptor or a path.\<close>

definition check :: "('s, int) state \<Rightarrow> (int \<Rightarrow> ('s, 'a) state) \<Rightarrow> ('s, 'a) state \<Rightarrow> ('s, 'a) state" where
  "check m fin k = do { r \<leftarrow> m; if r \<noteq> 0 then fin r else k }"

definition need :: "('s, 'a option) state \<Rightarrow> ('s, 'b) state \<Rightarrow> ('a \<Rightarrow> ('s, 'b) state) \<Rightarrow> ('s, 'b) state" where
  "need m fin k = do { x \<leftarrow> m; case x of None \<Rightarrow> fin | Some y \<Rightarrow> k y }"

text \<open>\<open>PATHCPY\<close> followed by \<open>PATHCAT\<close>s. A path that does not fit seeds \<open>errno\<close>.\<close>

definition build_path :: "string list \<Rightarrow> ('z os_scheme, string option) state" where
  "build_path parts = State (\<lambda>s.
     if length (concat parts) < PATH_MAX then (Some (concat parts), s)
     else (None, if errno s = 0 then s\<lparr>errno := ENAMETOOLONG\<rparr> else s))"

section \<open>Confinement\<close>

definition allowed :: "world \<Rightarrow> nat \<Rightarrow> string list \<Rightarrow> bool" where
  "allowed w vol p \<longleftrightarrow> dev_of w p = vol \<or> userdata w vol (dev_of w p)"

definition spolicy :: "nat \<Rightarrow> string list \<Rightarrow> ('z os_scheme, int) state" where
  "spolicy vol cand =
     check (simple_call FstatCall) return
       (check (simple_call FstatCall) return
          (do {
             w \<leftarrow> gets world;
             if \<not> allowed w vol cand then fail_with EPERM (- 1) else return 0
           }))"

text \<open>The directory that becomes the current one; its child is the \<open>basename\<close> of the path.\<close>

definition schdirparent :: "nat \<Rightarrow> string \<Rightarrow> ('z os_scheme, string list option) state" where
  "schdirparent vol path =
     need (build_path [path]) (return None) (\<lambda>_.
     need (open_at (comps (dirname path)) ReadOnly) (return None) (\<lambda>dirfd. do {
       set_errno 0;
       check (spolicy vol (comps (dirname path))) (\<lambda>_. return None)
         (check (simple_call OpenCall) (\<lambda>_. return None)
           (check (simple_call ChdirCall) (\<lambda>_. return None)
             (if is_dir (snd dirfd) then return (Some (comps (dirname path)))
              else fail_with ENOTDIR None)))
     }))"

text \<open>A path that ends in ".", or is "/", has a child that is the directory itself, which is there.\<close>

definition names_parent :: "string \<Rightarrow> bool" where
  "names_parent path \<longleftrightarrow> comps (basename path) = []"

fun writes :: "open_flags \<Rightarrow> bool" where
  "writes ReadOnly = False"
| "writes _ = True"

definition sopen_ifExists :: "nat \<Rightarrow> string \<Rightarrow> open_flags \<Rightarrow> ('z os_scheme, open_file option) state" where
  "sopen_ifExists vol path flags =
     need (schdirparent vol path) (return None) (\<lambda>dir.
       if names_parent path \<and> writes flags
       then fail_with (if flags = ForWriting then EISDIR else EEXIST) None
       else need (open_at (dir @ comps (basename path)) flags) (return None) (\<lambda>candfd.
         check (spolicy vol (dir @ comps (basename path))) (\<lambda>_. return None) (return (Some candfd))))"

definition exclusively :: "open_flags \<Rightarrow> open_flags" where
  "exclusively flags = (case flags of Creating _ mode \<Rightarrow> Creating True mode | f \<Rightarrow> f)"

definition sopen :: "nat \<Rightarrow> string \<Rightarrow> open_flags \<Rightarrow> ('z os_scheme, open_file option) state" where
  "sopen vol path flags = sopen_ifExists vol path (exclusively flags)"

definition smkdir :: "nat \<Rightarrow> string \<Rightarrow> mode \<Rightarrow> ('z os_scheme, int) state" where
  "smkdir vol path mode =
     need (schdirparent vol path) (return (- 1)) (\<lambda>dir.
       if names_parent path then fail_with EEXIST (- 1)
       else mkdir_at (dir @ comps (basename path)) mode)"

definition srmdir :: "nat \<Rightarrow> string \<Rightarrow> ('z os_scheme, int) state" where
  "srmdir vol path =
     need (schdirparent vol path) (return (- 1)) (\<lambda>dir.
       if names_parent path then fail_with EINVAL (- 1)
       else rmdir_at (dir @ comps (basename path)))"

definition sunlink :: "nat \<Rightarrow> string \<Rightarrow> ('z os_scheme, int) state" where
  "sunlink vol path =
     need (schdirparent vol path) (return (- 1)) (\<lambda>dir.
       if names_parent path then fail_with EPERM (- 1)
       else unlink_at (dir @ comps (basename path)))"

definition srename :: "nat \<Rightarrow> string \<Rightarrow> string \<Rightarrow> ('z os_scheme, int) state" where
  "srename vol oldpath newpath =
     need (build_path [newpath]) (return (- 1)) (\<lambda>_.
     need (schdirparent vol oldpath) (return (- 1)) (\<lambda>dir.
       rename_at dir (basename oldpath) (basename newpath)))"

section \<open>Erasing\<close>

definition MAXBSIZE :: nat where "MAXBSIZE = 1048576"

text \<open>The loop that writes zeros, from the offset \<open>off\<close> with \<open>left\<close> bytes to go.\<close>

function zero_loop :: "open_file \<Rightarrow> nat \<Rightarrow> nat \<Rightarrow> ('z os_scheme, int) state" where
  "zero_loop fd off left =
     (if left = 0 then return 0
      else do {
        k \<leftarrow> write_at fd off (replicate (min left MAXBSIZE) 0);
        if k \<noteq> int (min left MAXBSIZE) then return (- 1)
        else zero_loop fd (off + min left MAXBSIZE) (left - min left MAXBSIZE)
      })"
  by auto
termination
  by (relation "measure (\<lambda>(fd, off, left). left)") (auto simp: MAXBSIZE_def)

declare zero_loop.simps [simp del]

definition szerofile :: "nat \<Rightarrow> string \<Rightarrow> ('z os_scheme, int) state" where
  "szerofile vol path =
     need (sopen vol path ForWriting)
       (do { e \<leftarrow> gets errno; return (if e = ENOENT then 0 else - 1) })
       (\<lambda>fd. check (simple_call FstatCall) (\<lambda>_. return (- 1))
         (if length (contents (snd fd)) = 0 then return 0
          else check (simple_call AllocCall) (\<lambda>_. return (- 1))
            (check (zero_loop fd 0 (length (contents (snd fd)))) (\<lambda>_. return (- 1))
              (do { _ \<leftarrow> truncate_at fd; return 0 }))))"

text \<open>The results that the traversal accumulates: the result and the first error number.\<close>

definition note_result :: "int \<Rightarrow> int \<times> int \<Rightarrow> ('z os_scheme, int \<times> int) state" where
  "note_result r acc = do {
     e \<leftarrow> gets errno;
     return (if r \<noteq> 0 then - 1 else fst acc, if snd acc = 0 then e else snd acc)
   }"

text \<open>The traversal of fts(3), of a node at a path: directories before and after their entries, a
  directory that cannot be read is reported instead of visited a second time, and one on another
  device than the start is not descended into.\<close>

fun unlink_tree :: "nat \<Rightarrow> nat \<Rightarrow> string \<Rightarrow> node \<Rightarrow> int \<times> int \<Rightarrow> ('z os_scheme, int \<times> int) state"
and unlink_entries :: "nat \<Rightarrow> nat \<Rightarrow> string \<Rightarrow> (string \<times> node) list \<Rightarrow> int \<times> int \<Rightarrow>
  ('z os_scheme, int \<times> int) state" where
  "unlink_tree vol dev path (File i m b) acc = do { r \<leftarrow> sunlink vol path; note_result r acc }"
| "unlink_tree vol dev path (Dir i m es) acc = do {
     ok \<leftarrow> attempt ReaddirCall;
     w \<leftarrow> gets world;
     if \<not> ok then note_result 0 acc
     else do {
       acc \<leftarrow> (if dev_of w (comps path) = dev then unlink_entries vol dev path es acc else return acc);
       r \<leftarrow> srmdir vol path;
       note_result r acc
     }
   }"
| "unlink_entries vol dev path [] acc = return acc"
| "unlink_entries vol dev path (e # es) acc = do {
     acc \<leftarrow> unlink_tree vol dev (path @ ''/'' @ fst e) (snd e) acc;
     unlink_entries vol dev path es acc
   }"

definition sdeepunlink :: "nat \<Rightarrow> string \<Rightarrow> ('z os_scheme, int) state" where
  "sdeepunlink vol path = do {
     ok \<leftarrow> attempt OpenCall;
     if \<not> ok then return (- 1)
     else do {
       s \<leftarrow> gets id;
       acc \<leftarrow> (case node_at (tree s) (comps path) of
                 None \<Rightarrow> return (0, path_error (tree s) (comps path))
               | Some n \<Rightarrow> unlink_tree vol (dev_of (world s) (comps path)) path n (0, 0));
       if snd acc \<noteq> 0 then fail_with (snd acc) (- 1)
       else do { set_errno 0; return (fst acc) }
     }
   }"

section \<open>Making directories and copying\<close>

fun sdeepmkdir_fuel :: "nat \<Rightarrow> nat \<Rightarrow> string \<Rightarrow> mode \<Rightarrow> ('z os_scheme, int) state" where
  "sdeepmkdir_fuel 0 vol path mode = return (- 1)"
| "sdeepmkdir_fuel (Suc fuel) vol path mode =
     (if path = [] then return (- 1)
      else do {
        n \<leftarrow> stat_call path;
        e \<leftarrow> gets errno;
        case n of
          Some n \<Rightarrow> return (if is_dir n then 0 else ENOTDIR)
        | None \<Rightarrow>
            if e \<noteq> ENOENT then return (- 1)
            else need (build_path [path]) (return (- 1)) (\<lambda>_.
              check (sdeepmkdir_fuel fuel vol (dirname path) mode) return (smkdir vol path mode))
      })"

definition sdeepmkdir :: "nat \<Rightarrow> string \<Rightarrow> mode \<Rightarrow> ('z os_scheme, int) state" where
  "sdeepmkdir vol path mode = sdeepmkdir_fuel (length path + 2) vol path mode"

definition S_IWUSR :: mode where "S_IWUSR = 0x80"
definition S_IXUSR :: mode where "S_IXUSR = 0x40"
definition S_IRGRP :: mode where "S_IRGRP = 0x20"
definition S_IXGRP :: mode where "S_IXGRP = 0x8"
definition S_IROTH :: mode where "S_IROTH = 0x4"
definition S_IXOTH :: mode where "S_IXOTH = 0x1"

function copy_loop :: "open_file \<Rightarrow> open_file \<Rightarrow> nat \<Rightarrow> nat \<Rightarrow> ('z os_scheme, int) state" where
  "copy_loop src dst off left =
     (if left = 0 then return 0
      else do {
        r \<leftarrow> read_at src off (min left MAXBSIZE);
        if fst r \<noteq> int (min left MAXBSIZE) then return (- 1)
        else do {
          k \<leftarrow> write_at dst off (snd r);
          if k \<noteq> int (min left MAXBSIZE) then return (- 1)
          else copy_loop src dst (off + min left MAXBSIZE) (left - min left MAXBSIZE)
        }
      })"
  by auto
termination
  by (relation "measure (\<lambda>(src, dst, off, left). left)") (auto simp: MAXBSIZE_def)

declare copy_loop.simps [simp del]

definition copyfiledata :: "open_file \<Rightarrow> nat \<Rightarrow> string \<Rightarrow> ('z os_scheme, int) state" where
  "copyfiledata srcfd vol dstpath = do {
     _ \<leftarrow> sunlink vol dstpath;
     need (sopen vol dstpath (Creating True (perms (snd srcfd) OR S_IWUSR))) (return (- 1)) (\<lambda>dstfd.
       check (simple_call AllocCall) return
         (check (copy_loop srcfd dstfd 0 (length (contents (snd srcfd)))) return
           (fchmod dstfd (perms (snd srcfd)))))
   }"

fun copy_entries :: "(string \<Rightarrow> string \<Rightarrow> ('z os_scheme, int) state) \<Rightarrow> string \<Rightarrow> string \<Rightarrow> string list \<Rightarrow>
  ('z os_scheme, int) state" where
  "copy_entries copy srcdir dstdir [] = do {
     ok \<leftarrow> attempt ReaddirCall;
     e \<leftarrow> gets errno;
     return (if ok then 0 else e)
   }"
| "copy_entries copy srcdir dstdir (name # names) = do {
     ok \<leftarrow> attempt ReaddirCall;
     e \<leftarrow> gets errno;
     if \<not> ok then return e
     else if name = ''.'' \<or> name = ''..'' then copy_entries copy srcdir dstdir names
     else need (build_path [srcdir, ''/'', name]) (return 0) (\<lambda>srcpath.
          need (build_path [dstdir, ''/'', name]) (return 0) (\<lambda>dstpath.
            check (copy srcpath dstpath) return (copy_entries copy srcdir dstdir names)))
   }"

definition copysubitems :: "(string \<Rightarrow> string \<Rightarrow> ('z os_scheme, int) state) \<Rightarrow> nat \<Rightarrow> string \<Rightarrow> string \<Rightarrow>
  ('z os_scheme, int) state" where
  "copysubitems copy srcvol srcdir dstdir =
     need (open_at (comps srcdir) ReadOnly) (return (- 1)) (\<lambda>dir.
       if \<not> is_dir (snd dir) then fail_with ENOTDIR (- 1)
       else check (spolicy srcvol (comps srcdir)) (\<lambda>_. return (- 1))
         (copy_entries copy srcdir dstdir (map fst (entries (snd dir)))))"

definition dir_mode :: "mode \<Rightarrow> mode" where
  "dir_mode m =
     (let m1 = m OR S_IWUSR OR S_IXUSR;
          m2 = (if m1 AND S_IRGRP \<noteq> 0 then m1 OR S_IXGRP else m1)
      in if m2 AND S_IROTH \<noteq> 0 then m2 OR S_IXOTH else m2)"

fun scopyitem_fuel :: "nat \<Rightarrow> nat \<Rightarrow> nat \<Rightarrow> string \<Rightarrow> string \<Rightarrow> ('z os_scheme, int) state" where
  "scopyitem_fuel 0 srcvol dstvol srcpath dstpath = return (- 1)"
| "scopyitem_fuel (Suc fuel) srcvol dstvol srcpath dstpath =
     need (sopen srcvol srcpath ReadOnly) (return (- 1)) (\<lambda>srcfd.
       check (simple_call FstatCall) return
         (need (build_path [dstpath]) (return (- 1)) (\<lambda>_.
            check (sdeepmkdir dstvol (dirname dstpath) (dir_mode (perms (snd srcfd)))) return
              (if is_dir (snd srcfd)
               then copysubitems (scopyitem_fuel fuel srcvol dstvol) srcvol srcpath dstpath
               else copyfiledata srcfd dstvol dstpath))))"

definition scopyitem :: "nat \<Rightarrow> string \<Rightarrow> nat \<Rightarrow> string \<Rightarrow> ('z os_scheme, int) state" where
  "scopyitem srcvol srcpath dstvol dstpath = scopyitem_fuel PATH_MAX srcvol dstvol srcpath dstpath"

end
