(* ===== verification/BootTaint.thy ===== *)
theory BootTaint
  imports SafeCalls
begin

text \<open>
  The mark of src/bootcaches.c for content that is not the default: an empty file below a mount point,
  in the helper partitions and beside the stamps of a volume.
\<close>

definition kCacheDirMode :: mode where "kCacheDirMode = 0x1ED"
definition kCacheFileMode :: mode where "kCacheFileMode = 0x1A4"

abbreviation kBRTaintFile :: string where "kBRTaintFile \<equiv> ''.notBootRootDefault''"

definition taint_file :: "string \<Rightarrow> string \<Rightarrow> string" where
  "taint_file mount subdir = mount @ ''/'' @ subdir @ ''/'' @ kBRTaintFile"

definition notBRDefault :: "string \<Rightarrow> string \<Rightarrow> ('z os_scheme, bool) state" where
  "notBRDefault mount subdir =
     (if length (taint_file mount subdir) \<ge> PATH_MAX then return False
      else do { n \<leftarrow> stat_call (taint_file mount subdir); return (n \<noteq> None) })"

definition markNotBRDefault :: "nat \<Rightarrow> string \<Rightarrow> string \<Rightarrow> bool \<Rightarrow> ('z os_scheme, int) state" where
  "markNotBRDefault scope mount subdir marking =
     (if length (taint_file mount subdir) \<ge> PATH_MAX then return (ELAST + 1)
      else do {
        _ \<leftarrow> sunlink scope (taint_file mount subdir);
        if marking
        then need (sopen scope (taint_file mount subdir) (Creating False kCacheFileMode)) (gets errno)
               (\<lambda>_. return 0)
        else return 0
      })"

end
