(* ===== verification/BootUpdate.thy ===== *)
theory BootUpdate
  imports BootTaint
begin

text \<open>
  src/update_boot.c: bringing the helper (Apple_Boot) partition of a volume up to date. What the booter
  reads is in one of three directories; the update fills an inactive one and makes it the current
  one by renaming it. \<open>struct updatingVol\<close> is split in two: \<open>target\<close> is what stays fixed while a helper is
  updated, \<open>update\<close> what the steps change, on top of the operating system.
  The names of the three directories, of the recovery directory, the property list functions, CoreStorage
  and the I/O registry are parameters in \<open>target\<close>. An index into \<open>rpspaths\<close> stands for a pointer into it.
\<close>

section \<open>State\<close>

datatype bootReversions =
  nothingSerious | noLabel | copyingOFBooter | copyingEFIBooter | copiedBooters | activatingOFBooter |
  activatingEFIBooter | activatedBooters

record boot_caches =
  root :: string
  cachefd :: nat
  rpspaths :: "string list"
  miscpaths :: "string list"
  efibooter :: string
  ofbooter :: string
  readonly_kext_boot_cache_file :: "nat option"
  kext_boot_cache_file :: "nat option"
  bootconfig :: "nat option"
  efidefrsrcs :: "nat option"
  efiloccache :: "nat option"
  erpropcache :: "nat option"
  fileset_bootkc :: "nat option"
  label :: string
  erpropTSOnly :: bool
  prefer_fileset :: bool
  extraKernelCachePaths :: "string list"

record target =
  caches :: boot_caches
  flatTarget :: string
  curMount :: string
  curbootfd :: nat
  blessSpec :: u32
  opts :: u32
  doSanitize :: bool
  cleanOnceDir :: bool
  customSource :: bool
  customDest :: bool
  useOnceDir :: bool
  skipFDECopy :: bool
  onAPM :: bool
  kBootDirR :: string
  kBootDirP :: string
  kBootDirS :: string
  kRecoveryBootDir :: string
  isAPFS :: bool
  largeVolume :: bool
  csfdeprops :: "bytes option"
  dataPartition :: int
  wipeKey :: int
  kcsuffix :: string
  pref_data :: "bytes option \<Rightarrow> string option \<Rightarrow> bytes option"

record update = os +
  changestate :: bootReversions
  doRPS :: bool
  doMisc :: bool
  doBooters :: bool
  dstdir :: string
  efidst :: string
  ofdst :: string

type_synonym 'a step = "(update, 'a) state"

definition kBRBlessFSDefault :: u32 where "kBRBlessFSDefault = 1"
definition kBRBlessFull :: u32 where "kBRBlessFull = 0x11"
definition kBRBlessOnce :: u32 where "kBRBlessOnce = 0x20"
definition kBRBlessRecovery :: u32 where "kBRBlessRecovery = 0x40"
definition kBRUExpectUpToDate :: u32 where "kBRUExpectUpToDate = 8"

abbreviation OLDEXT :: string where "OLDEXT \<equiv> ''.old''"
abbreviation NEWEXT :: string where "NEWEXT \<equiv> ''.new''"
abbreviation SCALE_2xEXT :: string where "SCALE_2xEXT \<equiv> ''_2x''"
abbreviation CONTENTEXT :: string where "CONTENTEXT \<equiv> ''.contentDetails''"
abbreviation kBRRootUUIDFile :: string where "kBRRootUUIDFile \<equiv> ''.root_uuid''"
abbreviation kBRBootOnceDir :: string where "kBRBootOnceDir \<equiv> ''/com.apple.boot.once''"
abbreviation kPrebootKCPrefix :: string where "kPrebootKCPrefix \<equiv> ''/boot''"

definition set_changestate :: "bootReversions \<Rightarrow> unit step" where
  "set_changestate c = modify (changestate_update (\<lambda>_. c))"

text \<open>\<open>rval = bsderr == -1 ? errno : bsderr\<close>\<close>

definition result_or_errno :: "int \<Rightarrow> int step" where
  "result_or_errno bsderr = (if bsderr = - 1 then gets errno else return bsderr)"

text \<open>\<open>makebootpath\<close>, and a path below the mount point.\<close>

definition flat :: "target \<Rightarrow> bool" where
  "flat up \<longleftrightarrow> flatTarget up \<noteq> [] \<or> useOnceDir up"

definition boot_parts :: "target \<Rightarrow> string \<Rightarrow> string list" where
  "boot_parts up rpath =
     [curMount up] @ (if useOnceDir up then [kBRBootOnceDir] else []) @
     (if flat up then [flatTarget up, ''/'', basename rpath] else [rpath])"

definition makebootpath :: "target \<Rightarrow> string \<Rightarrow> string option step" where
  "makebootpath up rpath = build_path (boot_parts up rpath)"

text \<open>The path of one of the special caches.\<close>

definition rps_path :: "target \<Rightarrow> nat \<Rightarrow> string" where
  "rps_path up i = rpspaths (caches up) ! i"

section \<open>Cleaning a helper\<close>

definition create_empty :: "target \<Rightarrow> string \<Rightarrow> int step" where
  "create_empty up path =
     need (sopen (curbootfd up) path (Creating False kCacheFileMode)) (gets errno) (\<lambda>_. return 0)"

definition erase_if_there :: "target \<Rightarrow> string \<Rightarrow> int \<Rightarrow> int step" where
  "erase_if_there up path err = do {
     n \<leftarrow> stat_call path;
     if n = None then return err
     else do {
       r \<leftarrow> sdeepunlink (curbootfd up) path;
       e \<leftarrow> gets errno;
       return (if r = - 1 then e else err)
     }
   }"

definition sanitize_fsevents :: "target \<Rightarrow> string \<Rightarrow> string \<Rightarrow> int \<Rightarrow> int step" where
  "sanitize_fsevents up bloat block err = do {
     n \<leftarrow> stat_call bloat;
     (blockMissing, err) \<leftarrow>
       (if n = None then return (True, err)
        else do {
          b \<leftarrow> stat_call block;
          e \<leftarrow> gets errno;
          if b = None \<and> e = ENOENT
          then do {
            r \<leftarrow> sdeepunlink (curbootfd up) bloat;
            e \<leftarrow> gets errno;
            return (True, if r = - 1 then e else err)
          }
          else return (False, err)
        });
     if \<not> blockMissing then return err
     else do {
       r \<leftarrow> sdeepmkdir (curbootfd up) bloat kCacheDirMode;
       e \<leftarrow> gets errno;
       r2 \<leftarrow> create_empty up block;
       return (if r2 \<noteq> 0 then r2 else if r = - 1 then e else err)
     }
   }"

definition sanitizeBoot :: "target \<Rightarrow> int step" where
  "sanitizeBoot up =
     (if largeVolume up then return 0
      else do {
        own \<leftarrow> simple_call ChmodCall;
        e \<leftarrow> gets errno;
        let err = (if own = - 1 then e else 0) in
        need (makebootpath up ''/.MobileBackups'') (return err) (\<lambda>p. do {
        err \<leftarrow> erase_if_there up p err;
        need (makebootpath up ''/.com.apple.NetBootX/shadowfile'') (return err) (\<lambda>p. do {
        err \<leftarrow> erase_if_there up p err;
        need (makebootpath up ''/.metadata_never_index'') (return err) (\<lambda>p. do {
        b \<leftarrow> stat_call p;
        e \<leftarrow> gets errno;
        r \<leftarrow> (if b = None \<and> e = ENOENT then create_empty up p else return 0);
        let err = (if r \<noteq> 0 then r else err) in
        need (makebootpath up ''/.Spotlight-V100'') (return err) (\<lambda>p. do {
        err \<leftarrow> erase_if_there up p err;
        need (makebootpath up ''/.fseventsd'') (return err) (\<lambda>bloat.
        need (makebootpath up ''/.fseventsd/no_log'') (return err) (\<lambda>block.
          sanitize_fsevents up bloat block err))
        })})})})
      })"

text \<open>The taint of a helper is at its top.\<close>

abbreviation taint_path :: "target \<Rightarrow> string" where "taint_path up \<equiv> taint_file (curMount up) []"

text \<open>Whether a file of the source is missing on the helper.\<close>

fun missing_misc :: "target \<Rightarrow> string list \<Rightarrow> bool option step" where
  "missing_misc up [] = return (Some False)"
| "missing_misc up (rp # rps) =
     need (build_path [root (caches up), rp]) (return None) (\<lambda>srcpath.
     need (makebootpath up rp) (return None) (\<lambda>dstpath. do {
       src \<leftarrow> stat_call srcpath;
       if src = None then missing_misc up rps
       else do {
         dst \<leftarrow> stat_call dstpath;
         e \<leftarrow> gets errno;
         if dst = None \<and> e = ENOENT then return (Some True) else missing_misc up rps
       }
     }))"

text \<open>\<open>None\<close> is a path that does not fit, which ends the function.\<close>

definition missing_booter :: "target \<Rightarrow> string \<Rightarrow> bool option step" where
  "missing_booter up rpath =
     (if rpath = [] then return (Some False)
      else need (makebootpath up rpath) (return None) (\<lambda>dstpath. do {
        n \<leftarrow> stat_call dstpath;
        e \<leftarrow> gets errno;
        return (Some (n = None \<and> e = ENOENT))
      }))"

definition checkBootContents :: "target \<Rightarrow> unit step" where
  "checkBootContents up = do {
     tainted \<leftarrow> notBRDefault (curMount up) [];
     if tainted
     then modify (\<lambda>s. s\<lparr>doRPS := True, doBooters := True, doMisc := True\<rparr>)
     else do {
       misc \<leftarrow> gets doMisc;
       need (if misc then return (Some True) else missing_misc up (miscpaths (caches up))) (return ()) (\<lambda>m. do {
         modify (doMisc_update (\<lambda>_. m));
         booters \<leftarrow> gets doBooters;
         if booters then return ()
         else need (missing_booter up (efibooter (caches up))) (return ()) (\<lambda>efi.
           if efi then modify (doBooters_update (\<lambda>_. True))
           else need (missing_booter up (ofbooter (caches up))) (return ()) (\<lambda>ob.
             if ob then modify (doBooters_update (\<lambda>_. True)) else return ()))
       })
     }
   }"

section \<open>Rock, paper, scissors\<close>

definition eraseRPS :: "target \<Rightarrow> string \<Rightarrow> int step" where
  "eraseRPS up toErase = do {
     n \<leftarrow> stat_call toErase;
     e \<leftarrow> gets errno;
     if n = None \<and> e = ENOENT then return 0
     else case erpropcache (caches up) of
       None \<Rightarrow> sdeepunlink (curbootfd up) toErase
     | Some i \<Rightarrow>
         need (build_path [toErase, rps_path up i]) (return (ELAST + 1)) (\<lambda>path.
           check (szerofile (curbootfd up) path) (\<lambda>_. return (ELAST + 1))
             (sdeepunlink (curbootfd up) toErase))
   }"

text \<open>Which of the three is current, given which ones are there; and the previous and the next one.\<close>

datatype rps = Rock | Paper | Scissors

fun rps_pick :: "bool \<Rightarrow> bool \<Rightarrow> bool \<Rightarrow> rps" where
  "rps_pick haveR haveP haveS =
     (if haveR \<and> haveP \<and> haveS then Rock
      else if haveR \<and> haveP then Paper
      else if haveR \<and> haveS then Rock
      else if haveP \<and> haveS then Scissors
      else if haveR then Rock
      else if haveP then Paper
      else if haveS then Scissors
      else Rock)"

fun rps_prev :: "rps \<Rightarrow> rps" where
  "rps_prev Rock = Scissors" | "rps_prev Paper = Rock" | "rps_prev Scissors = Paper"

fun rps_next :: "rps \<Rightarrow> rps" where
  "rps_next Rock = Paper" | "rps_next Paper = Scissors" | "rps_next Scissors = Rock"

fun rps_name :: "target \<Rightarrow> rps \<Rightarrow> string" where
  "rps_name up Rock = kBootDirR up"
| "rps_name up Paper = kBootDirP up"
| "rps_name up Scissors = kBootDirS up"

definition rps_dir :: "target \<Rightarrow> rps \<Rightarrow> string" where
  "rps_dir up x = curMount up @ ''/'' @ rps_name up x"

definition FindRPSDir :: "target \<Rightarrow> (int + string \<times> string \<times> string) step" where
  "FindRPSDir up =
     need (build_path [curMount up, ''/'']) (return (Inl (ELAST + 1))) (\<lambda>_.
     need (build_path [rps_dir up Rock]) (return (Inl (ELAST + 1))) (\<lambda>rpath.
     need (build_path [rps_dir up Paper]) (return (Inl (ELAST + 1))) (\<lambda>ppath.
     need (build_path [rps_dir up Scissors]) (return (Inl (ELAST + 1))) (\<lambda>spath. do {
       r \<leftarrow> stat_call rpath;
       p \<leftarrow> stat_call ppath;
       s \<leftarrow> stat_call spath;
       let cur = rps_pick (r \<noteq> None) (p \<noteq> None) (s \<noteq> None);
       let found = (rps_dir up (rps_prev cur), rps_dir up cur, rps_dir up (rps_next cur));
       if r \<noteq> None \<and> p \<noteq> None \<and> s \<noteq> None
       then check (eraseRPS up (rps_dir up (rps_next cur))) (\<lambda>e. return (Inl e)) (return (Inr found))
       else return (Inr found)
     }))))"

section \<open>Blessing\<close>

definition low32 :: "nat \<Rightarrow> nat" where "low32 n = n mod 2 ^ 32"

text \<open>The system folder and the EFI booter of the volume, both as inode numbers.\<close>

definition sBLSetBootInfo :: "target \<Rightarrow> nat \<times> nat \<Rightarrow> int step" where
  "sBLSetBootInfo up info =
     need (build_path [curMount up, ''/.'']) (return (- 1)) (\<lambda>cpath.
     need (schdirparent (curbootfd up) cpath) (return (- 1)) (\<lambda>_.
       check (simple_call BlessCall) (\<lambda>_. return EINVAL)
         (check (simple_call BlessCall) return
           (check (simple_call BlessCall) return (do {
             change (map_prod id (\<lambda>_. if isAPFS up then info else map_prod low32 low32 info));
             return 0
           })))))"

definition blessRecovery :: "target \<Rightarrow> int step" where
  "blessRecovery up =
     need (build_path [curMount up, ''/'' @ kRecoveryBootDir up]) (return ENAMETOOLONG) (\<lambda>path. do {
       d \<leftarrow> stat_call path;
       case d of
         None \<Rightarrow> gets errno
       | Some d \<Rightarrow>
           need (build_path [path, ''/'', basename (efibooter (caches up))]) (return ENAMETOOLONG) (\<lambda>path. do {
             b \<leftarrow> stat_call path;
             case b of
               None \<Rightarrow> gets errno
             | Some b \<Rightarrow> do {
                 _ \<leftarrow> sBLSetBootInfo up (low32 (inode d), low32 (inode b));
                 check (simple_call SyncCall) (\<lambda>_. gets errno) (return 0)
               }
           })
     })"

definition eraseRPSIfRecoveryBlessed :: "target \<Rightarrow> string \<Rightarrow> unit step" where
  "eraseRPSIfRecoveryBlessed up rpsDir =
     check (blessRecovery up) (\<lambda>_. return ()) (do {
       _ \<leftarrow> eraseRPS up rpsDir;
       modify (doBooters_update (\<lambda>_. True))
     })"

section \<open>Copying what the booter reads\<close>

text \<open>\<open>createBootPrefData\<close>: the property list of the source, when it can be read, with the kernel's
  path for a booter that starts from another directory. The macros that build the source's path leave only
  their own loop when it does not fit, so that a shortened path is opened.\<close>

definition prefs_source :: "target \<Rightarrow> string" where
  "prefs_source up = root (caches up) @ (case bootconfig (caches up) of None \<Rightarrow> [] | Some i \<Rightarrow> rps_path up i)"

definition read_prefs :: "target \<Rightarrow> bytes option step" where
  "read_prefs up =
     need (sopen (cachefd (caches up)) (take (PATH_MAX - 1) (prefs_source up)) ReadOnly) (return None) (\<lambda>fd.
       check (simple_call FstatCall) (\<lambda>_. return None)
         (check (simple_call AllocCall) (\<lambda>_. return None) (do {
           r \<leftarrow> read_at fd 0 (length (contents (snd fd)));
           return (if fst r = int (length (contents (snd fd))) then Some (snd r) else None)
         })))"

definition kernel_key :: "target \<Rightarrow> string option step" where
  "kernel_key up =
     build_path ((if useOnceDir up then [kBRBootOnceDir] else []) @
       [flatTarget up, ''/'',
        basename
          (if prefer_fileset (caches up) \<and> fileset_bootkc (caches up) \<noteq> None
           then rps_path up (the (fileset_bootkc (caches up)))
           else if readonly_kext_boot_cache_file (caches up) \<noteq> None
           then rps_path up (the (readonly_kext_boot_cache_file (caches up)))
           else rps_path up (the (kext_boot_cache_file (caches up))))])"

definition createBootPrefData :: "target \<Rightarrow> bytes option step" where
  "createBootPrefData up = do {
     prefs \<leftarrow> read_prefs up;
     set_errno 0;
     if flat up
     then need (kernel_key up) (return None) (\<lambda>kpath. return (pref_data up prefs (Some kpath)))
     else return (pref_data up prefs None)
   }"

definition writeBootPrefs :: "target \<Rightarrow> string \<Rightarrow> int step" where
  "writeBootPrefs up dstpath =
     need (createBootPrefData up) (return ENOMEM) (\<lambda>bpdata.
       if length (dirname dstpath) \<ge> PATH_MAX then return EOVERFLOW
       else check (sdeepmkdir (curbootfd up) (dirname dstpath) kCacheDirMode) result_or_errno (do {
         _ \<leftarrow> sunlink (curbootfd up) dstpath;
         need (sopen (curbootfd up) dstpath (Creating False kCacheFileMode)) (gets errno) (\<lambda>fd. do {
           n \<leftarrow> write_at fd 0 bpdata;
           if n \<noteq> int (length bpdata) then gets errno else return 0
         })
       }))"

text \<open>\<open>writeCSFDEProps\<close> of src/bootcaches.c, with the function that writes to a descriptor.\<close>

definition writeCSFDEProps :: "target \<Rightarrow> bytes \<Rightarrow> string \<Rightarrow> int step" where
  "writeCSFDEProps up ectx dstpath =
     (if wipeKey up \<noteq> 0 then return (wipeKey up)
      else do {
        z \<leftarrow> szerofile (curbootfd up) dstpath;
        _ \<leftarrow> (if z \<noteq> 0 then return 0 else sunlink (curbootfd up) dstpath);
        if length (dirname dstpath) \<ge> PATH_MAX then return EOVERFLOW
        else check (sdeepmkdir (curbootfd up) (dirname dstpath) kCacheDirMode) result_or_errno
          (need (sopen (curbootfd up) dstpath (Creating False kCacheFileMode)) (gets errno) (\<lambda>erfd. do {
             n \<leftarrow> write_at erfd 0 ectx;
             return (if n = int (length ectx) then 0 else ELAST + 1)
           }))
      })"

definition writeFDEPropsToHelper :: "target \<Rightarrow> string \<Rightarrow> int step" where
  "writeFDEPropsToHelper up dstpath =
     (if onAPM up then return EINVAL
      else if dataPartition up \<noteq> 0 then return (dataPartition up)
      else case csfdeprops up of
        None \<Rightarrow> return (ELAST + 1)
      | Some ectx \<Rightarrow> writeCSFDEProps up ectx dstpath)"

definition has_suffix :: "string \<Rightarrow> string \<Rightarrow> bool" where
  "has_suffix s w \<longleftrightarrow> length w \<le> length s \<and> drop (length s - length w) s = w"

text \<open>Where a kernel cache goes, and where an item of \<open>rpspaths\<close> goes.\<close>

definition kernel_parts :: "target \<Rightarrow> string \<Rightarrow> string \<Rightarrow> string list" where
  "kernel_parts up dst rpath =
     (if flat up then [dst, ''/'', basename rpath]
      else if prefer_fileset (caches up) then [dst, kPrebootKCPrefix, rpath]
      else [dst, rpath])"

definition rps_parts :: "target \<Rightarrow> string \<Rightarrow> nat \<Rightarrow> string list" where
  "rps_parts up dst i =
     (if flat up \<and> efidefrsrcs (caches up) \<noteq> Some i \<and> efiloccache (caches up) \<noteq> Some i
      then [dst, ''/'', basename (rps_path up i)]
      else if prefer_fileset (caches up) then [dst, kPrebootKCPrefix, rps_path up i]
      else [dst, rps_path up i])"

text \<open>The kernel that matches the boot argument. The loops below yield \<open>Some rval\<close> where the code goes to
  \<open>finish\<close> with that result, which may be 0, and \<open>None\<close> where it goes on.\<close>

fun copy_kernels :: "target \<Rightarrow> string \<Rightarrow> string list \<Rightarrow> bool \<Rightarrow> (int option \<times> bool) step" where
  "copy_kernels up dst [] copied = return (None, copied)"
| "copy_kernels up dst (rp # rps) copied =
     (if \<not> has_suffix rp (kcsuffix up) then copy_kernels up dst rps copied
      else
        need (build_path [root (caches up), rp]) (return (Some (ELAST + 1), copied)) (\<lambda>srcpath.
        need (build_path (kernel_parts up dst rp)) (return (Some (ELAST + 1), copied)) (\<lambda>dstpath.
          check (scopyitem (cachefd (caches up)) srcpath (curbootfd up) dstpath)
            (\<lambda>bsderr. do { r \<leftarrow> result_or_errno bsderr; return (Some r, copied) })
            (copy_kernels up dst rps True))))"

definition skip_kernel :: "target \<Rightarrow> bool \<Rightarrow> nat \<Rightarrow> bool" where
  "skip_kernel up copiedPrefKernel i \<longleftrightarrow>
     copiedPrefKernel \<and>
     (readonly_kext_boot_cache_file (caches up) = Some i \<or>
      readonly_kext_boot_cache_file (caches up) = None \<and> kext_boot_cache_file (caches up) = Some i \<or>
      prefer_fileset (caches up) \<and> fileset_bootkc (caches up) = Some i)"

text \<open>\<open>strstr\<close> and \<open>strncpy\<close>: the old name of the boot property list on APM disks.\<close>

fun replace_first :: "string \<Rightarrow> string \<Rightarrow> string \<Rightarrow> string" where
  "replace_first pat new [] = []"
| "replace_first pat new (c # cs) =
     (if take (length pat) (c # cs) = pat then new @ drop (length pat) (c # cs)
      else c # replace_first pat new cs)"

definition apm_name :: "target \<Rightarrow> string \<Rightarrow> string" where
  "apm_name up path =
     (if onAPM up then replace_first ''com.apple.Boot.plist'' ''com.apple.boot.plist'' path else path)"

definition is_plk :: "target \<Rightarrow> nat \<Rightarrow> bool" where
  "is_plk up i \<longleftrightarrow> readonly_kext_boot_cache_file (caches up) = Some i \<or> kext_boot_cache_file (caches up) = Some i"

definition may_be_missing :: "target \<Rightarrow> nat \<Rightarrow> bool" where
  "may_be_missing up i \<longleftrightarrow>
     erpropcache (caches up) = Some i \<or> efiloccache (caches up) = Some i \<or>
     prefer_fileset (caches up) \<and> is_plk up i"

definition fde_item :: "target \<Rightarrow> nat \<Rightarrow> bool" where
  "fde_item up i \<longleftrightarrow>
     erpropcache (caches up) = Some i \<and> csfdeprops up \<noteq> None \<and> \<not> onAPM up \<and> \<not> skipFDECopy up"

text \<open>An error of a helper function ends the loop; so does one of \<open>scopyitem\<close>, unless the item is optional.\<close>

definition finish_if :: "int step \<Rightarrow> int option step" where
  "finish_if m = check m (\<lambda>r. return (Some r)) (return None)"

definition copy_item :: "target \<Rightarrow> string \<Rightarrow> nat \<Rightarrow> int option step" where
  "copy_item up dst i =
     need (build_path [root (caches up), rps_path up i]) (return (Some (ELAST + 1))) (\<lambda>srcpath.
     need (build_path (rps_parts up dst i)) (return (Some (ELAST + 1))) (\<lambda>dstpath.
       if bootconfig (caches up) = Some i then finish_if (writeBootPrefs up (apm_name up dstpath))
       else if fde_item up i then finish_if (writeFDEPropsToHelper up dstpath)
       else check (scopyitem (cachefd (caches up)) srcpath (curbootfd up) dstpath)
              (\<lambda>bsderr. do {
                 r \<leftarrow> result_or_errno bsderr;
                 return (if r = ENOENT \<and> may_be_missing up i then None else Some r)
               })
              (return None)))"

fun copy_items :: "target \<Rightarrow> string \<Rightarrow> bool \<Rightarrow> nat list \<Rightarrow> int option step" where
  "copy_items up dst copiedPrefKernel [] = return None"
| "copy_items up dst copiedPrefKernel (i # is) =
     (if skip_kernel up copiedPrefKernel i then copy_items up dst copiedPrefKernel is
      else do {
        r \<leftarrow> copy_item up dst i;
        case r of Some e \<Rightarrow> return (Some e) | None \<Rightarrow> copy_items up dst copiedPrefKernel is
      })"

text \<open>The second copy of the encryption context for booters that look for it in the old place.\<close>

definition write_legacy :: "target \<Rightarrow> string \<Rightarrow> int step" where
  "write_legacy up erdir =
     (case erpropcache (caches up) of
        Some er \<Rightarrow>
          (if flat up \<and> \<not> erpropTSOnly (caches up) \<and> \<not> onAPM up \<and> csfdeprops up \<noteq> None \<and> \<not> skipFDECopy up
           then need (build_path [erdir, rps_path up er]) (return (ELAST + 1)) (\<lambda>dstpath.
             check (writeFDEPropsToHelper up dstpath) return
               (case efidefrsrcs (caches up) of
                  None \<Rightarrow> return 0
                | Some rs \<Rightarrow>
                    need (build_path [root (caches up), rps_path up rs]) (return (ELAST + 1)) (\<lambda>srcpath.
                    need (build_path [erdir, rps_path up rs]) (return (ELAST + 1)) (\<lambda>dstpath.
                      check (scopyitem (cachefd (caches up)) srcpath (curbootfd up) dstpath) result_or_errno
                        (return 0)))))
           else return 0)
      | None \<Rightarrow> return 0)"

text \<open>Filling \<open>up->dstdir\<close>, once it is chosen.\<close>

definition fill_dstdir :: "target \<Rightarrow> string \<Rightarrow> string \<Rightarrow> int step" where
  "fill_dstdir up dst erdir =
     check (eraseRPS up dst) return
       (check (sdeepmkdir (curbootfd up) dst kCacheDirMode) result_or_errno (do {
          (k, copied) \<leftarrow> copy_kernels up dst (extraKernelCachePaths (caches up)) False;
          case k of
            Some e \<Rightarrow> return e
          | None \<Rightarrow> do {
              r \<leftarrow> copy_items up dst copied [0..<length (rpspaths (caches up))];
              case r of Some e \<Rightarrow> return e | None \<Rightarrow> write_legacy up erdir
            }
        }))"

definition ucopyRPS :: "target \<Rightarrow> int step" where
  "ucopyRPS up = do {
     found \<leftarrow> FindRPSDir up;
     case found of
       Inl e \<Rightarrow> return e
     | Inr (prevRPS, curRPS, discard) \<Rightarrow>
         if flat up
         then need (build_path ([curMount up] @ (if useOnceDir up then [kBRBootOnceDir] else []) @ [flatTarget up]))
                (return (ELAST + 1)) (\<lambda>dst. do {
                modify (dstdir_update (\<lambda>_. dst));
                if blessSpec up AND kBRBlessOnce = 0 \<and> blessSpec up AND kBRBlessRecovery \<noteq> 0
                then do {
                  eraseRPSIfRecoveryBlessed up curRPS;
                  fill_dstdir up dst prevRPS
                }
                else fill_dstdir up dst curRPS
              })
         else do {
           modify (dstdir_update (\<lambda>_. prevRPS));
           eraseRPSIfRecoveryBlessed up curRPS;
           fill_dstdir up prevRPS prevRPS
         }
   }"

section \<open>Files read before the booter, and labels\<close>

fun copy_misc :: "target \<Rightarrow> string list \<Rightarrow> nat \<Rightarrow> nat option step" where
  "copy_misc up [] n = return (Some n)"
| "copy_misc up (rp # rps) n =
     need (build_path [root (caches up), rp]) (return None) (\<lambda>srcpath.
     need (build_path (boot_parts up rp @ [NEWEXT])) (return None) (\<lambda>dstpath. do {
       src \<leftarrow> stat_call srcpath;
       e \<leftarrow> gets errno;
       if src \<noteq> None
       then check (scopyitem (cachefd (caches up)) srcpath (curbootfd up) dstpath)
              (\<lambda>_. copy_misc up rps n) (copy_misc up rps (Suc n))
       else if e \<noteq> ENOENT then copy_misc up rps n
       else copy_misc up rps (Suc n)
     }))"

definition ucopyMisc :: "target \<Rightarrow> int step" where
  "ucopyMisc up = do {
     n \<leftarrow> copy_misc up (miscpaths (caches up)) 0;
     if n = Some (length (miscpaths (caches up))) then return 0 else gets errno
   }"

definition moveLabels :: "target \<Rightarrow> int step" where
  "moveLabels up =
     need (makebootpath up (label (caches up))) (return (- 1)) (\<lambda>path. do {
       n \<leftarrow> stat_call path;
       if n = None then do { set_changestate noLabel; return 0 }
       else
         need (build_path [path, NEWEXT]) (return (- 1)) (\<lambda>newpath.
         check (srename (curbootfd up) path newpath) return
           (need (sopen (curbootfd up) newpath ForWriting) (return 0) (\<lambda>fd.
             check (simple_call XattrCall) (\<lambda>_. return 0) (do { set_changestate noLabel; return 0 }))))
     })"

text \<open>\<open>RECERR\<close>: the first error and the \<open>errno\<close> that went with it.\<close>

definition RECERR :: "int \<Rightarrow> int \<times> int \<Rightarrow> (int \<times> int) step" where
  "RECERR opres first = do {
     e \<leftarrow> gets errno;
     return (if opres = - 1 \<and> e = ENOENT then first
             else if opres \<noteq> 0 \<and> fst first = 0 then (opres, if opres = - 1 then e else snd first)
             else first)
   }"

definition nuke_label :: "target \<Rightarrow> string \<Rightarrow> int \<times> int \<Rightarrow> (int \<times> int) step" where
  "nuke_label up path first = do {
     n \<leftarrow> stat_call path;
     if n \<noteq> None then do { r \<leftarrow> sunlink (curbootfd up) path; RECERR r first }
     else do { set_errno 0; return first }
   }"

definition label_parts :: "target \<Rightarrow> string \<Rightarrow> string list" where
  "label_parts up ext =
     [curMount up] @ (if useOnceDir up then [kBRBootOnceDir] else []) @ [label (caches up), ext]"

definition nukeBRLabels :: "target \<Rightarrow> int step" where
  "nukeBRLabels up =
     need (makebootpath up (label (caches up))) (return EOVERFLOW) (\<lambda>p. do {
     first \<leftarrow> nuke_label up p (0, 0);
     need (build_path (label_parts up SCALE_2xEXT)) (return EOVERFLOW) (\<lambda>p. do {
     first \<leftarrow> nuke_label up p first;
     need (build_path (label_parts up CONTENTEXT)) (return EOVERFLOW) (\<lambda>p. do {
     first \<leftarrow> nuke_label up p first;
     need (makebootpath up (label (caches up))) (return EOVERFLOW) (\<lambda>p.
     need (build_path [dirname p, ''/'' @ kBRRootUUIDFile]) (return EOVERFLOW) (\<lambda>p. do {
     first \<leftarrow> nuke_label up p first;
     set_changestate noLabel;
     (if fst first = - 1 then set_errno (snd first) else return ());
     return (fst first)
     }))})})})"

fun rename_misc :: "target \<Rightarrow> string list \<Rightarrow> nat \<Rightarrow> nat step" where
  "rename_misc up [] n = return n"
| "rename_misc up (rp # rps) n =
     (let path = concat (boot_parts up rp) in
      if length (path @ NEWEXT) \<ge> PATH_MAX then rename_misc up rps n
      else do {
        new \<leftarrow> stat_call (path @ NEWEXT);
        if new = None then rename_misc up rps (Suc n)
        else check (srename (curbootfd up) (path @ NEWEXT) path) (\<lambda>_. rename_misc up rps n)
               (rename_misc up rps (Suc n))
      })"

definition activateMisc :: "target \<Rightarrow> int step" where
  "activateMisc up = do {
     misc \<leftarrow> gets doMisc;
     n \<leftarrow> (if misc then rename_misc up (miscpaths (caches up)) 0 else return 0);
     let i = (if misc then length (miscpaths (caches up)) else 0);
     need (makebootpath up (label (caches up))) (return (ELAST + 1)) (\<lambda>path.
     need (build_path [path, NEWEXT]) (return (ELAST + 1)) (\<lambda>newpath. do {
       _ \<leftarrow> srename (curbootfd up) newpath path;
       there \<leftarrow> stat_call path;
       if there = None then return (if i \<noteq> n then 1 else 0)
       else
         need (sopen (curbootfd up) path ForWriting) (return (ELAST + 1)) (\<lambda>fd.
           check (simple_call XattrCall) (\<lambda>_. return (ELAST + 1)) (return (if i \<noteq> n then 1 else 0)))
     }))
   }"

section \<open>Booters\<close>

text \<open>A booter: the one in place is kept under its old name, the new one is copied in.\<close>

definition ucopy_booter :: "target \<Rightarrow> string \<Rightarrow> (string \<Rightarrow> unit step) \<Rightarrow> int step" where
  "ucopy_booter up rpath set_dst =
     need (build_path [root (caches up), rpath]) (return (ELAST + 1)) (\<lambda>srcpath.
     need (makebootpath up rpath) (return (ELAST + 1)) (\<lambda>dst. do {
       set_dst dst;
       need (build_path [dst, OLDEXT]) (return (ELAST + 1)) (\<lambda>oldpath. do {
         _ \<leftarrow> sunlink (curbootfd up) oldpath;
         r \<leftarrow> srename (curbootfd up) dst oldpath;
         e \<leftarrow> gets errno;
         if r \<noteq> 0 \<and> e \<noteq> ENOENT then return (ELAST + 1)
         else scopyitem (cachefd (caches up)) srcpath (curbootfd up) dst
       })
     }))"

definition ucopyBooters :: "target \<Rightarrow> int step" where
  "ucopyBooters up = do {
     set_changestate copyingOFBooter;
     check (if ofbooter (caches up) = [] then return 0
            else ucopy_booter up (ofbooter (caches up)) (\<lambda>d. modify (ofdst_update (\<lambda>_. d))))
       result_or_errno (do {
         set_changestate copyingEFIBooter;
         check (if efibooter (caches up) = [] then return 0
                else ucopy_booter up (efibooter (caches up)) (\<lambda>d. modify (efidst_update (\<lambda>_. d))))
           (\<lambda>r. if opts up AND 4 \<noteq> 0 then return (ELAST + 1) else result_or_errno r)
           (do { set_changestate copiedBooters; return 0 })
       })
   }"

text \<open>The inode numbers to bless: of the folder of a booter and of the booter itself.\<close>

definition folder_inode :: "target \<Rightarrow> string \<Rightarrow> (int + nat) step" where
  "folder_inode up booter =
     need (build_path [dirname booter]) (return (Inl (ELAST + 1))) (\<lambda>parent.
     need (sopen (curbootfd up) parent ReadOnly) (do { e \<leftarrow> gets errno; return (Inl e) }) (\<lambda>fd.
       check (simple_call FstatCall) (\<lambda>_. do { e \<leftarrow> gets errno; return (Inl e) }) (return (Inr (inode (snd fd))))))"

definition activate_of :: "target \<Rightarrow> (int + nat) step" where
  "activate_of up =
     (if ofbooter (caches up) = [] then return (Inr 0)
      else do {
        ofd \<leftarrow> gets ofdst;
        need (sopen (curbootfd up) ofd ReadOnly) (do { e \<leftarrow> gets errno; return (Inl e) }) (\<lambda>fd.
          check (simple_call XattrCall) (\<lambda>_. do { e \<leftarrow> gets errno; return (Inl e) }) (folder_inode up ofd))
      })"

definition activate_efi :: "target \<Rightarrow> nat \<Rightarrow> (int + nat \<times> nat) step" where
  "activate_efi up folder =
     (if efibooter (caches up) = [] then return (Inr (folder, 0))
      else do {
        efd \<leftarrow> gets efidst;
        need (sopen (curbootfd up) efd ReadOnly) (do { e \<leftarrow> gets errno; return (Inl e) }) (\<lambda>fd.
          check (simple_call FstatCall) (\<lambda>_. do { e \<leftarrow> gets errno; return (Inl e) })
            (if folder \<noteq> 0 then return (Inr (folder, inode (snd fd)))
             else do {
               f \<leftarrow> folder_inode up efd;
               return (case f of Inl e \<Rightarrow> Inl e | Inr d \<Rightarrow> Inr (d, inode (snd fd)))
             }))
      })"

text \<open>The variables of the firmware, which the last two calls set, are not part of the state.\<close>

definition bless_as_asked :: "target \<Rightarrow> nat \<times> nat \<Rightarrow> int step" where
  "bless_as_asked up vinfo =
     check (if blessSpec up AND kBRBlessFSDefault \<noteq> 0 then sBLSetBootInfo up vinfo else return 0) return
       (check (if blessSpec up = kBRBlessFull then simple_call BlessCall else return 0) (\<lambda>_. return ENODEV)
         (check (if blessSpec up AND kBRBlessOnce \<noteq> 0 then simple_call BlessCall else return 0)
           (\<lambda>_. return ENODEV) (return 0)))"

definition activateBooters :: "target \<Rightarrow> int step" where
  "activateBooters up =
     check (simple_call SyncCall) return (do {
       set_changestate activatingOFBooter;
       folder \<leftarrow> activate_of up;
       case folder of
         Inl e \<Rightarrow> return e
       | Inr folder \<Rightarrow> do {
           set_changestate activatingEFIBooter;
           info \<leftarrow> activate_efi up folder;
           case info of
             Inl e \<Rightarrow> return e
           | Inr info \<Rightarrow>
               check (bless_as_asked up info) return (do { set_changestate activatedBooters; return 0 })
         }
     })"

section \<open>Committing and cleaning up\<close>

definition activateRPS :: "target \<Rightarrow> int step" where
  "activateRPS up =
     check (if flat up then return 0
            else do {
              found \<leftarrow> FindRPSDir up;
              dst \<leftarrow> gets dstdir;
              case found of
                Inl e \<Rightarrow> return (ELAST + 1)
              | Inr (prevRPS, curRPS, nextRPS) \<Rightarrow>
                  if curRPS = dst then return 0 else srename (curbootfd up) prevRPS nextRPS
            })
       (\<lambda>_. return (ELAST + 1))
       (check (simple_call SyncCall) (\<lambda>_. return (ELAST + 1)) (return 0))"

definition nuke_old_booter :: "target \<Rightarrow> string \<Rightarrow> int \<Rightarrow> int option step" where
  "nuke_old_booter up rpath rval =
     (if rpath = [] then return (Some rval)
      else need (build_path (boot_parts up rpath @ [OLDEXT])) (return None) (\<lambda>delpath. do {
        r \<leftarrow> sunlink (curbootfd up) delpath;
        e \<leftarrow> gets errno;
        return (Some (if r \<noteq> 0 \<and> e \<noteq> ENOENT then - 1 else rval))
      }))"

definition nukeFallbacks :: "target \<Rightarrow> int step" where
  "nukeFallbacks up =
     (if curMount up = [] then return 0
      else do {
        booters \<leftarrow> gets doBooters;
        need (if booters then nuke_old_booter up (ofbooter (caches up)) 0 else return (Some 0)) (return 0) (\<lambda>rval.
        need (if booters then nuke_old_booter up (efibooter (caches up)) rval else return (Some rval)) (return rval) (\<lambda>rval. do {
          rps \<leftarrow> gets doRPS;
          if \<not> rps then return rval
          else do {
            found \<leftarrow> FindRPSDir up;
            case found of
              Inl e \<Rightarrow> return rval
            | Inr (prevRPS, curRPS, nextRPS) \<Rightarrow> do {
                r \<leftarrow> eraseRPS up prevRPS;
                return (if r \<noteq> 0 then (if rval = 0 then r else - 1) else rval)
              }
          }
        }))
      })"

text \<open>Putting a booter back; the result says whether something went wrong.\<close>

definition restore_booter :: "target \<Rightarrow> string \<Rightarrow> bool option step" where
  "restore_booter up rpath =
     (if rpath = [] then return (Some False)
      else
        need (makebootpath up rpath) (return None) (\<lambda>path.
        need (build_path [path, OLDEXT]) (return None) (\<lambda>oldpath. do {
          old \<leftarrow> stat_call oldpath;
          if old = None then return (Some False)
          else do {
            _ \<leftarrow> sunlink (curbootfd up) path;
            r \<leftarrow> srename (curbootfd up) oldpath path;
            return (Some (r \<noteq> 0))
          }
        })))"

definition append_old :: "(update \<Rightarrow> string) \<Rightarrow> ((string \<Rightarrow> string) \<Rightarrow> update \<Rightarrow> update) \<Rightarrow> string option step" where
  "append_old get put = do {
     d \<leftarrow> gets get;
     r \<leftarrow> build_path [d, OLDEXT];
     modify (put (\<lambda>_. take (PATH_MAX - 1) (d @ OLDEXT)));
     return r
   }"

definition reactivate_old :: "target \<Rightarrow> bool option step" where
  "reactivate_old up =
     need (append_old ofdst ofdst_update) (return None) (\<lambda>_.
     need (append_old efidst efidst_update) (return None) (\<lambda>_. do {
       r \<leftarrow> activateBooters up;
       return (Some (r \<noteq> 0))
     }))"

definition restore_label :: "target \<Rightarrow> bool step" where
  "restore_label up = do {
     misc \<leftarrow> gets doMisc;
     modify (doMisc_update (\<lambda>_. False));
     r \<leftarrow> activateMisc up;
     modify (doMisc_update (\<lambda>_. misc));
     return (r \<noteq> 0)
   }"

text \<open>\<open>revertState\<close>: each state falls through to what has to be undone before it.\<close>

definition revertState :: "target \<Rightarrow> bool step" where
  "revertState up = do {
     c \<leftarrow> gets changestate;
     need (if c = activatedBooters then reactivate_old up else return (Some False)) (return False) (\<lambda>bad.
     need (if c \<in> {activatedBooters, activatingEFIBooter, activatingOFBooter, copiedBooters, copyingEFIBooter}
           then restore_booter up (efibooter (caches up)) else return (Some False)) (return bad) (\<lambda>b.
     let bad = (bad \<or> b) in
     need (if c \<noteq> nothingSerious \<and> c \<noteq> noLabel
           then restore_booter up (ofbooter (caches up)) else return (Some False)) (return bad) (\<lambda>b.
       if c = nothingSerious then return (bad \<or> b)
       else do { l \<leftarrow> restore_label up; return (bad \<or> b \<or> l) })))
   }"

section \<open>One helper\<close>

text \<open>The steps of the loop body up to \<open>bootfail\<close>, for a mounted helper.\<close>

definition update_contents :: "target \<Rightarrow> int step" where
  "update_contents up = do {
     rps \<leftarrow> gets doRPS;
     check (if rps then ucopyRPS up else return 0) return (do {
       misc \<leftarrow> gets doMisc;
       (if misc then do { _ \<leftarrow> ucopyMisc up; return () } else return ());
       check (if opts up AND kBRUExpectUpToDate \<noteq> 0 then moveLabels up else nukeBRLabels up) return (do {
         booters \<leftarrow> gets doBooters;
         check (if booters then ucopyBooters up else return 0) return
           (check (if booters then activateBooters up else return 0) return (do {
              rps \<leftarrow> gets doRPS;
              check (if rps then activateRPS up else return 0) return
                (check (activateMisc up) return (do {
                   (if \<not> customSource up \<and> \<not> customDest up
                    then do { _ \<leftarrow> markNotBRDefault (curbootfd up) (curMount up) [] False; return () } else return ());
                   set_changestate nothingSerious;
                   return 0
                 }))
            }))
       })
     })
   }"

definition update_helper :: "target \<Rightarrow> int step" where
  "update_helper up = do {
     set_changestate nothingSerious;
     (if doSanitize up then do { _ \<leftarrow> sanitizeBoot up; return () } else return ());
     (if cleanOnceDir up \<and> length (curMount up @ kBRBootOnceDir) < PATH_MAX
      then do { _ \<leftarrow> erase_if_there up (curMount up @ kBRBootOnceDir) 0; return () } else return ());
     checkBootContents up;
     (if customSource up \<and> \<not> customDest up then do { _ \<leftarrow> markNotBRDefault (curbootfd up) (curMount up) [] True; return () } else return ());
     r \<leftarrow> update_contents up;
     _ \<leftarrow> revertState up;
     _ \<leftarrow> nukeFallbacks up;
     return r
   }"

text \<open>All helpers: what mounting each one returned, and what it was mounted as.\<close>

fun update_all :: "(int \<times> target) list \<Rightarrow> int \<Rightarrow> nat \<Rightarrow> (int \<times> nat) step" where
  "update_all [] result bootupdates = return (result, bootupdates)"
| "update_all ((errnum, up) # ups) result bootupdates =
     (if errnum \<noteq> 0
      then do {
        set_changestate nothingSerious;
        _ \<leftarrow> revertState up;
        _ \<leftarrow> nukeFallbacks up;
        update_all ups errnum bootupdates
      }
      else do {
        r \<leftarrow> update_helper up;
        update_all ups r (if r = 0 then Suc bootupdates else bootupdates)
      })"

definition updateBootHelpers :: "bool \<Rightarrow> (int \<times> target) list \<Rightarrow> int step" where
  "updateBootHelpers helpersOptional ups =
     check (simple_call FstatCall) return (do {
       (result, bootupdates) \<leftarrow> update_all ups 0 0;
       return (if bootupdates \<noteq> length ups \<and> \<not> helpersOptional \<and> result = 0 then ELAST + 1 else result)
     })"

text \<open>\<open>BREraseBootFiles\<close>, for a mounted helper. \<open>uninit\<close> is the value of \<open>firstErrno\<close>, which is not
  initialised.\<close>

fun erase_misc :: "target \<Rightarrow> string list \<Rightarrow> int \<times> int \<Rightarrow> (int \<times> int) step" where
  "erase_misc up [] first = return first"
| "erase_misc up (rp # rps) first =
     (if length (curMount up @ rp) > PATH_MAX then erase_misc up rps first
      else do {
        r \<leftarrow> sdeepunlink (curbootfd up) (take (PATH_MAX - 1) (curMount up @ rp));
        first \<leftarrow> RECERR r first;
        erase_misc up rps first
      })"

definition erase_booter :: "target \<Rightarrow> string \<Rightarrow> int \<times> int \<Rightarrow> (int \<times> int) option step" where
  "erase_booter up rpath first =
     (if rpath = [] then return (Some first)
      else need (build_path [curMount up, rpath]) (return None) (\<lambda>path. do {
        r \<leftarrow> sunlink (curbootfd up) path;
        first \<leftarrow> RECERR r first;
        return (Some first)
      }))"

definition erase_all_rps :: "target \<Rightarrow> int \<times> int \<Rightarrow> (int \<times> int) step" where
  "erase_all_rps up first = do {
     found \<leftarrow> FindRPSDir up;
     case found of
       Inl e \<Rightarrow> RECERR e first
     | Inr (prevRPS, curRPS, nextRPS) \<Rightarrow> do {
         r \<leftarrow> eraseRPS up prevRPS;
         first \<leftarrow> RECERR r first;
         r \<leftarrow> eraseRPS up curRPS;
         first \<leftarrow> RECERR r first;
         r \<leftarrow> eraseRPS up nextRPS;
         RECERR r first
       }
   }"

definition BREraseBootFiles :: "target \<Rightarrow> int \<Rightarrow> int step" where
  "BREraseBootFiles up uninit = do {
     b \<leftarrow> blessRecovery up;
     u \<leftarrow> (if b \<noteq> 0 then sBLSetBootInfo up (0, 0) else return 0);
     l \<leftarrow> nukeBRLabels up;
     first \<leftarrow> RECERR l (u, uninit);
     need (erase_booter up (ofbooter (caches up)) first) (return (ELAST + 1)) (\<lambda>first.
     need (erase_booter up (efibooter (caches up)) first) (return (ELAST + 1)) (\<lambda>first. do {
       first \<leftarrow> erase_all_rps up first;
       first \<leftarrow> erase_misc up (miscpaths (caches up)) first;
       need (build_path [curMount up, kBRBootOnceDir]) (return (ELAST + 1)) (\<lambda>path. do {
         once \<leftarrow> stat_call path;
         first \<leftarrow> (if once \<noteq> None then do { r \<leftarrow> sdeepunlink (curbootfd up) path; RECERR r first } else return first);
         return (if fst first = - 1 then snd first else fst first)
       })
     }))
   }"

end
