(* ===== verification/SafeFrame.thy ===== *)
theory SafeFrame
  imports SafeCalls
begin

text \<open>
  What the calls of src/safecalls.c can touch. A relation between states that is reflexive and
  transitive holds across a program when it holds across each of its calls; the locale
  \<open>io_relation\<close> has the rules for the control flow. \<open>moves F\<close> is such a relation: every state the disk goes
  through differs from the first one only in the places that \<open>F\<close> names, for a world that stays
  the same.
\<close>

named_theorems touches \<open>what the calls leave alone\<close>

section \<open>Relations across programs\<close>

locale io_relation =
  fixes R :: "'s \<Rightarrow> 's \<Rightarrow> bool"
  assumes refl: "R s s" and trans: "R s t \<Longrightarrow> R t u \<Longrightarrow> R s u"
begin

lemma io_return: "state_io_rel R (return x)"
  by (simp add: state_io_rel_def refl)

lemma io_gets: "state_io_rel R (gets f)"
  by (simp add: state_io_rel_def refl gets_def)

lemma io_bind:
  "state_io_rel R m \<Longrightarrow> (\<And>x. state_io_rel R (f x)) \<Longrightarrow> state_io_rel R (State_Monad.bind m f)"
  unfolding state_io_rel_def by (auto split: prod.split) (metis trans snd_conv)

lemma io_check:
  "state_io_rel R m \<Longrightarrow> (\<And>r. state_io_rel R (fin r)) \<Longrightarrow> state_io_rel R k \<Longrightarrow>
    state_io_rel R (check m fin k)"
  unfolding check_def by (rule io_bind) auto

lemma io_need:
  "state_io_rel R m \<Longrightarrow> state_io_rel R fin \<Longrightarrow> (\<And>x. state_io_rel R (k x)) \<Longrightarrow>
    state_io_rel R (need m fin k)"
  unfolding need_def by (rule io_bind) (auto split: option.split)

lemma io_modify: "(\<And>s. R s (f s)) \<Longrightarrow> state_io_rel R (modify f)"
  by (simp add: state_io_rel_def modify_def)

end

section \<open>Places\<close>

datatype foot = At "string list" | Bless

definition touched :: "foot set \<Rightarrow> string list \<Rightarrow> bool" where
  "touched F q \<longleftrightarrow> (\<exists>p. At p \<in> F \<and> (prefix p q \<or> prefix q p))"

definition agree :: "foot set \<Rightarrow> disk \<Rightarrow> disk \<Rightarrow> bool" where
  "agree F d d' \<longleftrightarrow>
     (Bless \<in> F \<or> snd d' = snd d) \<and>
     (\<forall>q. touched F q \<or> node_at (fst d') q = node_at (fst d) q) \<and>
     (\<forall>q. (\<exists>p. At p \<in> F \<and> prefix p q) \<or>
          map_option shallow (node_at (fst d') q) = map_option shallow (node_at (fst d) q))"

lemma agree_refl [simp]: "agree F d d"
  by (simp add: agree_def)

lemma agree_trans: "agree F d e \<Longrightarrow> agree F e f \<Longrightarrow> agree F d f"
  unfolding agree_def by metis

lemma agreeD: "agree F d d' \<Longrightarrow> \<not> touched F q \<Longrightarrow> node_at (fst d') q = node_at (fst d) q"
  by (auto simp: agree_def)

lemma agree_bless: "agree F d d' \<Longrightarrow> Bless \<notin> F \<Longrightarrow> snd d' = snd d"
  by (auto simp: agree_def)

definition covers :: "foot set \<Rightarrow> foot set \<Rightarrow> bool" where
  "covers F G \<longleftrightarrow> (Bless \<in> G \<longrightarrow> Bless \<in> F) \<and> (\<forall>q. At q \<in> G \<longrightarrow> (\<exists>p. At p \<in> F \<and> prefix p q))"

lemma covers_touched: "covers F G \<Longrightarrow> touched G q \<Longrightarrow> touched F q"
  unfolding covers_def touched_def by (metis prefix_order.trans prefix_same_cases)

lemma agree_covers: "covers F G \<Longrightarrow> agree G d d' \<Longrightarrow> agree F d d'"
  unfolding agree_def using covers_touched [of F G]
  by (metis covers_def prefix_order.trans)

lemma covers_subset: "G \<subseteq> F \<Longrightarrow> covers F G"
  unfolding covers_def by (meson prefix_order.order_refl subsetD)

lemma covers_trans: "covers F G \<Longrightarrow> covers G H \<Longrightarrow> covers F H"
  unfolding covers_def by (meson prefix_order.trans)

section \<open>Movements of the disk\<close>

definition dir_at :: "disk \<Rightarrow> string list \<Rightarrow> bool" where
  "dir_at d p \<longleftrightarrow> (\<exists>n. node_at (fst d) p = Some n \<and> is_dir n)"

definition apart :: "foot set \<Rightarrow> string list \<Rightarrow> bool" where
  "apart F M \<longleftrightarrow> (\<forall>p. At p \<in> F \<longrightarrow> \<not> prefix p M)"

text \<open>What a movement is relative to: a directory that is there, and a part of the caller's state, in the
  extension of the record, that is kept.\<close>

type_synonym ('z, 'k) base = "string list \<times> ('z \<Rightarrow> 'k)"

definition moves :: "world \<Rightarrow> ('z, 'k) base \<Rightarrow> foot set \<Rightarrow> 'z os_scheme \<Rightarrow> 'z os_scheme \<Rightarrow> bool" where
  "moves w M F s s' \<longleftrightarrow> (world s = w \<longrightarrow> world s' = w \<and> snd M (os.more s') = snd M (os.more s) \<and>
     (apart F (fst M) \<longrightarrow> dir_at (disk s) (fst M) \<longrightarrow>
       dir_at (disk s') (fst M) \<and> agree F (disk s) (disk s') \<and>
       (\<exists>new. history s' = new @ history s \<and> (\<forall>d \<in> set new. agree F (disk s) d))))"

lemma moves_refl: "moves w M F s s"
  by (simp add: moves_def)

lemma moves_trans:
  assumes "moves w M F s t" "moves w M F t u"
  shows "moves w M F s u"
proof (cases "world s = w \<and> apart F (fst M) \<and> dir_at (disk s) (fst M)")
  case True
  with assms obtain new new' where
    "agree F (disk s) (disk t)" "history t = new @ history s" "\<forall>d \<in> set new. agree F (disk s) d"
    "world u = w" "dir_at (disk u) (fst M)" "agree F (disk t) (disk u)" "history u = new' @ history t"
    "\<forall>d \<in> set new'. agree F (disk t) d" "snd M (os.more u) = snd M (os.more s)"
    unfolding moves_def by metis
  then show ?thesis unfolding moves_def
    by (intro impI conjI exI [of _ "new' @ new"]) (auto simp del: split_paired_All intro: agree_trans)
qed (use assms in \<open>auto simp: moves_def\<close>)

interpretation moves: io_relation "moves w M F" for w M F
  by unfold_locales (rule moves_refl, erule (1) moves_trans)

lemmas moves_flow = moves.io_return moves.io_gets moves.io_bind moves.io_check moves.io_need

text \<open>\<open>within w M F m\<close>: in the world \<open>w\<close>, while the path of \<open>M\<close> is a directory, the program \<open>m\<close> changes
  the disk at no moment anywhere but at the places \<open>F\<close>, and keeps what \<open>M\<close> wants kept.\<close>

abbreviation within :: "world \<Rightarrow> ('z, 'k) base \<Rightarrow> foot set \<Rightarrow> ('z os_scheme, 'a) state \<Rightarrow> bool" where
  "within w M F m \<equiv> state_io_rel (moves w M F) m"

lemma apart_covers: "apart F M \<Longrightarrow> covers F G \<Longrightarrow> apart G M"
  unfolding apart_def covers_def by (meson prefix_order.trans)

lemma moves_covers: "covers F G \<Longrightarrow> moves w M G s s' \<Longrightarrow> moves w M F s s'"
  unfolding moves_def by (meson agree_covers apart_covers)

lemma within_covers: "within w M G m \<Longrightarrow> covers F G \<Longrightarrow> within w M F m"
  unfolding state_io_rel_def by (meson moves_covers)

lemma within_If: "(b \<Longrightarrow> within w M F m) \<Longrightarrow> (\<not> b \<Longrightarrow> within w M F n) \<Longrightarrow> within w M F (if b then m else n)"
  by simp

lemma within_case_option:
  "(x = None \<Longrightarrow> within w M F m) \<Longrightarrow> (\<And>y. x = Some y \<Longrightarrow> within w M F (n y)) \<Longrightarrow>
    within w M F (case x of None \<Rightarrow> m | Some y \<Rightarrow> n y)"
  by (cases x) auto

lemma within_case_node:
  "(\<And>i m b. x = File i m b \<Longrightarrow> within w M F (f i m b)) \<Longrightarrow>
    (\<And>i m es. x = Dir i m es \<Longrightarrow> within w M F (g i m es)) \<Longrightarrow>
    within w M F (case x of File i m b \<Rightarrow> f i m b | Dir i m es \<Rightarrow> g i m es)"
  by (cases x) auto

lemma within_case_flags:
  "(f = ReadOnly \<Longrightarrow> within w M F a) \<Longrightarrow> (f = ForWriting \<Longrightarrow> within w M F b) \<Longrightarrow>
    (\<And>x m. f = Creating x m \<Longrightarrow> within w M F (c x m)) \<Longrightarrow>
    within w M F (case f of ReadOnly \<Rightarrow> a | ForWriting \<Rightarrow> b | Creating x m \<Rightarrow> c x m)"
  by (cases f) auto

lemma within_case_prod:
  "(\<And>a b. x = (a, b) \<Longrightarrow> within w M F (f a b)) \<Longrightarrow> within w M F (case x of (a, b) \<Rightarrow> f a b)"
  by (cases x) auto

lemma within_case_sum:
  "(\<And>a. x = Inl a \<Longrightarrow> within w M F (f a)) \<Longrightarrow> (\<And>a. x = Inr a \<Longrightarrow> within w M F (g a)) \<Longrightarrow>
    within w M F (case x of Inl a \<Rightarrow> f a | Inr a \<Rightarrow> g a)"
  by (cases x) auto

lemmas within_cases = within_If within_case_option within_case_node within_case_flags within_case_prod
  within_case_sum

lemma within_modify:
  "(\<And>s. world (f s) = world s \<and> disk (f s) = disk s \<and> history (f s) = history s \<and>
      snd M (os.more (f s)) = snd M (os.more s)) \<Longrightarrow>
    within w M F (modify f)"
  by (rule moves.io_modify) (simp add: moves_def)

lemma within_attempt [touches]: "within w M F (attempt c)"
  by (auto simp: state_io_rel_def attempt_def moves_def split: option.split)

lemma within_set_errno [touches]: "within w M F (set_errno e)"
  unfolding set_errno_def by (rule within_modify) simp

lemma within_fail_with [touches]: "within w M F (fail_with e r)"
  unfolding fail_with_def by (intro moves_flow touches)

lemma within_look [touches]: "within w M F (look p)"
  unfolding look_def by (rule moves.io_gets)

lemma within_missing [touches]: "within w M F (missing p r)"
  unfolding missing_def by (intro moves_flow touches)

lemma within_next_ino [touches]: "within w M F (modify (next_ino_update Suc))"
  by (rule within_modify) simp

lemma within_build_path [touches]: "within w M F (build_path parts)"
  by (simp add: state_io_rel_def build_path_def moves_def)

lemma within_simple_call [touches]: "within w M F (simple_call c)"
  unfolding simple_call_def by (intro moves_flow touches)

lemma within_transfer [touches]: "within w M F (transfer n)"
  unfolding transfer_def by (rule moves.io_gets)

text \<open>A node may be put where \<open>F\<close> allows it.\<close>

definition inside :: "foot set \<Rightarrow> string list \<Rightarrow> bool" where
  "inside F q \<longleftrightarrow> (\<exists>p. At p \<in> F \<and> prefix p q)"

lemma inside_At [simp]: "At p \<in> F \<Longrightarrow> inside F p"
  by (auto simp: inside_def)

lemma inside_append: "inside F p \<Longrightarrow> inside F (p @ q)"
  by (auto simp: inside_def prefix_append)

lemma agree_put:
  assumes "inside F p" shows "agree F d (put_at p v (fst d), snd d)"
proof -
  from assms obtain r where r: "At r \<in> F" "prefix r p" by (auto simp: inside_def)
  have "prefix p q \<Longrightarrow> prefix r q" "prefix q p \<Longrightarrow> prefix r q \<or> prefix q r" for q
    using r(2) by (meson prefix_order.trans prefix_same_cases)+
  then show ?thesis
    unfolding agree_def touched_def using r(1) put_at_other put_at_shallow by (metis fst_conv snd_conv)
qed

lemma apart_dir_at: "apart F M \<Longrightarrow> agree F d d' \<Longrightarrow> dir_at d M \<Longrightarrow> dir_at d' M"
  unfolding apart_def agree_def dir_at_def by (metis (no_types, lifting) map_option_eq_Some shallow_is_dir)

lemma within_change:
  assumes "\<And>d. agree F d (f d)" shows "within w M F (change f)"
  using assms apart_dir_at by (simp add: state_io_rel_def change_def modify_def moves_def) blast

lemma within_put_node:
  assumes "inside F p" shows "within w M F (put_node p v)"
  unfolding put_node_def
proof (rule within_change)
  fix d :: disk
  have "map_prod (put_at p v) id d = (put_at p v (fst d), snd d)" by (cases d) simp
  then show "agree F d (map_prod (put_at p v) id d)" using agree_put [OF assms] by simp
qed

section \<open>The system calls\<close>

lemmas flow = moves_flow within_cases

lemma within_stat_call [touches]: "within w M F (stat_call path)"
  unfolding stat_call_def by (intro flow touches)

lemma within_mkdir_at:
  assumes "inside F p \<or> prefix p (fst M)"
  shows "within w M F (mkdir_at p mode)"
  using assms
proof
  assume "inside F p"
  then show ?thesis unfolding mkdir_at_def by (intro flow touches within_put_node)
next
  assume pre: "prefix p (fst M)"
  have all: "within w M {At p} (mkdir_at p mode)"
    unfolding mkdir_at_def by (intro flow touches within_put_node) simp
  have "disk s' = disk s \<and> history s' = history s"
    if "dir_at (disk s) (fst M)" "run_state (mkdir_at p mode) s = (r, s')" for s s' :: "'a os_scheme" and r
  proof -
    obtain q where "fst M = p @ q" using pre by (auto simp: prefix_def)
    with that(1) obtain n where "node_at (tree s) p = Some n"
      by (auto simp: dir_at_def node_at_append split: option.splits)
    with that(2) show ?thesis
      by (auto simp: mkdir_at_def attempt_def gets_def fail_with_def set_errno_def modify_def
          split: option.splits prod.splits)
  qed
  then show ?thesis
    by (intro state_io_relI) (metis (no_types, lifting) agree_refl append_Nil list.set(1) empty_iff
        moves_def state_io_relD [OF all])
qed

lemma within_rmdir_at: "inside F p \<Longrightarrow> within w M F (rmdir_at p)"
  unfolding rmdir_at_def by (intro flow touches within_put_node)

lemma within_unlink_at: "inside F p \<Longrightarrow> within w M F (unlink_at p)"
  unfolding unlink_at_def by (intro flow touches within_put_node)

lemma within_rename:
  assumes "inside F p" "inside F q"
  shows "within w M F (change (map_prod (put_at q n \<circ> put_at p None) id))"
proof (rule within_change)
  fix d :: disk
  have "map_prod (put_at q n \<circ> put_at p None) id d = (put_at q n (put_at p None (fst d)), snd d)"
    by (cases d) simp
  then show "agree F d (map_prod (put_at q n \<circ> put_at p None) id d)"
    using agree_put [OF assms(1), of d None] agree_put [OF assms(2), of "(put_at p None (fst d), snd d)" n]
    by (auto intro: agree_trans)
qed

lemma within_rename_at:
  assumes "comps old \<noteq> [] \<Longrightarrow> inside F (d @ comps old)"
    "comps old \<noteq> [] \<Longrightarrow> comps new \<noteq> [] \<Longrightarrow> inside F (d @ comps new)"
  shows "within w M F (rename_at d old new)"
  unfolding rename_at_def by (intro flow touches within_rename assms) auto

lemma within_open_at: "(writes flags \<Longrightarrow> inside F p) \<Longrightarrow> within w M F (open_at p flags)"
  unfolding open_at_def by (intro flow touches within_put_node) simp_all

lemma within_open_ReadOnly [touches]: "within w M F (open_at p ReadOnly)"
  by (rule within_open_at) simp

lemma within_read_at [touches]: "within w M F (read_at fd off n)"
  unfolding read_at_def Let_def by (intro flow touches)

lemma within_update_at: "inside F p \<Longrightarrow> within w M F (update_at p f)"
  unfolding update_at_def by (intro flow touches within_put_node)

lemma within_write_at: "inside F (fst fd) \<Longrightarrow> within w M F (write_at fd off data)"
  unfolding write_at_def by (intro flow touches within_update_at)

lemma within_truncate_at: "inside F (fst fd) \<Longrightarrow> within w M F (truncate_at fd)"
  unfolding truncate_at_def by (intro flow touches within_update_at)

lemma within_fchmod: "inside F (fst fd) \<Longrightarrow> within w M F (fchmod fd mode)"
  unfolding fchmod_def by (intro flow touches within_update_at)

section \<open>The confined calls\<close>

lemma within_spolicy [touches]: "within w M F (spolicy vol p)"
  unfolding spolicy_def by (intro flow touches)

lemma within_schdirparent [touches]: "within w M F (schdirparent vol path)"
  unfolding schdirparent_def by (intro flow touches)

lemma moves_world: "within (world s) M F m \<Longrightarrow> world (snd (run_state m s)) = world s"
  by (simp add: state_io_rel_def moves_def)

text \<open>What comes after a policy check or after \<open>schdirparent\<close> runs only when the policy admits it.\<close>

lemma world_simple_call: "run_state (simple_call c) s = (r, s') \<Longrightarrow> world s' = world s"
  using moves_world [OF within_simple_call] by (metis snd_conv)

lemma spolicy_0: "run_state (spolicy vol p) s = (0, s') \<Longrightarrow> allowed (world s) vol p"
  by (auto simp: spolicy_def check_def gets_def fail_with_def set_errno_def modify_def dest!: world_simple_call
      split: prod.splits if_splits)

lemma moves_spolicy: "run_state (spolicy vol p) s = (r, s') \<Longrightarrow> moves w M F s s'"
  by (rule state_io_relD [OF within_spolicy])

lemma moves_schdirparent: "run_state (schdirparent vol path) s = (r, s') \<Longrightarrow> moves w M F s s'"
  by (rule state_io_relD [OF within_schdirparent])

lemma within_check_spolicy:
  assumes fin: "\<And>r. within w M F (fin r)" and k: "allowed w vol p \<Longrightarrow> within w M F k"
  shows "within w M F (check (spolicy vol p) fin k)"
proof (rule state_io_relI)
  fix a s s'
  assume run: "run_state (check (spolicy vol p) fin k) s = (a, s')"
  obtain r t where pol: "run_state (spolicy vol p) s = (r, t)" by fastforce
  with run have rest: "run_state (if r \<noteq> 0 then fin r else k) t = (a, s')" by (simp add: check_def)
  have "moves w M F t s'" if "world s = w"
  proof (cases "r = 0")
    case True
    with pol that have "allowed w vol p" by (auto dest: spolicy_0)
    with k rest True show ?thesis by (auto dest: state_io_relD)
  next
    case False
    with fin rest show ?thesis by (auto dest: state_io_relD)
  qed
  then show "moves w M F s s'"
    using moves_spolicy [OF pol] moves_trans by (metis moves_def)
qed

lemma schdirparent_Some:
  assumes "run_state (schdirparent vol path) s = (Some dir, s')"
  shows "dir = comps (dirname path)" "allowed (world s) vol dir"
proof -
  show dir: "dir = comps (dirname path)"
    using assms by (auto simp: schdirparent_def need_def check_def fail_with_def split: prod.splits option.splits if_splits)
  have world: "world t = world s" if "run_state m s = (x, t)" "\<And>w. within w M {} m"
    for m :: "('a os_scheme, 'b) state" and x s t
    using moves_world [OF that(2), of s] that(1) by simp
  from assms obtain s1 s2 p fd where
    s1: "run_state (build_path [path]) s = (Some p, s1)" and
    s2: "run_state (open_at (comps (dirname path)) ReadOnly) s1 = (Some fd, s2)" and
    pol: "fst (run_state (spolicy vol (comps (dirname path))) (errno_update (\<lambda>_. 0) s2)) = 0"
    by (auto simp: schdirparent_def need_def check_def set_errno_def modify_def split: prod.splits option.splits if_splits)
  have "world s2 = world s"
    using world [OF s1 within_build_path] world [OF s2 within_open_ReadOnly] by simp
  moreover obtain r t where run: "run_state (spolicy vol (comps (dirname path))) (errno_update (\<lambda>_. 0) s2) = (r, t)"
    by fastforce
  moreover have "r = 0" using pol run by simp
  ultimately show "allowed (world s) vol dir"
    using spolicy_0 [of vol "comps (dirname path)" "errno_update (\<lambda>_. 0) s2" t] dir by simp
qed

lemma within_need_schdirparent:
  assumes fin: "within w M F fin" and
    k: "allowed w vol (comps (dirname path)) \<Longrightarrow> within w M F (k (comps (dirname path)))"
  shows "within w M F (need (schdirparent vol path) fin k)"
proof (rule state_io_relI)
  fix a s s'
  assume run: "run_state (need (schdirparent vol path) fin k) s = (a, s')"
  obtain d t where sch: "run_state (schdirparent vol path) s = (d, t)" by fastforce
  with run have rest: "run_state (case d of None \<Rightarrow> fin | Some y \<Rightarrow> k y) t = (a, s')" by (simp add: need_def)
  have "moves w M F t s'" if "world s = w"
  proof (cases d)
    case None
    with fin rest show ?thesis by (auto dest: state_io_relD)
  next
    case (Some dir)
    with sch that have "dir = comps (dirname path)" "allowed w vol dir" by (auto dest: schdirparent_Some)
    with k rest Some show ?thesis by (auto dest: state_io_relD)
  qed
  then show "moves w M F s s'"
    using moves_schdirparent [OF sch] moves_trans by (metis moves_def)
qed

text \<open>A confined call may touch the place it names, when the policy admits the directory and the name is
  not that of the directory itself.\<close>

definition permits :: "world \<Rightarrow> nat \<Rightarrow> foot set \<Rightarrow> string \<Rightarrow> string \<Rightarrow> bool" where
  "permits w vol F path name \<longleftrightarrow>
     (\<not> names_parent name \<longrightarrow> allowed w vol (comps (dirname path)) \<longrightarrow>
      inside F (comps (dirname path) @ comps (basename name)))"

lemma permits_inside: "inside F (comps path) \<Longrightarrow> permits w vol F path path"
  by (simp add: permits_def comps_dirname)

lemma permitsD:
  "permits w vol F path path \<Longrightarrow> allowed w vol (comps (dirname path)) \<Longrightarrow> \<not> names_parent path \<Longrightarrow>
    inside F (comps path)"
  by (simp add: permits_def comps_dirname)

lemma need_simps:
  "need (return None) fin k = fin" "need (return (Some x)) fin k = k x"
  "need (need m fin' k') fin k = need m (need fin' fin k) (\<lambda>x. need (k' x) fin k)"
  "need (check m' fin'' n) fin k = check m' (\<lambda>r. need (fin'' r) fin k) (need n fin k)"
  "need (fail_with e None) fin k = State_Monad.bind (set_errno e) (\<lambda>_. fin)"
  "need (if b then m1 else m2) fin k = (if b then need m1 fin k else need m2 fin k)"
  by (auto simp: need_def check_def fail_with_def if_distrib intro!: state_ext split: prod.splits option.splits)

lemma open_at_Some: "run_state (open_at p flags) s = (Some fd, s') \<Longrightarrow> fst fd = p"
  by (auto simp: open_at_def fail_with_def missing_def split: prod.splits option.splits if_splits open_flags.splits)

lemma within_need_open_at:
  assumes "writes flags \<Longrightarrow> inside F p" "within w M F fin" "\<And>n. within w M F (k (p, n))"
  shows "within w M F (need (open_at p flags) fin k)"
proof (rule state_io_relI)
  fix a s s'
  assume run: "run_state (need (open_at p flags) fin k) s = (a, s')"
  obtain x t where op: "run_state (open_at p flags) s = (x, t)" by fastforce
  with run have rest: "run_state (case x of None \<Rightarrow> fin | Some y \<Rightarrow> k y) t = (a, s')" by (simp add: need_def)
  have "within w M F (case x of None \<Rightarrow> fin | Some y \<Rightarrow> k y)"
  proof (cases x)
    case (Some y)
    with op have "fst y = p" by (auto dest: open_at_Some)
    with assms(3) [of "snd y"] Some show ?thesis by (cases y) simp
  qed (simp add: assms)
  with rest have "moves w M F t s'" by (auto dest: state_io_relD)
  moreover have "moves w M F s t" using state_io_relD [OF within_open_at [OF assms(1)] op] .
  ultimately show "moves w M F s s'" by (metis moves_trans)
qed

lemma within_need_sopen_ifExists:
  assumes path: "writes flags \<Longrightarrow> permits w vol F path path" and fin: "within w M F fin"
    and k: "\<And>n. (writes flags \<Longrightarrow> inside F (comps path)) \<Longrightarrow> within w M F (k (comps path, n))"
  shows "within w M F (need (sopen_ifExists vol path flags) fin k)"
  unfolding sopen_ifExists_def need_simps
proof (intro within_need_schdirparent fin)
  assume adm: "allowed w vol (comps (dirname path))"
  show "within w M F (if names_parent path \<and> writes flags
     then State_Monad.bind (set_errno (if flags = ForWriting then EISDIR else EEXIST)) (\<lambda>_. fin)
     else need (open_at (comps (dirname path) @ comps (basename path)) flags) fin
       (\<lambda>x. check (spolicy vol (comps (dirname path) @ comps (basename path))) (\<lambda>r. fin) (k x)))"
  proof (intro within_If)
    assume "\<not> (names_parent path \<and> writes flags)"
    with path adm have ins: "writes flags \<Longrightarrow> inside F (comps path)" by (blast dest: permitsD)
    then show "within w M F (need (open_at (comps (dirname path) @ comps (basename path)) flags) fin
       (\<lambda>x. check (spolicy vol (comps (dirname path) @ comps (basename path))) (\<lambda>r. fin) (k x)))"
      unfolding comps_dirname by (intro within_need_open_at within_check_spolicy fin k) auto
  qed (intro flow touches fin)
qed

lemma writes_exclusively [simp]: "writes (exclusively flags) = writes flags"
  by (cases flags) (simp_all add: exclusively_def)

lemma within_need_sopen:
  assumes "writes flags \<Longrightarrow> permits w vol F path path" "within w M F fin"
    and "\<And>n. (writes flags \<Longrightarrow> inside F (comps path)) \<Longrightarrow> within w M F (k (comps path, n))"
  shows "within w M F (need (sopen vol path flags) fin k)"
  unfolding sopen_def by (rule within_need_sopen_ifExists) (simp_all add: assms)

lemma within_sopen:
  assumes "writes flags \<Longrightarrow> permits w vol F path path" shows "within w M F (sopen vol path flags)"
proof -
  have "sopen vol path flags = need (sopen vol path flags) (return None) (\<lambda>x. return (Some x))"
    by (auto simp: need_def intro!: state_ext split: prod.split option.split)
  moreover have "within w M F (need (sopen vol path flags) (return None) (\<lambda>x. return (Some x)))"
    using assms by (intro within_need_sopen flow touches)
  ultimately show ?thesis by (rule ssubst)
qed

lemma within_smkdir:
  assumes "permits w vol F path path \<or> prefix (comps path) (fst M)"
  shows "within w M F (smkdir vol path mode)"
  using assms permitsD [of w vol F path] unfolding smkdir_def
  by (intro within_need_schdirparent flow touches within_mkdir_at) (auto simp: comps_dirname)

lemma within_srmdir: "permits w vol F path path \<Longrightarrow> within w M F (srmdir vol path)"
  using permitsD [of w vol F path] unfolding srmdir_def
  by (intro within_need_schdirparent flow touches within_rmdir_at) (auto simp: comps_dirname)

lemma within_sunlink: "permits w vol F path path \<Longrightarrow> within w M F (sunlink vol path)"
  using permitsD [of w vol F path] unfolding sunlink_def
  by (intro within_need_schdirparent flow touches within_unlink_at) (auto simp: comps_dirname)

lemma within_srename:
  assumes "permits w vol F old old" "\<not> names_parent old \<Longrightarrow> permits w vol F old new"
  shows "within w M F (srename vol old new)"
  using assms unfolding srename_def permits_def names_parent_def
  by (intro flow touches within_need_schdirparent within_rename_at) auto

section \<open>Erasing and copying\<close>

text \<open>A set of paths that is closed under their parents, or one that is closed under their children.\<close>

lemma within_zero_loop: "inside F (fst fd) \<Longrightarrow> within w M F (zero_loop fd off left)"
proof (induction fd off left rule: zero_loop.induct)
  case (1 fd off left)
  then show ?case
    by (subst zero_loop.simps) (intro flow touches within_write_at)
qed

lemma within_szerofile: "permits w vol F path path \<Longrightarrow> within w M F (szerofile vol path)"
  unfolding szerofile_def
  by (intro within_need_sopen flow touches within_zero_loop within_truncate_at) simp_all

lemma within_copy_loop: "inside F (fst dst) \<Longrightarrow> within w M F (copy_loop src dst off left)"
proof (induction src dst off left rule: copy_loop.induct)
  case (1 src dst off left)
  then show ?case
    by (subst copy_loop.simps) (intro flow touches within_write_at)
qed

lemma within_copyfiledata: "permits w vol F path path \<Longrightarrow> within w M F (copyfiledata srcfd vol path)"
  unfolding copyfiledata_def
  by (intro within_need_sopen flow touches within_copy_loop within_fchmod within_sunlink) simp_all

definition permits_below :: "world \<Rightarrow> nat \<Rightarrow> foot set \<Rightarrow> string \<Rightarrow> bool" where
  "permits_below w vol F path \<longleftrightarrow>
     permits w vol F path path \<and> (\<forall>q. permits w vol F (path @ CHR ''/'' # q) (path @ CHR ''/'' # q))"

lemma permits_below_child: "permits_below w vol F path \<Longrightarrow> permits_below w vol F (path @ CHR ''/'' # name)"
  by (simp add: permits_below_def)

lemma permits_below_inside: "inside F (comps path) \<Longrightarrow> permits_below w vol F path"
  by (simp add: permits_below_def permits_inside comps_append inside_append)

lemma within_note_result [touches]: "within w M F (note_result r acc)"
  unfolding note_result_def by (intro flow touches)

lemma within_unlink:
  "permits_below w vol F path \<Longrightarrow> within w M F (unlink_tree vol dev path n acc :: ('z os_scheme, _) state)"
  "permits_below w vol F path \<Longrightarrow> within w M F (unlink_entries vol dev path es acc :: ('z os_scheme, _) state)"
proof (induction vol dev path n acc and vol dev path es acc rule: unlink_tree_unlink_entries.induct)
  case (1 vol dev path i m b acc)
  then show ?case by (auto simp: permits_below_def intro!: flow touches within_sunlink)
next
  case (2 vol dev path i m es acc)
  have "within w M F (unlink_entries vol dev path es acc :: ('z os_scheme, _) state)" if "dev_of x (comps path) = dev" for x :: world
    using 2(1) [of True x] that 2(2) by simp
  moreover have "permits w vol F path path" using 2(2) by (simp add: permits_below_def)
  ultimately show ?case
    unfolding unlink_tree.simps by (intro flow touches within_srmdir)
next
  case (3 vol dev path acc)
  then show ?case by (simp add: flow)
next
  case (4 vol dev path e es acc)
  then show ?case by (auto intro!: flow touches simp: permits_below_child)
qed

lemma within_sdeepunlink: "permits_below w vol F path \<Longrightarrow> within w M F (sdeepunlink vol path)"
  unfolding sdeepunlink_def by (intro flow touches within_unlink)

text \<open>All that making a directory, with its missing parents, or a copy may touch is at or below its
  path, or a parent of it that is not known to be there.\<close>

definition permits_path :: "world \<Rightarrow> nat \<Rightarrow> ('z, 'k) base \<Rightarrow> foot set \<Rightarrow> string \<Rightarrow> bool" where
  "permits_path w vol M F path \<longleftrightarrow>
     (\<forall>p. permits w vol F p p) \<or>
     inside F (comps path) \<and> (\<forall>q. prefix q (comps path) \<longrightarrow> inside F q \<or> prefix q (fst M))"

definition permits_parents :: "world \<Rightarrow> nat \<Rightarrow> ('z, 'k) base \<Rightarrow> foot set \<Rightarrow> string \<Rightarrow> bool" where
  "permits_parents w vol M F path \<longleftrightarrow>
     (\<forall>p. permits w vol F p p) \<or> (\<forall>q. prefix q (comps path) \<longrightarrow> inside F q \<or> prefix q (fst M))"

lemma prefix_dirname: "prefix (comps (dirname path)) (comps path)"
  by (metis comps_dirname prefixI)

lemma permits_path_child: "permits_path w vol M F path \<Longrightarrow> permits_path w vol M F (path @ CHR ''/'' # name)"
  by (auto simp: permits_path_def comps_append inside_append prefix_append)

lemma permits_path_below: "permits_path w vol M F path \<Longrightarrow> permits_below w vol F path"
  unfolding permits_path_def by (auto simp: permits_below_inside) (simp add: permits_below_def)

lemma permits_path_parents: "permits_path w vol M F path \<Longrightarrow> permits_parents w vol M F path"
  by (auto simp: permits_path_def permits_parents_def)

lemma permits_parents_dirname: "permits_parents w vol M F path \<Longrightarrow> permits_parents w vol M F (dirname path)"
  unfolding permits_parents_def by (meson prefix_dirname prefix_order.trans)

lemma permits_parents_self:
  "permits_parents w vol M F path \<Longrightarrow> permits w vol F path path \<or> prefix (comps path) (fst M)"
  unfolding permits_parents_def by (meson permits_inside prefix_order.order_refl)

lemma within_sdeepmkdir_fuel:
  "permits_parents w vol M F path \<Longrightarrow> within w M F (sdeepmkdir_fuel fuel vol path mode)"
proof (induction fuel arbitrary: path)
  case (Suc fuel)
  then show ?case
    by (auto intro!: flow touches within_smkdir simp: permits_parents_dirname dest: permits_parents_self)
qed (simp add: flow)

lemma within_sdeepmkdir: "permits_parents w vol M F path \<Longrightarrow> within w M F (sdeepmkdir vol path mode)"
  unfolding sdeepmkdir_def by (rule within_sdeepmkdir_fuel)

lemma within_need_build_path:
  "within w M F fin \<Longrightarrow> within w M F (k (concat parts)) \<Longrightarrow> within w M F (need (build_path parts) fin k)"
  by (rule state_io_relI)
    (auto simp: need_def build_path_def moves_def dest!: state_io_relD split: if_splits)

lemma within_copy_entries:
  assumes "\<And>name. within w M F (copy (srcdir @ CHR ''/'' # name) (dstdir @ CHR ''/'' # name))"
  shows "within w M F (copy_entries copy srcdir dstdir names)"
proof (induction names)
  case (Cons name names)
  then show ?case
    using assms by (auto intro!: flow touches within_need_build_path)
qed (simp, intro flow touches)

lemma within_scopyitem_fuel:
  "permits_path w vol M F dst \<Longrightarrow>
    within w M F (scopyitem_fuel fuel srcvol vol src dst :: ('z os_scheme, int) state)"
proof (induction fuel arbitrary: src dst)
  case (Suc fuel)
  have "within w M F (sdeepmkdir vol (dirname dst) mode :: ('z os_scheme, int) state)" for mode
    using Suc.prems by (intro within_sdeepmkdir permits_parents_dirname permits_path_parents)
  moreover have "within w M F (copysubitems (scopyitem_fuel fuel srcvol vol) srcvol src dst :: ('z os_scheme, int) state)"
    unfolding copysubitems_def
    by (intro flow touches within_need_open_at within_check_spolicy within_copy_entries Suc.IH
        permits_path_child Suc.prems) simp_all
  moreover have "permits w vol F dst dst"
    using permits_path_below [OF Suc.prems] by (simp add: permits_below_def)
  ultimately show ?case
    by (auto intro!: flow touches within_need_sopen within_copyfiledata)
qed (simp add: flow)

lemma within_scopyitem: "permits_path w vol M F dst \<Longrightarrow> within w M F (scopyitem srcvol src vol dst)"
  unfolding scopyitem_def by (rule within_scopyitem_fuel)

section \<open>Results\<close>

lemma run_check: "run_state (check m fin k) s =
    (case run_state m s of (r, t) \<Rightarrow> if r \<noteq> 0 then run_state (fin r) t else run_state k t)"
  by (simp add: check_def split: prod.split)

lemma run_need: "run_state (need m fin k) s =
    (case run_state m s of (x, t) \<Rightarrow> (case x of None \<Rightarrow> run_state fin t | Some y \<Rightarrow> run_state (k y) t))"
  by (simp add: need_def split: prod.split option.split)

lemma run_gets [simp]: "run_state (gets f) s = (f s, s)"
  by (simp add: gets_def)

lemma run_modify [simp]: "run_state (modify f) s = ((), f s)"
  by (simp add: modify_def)

lemma run_set_errno [simp]: "run_state (set_errno e) s = ((), s\<lparr>errno := e\<rparr>)"
  by (simp add: set_errno_def)

lemma run_fail_with [simp]: "run_state (fail_with e r) s = (r, s\<lparr>errno := e\<rparr>)"
  by (simp add: fail_with_def)

lemma run_put_node [simp]:
  "run_state (put_node p v) s = ((), s\<lparr>disk := (put_at p v (tree s), snd (disk s)), history := disk s # history s\<rparr>)"
  by (simp add: put_node_def change_def map_prod_def case_prod_beta)

lemma attempt_cases:
  "run_state (attempt c) s = (ok, s') \<Longrightarrow>
    disk s' = disk s \<and> history s' = history s \<and> world s' = world s \<and> os.more s' = os.more s"
  by (auto simp: attempt_def split: option.splits)

lemma put_at_removes:
  assumes "node_at t p = Some n" "p \<noteq> []" shows "node_at (put_at p None t) p = None"
proof -
  from assms have "node_at t (butlast p @ [last p]) = Some n" by simp
  then obtain d where "node_at t (butlast p) = Some d" "is_dir d" by (rule node_at_parent_dir) simp
  then have "node_at (put_at (butlast p @ [last p]) None t) (butlast p @ [last p]) = None" by (rule put_at_same)
  with assms show ?thesis by simp
qed

lemma unlink_at_0: "run_state (unlink_at p) s = (0, s') \<Longrightarrow> p \<noteq> [] \<Longrightarrow> node_at (tree s') p = None"
  by (auto simp: unlink_at_def look_def missing_def put_at_removes dest!: attempt_cases
      split: prod.splits if_splits option.splits node.splits)

lemma rmdir_at_0: "run_state (rmdir_at p) s = (0, s') \<Longrightarrow> node_at (tree s') p = None"
  by (auto simp: rmdir_at_def look_def missing_def put_at_removes dest!: attempt_cases
      split: prod.splits if_splits option.splits node.splits)

lemma names_parent_comps: "\<not> names_parent p \<Longrightarrow> comps p \<noteq> []"
  using comps_dirname [of p] by (auto simp: names_parent_def)

lemma comps_dirname_butlast: "\<not> names_parent p \<Longrightarrow> comps (dirname p) = butlast (comps p)"
  using basename_word [of p] comps_dirname [of p] by (metis butlast_snoc names_parent_def)

lemma comps_basename_last: "\<not> names_parent p \<Longrightarrow> comps (basename p) = [last (comps p)]"
  using basename_word [of p] comps_dirname [of p] by (metis last_snoc names_parent_def)

lemma sunlink_0: "run_state (sunlink vol p) s = (0, s') \<Longrightarrow> node_at (tree s') (comps p) = None"
  by (auto simp: sunlink_def run_need comps_dirname dest!: schdirparent_Some(1)
      split: prod.splits if_splits option.splits) (metis names_parent_comps unlink_at_0)

lemma srmdir_0: "run_state (srmdir vol p) s = (0, s') \<Longrightarrow> node_at (tree s') (comps p) = None"
  by (auto simp: srmdir_def run_need comps_dirname dest!: schdirparent_Some(1) intro: rmdir_at_0
      split: prod.splits if_splits option.splits)

lemma note_result_0: "run_state (note_result r acc) s = ((0, e), s') \<Longrightarrow> r = 0 \<and> s' = s"
  by (auto simp: note_result_def split: if_splits)

lemma path_error_nonzero: "node_at t p = None \<Longrightarrow> path_error t p \<noteq> 0"
  by (induction t p rule: node_at.induct) (auto simp: errno_defs split: option.splits)

text \<open>No call fails at all.\<close>

definition untroubled :: "world \<Rightarrow> bool" where
  "untroubled w \<longleftrightarrow> (\<forall>a n. fails w a n = None)"

text \<open>A call that fails says why.\<close>

definition errnos_ok :: "world \<Rightarrow> bool" where
  "errnos_ok w \<longleftrightarrow> (\<forall>c n. fails w c n \<noteq> Some 0)"

lemma attempt_fails:
  "run_state (attempt c) s = (False, s') \<Longrightarrow> errnos_ok (world s) \<Longrightarrow> errno s' \<noteq> 0"
  by (auto simp: attempt_def errnos_ok_def split: option.splits)

lemma unlink_tree_0:
  assumes "errnos_ok (world s)" "run_state (unlink_tree vol dev p n (0, 0)) s = ((0, 0), s')"
  shows "node_at (tree s') (comps p) = None"
proof (cases n)
  case (File i m b)
  then show ?thesis using assms(2) by (auto split: prod.splits dest!: note_result_0 intro: sunlink_0)
next
  case (Dir i m es)
  obtain ok t where att: "run_state (attempt ReaddirCall) s = (ok, t)" by fastforce
  have ok: "ok"
  proof (rule ccontr)
    assume "\<not> ok"
    with att assms(1) have "errno t \<noteq> 0" using attempt_fails by metis
    with \<open>\<not> ok\<close> att assms(2) Dir show False by (simp add: note_result_def)
  qed
  then show ?thesis using att assms(2) Dir
    by (auto split: prod.splits if_splits dest!: note_result_0 intro: srmdir_0)
qed

lemma sdeepunlink_0:
  assumes "errnos_ok (world s)" "run_state (sdeepunlink vol p) s = (0, s')"
  shows "node_at (tree s') (comps p) = None"
proof -
  obtain ok t where att: "run_state (attempt OpenCall) s = (ok, t)" by fastforce
  then have world: "world t = world s" by (auto dest: attempt_cases)
  show ?thesis
  proof (cases "node_at (tree t) (comps p)")
    case None
    then show ?thesis using att assms(2) by (simp add: sdeepunlink_def path_error_nonzero split: if_splits)
  next
    case (Some n)
    obtain a e u where run: "run_state (unlink_tree vol (dev_of (world t) (comps p)) p n (0, 0)) t = ((a, e), u)"
      by (metis prod.exhaust)
    with att assms(2) Some have "a = 0 \<and> e = 0 \<and> s' = u\<lparr>errno := 0\<rparr>"
      by (auto simp: sdeepunlink_def split: if_splits)
    with run world assms(1) show ?thesis using unlink_tree_0 [of t] by simp
  qed
qed

end
