(* ===== verification/BootFrame.thy ===== *)
theory BootFrame
  imports BootUpdate SafeFrame
begin

text \<open>
  src/update_boot.c: what the steps of an update can touch on the helper. The directories of the booter's
  files, and the recovery directory, are touched only by the functions that are meant to; labels,
  booters and everything else stay out of them.
\<close>

section \<open>The caller's state\<close>

text \<open>The target directory and whether the booter's files are updated: what later steps rely on.\<close>

definition kept :: "unit update_ext \<Rightarrow> string \<times> bool" where
  "kept m = (let s = os.extend \<lparr>world = undefined, disk = undefined, history = [], errno = 0, calls = 0, next_ino = 0\<rparr> m
     in (dstdir s, doRPS s))"

lemma kept_more [simp]: "kept (os.more s) = (dstdir s, doRPS s)"
  by (cases s) (simp add: kept_def os.extend_def)

section \<open>Places on the helper\<close>

abbreviation mount_at :: "target \<Rightarrow> string list" where "mount_at up \<equiv> comps (curMount up)"

definition protected :: "target \<Rightarrow> string list" where
  "protected up = [kBootDirR up, kBootDirP up, kBootDirS up, kRecoveryBootDir up]"

definition elsewhere :: "target \<Rightarrow> foot set" where
  "elsewhere up = {At (mount_at up @ [c]) | c. c \<notin> set (protected up)}"

definition free_path :: "target \<Rightarrow> string \<Rightarrow> bool" where
  "free_path up path \<longleftrightarrow>
     prefix (mount_at up) (comps path) \<and> length (mount_at up) < length (comps path) \<and>
     comps path ! length (mount_at up) \<notin> set (protected up)"

lemma free_pathE:
  assumes "free_path up path"
  obtains c cs where "comps path = mount_at up @ c # cs" "c \<notin> set (protected up)"
proof -
  from assms obtain r where r: "comps path = mount_at up @ r" "r \<noteq> []"
    by (auto simp: free_path_def prefix_def)
  then have "comps path = mount_at up @ hd r # tl r" by simp
  moreover have "hd r \<notin> set (protected up)" using assms r by (simp add: free_path_def nth_append hd_conv_nth)
  ultimately show thesis by (rule that)
qed

lemma apart_elsewhere [simp]: "apart (elsewhere up) (mount_at up)"
  by (auto simp: apart_def elsewhere_def dest: prefix_length_le)

lemma inside_below_mount:
  "At (mount_at up @ [c]) \<in> F \<Longrightarrow> comps path = mount_at up @ c # cs \<Longrightarrow> inside F (comps path)"
  by (auto simp: inside_def)

lemma permits_path_below_mount:
  assumes "At (mount_at up @ [c]) \<in> F" "comps path = mount_at up @ c # cs"
  shows "permits_path w vol (mount_at up, K) F path"
proof -
  have "inside F q \<or> prefix q (mount_at up)" if "prefix q (comps path)" for q
  proof -
    have "prefix (mount_at up @ [c]) (comps path)" using assms(2) by simp
    with that have "prefix (mount_at up @ [c]) q \<or> prefix q (mount_at up @ [c])"
      using prefix_same_cases by blast
    with assms(1) show ?thesis by (auto simp: inside_def prefix_snoc intro: prefix_order.refl)
  qed
  with inside_below_mount [OF assms] show ?thesis by (simp add: permits_path_def)
qed

lemma free_path_permits_path:
  "free_path up path \<Longrightarrow> elsewhere up \<subseteq> F \<Longrightarrow> permits_path w vol (mount_at up, K) F path"
  by (elim free_pathE) (rule permits_path_below_mount, auto simp: elsewhere_def)

lemma permits_path_self: "permits_path w vol M F path \<Longrightarrow> permits w vol F path path"
  by (drule permits_path_below) (simp add: permits_below_def)

lemma permits_path_new:
  "permits_path w vol M F path \<Longrightarrow> permits_parents w vol M F path"
  by (rule permits_path_parents)

text \<open>The calls at a path that is free, or at one for which \<open>permits_path\<close> is known.\<close>

lemma within_at_path [touches]:
  assumes "permits_path w vol M F path"
  shows "within w M F (sunlink vol path)" "within w M F (sdeepunlink vol path)" "within w M F (szerofile vol path)"
    "within w M F (sdeepmkdir vol path mode)" "within w M F (scopyitem srcvol src vol path)"
    "within w M F (sopen vol path flags)"
  using assms permits_path_self [OF assms] permits_path_below [OF assms] permits_path_parents [OF assms]
  by (auto intro: within_sunlink within_sdeepunlink within_szerofile within_sdeepmkdir within_scopyitem within_sopen)

lemma within_need_sopen_path:
  assumes "permits_path w vol M F path" "within w M F fin"
    "\<And>n. inside F (comps path) \<Longrightarrow> within w M F (k (comps path, n))"
  shows "within w M F (need (sopen vol path (Creating x m)) fin k)"
    "within w M F (need (sopen vol path ForWriting) fin k)"
  using assms permits_path_self [OF assms(1)] by (auto intro!: within_need_sopen)

lemma within_need_sopen_ReadOnly:
  "within w M F fin \<Longrightarrow> (\<And>n. within w M F (k (comps path, n))) \<Longrightarrow>
    within w M F (need (sopen vol path ReadOnly) fin k)"
  by (rule within_need_sopen) simp_all

lemma within_sopen_ReadOnly [touches]: "within w M F (sopen vol path ReadOnly)"
  by (rule within_sopen) simp

lemma within_srename_path:
  assumes "permits_path w vol M F old" "inside F (comps new)" "comps new \<noteq> []"
    "butlast (comps old) = butlast (comps new)"
  shows "within w M F (srename vol old new)"
proof (rule within_srename)
  show "permits w vol F old old" using assms(1) by (rule permits_path_self)
  assume "\<not> names_parent old"
  then show "permits w vol F old new"
    using assms by (auto simp: permits_def comps_dirname_butlast comps_basename_last append_butlast_last_id)
qed

section \<open>Configurations\<close>

text \<open>A helper whose labels, booters and other files are outside the protected directories.\<close>

definition rpaths :: "target \<Rightarrow> string list" where
  "rpaths up = label (caches up) # miscpaths (caches up) @
     filter (\<lambda>r. r \<noteq> []) [efibooter (caches up), ofbooter (caches up)]"

definition extensions :: "string list" where
  "extensions = [[], OLDEXT, NEWEXT, SCALE_2xEXT, CONTENTEXT]"

definition fixed_paths :: "target \<Rightarrow> string list" where
  "fixed_paths up = map ((@) (curMount up))
     [''/.MobileBackups'', ''/.com.apple.NetBootX/shadowfile'', ''/.metadata_never_index'', ''/.Spotlight-V100'',
      ''/.fseventsd'', ''/.fseventsd/no_log'', kBRBootOnceDir] @
     [taint_path up, dirname (curMount up @ label (caches up)) @ ''/'' @ kBRRootUUIDFile]"

definition well_placed :: "target \<Rightarrow> bool" where
  "well_placed up \<longleftrightarrow>
     \<not> flat up \<and>
     (\<forall>r \<in> set (rpaths up). \<forall>ext \<in> set extensions.
        free_path up (curMount up @ r @ ext) \<and>
        butlast (comps (curMount up @ r @ ext)) = butlast (comps (curMount up @ r))) \<and>
     (\<forall>p \<in> set (fixed_paths up). free_path up p)"

lemma extension_mems [simp]:
  "[] \<in> set extensions" "OLDEXT \<in> set extensions" "NEWEXT \<in> set extensions"
  "SCALE_2xEXT \<in> set extensions" "CONTENTEXT \<in> set extensions"
  by (simp_all add: extensions_def)

lemma boot_parts_simps:
  assumes "well_placed up"
  shows "concat (boot_parts up r) = curMount up @ r" "concat (boot_parts up r @ [e]) = curMount up @ r @ e"
    "concat (label_parts up e) = curMount up @ label (caches up) @ e" "\<not> flat up"
  using assms by (auto simp: well_placed_def boot_parts_def label_parts_def flat_def)

section \<open>Harmless steps\<close>

text \<open>A step that touches neither the directories of the booter's files nor the recovery directory; it may
  bless.\<close>

definition harmless_places :: "target \<Rightarrow> foot set" where
  "harmless_places up = insert Bless (elsewhere up)"

abbreviation harmless :: "target \<Rightarrow> 'a step \<Rightarrow> bool" where
  "harmless up m \<equiv> (\<forall>w. within w (mount_at up, kept) (harmless_places up) m)"

lemma elsewhere_harmless [simp]: "elsewhere up \<subseteq> harmless_places up"
  by (auto simp: harmless_places_def)

definition free_rpath :: "target \<Rightarrow> string \<Rightarrow> bool" where
  "free_rpath up r \<longleftrightarrow>
     (\<forall>ext \<in> set extensions. free_path up (curMount up @ r @ ext) \<and>
        butlast (comps (curMount up @ r @ ext)) = butlast (comps (curMount up @ r)))"

lemma well_placed_rpath: "well_placed up \<Longrightarrow> r \<in> set (rpaths up) \<Longrightarrow> free_rpath up r"
  by (auto simp: well_placed_def free_rpath_def)

lemma free_path_permits:
  "free_path up p \<Longrightarrow> permits_path w vol (mount_at up, K) (harmless_places up) p"
  by (rule free_path_permits_path) simp_all

lemma free_path_inside: "free_path up p \<Longrightarrow> inside (harmless_places up) (comps p)"
  by (elim free_pathE) (rule inside_below_mount, auto simp: harmless_places_def elsewhere_def)

lemma free_path_nonempty: "free_path up p \<Longrightarrow> comps p \<noteq> []"
  by (auto simp: free_path_def)

lemma free_rpath_ext: "free_rpath up r \<Longrightarrow> ext \<in> set extensions \<Longrightarrow> free_path up (curMount up @ r @ ext)"
  by (simp add: free_rpath_def)

lemma free_rpath_self: "free_rpath up r \<Longrightarrow> free_path up (curMount up @ r)"
  using free_rpath_ext [of up r "[]"] by (simp add: extensions_def)

lemma free_rpath_rename:
  assumes "free_rpath up r" "ext \<in> set extensions"
  shows "within w (mount_at up, K) (harmless_places up) (srename vol (curMount up @ r) (curMount up @ r @ ext))"
    "within w (mount_at up, K) (harmless_places up) (srename vol (curMount up @ r @ ext) (curMount up @ r))"
  using assms free_rpath_self [OF assms(1)] free_rpath_ext [OF assms]
  by (auto intro!: within_srename_path free_path_permits free_path_inside free_path_nonempty simp: free_rpath_def)

text \<open>The rules for stepping through a function: a path that is built is known afterwards, any other result
  is not.\<close>

lemmas steps = within_need_build_path within_need_sopen_ReadOnly moves_flow within_cases

lemma within_set_state [touches]:
  "within w (p, kept) F (modify (changestate_update f))" "within w (p, kept) F (modify (doMisc_update g))"
  "within w (p, kept) F (modify (doBooters_update g))" "within w (p, kept) F (modify (efidst_update h))"
  "within w (p, kept) F (modify (ofdst_update h))"
  by (rule within_modify; simp)+

lemma within_set_changestate [touches]: "within w (p, kept) F (set_changestate c)"
  unfolding set_changestate_def by (rule touches)

lemma within_result_or_errno [touches]: "within w M F (result_or_errno r)"
  unfolding result_or_errno_def by (intro steps touches)

lemma within_RECERR [touches]: "within w M F (RECERR r first)"
  unfolding RECERR_def by (intro steps touches)

lemma within_create_empty:
  "permits_path w (curbootfd up) M F p \<Longrightarrow> within w M F (create_empty up p)"
  unfolding create_empty_def by (intro within_need_sopen_path steps touches)

lemma within_erase_if_there:
  "permits_path w (curbootfd up) M F p \<Longrightarrow> within w M F (erase_if_there up p err)"
  unfolding erase_if_there_def by (intro steps touches)

lemma well_placed_fixed:
  "well_placed up \<Longrightarrow> p \<in> set (fixed_paths up) \<Longrightarrow> permits_path w vol (mount_at up, K) (harmless_places up) p"
  by (auto simp: well_placed_def intro: free_path_permits)

lemma fixed_permits:
  assumes "well_placed up"
  shows "permits_path w vol (mount_at up, K) (harmless_places up) (taint_path up)"
    "permits_path w vol (mount_at up, K) (harmless_places up) (curMount up @ kBRBootOnceDir)"
    "permits_path w vol (mount_at up, K) (harmless_places up)
      (dirname (curMount up @ label (caches up)) @ ''/'' @ kBRRootUUIDFile)"
  by (rule well_placed_fixed [OF assms], simp add: fixed_paths_def)+

lemma harmless_sanitizeBoot: "well_placed up \<Longrightarrow> harmless up (sanitizeBoot up)"
  unfolding sanitizeBoot_def makebootpath_def sanitize_fsevents_def Let_def
  by (intro allI steps touches within_create_empty within_erase_if_there)
    (auto simp: boot_parts_simps fixed_paths_def intro!: well_placed_fixed)

lemma harmless_erase_once: "well_placed up \<Longrightarrow> harmless up (erase_if_there up (curMount up @ kBRBootOnceDir) err)"
  by (intro allI within_erase_if_there fixed_permits)

lemma harmless_notBRDefault: "harmless up (notBRDefault (curMount up) [])"
  unfolding notBRDefault_def by (intro allI steps touches)

lemma harmless_markNotBRDefault: "well_placed up \<Longrightarrow> harmless up (markNotBRDefault (curbootfd up) (curMount up) [] b)"
  unfolding markNotBRDefault_def
  by (intro allI within_need_sopen_path steps touches fixed_permits)

lemma harmless_missing_misc: "within w M F (missing_misc up rps)"
  unfolding makebootpath_def by (induction rps) (auto simp: makebootpath_def intro!: steps touches)

lemma within_modify_free:
  "(\<And>s. world (f s) = world s \<and> disk (f s) = disk s \<and> history (f s) = history s) \<Longrightarrow>
    within w (p, \<lambda>_. ()) F (modify f)"
  by (rule within_modify) simp

lemma harmless_checkBootContents: "within w (p, \<lambda>_. ()) F (checkBootContents up)"
  unfolding checkBootContents_def missing_booter_def makebootpath_def notBRDefault_def
  by (intro allI steps touches harmless_missing_misc within_modify_free) simp_all

lemma harmless_copy_misc:
  "well_placed up \<Longrightarrow> set rps \<subseteq> set (miscpaths (caches up)) \<Longrightarrow> harmless up (copy_misc up rps n)"
proof (induction rps arbitrary: n)
  case (Cons rp rps)
  have "free_rpath up rp" using Cons.prems by (auto intro: well_placed_rpath simp: rpaths_def)
  then have "permits_path w vol (mount_at up, kept) (harmless_places up) (curMount up @ rp @ NEWEXT)" for w vol
    by (intro free_path_permits free_rpath_ext) simp_all
  with Cons show ?case
    by (auto simp: boot_parts_simps intro!: steps touches)
qed (simp add: steps touches)

lemma harmless_ucopyMisc: "well_placed up \<Longrightarrow> harmless up (ucopyMisc up)"
  unfolding ucopyMisc_def by (intro allI steps touches harmless_copy_misc [rule_format]) simp_all

lemma label_free: "well_placed up \<Longrightarrow> free_rpath up (label (caches up))"
  by (rule well_placed_rpath) (simp_all add: rpaths_def)

lemma label_permits:
  assumes "well_placed up" "ext \<in> set extensions"
  shows "permits_path w vol (mount_at up, K) (harmless_places up) (curMount up @ label (caches up) @ ext)"
  using assms by (intro free_path_permits free_rpath_ext label_free)

lemma label_permits_self:
  "well_placed up \<Longrightarrow> permits_path w vol (mount_at up, K) (harmless_places up) (curMount up @ label (caches up))"
  using label_permits [of up "[]"] by simp

lemma harmless_moveLabels: "well_placed up \<Longrightarrow> harmless up (moveLabels up)"
  unfolding moveLabels_def makebootpath_def
  by (intro allI within_need_sopen_path steps touches)
    (auto simp: boot_parts_simps intro!: label_permits label_permits_self free_rpath_rename label_free)

lemma harmless_nuke_label:
  "permits_path w (curbootfd up) M F p \<Longrightarrow> within w M F (nuke_label up p first)"
  unfolding nuke_label_def by (intro steps touches)

lemma harmless_nukeBRLabels: "well_placed up \<Longrightarrow> harmless up (nukeBRLabels up)"
  unfolding nukeBRLabels_def makebootpath_def
  by (intro allI steps touches harmless_nuke_label)
    (simp_all add: boot_parts_simps label_permits label_permits_self fixed_permits [simplified])

lemma harmless_rename_misc:
  "well_placed up \<Longrightarrow> set rps \<subseteq> set (miscpaths (caches up)) \<Longrightarrow> harmless up (rename_misc up rps n)"
proof (induction rps arbitrary: n)
  case (Cons rp rps)
  have "free_rpath up rp" using Cons.prems by (auto intro: well_placed_rpath simp: rpaths_def)
  then have "within w (mount_at up, kept) (harmless_places up)
      (srename vol (curMount up @ rp @ NEWEXT) (curMount up @ rp) :: int step)" for w vol
    by (rule free_rpath_rename) simp
  with Cons show ?case
    by (auto simp: boot_parts_simps Let_def intro!: steps touches)
qed (simp add: steps)

lemma harmless_activateMisc: "well_placed up \<Longrightarrow> harmless up (activateMisc up)"
  unfolding activateMisc_def makebootpath_def Let_def
  by (intro allI within_need_sopen_path steps touches harmless_rename_misc [rule_format])
    (auto simp: boot_parts_simps intro!: label_permits_self free_rpath_rename label_free)

lemma booter_free:
  "well_placed up \<Longrightarrow> r \<in> {efibooter (caches up), ofbooter (caches up)} \<Longrightarrow> r \<noteq> [] \<Longrightarrow> free_rpath up r"
  by (rule well_placed_rpath) (auto simp: rpaths_def)

lemma harmless_at_booter:
  assumes "free_rpath up r"
  shows "permits_path w vol (mount_at up, K) (harmless_places up) (curMount up @ r @ OLDEXT)"
    "permits_path w vol (mount_at up, K) (harmless_places up) (curMount up @ r)"
    "within w (mount_at up, K) (harmless_places up) (srename vol (curMount up @ r) (curMount up @ r @ OLDEXT))"
    "within w (mount_at up, K) (harmless_places up) (srename vol (curMount up @ r @ OLDEXT) (curMount up @ r))"
  using assms free_rpath_ext [OF assms, of OLDEXT] free_rpath_self [OF assms]
  by (simp_all add: free_path_permits free_rpath_rename)

lemma harmless_ucopy_booter:
  assumes "well_placed up" "free_rpath up r" "\<And>d w. within w (mount_at up, kept) (harmless_places up) (g d)"
  shows "harmless up (ucopy_booter up r g)"
  using assms unfolding ucopy_booter_def makebootpath_def
  by (intro allI steps touches assms) (simp_all add: boot_parts_simps harmless_at_booter)

lemma harmless_ucopyBooters: "well_placed up \<Longrightarrow> harmless up (ucopyBooters up)"
  unfolding ucopyBooters_def
  by (intro allI steps touches harmless_ucopy_booter [rule_format] booter_free) simp_all

lemma within_folder_inode [touches]: "within w M F (folder_inode up p)"
  unfolding folder_inode_def by (intro steps touches)

lemma within_sBLSetBootInfo: "Bless \<in> F \<Longrightarrow> within w M F (sBLSetBootInfo up info)"
  unfolding sBLSetBootInfo_def
  by (intro steps touches within_change) (auto simp: agree_def)

lemma harmless_activateBooters: "harmless up (activateBooters up)"
  unfolding activateBooters_def activate_of_def activate_efi_def bless_as_asked_def
  by (intro allI steps touches within_sBLSetBootInfo) (simp add: harmless_places_def)

lemma harmless_nuke_old_booter:
  "well_placed up \<Longrightarrow> (r \<noteq> [] \<Longrightarrow> free_rpath up r) \<Longrightarrow> harmless up (nuke_old_booter up r v)"
  unfolding nuke_old_booter_def
  by (intro allI steps touches) (simp_all add: boot_parts_simps harmless_at_booter)

lemma harmless_restore_booter:
  "well_placed up \<Longrightarrow> (r \<noteq> [] \<Longrightarrow> free_rpath up r) \<Longrightarrow> harmless up (restore_booter up r)"
  unfolding restore_booter_def makebootpath_def
  by (intro allI steps touches) (simp_all add: boot_parts_simps harmless_at_booter)

lemma harmless_revertState: "well_placed up \<Longrightarrow> harmless up (revertState up)"
  unfolding revertState_def reactivate_old_def append_old_def restore_label_def Let_def
  by (intro allI steps touches harmless_restore_booter [rule_format] booter_free
      harmless_activateBooters [rule_format] harmless_activateMisc [rule_format]) simp_all

end
