(* ===== verification/BootRPS.thy ===== *)
theory BootRPS
  imports BootFrame
begin

text \<open>
  src/update_boot.c: the three directories of the booter's files. The booter takes the one that the game
  picks; an update changes a directory that is not picked until it is complete, and one rename makes it
  the one that is.
\<close>

section \<open>The directories\<close>

text \<open>The names are single components, all different; what is copied has rooted paths; and on APM disks the
  replaced name is below the directory.\<close>

definition rooted :: "string \<Rightarrow> bool" where
  "rooted r \<longleftrightarrow> r \<noteq> [] \<and> hd r = CHR ''/''"

definition names_ok :: "target \<Rightarrow> bool" where
  "names_ok up \<longleftrightarrow> distinct (protected up) \<and> (\<forall>n \<in> set (protected up). comps n = [n])"

definition contents_ok :: "target \<Rightarrow> bool" where
  "contents_ok up \<longleftrightarrow>
     (\<forall>r \<in> set (rpspaths (caches up) @ extraKernelCachePaths (caches up)). rooted r) \<and>
     (case erpropcache (caches up) of None \<Rightarrow> True | Some i \<Rightarrow> i < length (rpspaths (caches up))) \<and>
     (\<forall>i < length (rpspaths (caches up)). \<forall>x \<in> set [Rock, Paper, Scissors].
        prefix (comps (rps_dir up x)) (comps (apm_name up (concat (rps_parts up (rps_dir up x) i)))))"

definition rps_at :: "target \<Rightarrow> rps \<Rightarrow> string list" where
  "rps_at up x = mount_at up @ [rps_name up x]"

lemma rps_name_protected [simp]: "rps_name up x \<in> set (protected up)"
  by (cases x) (auto simp: protected_def)

lemma comps_rps_dir: "names_ok up \<Longrightarrow> comps (rps_dir up x) = rps_at up x"
  by (simp add: rps_dir_def rps_at_def names_ok_def comps_append)

lemma rps_at_inject: "names_ok up \<Longrightarrow> rps_at up x = rps_at up y \<longleftrightarrow> x = y"
  by (cases x; cases y) (auto simp: rps_at_def names_ok_def protected_def)

lemma rps_at_parallel: "names_ok up \<Longrightarrow> x \<noteq> y \<Longrightarrow> \<not> prefix (rps_at up x) (rps_at up y)"
  using rps_at_inject [of up x y] by (auto simp: rps_at_def)

lemma comps_rooted: "rooted r \<Longrightarrow> comps (p @ r) = comps p @ comps r"
  by (cases r) (auto simp: rooted_def comps_append)

lemma permits_path_rps:
  assumes "prefix (rps_at up x) (comps path)" "At (rps_at up x) \<in> F"
  shows "permits_path w vol (mount_at up, K) F path"
proof -
  from assms(1) obtain cs where "comps path = mount_at up @ rps_name up x # cs"
    by (auto simp: prefix_def rps_at_def)
  then show ?thesis using assms(2) by (intro permits_path_below_mount [of _ "rps_name up x"]) (simp_all add: rps_at_def)
qed

lemma harmless_keeps:
  "names_ok up \<Longrightarrow> \<not> touched (harmless_places up) (rps_at up x)"
  by (auto simp: touched_def harmless_places_def elsewhere_def rps_at_def prefix_def append_eq_Cons_conv Cons_eq_append_conv)

section \<open>What fills and erases a directory\<close>

lemma within_eraseRPS:
  assumes "names_ok up" "contents_ok up" "At (rps_at up x) \<in> F"
  shows "within w (mount_at up, K) F (eraseRPS up (rps_dir up x))"
proof -
  have "permits_path w vol (mount_at up, K) F (rps_dir up x)" for vol
    using assms by (intro permits_path_rps [of _ x]) (simp_all add: comps_rps_dir)
  moreover have "permits_path w vol (mount_at up, K) F (rps_dir up x @ rps_path up i)"
    if "erpropcache (caches up) = Some i" for vol i
    using assms that
    by (intro permits_path_rps [of _ x]) (simp_all add: comps_rps_dir comps_rooted contents_ok_def rps_path_def)
  ultimately show ?thesis
    unfolding eraseRPS_def by (intro steps touches) simp_all
qed

lemma within_parent_dir:
  "permits_path w vol M F p \<Longrightarrow> within w M F (sdeepmkdir vol (dirname p) mode)"
  by (intro within_sdeepmkdir permits_parents_dirname permits_path_parents)

lemma within_createBootPrefData [touches]: "within w M F (createBootPrefData up)"
  unfolding createBootPrefData_def read_prefs_def kernel_key_def by (intro steps touches)

lemma within_writeBootPrefs:
  "permits_path w (curbootfd up) (mount_at up, kept) F p \<Longrightarrow>
    within w (mount_at up, kept) F (writeBootPrefs up p)"
  unfolding writeBootPrefs_def
  by (intro within_need_sopen_path steps touches within_write_at within_parent_dir) simp_all

lemma within_writeFDEPropsToHelper:
  "permits_path w (curbootfd up) (mount_at up, kept) F p \<Longrightarrow>
    within w (mount_at up, kept) F (writeFDEPropsToHelper up p)"
  unfolding writeFDEPropsToHelper_def writeCSFDEProps_def
  by (intro within_need_sopen_path steps touches within_write_at within_parent_dir) simp_all

lemma within_finish_if: "within w M F m \<Longrightarrow> within w M F (finish_if m)"
  unfolding finish_if_def by (intro steps touches)

lemma within_copy_kernels:
  assumes ok: "names_ok up" "contents_ok up" "\<not> flat up" "At (rps_at up x) \<in> F"
  shows "set rps \<subseteq> set (extraKernelCachePaths (caches up)) \<Longrightarrow>
    within w (mount_at up, kept) F (copy_kernels up (rps_dir up x) rps copied)"
proof (induction rps arbitrary: copied)
  case (Cons rp rps)
  then have "rooted rp" using ok by (auto simp: contents_ok_def)
  then have "prefix (rps_at up x) (comps (concat (kernel_parts up (rps_dir up x) rp)))"
    using ok comps_append [of "rps_dir up x" "''boot'' @ rp"]
    by (auto simp: kernel_parts_def comps_rooted comps_rps_dir)
  then have "permits_path w vol (mount_at up, kept) F (concat (kernel_parts up (rps_dir up x) rp))" for vol
    using ok by (intro permits_path_rps) auto
  with Cons show ?case by (auto intro!: steps touches)
qed (simp add: steps)

lemma within_copy_item:
  assumes ok: "names_ok up" "contents_ok up" "\<not> flat up" "At (rps_at up x) \<in> F" "i < length (rpspaths (caches up))"
  shows "within w (mount_at up, kept) F (copy_item up (rps_dir up x) i)"
proof -
  have rooted: "rooted (rps_path up i)" using ok by (auto simp: contents_ok_def rps_path_def)
  then have "prefix (rps_at up x) (comps (concat (rps_parts up (rps_dir up x) i)))"
    using ok comps_append [of "rps_dir up x" "''boot'' @ rps_path up i"]
    by (auto simp: rps_parts_def comps_rooted comps_rps_dir)
  then have "permits_path w vol (mount_at up, kept) F (concat (rps_parts up (rps_dir up x) i))" for vol
    using ok by (intro permits_path_rps) auto
  moreover have "prefix (rps_at up x) (comps (apm_name up (concat (rps_parts up (rps_dir up x) i))))"
    using ok by (cases x) (auto simp: contents_ok_def comps_rps_dir)
  then have "permits_path w vol (mount_at up, kept) F (apm_name up (concat (rps_parts up (rps_dir up x) i)))" for vol
    using ok by (intro permits_path_rps) auto
  ultimately show ?thesis
    unfolding copy_item_def
    by (intro steps touches within_finish_if within_writeBootPrefs within_writeFDEPropsToHelper)
qed

lemma within_copy_items:
  assumes ok: "names_ok up" "contents_ok up" "\<not> flat up" "At (rps_at up x) \<in> F"
  shows "\<forall>i \<in> set is. i < length (rpspaths (caches up)) \<Longrightarrow>
    within w (mount_at up, kept) F (copy_items up (rps_dir up x) copied is)"
  by (induction "is") (auto intro!: steps touches within_copy_item ok)

lemma within_fill_dstdir:
  assumes ok: "names_ok up" "contents_ok up" "\<not> flat up" "At (rps_at up x) \<in> F"
  shows "within w (mount_at up, kept) F (fill_dstdir up (rps_dir up x) erdir)"
proof -
  have "permits_path w vol (mount_at up, kept) F (rps_dir up x)" for vol
    using ok by (intro permits_path_rps [of _ x]) (simp_all add: comps_rps_dir)
  moreover have "within w (mount_at up, kept) F (write_legacy up erdir)"
    using ok unfolding write_legacy_def by (intro steps touches) simp_all
  ultimately show ?thesis
    unfolding fill_dstdir_def using ok
    by (intro steps touches within_eraseRPS within_copy_kernels within_copy_items) auto
qed

section \<open>Single calls\<close>

text \<open>Nothing but \<open>errno\<close> and the counter of calls changes.\<close>

definition still :: "'z os_scheme \<Rightarrow> 'z os_scheme \<Rightarrow> bool" where
  "still s s' \<longleftrightarrow> world s' = world s \<and> disk s' = disk s \<and> history s' = history s \<and> os.more s' = os.more s"

interpretation still: io_relation still
  by unfold_locales (auto simp: still_def)

definition stats_ok :: "world \<Rightarrow> bool" where
  "stats_ok w \<longleftrightarrow> (\<forall>n. fails w StatCall n = None) \<and> errnos_ok w"

lemma stat_call_run:
  assumes "stats_ok (world s)" "run_state (stat_call p) s = (n, s')"
  shows "n = node_at (tree s) (comps p)" "still s s'" "n = None \<Longrightarrow> errno s' = path_error (tree s) (comps p)"
  using assms by (auto simp: stat_call_def attempt_def look_def missing_def still_def stats_ok_def split: option.splits)

lemma build_path_run:
  "run_state (build_path ps) s = (x, s') \<Longrightarrow> still s s' \<and> (x = None \<or> x = Some (concat ps))"
  by (auto simp: build_path_def still_def split: if_splits)

lemma path_error_missing:
  "node_at t p = Some d \<Longrightarrow> is_dir d \<Longrightarrow> node_at t (p @ [c]) = None \<Longrightarrow> path_error t (p @ [c]) = ENOENT"
proof (induction t p arbitrary: rule: node_at.induct)
  case (1 n)
  then show ?case by (cases n) (auto split: option.splits)
qed (auto split: option.splits)

section \<open>The game\<close>

definition have_rps :: "target \<Rightarrow> disk \<Rightarrow> rps \<Rightarrow> bool" where
  "have_rps up d x \<longleftrightarrow> node_at (fst d) (rps_at up x) \<noteq> None"

definition picked :: "target \<Rightarrow> disk \<Rightarrow> rps" where
  "picked up d = rps_pick (have_rps up d Rock) (have_rps up d Paper) (have_rps up d Scissors)"

text \<open>What the booter finds.\<close>

definition shown :: "target \<Rightarrow> disk \<Rightarrow> node option" where
  "shown up d = node_at (fst d) (rps_at up (picked up d))"

definition all_three :: "target \<Rightarrow> disk \<Rightarrow> bool" where
  "all_three up d \<longleftrightarrow> (\<forall>x. have_rps up d x)"

lemma all_rps: "(\<forall>x. P x) \<longleftrightarrow> P Rock \<and> P Paper \<and> P Scissors"
  by (metis rps.exhaust)

lemma ex_rps: "(\<exists>x. P x) \<longleftrightarrow> P Rock \<or> P Paper \<or> P Scissors"
  by (metis rps.exhaust)

lemma shown_some: "shown up d \<noteq> None \<longleftrightarrow> (\<exists>x. have_rps up d x)"
  by (auto simp: shown_def picked_def have_rps_def ex_rps split: if_splits)

lemma next_absent:
  "shown up d \<noteq> None \<Longrightarrow> \<not> all_three up d \<Longrightarrow> \<not> have_rps up d (rps_next (picked up d))"
  by (auto simp: shown_some ex_rps all_three_def all_rps picked_def split: if_splits)

lemma rps_distinct [simp]: "rps_prev x \<noteq> x" "rps_next x \<noteq> x" "rps_prev x \<noteq> rps_next x"
  "x \<noteq> rps_prev x" "x \<noteq> rps_next x" "rps_next x \<noteq> rps_prev x"
  by (cases x; simp)+

text \<open>The previous directory may be anything while the next one is not there.\<close>

lemma picked_current:
  assumes "have_rps up d x" "\<not> have_rps up d (rps_next x)"
  shows "picked up d = x"
  using assms by (cases x) (auto simp: picked_def)

lemma picked_next:
  assumes "have_rps up d x" "have_rps up d (rps_next x)" "\<not> have_rps up d (rps_prev x)"
  shows "picked up d = rps_next x"
  using assms by (cases x) (auto simp: picked_def)

lemma rps_prefix: "names_ok up \<Longrightarrow> prefix (rps_at up x) (rps_at up y) \<longleftrightarrow> x = y"
  using rps_at_parallel by auto

lemma touched_rps: "names_ok up \<Longrightarrow> touched ((\<lambda>y. At (rps_at up y)) ` Y) (rps_at up x) \<longleftrightarrow> x \<in> Y"
  by (auto simp: touched_def rps_prefix rps_at_inject)

lemma agree_rps_set:
  "names_ok up \<Longrightarrow> agree ((\<lambda>y. At (rps_at up y)) ` Y) d d' \<Longrightarrow> x \<notin> Y \<Longrightarrow>
    node_at (fst d') (rps_at up x) = node_at (fst d) (rps_at up x)"
  using touched_rps [of up Y x] by (metis agreeD)

lemma agree_rps:
  "names_ok up \<Longrightarrow> agree {At (rps_at up y)} d d' \<Longrightarrow> x \<noteq> y \<Longrightarrow>
    node_at (fst d') (rps_at up x) = node_at (fst d) (rps_at up x)"
  using agree_rps_set [of up "{y}"] by simp

lemma shown_prev_changes:
  assumes "names_ok up" "agree {At (rps_at up (rps_prev (picked up d)))} d d'" "shown up d \<noteq> None"
    "\<not> have_rps up d (rps_next (picked up d))"
  shows "shown up d' = shown up d" "picked up d' = picked up d" "\<not> have_rps up d' (rps_next (picked up d))"
proof -
  let ?x = "picked up d"
  have same: "node_at (fst d') (rps_at up y) = node_at (fst d) (rps_at up y)" if "y \<noteq> rps_prev ?x" for y
    using agree_rps [OF assms(1,2) that] .
  show nx: "\<not> have_rps up d' (rps_next ?x)"
    using assms(4) same [of "rps_next ?x"] by (simp add: have_rps_def)
  moreover have "have_rps up d' ?x" using assms(3) same [of ?x] by (simp add: have_rps_def shown_def)
  ultimately show "picked up d' = ?x" by (rule picked_current [rotated])
  then show "shown up d' = shown up d" using same [of ?x] by (simp add: shown_def)
qed

lemma shown_harmless:
  assumes "names_ok up" "agree (harmless_places up) d d'"
  shows "have_rps up d' = have_rps up d" "picked up d' = picked up d" "shown up d' = shown up d"
    "node_at (fst d') (rps_at up x) = node_at (fst d) (rps_at up x)"
proof -
  have same: "node_at (fst d') (rps_at up y) = node_at (fst d) (rps_at up y)" for y
    using agreeD [OF assms(2) harmless_keeps [OF assms(1)]] .
  then show "have_rps up d' = have_rps up d" by (simp add: have_rps_def fun_eq_iff)
  with same show "picked up d' = picked up d" "shown up d' = shown up d"
    by (simp_all add: picked_def shown_def)
  show "node_at (fst d') (rps_at up x) = node_at (fst d) (rps_at up x)" by (rule same)
qed

lemma shown_all_three:
  assumes "names_ok up" "all_three up d" "agree {At (rps_at up Paper)} d d'"
  shows "shown up d' = shown up d" "picked up d' = picked up d" "picked up d = Rock"
proof -
  have "have_rps up d' Rock" "have_rps up d' Scissors"
    using assms agree_rps [OF assms(1,3)] by (auto simp: have_rps_def all_three_def)
  then show pick: "picked up d' = picked up d" "picked up d = Rock"
    using assms(2) by (auto simp: picked_def all_three_def)
  then show "shown up d' = shown up d"
    using agree_rps [OF assms(1,3), of Rock] by (simp add: shown_def)
qed

section \<open>Programs and the disks they go through\<close>

definition visits :: "update \<Rightarrow> update \<Rightarrow> (disk \<Rightarrow> bool) \<Rightarrow> bool" where
  "visits s s' V \<longleftrightarrow> (\<exists>new. history s' = new @ history s \<and> (\<forall>d \<in> set new. V d))"

lemma visits_refl [simp]: "visits s s V"
  by (simp add: visits_def)

lemma visits_trans: "visits s t V \<Longrightarrow> visits t u V \<Longrightarrow> visits s u V"
  unfolding visits_def by (metis append_assoc set_append Un_iff)

definition ready :: "target \<Rightarrow> update \<Rightarrow> bool" where
  "ready up s \<longleftrightarrow> stats_ok (world s) \<and> dir_at (disk s) (mount_at up)"

text \<open>From a state with \<open>I\<close>, in a world where \<open>stat\<close> works and failing calls say why, the program ends in one with \<open>J\<close>, and every
  disk it leaves behind on the way has \<open>V\<close>.\<close>

definition safe :: "target \<Rightarrow> (disk \<Rightarrow> bool) \<Rightarrow> (update \<Rightarrow> bool) \<Rightarrow> 'a step \<Rightarrow> ('a \<Rightarrow> update \<Rightarrow> bool) \<Rightarrow> bool" where
  "safe up V I m J \<longleftrightarrow>
     (\<forall>s r s'. I s \<longrightarrow> ready up s \<longrightarrow> run_state m s = (r, s') \<longrightarrow> J r s' \<and> ready up s' \<and> visits s s' V)"

lemma safeD:
  "safe up V I m J \<Longrightarrow> I s \<Longrightarrow> ready up s \<Longrightarrow> run_state m s = (r, s') \<Longrightarrow> J r s' \<and> ready up s' \<and> visits s s' V"
  by (simp add: safe_def)

lemma safe_return: "(\<And>s. I s \<Longrightarrow> J x s) \<Longrightarrow> safe up V I (return x) J"
  by (simp add: safe_def)

lemma safe_gets: "(\<And>s. I s \<Longrightarrow> J (f s) s) \<Longrightarrow> safe up V I (gets f) J"
  by (simp add: safe_def)

lemma safe_bind:
  assumes "safe up V I m J" "\<And>x. safe up V (J x) (f x) K"
  shows "safe up V I (State_Monad.bind m f) K"
  unfolding safe_def
proof (intro allI impI)
  fix s r s' assume "I s" "ready up s" "run_state (State_Monad.bind m f) s = (r, s')"
  moreover obtain x t where "run_state m s = (x, t)" by fastforce
  ultimately show "K r s' \<and> ready up s' \<and> visits s s' V"
    using safeD [OF assms(1)] safeD [OF assms(2)] visits_trans by (metis case_prod_conv run_state_bind)
qed

lemma safe_conseq:
  "safe up V' I' m J' \<Longrightarrow> (\<And>s. I s \<Longrightarrow> I' s) \<Longrightarrow> (\<And>x s. J' x s \<Longrightarrow> J x s) \<Longrightarrow> (\<And>d. V' d \<Longrightarrow> V d) \<Longrightarrow>
    safe up V I m J"
  unfolding safe_def visits_def by meson

lemma safe_check:
  assumes "safe up V I m J" "\<And>r. r \<noteq> 0 \<Longrightarrow> safe up V (J r) (fin r) K" "safe up V (J 0) k K"
  shows "safe up V I (check m fin k) K"
  unfolding check_def by (rule safe_bind [OF assms(1)]) (simp add: assms)

lemma safe_need:
  assumes "safe up V I m J" "safe up V (J None) fin K" "\<And>y. safe up V (J (Some y)) (k y) K"
  shows "safe up V I (need m fin k) K"
  unfolding need_def by (rule safe_bind [OF assms(1)]) (simp add: assms split: option.split)

lemma safe_If: "(b \<Longrightarrow> safe up V I m J) \<Longrightarrow> (\<not> b \<Longrightarrow> safe up V I n J) \<Longrightarrow> safe up V I (if b then m else n) J"
  by simp

text \<open>Steps that only touch \<open>F\<close>.\<close>

lemma safe_within:
  assumes "\<And>w. within w (mount_at up, K) F m" "apart F (mount_at up)"
    and "\<And>s d. I s \<Longrightarrow> agree F (disk s) d \<Longrightarrow> V d"
    and "\<And>s r s'. I s \<Longrightarrow> agree F (disk s) (disk s') \<Longrightarrow> world s' = world s \<Longrightarrow>
      K (os.more s') = K (os.more s) \<Longrightarrow> J r s'"
  shows "safe up V I m J"
  unfolding safe_def
proof (intro allI impI)
  fix s r s' assume I: "I s" and ready: "ready up s" and run: "run_state m s = (r, s')"
  have "moves (world s) (mount_at up, K) F s s'" using assms(1) run by (auto dest: state_io_relD)
  then have "world s' = world s" "K (os.more s') = K (os.more s)" "dir_at (disk s') (mount_at up)"
    "agree F (disk s) (disk s')" "\<exists>new. history s' = new @ history s \<and> (\<forall>d \<in> set new. agree F (disk s) d)"
    using assms(2) ready by (simp_all add: moves_def ready_def)
  then show "J r s' \<and> ready up s' \<and> visits s s' V"
    using assms(3,4) I ready by (auto simp: ready_def visits_def simp del: split_paired_All)
qed

lemma apart_rps [simp]: "apart ((\<lambda>y. At (rps_at up y)) ` Y) (mount_at up)" "apart {At (rps_at up x)} (mount_at up)"
  by (auto simp: apart_def rps_at_def dest: prefix_length_le)

lemma apart_harmless [simp]: "apart (harmless_places up) (mount_at up)"
  by (auto simp: apart_def harmless_places_def elsewhere_def dest: prefix_length_le)

text \<open>Steps that change neither disk nor caller.\<close>

lemma safe_still:
  assumes "\<And>s r s'. I s \<Longrightarrow> ready up s \<Longrightarrow> run_state m s = (r, s') \<Longrightarrow> still s s' \<and> J r s'"
  shows "safe up V I m J"
  unfolding safe_def
proof (intro allI impI)
  fix s r s' assume "I s" "ready up s" "run_state m s = (r, s')"
  then have "still s s'" "J r s'" "ready up s" using assms by blast+
  then show "J r s' \<and> ready up s' \<and> visits s s' V"
    by (simp add: ready_def still_def visits_def)
qed

section \<open>Finding and erasing\<close>

lemma eraseRPS_0:
  assumes "stats_ok (world s)" "names_ok up" "run_state (eraseRPS up (rps_dir up x)) s = (0, s')"
  shows "\<not> have_rps up (disk s') x"
proof -
  have gone: "node_at (tree v) (rps_at up x) = None"
    if "errnos_ok (world u)" "run_state (sdeepunlink (curbootfd up) (rps_dir up x)) u = (0, v)" for u v
    using sdeepunlink_0 [OF that] assms(2) by (simp add: comps_rps_dir)
  obtain n t where st: "run_state (stat_call (rps_dir up x)) s = (n, t)" by fastforce
  then have n: "n = node_at (tree s) (rps_at up x)" and t: "still s t"
    using stat_call_run [OF assms(1) st] assms(2) by (simp_all add: comps_rps_dir)
  have err: "errnos_ok (world t)" using assms(1) t by (simp add: stats_ok_def still_def)
  show ?thesis
  proof (cases "n = None \<and> errno t = ENOENT")
    case True
    with st assms(3) have "s' = t" by (simp add: eraseRPS_def)
    with True n t show ?thesis by (simp add: have_rps_def still_def)
  next
    case False
    have "run_state (sdeepunlink (curbootfd up) (rps_dir up x)) u = (0, s') \<Longrightarrow> errnos_ok (world u) \<Longrightarrow> ?thesis" for u
      using gone by (simp add: have_rps_def)
    moreover have "errnos_ok (world v)"
      if "run_state (build_path ps) t = (y, u)" "run_state (szerofile vol path) u = (r, v)" for ps y u vol path r v
    proof -
      have "world u = world t" using build_path_run [OF that(1)] by (simp add: still_def)
      moreover have "within (world u) ([], \<lambda>_. ()) {At (comps path)} (szerofile vol path)"
        by (intro within_szerofile permits_inside) simp
      ultimately show ?thesis using moves_world that(2) err by (metis snd_conv)
    qed
    ultimately show ?thesis using False st assms(3) err
      by (auto simp: eraseRPS_def run_need run_check ELAST_def split: option.splits prod.splits if_splits)
  qed
qed

lemma rps_pick_all [simp]: "rps_pick True True True = Rock"
  by simp

lemma within_FindRPSDir:
  assumes "names_ok up" "contents_ok up"
  shows "within w (mount_at up, K) {At (rps_at up Paper)} (FindRPSDir up)"
proof -
  have "within w (mount_at up, K) {At (rps_at up Paper)} (eraseRPS up (rps_dir up (rps_next (rps_pick a b c))))"
    if "a" "b" "c" for a b c
    using that by (simp, intro within_eraseRPS assms) simp
  then show ?thesis
    unfolding FindRPSDir_def Let_def by (intro steps touches) auto
qed

definition rps_triple :: "target \<Rightarrow> rps \<Rightarrow> string \<times> string \<times> string" where
  "rps_triple up x = (rps_dir up (rps_prev x), rps_dir up x, rps_dir up (rps_next x))"

text \<open>The look at the directories, once their paths are built.\<close>

definition look_rps :: "target \<Rightarrow> (int + string \<times> string \<times> string) step" where
  "look_rps up = do {
     r \<leftarrow> stat_call (rps_dir up Rock);
     p \<leftarrow> stat_call (rps_dir up Paper);
     s \<leftarrow> stat_call (rps_dir up Scissors);
     let cur = rps_pick (r \<noteq> None) (p \<noteq> None) (s \<noteq> None);
     let found = (rps_dir up (rps_prev cur), rps_dir up cur, rps_dir up (rps_next cur));
     if r \<noteq> None \<and> p \<noteq> None \<and> s \<noteq> None
     then check (eraseRPS up (rps_dir up (rps_next cur))) (\<lambda>e. return (Inl e)) (return (Inr found))
     else return (Inr found)
   }"

lemma FindRPSDir_look:
  assumes "run_state (FindRPSDir up) s = (found, s')"
  obtains "found = Inl (ELAST + 1)" "still s s'"
  | t where "still s t" "run_state (look_rps up) t = (found, s')"
proof -
  obtain a1 s1 where b1: "run_state (build_path [curMount up, ''/'']) s = (a1, s1)" by fastforce
  obtain a2 s2 where b2: "run_state (build_path [rps_dir up Rock]) s1 = (a2, s2)" by fastforce
  obtain a3 s3 where b3: "run_state (build_path [rps_dir up Paper]) s2 = (a3, s3)" by fastforce
  obtain a4 s4 where b4: "run_state (build_path [rps_dir up Scissors]) s3 = (a4, s4)" by fastforce
  have st: "still s s1" "still s s2" "still s s3" "still s s4"
    using build_path_run [OF b1] build_path_run [OF b2] build_path_run [OF b3] build_path_run [OF b4]
    by (auto intro: still.trans)
  show thesis
  proof (cases "a1 = None \<or> a2 = None \<or> a3 = None \<or> a4 = None")
    case True
    then have "found = Inl (ELAST + 1) \<and> still s s'"
      using assms st b1 b2 b3 b4 by (cases a1; cases a2; cases a3; cases a4) (auto simp: FindRPSDir_def run_need)
    then show thesis using that(1) by blast
  next
    case False
    have "a2 = Some (rps_dir up Rock)" "a3 = Some (rps_dir up Paper)" "a4 = Some (rps_dir up Scissors)"
      using False build_path_run [OF b2] build_path_run [OF b3] build_path_run [OF b4] by auto
    with False assms b1 b2 b3 b4 have "run_state (look_rps up) s4 = (found, s')"
      by (cases a1) (simp_all add: FindRPSDir_def run_need look_rps_def)
    with st show thesis using that(2) by blast
  qed
qed

lemma look_rps_run:
  assumes ok: "stats_ok (world s)" "names_ok up" and run: "run_state (look_rps up) s = (found, s')"
  shows "found = Inr t \<Longrightarrow> t = rps_triple up (picked up (disk s))"
    "\<not> all_three up (disk s) \<Longrightarrow> still s s' \<and> found = Inr (rps_triple up (picked up (disk s)))"
    "all_three up (disk s) \<Longrightarrow> found = Inr t \<Longrightarrow> \<not> have_rps up (disk s') Paper"
    "found = Inl e \<Longrightarrow> e \<noteq> 0"
proof -
  obtain r s1 where r: "run_state (stat_call (rps_dir up Rock)) s = (r, s1)" by fastforce
  obtain p s2 where p: "run_state (stat_call (rps_dir up Paper)) s1 = (p, s2)" by fastforce
  obtain c s3 where c: "run_state (stat_call (rps_dir up Scissors)) s2 = (c, s3)" by fastforce
  have st1: "r = node_at (tree s) (rps_at up Rock)" "still s s1"
    using stat_call_run [OF ok(1) r] ok(2) by (simp_all add: comps_rps_dir)
  then have ok1: "stats_ok (world s1)" using ok(1) by (simp add: still_def)
  have st2: "p = node_at (tree s1) (rps_at up Paper)" "still s1 s2"
    using stat_call_run [OF ok1 p] ok(2) by (simp_all add: comps_rps_dir)
  then have ok2: "stats_ok (world s2)" using ok1 by (simp add: still_def)
  have st3: "c = node_at (tree s2) (rps_at up Scissors)" "still s2 s3"
    using stat_call_run [OF ok2 c] ok(2) by (simp_all add: comps_rps_dir)
  have still3: "still s s3" using st1 st2 st3 by (blast intro: still.trans)
  have ok3: "stats_ok (world s3)" using ok2 st3 by (simp add: still_def)
  have rpc: "(r \<noteq> None) = have_rps up (disk s) Rock" "(p \<noteq> None) = have_rps up (disk s) Paper"
    "(c \<noteq> None) = have_rps up (disk s) Scissors"
    using st1 st2 st3 by (simp_all add: have_rps_def still_def)
  have rest: "run_state
      (if all_three up (disk s)
       then check (eraseRPS up (rps_dir up Paper)) (\<lambda>e. return (Inl e)) (return (Inr (rps_triple up Rock)))
       else return (Inr (rps_triple up (picked up (disk s))))) s3 = (found, s')"
    using run
    by (simp add: look_rps_def r p c rpc Let_def all_three_def all_rps picked_def rps_triple_def del: not_None_eq
        cong: if_cong split del: if_split)
  show "found = Inr t \<Longrightarrow> t = rps_triple up (picked up (disk s))" "found = Inl e \<Longrightarrow> e \<noteq> 0"
    "\<not> all_three up (disk s) \<Longrightarrow> still s s' \<and> found = Inr (rps_triple up (picked up (disk s)))"
    using rest still3
    by (auto simp: run_check all_three_def picked_def split: if_splits prod.splits)
  show "all_three up (disk s) \<Longrightarrow> found = Inr t \<Longrightarrow> \<not> have_rps up (disk s') Paper"
    using rest eraseRPS_0 [OF ok3 ok(2)] by (auto simp: run_check split: if_splits prod.splits)
qed

lemma FindRPSDir_run:
  assumes ready: "ready up s" "names_ok up" and run: "run_state (FindRPSDir up) s = (found, s')"
  shows "found = Inr t \<Longrightarrow> t = rps_triple up (picked up (disk s))"
    "\<not> all_three up (disk s) \<Longrightarrow> still s s'"
    "all_three up (disk s) \<Longrightarrow> found = Inr t \<Longrightarrow> \<not> have_rps up (disk s') Paper"
    "found = Inl e \<Longrightarrow> e \<noteq> 0"
proof -
  have "(found = Inr t \<longrightarrow> t = rps_triple up (picked up (disk s))) \<and> (\<not> all_three up (disk s) \<longrightarrow> still s s') \<and>
    (all_three up (disk s) \<longrightarrow> found = Inr t \<longrightarrow> \<not> have_rps up (disk s') Paper) \<and> (found = Inl e \<longrightarrow> e \<noteq> 0)"
    using run
  proof (cases rule: FindRPSDir_look)
    case 1
    then show ?thesis by (auto simp: ELAST_def)
  next
    case (2 u)
    then have "stats_ok (world u)" "disk u = disk s" using ready by (simp_all add: still_def ready_def)
    with look_rps_run [OF this(1) ready(2) 2(2)] 2(1) show ?thesis by (auto intro: still.trans)
  qed
  then show "found = Inr t \<Longrightarrow> t = rps_triple up (picked up (disk s))"
    "\<not> all_three up (disk s) \<Longrightarrow> still s s'"
    "all_three up (disk s) \<Longrightarrow> found = Inr t \<Longrightarrow> \<not> have_rps up (disk s') Paper"
    "found = Inl e \<Longrightarrow> e \<noteq> 0" by blast+
qed

end
