(* ===== verification/BootCrash.thy ===== *)
theory BootCrash
  imports BootRPS
begin

text \<open>
  src/update_boot.c: an update of a helper that is cut short at any moment leaves the booter either the
  files it had or the complete new ones.
\<close>

section \<open>What holds between the steps\<close>

definition no_recovery :: "target \<Rightarrow> disk \<Rightarrow> bool" where
  "no_recovery up d \<longleftrightarrow> node_at (fst d) (mount_at up @ [kRecoveryBootDir up]) = None"

text \<open>The booter finds \<open>n\<close>; the caller has \<open>k\<close>.\<close>

definition holding :: "target \<Rightarrow> node \<Rightarrow> string \<times> bool \<Rightarrow> update \<Rightarrow> bool" where
  "holding up n k s \<longleftrightarrow>
     shown up (disk s) = Some n \<and> no_recovery up (disk s) \<and> kept (os.more s) = k"

text \<open>There is no next directory, so that the previous one can be changed.\<close>

definition settled :: "target \<Rightarrow> node \<Rightarrow> string \<times> bool \<Rightarrow> update \<Rightarrow> bool" where
  "settled up n k s \<longleftrightarrow> holding up n k s \<and> \<not> have_rps up (disk s) (rps_next (picked up (disk s)))"

lemma settled_holding: "settled up n k s \<Longrightarrow> holding up n k s"
  by (simp add: settled_def)

lemma untouched_recovery: "names_ok up \<Longrightarrow> \<not> touched ((\<lambda>y. At (rps_at up y)) ` Y) (mount_at up @ [kRecoveryBootDir up])"
proof -
  assume "names_ok up"
  then have "kRecoveryBootDir up \<noteq> rps_name up y" for y by (cases y) (auto simp: names_ok_def protected_def)
  then have "\<forall>y. rps_name up y \<noteq> kRecoveryBootDir up" by metis
  then show ?thesis by (auto simp: touched_def rps_at_def)
qed

lemma no_recovery_rps:
  "names_ok up \<Longrightarrow> agree ((\<lambda>y. At (rps_at up y)) ` Y) d d' \<Longrightarrow> no_recovery up d' = no_recovery up d"
  using agreeD [OF _ untouched_recovery] by (simp add: no_recovery_def)

lemma no_recovery_harmless:
  assumes "names_ok up" "agree (harmless_places up) d d'"
  shows "no_recovery up d' = no_recovery up d"
proof -
  have "\<not> touched (harmless_places up) (mount_at up @ [kRecoveryBootDir up])"
    by (auto simp: touched_def harmless_places_def elsewhere_def protected_def prefix_def
        append_eq_Cons_conv Cons_eq_append_conv)
  with agreeD [OF assms(2)] show ?thesis by (simp add: no_recovery_def)
qed

lemma still_holding:
  "still s s' \<Longrightarrow> holding up n k s' = holding up n k s \<and> settled up n k s' = settled up n k s"
  by (simp add: still_def holding_def settled_def)

lemma agree_none: "agree {} d d' \<Longrightarrow> d' = d"
proof -
  assume "agree {} d d'"
  then have "snd d' = snd d" "node_at (fst d') [] = node_at (fst d) []"
    using agreeD [of "{}" d d' "[]"] by (auto simp: agree_def touched_def)
  then show "d' = d" by (simp add: prod_eq_iff)
qed

text \<open>Steps that leave the three directories and the recovery directory alone.\<close>

lemma safe_harmless:
  assumes ok: "names_ok up" and m: "harmless up m"
  shows "safe up (\<lambda>d. shown up d = Some n) (holding up n k) m (\<lambda>_. holding up n k)"
    "safe up (\<lambda>d. shown up d = Some n) (settled up n k) m (\<lambda>_. settled up n k)"
proof -
  have "shown up d = Some n"
    if "holding up n k s \<or> settled up n k s" "agree (harmless_places up) (disk s) d" for s d
    using that shown_harmless [OF ok that(2)] by (auto simp: holding_def settled_def simp del: kept_more)
  moreover have "holding up n k s' = holding up n k s \<and> settled up n k s' = settled up n k s"
    if "agree (harmless_places up) (disk s) (disk s')" "kept (os.more s') = kept (os.more s)" for s s'
    using that shown_harmless [OF ok that(1)] no_recovery_harmless [OF ok that(1)]
    by (simp add: holding_def settled_def)
  ultimately show "safe up (\<lambda>d. shown up d = Some n) (holding up n k) m (\<lambda>_. holding up n k)"
    "safe up (\<lambda>d. shown up d = Some n) (settled up n k) m (\<lambda>_. settled up n k)"
    using m by (auto simp del: split_paired_All kept_more intro!: safe_within [where F = "harmless_places up" and K = kept])
qed

lemma safe_prev:
  assumes ok: "names_ok up"
    and m: "\<And>w. within w (mount_at up, kept) {At (rps_at up (rps_prev x))} m"
    and x: "\<And>s. I s \<Longrightarrow> settled up n k s \<and> picked up (disk s) = x"
  shows "safe up (\<lambda>d. shown up d = Some n) I m (\<lambda>_ s. settled up n k s \<and> picked up (disk s) = x)"
proof (rule safe_within [where F = "{At (rps_at up (rps_prev x))}" and K = kept, OF m])
  have d: "shown up d = Some n \<and> picked up d = x \<and> \<not> have_rps up d (rps_next x) \<and> no_recovery up d"
    if "I s" "agree {At (rps_at up (rps_prev x))} (disk s) d" for s d
  proof -
    have "shown up (disk s) = Some n" "\<not> have_rps up (disk s) (rps_next (picked up (disk s)))"
      "picked up (disk s) = x" "no_recovery up (disk s)"
      using x [OF that(1)] by (auto simp: settled_def holding_def)
    then show ?thesis
      using shown_prev_changes [OF ok, of "disk s" d] no_recovery_rps [OF ok, of "{rps_prev x}" "disk s" d] that(2)
      by simp
  qed
  then show "I s \<Longrightarrow> agree {At (rps_at up (rps_prev x))} (disk s) d \<Longrightarrow> shown up d = Some n" for s d
    by blast
  show "settled up n k s' \<and> picked up (disk s') = x"
    if "I s" "agree {At (rps_at up (rps_prev x))} (disk s) (disk s')" "kept (os.more s') = kept (os.more s)" for s s'
    using d [OF that(1,2)] that(3) x [OF that(1)] by (simp add: settled_def holding_def)
qed simp

section \<open>The steps that concern the directories\<close>

lemma safe_FindRPSDir:
  assumes ok: "names_ok up" "contents_ok up"
  shows "safe up (\<lambda>d. shown up d = Some n) (holding up n k) (FindRPSDir up)
    (\<lambda>found s. case found of
        Inl e \<Rightarrow> e \<noteq> 0 \<and> holding up n k s
      | Inr t \<Rightarrow> settled up n k s \<and> t = rps_triple up (picked up (disk s)))"
  unfolding safe_def
proof (intro allI impI)
  fix s found s' assume I: "holding up n k s" and ready: "ready up s"
    and run: "run_state (FindRPSDir up) s = (found, s')"
  note find = FindRPSDir_run [OF ready ok(1) run]
  have n: "shown up (disk s) = Some n" "no_recovery up (disk s)" "kept (os.more s) = k"
    using I by (simp_all add: holding_def)
  show "(case found of Inl e \<Rightarrow> e \<noteq> 0 \<and> holding up n k s'
      | Inr t \<Rightarrow> settled up n k s' \<and> t = rps_triple up (picked up (disk s'))) \<and>
    ready up s' \<and> visits s s' (\<lambda>d. shown up d = Some n)"
  proof (cases "all_three up (disk s)")
    case False
    then have st: "still s s'" by (rule find(2))
    then have "visits s s' (\<lambda>d. shown up d = Some n)" "ready up s'" "disk s' = disk s"
      using ready by (auto simp: visits_def still_def ready_def)
    moreover have "settled up n k s" using I next_absent [OF _ False] n by (simp add: settled_def)
    ultimately show ?thesis using find(1,4) I still_holding [OF st] by (auto split: sum.split)
  next
    case True
    have safe: "safe up (\<lambda>d. shown up d = Some n) (\<lambda>s. holding up n k s \<and> all_three up (disk s)) (FindRPSDir up)
        (\<lambda>_ s'. holding up n k s' \<and> picked up (disk s') = Rock)"
    proof (rule safe_within [where F = "{At (rps_at up Paper)}" and K = kept])
      have d: "shown up d = Some n \<and> picked up d = Rock \<and> no_recovery up d"
        if "holding up n k s \<and> all_three up (disk s)" "agree {At (rps_at up Paper)} (disk s) d" for s d
        using that shown_all_three [OF ok(1), of "disk s" d] no_recovery_rps [OF ok(1), of "{Paper}" "disk s" d]
        by (simp add: holding_def)
      then show "holding up n k s \<and> all_three up (disk s) \<Longrightarrow> agree {At (rps_at up Paper)} (disk s) d \<Longrightarrow>
          shown up d = Some n" for s d by blast
      show "holding up n k s' \<and> picked up (disk s') = Rock"
        if "holding up n k s \<and> all_three up (disk s)" "agree {At (rps_at up Paper)} (disk s) (disk s')"
          "kept (os.more s') = kept (os.more s)" for s s'
        using d [OF that(1,2)] that(1,3) by (simp add: holding_def)
    qed (auto intro: within_FindRPSDir ok)
    have "holding up n k s' \<and> picked up (disk s') = Rock \<and> ready up s' \<and> visits s s' (\<lambda>d. shown up d = Some n)"
      using safeD [OF safe _ ready run] I True by blast
    moreover have "picked up (disk s) = Rock" using True by (simp add: all_three_def picked_def)
    ultimately show ?thesis using find(1,3,4) True by (auto simp: settled_def split: sum.split)
  qed
qed

text \<open>Without a recovery directory nothing is blessed, and the current directory is not erased.\<close>

lemma blessRecovery_fails:
  assumes "stats_ok (world s)" "dir_at (disk s) (mount_at up)" "no_recovery up (disk s)" "names_ok up"
    "run_state (blessRecovery up) s = (r, s')"
  shows "r \<noteq> 0" "still s s'"
proof -
  obtain x t where path: "run_state (build_path [curMount up, ''/'' @ kRecoveryBootDir up]) s = (x, t)" by fastforce
  then have t: "still s t" "x = None \<or> x = Some (curMount up @ ''/'' @ kRecoveryBootDir up)"
    using build_path_run [OF path] by simp_all
  have at: "comps (curMount up @ CHR ''/'' # kRecoveryBootDir up) = mount_at up @ [kRecoveryBootDir up]"
    using assms(4) by (simp add: names_ok_def protected_def comps_append)
  obtain n u where stat: "run_state (stat_call (curMount up @ ''/'' @ kRecoveryBootDir up)) t = (n, u)" by fastforce
  have "n = None" "still t u" "errno u = ENOENT"
    using stat_call_run [OF _ stat] assms t(1) path_error_missing [of "tree t" "mount_at up" _ "kRecoveryBootDir up"]
    by (auto simp: still_def at no_recovery_def dir_at_def)
  with path stat t assms(5) show "r \<noteq> 0" "still s s'"
    by (auto simp: blessRecovery_def run_need errno_defs split: option.splits intro: still.trans)
qed

lemma safe_eraseRPSIfRecoveryBlessed:
  assumes "names_ok up" "\<And>s. I s \<Longrightarrow> holding up n k s"
  shows "safe up V I (eraseRPSIfRecoveryBlessed up x) (\<lambda>_ s'. \<exists>s. I s \<and> still s s')"
proof (rule safe_still)
  fix s r s' assume I: "I s" and "ready up s" and run: "run_state (eraseRPSIfRecoveryBlessed up x) s = (r, s')"
  obtain e t where bless: "run_state (blessRecovery up) s = (e, t)" by fastforce
  have "e \<noteq> 0" "still s t"
    using blessRecovery_fails [OF _ _ _ assms(1) bless] assms(2) [OF I] \<open>ready up s\<close>
    by (auto simp: holding_def ready_def)
  with bless run show "still s s' \<and> (\<exists>s. I s \<and> still s s')"
    using I by (auto simp: eraseRPSIfRecoveryBlessed_def run_check)
qed

text \<open>The choice of the target: the previous directory.\<close>

definition chosen :: "target \<Rightarrow> node \<Rightarrow> bool \<Rightarrow> rps \<Rightarrow> update \<Rightarrow> bool" where
  "chosen up n b x s \<longleftrightarrow> settled up n (rps_dir up (rps_prev x), b) s \<and> picked up (disk s) = x"

lemma chosen_holding: "chosen up n b x s \<Longrightarrow> holding up n (rps_dir up (rps_prev x), b) s"
  by (simp add: chosen_def settled_def)

lemma still_chosen: "chosen up n b x s \<Longrightarrow> still s s' \<Longrightarrow> chosen up n b x s'"
  using still_holding [of s s' up n "(rps_dir up (rps_prev x), b)"] by (simp add: chosen_def still_def)

lemma rps_dir_inject: "names_ok up \<Longrightarrow> rps_dir up x = rps_dir up y \<longleftrightarrow> x = y"
  using comps_rps_dir [of up] rps_at_inject by metis

lemma rps_triple_inject: "names_ok up \<Longrightarrow> rps_triple up x = rps_triple up y \<longleftrightarrow> x = y"
  by (auto simp: rps_triple_def rps_dir_inject)

lemma safe_modify:
  assumes "\<And>s. I s \<Longrightarrow> world (f s) = world s \<and> disk (f s) = disk s \<and> history (f s) = history s \<and> J (f s)"
  shows "safe up V I (modify f) (\<lambda>_. J)"
  unfolding safe_def using assms by (auto simp: ready_def visits_def)

lemma safe_ucopyRPS:
  assumes ok: "names_ok up" "contents_ok up" "\<not> flat up"
  shows "safe up (\<lambda>d. shown up d = Some n) (holding up n (d, b)) (ucopyRPS up)
    (\<lambda>r s. (\<exists>k'. holding up n k' s) \<and> (r = 0 \<longrightarrow> (\<exists>x. chosen up n b x s)))"
    (is "safe up ?V ?I _ ?J")
proof -
  have fill: "safe up ?V (chosen up n b x) (fill_dstdir up (rps_dir up (rps_prev x)) (rps_dir up (rps_prev x))) ?J" for x
  proof -
    have "safe up ?V (chosen up n b x) (fill_dstdir up (rps_dir up (rps_prev x)) (rps_dir up (rps_prev x)))
        (\<lambda>_ s. settled up n (rps_dir up (rps_prev x), b) s \<and> picked up (disk s) = x)"
      using ok by (intro safe_prev within_fill_dstdir) (auto simp: chosen_def)
    then show ?thesis by (rule safe_conseq) (auto simp: chosen_def dest: settled_holding)
  qed
  have rest: "safe up ?V (chosen up n b x) (do {
      eraseRPSIfRecoveryBlessed up (rps_dir up x);
      fill_dstdir up (rps_dir up (rps_prev x)) (rps_dir up (rps_prev x)) }) ?J" for x
  proof (rule safe_bind)
    show "safe up ?V (chosen up n b x) (eraseRPSIfRecoveryBlessed up (rps_dir up x)) (\<lambda>_. chosen up n b x)"
      by (rule safe_conseq [OF safe_eraseRPSIfRecoveryBlessed [OF ok(1), where I = "chosen up n b x"]])
        (auto dest: still_chosen chosen_holding)
  qed (rule fill)
  have "safe up ?V ?I (do {
      found \<leftarrow> FindRPSDir up;
      case found of
        Inl e \<Rightarrow> return e
      | Inr (prevRPS, curRPS, discard) \<Rightarrow> do {
          modify (dstdir_update (\<lambda>_. prevRPS));
          eraseRPSIfRecoveryBlessed up curRPS;
          fill_dstdir up prevRPS prevRPS
        }
    }) ?J"
  proof (rule safe_bind [OF safe_FindRPSDir [OF ok(1,2)]])
    fix found
    show "safe up ?V (\<lambda>s. case found of
        Inl e \<Rightarrow> e \<noteq> 0 \<and> holding up n (d, b) s
      | Inr t \<Rightarrow> settled up n (d, b) s \<and> t = rps_triple up (picked up (disk s)))
      (case found of
        Inl e \<Rightarrow> return e
      | Inr (prevRPS, curRPS, discard) \<Rightarrow> do {
          modify (dstdir_update (\<lambda>_. prevRPS));
          eraseRPSIfRecoveryBlessed up curRPS;
          fill_dstdir up prevRPS prevRPS
        }) ?J"
    proof (cases found)
      case (Inl e)
      then show ?thesis by (auto intro!: safe_return)
    next
      case (Inr t)
      show ?thesis
      proof (cases "\<exists>x. t = rps_triple up x")
        case False
        then show ?thesis using Inr by (auto simp: safe_def)
      next
        case True
        then obtain x where t: "t = rps_triple up x" ..
        have m: "safe up ?V (\<lambda>s. settled up n (d, b) s \<and> t = rps_triple up (picked up (disk s)))
            (modify (dstdir_update (\<lambda>_. rps_dir up (rps_prev x)))) (\<lambda>_. chosen up n b x)"
          by (intro safe_modify) (simp add: chosen_def settled_def holding_def t rps_triple_inject [OF ok(1)])
        have "safe up ?V (\<lambda>s. settled up n (d, b) s \<and> t = rps_triple up (picked up (disk s))) (do {
            modify (dstdir_update (\<lambda>_. rps_dir up (rps_prev x)));
            eraseRPSIfRecoveryBlessed up (rps_dir up x);
            fill_dstdir up (rps_dir up (rps_prev x)) (rps_dir up (rps_prev x)) }) ?J"
          by (rule safe_bind [OF m rest])
        with Inr t show ?thesis by (simp add: rps_triple_def)
      qed
    qed
  qed
  then show ?thesis unfolding ucopyRPS_def by (simp only: ok(3) if_False)
qed

section \<open>The switch\<close>

lemma safe_result:
  "safe up V I m J \<Longrightarrow> (\<And>s r s'. run_state m s = (r, s') \<Longrightarrow> P r) \<Longrightarrow> safe up V I m (\<lambda>r s. J r s \<and> P r)"
  unfolding safe_def by blast

text \<open>A step that leaves the disk and the caller's state alone keeps everything that is about them.\<close>

definition about_disk :: "(update \<Rightarrow> bool) \<Rightarrow> bool" where
  "about_disk I \<longleftrightarrow> (\<forall>s s'. disk s' = disk s \<longrightarrow> kept (os.more s') = kept (os.more s) \<longrightarrow> I s \<longrightarrow> I s')"

lemma safe_quiet:
  assumes "\<And>w. within w (mount_at up, kept) {} m" "about_disk I" "\<And>s. I s \<Longrightarrow> V (disk s)"
  shows "safe up V I m (\<lambda>_. I)"
  by (rule safe_within [where F = "{}" and K = kept, OF assms(1)])
    (use assms(2,3) in \<open>auto simp: apart_def about_disk_def simp del: kept_more dest!: agree_none\<close>)

lemma rename_at_run:
  assumes "run_state (rename_at d old new) s = (r, s')" "comps old = [a]" "comps new = [b]" "a \<noteq> b"
  shows "world s' = world s \<and> os.more s' = os.more s \<and>
    (r \<noteq> 0 \<and> disk s' = disk s \<and> history s' = history s \<or>
     r = 0 \<and> history s' = disk s # history s \<and>
     (\<exists>n. node_at (tree s) (d @ [a]) = Some n \<and>
        disk s' = (put_at (d @ [b]) (Some n) (put_at (d @ [a]) None (tree s)), snd (disk s))))"
  using assms by (auto simp: rename_at_def change_def missing_def dest!: attempt_cases
      split: prod.splits if_splits option.splits node.splits) (simp_all add: prod_eq_iff)

lemma rename_effect:
  assumes "node_at t (d @ [a]) = Some n" "a \<noteq> b"
  defines "t' \<equiv> put_at (d @ [b]) (Some n) (put_at (d @ [a]) None t)"
  shows "node_at t' (d @ [b]) = Some n" "node_at t' (d @ [a]) = None"
    "c \<noteq> a \<Longrightarrow> c \<noteq> b \<Longrightarrow> node_at t' (d @ [c]) = node_at t (d @ [c])"
proof -
  from assms(1) obtain x where x: "node_at t d = Some x" "is_dir x" by (rule node_at_parent_dir) simp
  then have "node_at (put_at (d @ [a]) None t) d = Some (put_at [a] None x)" by (simp add: put_at_below)
  with x(2) show "node_at t' (d @ [b]) = Some n" unfolding t'_def by (intro put_at_same) (assumption, simp)
  show "node_at t' (d @ [a]) = None" using assms(1,2) by (simp add: t'_def put_at_other put_at_removes)
  show "c \<noteq> a \<Longrightarrow> c \<noteq> b \<Longrightarrow> node_at t' (d @ [c]) = node_at t (d @ [c])" by (simp add: t'_def put_at_other)
qed

text \<open>The previous directory has \<open>m\<close>, if there is one.\<close>

definition staged :: "target \<Rightarrow> node \<Rightarrow> node option \<Rightarrow> bool \<Rightarrow> rps \<Rightarrow> update \<Rightarrow> bool" where
  "staged up n m b x s \<longleftrightarrow> chosen up n b x s \<and> node_at (tree s) (rps_at up (rps_prev x)) = m"

definition switched :: "target \<Rightarrow> node option \<Rightarrow> update \<Rightarrow> bool" where
  "switched up m s \<longleftrightarrow> (\<exists>n k. m = Some n \<and> settled up n k s)"

definition one_of :: "node \<Rightarrow> node option \<Rightarrow> node option \<Rightarrow> bool" where
  "one_of n m v \<longleftrightarrow> v = Some n \<or> m \<noteq> None \<and> v = m"

abbreviation either :: "target \<Rightarrow> node \<Rightarrow> node option \<Rightarrow> disk \<Rightarrow> bool" where
  "either up n m \<equiv> \<lambda>d. one_of n m (shown up d)"

lemma about_staged: "about_disk (staged up n m b x)"
  by (auto simp: about_disk_def staged_def chosen_def settled_def holding_def)

lemma staged_either: "staged up n m b x s \<Longrightarrow> either up n m (disk s)"
  by (simp add: staged_def chosen_def settled_def holding_def one_of_def)

lemma rps_next_prev [simp]: "rps_next (rps_prev x) = x" "rps_prev (rps_next x) = x" "rps_next (rps_next x) = rps_prev x"
  by (cases x; simp)+

lemma switch_effect:
  assumes ok: "names_ok up" and s: "staged up n m b x s" and m: "m = Some n'"
    and d: "fst d = put_at (rps_at up (rps_next x)) (Some n') (put_at (rps_at up (rps_prev x)) None (tree s))"
  shows "shown up d = Some n'" "picked up d = rps_next x" "no_recovery up d" "\<not> have_rps up d (rps_prev x)"
proof -
  let ?p = "rps_name up (rps_prev x)" and ?n = "rps_name up (rps_next x)"
  have prev: "node_at (tree s) (mount_at up @ [?p]) = Some n'" using s m by (simp add: staged_def rps_at_def)
  have ne: "rps_name up y = rps_name up z \<longleftrightarrow> y = z" for y z
    using rps_at_inject [OF ok, of y z] by (simp add: rps_at_def)
  have rec: "kRecoveryBootDir up \<noteq> rps_name up y" for y using ok by (cases y) (auto simp: names_ok_def protected_def)
  note eff = rename_effect [OF prev, of ?n, folded rps_at_def, folded d]
  have at: "node_at (fst d) (rps_at up (rps_next x)) = Some n'" "node_at (fst d) (rps_at up (rps_prev x)) = None"
    "node_at (fst d) (rps_at up x) = node_at (tree s) (rps_at up x)"
    using eff(1,2) eff(3) [of "rps_name up x"] by (simp_all add: ne rps_at_def)
  show none: "\<not> have_rps up d (rps_prev x)" using at by (simp add: have_rps_def)
  have x: "node_at (tree s) (rps_at up x) = Some n" "no_recovery up (disk s)"
    using s by (auto simp: staged_def chosen_def settled_def holding_def shown_def)
  then show pick: "picked up d = rps_next x" using picked_next [of up d x] at none by (simp add: have_rps_def)
  with at show "shown up d = Some n'" by (simp add: shown_def)
  show "no_recovery up d" using eff(3) [of "kRecoveryBootDir up"] rec x(2) by (simp add: no_recovery_def ne)
qed

lemma safe_rename_rps:
  assumes ok: "names_ok up"
  shows "safe up (either up n m) (staged up n m b x)
    (rename_at (mount_at up) (rps_name up (rps_prev x)) (rps_name up (rps_next x)))
    (\<lambda>r s. if r = 0 then switched up m s else staged up n m b x s)"
  unfolding safe_def
proof (intro allI impI)
  fix s r s' assume I: "staged up n m b x s" and ready: "ready up s"
    and run: "run_state (rename_at (mount_at up) (rps_name up (rps_prev x)) (rps_name up (rps_next x))) s = (r, s')"
  have names: "comps (rps_name up y) = [rps_name up y]" for y using ok by (cases y) (auto simp: names_ok_def protected_def)
  have ne: "rps_name up (rps_prev x) \<noteq> rps_name up (rps_next x)"
    using rps_at_inject [OF ok, of "rps_prev x" "rps_next x"] by (simp add: rps_at_def)
  note cases = rename_at_run [OF run names names ne]
  show "(if r = 0 then switched up m s' else staged up n m b x s') \<and> ready up s' \<and> visits s s' (either up n m)"
  proof (cases "r = 0")
    case False
    then have same: "disk s' = disk s" "history s' = history s" "world s' = world s" "os.more s' = os.more s"
      using cases by auto
    with I about_staged [of up n m b x]
    have "staged up n m b x s'" unfolding about_disk_def by metis
    with same False ready show ?thesis by (simp add: ready_def visits_def)
  next
    case True
    with cases obtain n' where n': "node_at (tree s) (rps_at up (rps_prev x)) = Some n'"
      and d: "fst (disk s') = put_at (rps_at up (rps_next x)) (Some n') (put_at (rps_at up (rps_prev x)) None (tree s))"
      by (auto simp: rps_at_def)
    have m: "m = Some n'" using I n' by (simp add: staged_def)
    have "settled up n' (kept (os.more s')) s'"
      using switch_effect [OF ok I m d] by (simp add: settled_def holding_def)
    moreover have "node_at (tree s') (mount_at up @ [rps_name up (rps_next x)]) = Some n'"
      using switch_effect(1,2) [OF ok I m d] by (simp add: shown_def rps_at_def)
    then have "dir_at (disk s') (mount_at up)" by (rule node_at_parent_dir) (auto simp: dir_at_def)
    then have "ready up s'" using ready cases by (simp add: ready_def)
    moreover have "visits s s' (either up n m)" using True cases staged_either [OF I] by (simp add: visits_def)
    ultimately show ?thesis using True m by (auto simp: switched_def)
  qed
qed

lemma safe_srename_rps:
  assumes ok: "names_ok up"
  shows "safe up (either up n m) (staged up n m b x)
    (srename (curbootfd up) (rps_dir up (rps_prev x)) (rps_dir up (rps_next x)))
    (\<lambda>r s. if r = 0 then switched up m s else staged up n m b x s)"
proof -
  have names: "comps (rps_name up y) = [rps_name up y]" for y using ok by (cases y) (auto simp: names_ok_def protected_def)
  have base: "basename (rps_dir up y) = rps_name up y" "comps (dirname (rps_dir up y)) = mount_at up" for y
    using basename_below [OF names] by (simp_all add: rps_dir_def)
  have quiet: "safe up (either up n m) (staged up n m b x) q (\<lambda>_. staged up n m b x)"
    if "\<And>w. within w (mount_at up, kept) {} q" for q :: "'a step"
    by (rule safe_quiet [OF that about_staged]) (rule staged_either)
  show ?thesis unfolding srename_def
  proof (rule safe_need)
    show "safe up (either up n m) (staged up n m b x) (build_path [rps_dir up (rps_next x)])
        (\<lambda>_. staged up n m b x)" by (rule quiet) (rule touches)
    show "safe up (either up n m) (staged up n m b x)
        (need (schdirparent (curbootfd up) (rps_dir up (rps_prev x))) (return (- 1))
          (\<lambda>dir. rename_at dir (basename (rps_dir up (rps_prev x))) (basename (rps_dir up (rps_next x)))))
        (\<lambda>r s. if r = 0 then switched up m s else staged up n m b x s)"
    proof (rule safe_need)
      show "safe up (either up n m) (staged up n m b x) (schdirparent (curbootfd up) (rps_dir up (rps_prev x)))
          (\<lambda>r s. staged up n m b x s \<and> (r = None \<or> r = Some (mount_at up)))"
        by (rule safe_result [OF quiet]) (rule touches, metis base(2) not_Some_eq schdirparent_Some(1))
      show "safe up (either up n m) (\<lambda>s. staged up n m b x s \<and> (Some d = None \<or> Some d = Some (mount_at up)))
          (rename_at d (basename (rps_dir up (rps_prev x))) (basename (rps_dir up (rps_next x))))
          (\<lambda>r s. if r = 0 then switched up m s else staged up n m b x s)" for d
      proof (cases "d = mount_at up")
        case True
        show ?thesis unfolding True base by (rule safe_conseq [OF safe_rename_rps [OF ok]]) simp_all
      qed (simp add: safe_def)
    qed (rule safe_return, simp)
  qed (rule safe_return, simp)
qed

lemma FindRPSDir_staged:
  assumes ok: "names_ok up"
  shows "safe up V (staged up n m b x) (FindRPSDir up)
    (\<lambda>found s. staged up n m b x s \<and> (\<forall>t. found = Inr t \<longrightarrow> t = rps_triple up x))"
proof (rule safe_still)
  fix s found s' assume I: "staged up n m b x s" and ready: "ready up s"
    and run: "run_state (FindRPSDir up) s = (found, s')"
  note find = FindRPSDir_run [OF ready ok run]
  have x: "picked up (disk s) = x" "\<not> have_rps up (disk s) (rps_next x)"
    using I by (auto simp: staged_def chosen_def settled_def)
  then have "\<not> all_three up (disk s)" by (auto simp: all_three_def)
  then have st: "still s s'" by (rule find(2))
  then have "staged up n m b x s'" using I about_staged [of up n m b x] unfolding about_disk_def still_def by metis
  with st x find(1) show "still s s' \<and> staged up n m b x s' \<and> (\<forall>t. found = Inr t \<longrightarrow> t = rps_triple up x)"
    by auto
qed

lemma safe_simple_call [simp]:
  "about_disk I \<Longrightarrow> (\<And>s. I s \<Longrightarrow> V (disk s)) \<Longrightarrow> safe up V I (simple_call c) (\<lambda>_. I)"
  by (rule safe_quiet) (rule touches)

lemma about_switched: "about_disk (switched up m)"
proof -
  have "about_disk (settled up n k)" for n k by (auto simp: about_disk_def settled_def holding_def)
  then show ?thesis unfolding about_disk_def switched_def by blast
qed

lemma switched_either: "switched up m s \<Longrightarrow> either up n m (disk s)"
  by (auto simp: switched_def settled_def holding_def one_of_def)

lemma safe_activateRPS:
  assumes ok: "names_ok up" "\<not> flat up"
  shows "safe up (either up n m) (staged up n m b x) (activateRPS up)
    (\<lambda>r s. if r = 0 then switched up m s else switched up m s \<or> staged up n m b x s)"
    (is "safe up ?V ?I _ ?J")
proof -
  have "safe up ?V ?I (do {
      found \<leftarrow> FindRPSDir up;
      dst \<leftarrow> gets dstdir;
      case found of
        Inl e \<Rightarrow> return (ELAST + 1)
      | Inr (prevRPS, curRPS, nextRPS) \<Rightarrow>
          if curRPS = dst then return 0 else srename (curbootfd up) prevRPS nextRPS
    }) (\<lambda>r s. if r = 0 then switched up m s else staged up n m b x s)"
    (is "safe _ _ _ _ ?K")
  proof (rule safe_bind [OF FindRPSDir_staged [OF ok(1)]], rule safe_bind)
    fix found dst
    show "safe up ?V (\<lambda>s. staged up n m b x s \<and> (\<forall>t. found = Inr t \<longrightarrow> t = rps_triple up x)) (gets dstdir)
        (\<lambda>dst s. staged up n m b x s \<and> (\<forall>t. found = Inr t \<longrightarrow> t = rps_triple up x) \<and>
          dst = rps_dir up (rps_prev x))"
      by (rule safe_gets) (auto simp: staged_def chosen_def settled_def holding_def)
    show "safe up ?V (\<lambda>s. staged up n m b x s \<and> (\<forall>t. found = Inr t \<longrightarrow> t = rps_triple up x) \<and>
          dst = rps_dir up (rps_prev x))
        (case found of
          Inl e \<Rightarrow> return (ELAST + 1)
        | Inr (prevRPS, curRPS, nextRPS) \<Rightarrow>
            if curRPS = dst then return 0 else srename (curbootfd up) prevRPS nextRPS) ?K"
    proof (cases "found = Inr (rps_triple up x) \<and> dst = rps_dir up (rps_prev x)")
      case True
      then show ?thesis using safe_srename_rps [OF ok(1), of n m b x] rps_dir_inject [OF ok(1)]
        by (simp add: rps_triple_def)
    next
      case False
      then show ?thesis by (cases found) (auto simp: safe_def ELAST_def)
    qed
  qed
  with ok(2) have main: "safe up ?V ?I (if flat up then return 0 else do {
      found \<leftarrow> FindRPSDir up;
      dst \<leftarrow> gets dstdir;
      case found of
        Inl e \<Rightarrow> return (ELAST + 1)
      | Inr (prevRPS, curRPS, nextRPS) \<Rightarrow>
          if curRPS = dst then return 0 else srename (curbootfd up) prevRPS nextRPS
    }) ?K" by (simp only: if_False)
  show ?thesis unfolding activateRPS_def
    by (rule safe_check [OF main])
      (auto simp: ELAST_def about_switched switched_either intro!: safe_return safe_check [where J = "\<lambda>_. switched up m"])
qed


section \<open>A whole helper\<close>

definition stable :: "target \<Rightarrow> (update \<Rightarrow> bool) \<Rightarrow> bool" where
  "stable up I \<longleftrightarrow> (\<forall>s s'. agree (harmless_places up) (disk s) (disk s') \<longrightarrow>
     kept (os.more s') = kept (os.more s) \<longrightarrow> I s \<longrightarrow> I s')"

lemma stable_staged:
  assumes ok: "names_ok up"
  shows "stable up (staged up n m b x)" "stable up (holding up n k)" "stable up (settled up n k)"
proof -
  have "(holding up n k s \<longrightarrow> holding up n k s') \<and> (settled up n k s \<longrightarrow> settled up n k s') \<and>
      (staged up n m b x s \<longrightarrow> staged up n m b x s')"
    if "agree (harmless_places up) (disk s) (disk s')" "kept (os.more s') = kept (os.more s)" for s s' k
    using that shown_harmless [OF ok that(1)] no_recovery_harmless [OF ok that(1)]
    by (auto simp: holding_def settled_def staged_def chosen_def)
  then show "stable up (staged up n m b x)" "stable up (holding up n k)" "stable up (settled up n k)"
    unfolding stable_def by blast+
qed

lemma stable_switched: "names_ok up \<Longrightarrow> stable up (switched up m)"
  using stable_staged(3) [of up] unfolding stable_def switched_def by blast

lemma stable_disj: "stable up I \<Longrightarrow> stable up J \<Longrightarrow> stable up (\<lambda>s. I s \<or> J s)"
  unfolding stable_def by blast

lemma stable_ex: "(\<And>x. stable up (I x)) \<Longrightarrow> stable up (\<lambda>s. \<exists>x. I x s)"
  unfolding stable_def by blast

lemma safe_stable:
  assumes "harmless up m" "stable up I" "names_ok up" "\<And>s. I s \<Longrightarrow> P (shown up (disk s))"
  shows "safe up (\<lambda>d. P (shown up d)) I m (\<lambda>_. I)"
proof (rule safe_within [where F = "harmless_places up" and K = kept])
  show "within w (mount_at up, kept) (harmless_places up) m" for w using assms(1) by blast
  show "P (shown up d)" if "I s" "agree (harmless_places up) (disk s) d" for s d
    using shown_harmless(3) [OF assms(3) that(2)] assms(4) [OF that(1)] by simp
  show "I s'" if "I s" "agree (harmless_places up) (disk s) (disk s')" "kept (os.more s') = kept (os.more s)" for s s'
    using assms(2) that unfolding stable_def by blast
qed simp

lemma safe_ex: "(\<And>x. safe up V (I x) m J) \<Longrightarrow> safe up V (\<lambda>s. \<exists>x. I x s) m J"
  unfolding safe_def by blast

lemma safe_disj: "safe up V I m J \<Longrightarrow> safe up V I' m J \<Longrightarrow> safe up V (\<lambda>s. I s \<or> I' s) m J"
  unfolding safe_def by blast

text \<open>What follows the copying: \<open>I\<close> holds until the directories are switched.\<close>

definition after_copy :: "target \<Rightarrow> int step" where
  "after_copy up = do {
     misc \<leftarrow> gets doMisc;
     (if misc then do { _ \<leftarrow> ucopyMisc up; return () } else return ());
     check (if opts up AND kBRUExpectUpToDate \<noteq> 0 then moveLabels up else nukeBRLabels up) return (do {
       booters \<leftarrow> gets doBooters;
       check (if booters then ucopyBooters up else return 0) return
         (check (if booters then activateBooters up else return 0) return (do {
            rps \<leftarrow> gets doRPS;
            check (if rps then activateRPS up else return 0) return
              (check (activateMisc up) return (do {
                 (if \<not> customSource up \<and> \<not> customDest up
                  then do { _ \<leftarrow> markNotBRDefault (curbootfd up) (curMount up) [] False; return () } else return ());
                 set_changestate nothingSerious;
                 return 0
               }))
          }))
     })
   }"

lemma update_contents_after:
  "update_contents up = do {
     rps \<leftarrow> gets doRPS;
     check (if rps then ucopyRPS up else return 0) return (after_copy up)
   }"
  by (simp add: update_contents_def after_copy_def)

lemma safe_harmless_then:
  assumes "well_placed up" "names_ok up" "stable up I" "\<And>s. I s \<Longrightarrow> P (shown up (disk s))"
  shows "safe up (\<lambda>d. P (shown up d)) I (check (activateMisc up) return (do {
                 (if \<not> customSource up \<and> \<not> customDest up
                  then do { _ \<leftarrow> markNotBRDefault (curbootfd up) (curMount up) [] False; return () } else return ());
                 set_changestate nothingSerious;
                 return 0
               })) (\<lambda>_. I)"
  using assms by (intro safe_stable allI steps touches harmless_activateMisc [rule_format] harmless_markNotBRDefault [rule_format])

lemma safe_after_copy:
  assumes wp: "well_placed up" and ok: "names_ok up" and I: "stable up I" "\<And>s. I s \<Longrightarrow> P (shown up (disk s))"
    and b: "\<And>s. I s \<Longrightarrow> doRPS s = b"
    and activate: "safe up (\<lambda>d. P (shown up d)) I (if b then activateRPS up else return 0) J"
    and J: "stable up (J 0)" "\<And>r s. J r s \<Longrightarrow> P (shown up (disk s))"
    and K: "\<And>s r. I s \<Longrightarrow> r \<noteq> 0 \<Longrightarrow> K r s" "\<And>r s. J r s \<Longrightarrow> r \<noteq> 0 \<Longrightarrow> K r s" "\<And>r s. J 0 s \<Longrightarrow> K r s"
  shows "safe up (\<lambda>d. P (shown up d)) I (after_copy up) K"
proof -
  have I_step: "safe up (\<lambda>d. P (shown up d)) I m (\<lambda>_. I)" if "harmless up m" for m :: "'a step"
    using safe_stable [of up m I P, OF that I(1) ok I(2)] .
  have last: "safe up (\<lambda>d. P (shown up d)) (J 0) (check (activateMisc up) return (do {
                 (if \<not> customSource up \<and> \<not> customDest up
                  then do { _ \<leftarrow> markNotBRDefault (curbootfd up) (curMount up) [] False; return () } else return ());
                 set_changestate nothingSerious;
                 return 0
               })) K"
    by (rule safe_conseq [OF safe_harmless_then [OF wp ok J(1)]]) (auto intro: J K)
  have fail: "safe up (\<lambda>d. P (shown up d)) I (return r) K" if "r \<noteq> 0" for r
    using that by (intro safe_return K(1))
  show ?thesis
    unfolding after_copy_def
  proof (rule safe_bind [OF I_step], goal_cases)
    case 2
    then show ?case
    proof (rule safe_bind [OF I_step], goal_cases)
      case 2
      then show ?case
      proof (rule safe_check [OF I_step fail], goal_cases)
        case 3
        then show ?case
        proof (rule safe_bind [OF I_step], goal_cases)
          case 2
          then show ?case
          proof (rule safe_check [OF I_step fail], goal_cases)
            case 3
            then show ?case
            proof (rule safe_check [OF I_step fail], goal_cases)
              case 3
              then show ?case
              proof (rule safe_bind [where J = "\<lambda>rps s. I s \<and> rps = b"], goal_cases)
                case 1
                show ?case by (rule safe_gets) (simp add: b)
              next
                case (2 rps)
                have "safe up (\<lambda>d. P (shown up d)) I (check (if b then activateRPS up else return 0) return
                    (check (activateMisc up) return (do {
                      (if \<not> customSource up \<and> \<not> customDest up
                       then do { _ \<leftarrow> markNotBRDefault (curbootfd up) (curMount up) [] False; return () } else return ());
                      set_changestate nothingSerious;
                      return 0
                    }))) K"
                  by (rule safe_check [OF activate _ last]) (rule safe_return, rule K(2))
                then show ?case by (cases "rps = b") (simp_all only: simp_thms safe_def)
              qed
            qed (auto intro!: steps harmless_activateBooters [rule_format])
          qed (auto intro!: steps harmless_ucopyBooters [rule_format] wp)
        qed (auto intro!: steps)
      qed (auto intro!: steps harmless_moveLabels [rule_format] harmless_nukeBRLabels [rule_format] wp)
    qed (auto intro!: steps harmless_ucopyMisc [rule_format] wp)
  qed (auto intro!: steps)
qed


lemma safe_update_contents:
  assumes wp: "well_placed up" and ok: "names_ok up"
  shows "safe up (either up n m) (\<lambda>s. \<exists>x. staged up n m True x s) (after_copy up)
      (\<lambda>r s. (switched up m s \<or> (\<exists>x. staged up n m True x s)) \<and> (r = 0 \<longrightarrow> switched up m s))"
    "safe up (\<lambda>d. shown up d = Some n) (holding up n (d, False)) (after_copy up) (\<lambda>_. holding up n (d, False))"
proof -
  have "\<not> flat up" using wp by (simp add: well_placed_def)
  show "safe up (either up n m) (\<lambda>s. \<exists>x. staged up n m True x s) (after_copy up)
      (\<lambda>r s. (switched up m s \<or> (\<exists>x. staged up n m True x s)) \<and> (r = 0 \<longrightarrow> switched up m s))"
  proof (rule safe_ex, rule safe_after_copy [OF wp ok stable_staged(1) [OF ok], where b = True])
    fix x
    show "safe up (either up n m) (staged up n m True x) (if True then activateRPS up else return 0)
        (\<lambda>r s. if r = 0 then switched up m s else switched up m s \<or> staged up n m True x s)"
      using safe_activateRPS [OF ok \<open>\<not> flat up\<close>] by simp
    show "stable up (\<lambda>s. if 0 = (0::int) then switched up m s else switched up m s \<or> staged up n m True x s)"
      using stable_switched [OF ok] by simp
    show "staged up n m True x s \<Longrightarrow> doRPS s = True" for s
      by (simp add: staged_def chosen_def settled_def holding_def)
  qed (auto split: if_splits intro: staged_either switched_either)
  show "safe up (\<lambda>d. shown up d = Some n) (holding up n (d, False)) (after_copy up) (\<lambda>_. holding up n (d, False))"
    by (rule safe_after_copy [OF wp ok stable_staged(2) [OF ok], where b = False and J = "\<lambda>_. holding up n (d, False)"])
      (auto simp: holding_def stable_staged(2) [OF ok] intro: safe_return)
qed

text \<open>The state that an update of the contents ends in.\<close>

definition resting :: "target \<Rightarrow> node \<Rightarrow> node option \<Rightarrow> update \<Rightarrow> bool" where
  "resting up n m s \<longleftrightarrow> (\<exists>n' k. holding up n' k s \<and> one_of n m (Some n'))"

lemma resting_holding: "holding up n k s \<Longrightarrow> resting up n m s"
  unfolding resting_def one_of_def by blast

lemma resting_staged: "staged up n m b x s \<Longrightarrow> resting up n m s"
  by (auto simp: staged_def dest: chosen_holding resting_holding)

lemma resting_switched: "switched up m s \<Longrightarrow> resting up n m s"
  unfolding switched_def resting_def one_of_def using settled_holding by blast

lemma update_contents_run:
  assumes wp: "well_placed up" and ok: "names_ok up" "contents_ok up"
    and s: "holding up n (d, b) s" "ready up s" and run: "run_state (update_contents up) s = (r, s')"
  obtains (kept) "visits s s' (\<lambda>d. shown up d = Some n)" "ready up s'" "\<exists>k. holding up n k s'"
      "b \<Longrightarrow> run_state (ucopyRPS up) s = (r, s') \<and> r \<noteq> 0"
    | (staged) t x where "b" "run_state (ucopyRPS up) s = (0, t)" "chosen up n True x t" "visits s t (\<lambda>d. shown up d = Some n)"
      "visits t s' (either up n (node_at (tree t) (rps_at up (rps_prev x))))" "ready up s'"
      "resting up n (node_at (tree t) (rps_at up (rps_prev x))) s'"
      "r = 0 \<Longrightarrow> switched up (node_at (tree t) (rps_at up (rps_prev x))) s'"
proof (cases b)
  case False
  then have "doRPS s = False" using s by (simp add: holding_def)
  then have "run_state (after_copy up) s = (r, s')" using run by (simp add: update_contents_after run_check)
  then have "holding up n (d, False) s' \<and> ready up s' \<and> visits s s' (\<lambda>d. shown up d = Some n)"
    using safeD [OF safe_update_contents(2) [OF wp ok(1)] _ s(2)] s(1) False by simp
  then show thesis using False by (intro kept) blast+
next
  case True
  then have "doRPS s = True" using s by (simp add: holding_def)
  have flat: "\<not> flat up" using wp by (simp add: well_placed_def)
  obtain c t where copy: "run_state (ucopyRPS up) s = (c, t)" by fastforce
  note c = safeD [OF safe_ucopyRPS [OF ok flat] s copy]
  show thesis
  proof (cases "c = 0")
    case False
    then have "r = c \<and> s' = t" using run copy \<open>doRPS s = True\<close> by (simp add: update_contents_after run_check)
    with c copy False show thesis by (intro kept) auto
  next
    case c0: True
    then have rest: "run_state (after_copy up) t = (r, s')"
      using run copy \<open>doRPS s = True\<close> by (simp add: update_contents_after run_check)
    from c c0 True obtain x where x: "chosen up n True x t" by auto
    let ?m = "node_at (tree t) (rps_at up (rps_prev x))"
    have "staged up n ?m True x t" using x by (simp add: staged_def)
    then have "((switched up ?m s' \<or> (\<exists>x. staged up n ?m True x s')) \<and> (r = 0 \<longrightarrow> switched up ?m s')) \<and>
        ready up s' \<and> visits t s' (either up n ?m)"
      using safeD [OF safe_update_contents(1) [OF wp ok(1)] _ _ rest] c by blast
    then show thesis using staged [of t x] True copy c0 c x by (blast intro: resting_switched resting_staged)
  qed
qed

lemma safe_nukeFallbacks:
  assumes wp: "well_placed up" and ok: "names_ok up" "contents_ok up"
  shows "safe up (\<lambda>d. shown up d = Some n) (holding up n k) (nukeFallbacks up) (\<lambda>_. holding up n k)"
proof -
  let ?V = "\<lambda>d. shown up d = Some n" and ?I = "holding up n k"
  have harmless: "safe up ?V ?I m (\<lambda>_. ?I)" if "harmless up m" for m :: "'a step"
    using safe_harmless(1) [OF ok(1) that] .
  have erase: "safe up ?V (\<lambda>s. settled up n k s \<and> t = rps_triple up (picked up (disk s))) (case t of (prevRPS, curRPS, nextRPS) \<Rightarrow>
      do { r \<leftarrow> eraseRPS up prevRPS; return (f r) }) (\<lambda>_. ?I)" for t and f :: "int \<Rightarrow> int"
  proof (cases "\<exists>x. t = rps_triple up x")
    case True
    then obtain x where t: "t = rps_triple up x" ..
    have "safe up ?V (\<lambda>s. settled up n k s \<and> t = rps_triple up (picked up (disk s))) (eraseRPS up (rps_dir up (rps_prev x)))
        (\<lambda>_ s. settled up n k s \<and> picked up (disk s) = x)"
      using ok by (intro safe_prev within_eraseRPS) (auto simp: t rps_triple_inject)
    then have "safe up ?V (\<lambda>s. settled up n k s \<and> t = rps_triple up (picked up (disk s)))
        (do { r \<leftarrow> eraseRPS up (rps_dir up (rps_prev x)); return (f r) }) (\<lambda>_. ?I)"
      by (rule safe_bind) (rule safe_return, simp add: settled_def)
    then show ?thesis by (simp add: t rps_triple_def)
  next
    case False
    then have "t \<noteq> rps_triple up y" for y by blast
    then show ?thesis by (simp add: safe_def)
  qed
  have find: "safe up ?V ?I (do {
      found \<leftarrow> FindRPSDir up;
      case found of
        Inl e \<Rightarrow> return rval
      | Inr (prevRPS, curRPS, nextRPS) \<Rightarrow> do {
          r \<leftarrow> eraseRPS up prevRPS;
          return (if r \<noteq> 0 then (if rval = 0 then r else - 1) else rval)
        }
    }) (\<lambda>_. ?I)" for rval
  proof (rule safe_bind [OF safe_FindRPSDir [OF ok]], goal_cases)
    case (1 found)
    show ?case using erase by (cases found) (auto intro!: safe_return)
  qed
  have if_find: "safe up ?V ?I (if \<not> rps then return rval else do {
      found \<leftarrow> FindRPSDir up;
      case found of
        Inl e \<Rightarrow> return rval
      | Inr (prevRPS, curRPS, nextRPS) \<Rightarrow> do {
          r \<leftarrow> eraseRPS up prevRPS;
          return (if r \<noteq> 0 then (if rval = 0 then r else - 1) else rval)
        }
    }) (\<lambda>_. ?I)" for rps rval
    using find by (simp add: safe_return)
  have nuke: "safe up ?V ?I (if b then nuke_old_booter up r v else return (Some v)) (\<lambda>_. ?I)"
    if "r = efibooter (caches up) \<or> r = ofbooter (caches up)" for b r v
    using that wp by (intro harmless allI steps harmless_nuke_old_booter [rule_format] booter_free) auto
  show ?thesis
    unfolding nukeFallbacks_def
    by (rule safe_If, simp add: safe_return,
        rule safe_bind [OF harmless], intro allI steps,
        rule safe_need [OF nuke], simp, rule safe_return, simp,
        rule safe_need [OF nuke], simp, rule safe_return, simp,
        rule safe_bind [OF harmless], intro allI steps, rule if_find)
qed


lemma safe_pre: "(p \<Longrightarrow> safe up V I m J) \<Longrightarrow> safe up V (\<lambda>s. I s \<and> p) m J"
  unfolding safe_def by blast

lemma safe_resting:
  assumes "one_of n m (Some n')" "safe up (\<lambda>d. shown up d = Some n') (holding up n' k) p (\<lambda>_. holding up n' k)"
  shows "safe up (either up n m) (holding up n' k) p (\<lambda>_. resting up n m)"
  using assms(1) by (intro safe_conseq [OF assms(2)]) (unfold resting_def, blast+, simp)

text \<open>What is done after the update of the contents, whatever came of it.\<close>

lemma safe_clean_up:
  assumes wp: "well_placed up" and ok: "names_ok up" "contents_ok up"
  shows "safe up (either up n m) (resting up n m) (do { _ \<leftarrow> revertState up; _ \<leftarrow> nukeFallbacks up; return r })
    (\<lambda>_. resting up n m)"
proof -
  have "safe up (\<lambda>d. shown up d = Some n') (holding up n' k)
      (do { _ \<leftarrow> revertState up; _ \<leftarrow> nukeFallbacks up; return r }) (\<lambda>_. holding up n' k)" for n' k
    by (rule safe_bind [OF safe_harmless(1) [OF ok(1) harmless_revertState [OF wp]]],
        rule safe_bind [OF safe_nukeFallbacks [OF wp ok]], rule safe_return)
  then have "safe up (either up n m) (\<lambda>s. holding up n' k s \<and> one_of n m (Some n'))
      (do { _ \<leftarrow> revertState up; _ \<leftarrow> nukeFallbacks up; return r }) (\<lambda>_. resting up n m)" for n' k
    using safe_resting by (intro safe_pre) blast
  then have "safe up (either up n m) (\<lambda>s. \<exists>n' k. holding up n' k s \<and> one_of n m (Some n'))
      (do { _ \<leftarrow> revertState up; _ \<leftarrow> nukeFallbacks up; return r }) (\<lambda>_. resting up n m)"
    by (intro safe_ex)
  then show ?thesis by (rule safe_conseq) (auto simp: resting_def)
qed

definition prepare_helper :: "target \<Rightarrow> unit step" where
  "prepare_helper up = do {
     set_changestate nothingSerious;
     (if doSanitize up then do { _ \<leftarrow> sanitizeBoot up; return () } else return ());
     (if cleanOnceDir up \<and> length (curMount up @ kBRBootOnceDir) < PATH_MAX
      then do { _ \<leftarrow> erase_if_there up (curMount up @ kBRBootOnceDir) 0; return () } else return ());
     checkBootContents up;
     (if customSource up \<and> \<not> customDest up then do { _ \<leftarrow> markNotBRDefault (curbootfd up) (curMount up) [] True; return () } else return ())
   }"

lemma update_helper_prepared:
  "update_helper up = do {
     prepare_helper up;
     r \<leftarrow> update_contents up;
     _ \<leftarrow> revertState up;
     _ \<leftarrow> nukeFallbacks up;
     return r
   }"
  by (simp add: update_helper_def prepare_helper_def)


lemma safe_prepare_helper:
  assumes wp: "well_placed up" and ok: "names_ok up"
  shows "safe up (\<lambda>d. shown up d = Some n) (\<lambda>s. \<exists>k. holding up n k s) (prepare_helper up)
    (\<lambda>_ s. \<exists>k. holding up n k s)"
proof -
  let ?V = "\<lambda>d. shown up d = Some n" and ?I = "\<lambda>s. \<exists>k. holding up n k s"
  have harmless: "safe up ?V ?I m (\<lambda>_. ?I)" if "harmless up m" for m :: "'a step"
    by (rule safe_ex, rule safe_conseq [OF safe_harmless(1) [OF ok that]]) blast+
  have check: "safe up ?V ?I (checkBootContents up) (\<lambda>_. ?I)"
  proof (rule safe_within [where F = "harmless_places up" and K = "\<lambda>_. ()"])
    fix s d assume s: "\<exists>k. holding up n k s" and ag: "agree (harmless_places up) (disk s) d"
    then show "shown up d = Some n" using shown_harmless(3) [OF ok ag] by (auto simp: holding_def)
  next
    fix s s' :: update assume s: "\<exists>k. holding up n k s" and ag: "agree (harmless_places up) (disk s) (disk s')"
    then have "holding up n (kept (os.more s')) s'"
      using shown_harmless(3) [OF ok ag] no_recovery_harmless [OF ok ag] by (auto simp: holding_def)
    then show "\<exists>k. holding up n k s'" ..
  qed (simp_all add: harmless_checkBootContents)
  show ?thesis
    unfolding prepare_helper_def
    by (rule safe_bind [OF harmless], intro allI steps touches,
        rule safe_bind [OF harmless], intro allI steps harmless_sanitizeBoot [OF wp, rule_format],
        rule safe_bind [OF harmless], intro allI steps harmless_erase_once [OF wp, rule_format],
        rule safe_bind [OF check], rule harmless, intro allI steps harmless_markNotBRDefault [OF wp, rule_format])
qed

lemma visits_wider: "visits s s' V \<Longrightarrow> (\<And>d. V d \<Longrightarrow> V' d) \<Longrightarrow> visits s s' V'"
  unfolding visits_def by blast

lemma update_helper_run:
  assumes wp: "well_placed up" and ok: "names_ok up" "contents_ok up"
    and s: "shown up (disk s) = Some n" "no_recovery up (disk s)" "ready up s"
    and run: "run_state (update_helper up) s = (r, s')"
  obtains m where "visits s s' (either up n m)" "resting up n m s'"
proof -
  obtain u1 where u1: "run_state (prepare_helper up) s = ((), u1)" by (metis old.unit.exhaust surj_pair)
  obtain r1 u2 where u2: "run_state (update_contents up) u1 = (r1, u2)" by fastforce
  have rest: "run_state (do { _ \<leftarrow> revertState up; _ \<leftarrow> nukeFallbacks up; return r1 }) u2 = (r, s')"
    using run u1 u2 by (simp add: update_helper_prepared)
  have "holding up n (kept (os.more s)) s" using s by (simp add: holding_def)
  then have prep: "(\<exists>k. holding up n k u1) \<and> ready up u1 \<and> visits s u1 (\<lambda>d. shown up d = Some n)"
    using safeD [OF safe_prepare_helper [OF wp ok(1)] _ s(3) u1, of n] by blast
  then obtain d b where u1_holds: "holding up n (d, b) u1" by auto
  have u1_ready: "ready up u1" using prep by blast
  have one: "one_of n m (Some n)" for m by (simp add: one_of_def)
  have "\<exists>m. visits u1 u2 (either up n m) \<and> resting up n m u2 \<and> ready up u2"
  proof (cases rule: update_contents_run [OF wp ok u1_holds u1_ready u2, case_names kept staged])
    case kept
    have "visits u1 u2 (either up n None)" by (rule visits_wider [OF kept(1)]) (simp add: one)
    with kept show ?thesis by (blast intro: resting_holding)
  next
    case (staged t x)
    let ?m = "node_at (tree t) (rps_at up (rps_prev x))"
    have "visits u1 t (either up n ?m)" by (rule visits_wider [OF staged(4)]) (simp add: one)
    then have "visits u1 u2 (either up n ?m)" using staged(5) by (rule visits_trans)
    with staged show ?thesis by blast
  qed
  then obtain m where m: "visits u1 u2 (either up n m)" "resting up n m u2" "ready up u2" by blast
  have first: "visits s u1 (either up n m)"
    by (rule visits_wider [where V = "\<lambda>d. shown up d = Some n"]) (simp_all add: prep one)
  have "resting up n m s' \<and> visits u2 s' (either up n m)"
    using safeD [OF safe_clean_up [OF wp ok] m(2,3) rest] by blast
  then show thesis using that visits_trans [OF first visits_trans [OF m(1)]] by blast
qed

end
