(* ===== verification/SafeConfined.thy ===== *)
theory SafeConfined
  imports SafeFrame
begin

text \<open>
  The confinement of src/safecalls.c. A tree has the mount table of a world when devices change at mount points only and
  these are directories. A call that is confined to a volume then spares every node on another device,
  at every moment: \<open>spared\<close> is that relation, with the rules for the calls and for the control flow, and
  \<open>safe_call\<close> lists the interface of safecalls.h that changes files.
\<close>

named_theorems spares_calls \<open>calls that spare what is on other devices\<close>

section \<open>Mount tables\<close>

definition mount_table :: "world \<Rightarrow> node \<Rightarrow> bool" where
  "mount_table w t \<longleftrightarrow> is_dir t \<and>
     (\<forall>p c. dev_of w (p @ [c]) \<noteq> dev_of w p \<longrightarrow> p @ [c] \<in> set (mounts w)) \<and>
     (\<forall>m \<in> set (mounts w). \<exists>n. node_at t m = Some n \<and> is_dir n)"

lemma mount_at: "mount_table w t \<Longrightarrow> m \<in> set (mounts w) \<Longrightarrow> \<exists>n. node_at t m = Some n \<and> is_dir n"
  by (simp add: mount_table_def)

lemma dev_below:
  assumes "mount_table w t" "\<not> busy w (d @ [c])" shows "dev_of w (d @ [c] @ r) = dev_of w d"
proof (induction r rule: rev_induct)
  case Nil
  with assms show ?case by (auto simp: mount_table_def busy_def)
next
  case (snoc x r)
  have "(d @ [c] @ r) @ [x] \<notin> set (mounts w)"
    using assms(2) unfolding busy_def by (metis append.assoc prefixI)
  with snoc assms(1) show ?case unfolding mount_table_def by (metis append.assoc)
qed

lemma allowed_below:
  "mount_table w t \<Longrightarrow> \<not> busy w (d @ [c]) \<Longrightarrow> prefix (d @ [c]) q \<Longrightarrow> allowed w vol d \<Longrightarrow> allowed w vol q"
  using dev_below [of w t d c] by (auto simp: allowed_def prefix_def)

lemma not_busy:
  assumes "mount_table w t" and "node_at t p = None \<or> (\<exists>n. node_at t p = Some n \<and> \<not> is_dir n) \<or>
    (\<exists>i m. node_at t p = Some (Dir i m []) \<and> p \<notin> set (mounts w))"
  shows "\<not> busy w p"
proof
  assume "busy w p"
  then obtain r where r: "p @ r \<in> set (mounts w)" by (auto simp: busy_def prefix_def)
  with mount_at [OF assms(1)] obtain n where n: "node_at t (p @ r) = Some n" "is_dir n" by blast
  with assms(2) r show False
    by (cases r) (auto simp: node_at_append elim: is_dir.elims split: option.splits node.splits)
qed

lemma not_busy_put:
  "busy w p \<Longrightarrow> mount_table w t \<Longrightarrow> node_at t p \<noteq> None"
  "busy w p \<Longrightarrow> mount_table w t \<Longrightarrow> node_at t p = Some n \<Longrightarrow> is_dir n"
  "busy w p \<Longrightarrow> mount_table w t \<Longrightarrow> p \<notin> set (mounts w) \<Longrightarrow> node_at t p \<noteq> Some (Dir i m [])"
  by (auto dest: not_busy)

section \<open>What is on other devices is spared\<close>

definition spares :: "world \<Rightarrow> nat \<Rightarrow> disk \<Rightarrow> disk \<Rightarrow> bool" where
  "spares w vol d d' \<longleftrightarrow> snd d' = snd d \<and> mount_table w (fst d') \<and>
     (\<forall>q. \<not> allowed w vol q \<longrightarrow>
        map_option shallow (node_at (fst d') q) = map_option shallow (node_at (fst d) q))"

lemma spares_refl: "mount_table w (fst d) \<Longrightarrow> spares w vol d d"
  by (simp add: spares_def)

lemma spares_trans: "spares w vol d e \<Longrightarrow> spares w vol e f \<Longrightarrow> spares w vol d f"
  by (simp add: spares_def)

lemma shallow_dir:
  "map_option shallow (node_at t' m) = map_option shallow (node_at t m) \<Longrightarrow>
    \<exists>n. node_at t m = Some n \<and> is_dir n \<Longrightarrow> \<exists>n. node_at t' m = Some n \<and> is_dir n"
  by (auto simp: map_option_case split: option.splits) (metis shallow_is_dir)

text \<open>An entry of an admitted directory may be replaced, when no volume is mounted there or below.\<close>

lemma spares_put:
  assumes "mount_table w (fst d)" "allowed w vol p" "\<not> busy w (p @ [c])"
  shows "spares w vol d (put_at (p @ [c]) v (fst d), snd d)"
proof -
  have "\<not> prefix (p @ [c]) m" if "m \<in> set (mounts w)" for m using that assms(3) by (auto simp: busy_def)
  then have "\<exists>n. node_at (put_at (p @ [c]) v (fst d)) m = Some n \<and> is_dir n" if "m \<in> set (mounts w)" for m
    using that put_at_shallow mount_at [OF assms(1)] by (metis shallow_dir)
  moreover have "\<not> prefix (p @ [c]) q" if "\<not> allowed w vol q" for q
    using that allowed_below [OF assms(1,3)] assms(2) by blast
  ultimately show ?thesis
    using assms(1) by (auto simp: spares_def mount_table_def put_at_shallow)
qed

text \<open>An admitted node may be changed in place.\<close>

definition in_place :: "(node \<Rightarrow> node) \<Rightarrow> bool" where
  "in_place f \<longleftrightarrow> (\<forall>n. is_dir (f n) = is_dir n \<and> entries (f n) = entries n)"

lemma all_node: "(\<forall>n. P n) \<longleftrightarrow> (\<forall>i m b. P (File i m b)) \<and> (\<forall>i m es. P (Dir i m es))"
  by (metis node.exhaust)

lemma in_place_calls [simp]: "in_place (overwrite off data)" "in_place emptied" "in_place (set_perms mode)"
  by (simp_all add: in_place_def all_node)

lemma node_below: "r \<noteq> [] \<Longrightarrow> is_dir n' = is_dir n \<Longrightarrow> entries n' = entries n \<Longrightarrow> node_at n' r = node_at n r"
  by (cases r; cases n; cases n') auto

lemma put_at_here:
  assumes "node_at t p = Some n" "p \<noteq> []" shows "node_at (put_at p v t) p = v"
proof -
  from assms obtain d c where p: "p = d @ [c]" by (cases p rule: rev_cases) simp
  with assms(1) obtain k where "node_at t d = Some k" "is_dir k" by (auto elim: node_at_parent_dir)
  with p show ?thesis by (simp add: put_at_same)
qed

lemma node_in_place:
  assumes "node_at t p = Some n" "in_place f" "q \<noteq> p \<or> p = []"
  shows "map_option shallow (node_at (put_at p (Some (f n)) t) q) = map_option shallow (node_at t q)"
proof (cases "prefix p q \<and> p \<noteq> []")
  case True
  then obtain r where q: "q = p @ r" by (auto simp: prefix_def)
  with True assms(1) have "node_at (put_at p (Some (f n)) t) p = Some (f n)" by (auto intro: put_at_here)
  moreover have "node_at (f n) r = node_at n r"
    using q True assms(2,3) by (intro node_below) (auto simp: in_place_def)
  ultimately show ?thesis using q assms(1) by (simp add: node_at_append)
next
  case False
  then show ?thesis by (cases "p = []") (simp_all add: put_at_shallow)
qed

lemma dir_in_place:
  assumes "node_at t p = Some n" "in_place f" "node_at t m = Some k" "is_dir k"
  shows "\<exists>k. node_at (put_at p (Some (f n)) t) m = Some k \<and> is_dir k"
proof (cases "m = p \<and> p \<noteq> []")
  case True
  with assms(1) have "node_at (put_at p (Some (f n)) t) p = Some (f n)" by (auto intro: put_at_here)
  with True assms show ?thesis by (auto simp: in_place_def)
next
  case False
  then have "map_option shallow (node_at (put_at p (Some (f n)) t) m) = map_option shallow (node_at t m)"
    using assms(1,2) by (intro node_in_place) auto
  from shallow_dir [OF this] assms(3,4) show ?thesis by blast
qed

lemma spares_in_place:
  assumes "mount_table w (fst d)" "allowed w vol p" "node_at (fst d) p = Some n" "in_place f"
  shows "spares w vol d (put_at p (Some (f n)) (fst d), snd d)"
proof -
  have "\<exists>k. node_at (put_at p (Some (f n)) (fst d)) m = Some k \<and> is_dir k" if "m \<in> set (mounts w)" for m
    using mount_at [OF assms(1) that] dir_in_place [OF assms(3,4)] by blast
  moreover have "q \<noteq> p \<or> p = []" if "\<not> allowed w vol q" for q using that assms(2) by blast
  ultimately show ?thesis
    using assms(1) by (auto simp: spares_def mount_table_def node_in_place [OF assms(3,4)])
qed

section \<open>Confined programs\<close>

definition keeps :: "world \<Rightarrow> nat \<Rightarrow> 'z os_scheme \<Rightarrow> 'z os_scheme \<Rightarrow> bool" where
  "keeps w vol s s' \<longleftrightarrow> (world s = w \<longrightarrow> world s' = w \<and>
     (mount_table w (tree s) \<longrightarrow> spares w vol (disk s) (disk s') \<and>
       (\<exists>new. history s' = new @ history s \<and> (\<forall>d \<in> set new. spares w vol (disk s) d))))"

lemma keeps_same: "world s' = world s \<Longrightarrow> disk s' = disk s \<Longrightarrow> history s' = history s \<Longrightarrow> keeps w vol s s'"
  by (simp add: keeps_def spares_refl)

lemma keeps_refl: "keeps w vol s s"
  by (rule keeps_same) simp_all

lemma keeps_trans:
  assumes "keeps w vol s t" "keeps w vol t u" shows "keeps w vol s u"
proof (cases "world s = w \<and> mount_table w (tree s)")
  case True
  with assms(1) have t: "world t = w" "spares w vol (disk s) (disk t)" by (auto simp: keeps_def)
  then have "mount_table w (tree t)" by (simp add: spares_def)
  with True assms t obtain new new' where
    "history t = new @ history s" "\<forall>d \<in> set new. spares w vol (disk s) d"
    "world u = w" "spares w vol (disk t) (disk u)" "history u = new' @ history t"
    "\<forall>d \<in> set new'. spares w vol (disk t) d"
    unfolding keeps_def by metis
  with t show ?thesis unfolding keeps_def
    by (intro impI conjI exI [of _ "new' @ new"]) (auto simp del: split_paired_All intro: spares_trans)
qed (use assms in \<open>auto simp: keeps_def\<close>)

lemma keeps_step:
  "world s' = world s \<Longrightarrow> history s' = disk s # history s \<Longrightarrow>
    (world s = w \<Longrightarrow> mount_table w (tree s) \<Longrightarrow> spares w vol (disk s) (disk s')) \<Longrightarrow> keeps w vol s s'"
  by (auto simp: keeps_def spares_refl)

lemma keeps_cases:
  assumes "world s' = world s \<and> (disk s' = disk s \<and> history s' = history s \<or> history s' = disk s # history s \<and> P)"
    and "P \<Longrightarrow> world s = w \<Longrightarrow> mount_table w (tree s) \<Longrightarrow> spares w vol (disk s) (disk s')"
  shows "keeps w vol s s'"
  using assms keeps_same keeps_step by blast

interpretation keeps: io_relation "keeps w vol" for w vol
  by unfold_locales (rule keeps_refl, erule (1) keeps_trans)

abbreviation spared :: "world \<Rightarrow> nat \<Rightarrow> ('z os_scheme, 'a) state \<Rightarrow> bool" where
  "spared w vol m \<equiv> state_io_rel (keeps w vol) m"

text \<open>A program that touches no place at all is confined to every volume.\<close>

lemma agree_empty: "agree {} d d' \<Longrightarrow> d' = d"
  unfolding agree_def touched_def by (metis empty_iff node_at.simps(1) option.inject prod_eq_iff)

lemma spared_quiet:
  assumes "within w ([], \<lambda>_. ()) {} m" shows "spared w vol m"
proof (rule state_io_relI)
  fix a s s' assume "run_state m s = (a, s')"
  with assms have mv: "moves w ([], \<lambda>_. ()) {} s s'" by (rule state_io_relD)
  show "keeps w vol s s'"
  proof (cases "world s = w \<and> mount_table w (tree s)")
    case True
    then have "dir_at (disk s) []" by (simp add: dir_at_def mount_table_def)
    with mv True obtain new where "world s' = w" "agree {} (disk s) (disk s')" "history s' = new @ history s"
      "\<forall>d \<in> set new. agree {} (disk s) d"
      by (auto simp: moves_def apart_def)
    with True show ?thesis by (auto simp: keeps_def spares_refl dest!: agree_empty)
  qed (use mv in \<open>auto simp: keeps_def moves_def\<close>)
qed

lemmas spared_flow = keeps.io_return keeps.io_gets keeps.io_bind keeps.io_check keeps.io_need

lemma spared_If: "(b \<Longrightarrow> spared w vol m) \<Longrightarrow> (\<not> b \<Longrightarrow> spared w vol n) \<Longrightarrow> spared w vol (if b then m else n)"
  by simp

lemma spared_case_option:
  "(x = None \<Longrightarrow> spared w vol m) \<Longrightarrow> (\<And>y. x = Some y \<Longrightarrow> spared w vol (n y)) \<Longrightarrow>
    spared w vol (case x of None \<Rightarrow> m | Some y \<Rightarrow> n y)"
  by (cases x) auto

lemmas spared_rules = spared_flow spared_If spared_case_option

lemmas spared_touches [spares_calls] = touches [THEN spared_quiet]

section \<open>The system calls\<close>

lemma spared_mkdir_at:
  assumes "allowed w vol d" shows "spared w vol (mkdir_at (d @ [c]) mode)"
proof (rule state_io_relI)
  fix r s s' assume run: "run_state (mkdir_at (d @ [c]) mode) s = (r, s')"
  have "world s' = world s \<and> (disk s' = disk s \<and> history s' = history s \<or>
      history s' = disk s # history s \<and> node_at (tree s) (d @ [c]) = None \<and>
      (\<exists>v. disk s' = (put_at (d @ [c]) v (tree s), snd (disk s))))"
    using run by (auto simp: mkdir_at_def missing_def dest!: attempt_cases split: prod.splits if_splits)
  then show "keeps w vol s s'"
    by (rule keeps_cases) (use assms in \<open>auto intro!: spares_put dest: not_busy_put\<close>)
qed

lemma spared_rmdir_at:
  assumes "allowed w vol d" shows "spared w vol (rmdir_at (d @ [c]))"
proof (rule state_io_relI)
  fix r s s' assume run: "run_state (rmdir_at (d @ [c])) s = (r, s')"
  have "world s' = world s \<and> (disk s' = disk s \<and> history s' = history s \<or>
      history s' = disk s # history s \<and> (\<exists>i m. node_at (tree s) (d @ [c]) = Some (Dir i m [])) \<and>
      d @ [c] \<notin> set (mounts (world s)) \<and> (\<exists>v. disk s' = (put_at (d @ [c]) v (tree s), snd (disk s))))"
    using run by (auto simp: rmdir_at_def look_def missing_def dest!: attempt_cases
        split: prod.splits if_splits option.splits node.splits)
  then show "keeps w vol s s'"
    by (rule keeps_cases) (use assms in \<open>auto intro!: spares_put dest: not_busy_put\<close>)
qed

lemma spared_unlink_at:
  assumes "allowed w vol d" shows "spared w vol (unlink_at (d @ [c]))"
proof (rule state_io_relI)
  fix r s s' assume run: "run_state (unlink_at (d @ [c])) s = (r, s')"
  have "world s' = world s \<and> (disk s' = disk s \<and> history s' = history s \<or>
      history s' = disk s # history s \<and> (\<exists>n. node_at (tree s) (d @ [c]) = Some n \<and> \<not> is_dir n) \<and> (\<exists>v. disk s' = (put_at (d @ [c]) v (tree s), snd (disk s))))"
    using run by (auto simp: unlink_at_def look_def missing_def dest!: attempt_cases
        split: prod.splits if_splits option.splits node.splits)
  then show "keeps w vol s s'"
    by (rule keeps_cases) (use assms in \<open>auto intro!: spares_put dest: not_busy_put\<close>)
qed

lemma spares_rename:
  assumes "mount_table w (fst d)" "allowed w vol p" "\<not> busy w (p @ [a])" "\<not> busy w (p @ [b])"
  shows "spares w vol d (put_at (p @ [b]) v (put_at (p @ [a]) None (fst d)), snd d)"
proof -
  have first: "spares w vol d (put_at (p @ [a]) None (fst d), snd d)"
    using assms by (intro spares_put)
  then have "mount_table w (put_at (p @ [a]) None (fst d))" by (simp add: spares_def)
  then have "spares w vol (put_at (p @ [a]) None (fst d), snd d)
      (put_at (p @ [b]) v (put_at (p @ [a]) None (fst d)), snd d)"
    using spares_put [of w "(put_at (p @ [a]) None (fst d), snd d)" vol p b v] assms by simp
  with first show ?thesis by (rule spares_trans)
qed

lemma run_replace:
  "run_state (change (map_prod (put_at q n \<circ> put_at p None) id)) s =
    ((), s\<lparr>disk := (put_at q n (put_at p None (tree s)), snd (disk s)), history := disk s # history s\<rparr>)"
  by (simp add: change_def map_prod_def case_prod_beta)

lemma spared_rename_at:
  assumes "allowed w vol d" "comps old = [] \<or> comps old = [a]" "comps new = [] \<or> comps new = [b]"
  shows "spared w vol (rename_at d old new)"
proof (rule state_io_relI)
  fix r s s' assume run: "run_state (rename_at d old new) s = (r, s')"
  have "world s' = world s \<and> (disk s' = disk s \<and> history s' = history s \<or>
      history s' = disk s # history s \<and> \<not> busy (world s) (d @ [a]) \<and> \<not> busy (world s) (d @ [b]) \<and>
      (\<exists>v. disk s' = (put_at (d @ [b]) v (put_at (d @ [a]) None (tree s)), snd (disk s))))"
    using run assms(2,3) by (elim disjE) (auto simp: rename_at_def run_replace missing_def
        dest!: attempt_cases split: prod.splits if_splits option.splits node.splits)
  then show "keeps w vol s s'"
    by (rule keeps_cases) (use assms(1) in \<open>auto intro!: spares_rename\<close>)
qed

lemma spared_open_at:
  assumes "writes flags \<Longrightarrow> allowed w vol d" shows "spared w vol (open_at (d @ [c]) flags)"
proof (rule state_io_relI)
  fix r s s' assume run: "run_state (open_at (d @ [c]) flags) s = (r, s')"
  have "world s' = world s \<and> (disk s' = disk s \<and> history s' = history s \<or>
      history s' = disk s # history s \<and> writes flags \<and> node_at (tree s) (d @ [c]) = None \<and>
      (\<exists>v. disk s' = (put_at (d @ [c]) v (tree s), snd (disk s))))"
    using run by (cases flags) (auto simp: open_at_def missing_def dest!: attempt_cases
        split: prod.splits if_splits option.splits)
  then show "keeps w vol s s'"
    by (rule keeps_cases) (use assms in \<open>auto intro!: spares_put dest: not_busy_put\<close>)
qed

lemma spared_update_at:
  assumes "allowed w vol p" "in_place f" shows "spared w vol (update_at p f)"
proof (rule state_io_relI)
  fix r s s' assume run: "run_state (update_at p f) s = (r, s')"
  have "world s' = world s \<and> (disk s' = disk s \<and> history s' = history s \<or>
      history s' = disk s # history s \<and>
      (\<exists>n. node_at (tree s) p = Some n \<and> disk s' = (put_at p (Some (f n)) (tree s), snd (disk s))))"
    using run by (auto simp: update_at_def look_def split: option.splits)
  then show "keeps w vol s s'"
    by (rule keeps_cases) (use assms in \<open>auto intro: spares_in_place\<close>)
qed

lemma spared_write_at: "allowed w vol (fst fd) \<Longrightarrow> spared w vol (write_at fd off data)"
  unfolding write_at_def by (intro spared_rules spares_calls spared_update_at) simp_all

lemma spared_truncate_at: "allowed w vol (fst fd) \<Longrightarrow> spared w vol (truncate_at fd)"
  unfolding truncate_at_def by (intro spared_rules spares_calls spared_update_at) simp_all

lemma spared_fchmod: "allowed w vol (fst fd) \<Longrightarrow> spared w vol (fchmod fd mode)"
  unfolding fchmod_def by (intro spared_rules spares_calls spared_update_at) simp_all

section \<open>The confined calls\<close>

text \<open>What is known of a result, in a program that goes on with it.\<close>

lemma spared_need_known:
  assumes "spared w vol m" "spared w vol fin"
    and k: "\<And>s x s'. run_state m s = (Some x, s') \<Longrightarrow> world s = w \<Longrightarrow> spared w vol (k x)"
  shows "spared w vol (need m fin k)"
proof (rule state_io_relI)
  fix a s s' assume run: "run_state (need m fin k) s = (a, s')"
  obtain x t where m: "run_state m s = (x, t)" by fastforce
  with assms(1) have st: "keeps w vol s t" by (auto dest: state_io_relD)
  have "keeps w vol t s'" if "world s = w"
    using run m assms(2) k [of s _ t] that
    by (cases x) (auto simp: run_need dest: state_io_relD)
  with st show "keeps w vol s s'" using keeps_trans by (metis keeps_def)
qed

lemma spared_check_known:
  assumes "spared w vol m" "\<And>r. spared w vol (fin r)"
    and k: "\<And>s s'. run_state m s = (0, s') \<Longrightarrow> world s = w \<Longrightarrow> spared w vol k"
  shows "spared w vol (check m fin k)"
proof (rule state_io_relI)
  fix a s s' assume run: "run_state (check m fin k) s = (a, s')"
  obtain r t where m: "run_state m s = (r, t)" by fastforce
  with assms(1) have st: "keeps w vol s t" by (auto dest: state_io_relD)
  have "keeps w vol t s'" if "world s = w"
    using run m assms(2) k [of s t] that
    by (cases "r = 0") (auto simp: run_check dest: state_io_relD)
  with st show "keeps w vol s s'" using keeps_trans by (metis keeps_def)
qed

lemma spared_after_schdirparent:
  assumes "spared w vol fin"
    "allowed w vol (comps (dirname path)) \<Longrightarrow> spared w vol (k (comps (dirname path)))"
  shows "spared w vol (need (schdirparent vol path) fin k)"
proof (rule spared_need_known [OF _ assms(1)])
  fix s x s' assume "run_state (schdirparent vol path) s = (Some x, s')" "world s = w"
  then show "spared w vol (k x)" using schdirparent_Some assms(2) by metis
qed (rule spares_calls)

lemma keeps_world: "spared (world s) vol m \<Longrightarrow> run_state m s = (a, s') \<Longrightarrow> world s' = world s"
  by (auto simp: keeps_def dest!: state_io_relD)

text \<open>The child check of \<open>sopen_ifExists\<close>: what it opens is admitted.\<close>

lemma sopen_ifExists_allowed:
  fixes s :: "'z os_scheme"
  assumes "run_state (sopen_ifExists vol path flags) s = (Some fd, s')"
  shows "allowed (world s) vol (fst fd)" "fst fd = comps path"
proof -
  let ?q = "comps (dirname path) @ comps (basename path)"
  obtain t u v :: "'z os_scheme" where t: "run_state (schdirparent vol path) s = (Some (comps (dirname path)), t)"
    and u: "run_state (open_at ?q flags) t = (Some fd, u)" and v: "run_state (spolicy vol ?q) u = (0, v)"
    using assms unfolding sopen_ifExists_def
    by (auto simp: run_need run_check dest: schdirparent_Some(1) split: prod.splits option.splits if_splits)
  have "world t = world s" using t by (metis keeps_world spared_quiet within_schdirparent)
  moreover have "world u = world t"
    using u by (auto simp: open_at_def missing_def dest!: attempt_cases
        split: prod.splits if_splits option.splits open_flags.splits)
  ultimately show "allowed (world s) vol (fst fd)" "fst fd = comps path"
    using spolicy_0 [OF v] open_at_Some [OF u] by (simp_all add: comps_dirname)
qed

lemma sopen_allowed: "run_state (sopen vol path flags) s = (Some fd, s') \<Longrightarrow> allowed (world s) vol (fst fd)"
  unfolding sopen_def by (rule sopen_ifExists_allowed)

lemma child_cases:
  obtains "names_parent path" "comps (basename path) = []"
  | "\<not> names_parent path" "comps (basename path) = [basename path]"
  using basename_word [of path] by (auto simp: names_parent_def)

lemma spared_sopen_ifExists [spares_calls]: "spared w vol (sopen_ifExists vol path flags)"
proof -
  have "spared w vol (open_at (dir @ comps (basename path)) flags)"
    if "allowed w vol dir" "\<not> (names_parent path \<and> writes flags)" for dir
  proof (rule child_cases [of path])
    assume "names_parent path"
    with that(2) have "flags = ReadOnly" by (cases flags) simp_all
    then show ?thesis by (simp add: spares_calls)
  qed (simp add: that(1) spared_open_at)
  then show ?thesis
    unfolding sopen_ifExists_def
    by (intro spared_after_schdirparent spared_rules spares_calls)
qed

lemma spared_sopen [spares_calls]: "spared w vol (sopen vol path flags)"
  unfolding sopen_def by (rule spares_calls)

lemma spared_after_sopen:
  assumes "spared w vol fin" "\<And>fd. allowed w vol (fst fd) \<Longrightarrow> spared w vol (k fd)"
  shows "spared w vol (need (sopen vol path flags) fin k)"
  by (intro spared_need_known spares_calls assms) (auto dest: sopen_allowed)

lemma spared_smkdir [spares_calls]: "spared w vol (smkdir vol path mode)"
  unfolding smkdir_def
  by (cases rule: child_cases [of path])
    (auto intro!: spared_after_schdirparent spared_rules spares_calls spared_mkdir_at)

lemma spared_srmdir [spares_calls]: "spared w vol (srmdir vol path)"
  unfolding srmdir_def
  by (cases rule: child_cases [of path])
    (auto intro!: spared_after_schdirparent spared_rules spares_calls spared_rmdir_at)

lemma spared_sunlink [spares_calls]: "spared w vol (sunlink vol path)"
  unfolding sunlink_def
  by (cases rule: child_cases [of path])
    (auto intro!: spared_after_schdirparent spared_rules spares_calls spared_unlink_at)

lemma spared_srename [spares_calls]: "spared w vol (srename vol oldpath newpath)"
  unfolding srename_def
  by (intro spared_after_schdirparent spared_rules spares_calls basename_word
      spared_rename_at [where a = "basename oldpath" and b = "basename newpath"])

lemma spared_zero_loop: "allowed w vol (fst fd) \<Longrightarrow> spared w vol (zero_loop fd off left)"
proof (induction fd off left rule: zero_loop.induct)
  case (1 fd off left)
  then show ?case by (subst zero_loop.simps) (intro spared_rules spared_write_at)
qed

lemma spared_szerofile [spares_calls]: "spared w vol (szerofile vol path)"
  unfolding szerofile_def
  by (intro spared_after_sopen spared_rules spares_calls spared_zero_loop spared_truncate_at)

lemma spared_unlink_tree:
  "spared w vol (unlink_tree vol dev path n acc :: ('z os_scheme, _) state)"
  "spared w vol (unlink_entries vol dev path es acc :: ('z os_scheme, _) state)"
proof (induction vol dev path n acc and vol dev path es acc rule: unlink_tree_unlink_entries.induct)
  case (1 vol dev path i m b acc)
  show ?case by (simp, intro spared_rules spares_calls)
next
  case (2 vol dev path i m es acc)
  then show ?case unfolding unlink_tree.simps by (intro spared_rules spares_calls) simp_all
next
  case (3 vol dev path acc)
  show ?case by (simp add: spared_rules)
next
  case (4 vol dev path e es acc)
  then show ?case by (auto intro!: spared_rules)
qed

lemma spared_sdeepunlink [spares_calls]: "spared w vol (sdeepunlink vol path)"
  unfolding sdeepunlink_def by (intro spared_rules spares_calls spared_unlink_tree)

lemma spared_sdeepmkdir_fuel: "spared w vol (sdeepmkdir_fuel fuel vol path mode)"
proof (induction fuel arbitrary: path)
  case (Suc fuel)
  then show ?case by (auto intro!: spared_rules spares_calls)
qed (simp add: spared_rules)

lemma spared_sdeepmkdir [spares_calls]: "spared w vol (sdeepmkdir vol path mode)"
  unfolding sdeepmkdir_def by (rule spared_sdeepmkdir_fuel)

lemma spared_copy_loop: "allowed w vol (fst dst) \<Longrightarrow> spared w vol (copy_loop src dst off left)"
proof (induction src dst off left rule: copy_loop.induct)
  case (1 src dst off left)
  then show ?case by (subst copy_loop.simps) (intro spared_rules spares_calls spared_write_at)
qed

lemma spared_copyfiledata [spares_calls]: "spared w vol (copyfiledata srcfd vol path)"
  unfolding copyfiledata_def
  by (intro spared_after_sopen spared_rules spares_calls spared_copy_loop spared_fchmod)

text \<open>Reading the source is confined to its own volume, which touches nothing.\<close>

lemma spared_sopen_ReadOnly [spares_calls]: "spared w vol (sopen srcvol path ReadOnly)"
  by (rule spared_quiet) (rule within_sopen, simp)

lemma spared_copy_entries:
  "(\<And>src dst. spared w vol (copy src dst)) \<Longrightarrow> spared w vol (copy_entries copy srcdir dstdir names)"
  by (induction names) (auto intro!: spared_rules spares_calls)

lemma spared_scopyitem_fuel:
  "spared w vol (scopyitem_fuel fuel srcvol vol src dst :: ('z os_scheme, int) state)"
proof (induction fuel arbitrary: src dst)
  case (Suc fuel)
  then show ?case unfolding scopyitem_fuel.simps copysubitems_def
    by (intro spared_rules spares_calls spared_copy_entries)
qed (simp add: spared_rules)

lemma spared_scopyitem [spares_calls]: "spared w vol (scopyitem srcvol src vol dst)"
  unfolding scopyitem_def by (rule spared_scopyitem_fuel)

section \<open>The interface\<close>

text \<open>The functions of safecalls.h that change files or yield descriptors, and the static
  \<open>copyfiledata\<close>, as values, with what they return.\<close>

datatype safe_call =
  Sopen string open_flags | SopenIfExists string open_flags | Smkdir string mode | Srmdir string | Sunlink string |
  Srename string string | Szerofile string | Sdeepunlink string | Sdeepmkdir string mode |
  Copyfiledata open_file string | Scopyitem nat string string

abbreviation status :: "('z os_scheme, int) state \<Rightarrow> ('z os_scheme, int + open_file option) state" where
  "status m \<equiv> State_Monad.bind m (\<lambda>r. return (Inl r))"

abbreviation descriptor :: "('z os_scheme, open_file option) state \<Rightarrow> ('z os_scheme, int + open_file option) state" where
  "descriptor m \<equiv> State_Monad.bind m (\<lambda>fd. return (Inr fd))"

fun do_call :: "nat \<Rightarrow> safe_call \<Rightarrow> ('z os_scheme, int + open_file option) state" where
  "do_call vol (Sopen path flags) = descriptor (sopen vol path flags)"
| "do_call vol (SopenIfExists path flags) = descriptor (sopen_ifExists vol path flags)"
| "do_call vol (Smkdir path mode) = status (smkdir vol path mode)"
| "do_call vol (Srmdir path) = status (srmdir vol path)"
| "do_call vol (Sunlink path) = status (sunlink vol path)"
| "do_call vol (Srename oldpath newpath) = status (srename vol oldpath newpath)"
| "do_call vol (Szerofile path) = status (szerofile vol path)"
| "do_call vol (Sdeepunlink path) = status (sdeepunlink vol path)"
| "do_call vol (Sdeepmkdir path mode) = status (sdeepmkdir vol path mode)"
| "do_call vol (Copyfiledata srcfd path) = status (copyfiledata srcfd vol path)"
| "do_call vol (Scopyitem srcvol src dst) = status (scopyitem srcvol src vol dst)"

lemma spared_do_call: "spared w vol (do_call vol c)"
  by (cases c) (auto intro!: spared_rules spares_calls)

lemma do_call_descriptor:
  "run_state (do_call vol c) s = (Inr (Some fd), s') \<Longrightarrow> allowed (world s) vol (fst fd)"
  by (cases c) (auto simp: sopen_allowed sopen_ifExists_allowed(1) split: prod.splits)

end
