(* ===== verification/SafeProps.thy ===== *)
theory SafeProps
  imports SafeConfined
begin

text \<open>
  src/safecalls.c: what the results of the calls promise: a copy is complete, an erased file holds no byte of
  what it held, a removed tree is gone; and no call changes anything outside the volume it is confined to.
\<close>

section \<open>Single calls\<close>

lemma run_transfer [simp]:
  "run_state (transfer n) s = (case short (world s) (calls s) of None \<Rightarrow> n | Some k \<Rightarrow> min k n, s)"
  by (simp add: transfer_def)

lemma run_update_at:
  "node_at (tree s) p = Some n \<Longrightarrow> run_state (update_at p f) s = run_state (put_node p (Some (f n))) s"
  by (simp add: update_at_def look_def)

lemma simple_call_same:
  "run_state (simple_call c) s = (r, s') \<Longrightarrow>
    disk s' = disk s \<and> history s' = history s \<and> world s' = world s \<and> os.more s' = os.more s"
  by (auto simp: simple_call_def dest!: attempt_cases split: prod.splits)

lemma build_path_same:
  "run_state (build_path ps) s = (x, s') \<Longrightarrow>
    disk s' = disk s \<and> history s' = history s \<and> world s' = world s \<and> os.more s' = os.more s"
  by (auto simp: build_path_def split: if_splits)

lemma spolicy_same:
  "run_state (spolicy vol p) s = (r, s') \<Longrightarrow>
    disk s' = disk s \<and> history s' = history s \<and> world s' = world s \<and> os.more s' = os.more s"
  by (auto simp: spolicy_def run_check dest!: simple_call_same split: prod.splits if_splits)

lemma open_ReadOnly_same:
  "run_state (open_at p ReadOnly) s = (x, s') \<Longrightarrow>
    disk s' = disk s \<and> history s' = history s \<and> world s' = world s \<and> os.more s' = os.more s \<and>
    (case x of None \<Rightarrow> True | Some fd \<Rightarrow> fst fd = p \<and> node_at (tree s) p = Some (snd fd))"
  by (auto simp: open_at_def missing_def dest!: attempt_cases split: prod.splits if_splits option.splits)

lemma schdirparent_same:
  assumes "run_state (schdirparent vol path) s = (x, s')"
  shows "disk s' = disk s \<and> history s' = history s \<and> world s' = world s \<and> os.more s' = os.more s"
  using assms
  by (auto simp: schdirparent_def run_need run_check
      dest!: simple_call_same build_path_same spolicy_same open_ReadOnly_same
      split: prod.splits if_splits option.splits)

lemma read_at_full:
  assumes "run_state (read_at fd off n) s = (r, s')" "fst r = int n"
  shows "snd r = take n (drop off (contents (snd fd))) \<and> length (snd r) = n \<and>
    disk s' = disk s \<and> history s' = history s"
proof -
  have "take k xs = take n xs" if "length (take k xs) = n" "k \<le> n" for k and xs :: bytes
    using that by (cases "k = n") auto
  with assms show ?thesis
    by (auto simp: read_at_def Let_def dest!: attempt_cases split: prod.splits if_splits option.splits)
qed

lemma write_at_full:
  assumes "run_state (write_at fd off data) s = (r, s')" "r = int (length data)"
    "node_at (tree s) (fst fd) = Some (File i m b)" "fst fd \<noteq> []"
  shows "node_at (tree s') (fst fd) = Some (File i m (take off b @ data @ drop (off + length data) b))"
proof -
  obtain ok t where "run_state (attempt WriteCall) s = (ok, t)" by fastforce
  moreover from this have "disk t = disk s" by (auto dest: attempt_cases)
  ultimately show ?thesis
    using assms by (cases ok) (auto simp: write_at_def run_update_at put_at_here split: option.splits if_splits)
qed

section \<open>Copies\<close>

lemma copy_loop_0:
  assumes "run_state (copy_loop src dst off left) s = (0, s')" "fst dst \<noteq> []"
    "node_at (tree s) (fst dst) = Some (File i m (take off (contents (snd src))))"
    "off + left = length (contents (snd src))"
  shows "node_at (tree s') (fst dst) = Some (File i m (contents (snd src)))"
  using assms
proof (induction src dst off left arbitrary: s rule: copy_loop.induct)
  case (1 src dst off left)
  let ?n = "min left MAXBSIZE" and ?c = "contents (snd src)"
  show ?case
  proof (cases "left = 0")
    case True
    with 1 show ?thesis by (simp add: copy_loop.simps)
  next
    case False
    obtain r s1 where read: "run_state (read_at src off ?n) s = (r, s1)" by fastforce
    obtain k s2 where wr: "run_state (write_at dst off (snd r)) s1 = (k, s2)" by fastforce
    have full: "fst r = int ?n" "k = int ?n" "run_state (copy_loop src dst (off + ?n) (left - ?n)) s2 = (0, s')"
      using 1(2) False read wr by (auto simp: copy_loop.simps [of src dst off left] split: if_splits)
    note got = read_at_full [OF read full(1)]
    then have "node_at (tree s1) (fst dst) = Some (File i m (take off ?c))" "k = int (length (snd r))"
      using 1(4) full(2) by metis+
    then have "node_at (tree s2) (fst dst) =
        Some (File i m (take off (take off ?c) @ snd r @ drop (off + length (snd r)) (take off ?c)))"
      using write_at_full [OF wr _ _ 1(3)] by blast
    also have "take off (take off ?c) @ snd r @ drop (off + length (snd r)) (take off ?c) = take (off + ?n) ?c"
      using got by (simp add: take_add)
    finally have next_at: "node_at (tree s2) (fst dst) = Some (File i m (take (off + ?n) ?c))" .
    show ?thesis by (rule 1(1) [OF False _ _ full(3) 1(3) next_at]) (use full 1(5) in auto)
  qed
qed


lemma open_at_exclusive:
  assumes "run_state (open_at p (Creating True mode)) s = (Some fd, s')"
  shows "fst fd = p" "\<exists>i m. node_at (tree s') p = Some (File i m []) \<and> snd fd = File i m []"
proof -
  have "p \<noteq> [] \<and> (\<exists>d. node_at t (butlast p) = Some d \<and> is_dir d)" if "parent_is_dir t p" for t
    using that by (auto simp: parent_is_dir_def split: option.splits)
  then have at: "node_at (put_at p v t) p = v" if "parent_is_dir t p" for v t
    using that put_at_same [of t "butlast p" _ "last p" v] by fastforce
  show "fst fd = p" "\<exists>i m. node_at (tree s') p = Some (File i m []) \<and> snd fd = File i m []"
    using assms
    by (auto simp: open_at_def missing_def at split: prod.splits if_splits option.splits dest!: attempt_cases)
qed

lemma sopen_creating:
  assumes "run_state (sopen vol path (Creating x mode)) s = (Some fd, s')"
  shows "fst fd = comps path" "comps path \<noteq> []"
    "\<exists>i m. node_at (tree s') (comps path) = Some (File i m []) \<and> snd fd = File i m []"
proof -
  obtain d s1 where par: "run_state (schdirparent vol path) s = (d, s1)" by fastforce
  with assms obtain dir where d: "d = Some dir" and np: "\<not> names_parent path"
    by (cases d) (auto simp: sopen_def sopen_ifExists_def run_need exclusively_def split: if_splits)
  have p: "dir @ comps (basename path) = comps path"
    using schdirparent_Some(1) [OF par [unfolded d]] by (simp add: comps_dirname)
  obtain c s2 where op: "run_state (open_at (comps path) (Creating True mode)) s1 = (c, s2)" by fastforce
  have pol: "c = Some fd" "disk s' = disk s2"
    using assms par np op
    by (auto simp: sopen_def sopen_ifExists_def run_need run_check exclusively_def d p
        dest!: spolicy_same split: if_splits option.splits prod.splits)
  show ne: "comps path \<noteq> []" using np names_parent_comps by blast
  show "fst fd = comps path" "\<exists>i m. node_at (tree s') (comps path) = Some (File i m []) \<and> snd fd = File i m []"
    using open_at_exclusive [OF op [unfolded pol(1)]] pol(2) by auto
qed


text \<open>What was in the way is removed first; the copy has the contents and the permissions of the source.\<close>

lemma copyfiledata_0:
  assumes "run_state (copyfiledata srcfd vol dst) s = (0, s')"
  shows "\<exists>i. node_at (tree s') (comps dst) = Some (File i (perms (snd srcfd)) (contents (snd srcfd)))"
proof -
  let ?c = "contents (snd srcfd)"
  obtain u s1 where un: "run_state (sunlink vol dst) s = (u, s1)" by fastforce
  obtain x s2 where op: "run_state (sopen vol dst (Creating True (perms (snd srcfd) OR S_IWUSR))) s1 = (x, s2)"
    by fastforce
  from assms un op obtain fd where x: "x = Some fd" by (cases x) (auto simp: copyfiledata_def run_need)
  obtain a s3 where al: "run_state (simple_call AllocCall) s2 = (a, s3)" by fastforce
  obtain c s4 where co: "run_state (copy_loop srcfd fd 0 (length ?c)) s3 = (c, s4)" by fastforce
  have run: "c = 0" "run_state (fchmod fd (perms (snd srcfd))) s4 = (0, s')"
    using assms un op al co by (auto simp: copyfiledata_def run_need run_check x split: if_splits)
  note op = sopen_creating [OF op [unfolded x]]
  obtain i m where "node_at (tree s2) (comps dst) = Some (File i m [])" using op(3) by blast
  then have "node_at (tree s3) (fst fd) = Some (File i m (take 0 ?c))"
    using simple_call_same [OF al] op(1) by simp
  then have "node_at (tree s4) (comps dst) = Some (File i m ?c)"
    using copy_loop_0 [OF co [unfolded run(1)]] op(1,2) by simp
  then have "node_at (tree s') (comps dst) = Some (File i (perms (snd srcfd)) ?c)"
    using run(2) op(1,2)
    by (auto simp: fchmod_def run_update_at put_at_here dest!: attempt_cases split: prod.splits if_splits)
  then show ?thesis ..
qed

lemma sopen_ReadOnly_same:
  assumes "run_state (sopen vol path ReadOnly) s = (x, s')"
  shows "disk s' = disk s \<and> history s' = history s \<and> world s' = world s \<and> os.more s' = os.more s \<and>
    (case x of None \<Rightarrow> True | Some fd \<Rightarrow> fst fd = comps path \<and> node_at (tree s) (comps path) = Some (snd fd))"
proof -
  obtain d s1 where par: "run_state (schdirparent vol path) s = (d, s1)" by fastforce
  show ?thesis
  proof (cases d)
    case None
    with assms par schdirparent_same [OF par] show ?thesis
      by (simp add: sopen_def sopen_ifExists_def run_need exclusively_def)
  next
    case (Some dir)
    have p: "dir @ comps (basename path) = comps path"
      using schdirparent_Some(1) [OF par [unfolded Some]] by (simp add: comps_dirname)
    obtain c s2 where op: "run_state (open_at (comps path) ReadOnly) s1 = (c, s2)" by fastforce
    show ?thesis
      using assms par schdirparent_same [OF par] open_ReadOnly_same [OF op] op
      by (auto simp: sopen_def sopen_ifExists_def run_need run_check exclusively_def Some p
          dest!: spolicy_same split: if_splits option.splits prod.splits)
  qed
qed

lemma scopyitem_fuel_file:
  assumes "run_state (scopyitem_fuel fuel srcvol dstvol srcpath dstpath) s = (0, s')"
    "node_at (tree s) (comps srcpath) = Some (File i m b)"
  shows "\<exists>j. node_at (tree s') (comps dstpath) = Some (File j m b)"
proof (cases fuel)
  case (Suc fuel)
  obtain x s1 where op: "run_state (sopen srcvol srcpath ReadOnly) s = (x, s1)" by fastforce
  with assms(1) Suc obtain fd where x: "x = Some fd" by (cases x) (auto simp: run_need)
  have fd: "snd fd = File i m b" using sopen_ReadOnly_same [OF op] assms(2) by (simp add: x)
  show ?thesis using assms(1) Suc op copyfiledata_0 [of fd dstvol dstpath]
    by (auto simp: run_need run_check x fd split: prod.splits if_splits option.splits)
qed (use assms in simp)

section \<open>Erasing\<close>

lemma zero_loop_0:
  assumes "run_state (zero_loop fd off left) s = (0, s')" "fst fd \<noteq> []"
    "node_at (tree s) (fst fd) = Some (File i m (replicate off 0 @ drop off b))" "off + left = length b"
  shows "node_at (tree s') (fst fd) = Some (File i m (replicate (length b) 0))"
  using assms
proof (induction fd off left arbitrary: s rule: zero_loop.induct)
  case (1 fd off left)
  let ?n = "min left MAXBSIZE"
  show ?case
  proof (cases "left = 0")
    case True
    with 1 show ?thesis by (simp add: zero_loop.simps)
  next
    case False
    obtain k s1 where wr: "run_state (write_at fd off (replicate ?n 0)) s = (k, s1)" by fastforce
    have full: "k = int ?n" "run_state (zero_loop fd (off + ?n) (left - ?n)) s1 = (0, s')"
      using 1(2) False wr by (auto simp: zero_loop.simps [of fd off left] split: if_splits)
    have "node_at (tree s1) (fst fd) = Some (File i m (take off (replicate off 0 @ drop off b) @ replicate ?n 0 @
        drop (off + length (replicate ?n (0::8 word))) (replicate off 0 @ drop off b)))"
      by (rule write_at_full [OF wr _ 1(4,3)]) (simp add: full)
    then have next_at: "node_at (tree s1) (fst fd) = Some (File i m (replicate (off + ?n) 0 @ drop (off + ?n) b))"
      by (simp add: replicate_add add.commute)
    show ?thesis by (rule 1(1) [OF False _ full(2) 1(3) next_at]) (use full 1(5) in auto)
  qed
qed

text \<open>A call that fails for another reason than a missing file says so.\<close>

definition no_ENOENT :: "world \<Rightarrow> bool" where
  "no_ENOENT w \<longleftrightarrow> (\<forall>c n. fails w c n \<noteq> Some ENOENT)"

lemma attempt_not_ENOENT:
  "run_state (attempt c) s = (ok, s') \<Longrightarrow> no_ENOENT (world s) \<Longrightarrow> \<not> ok \<Longrightarrow> errno s' \<noteq> ENOENT"
  by (auto simp: attempt_def no_ENOENT_def split: option.splits)

lemma attempt_full:
  "run_state (attempt c) s = (ok, s') \<Longrightarrow> no_ENOENT (world s) \<Longrightarrow>
    disk s' = disk s \<and> (ok \<or> errno s' \<noteq> ENOENT)"
  using attempt_cases attempt_not_ENOENT by blast

lemma simple_call_not_ENOENT:
  "run_state (simple_call c) s = (r, s') \<Longrightarrow> no_ENOENT (world s) \<Longrightarrow> r \<noteq> 0 \<Longrightarrow> errno s' \<noteq> ENOENT"
  by (auto simp: simple_call_def split: prod.splits dest: attempt_not_ENOENT)

lemma spolicy_not_ENOENT:
  assumes "run_state (spolicy vol p) s = (r, s')" "no_ENOENT (world s)" "r \<noteq> 0"
  shows "errno s' \<noteq> ENOENT"
proof -
  obtain a s1 where a: "run_state (simple_call FstatCall) s = (a, s1)" by fastforce
  obtain b s2 where b: "run_state (simple_call FstatCall) s1 = (b, s2)" by fastforce
  have w: "no_ENOENT (world s1)" using simple_call_same [OF a] assms(2) by simp
  show ?thesis
    using assms(1,3) simple_call_not_ENOENT [OF a assms(2)] simple_call_not_ENOENT [OF b w] a b
    by (auto simp: spolicy_def run_check errno_defs split: if_splits)
qed

lemma schdirparent_not_ENOENT:
  assumes run: "run_state (schdirparent vol path) s = (x, s')" and w: "no_ENOENT (world s)" and "x = None"
    and fits: "length path < PATH_MAX" and there: "node_at (tree s) (comps (dirname path)) \<noteq> None"
  shows "errno s' \<noteq> ENOENT"
proof -
  obtain o1 s1 where op: "run_state (open_at (comps (dirname path)) ReadOnly) s = (o1, s1)" by fastforce
  obtain r s2 where po: "run_state (spolicy vol (comps (dirname path))) (s1\<lparr>errno := 0\<rparr>) = (r, s2)" by fastforce
  obtain c s3 where c: "run_state (simple_call OpenCall) s2 = (c, s3)" by fastforce
  obtain d s4 where d: "run_state (simple_call ChdirCall) s3 = (d, s4)" by fastforce
  have w1: "no_ENOENT (world (s1\<lparr>errno := 0\<rparr>))" using open_ReadOnly_same [OF op] w by simp
  then have w2: "no_ENOENT (world s2)" using spolicy_same [OF po] by simp
  then have w3: "no_ENOENT (world s3)" using simple_call_same [OF c] by simp
  have "errno s1 \<noteq> ENOENT" if "o1 = None"
    using op that there by (auto simp: open_at_def split: prod.splits if_splits option.splits
        dest!: attempt_full [OF _ w])
  moreover have "run_state (build_path [path]) s = (Some path, s)" using fits by (simp add: build_path_def)
  ultimately show ?thesis
    using run \<open>x = None\<close> op po c d spolicy_not_ENOENT [OF po w1] simple_call_not_ENOENT [OF c w2]
      simple_call_not_ENOENT [OF d w3]
    by (auto simp: schdirparent_def run_need run_check errno_defs split: option.splits if_splits)
qed

lemma sopen_writing:
  assumes run: "run_state (sopen vol path ForWriting) s = (x, s')" and w: "no_ENOENT (world s)"
    and fits: "length path < PATH_MAX" and node: "node_at (tree s) (comps path) = Some (File i m b)"
  shows "disk s' = disk s" "x = None \<Longrightarrow> errno s' \<noteq> ENOENT"
    "x = Some fd \<Longrightarrow> fd = (comps path, File i m b) \<and> comps path \<noteq> []"
proof -
  obtain d s1 where par: "run_state (schdirparent vol path) s = (d, s1)" by fastforce
  have "node_at (tree s) (comps (dirname path) @ comps (basename path)) = Some (File i m b)"
    using node by (simp add: comps_dirname)
  then have there: "node_at (tree s) (comps (dirname path)) \<noteq> None"
    by (auto simp: node_at_append split: option.splits)
  have "disk s' = disk s \<and> (x = None \<longrightarrow> errno s' \<noteq> ENOENT) \<and>
      (x = Some fd \<longrightarrow> fd = (comps path, File i m b) \<and> comps path \<noteq> [])"
  proof (cases "d = None \<or> names_parent path")
    case True
    then show ?thesis
      using run par schdirparent_same [OF par] schdirparent_not_ENOENT [OF par w _ fits there]
      by (auto simp: sopen_def sopen_ifExists_def run_need exclusively_def errno_defs split: option.splits)
  next
    case False
    then obtain dir where d: "d = Some dir" by auto
    have p: "dir @ comps (basename path) = comps path"
      using schdirparent_Some(1) [OF par [unfolded d]] by (simp add: comps_dirname)
    obtain o1 s2 where op: "run_state (open_at (comps path) ForWriting) s1 = (o1, s2)" by fastforce
    obtain r s3 where po: "run_state (spolicy vol (comps path)) s2 = (r, s3)" by fastforce
    have s1: "disk s1 = disk s" "no_ENOENT (world s1)" using schdirparent_same [OF par] w by simp_all
    have s2: "disk s2 = disk s1 \<and> no_ENOENT (world s2) \<and> (o1 = None \<longrightarrow> errno s2 \<noteq> ENOENT) \<and>
        (o1 = None \<or> o1 = Some (comps path, File i m b))"
      using op s1 node by (auto simp: open_at_def split: prod.splits if_splits
          dest: attempt_cases dest: attempt_full)
    have "comps path \<noteq> []" using False names_parent_comps by blast
    then show ?thesis
      using run par op po False spolicy_same [OF po] s1 s2 spolicy_not_ENOENT [OF po]
      by (auto simp: sopen_def sopen_ifExists_def run_need run_check exclusively_def d p
          split: if_splits option.splits)
  qed
  then show "disk s' = disk s" "x = None \<Longrightarrow> errno s' \<noteq> ENOENT"
    "x = Some fd \<Longrightarrow> fd = (comps path, File i m b) \<and> comps path \<noteq> []" by blast+
qed


text \<open>After a successful erasure the file is empty; when the last step, the truncation, failed, it is all zeros.\<close>

lemma szerofile_0:
  assumes run: "run_state (szerofile vol path) s = (0, s')"
    and node: "node_at (tree s) (comps path) = Some (File i m b)"
    and fits: "length path < PATH_MAX" and w: "no_ENOENT (world s)"
  shows "node_at (tree s') (comps path) \<in> {Some (File i m (replicate (length b) 0)), Some (File i m [])}"
proof -
  obtain x s1 where op: "run_state (sopen vol path ForWriting) s = (x, s1)" by fastforce
  note op' = sopen_writing [OF op w fits node]
  with run op have "x \<noteq> None" by (cases x) (auto simp: szerofile_def run_need)
  then obtain fd where x: "x = Some fd" by blast
  then have fd: "fd = (comps path, File i m b)" and ne: "comps path \<noteq> []" using op'(3) by simp_all
  obtain a s2 where st: "run_state (simple_call FstatCall) s1 = (a, s2)" by fastforce
  have a: "a = 0" "tree s2 = tree s"
    using run op x st op'(1) simple_call_same [OF st] by (auto simp: szerofile_def run_need run_check split: if_splits)
  show ?thesis
  proof (cases "b = []")
    case True
    then show ?thesis using run op st a node by (auto simp: szerofile_def run_need run_check x fd)
  next
    case False
    obtain c s3 where al: "run_state (simple_call AllocCall) s2 = (c, s3)" by fastforce
    obtain z s4 where zl: "run_state (zero_loop fd 0 (length b)) s3 = (z, s4)" by fastforce
    obtain t s5 where tr: "run_state (truncate_at fd) s4 = (t, s5)" by fastforce
    have "z = 0" "s' = s5"
      using run op st a al zl tr False by (auto simp: szerofile_def run_need run_check x fd split: if_splits)
    then have "node_at (tree s4) (comps path) = Some (File i m (replicate (length b) 0))"
      using zero_loop_0 [of fd 0 "length b" s3 s4 i m b] zl ne node simple_call_same [OF al] a by (simp add: fd)
    with tr ne \<open>s' = s5\<close> show ?thesis
      by (auto simp: truncate_at_def fd run_update_at put_at_here dest!: attempt_cases split: prod.splits if_splits)
  qed
qed


section \<open>Directories\<close>

lemma mkdir_at_0:
  "run_state (mkdir_at p mode) s = (0, s') \<Longrightarrow> \<exists>i m. node_at (tree s') p = Some (Dir i m [])"
proof -
  assume run: "run_state (mkdir_at p mode) s = (0, s')"
  have "node_at (put_at p v t) p = v" if "parent_is_dir t p" for v t
    using that put_at_same [of t "butlast p" _ "last p" v] by (fastforce simp: parent_is_dir_def split: option.splits)
  with run show ?thesis
    by (auto simp: mkdir_at_def missing_def dest!: attempt_cases split: prod.splits if_splits)
qed

lemma stat_call_Some:
  "run_state (stat_call p) s = (Some n, s') \<Longrightarrow> node_at (tree s') (comps p) = Some n \<and> disk s' = disk s"
  by (auto simp: stat_call_def look_def missing_def dest!: attempt_cases split: prod.splits if_splits option.splits)

lemma smkdir_0:
  assumes "run_state (smkdir vol path mode) s = (0, s')"
  shows "\<exists>d. node_at (tree s') (comps path) = Some d \<and> is_dir d"
proof -
  obtain d s1 where par: "run_state (schdirparent vol path) s = (d, s1)" by fastforce
  with assms obtain dir where d: "d = Some dir" and np: "\<not> names_parent path"
    by (cases d) (auto simp: smkdir_def run_need split: if_splits)
  then have "run_state (mkdir_at (comps path) mode) s1 = (0, s')"
    using assms par schdirparent_Some(1) [OF par [unfolded d]] by (simp add: smkdir_def run_need comps_dirname)
  then show ?thesis using mkdir_at_0 by fastforce
qed

lemma sdeepmkdir_fuel_0:
  "run_state (sdeepmkdir_fuel fuel vol path mode) s = (0, s') \<Longrightarrow>
    \<exists>d. node_at (tree s') (comps path) = Some d \<and> is_dir d"
  by (cases fuel) (auto simp: run_need run_check errno_defs dest: stat_call_Some smkdir_0
      split: prod.splits if_splits option.splits)

text \<open>The recursion over parents ends at the root, as long as that can be examined.\<close>

lemma sdeepmkdir_fuel_cong:
  fixes s :: "'z os_scheme"
  assumes "length path + 2 \<le> f" "length path + 2 \<le> g" "\<forall>n. fails (world s) StatCall n \<noteq> Some ENOENT"
  shows "run_state (sdeepmkdir_fuel f vol path mode) s = run_state (sdeepmkdir_fuel g vol path mode) s"
  using assms
proof (induction "length path" arbitrary: path f g s rule: less_induct)
  case less
  then obtain f' g' where f: "f = Suc (Suc f')" and g: "g = Suc (Suc g')"
    by (metis add_2_eq_Suc' le_Suc_ex add_Suc)
  have world: "world t = world s" if "run_state (stat_call q) s = (x, t)" for q x and t :: "'z os_scheme"
    using that by (auto simp: stat_call_def look_def missing_def dest!: attempt_cases split: prod.splits if_splits option.splits)
  have rec: "run_state (sdeepmkdir_fuel (Suc f') vol (dirname path) mode) t =
      run_state (sdeepmkdir_fuel (Suc g') vol (dirname path) mode) t"
    if "world t = world s" "path \<noteq> []" for t :: "'z os_scheme"
  proof (cases "length (dirname path) < length path")
    case True
    show ?thesis by (rule less.hyps) (use True less.prems f g that in simp_all)
  next
    case False
    then have root: "comps (dirname path) = []" using dirname_shorter [of path] by blast
    have "fails (world t) StatCall n \<noteq> Some ENOENT" for n using less.prems(3) that(1) by simp
    then show ?thesis
      by (auto simp: stat_call_def attempt_def look_def root split: option.split)
  qed
  show ?case unfolding f g
    using rec world
    by (auto simp: run_need run_check split: prod.splits option.splits simp del: sdeepmkdir_fuel.simps(2)
        simp: sdeepmkdir_fuel.simps(2) [of "Suc f'"] sdeepmkdir_fuel.simps(2) [of "Suc g'"] dest!: build_path_same)
qed

text \<open>A recursive copy goes down as long as the paths fit.\<close>

lemma copy_entries_cong:
  "(\<And>name. length (src @ ''/'' @ name) < PATH_MAX \<Longrightarrow>
      copy (src @ ''/'' @ name) (dst @ ''/'' @ name) = copy' (src @ ''/'' @ name) (dst @ ''/'' @ name)) \<Longrightarrow>
    copy_entries copy src dst names = copy_entries copy' src dst names"
proof (induction names)
  case (Cons name names)
  then show ?case
    by (intro state_ext)
      (auto simp: run_need run_check build_path_def split: prod.splits if_splits option.splits)
qed simp

lemma scopyitem_fuel_cong:
  "0 < f \<Longrightarrow> 0 < g \<Longrightarrow> PATH_MAX \<le> f + length src \<Longrightarrow> PATH_MAX \<le> g + length src \<Longrightarrow>
    (scopyitem_fuel f vs vd src dst :: ('z os_scheme, int) state) = scopyitem_fuel g vs vd src dst"
proof (induction f arbitrary: g src dst)
  case (Suc f)
  then obtain g' where g: "g = Suc g'" by (cases g) auto
  have "(scopyitem_fuel f vs vd (src @ ''/'' @ name) (dst @ ''/'' @ name) :: ('z os_scheme, int) state) =
      scopyitem_fuel g' vs vd (src @ ''/'' @ name) (dst @ ''/'' @ name)"
    if "length (src @ ''/'' @ name) < PATH_MAX" for name
    by (rule Suc.IH) (use Suc.prems g that in auto)
  then have "copy_entries (scopyitem_fuel f vs vd :: _ \<Rightarrow> _ \<Rightarrow> ('z os_scheme, int) state) src dst names = copy_entries (scopyitem_fuel g' vs vd) src dst names" for names
    by (rule copy_entries_cong)
  then have "copysubitems (scopyitem_fuel f vs vd :: _ \<Rightarrow> _ \<Rightarrow> ('z os_scheme, int) state) vs src dst = copysubitems (scopyitem_fuel g' vs vd) vs src dst"
    by (simp add: copysubitems_def cong: if_cong)
  then show ?case unfolding g by (simp cong: if_cong)
qed simp

section \<open>Properties\<close>

text \<open>A small disk for the witnesses: a volume, mounted at its own directory, and a file outside of it. Calls do not
  fail.\<close>

definition calm :: world where
  "calm = \<lparr>fails = \<lambda>_ _. None, short = \<lambda>_. None,
     dev_of = (\<lambda>p. if prefix [''v''] p then 2 else 1), mounts = [[''v'']], userdata = \<lambda>_ _. False, umask = 0\<rparr>"

definition small_disk :: node where
  "small_disk = Dir 1 0x1ED [(''v'', Dir 2 0x1ED [(''k'', File 3 0x1A4 [7, 8, 9]), (''e'', Dir 4 0x1ED [])]),
     (''o'', File 5 0x1A4 [1])]"

definition small :: os where
  "small = \<lparr>world = calm, disk = (small_disk, 0, 0), history = [], errno = 0, calls = 0, next_ino = 10\<rparr>"

lemmas small_defs = small_def calm_def small_disk_def

text \<open>What evaluates a program on a concrete state.\<close>

lemmas os_eval = run_need run_check gets_def modify_def set_errno_def fail_with_def change_def put_node_def look_def
  attempt_def missing_def stat_call_def mkdir_at_def rmdir_at_def unlink_at_def rename_at_def open_at_def transfer_def
  read_at_def update_at_def write_at_def truncate_at_def fchmod_def simple_call_def build_path_def spolicy_def
  allowed_def schdirparent_def names_parent_def sopen_ifExists_def sopen_def exclusively_def smkdir_def srmdir_def
  sunlink_def srename_def szerofile_def sdeepunlink_def sdeepmkdir_def copyfiledata_def copysubitems_def scopyitem_def
  busy_def note_result_def parent_is_dir_def comps_def basename_def dirname_def strip_right_def set_entry_def errno_defs Let_def
  map_prod_def

lemma loops_eval:
  "zero_loop fd off 0 = return 0"
  "zero_loop fd off (Suc n) = do {
     k \<leftarrow> write_at fd off (replicate (min (Suc n) MAXBSIZE) 0);
     if k \<noteq> int (min (Suc n) MAXBSIZE) then return (- 1)
     else zero_loop fd (off + min (Suc n) MAXBSIZE) (Suc n - min (Suc n) MAXBSIZE)
   }"
  "copy_loop src dst off 0 = return 0"
  "copy_loop src dst off (Suc n) = do {
     r \<leftarrow> read_at src off (min (Suc n) MAXBSIZE);
     if fst r \<noteq> int (min (Suc n) MAXBSIZE) then return (- 1)
     else do {
       k \<leftarrow> write_at dst off (snd r);
       if k \<noteq> int (min (Suc n) MAXBSIZE) then return (- 1)
       else copy_loop src dst (off + min (Suc n) MAXBSIZE) (Suc n - min (Suc n) MAXBSIZE)
     }
   }"
  by (simp_all add: zero_loop.simps [of fd off] copy_loop.simps [of src dst off])

text \<open>C5. The calls of the safe layer are confined to the volume of their descriptor. On a tree with the mount table of
  its world, no call changes anything on a device that the policy does not admit, also when that is a volume
  mounted below the confining one: on every disk in between, every node there has the kind, the contents
  and the permissions it had, or is still not there, and nothing is blessed, whatever the result and
  whichever calls fail. A descriptor that is handed out refers to an admitted device, and the mount table
  stays that of the tree, so that this holds of any sequence of calls.\<close>

theorem safe_calls_confined:
  assumes "mount_table (world s) (tree s)" "run_state (do_call vol c) s = (r, s')"
  shows "(\<exists>new. history s' = new @ history s \<and>
       (\<forall>d \<in> set (disk s' # new). snd d = snd (disk s) \<and> (\<forall>q. \<not> allowed (world s) vol q \<longrightarrow>
          map_option shallow (node_at (fst d) q) = map_option shallow (node_at (tree s) q)))) \<and>
     (\<forall>fd. r = Inr (Some fd) \<longrightarrow> allowed (world s) vol (fst fd)) \<and>
     world s' = world s \<and> mount_table (world s) (tree s')"
proof -
  have "keeps (world s) vol s s'" using spared_do_call assms(2) by (rule state_io_relD)
  with assms(1) obtain new where "world s' = world s" "spares (world s) vol (disk s) (disk s')"
      "history s' = new @ history s" "\<forall>d \<in> set new. spares (world s) vol (disk s) d"
    by (auto simp: keeps_def)
  then show ?thesis using assms(2)
    by (intro conjI exI [of _ new]) (auto simp: spares_def dest: do_call_descriptor)
qed

text \<open>The volume at /v cannot be moved away by a call that is confined to the one around it.\<close>

theorem safe_calls_confined_witness:
  "node_at (tree (snd (run_state (do_call 1 (Srename ''/v'' ''/w'')) small))) [''v'', ''k''] = Some (File 3 0x1A4 [7, 8, 9])"
proof -
  let ?run = "run_state (do_call 1 (Srename ''/v'' ''/w'')) small"
  have "mount_table (world small) (tree small)"
    by (auto simp: mount_table_def small_defs prefix_Cons append_eq_Cons_conv split: if_splits)
  then have "map_option shallow (node_at (tree (snd ?run)) [''v'', ''k'']) =
      map_option shallow (node_at (tree small) [''v'', ''k''])"
    using safe_calls_confined [of small 1 "Srename ''/v'' ''/w''" "fst ?run" "snd ?run"]
    by (auto simp: allowed_def small_defs)
  then show ?thesis by (auto simp: small_defs elim!: shallow.elims)
qed

text \<open>C12. A copy of a file that reports success is complete: the target is a file with all the contents and the
  permissions of the source, at whatever point calls failed or moved fewer bytes than asked for.\<close>

theorem scopyitem_copies_file:
  assumes "run_state (scopyitem srcvol srcpath dstvol dstpath) s = (0, s')"
    and "node_at (tree s) (comps srcpath) = Some (File i m b)"
  shows "\<exists>j. node_at (tree s') (comps dstpath) = Some (File j m b)"
  using assms unfolding scopyitem_def by (rule scopyitem_fuel_file)


theorem scopyitem_copies_file_witness:
  "\<exists>j. node_at (tree (snd (run_state (scopyitem 1 ''/o'' 2 ''/v/c'') small))) (comps ''/v/c'') = Some (File j 0x1A4 [1])"
proof -
  let ?run = "run_state (scopyitem 1 ''/o'' 2 ''/v/c'') small"
  have "fst ?run = 0"
    by (simp add: os_eval small_defs loops_eval MAXBSIZE_def PATH_MAX_def scopyitem_fuel.simps(2) [of 1023, simplified])
  then have "?run = (0, snd ?run)" by (simp add: prod_eq_iff)
  then show ?thesis
    by (rule scopyitem_copies_file [where i = 5]) (simp add: small_defs comps_def)
qed

text \<open>C21. A file that was reported erased holds none of its bytes any more: it is empty, or all zeros when the
  truncation failed. The path fits, and no call fails with the error of a missing file.\<close>

theorem szerofile_erases:
  assumes "run_state (szerofile vol path) s = (0, s')" "node_at (tree s) (comps path) = Some (File i m b)"
    and "length path < PATH_MAX" "no_ENOENT (world s)"
  shows "node_at (tree s') (comps path) \<in> {Some (File i m (replicate (length b) 0)), Some (File i m [])}"
  using assms by (rule szerofile_0)

theorem szerofile_erases_witness:
  "node_at (tree (snd (run_state (szerofile 2 ''/v/k'') small))) (comps ''/v/k'') \<in>
     {Some (File 3 0x1A4 (replicate (length [7, 8, 9 :: 8 word]) 0)), Some (File 3 0x1A4 [])}"
proof -
  let ?run = "run_state (szerofile 2 ''/v/k'') small"
  have "fst ?run = 0" by (simp add: os_eval small_defs loops_eval PATH_MAX_def MAXBSIZE_def)
  then have "?run = (0, snd ?run)" by (simp add: prod_eq_iff)
  then show ?thesis
    by (rule szerofile_erases) (simp_all add: small_defs comps_def PATH_MAX_def no_ENOENT_def)
qed

text \<open>C37. The recursions are bounded: making a directory with its parents needs at most as many steps as its path is
  long while the root can be examined, and a recursive copy goes at most as deep as paths fit into their
  buffers; more fuel changes nothing.\<close>

theorem safe_recursions_end:
  assumes "\<forall>n. fails (world s) StatCall n \<noteq> Some ENOENT" "length path + 2 \<le> fuel" "PATH_MAX \<le> depth"
  shows "run_state (sdeepmkdir_fuel fuel vol path mode) s = run_state (sdeepmkdir vol path mode) s \<and>
    run_state (scopyitem_fuel depth srcvol vol src path) t = run_state (scopyitem srcvol src vol path) t"
proof
  show "run_state (sdeepmkdir_fuel fuel vol path mode) s = run_state (sdeepmkdir vol path mode) s"
    unfolding sdeepmkdir_def by (rule sdeepmkdir_fuel_cong [OF assms(2) order.refl assms(1)])
  have "0 < depth" "0 < PATH_MAX" using assms(3) by (simp_all add: PATH_MAX_def)
  then show "run_state (scopyitem_fuel depth srcvol vol src path) t = run_state (scopyitem srcvol src vol path) t"
    unfolding scopyitem_def using assms(3) by (simp add: scopyitem_fuel_cong [of depth PATH_MAX])
qed

theorem safe_recursions_end_witness:
  "run_state (sdeepmkdir_fuel 9 2 ''/v/x/y'' 0x1ED) small = run_state (sdeepmkdir 2 ''/v/x/y'' 0x1ED) small \<and>
   run_state (scopyitem_fuel 2000 1 2 ''/o'' ''/v/x/y'') small = run_state (scopyitem 1 ''/o'' 2 ''/v/x/y'') small"
  by (rule safe_recursions_end) (simp_all add: small_defs PATH_MAX_def)

end
