(* ===== verification/SafeEval.thy ===== *)
theory SafeEval
  imports SafeProps
begin

text \<open>
  Evaluation of programs over the operating system on a concrete state, for the witnesses. The functions
  are unfolded only where they run, so that branches that are not taken stay closed.
\<close>

lemmas call_defs = change_def put_node_def look_def missing_def stat_call_def mkdir_at_def rmdir_at_def
  unlink_at_def rename_at_def open_at_def transfer_def read_at_def update_at_def write_at_def truncate_at_def
  fchmod_def simple_call_def spolicy_def schdirparent_def sopen_ifExists_def sopen_def smkdir_def srmdir_def
  sunlink_def srename_def szerofile_def sdeepunlink_def sdeepmkdir_def copyfiledata_def copysubitems_def scopyitem_def
  note_result_def sdeepmkdir_fuel.simps unlink_tree.simps unlink_entries.simps loops_eval
  scopyitem_fuel.simps(2) [of 1023, simplified]

lemmas call_data = run_need run_check busy_def set_errno_def fail_with_def attempt_def build_path_def allowed_def
  names_parent_def exclusively_def parent_is_dir_def comps_def basename_def dirname_def strip_right_def set_entry_def
  errno_defs Let_def map_prod_def PATH_MAX_def

declare sdeepmkdir_fuel.simps [simp del] unlink_tree.simps [simp del] unlink_entries.simps [simp del]
  scopyitem_fuel.simps [simp del] run_gets [simp del]

lemma run_gets_tree:
  "run_state (gets tree) s = (tree s, s)"
  "run_state (gets (\<lambda>s. path_error (tree s) p)) s = (path_error (tree s) p, s)"
  "run_state (gets (\<lambda>s. node_at (tree s) p)) s = (node_at (tree s) p, s)"
  "run_state (gets (\<lambda>s. case short (world s) (calls s) of None \<Rightarrow> n | Some k \<Rightarrow> min k n)) s =
     (case short (world s) (calls s) of None \<Rightarrow> n | Some k \<Rightarrow> min k n, s)"
  by (simp_all add: run_gets)

lemmas run_calls = call_defs [THEN arg_cong [where f = run_state]] run_gets_tree
  run_gets [of errno] run_gets [of world] run_gets [of id]

end
