(* ===== verification/SafeShort.thy ===== *)
theory SafeShort
  imports SafeProps
begin

text \<open>
  src/safecalls.c: what a copy leaves behind when no call fails but a transfer moves fewer bytes than
  asked for, as on a full volume: \<open>_copyfiledata\<close> returns -1 and no call has set \<open>errno\<close>.
\<close>

section \<open>Calls that work\<close>

lemma attempt_works:
  "untroubled (world s) \<Longrightarrow> run_state (attempt c) s = (True, s\<lparr>calls := Suc (calls s)\<rparr>)"
  by (simp add: attempt_def untroubled_def)

lemma simple_call_works:
  "untroubled (world s) \<Longrightarrow> run_state (simple_call c) s = (0, s\<lparr>calls := Suc (calls s)\<rparr>)"
  by (simp add: simple_call_def attempt_works)

text \<open>A path whose directory is there, on the volume like the path itself, and that fits.\<close>

definition placed :: "'z os_scheme \<Rightarrow> nat \<Rightarrow> string \<Rightarrow> bool" where
  "placed s vol path \<longleftrightarrow> length path < PATH_MAX \<and> \<not> names_parent path \<and>
     (\<exists>d. node_at (tree s) (comps (dirname path)) = Some d \<and> is_dir d) \<and>
     allowed (world s) vol (comps (dirname path)) \<and> allowed (world s) vol (comps path)"

text \<open>The states that differ in the number of calls and in \<open>errno\<close> only.\<close>

definition settled_from :: "'z os_scheme \<Rightarrow> 'z os_scheme \<Rightarrow> bool" where
  "settled_from s t \<longleftrightarrow> world t = world s \<and> disk t = disk s \<and> errno t = 0"

lemma spolicy_works:
  "untroubled (world s) \<Longrightarrow> allowed (world s) vol p \<Longrightarrow>
    run_state (spolicy vol p) s = (0, s\<lparr>calls := Suc (Suc (calls s))\<rparr>)"
  by (simp add: spolicy_def run_check simple_call_works)

lemma schdirparent_works:
  assumes "untroubled (world s)" "placed s vol path"
  shows "\<exists>t. run_state (schdirparent vol path) s = (Some (comps (dirname path)), t) \<and> settled_from s t"
  using assms
  by (auto simp: schdirparent_def run_need run_check build_path_def open_at_def placed_def attempt_works
      spolicy_works simple_call_works settled_from_def)

lemma sopen_works:
  assumes "untroubled (world s)" "placed s vol path" "node_at (tree s) (comps path) = Some n"
  shows "\<exists>t. run_state (sopen vol path ReadOnly) s = (Some (comps path, n), t) \<and> settled_from s t"
proof -
  obtain t where t: "run_state (schdirparent vol path) s = (Some (comps (dirname path)), t)" "settled_from s t"
    using schdirparent_works [OF assms(1,2)] by blast
  then show ?thesis using assms
    by (auto simp: sopen_def sopen_ifExists_def exclusively_def run_need run_check comps_dirname open_at_def
        attempt_works spolicy_works settled_from_def placed_def)
qed

lemma sunlink_missing:
  assumes "untroubled (world s)" "placed s vol path" "node_at (tree s) (comps path) = None"
  shows "\<exists>r t. run_state (sunlink vol path) s = (r, t) \<and> world t = world s \<and> disk t = disk s"
proof -
  obtain t where t: "run_state (schdirparent vol path) s = (Some (comps (dirname path)), t)" "settled_from s t"
    using schdirparent_works [OF assms(1,2)] by blast
  then show ?thesis using assms
    by (auto simp: sunlink_def run_need comps_dirname unlink_at_def look_def missing_def
        attempt_works settled_from_def placed_def)
qed

lemma sopen_creates:
  assumes "untroubled (world s)" "placed s vol path" "node_at (tree s) (comps path) = None"
  shows "\<exists>t i m. run_state (sopen vol path (Creating x mode)) s = (Some (comps path, File i m []), t) \<and>
    world t = world s \<and> errno t = 0 \<and> node_at (tree t) (comps path) = Some (File i m [])"
proof -
  obtain t where t: "run_state (schdirparent vol path) s = (Some (comps (dirname path)), t)" "settled_from s t"
    using schdirparent_works [OF assms(1,2)] by blast
  have ne: "comps path \<noteq> []" using assms(2) names_parent_comps by (auto simp: placed_def)
  have "butlast (comps path) = comps (dirname path)"
    using assms(2) by (simp add: placed_def comps_dirname_butlast)
  with assms(2) ne have par: "parent_is_dir (tree s) (comps path)"
    by (auto simp: parent_is_dir_def placed_def)
  have at: "node_at (put_at (comps path) v (tree s)) (comps path) = v" for v
  proof -
    have "comps path = comps (dirname path) @ [last (comps path)]"
      using ne \<open>butlast (comps path) = comps (dirname path)\<close> by (metis append_butlast_last_id)
    moreover obtain d where "node_at (tree s) (comps (dirname path)) = Some d" "is_dir d"
      using assms(2) by (auto simp: placed_def)
    ultimately show ?thesis by (metis put_at_same)
  qed
  show ?thesis using assms t par at
    by (auto simp: sopen_def sopen_ifExists_def exclusively_def run_need run_check comps_dirname open_at_def
        attempt_works spolicy_works settled_from_def placed_def)
qed

section \<open>Short transfers\<close>

lemma read_at_works:
  "untroubled (world s) \<Longrightarrow> \<exists>k \<le> n. run_state (read_at fd off n) s =
    ((int (length (take k (drop off (contents (snd fd))))), take k (drop off (contents (snd fd)))),
     s\<lparr>calls := Suc (calls s)\<rparr>)"
  by (auto simp: read_at_def Let_def attempt_works split: option.split) (metis min.cobounded2)

lemma write_at_works:
  assumes "untroubled (world s)" "node_at (tree s) (fst fd) = Some (File i m b)" "fst fd \<noteq> []"
  shows "\<exists>k t. k \<le> length data \<and> run_state (write_at fd off data) s = (int k, t) \<and> world t = world s \<and>
    errno t = errno s \<and>
    node_at (tree t) (fst fd) = Some (File i m (take off b @ take k data @ drop (off + k) b))"
proof -
  let ?k = "case short (world s) (calls s) of None \<Rightarrow> length data | Some k \<Rightarrow> min k (length data)"
  have "?k \<le> length data" by (simp split: option.split)
  moreover from this have "length (take ?k data) = ?k" by simp
  ultimately show ?thesis using assms
    by (intro exI [of _ ?k]) (auto simp: write_at_def attempt_works run_update_at put_at_here)
qed

lemma copy_loop_short:
  assumes "untroubled (world s)" "fst dst \<noteq> []"
    "node_at (tree s) (fst dst) = Some (File i m (take off (contents (snd src))))"
    "off + left = length (contents (snd src))"
    "run_state (copy_loop src dst off left) s = (r, s')"
  shows "errno s' = errno s \<and> world s' = world s \<and>
    (\<exists>b. node_at (tree s') (fst dst) = Some (File i m b) \<and>
      (r = 0 \<and> b = contents (snd src) \<or> r = - 1 \<and> length b < length (contents (snd src))))"
  using assms
proof (induction src dst off left arbitrary: s rule: copy_loop.induct)
  case (1 src dst off left)
  let ?n = "min left MAXBSIZE" and ?c = "contents (snd src)"
  show ?case
  proof (cases "left = 0")
    case True
    with 1 show ?thesis by (simp add: copy_loop.simps)
  next
    case False
    obtain k where k: "k \<le> ?n" "run_state (read_at src off ?n) s =
        ((int (length (take k (drop off ?c))), take k (drop off ?c)), s\<lparr>calls := Suc (calls s)\<rparr>)"
      using read_at_works [OF 1(2)] by blast
    show ?thesis
    proof (cases "length (take k (drop off ?c)) = ?n")
      case short: False
      with False 1(6) k(2) have "r = - 1" "s' = s\<lparr>calls := Suc (calls s)\<rparr>"
        by (simp_all add: copy_loop.simps [of src dst off left])
      with 1(4,5) False show ?thesis by simp
    next
      case full: True
      then have kn: "k = ?n" using k(1) by (simp add: min_def split: if_splits)
      let ?s = "s\<lparr>calls := Suc (calls s)\<rparr>" and ?data = "take k (drop off ?c)"
      have "untroubled (world ?s)" "node_at (tree ?s) (fst dst) = Some (File i m (take off ?c))"
        using 1(2,4) by simp_all
      from write_at_works [OF this 1(3), of ?data off] obtain j t where w: "j \<le> length ?data"
        "run_state (write_at dst off ?data) ?s = (int j, t)" "world t = world s" "errno t = errno s"
        "node_at (tree t) (fst dst) = Some (File i m (take off (take off ?c) @ take j ?data @ drop (off + j) (take off ?c)))"
        by auto
      have now: "take off (take off ?c) @ take j ?data @ drop (off + j) (take off ?c) = take off ?c @ take j ?data"
        by simp
      show ?thesis
      proof (cases "j = ?n")
        case True
        have "take off ?c @ take j ?data = take (off + ?n) ?c" using True kn by (simp add: take_add)
        with w(5) now have next_at: "node_at (tree t) (fst dst) = Some (File i m (take (off + ?n) ?c))" by simp
        have rest: "run_state (copy_loop src dst (off + ?n) (left - ?n)) t = (r, s')"
          using 1(6) False k(2) full True w(2) by (simp add: copy_loop.simps [of src dst off left])
        have sum: "off + ?n + (left - ?n) = length ?c" using 1(5) by simp
        have wt: "untroubled (world t)" using 1(2) w(3) by simp
        have "errno s' = errno t \<and> world s' = world t \<and>
            (\<exists>b. node_at (tree s') (fst dst) = Some (File i m b) \<and> (r = 0 \<and> b = ?c \<or> r = - 1 \<and> length b < length ?c))"
          by (rule 1(1) [where x = "(int ?n, [])" and xa = "int ?n", OF False _ _ wt 1(3) next_at sum rest]) simp_all
        then show ?thesis using w(3,4) by simp
      next
        case short: False
        then have "r = - 1" "s' = t"
          using 1(6) False k(2) full w(2) by (simp_all add: copy_loop.simps [of src dst off left])
        moreover have "length (take off ?c @ take j ?data) < length ?c"
          using short w(1) full 1(5) by (simp add: min_def split: if_splits)
        ultimately show ?thesis using w(3-5) now by simp
      qed
    qed
  qed
qed

lemma sdeepmkdir_there:
  assumes "untroubled (world s)" "placed s vol path"
  shows "\<exists>t. run_state (sdeepmkdir v (dirname path) mode) s = (0, t) \<and> world t = world s \<and> disk t = disk s"
proof -
  have "dirname path \<noteq> []" by (auto simp: dirname_def Let_def)
  with assms show ?thesis
    by (auto simp: sdeepmkdir_def placed_def stat_call_def attempt_works look_def numeral_2_eq_2)
qed

lemma copyfiledata_short:
  assumes "untroubled (world s)" "placed s vol dst" "node_at (tree s) (comps dst) = None"
    "run_state (copyfiledata srcfd vol dst) s = (r, s')"
  shows "errno s' = 0 \<and> (\<exists>i m b. node_at (tree s') (comps dst) = Some (File i m b) \<and>
    (r = 0 \<and> b = contents (snd srcfd) \<or> r = - 1 \<and> length b < length (contents (snd srcfd))))"
proof -
  let ?c = "contents (snd srcfd)"
  obtain u s1 where un: "run_state (sunlink vol dst) s = (u, s1)" "world s1 = world s" "disk s1 = disk s"
    using sunlink_missing [OF assms(1-3)] by blast
  have "untroubled (world s1)" "placed s1 vol dst" "node_at (tree s1) (comps dst) = None"
    using un assms(1-3) by (simp_all add: placed_def)
  from sopen_creates [OF this] obtain s2 i m where
    op: "run_state (sopen vol dst (Creating True (perms (snd srcfd) OR S_IWUSR))) s1 = (Some (comps dst, File i m []), s2)"
      "world s2 = world s" "errno s2 = 0" "node_at (tree s2) (comps dst) = Some (File i m [])"
    using un(2) by metis
  let ?fd = "(comps dst, File i m [])"
  have w2: "untroubled (world s2)" using op(2) assms(1) by simp
  obtain c s4 where co: "run_state (copy_loop srcfd ?fd 0 (length ?c)) (s2\<lparr>calls := Suc (calls s2)\<rparr>) = (c, s4)"
    by fastforce
  have ne: "comps dst \<noteq> []" using assms(2) names_parent_comps by (auto simp: placed_def)
  from copy_loop_short [OF _ _ _ _ co, of i m] w2 op ne obtain b where
    loop: "errno s4 = 0" "world s4 = world s" "node_at (tree s4) (comps dst) = Some (File i m b)"
      "c = 0 \<and> b = ?c \<or> c = - 1 \<and> length b < length ?c"
    by auto
  have w4: "untroubled (world s4)" using loop(2) assms(1) by simp
  have rest: "run_state (check (return c) return (fchmod ?fd (perms (snd srcfd)))) s4 = (r, s')"
    using assms(4) un(1) op(1) co
    by (auto simp: copyfiledata_def run_need run_check simple_call_works [OF w2] split: if_splits)
  show ?thesis
  proof (cases "c = 0")
    case True
    with rest loop ne w4 show ?thesis
      by (auto simp: run_check fchmod_def attempt_works run_update_at put_at_here)
  next
    case False
    with rest loop show ?thesis by (auto simp: run_check)
  qed
qed

text \<open>A copy of a file into a directory that is there.\<close>

lemma scopyitem_short:
  assumes "untroubled (world s)" "placed s srcvol src" "placed s dstvol dst"
    "node_at (tree s) (comps src) = Some (File i m b)" "node_at (tree s) (comps dst) = None"
    "run_state (scopyitem srcvol src dstvol dst) s = (r, s')"
  shows "errno s' = 0 \<and> (\<exists>j k c. node_at (tree s') (comps dst) = Some (File j k c) \<and>
    (r = 0 \<and> c = b \<or> r = - 1 \<and> length c < length b))"
proof -
  obtain s1 where op: "run_state (sopen srcvol src ReadOnly) s = (Some (comps src, File i m b), s1)" "settled_from s s1"
    using sopen_works [OF assms(1,2,4)] by blast
  let ?s2 = "s1\<lparr>calls := Suc (calls s1)\<rparr>" and ?fd = "(comps src, File i m b)"
  have w: "untroubled (world s1)" "untroubled (world ?s2)" "placed ?s2 dstvol dst"
    using op(2) assms(1,3) by (simp_all add: settled_from_def placed_def)
  obtain s3 where mk: "run_state (sdeepmkdir dstvol (dirname dst) (dir_mode m)) ?s2 = (0, s3)"
      "world s3 = world s" "disk s3 = disk s"
    using sdeepmkdir_there [OF w(2,3), of dstvol "dir_mode m"] op(2) by (auto simp: settled_from_def)
  have s3: "untroubled (world s3)" "placed s3 dstvol dst" "node_at (tree s3) (comps dst) = None"
    using mk assms(1,3,5) by (simp_all add: placed_def)
  have "length dst < PATH_MAX" using assms(3) by (simp add: placed_def)
  then have "run_state (copyfiledata ?fd dstvol dst) s3 = (r, s')"
    using assms(6) op(1) mk(1)
    by (simp add: scopyitem_def PATH_MAX_def scopyitem_fuel.simps(2) [of 1023, simplified] run_need run_check
        simple_call_works [OF w(1)] build_path_def)
  from copyfiledata_short [OF s3 this] show ?thesis by auto
qed

end
