(* ===== verification/BootProps.thy ===== *)
theory BootProps
  imports BootCrash SafeEval SafeShort
begin

text \<open>
  src/update_boot.c: what the update of a helper promises, on an example with two files, and where it does not
  keep its promise.
\<close>

section \<open>An example\<close>

text \<open>A source volume at \<open>/r\<close> with a kernel and a booter, and a helper at \<open>/v\<close> with an older kernel in the first
  directory. Transfers are as long as \<open>shorts\<close> says, by the number of the call.\<close>

definition sample_caches :: boot_caches where
  "sample_caches = \<lparr>root = ''/r'', cachefd = 1, rpspaths = [''/k''], miscpaths = [], efibooter = ''/c/b'', ofbooter = [],
     readonly_kext_boot_cache_file = None, kext_boot_cache_file = Some 0, bootconfig = None, efidefrsrcs = None,
     efiloccache = None, erpropcache = None, fileset_bootkc = None, label = ''/l'', erpropTSOnly = False,
     prefer_fileset = False, extraKernelCachePaths = []\<rparr>"

definition sample :: target where
  "sample = \<lparr>caches = sample_caches, flatTarget = [], curMount = ''/v'', curbootfd = 2, blessSpec = kBRBlessFSDefault,
     opts = 0, doSanitize = False, cleanOnceDir = False, customSource = False, customDest = False, useOnceDir = False,
     skipFDECopy = False, onAPM = False, kBootDirR = ''R'', kBootDirP = ''P'', kBootDirS = ''S'',
     kRecoveryBootDir = ''Y'', isAPFS = True, largeVolume = False, csfdeprops = None, dataPartition = 0, wipeKey = 0,
     kcsuffix = [], pref_data = \<lambda>_ _. None\<rparr>"

definition old_kernel :: node where
  "old_kernel = Dir 6 0x1ED [(''k'', File 7 0x1A4 [9])]"

definition new_kernel :: "bytes \<Rightarrow> node" where
  "new_kernel b = Dir 20 0x1ED [(''k'', File 21 0x1A4 b)]"

definition sample_disk :: "(string \<times> node) list \<Rightarrow> node" where
  "sample_disk extra = Dir 1 0x1ED
     [(''r'', Dir 2 0x1ED [(''k'', File 3 0x1A4 [1, 2, 3]), (''c'', Dir 12 0x1ED [(''b'', File 4 0x1A4 [4])])]),
      (''v'', Dir 5 0x1ED ([(''R'', old_kernel), (''c'', Dir 9 0x1ED [(''b'', File 8 0x1A4 [8])])] @ extra))]"

definition start :: "world \<Rightarrow> (string \<times> node) list \<Rightarrow> update" where
  "start w extra = \<lparr>world = w, disk = (sample_disk extra, 5, 8), history = [], errno = 0, calls = 0, next_ino = 20,
     changestate = nothingSerious, doRPS = True, doMisc = False, doBooters = False, dstdir = [], efidst = [],
     ofdst = []\<rparr>"

lemmas sample_defs = sample_def sample_caches_def sample_disk_def old_kernel_def new_kernel_def start_def calm_def

section \<open>Evaluation\<close>

lemmas step_defs = update_helper_def update_contents_def set_changestate_def checkBootContents_def notBRDefault_def
  missing_booter_def makebootpath_def ucopyRPS_def FindRPSDir_def eraseRPSIfRecoveryBlessed_def blessRecovery_def
  fill_dstdir_def eraseRPS_def result_or_errno_def copy_item_def write_legacy_def ucopyMisc_def moveLabels_def
  copy_kernels.simps copy_items.simps copy_misc.simps missing_misc.simps nukeBRLabels_def nuke_label_def RECERR_def
  ucopyBooters_def ucopy_booter_def activateBooters_def activate_of_def activate_efi_def folder_inode_def
  bless_as_asked_def sBLSetBootInfo_def activateRPS_def activateMisc_def markNotBRDefault_def revertState_def
  restore_booter_def reactivate_old_def restore_label_def nukeFallbacks_def nuke_old_booter_def finish_if_def
  rename_misc.simps

lemmas run_steps = step_defs [THEN arg_cong [where f = run_state]]

lemmas data_eval = call_data MAXBSIZE_def taint_file_def boot_parts_def flat_def rps_dir_def
  has_suffix_def rps_path_def rps_parts_def fde_item_def skip_kernel_def label_parts_def kBRBlessFSDefault_def
  kBRBlessFull_def kBRBlessOnce_def kBRBlessRecovery_def kBRUExpectUpToDate_def kCacheDirMode_def kCacheFileMode_def
  low32_def S_IWUSR_def

declare copy_kernels.simps [simp del] copy_items.simps [simp del] copy_misc.simps [simp del]
  missing_misc.simps [simp del] rename_misc.simps [simp del]

lemmas run_gets_of = run_gets [of efidst] run_gets [of ofdst] run_gets [of dstdir]
  run_gets [of doRPS] run_gets [of doMisc] run_gets [of doBooters] run_gets [of changestate]

lemmas run_sample = run_calls run_steps data_eval sample_defs run_gets_of

lemma sample_hyps:
  "well_placed sample" "names_ok sample" "contents_ok sample"
  "ready sample (start (calm\<lparr>short := f\<rparr>) [])" "no_recovery sample (disk (start w []))"
  "shown sample (disk (start w [])) = Some old_kernel"
proof -
  show "well_placed sample" "names_ok sample" "contents_ok sample" by code_simp+
  show "ready sample (start (calm\<lparr>short := f\<rparr>) [])"
    by (simp add: ready_def stats_ok_def errnos_ok_def dir_at_def sample_defs comps_def)
  show "no_recovery sample (disk (start w []))"
    by (simp add: no_recovery_def sample_defs comps_def)
  show "shown sample (disk (start w [])) = Some old_kernel"
    by (simp add: shown_def picked_def have_rps_def rps_at_def sample_defs comps_def)
qed

lemma calm_short [simp]: "calm\<lparr>short := Map.empty\<rparr> = calm"
  by (simp add: calm_def)

lemma sample_runs:
  "fst (run_state (ucopyRPS sample) (start calm [])) = 0"
  "fst (run_state (update_contents sample) (start calm [])) = 0"
  by (simp_all add: run_sample)

lemmas shown_sample = shown_def picked_def have_rps_def rps_at_def comps_def sample_def new_kernel_def old_kernel_def

section \<open>Properties\<close>

text \<open>C1. Whenever the update of a helper is cut short, the booter finds one of two directories: the one it found
  before the update, or the one new directory. That holds on every disk the update goes through and on the last
  one, whatever calls fail and whatever result is returned; \<open>stat\<close> works, failing calls set \<open>errno\<close>, and there is
  no recovery directory.\<close>

theorem update_helper_crash_safe:
  assumes "well_placed up" "names_ok up" "contents_ok up" "ready up s"
    and "no_recovery up (disk s)" "shown up (disk s) = Some n"
    and "run_state (update_helper up) s = (r, s')"
  shows "\<exists>n' new. history s' = new @ history s \<and>
    (\<forall>d \<in> set (disk s' # new). shown up d = Some n \<or> shown up d = Some n')"
proof -
  obtain m where m: "visits s s' (either up n m)" "resting up n m s'"
    using update_helper_run [OF assms(1-3,6,5,4,7)] .
  then obtain new where new: "history s' = new @ history s" "\<forall>d \<in> set new. one_of n m (shown up d)"
    by (auto simp: visits_def)
  have "one_of n m (shown up (disk s'))" using m(2) by (auto simp: resting_def holding_def)
  with new have "\<forall>d \<in> set (disk s' # new). one_of n m (shown up d)" by simp
  moreover have "one_of n m v \<Longrightarrow> v = Some n \<or> v = Some (case m of None \<Rightarrow> n | Some n' \<Rightarrow> n')" for v
    by (auto simp: one_of_def)
  ultimately show ?thesis using new(1) by blast
qed

theorem update_helper_crash_safe_witness:
  "\<exists>n' new. history (snd (run_state (update_helper sample) (start (calm\<lparr>short := Map.empty\<rparr>) []))) =
      new @ history (start (calm\<lparr>short := Map.empty\<rparr>) []) \<and>
    (\<forall>d \<in> set (disk (snd (run_state (update_helper sample) (start (calm\<lparr>short := Map.empty\<rparr>) []))) # new).
      shown sample d = Some old_kernel \<or> shown sample d = Some n')"
  by (rule update_helper_crash_safe [OF sample_hyps prod.collapse [symmetric]])


text \<open>C6. The contents are committed as a whole: when the directory cannot be filled the update ends there and the booter
  keeps what it had; when it was filled, a successful update ends with the booter finding exactly what was put
  there, and on the way it finds that or what it had.\<close>

theorem update_contents_commits:
  assumes "well_placed up" "names_ok up" "contents_ok up" "ready up s"
    and "no_recovery up (disk s)" "shown up (disk s) = Some n" "doRPS s"
    and copy: "run_state (ucopyRPS up) s = (c, t)" and run: "run_state (update_contents up) s = (r, s')"
  shows "if c \<noteq> 0 then r = c \<and> s' = t \<and> shown up (disk s') = Some n
    else node_at (tree t) (comps (dstdir t)) = shown up (disk s') \<and> shown up (disk s') \<noteq> None \<or>
         r \<noteq> 0 \<and> (shown up (disk s') = Some n \<or> shown up (disk s') = node_at (tree t) (comps (dstdir t)))"
proof -
  have hold: "holding up n (dstdir s, True) s" using assms(5-7) by (simp add: holding_def)
  show ?thesis
  proof (cases rule: update_contents_run [OF assms(1-3) hold assms(4) run, case_names kept staged])
    case kept
    then have "run_state (ucopyRPS up) s = (r, s')" "r \<noteq> 0" "shown up (disk s') = Some n"
      by (auto simp: holding_def)
    with copy show ?thesis by simp
  next
    case (staged t' x)
    let ?m = "node_at (tree t) (rps_at up (rps_prev x))"
    have t: "c = 0" "t' = t" using copy staged(2) by simp_all
    have dst: "comps (dstdir t) = rps_at up (rps_prev x)"
      using staged(3) t comps_rps_dir [OF assms(2)] by (simp add: chosen_def settled_def holding_def)
    show ?thesis
    proof (cases "r = 0")
      case True
      then obtain n' k where "?m = Some n'" "settled up n' k s'" using staged(8) t by (auto simp: switched_def)
      then show ?thesis using t dst by (simp add: settled_def holding_def)
    next
      case False
      obtain n' k where "holding up n' k s'" "one_of n ?m (Some n')" using staged(7) t unfolding resting_def by blast
      then show ?thesis using t dst False by (auto simp: holding_def one_of_def)
    qed
  qed
qed

theorem update_contents_commits_witness:
  "node_at (tree (snd (run_state (ucopyRPS sample) (start calm []))))
     (comps (dstdir (snd (run_state (ucopyRPS sample) (start calm []))))) =
   shown sample (disk (snd (run_state (update_contents sample) (start calm [])))) \<and>
   shown sample (disk (snd (run_state (update_contents sample) (start calm [])))) \<noteq> None"
proof -
  have runs: "run_state (ucopyRPS sample) (start calm []) = (0, snd (run_state (ucopyRPS sample) (start calm [])))"
    "run_state (update_contents sample) (start calm []) = (0, snd (run_state (update_contents sample) (start calm [])))"
    using sample_runs by (simp_all add: prod_eq_iff)
  have "doRPS (start calm [])" by (simp add: start_def)
  then show ?thesis
    using update_contents_commits [OF sample_hyps(1-3) sample_hyps(4) [of Map.empty, unfolded calm_short]
        sample_hyps(5,6) _ runs] by simp
qed

text \<open>C39. A short transfer is never reported. When no call fails, a copy of a file into a directory that is there, under
  a name that is not there, leaves \<open>errno\<close> at 0; so what the update makes of the result of \<open>scopyitem\<close> is 0,
  although the copy holds all the bytes only if that result was 0, and fewer of them otherwise.\<close>

theorem short_copy_reported_as_success:
  fixes s :: update
  assumes "untroubled (world s)" "placed s srcvol src" "placed s dstvol dst"
    and "node_at (tree s) (comps src) = Some (File i m b)" "node_at (tree s) (comps dst) = None"
    and "run_state (scopyitem srcvol src dstvol dst) s = (r, s')"
  shows "fst (run_state (result_or_errno r) s') = 0 \<and>
    (\<exists>j k c. node_at (tree s') (comps dst) = Some (File j k c) \<and>
      (if r = 0 then c = b else length c < length b))"
  using scopyitem_short [OF assms] by (auto simp: result_or_errno_def run_gets)

text \<open>A full volume: nothing can be written.\<close>

theorem short_copy_reported_as_success_witness:
  "let (r, s') = run_state (scopyitem 1 ''/r/k'' 2 ''/v/R/n'') (start (calm\<lparr>short := \<lambda>_. Some 0\<rparr>) []) in
   fst (run_state (result_or_errno r) s') = 0 \<and>
   (\<exists>j k c. node_at (tree s') [''v'', ''R'', ''n''] = Some (File j k c) \<and> length c < 3)"
proof -
  let ?s = "start (calm\<lparr>short := \<lambda>_. Some 0\<rparr>) []"
  let ?run = "run_state (scopyitem 1 ''/r/k'' 2 ''/v/R/n'') ?s"
  have "fst ?run = - 1" by (simp add: run_sample)
  then have run: "?run = (- 1, snd ?run)" by (simp add: prod_eq_iff)
  note data = placed_def allowed_def names_parent_def comps_def basename_def dirname_def strip_right_def PATH_MAX_def
    Let_def sample_defs
  have hyps: "untroubled (world ?s)" "placed ?s 1 ''/r/k''" "placed ?s 2 ''/v/R/n''"
    "node_at (tree ?s) (comps ''/r/k'') = Some (File 3 0x1A4 [1, 2, 3])" "node_at (tree ?s) (comps ''/v/R/n'') = None"
    by (simp_all add: untroubled_def data)
  obtain s' where s': "?run = (- 1, s')" using run by blast
  from short_copy_reported_as_success [OF hyps s'] have "fst (run_state (result_or_errno (- 1)) s') = 0 \<and>
      (\<exists>j k c. node_at (tree s') [''v'', ''R'', ''n''] = Some (File j k c) \<and> length c < 3)"
    by (simp add: comps_def numeral_3_eq_3)
  then show ?thesis by (simp only: Let_def s' case_prod_conv)
qed

text \<open>A whole update with one short write: \<open>scopyitem\<close> fails without an error number, the failure becomes the result 0, and
  the update activates the directory with a kernel that is cut off, and reports success.\<close>

lemma cut_off_kernel_activated:
  "let (r, s) = run_state (update_helper sample) (start (calm\<lparr>short := [41 \<mapsto> 1]\<rparr>) [])
   in r = 0 \<and> node_at (tree s) [''r'', ''k''] = Some (File 3 0x1A4 [1, 2, 3]) \<and>
      shown sample (disk s) = Some (new_kernel [1])"
  by (simp add: run_sample) (simp add: shown_sample)

text \<open>The result of \<open>sBLSetBootInfo\<close> does not matter to \<open>blessRecovery\<close>.\<close>

lemma sBLSetBootInfo_refused:
  assumes "run_state (sBLSetBootInfo up info) s = (r, s')" "\<forall>n. fails (world s) BlessCall n \<noteq> None"
  shows "world s' = world s \<and> disk s' = disk s"
proof -
  have refused: "fst (run_state (simple_call BlessCall) t) \<noteq> 0" if "world t = world s" for t :: update
    using assms(2) that by (auto simp: simple_call_def attempt_def split: option.split)
  obtain x t where t: "run_state (build_path [curMount up, ''/.'']) s = (x, t)" by fastforce
  have "world s' = world s \<and> disk s' = disk s" if x: "x = Some cpath" for cpath
  proof -
    obtain d u where u: "run_state (schdirparent (curbootfd up) cpath) t = (d, u)" by fastforce
    obtain b v where v: "run_state (simple_call BlessCall) u = (b, v)" by fastforce
    note same = build_path_same [OF t] schdirparent_same [OF u] simple_call_same [OF v]
    moreover have "b \<noteq> 0" using refused [of u] v same by simp
    ultimately show ?thesis using assms(1) t u v
      by (cases d) (simp_all add: sBLSetBootInfo_def run_need run_check x)
  qed
  with t assms(1) build_path_same [OF t] show ?thesis
    by (cases x) (auto simp: sBLSetBootInfo_def run_need)
qed

lemma stat_call_works:
  "fails (world s) StatCall (calls s) = None \<Longrightarrow> node_at (tree s) (comps path) = Some n \<Longrightarrow>
    run_state (stat_call path) s = (Some n, s\<lparr>calls := Suc (calls s)\<rparr>)"
  by (simp add: stat_call_def attempt_def look_def run_gets)

abbreviation recovery_path :: "target \<Rightarrow> string" where
  "recovery_path up \<equiv> curMount up @ ''/'' @ kRecoveryBootDir up"

text \<open>C40. When nothing fails but every attempt to bless, \<open>blessRecovery\<close> reports success for a recovery booter that is
  there, nothing is blessed, and \<open>eraseRPSIfRecoveryBlessed\<close> goes on to erase the directory of the booter that
  is blessed still.\<close>

theorem unblessed_recovery_erases:
  assumes "\<forall>a n. a \<noteq> BlessCall \<longrightarrow> fails (world s) a n = None" "\<forall>n. fails (world s) BlessCall n \<noteq> None"
    and "node_at (tree s) (comps (recovery_path up)) = Some d"
    and "node_at (tree s) (comps (recovery_path up @ ''/'' @ basename (efibooter (caches up)))) = Some b"
    and "length (recovery_path up @ ''/'' @ basename (efibooter (caches up))) < PATH_MAX"
  shows "\<exists>t. run_state (blessRecovery up) s = (0, t) \<and> disk t = disk s \<and>
    run_state (eraseRPSIfRecoveryBlessed up rpsDir) s = ((), (snd (run_state (eraseRPS up rpsDir) t))\<lparr>doBooters := True\<rparr>)"
proof -
  let ?p = "recovery_path up" and ?s2 = "s\<lparr>calls := Suc (Suc (calls s))\<rparr>"
  obtain r u where u: "run_state (sBLSetBootInfo up (low32 (inode d), low32 (inode b))) ?s2 = (r, u)" by fastforce
  have same: "world u = world s" "disk u = disk s" using sBLSetBootInfo_refused [OF u] assms(2) by simp_all
  let ?t = "u\<lparr>calls := Suc (calls u)\<rparr>"
  have sync: "run_state (simple_call SyncCall) u = (0, ?t)"
    using assms(1) same by (simp add: simple_call_def attempt_def)
  have "run_state (blessRecovery up) s = (0, ?t)"
    using assms(1,3-5) u sync
    by (simp add: blessRecovery_def run_need run_check build_path_def stat_call_works)
  then show ?thesis using same
    by (auto simp: eraseRPSIfRecoveryBlessed_def run_check split: prod.split)
qed

theorem unblessed_recovery_erases_witness:
  "\<exists>t. run_state (blessRecovery sample)
      (start (calm\<lparr>fails := (\<lambda>c n. if c = BlessCall then Some EPERM else None)\<rparr>)
        [(''Y'', Dir 30 0x1ED [(''b'', File 31 0x1A4 [5])])]) = (0, t) \<and> snd (disk t) = (5, 8)"
proof -
  let ?s = "start (calm\<lparr>fails := (\<lambda>c n. if c = BlessCall then Some EPERM else None)\<rparr>)
        [(''Y'', Dir 30 0x1ED [(''b'', File 31 0x1A4 [5])])]"
  have "\<exists>t. run_state (blessRecovery sample) ?s = (0, t) \<and> disk t = disk ?s \<and>
    run_state (eraseRPSIfRecoveryBlessed sample ''/v/R'') ?s =
      ((), (snd (run_state (eraseRPS sample ''/v/R'') t))\<lparr>doBooters := True\<rparr>)"
    by (rule unblessed_recovery_erases)
      (simp_all add: sample_defs comps_def basename_def strip_right_def PATH_MAX_def)
  then show ?thesis by (auto simp: start_def)
qed

text \<open>When the recovery booter cannot be blessed, the current directory is erased all the same: the booter is still
  the old one and at some moment there is no directory at all for it.\<close>

lemma unblessed_recovery_erases_current:
  "let (r, s) = run_state (ucopyRPS sample)
     (start (calm\<lparr>fails := (\<lambda>c n. if c = BlessCall then Some EPERM else None)\<rparr>)
       [(''Y'', Dir 30 0x1ED [(''b'', File 31 0x1A4 [5])])])
   in \<exists>d \<in> set (history s). shown sample d = None \<and> snd d = (5, 8)"
  by (simp add: run_sample) (simp add: shown_sample)

text \<open>All helpers were updated, in this order.\<close>

fun all_updated :: "(int \<times> target) list \<Rightarrow> update \<Rightarrow> bool" where
  "all_updated [] s = True"
| "all_updated ((errnum, up) # ups) s \<longleftrightarrow>
     errnum = 0 \<and> (case run_state (update_helper up) s of (r, t) \<Rightarrow> r = 0 \<and> all_updated ups t)"

lemma update_all_count:
  "run_state (update_all ups result n) s = ((r, k), s') \<Longrightarrow>
    k \<le> n + length ups \<and> (k = n + length ups \<longrightarrow> all_updated ups s)"
proof (induction ups arbitrary: result n s)
  case (Cons e ups)
  obtain errnum up where e: "e = (errnum, up)" by (cases e)
  show ?case
  proof (cases "errnum = 0")
    case False
    obtain t where "run_state (update_all ups errnum n) t = ((r, k), s')"
      using Cons.prems False by (auto simp: e split: prod.splits)
    then show ?thesis using Cons.IH by fastforce
  next
    case True
    obtain x t where x: "run_state (update_helper up) s = (x, t)" by fastforce
    then have "run_state (update_all ups x (if x = 0 then Suc n else n)) t = ((r, k), s')"
      using Cons.prems True by (simp add: e)
    then show ?thesis using Cons.IH x True by (cases "x = 0") (fastforce simp: e)+
  qed
qed simp

text \<open>C22. When helpers are not optional, success means that each of them was mounted and updated with success; the
  error of one is not hidden by the success of the next.\<close>

theorem updateBootHelpers_complete:
  assumes "run_state (updateBootHelpers False ups) s = (0, s')"
  shows "all_updated ups (snd (run_state (simple_call FstatCall) s))"
proof -
  obtain a t where a: "run_state (simple_call FstatCall) s = (a, t)" by fastforce
  obtain r k u where "run_state (update_all ups 0 0) t = ((r, k), u)" by (metis prod.exhaust)
  with assms a update_all_count [OF this] show ?thesis
    by (auto simp: updateBootHelpers_def run_check ELAST_def split: if_splits)
qed

theorem updateBootHelpers_complete_witness:
  "all_updated [(0, sample)] (snd (run_state (simple_call FstatCall) (start calm [])))"
proof (rule updateBootHelpers_complete)
  let ?run = "run_state (updateBootHelpers False [(0, sample)]) (start calm [])"
  have "fst ?run = 0" by (simp add: updateBootHelpers_def run_sample)
  then show "?run = (0, snd ?run)" by (simp add: prod_eq_iff)
qed

end
