(* ===== verification/BootCaches.thy ===== *)
theory BootCaches
  imports Prelude Errno
begin

text \<open>
  src/bootcaches.c: what bootcaches.plist says about a volume, and the stamps that go with its paths.
  The property list has been parsed by Core Foundation; \<open>extractProps\<close> fills \<open>struct bootCaches\<close> from
  it. The arrays of the struct have the length they were allocated with. A pointer into \<open>rpspaths\<close>
  is an index, and a write outside of that array is the outcome \<open>Overrun\<close> instead of a state. What
  Core Foundation makes of a string in a buffer of a given size, the directory of the kernels, and the
  contents of fresh memory are parameters in \<open>cf\<close>.
\<close>

section \<open>Data\<close>

datatype plist =
  PString string | PBool bool | PNumber int | PData bytes | PArray "plist list" | PDict "(string \<times> plist) list"

type_synonym dict = "(string \<times> plist) list"
type_synonym timeval = "int \<times> int"

record cachedPath =
  rpath :: string
  tspath :: string
  tstamps :: "timeval \<times> timeval"

definition zeroed :: cachedPath where
  "zeroed = \<lparr>rpath = [], tspath = [], tstamps = ((0, 0), (0, 0))\<rparr>"

text \<open>A cached path in the array \<open>rpspaths\<close>, or in a block of its own.\<close>

datatype path_ref = Rps nat | Own cachedPath

record boot_struct =
  fsys_uuid :: string
  root :: string
  cachefd :: nat
  cacheinfo :: "dict option"
  kernelpath :: string
  nWatchedExts :: nat
  watchedExts :: "string list"
  nUnwatchedExts :: nat
  unwatchedExts :: "string list"
  locSource :: string
  locPref :: string
  bgImage :: string
  nrps :: nat
  rpspaths :: "cachedPath list"
  nmisc :: nat
  miscpaths :: "cachedPath list"
  efibooter :: cachedPath
  ofbooter :: cachedPath
  readonly_kext_boot_cache_file :: "nat option"
  kext_boot_cache_file :: "path_ref option"
  bootconfig :: "nat option"
  efidefrsrcs :: "nat option"
  efiloccache :: "nat option"
  label :: "nat option"
  erpropcache :: "nat option"
  erpropTSOnly :: bool
  fileset_bootkc :: "nat option"
  fileset_systemkc :: "cachedPath option"
  fileset_basesystemkc :: "cachedPath option"
  prefer_fileset :: bool
  kernelsCount :: nat
  extraKernelCachePaths :: "cachedPath list"

text \<open>What is not in the sources: the file system representation of a string in a buffer of a size (whether
  it fits, and what the buffer holds afterwards), the last component of the parent of a
  kernel's path with the names in that directory, and what a fresh block holds.\<close>

record cf =
  fsrep :: "nat \<Rightarrow> string \<Rightarrow> bool \<times> string"
  kernel_dir :: "string \<Rightarrow> (string \<times> string list) option"
  fresh_block :: cachedPath

definition BCPATH_MAX :: nat where "BCPATH_MAX = 128"
definition NAME_MAX :: nat where "NAME_MAX = 255"
definition NCHARSUUID :: nat where "NCHARSUUID = 2 * 16 + 5"
definition TSPATH_MAX :: nat where "TSPATH_MAX = BCPATH_MAX + 1 + NCHARSUUID + 1 + BCPATH_MAX"
definition sizeof_cachedPath :: int where "sizeof_cachedPath = 456"
definition INT_MAX :: int where "INT_MAX = 2147483647"

abbreviation kTSCacheDir :: string where "kTSCacheDir \<equiv> ''/System/Library/Caches/com.apple.bootstamps''"

section \<open>Cached paths\<close>

text \<open>\<open>/foo/bar\<close> becomes \<open>:foo:bar\<close>.\<close>

definition gsub :: "char \<Rightarrow> char \<Rightarrow> string \<Rightarrow> string" where
  "gsub old new s = map (\<lambda>c. if c = old then new else c) s"

definition stamp_name :: "string \<Rightarrow> string \<Rightarrow> string" where
  "stamp_name uuid path = kTSCacheDir @ ''/'' @ uuid @ ''/'' @ gsub (CHR ''/'') (CHR '':'') path"

definition MAKE_CACHEDPATH ::
  "'z cf_scheme \<Rightarrow> string \<Rightarrow> plist option \<Rightarrow> cachedPath \<Rightarrow> int \<times> cachedPath" where
  "MAKE_CACHEDPATH cf uuid relstr cpath =
     (case relstr of
        Some (PString s) \<Rightarrow>
          (let (ok, buf) = fsrep cf BCPATH_MAX s; cpath = cpath\<lparr>rpath := buf\<rparr> in
           if \<not> ok then (EOVERFLOW, cpath)
           else if length buf \<ge> NAME_MAX then (EOVERFLOW, cpath)
           else let full = stamp_name uuid buf; cpath = cpath\<lparr>tspath := take (TSPATH_MAX - 1) full\<rparr> in
             if length full \<ge> TSPATH_MAX then (EOVERFLOW, cpath) else (0, cpath))
      | _ \<Rightarrow> (EINVAL, cpath))"

text \<open>The paths of an array in one block. The count is that of the array, also when the loop was left early.\<close>

fun pack_paths :: "'z cf_scheme \<Rightarrow> plist list \<Rightarrow> string list" where
  "pack_paths cf (PString s # ps) =
     (case fsrep cf PATH_MAX s of (ok, buf) \<Rightarrow> if ok then buf # pack_paths cf ps else [])"
| "pack_paths cf _ = []"

definition createPackedPathsFromCFArray :: "'z cf_scheme \<Rightarrow> plist list \<Rightarrow> string list \<times> nat" where
  "createPackedPathsFromCFArray cf ps = (pack_paths cf ps, length ps)"

section \<open>Kernels with a suffix\<close>

definition has_suffix :: "string \<Rightarrow> string \<Rightarrow> bool" where
  "has_suffix suf s \<longleftrightarrow> length suf \<le> length s \<and> drop (length s - length suf) s = suf"

definition extra_kernel :: "string \<Rightarrow> bool" where
  "extra_kernel name \<longleftrightarrow> take 7 name = ''kernel.'' \<and> \<not> has_suffix ''dSYM'' name \<and>
     length (filter (\<lambda>c. c = CHR ''.'') name) \<le> 1"

text \<open>A kernel that counts has a prelinked kernel whose path must fit into the buffer.\<close>

definition extra_path :: "'z cf_scheme \<Rightarrow> string \<Rightarrow> string \<Rightarrow> string \<Rightarrow> cachedPath option" where
  "extra_path cf uuid base name =
     (let suffix = drop 7 name; path = base @ ''.'' @ suffix in
      if suffix = [] \<or> length path \<ge> PATH_MAX then None
      else Some (snd (MAKE_CACHEDPATH cf uuid (Some (PString path)) zeroed)))"

definition base_path :: "bool \<Rightarrow> 'z boot_struct_scheme \<Rightarrow> string" where
  "base_path readOnly c =
     (case (if prefer_fileset c then fileset_bootkc c else None) of
        Some i \<Rightarrow> rpath (rpspaths c ! i)
      | None \<Rightarrow> (case (if readOnly then readonly_kext_boot_cache_file c else None) of
          Some i \<Rightarrow> rpath (rpspaths c ! i)
        | None \<Rightarrow> (case kext_boot_cache_file c of
            Some (Rps i) \<Rightarrow> rpath (rpspaths c ! i)
          | Some (Own p) \<Rightarrow> rpath p
          | None \<Rightarrow> [])))"

definition getExtraKernelCachePaths ::
  "'z cf_scheme \<Rightarrow> bool \<Rightarrow> 'z2 boot_struct_scheme \<Rightarrow> int \<times> 'z2 boot_struct_scheme \<times> cachedPath list" where
  "getExtraKernelCachePaths cf readOnly c =
     (let fail = (- 1, c\<lparr>kernelsCount := 0, extraKernelCachePaths := []\<rparr>, []) in
      if length (root c @ kernelpath c) \<ge> PATH_MAX then fail
      else case kernel_dir cf (root c @ kernelpath c) of
        None \<Rightarrow> fail
      | Some (parent, names) \<Rightarrow>
          if parent \<noteq> ''Kernels'' then fail
          else let kernels = filter (\<lambda>n. n = ''kernel'' \<or> extra_kernel n) names in
            (0, c\<lparr>kernelsCount := length kernels\<rparr>,
             List.map_filter (extra_path cf (fsys_uuid c) (base_path readOnly c))
               (filter extra_kernel names)))"

section \<open>Reading the property list\<close>

text \<open>A statement goes on, jumps to \<open>finish\<close> (with the error that was set at the start), or writes outside
  of an array.\<close>

datatype 'a flow = Go 'a | Finish 'a | Overrun

fun and_then :: "'a flow \<Rightarrow> ('a \<Rightarrow> 'a flow) \<Rightarrow> 'a flow" where
  "and_then (Go x) f = f x"
| "and_then (Finish x) f = Finish x"
| "and_then Overrun f = Overrun"

record extraction = boot_struct +
  keyCount :: int
  rpsindex :: nat

abbreviation lookup :: "dict \<Rightarrow> string \<Rightarrow> plist option" where "lookup d k \<equiv> map_of d k"

definition handled :: "extraction \<Rightarrow> extraction" where
  "handled e = e\<lparr>keyCount := keyCount e - 1\<rparr>"

definition more_keys :: "dict \<Rightarrow> extraction \<Rightarrow> extraction" where
  "more_keys d e = e\<lparr>keyCount := keyCount e + int (length d)\<rparr>"

fun is_string :: "plist option \<Rightarrow> bool" where
  "is_string (Some (PString s)) = True"
| "is_string _ = False"

text \<open>\<open>MAKE_CACHEDPATH (&caches->rpspaths[rpsindex], caches, str)\<close>, whose result is dropped. It writes when it
  is given a string.\<close>

definition make_rps :: "'z cf_scheme \<Rightarrow> plist option \<Rightarrow> extraction \<Rightarrow> extraction flow" where
  "make_rps cf str e =
     (if \<not> is_string str then Go e
      else if rpsindex e < length (rpspaths e)
      then Go (e\<lparr>rpspaths := (rpspaths e)
             [rpsindex e := snd (MAKE_CACHEDPATH cf (fsys_uuid e) str (rpspaths e ! rpsindex e))]\<rparr>)
      else Overrun)"

fun make_rps_all :: "'z cf_scheme \<Rightarrow> plist list \<Rightarrow> extraction \<Rightarrow> extraction flow" where
  "make_rps_all cf [] e = Go e"
| "make_rps_all cf (p # ps) e =
     and_then (make_rps cf (Some p) e) (\<lambda>e. make_rps_all cf ps (e\<lparr>rpsindex := Suc (rpsindex e)\<rparr>))"

definition make_misc :: "'z cf_scheme \<Rightarrow> plist option \<Rightarrow> nat \<Rightarrow> extraction \<Rightarrow> extraction flow" where
  "make_misc cf str i e =
     (if \<not> is_string str then Go e
      else if i < length (miscpaths e)
      then Go (e\<lparr>miscpaths := (miscpaths e)
             [i := snd (MAKE_CACHEDPATH cf (fsys_uuid e) str (miscpaths e ! i))]\<rparr>)
      else Overrun)"

fun make_misc_all :: "'z cf_scheme \<Rightarrow> plist list \<Rightarrow> nat \<Rightarrow> extraction \<Rightarrow> extraction flow" where
  "make_misc_all cf [] i e = Go e"
| "make_misc_all cf (p # ps) i e = and_then (make_misc cf (Some p) i e) (make_misc_all cf ps (Suc i))"

text \<open>Entering a path at \<open>rpsindex\<close>, and keeping a pointer to it.\<close>

definition keep_rps ::
  "'z cf_scheme \<Rightarrow> plist option \<Rightarrow> (nat option \<Rightarrow> extraction \<Rightarrow> extraction) \<Rightarrow> extraction \<Rightarrow> extraction flow" where
  "keep_rps cf str pointer e =
     and_then (make_rps cf str e) (\<lambda>e. Go (pointer (Some (rpsindex e)) (e\<lparr>rpsindex := Suc (rpsindex e)\<rparr>)))"

text \<open>The same for a key that may be missing, which counts as handled when it is there.\<close>

definition optional_rps ::
  "'z cf_scheme \<Rightarrow> plist option \<Rightarrow> (nat option \<Rightarrow> extraction \<Rightarrow> extraction) \<Rightarrow> extraction \<Rightarrow> extraction flow" where
  "optional_rps cf str pointer e =
     (if str = None then Go e else and_then (keep_rps cf str pointer e) (\<lambda>e. Go (handled e)))"

text \<open>A count of paths that cannot be allocated.\<close>

definition too_many :: "nat \<Rightarrow> bool" where
  "too_many n \<longleftrightarrow> int n > INT_MAX div sizeof_cachedPath"

subsection \<open>Before the booter\<close>

definition preboot_label :: "'z cf_scheme \<Rightarrow> dict \<Rightarrow> nat \<Rightarrow> extraction \<Rightarrow> extraction flow" where
  "preboot_label cf d i e =
     (case lookup d ''DiskLabel'' of
        None \<Rightarrow> Go (handled e)
      | str \<Rightarrow> and_then (make_misc cf str i e) (\<lambda>e. Go (handled (handled (e\<lparr>label := Some i\<rparr>)))))"

definition alloc_misc :: "nat \<Rightarrow> extraction \<Rightarrow> extraction flow" where
  "alloc_misc n e =
     (let e = e\<lparr>nmisc := n\<rparr> in
      if too_many n then Finish e else Go (e\<lparr>miscpaths := replicate n zeroed\<rparr>))"

definition preboot :: "'z cf_scheme \<Rightarrow> plist option \<Rightarrow> extraction \<Rightarrow> extraction flow" where
  "preboot cf pl e =
     (case pl of
        None \<Rightarrow> Go e
      | Some (PDict d) \<Rightarrow>
          (let e = more_keys d e in
           case lookup d ''AdditionalPaths'' of
             None \<Rightarrow> and_then (alloc_misc (length d) e) (preboot_label cf d 0)
           | Some (PArray ps) \<Rightarrow>
               and_then (alloc_misc (length d + length ps - 1) e) (\<lambda>e.
               and_then (make_misc_all cf ps 0 e) (\<lambda>e. preboot_label cf d (length ps) (handled e)))
           | Some _ \<Rightarrow> Finish (e\<lparr>nmisc := length d\<rparr>))
      | Some _ \<Rightarrow> Finish e)"

subsection \<open>Booters\<close>

definition booters :: "'z cf_scheme \<Rightarrow> plist option \<Rightarrow> extraction \<Rightarrow> extraction flow" where
  "booters cf pl e =
     (case pl of
        None \<Rightarrow> Go e
      | Some (PDict d) \<Rightarrow>
          (let e = more_keys d e;
               e = (case lookup d ''EFIBooter'' of
                      None \<Rightarrow> e
                    | str \<Rightarrow> handled (e\<lparr>efibooter := snd (MAKE_CACHEDPATH cf (fsys_uuid e) str (efibooter e))\<rparr>));
               e = (case lookup d ''OFBooter'' of
                      None \<Rightarrow> e
                    | str \<Rightarrow> handled (e\<lparr>ofbooter := snd (MAKE_CACHEDPATH cf (fsys_uuid e) str (ofbooter e))\<rparr>))
           in Go (handled e))
      | Some _ \<Rightarrow> Finish e)"

subsection \<open>After the booter\<close>

abbreviation kc_versions :: "string list" where
  "kc_versions \<equiv> [''Kernelcache v1.1'', ''Kernelcache v1.2'', ''Kernelcache v1.3'', ''Kernelcache v1.4'',
     ''Kernelcache v1.5'', ''Kernelcache v1.6'']"

definition kcacheKeys :: "dict \<Rightarrow> nat" where
  "kcacheKeys d = length (filter (\<lambda>k. lookup d k \<noteq> None) (''MKext'' # ''MKext2'' # kc_versions))"

text \<open>The value of the first of some keys that is there.\<close>

fun first_of :: "dict \<Rightarrow> string list \<Rightarrow> plist option" where
  "first_of d [] = None"
| "first_of d (k # ks) = (case lookup d k of None \<Rightarrow> first_of d ks | v \<Rightarrow> v)"

definition mkDict :: "dict \<Rightarrow> plist option" where
  "mkDict d = first_of d (kc_versions @ [''MKext2'', ''MKext''])"

definition isKernelcache :: "dict \<Rightarrow> bool" where
  "isKernelcache d \<longleftrightarrow> first_of d kc_versions \<noteq> None"

text \<open>A string into a buffer of the struct: whether it could be put there, and the buffer.\<close>

definition into_buffer :: "'z cf_scheme \<Rightarrow> plist option \<Rightarrow> string \<Rightarrow> bool \<times> string" where
  "into_buffer cf str old = (case str of Some (PString s) \<Rightarrow> fsrep cf BCPATH_MAX s | _ \<Rightarrow> (False, old))"

definition localization :: "'z cf_scheme \<Rightarrow> dict \<Rightarrow> extraction \<Rightarrow> extraction flow" where
  "localization cf d e =
     (let (ok, buf) = into_buffer cf (lookup d ''LocalizationSource'') (locSource e);
          e = e\<lparr>locSource := buf\<rparr> in
      if \<not> ok then Finish e
      else let e = handled e; (ok, buf) = into_buffer cf (lookup d ''LanguagesPref'') (locPref e);
               e = e\<lparr>locPref := buf\<rparr> in
        if \<not> ok then Finish e
        else let e = handled e; (ok, buf) = into_buffer cf (lookup d ''BackgroundImage'') (bgImage e);
                 e = e\<lparr>bgImage := buf\<rparr> in
          Go (if ok then handled e else e))"

definition root_volume_cache :: "dict \<Rightarrow> extraction \<Rightarrow> extraction flow" where
  "root_volume_cache d e =
     (case lookup d ''RootVolumePropertyCache'' of
        None \<Rightarrow> Go e
      | Some (PBool b) \<Rightarrow> Go (handled (e\<lparr>erpropTSOnly := \<not> b\<rparr>))
      | Some _ \<Rightarrow> Finish e)"

definition default_resources :: "dict \<Rightarrow> plist option" where
  "default_resources d = first_of d [''DefaultResourcesDir'', ''ResourcesDir'']"

definition localized_cache :: "'z cf_scheme \<Rightarrow> dict \<Rightarrow> extraction \<Rightarrow> extraction flow" where
  "localized_cache cf d e =
     (case lookup d ''LocalizedResourcesCache'' of
        None \<Rightarrow> Go e
      | str \<Rightarrow> and_then (optional_rps cf str (\<lambda>i. efiloccache_update (\<lambda>_. i)) e) (localization cf d))"

definition encrypted_root :: "'z cf_scheme \<Rightarrow> dict option \<Rightarrow> extraction \<Rightarrow> extraction flow" where
  "encrypted_root cf erDict e =
     (case erDict of
        None \<Rightarrow> Go e
      | Some d \<Rightarrow>
          and_then (optional_rps cf (lookup d ''EncryptedPropertyCache'') (\<lambda>i. erpropcache_update (\<lambda>_. i))
            (more_keys d e)) (\<lambda>e.
          and_then (root_volume_cache d e) (\<lambda>e.
          and_then (optional_rps cf (default_resources d) (\<lambda>i. efidefrsrcs_update (\<lambda>_. i)) e) (\<lambda>e.
          and_then (localized_cache cf d e) (\<lambda>e. Go (handled e))))))"

definition boot_cache_file :: "'z cf_scheme \<Rightarrow> dict \<Rightarrow> extraction \<Rightarrow> extraction flow" where
  "boot_cache_file cf mk e =
     (case lookup mk ''ReadOnlyPath'' of
        None \<Rightarrow>
          and_then (keep_rps cf (lookup mk ''Path'') (\<lambda>i. kext_boot_cache_file_update (\<lambda>_. map_option Rps i)) e)
            (\<lambda>e. Go (e\<lparr>readonly_kext_boot_cache_file := None\<rparr>))
      | str \<Rightarrow>
          and_then (keep_rps cf str (\<lambda>i. readonly_kext_boot_cache_file_update (\<lambda>_. i)) e) (\<lambda>e.
            Go (e\<lparr>kext_boot_cache_file :=
              Some (Own (snd (MAKE_CACHEDPATH cf (fsys_uuid e) (lookup mk ''Path'') (fresh_block cf))))\<rparr>)))"

definition own_path :: "'z cf_scheme \<Rightarrow> string \<Rightarrow> plist option \<Rightarrow> cachedPath option" where
  "own_path cf uuid str =
     (if is_string str then Some (snd (MAKE_CACHEDPATH cf uuid str (fresh_block cf))) else None)"

definition unwatched :: "'z cf_scheme \<Rightarrow> dict \<Rightarrow> extraction \<Rightarrow> extraction" where
  "unwatched cf mk e =
     (case lookup mk ''UnwatchedExtensionsDir'' of
        Some (PArray ps) \<Rightarrow> (case createPackedPathsFromCFArray cf ps of
          (paths, n) \<Rightarrow> e\<lparr>unwatchedExts := paths, nUnwatchedExts := n\<rparr>)
      | _ \<Rightarrow> e)"

definition filesets :: "'z cf_scheme \<Rightarrow> dict \<Rightarrow> extraction \<Rightarrow> extraction flow" where
  "filesets cf mk e =
     and_then
       (if is_string (lookup mk ''BootKernelExtensions'')
        then keep_rps cf (lookup mk ''BootKernelExtensions'') (\<lambda>i. fileset_bootkc_update (\<lambda>_. i)) e
        else Go (e\<lparr>nrps := nrps e - 1\<rparr>)) (\<lambda>e.
     Go (e\<lparr>fileset_systemkc := own_path cf (fsys_uuid e) (lookup mk ''SystemKernelExtensions''),
           fileset_basesystemkc := own_path cf (fsys_uuid e) (lookup mk ''BaseSystemKernelExtensions''),
           prefer_fileset := (lookup mk ''PreferBootKernelExtensions'' = Some (PBool True))\<rparr>))"

definition watched :: "'z cf_scheme \<Rightarrow> dict \<Rightarrow> extraction \<Rightarrow> extraction flow" where
  "watched cf mk e =
     (case lookup mk ''ExtensionsDir'' of
        Some (PArray ps) \<Rightarrow> (case createPackedPathsFromCFArray cf ps of
          (paths, n) \<Rightarrow> Go (e\<lparr>watchedExts := paths, nWatchedExts := n\<rparr>))
      | Some (PString s) \<Rightarrow>
          (case fsrep cf PATH_MAX s of (ok, buf) \<Rightarrow>
             let e = e\<lparr>watchedExts := [buf], nWatchedExts := 1\<rparr> in if ok then Go e else Finish e)
      | _ \<Rightarrow> Finish e)"

definition kernel_path :: "'z cf_scheme \<Rightarrow> dict \<Rightarrow> extraction \<Rightarrow> extraction flow" where
  "kernel_path cf mk e =
     (case into_buffer cf (lookup mk ''KernelPath'') (kernelpath e) of (ok, buf) \<Rightarrow>
        let e = e\<lparr>kernelpath := buf\<rparr> in
        if \<not> ok then Finish e
        else (case getExtraKernelCachePaths cf True e of
          (_, e, paths) \<Rightarrow> Go (e\<lparr>extraKernelCachePaths := paths\<rparr>)))"

definition kernel_cache :: "'z cf_scheme \<Rightarrow> dict \<Rightarrow> extraction \<Rightarrow> extraction flow" where
  "kernel_cache cf d e =
     (case mkDict d of
        None \<Rightarrow> Go e
      | Some (PDict mk) \<Rightarrow>
          and_then (boot_cache_file cf mk e) (\<lambda>e.
          and_then (filesets cf mk (unwatched cf mk e)) (\<lambda>e.
          and_then (watched cf mk e) (\<lambda>e.
          and_then (if isKernelcache d then kernel_path cf mk e else Go e) (\<lambda>e. Go (handled e)))))
      | Some _ \<Rightarrow> Finish e)"

text \<open>The slots that are allocated: one per key, and more for arrays and for the encrypted root.\<close>

definition additional_slots :: "dict \<Rightarrow> plist list option \<Rightarrow> nat" where
  "additional_slots d ps = (case ps of None \<Rightarrow> length d | Some ps \<Rightarrow> length d + length ps - 1)"

definition rps_slots :: "dict \<Rightarrow> plist list option \<Rightarrow> dict option \<Rightarrow> nat" where
  "rps_slots d ps erDict =
     additional_slots d ps +
     (case erDict of None \<Rightarrow> 0 | Some er \<Rightarrow> if lookup er ''LocalizationSource'' = None then 1 else 2) +
     (if lookup d ''Kernelcache v1.6'' = None then 0 else 1)"

definition alloc_rps :: "nat \<Rightarrow> extraction \<Rightarrow> extraction flow" where
  "alloc_rps n e =
     (let e = e\<lparr>nrps := n\<rparr> in
      if too_many n then Finish e else Go (e\<lparr>rpspaths := replicate n zeroed\<rparr>))"

definition additional :: "'z cf_scheme \<Rightarrow> plist list option \<Rightarrow> extraction \<Rightarrow> extraction flow" where
  "additional cf aps e =
     (case aps of
        None \<Rightarrow> Go e
      | Some ps \<Rightarrow> and_then (make_rps_all cf ps e) (\<lambda>e. Go (handled e)))"

definition postboot_paths ::
  "'z cf_scheme \<Rightarrow> dict \<Rightarrow> plist list option \<Rightarrow> dict option \<Rightarrow> extraction \<Rightarrow> extraction flow" where
  "postboot_paths cf d aps erDict e =
     and_then (alloc_rps (rps_slots d aps erDict) e) (\<lambda>e.
     and_then (additional cf aps e) (\<lambda>e.
     and_then (optional_rps cf (lookup d ''BootConfig'') (\<lambda>i. bootconfig_update (\<lambda>_. i)) e) (\<lambda>e.
     and_then (encrypted_root cf erDict e) (\<lambda>e.
       if kcacheKeys d > 1 then Finish e
       else and_then (kernel_cache cf d e) (\<lambda>e. Go (handled e))))))"

text \<open>An optional value that must have a given shape; the outer \<open>None\<close> is a value of another type.\<close>

fun as_array :: "plist option \<Rightarrow> plist list option option" where
  "as_array None = Some None"
| "as_array (Some (PArray ps)) = Some (Some ps)"
| "as_array (Some _) = None"

fun as_dict :: "plist option \<Rightarrow> dict option option" where
  "as_dict None = Some None"
| "as_dict (Some (PDict d)) = Some (Some d)"
| "as_dict (Some _) = None"

definition postboot :: "'z cf_scheme \<Rightarrow> plist option \<Rightarrow> extraction \<Rightarrow> extraction flow" where
  "postboot cf pl e =
     (case pl of
        None \<Rightarrow> Go e
      | Some (PDict d) \<Rightarrow>
          (let e = (more_keys d e)\<lparr>nrps := length d\<rparr> in
           case as_array (lookup d ''AdditionalPaths'') of
             None \<Rightarrow> Finish e
           | Some aps \<Rightarrow>
               (case as_dict (lookup d ''EncryptedRoot'') of
                  None \<Rightarrow> Finish (e\<lparr>nrps := additional_slots d aps\<rparr>)
                | Some erDict \<Rightarrow> postboot_paths cf d aps erDict e))
      | Some _ \<Rightarrow> Finish e)"

definition bless2 :: "plist option \<Rightarrow> extraction \<Rightarrow> extraction" where
  "bless2 pl e = (if pl = None then e else handled e)"

datatype extracted = Extracted int boot_struct | Corrupted

definition drop_exts :: "boot_struct \<Rightarrow> boot_struct" where
  "drop_exts c = c\<lparr>watchedExts := [], nWatchedExts := 0, unwatchedExts := [], nUnwatchedExts := 0\<rparr>"

definition start_extraction :: "boot_struct \<Rightarrow> dict \<Rightarrow> extraction" where
  "start_extraction c bcDict =
     boot_struct.extend (drop_exts c\<lparr>kernelsCount := 0\<rparr>) \<lparr>keyCount = int (length bcDict), rpsindex = 0\<rparr>"

definition extraction_flow :: "'z cf_scheme \<Rightarrow> boot_struct \<Rightarrow> dict \<Rightarrow> extraction flow" where
  "extraction_flow cf c bcDict =
     and_then (preboot cf (lookup bcDict ''PreBootPaths'') (start_extraction c bcDict)) (\<lambda>e.
     and_then (booters cf (lookup bcDict ''BooterPaths'') e) (\<lambda>e.
     and_then (postboot cf (lookup bcDict ''PostBootPaths'') e) (\<lambda>e.
       Go (bless2 (lookup bcDict ''bless2'') e))))"

definition extractProps :: "'z cf_scheme \<Rightarrow> boot_struct \<Rightarrow> dict \<Rightarrow> extracted" where
  "extractProps cf c bcDict =
     (case extraction_flow cf c bcDict of
        Overrun \<Rightarrow> Corrupted
      | Finish e \<Rightarrow> Extracted EFTYPE (drop_exts (boot_struct.truncate e))
      | Go e \<Rightarrow>
          if keyCount e = 0 \<and> rpsindex e = nrps e
          then Extracted 0 (boot_struct.truncate e\<lparr>cacheinfo := Some bcDict\<rparr>)
          else Extracted EFTYPE (drop_exts (boot_struct.truncate e)))"

end
