(* ===== verification/BootStamps.thy ===== *)
theory BootStamps
  imports BootCaches BootTaint
begin

text \<open>
  src/bootcaches.c: the stamps, by which kextd and kextcache notice that a helper partition is out of date. For
  every cached path there is a stamp file whose modification time tracks the change time of the
  path. The operating system of SafeCalls is extended with the times of the files, named by their paths,
  the time that a new file gets, and the flags of the mount.
\<close>

section \<open>Times\<close>

type_synonym timespec = "int \<times> int"

record file_times =
  atime :: timespec
  mtime :: timespec
  ctime :: timespec

record stamp_os = os +
  ftimes :: "string list \<Rightarrow> file_times"
  now :: timespec
  mount_rdonly :: bool
  ignore_ownership :: bool

type_synonym 'a stamping = "(stamp_os, 'a) state"

text \<open>\<open>TIMESPEC_TO_TIMEVAL\<close>, and what \<open>futimes\<close> makes of a \<open>timeval\<close>.\<close>

definition to_timeval :: "timespec \<Rightarrow> timeval" where
  "to_timeval t = (fst t, snd t div 1000)"

definition of_timeval :: "timeval \<Rightarrow> timespec" where
  "of_timeval t = (fst t, snd t * 1000)"

definition stat_times :: "string \<Rightarrow> file_times option stamping" where
  "stat_times path = do {
     n \<leftarrow> stat_call path;
     s \<leftarrow> gets id;
     return (map_option (\<lambda>_. ftimes s (comps path)) n)
   }"

definition set_times :: "string list \<Rightarrow> file_times \<Rightarrow> unit stamping" where
  "set_times p t = modify (\<lambda>s. s\<lparr>ftimes := (ftimes s)(p := t)\<rparr>)"

definition fits :: "string list \<Rightarrow> bool" where
  "fits parts \<longleftrightarrow> length (concat parts) < PATH_MAX"

definition ENOTSUP :: int where "ENOTSUP = 45"

section \<open>Is a path out of date?\<close>

text \<open>A change time of zero seconds is forced to one; a stamp of zero stands for a missing source.\<close>

definition source_time :: "file_times \<Rightarrow> timespec" where
  "source_time t = (if fst (ctime t) = 0 then (1, snd (ctime t)) else ctime t)"

definition captured :: "file_times option \<Rightarrow> timeval \<times> timeval" where
  "captured src =
     (case src of
        None \<Rightarrow> ((0, 0), (0, 0))
      | Some t \<Rightarrow> (to_timeval (atime t), to_timeval (source_time t)))"

definition outofdate :: "file_times option \<Rightarrow> file_times option \<Rightarrow> bool" where
  "outofdate src stamp =
     (let tsvalid = (case stamp of None \<Rightarrow> False | Some t \<Rightarrow> fst (mtime t) \<noteq> 0) in
      case src of
        None \<Rightarrow> tsvalid
      | Some t \<Rightarrow> if tsvalid then mtime (the stamp) \<noteq> source_time t else True)"

definition needsUpdate :: "string \<Rightarrow> cachedPath \<Rightarrow> (bool \<times> cachedPath) stamping" where
  "needsUpdate rt cpath =
     (if \<not> fits [rt, rpath cpath] \<or> \<not> fits [rt, tspath cpath] then return (False, cpath)
      else do {
        src \<leftarrow> stat_times (rt @ rpath cpath);
        e \<leftarrow> gets errno;
        if src = None \<and> e \<noteq> ENOENT then return (False, cpath)
        else do {
          stamp \<leftarrow> stat_times (rt @ tspath cpath);
          e \<leftarrow> gets errno;
          return (if stamp = None \<and> e \<noteq> ENOENT then False else outofdate src stamp,
                  cpath\<lparr>tstamps := captured src\<rparr>)
        }
      })"

definition kBRUEarlyBoot :: u32 where "kBRUEarlyBoot = 16"
definition kBRUCachesAnyRoot :: u32 where "kBRUCachesAnyRoot = 64"

text \<open>The loop over an array; \<open>skip\<close> is the index that is passed over.\<close>

fun check_paths :: "string \<Rightarrow> nat option \<Rightarrow> nat \<Rightarrow> cachedPath list \<Rightarrow> (bool \<times> cachedPath list) stamping" where
  "check_paths rt skip i [] = return (False, [])"
| "check_paths rt skip i (cp # cps) =
     (if skip = Some i
      then do { (b, cps') \<leftarrow> check_paths rt skip (Suc i) cps; return (b, cp # cps') }
      else do {
        (b, cp') \<leftarrow> needsUpdate rt cp;
        (b', cps') \<leftarrow> check_paths rt skip (Suc i) cps;
        return (b \<or> b', cp' # cps')
      })"

definition check_booter :: "string \<Rightarrow> cachedPath \<Rightarrow> (bool \<times> cachedPath) stamping" where
  "check_booter rt cp = (if rpath cp = [] then return (False, cp) else needsUpdate rt cp)"

record out_of_date =
  anyOOD :: bool
  rpsOOD :: bool
  bootersOOD :: bool
  miscOOD :: bool

definition needUpdates :: "boot_struct \<Rightarrow> u32 \<Rightarrow> (out_of_date \<times> boot_struct) stamping" where
  "needUpdates c opts = do {
     tainted \<leftarrow> (if opts AND kBRUCachesAnyRoot = 0 then notBRDefault (root c) kTSCacheDir else return False);
     (r, rps) \<leftarrow> check_paths (root c) (if opts AND kBRUEarlyBoot \<noteq> 0 then efiloccache c else None) 0
       (take (nrps c) (rpspaths c));
     (x, extra) \<leftarrow> check_paths (root c) None 0 (extraKernelCachePaths c);
     (e, efi) \<leftarrow> check_booter (root c) (efibooter c);
     (b, ofb) \<leftarrow> check_booter (root c) (ofbooter c);
     (m, misc) \<leftarrow> check_paths (root c) None 0 (take (nmisc c) (miscpaths c));
     return (\<lparr>anyOOD = tainted \<or> r \<or> x \<or> e \<or> b \<or> m, rpsOOD = tainted \<or> r \<or> x,
              bootersOOD = tainted \<or> e \<or> b, miscOOD = tainted \<or> m\<rparr>,
             c\<lparr>rpspaths := rps @ drop (nrps c) (rpspaths c), extraKernelCachePaths := extra,
               efibooter := efi, ofbooter := ofb, miscpaths := misc @ drop (nmisc c) (miscpaths c)\<rparr>)
   }"

section \<open>Writing the stamps\<close>

text \<open>A file that is created has the time of its creation until \<open>futimes\<close> has set another one.\<close>

definition new_stamp :: "string list \<Rightarrow> timeval \<times> timeval \<Rightarrow> int stamping" where
  "new_stamp p tv = do {
     s \<leftarrow> gets id;
     set_times p \<lparr>atime = now s, mtime = now s, ctime = now s\<rparr>;
     ok \<leftarrow> attempt UtimesCall;
     if \<not> ok then return (- 1)
     else do {
       set_times p \<lparr>atime = of_timeval (fst tv), mtime = of_timeval (snd tv), ctime = now s\<rparr>;
       return 0
     }
   }"

definition sutimes :: "nat \<Rightarrow> string \<Rightarrow> timeval \<times> timeval \<Rightarrow> int stamping" where
  "sutimes vol path tv =
     need (sopen vol path (Creating False kCacheFileMode)) (return (- 1)) (\<lambda>fd. new_stamp (fst fd) tv)"

definition kBCStampsUnlinkOnly :: int where "kBCStampsUnlinkOnly = 0"
definition kBCStampsApplyTimes :: int where "kBCStampsApplyTimes = 1"

definition updateStamp :: "string \<Rightarrow> cachedPath \<Rightarrow> nat \<Rightarrow> int \<Rightarrow> int stamping" where
  "updateStamp rt cpath vol command =
     (if \<not> fits [rt, tspath cpath] then return (- 1)
      else do {
        r \<leftarrow> sunlink vol (rt @ tspath cpath);
        e \<leftarrow> gets errno;
        if command = kBCStampsApplyTimes then sutimes vol (rt @ tspath cpath) (tstamps cpath)
        else return (if r = - 1 \<and> e = ENOENT then 0 else r)
      })"

fun update_all :: "string \<Rightarrow> nat \<Rightarrow> int \<Rightarrow> cachedPath list \<Rightarrow> int stamping" where
  "update_all rt vol command [] = return 0"
| "update_all rt vol command (cp # cps) = do {
     r \<leftarrow> updateStamp rt cp vol command;
     r' \<leftarrow> update_all rt vol command cps;
     return (r OR r')
   }"

text \<open>Every path that has a stamp, in the order of the loops.\<close>

definition cached_paths :: "boot_struct \<Rightarrow> cachedPath list" where
  "cached_paths c =
     take (nrps c) (rpspaths c) @ extraKernelCachePaths c @
     filter (\<lambda>p. rpath p \<noteq> []) [efibooter c, ofbooter c] @ take (nmisc c) (miscpaths c)"

text \<open>The directories. An error is translated and then forgotten: \<open>errno\<close> is cleared.\<close>

definition no_dirs :: "int \<Rightarrow> int stamping" where
  "no_dirs result = do { e \<leftarrow> gets errno; set_errno 0; return (if result = - 1 then e else result) }"

definition make_missing :: "nat \<Rightarrow> bool \<Rightarrow> string \<Rightarrow> int stamping \<Rightarrow> int stamping" where
  "make_missing vol checkOnly dir k = do {
     n \<leftarrow> stat_call dir;
     e \<leftarrow> gets errno;
     if n \<noteq> None then k
     else if e \<noteq> ENOENT then no_dirs (- 1)
     else if checkOnly then no_dirs ENOTSUP
     else check (sdeepmkdir vol dir kCacheDirMode) no_dirs k
   }"

definition parent_of_cache :: "boot_struct \<Rightarrow> bool \<Rightarrow> string option \<Rightarrow> int stamping \<Rightarrow> int stamping" where
  "parent_of_cache c checkOnly path k =
     (case path of
        None \<Rightarrow> k
      | Some p \<Rightarrow>
          if \<not> fits [root c, dirname p] then no_dirs (ELAST + 1)
          else make_missing (cachefd c) checkOnly (root c @ dirname p) k)"

fun ref_path :: "boot_struct \<Rightarrow> path_ref \<Rightarrow> string" where
  "ref_path c (Rps i) = rpath (rpspaths c ! i)"
| "ref_path c (Own p) = rpath p"

text \<open>Stale directories of other UUIDs go, before the directory of this volume's stamps is made.\<close>

definition stamp_dir :: "boot_struct \<Rightarrow> string" where
  "stamp_dir c = root c @ kTSCacheDir @ ''/'' @ fsys_uuid c"

definition make_stamp_dir :: "boot_struct \<Rightarrow> bool \<Rightarrow> int stamping \<Rightarrow> int stamping" where
  "make_stamp_dir c checkOnly k = do {
     n \<leftarrow> stat_call (stamp_dir c);
     e \<leftarrow> gets errno;
     if n \<noteq> None then k
     else if e \<noteq> ENOENT then no_dirs (- 1)
     else if checkOnly then no_dirs ENOTSUP
     else do {
       old \<leftarrow> stat_call (root c @ kTSCacheDir);
       _ \<leftarrow> (if old = None then return 0 else sdeepunlink (cachefd c) (root c @ kTSCacheDir));
       check (sdeepmkdir (cachefd c) (stamp_dir c) kCacheDirMode) no_dirs k
     }
   }"

definition ensureCacheDirs :: "boot_struct \<Rightarrow> int stamping" where
  "ensureCacheDirs c = do {
     ok \<leftarrow> attempt StatfsCall;
     checkOnly \<leftarrow> gets ignore_ownership;
     if \<not> ok then no_dirs (- 1)
     else if \<not> fits [stamp_dir c] then no_dirs (ELAST + 1)
     else make_stamp_dir c checkOnly
       (parent_of_cache c checkOnly (map_option (\<lambda>i. rpath (rpspaths c ! i)) (erpropcache c))
         (parent_of_cache c checkOnly (map_option (ref_path c) (kext_boot_cache_file c)) (return 0)))
   }"

abbreviation BRDBG_DISABLE_EXTSYNC_F :: string where
  "BRDBG_DISABLE_EXTSYNC_F \<equiv> ''/var/db/.BRDisableExtraSync''"

definition finish_stamps :: "boot_struct \<Rightarrow> int \<Rightarrow> int stamping" where
  "finish_stamps c anyErr = do {
     n \<leftarrow> stat_call BRDBG_DISABLE_EXTSYNC_F;
     r \<leftarrow> (if n = None then simple_call SyncCall else return 0);
     r' \<leftarrow> markNotBRDefault (cachefd c) (root c) kTSCacheDir False;
     return (anyErr OR r OR r')
   }"

definition updateStamps :: "boot_struct \<Rightarrow> int \<Rightarrow> int stamping" where
  "updateStamps c command = do {
     ok \<leftarrow> attempt StatfsCall;
     rdonly \<leftarrow> gets mount_rdonly;
     if ok \<and> rdonly then return 0
     else if command \<noteq> kBCStampsApplyTimes \<and> command \<noteq> kBCStampsUnlinkOnly then return EINVAL
     else check (if command = kBCStampsApplyTimes then ensureCacheDirs c else return 0) return (do {
       anyErr \<leftarrow> update_all (root c) (cachefd c) command (cached_paths c);
       finish_stamps c anyErr
     })
   }"

section \<open>Is the kext cache out of date?\<close>

text \<open>\<open>removeTrailingSlashes\<close>, then the rest of the path.\<close>

definition below_root :: "string \<Rightarrow> string \<Rightarrow> string list" where
  "below_root rt path = [strip_right rt, path]"

text \<open>The times of the extensions folders, and the latest one plus a second; a path that does not fit ends the
  function. The C loop counts up to \<open>nWatchedExts\<close>; that is the length of the list, unless the property list
  names a folder that is no string or does not fit (\<open>packed_count\<close> in BootCachesProps), when the loop
  goes on behind the paths.\<close>

fun latest_folder :: "string \<Rightarrow> string list \<Rightarrow> int \<Rightarrow> int option stamping" where
  "latest_folder rt [] valid = return (Some valid)"
| "latest_folder rt (p # ps) valid =
     (if \<not> fits [rt] \<or> \<not> fits (below_root rt p) then return None
      else do {
        t \<leftarrow> stat_times (concat (below_root rt p));
        latest_folder rt ps
          (case t of None \<Rightarrow> valid | Some t \<Rightarrow> if fst (mtime t) + 1 > valid then fst (mtime t) + 1 else valid)
      })"

definition kernel_time :: "string \<Rightarrow> string \<Rightarrow> int \<Rightarrow> int option stamping" where
  "kernel_time rt kern valid =
     (if kern = [] then return (Some valid)
      else if \<not> fits [rt] \<or> \<not> fits (below_root rt kern) then return None
      else do {
        t \<leftarrow> stat_times (concat (below_root rt kern));
        return (map_option (\<lambda>t. if fst (mtime t) > valid then fst (mtime t) + 1 else valid) t)
      })"

definition has_time :: "string \<Rightarrow> string \<Rightarrow> int \<Rightarrow> bool stamping" where
  "has_time rt path valid =
     (if \<not> fits [rt] \<or> \<not> fits (below_root rt path) then return False
      else do {
        t \<leftarrow> stat_times (concat (below_root rt path));
        return (case t of None \<Rightarrow> False | Some t \<Rightarrow> fst (mtime t) = valid)
      })"

definition check_kext_boot_cache_file ::
  "boot_struct \<Rightarrow> string option \<Rightarrow> string \<Rightarrow> string option \<Rightarrow> bool stamping" where
  "check_kext_boot_cache_file c cache_path kern immutable_path =
     (case cache_path of
        None \<Rightarrow> return False
      | Some cache \<Rightarrow>
          need (latest_folder (root c) (watchedExts c) 0) (return False) (\<lambda>valid.
          need (kernel_time (root c) kern valid) (return False) (\<lambda>valid. do {
            same \<leftarrow> has_time (root c) cache valid;
            if \<not> same then return True
            else case immutable_path of
              None \<Rightarrow> return False
            | Some imk \<Rightarrow>
                if imk = [] then return False
                else if \<not> fits [root c] \<or> \<not> fits (below_root (root c) imk) then return False
                else do { same \<leftarrow> has_time (root c) imk valid; return (\<not> same) }
          })))"

end
