(* ===== verification/BootCachesProps.thy ===== *)
theory BootCachesProps
  imports BootCaches
begin

text \<open>
  What \<open>extractProps\<close> makes of a property list: how many slots of \<open>rpspaths\<close> and how many keys each part of
  it accounts for (\<open>uses\<close>, with a rule per part and one for sequences), from which follow that the
  array is not overrun when the plist has the keys that slots are counted for, that accepted structs
  have their pointers in the array, and which formats are accepted at all.
\<close>

section \<open>Slots and keys\<close>

definition given :: "dict \<Rightarrow> string list \<Rightarrow> nat" where
  "given d ks = length (filter (\<lambda>k. lookup d k \<noteq> None) ks)"

lemma given_Nil [simp]: "given d [] = 0"
  by (simp add: given_def)

lemma given_Cons [simp]: "given d (k # ks) = of_bool (lookup d k \<noteq> None) + given d ks"
  by (simp add: given_def)

lemma given_le: "distinct ks \<Longrightarrow> given d ks \<le> length d"
proof -
  assume ks: "distinct ks"
  let ?S = "set (filter (\<lambda>k. lookup d k \<noteq> None) ks)"
  have "?S \<subseteq> set (map fst d)" by (force dest: map_of_SomeD)
  then have "card ?S \<le> card (set (map fst d))" by (intro card_mono) auto
  also have "\<dots> \<le> length d" using card_length [of "map fst d"] by simp
  finally have "card ?S \<le> length d" .
  with ks show ?thesis unfolding given_def by (metis distinct_card distinct_filter)
qed

abbreviation locale_keys :: "string list" where
  "locale_keys \<equiv> [''LocalizationSource'', ''LanguagesPref'', ''BackgroundImage'']"

definition pointers :: "'z boot_struct_scheme \<Rightarrow> nat set" where
  "pointers c =
     set_option (bootconfig c) \<union> set_option (erpropcache c) \<union> set_option (efidefrsrcs c) \<union>
     set_option (efiloccache c) \<union> set_option (readonly_kext_boot_cache_file c) \<union>
     set_option (fileset_bootkc c) \<union> {i. kext_boot_cache_file c = Some (Rps i)}"

definition in_use :: "extraction \<Rightarrow> bool" where
  "in_use e \<longleftrightarrow> (\<forall>i \<in> pointers e. i < rpsindex e)"

definition uses :: "nat \<Rightarrow> nat \<Rightarrow> int \<Rightarrow> (extraction \<Rightarrow> extraction flow) \<Rightarrow> bool" where
  "uses r d k f \<longleftrightarrow>
     (\<forall>e. (rpsindex e + r \<le> length (rpspaths e) \<longrightarrow> f e \<noteq> Overrun) \<and>
       (\<forall>e'. f e = Go e' \<longrightarrow>
         rpsindex e' = rpsindex e + r \<and> nrps e' = nrps e - d \<and> keyCount e' + k \<ge> keyCount e \<and>
         length (rpspaths e') = length (rpspaths e) \<and> (in_use e \<longrightarrow> in_use e')))"

lemma usesI:
  assumes "\<And>e. rpsindex e + r \<le> length (rpspaths e) \<Longrightarrow> f e \<noteq> Overrun"
    and "\<And>e e'. f e = Go e' \<Longrightarrow> rpsindex e' = rpsindex e + r \<and> nrps e' = nrps e - d \<and>
      keyCount e' + k \<ge> keyCount e \<and> length (rpspaths e') = length (rpspaths e) \<and> (in_use e \<longrightarrow> in_use e')"
  shows "uses r d k f"
  unfolding uses_def using assms by blast

lemma usesD:
  assumes "uses r d k f"
  shows "rpsindex e + r \<le> length (rpspaths e) \<Longrightarrow> f e \<noteq> Overrun"
    and "f e = Go e' \<Longrightarrow> rpsindex e' = rpsindex e + r \<and> nrps e' = nrps e - d \<and>
      keyCount e' + k \<ge> keyCount e \<and> length (rpspaths e') = length (rpspaths e) \<and> (in_use e \<longrightarrow> in_use e')"
  using assms unfolding uses_def by blast+

lemma and_then_Overrun: "and_then m f = Overrun \<longleftrightarrow> m = Overrun \<or> (\<exists>e. m = Go e \<and> f e = Overrun)"
  by (cases m) auto

lemma and_then_Go: "and_then m f = Go e' \<longleftrightarrow> (\<exists>e. m = Go e \<and> f e = Go e')"
  by (cases m) auto

lemma uses_then:
  assumes "uses r d k f" "uses r' d' k' g" "r + r' = R" "d + d' = D" "k + k' \<le> K"
  shows "uses R D K (\<lambda>e. and_then (f e) g)"
proof (rule usesI)
  fix e :: extraction assume le: "rpsindex e + R \<le> length (rpspaths e)"
  show "and_then (f e) g \<noteq> Overrun"
    using le assms usesD [OF assms(1), of e] usesD [OF assms(2)] by (auto simp: and_then_Overrun)
next
  fix e e' :: extraction assume "and_then (f e) g = Go e'"
  then obtain e1 where "f e = Go e1" "g e1 = Go e'" by (auto simp: and_then_Go)
  then show "rpsindex e' = rpsindex e + R \<and> nrps e' = nrps e - D \<and> keyCount e' + K \<ge> keyCount e \<and>
      length (rpspaths e') = length (rpspaths e) \<and> (in_use e \<longrightarrow> in_use e')"
    using usesD(2) [OF assms(1)] usesD(2) [OF assms(2)] assms(3-5) by fastforce
qed

lemmas uses_seq = uses_then [OF _ _ refl refl order_refl]

lemma uses_eq: "uses r d k f \<Longrightarrow> r = R \<Longrightarrow> d = D \<Longrightarrow> k \<le> K \<Longrightarrow> uses R D K f"
  unfolding uses_def by force

lemma uses_Go: "uses 0 0 0 Go"
  by (rule usesI) auto

lemma uses_Finish: "uses r d k Finish"
  by (rule usesI) auto

lemma uses_handled: "uses 0 0 1 (\<lambda>e. Go (handled e))"
  by (rule usesI) (auto simp: handled_def in_use_def pointers_def)

text \<open>Entering a path takes a slot, whether or not it could be filled.\<close>

definition plain_pointer :: "(nat option \<Rightarrow> extraction \<Rightarrow> extraction) \<Rightarrow> bool" where
  "plain_pointer f \<longleftrightarrow> (\<forall>i e. rpsindex (f (Some i) e) = rpsindex e \<and> nrps (f (Some i) e) = nrps e \<and>
     keyCount (f (Some i) e) = keyCount e \<and> rpspaths (f (Some i) e) = rpspaths e \<and>
     pointers (f (Some i) e) \<subseteq> insert i (pointers e))"

lemma plain_pointers:
  "plain_pointer (\<lambda>i. bootconfig_update (\<lambda>_. i))" "plain_pointer (\<lambda>i. erpropcache_update (\<lambda>_. i))"
  "plain_pointer (\<lambda>i. efidefrsrcs_update (\<lambda>_. i))" "plain_pointer (\<lambda>i. efiloccache_update (\<lambda>_. i))"
  "plain_pointer (\<lambda>i. readonly_kext_boot_cache_file_update (\<lambda>_. i))"
  "plain_pointer (\<lambda>i. fileset_bootkc_update (\<lambda>_. i))"
  "plain_pointer (\<lambda>i. kext_boot_cache_file_update (\<lambda>_. map_option Rps i))"
  "plain_pointer (\<lambda>i e. e)"
  by (auto simp: plain_pointer_def pointers_def)

lemma make_rps_Go:
  assumes "make_rps cf str e = Go e'"
  obtains ps where "e' = e\<lparr>rpspaths := ps\<rparr>" "length ps = length (rpspaths e)"
proof (cases "is_string str")
  case False
  with assms have "e' = e\<lparr>rpspaths := rpspaths e\<rparr>" by (simp add: make_rps_def)
  then show thesis by (rule that) simp
qed (use assms that in \<open>force simp: make_rps_def split: if_splits\<close>)

lemma uses_keep_rps: "plain_pointer f \<Longrightarrow> uses 1 0 0 (keep_rps cf str f)"
proof (rule usesI)
  fix e :: extraction assume "rpsindex e + 1 \<le> length (rpspaths e)"
  then show "keep_rps cf str f e \<noteq> Overrun"
    by (auto simp: keep_rps_def make_rps_def)
next
  fix e e' :: extraction assume f: "plain_pointer f" and go: "keep_rps cf str f e = Go e'"
  then obtain ps where e': "e' = f (Some (rpsindex e)) (e\<lparr>rpspaths := ps, rpsindex := Suc (rpsindex e)\<rparr>)"
    and ps: "length ps = length (rpspaths e)"
    by (auto simp: keep_rps_def and_then_Go elim!: make_rps_Go)
  have "pointers e' \<subseteq> insert (rpsindex e) (pointers e)"
    using f [unfolded plain_pointer_def, rule_format, of "rpsindex e" "e\<lparr>rpspaths := ps, rpsindex := Suc (rpsindex e)\<rparr>"]
    by (simp add: e' pointers_def)
  then show "rpsindex e' = rpsindex e + 1 \<and> nrps e' = nrps e - 0 \<and> keyCount e' + 0 \<ge> keyCount e \<and>
      length (rpspaths e') = length (rpspaths e) \<and> (in_use e \<longrightarrow> in_use e')"
    using f ps by (auto simp: e' plain_pointer_def in_use_def dest!: subsetD)
qed

lemma uses_optional_rps:
  "plain_pointer f \<Longrightarrow>
    uses (of_bool (str \<noteq> None)) 0 (of_bool (str \<noteq> None)) (optional_rps cf str f)"
  unfolding optional_rps_def
  by (cases "str = None") (auto intro!: uses_Go [simplified] uses_then [OF uses_keep_rps uses_handled])

lemma uses_additional:
  "uses (case aps of None \<Rightarrow> 0 | Some ps \<Rightarrow> length ps) 0 (of_bool (aps \<noteq> None)) (additional cf aps)"
proof (cases aps)
  case None
  then have "additional cf aps = Go" by (intro ext) (simp add: additional_def)
  with None show ?thesis by (simp add: uses_Go)
next
  case (Some ps)
  have step: "and_then (make_rps cf str e) (\<lambda>e. g (e\<lparr>rpsindex := Suc (rpsindex e)\<rparr>)) =
      and_then (keep_rps cf str (\<lambda>i e. e) e) g" for str e g
    by (cases "make_rps cf str e") (auto simp: keep_rps_def)
  have "uses (length ps) 0 0 (make_rps_all cf ps)"
  proof (induction ps)
    case Nil
    have "make_rps_all cf [] = Go" by (rule ext) simp
    then show ?case by (simp add: uses_Go)
  next
    case (Cons p ps)
    have "uses 1 0 0 (keep_rps cf (Some p) (\<lambda>i e. e))"
      by (rule uses_keep_rps) (rule plain_pointers)
    then show ?case
      by (simp add: step) (rule uses_then [OF _ Cons.IH], auto)
  qed
  from uses_then [OF this uses_handled, of "length ps" 0 1] show ?thesis
    by (simp add: additional_def [abs_def] Some)
qed

lemma into_buffer_None: "into_buffer cf None old = (False, old)"
  by (simp add: into_buffer_def)

lemma uses_localization: "uses 0 0 (int (given er locale_keys)) (localization cf er)"
  by (rule usesI)
    (auto simp: localization_def handled_def in_use_def pointers_def Let_def into_buffer_None
      split: prod.splits if_splits)

lemma uses_root_volume:
  "uses 0 0 (of_bool (lookup er ''RootVolumePropertyCache'' \<noteq> None)) (root_volume_cache er)"
  by (rule usesI)
    (auto simp: root_volume_cache_def handled_def in_use_def pointers_def split: option.splits plist.splits)

lemma uses_localized_cache:
  "uses (of_bool (lookup er ''LocalizedResourcesCache'' \<noteq> None)) 0
     (of_bool (lookup er ''LocalizedResourcesCache'' \<noteq> None) * (1 + int (given er locale_keys))) (localized_cache cf er)"
proof (cases "lookup er ''LocalizedResourcesCache''")
  case None
  then have "localized_cache cf er = Go" by (intro ext) (simp add: localized_cache_def)
  with None show ?thesis by (simp add: uses_Go)
next
  case (Some v)
  have "uses 1 0 (1 + int (given er locale_keys)) (\<lambda>e. and_then (optional_rps cf (Some v) (\<lambda>i. efiloccache_update (\<lambda>_. i)) e) (localization cf er))"
    by (rule uses_then [OF uses_optional_rps uses_localization]) (auto intro: plain_pointers)
  then show ?thesis by (simp add: Some localized_cache_def [abs_def])
qed

text \<open>The slots that an encrypted root takes, and its keys that count as handled.\<close>

definition root_used :: "dict \<Rightarrow> nat" where
  "root_used er = of_bool (lookup er ''EncryptedPropertyCache'' \<noteq> None) +
     of_bool (default_resources er \<noteq> None) + of_bool (lookup er ''LocalizedResourcesCache'' \<noteq> None)"

definition root_known :: "dict \<Rightarrow> nat" where
  "root_known er = of_bool (lookup er ''EncryptedPropertyCache'' \<noteq> None) +
     of_bool (lookup er ''RootVolumePropertyCache'' \<noteq> None) + of_bool (default_resources er \<noteq> None) +
     of_bool (lookup er ''LocalizedResourcesCache'' \<noteq> None) * (1 + given er locale_keys)"


lemma uses_encrypted_root:
  "uses (case er of None \<Rightarrow> 0 | Some d \<Rightarrow> root_used d) 0
     (case er of None \<Rightarrow> 0 | Some d \<Rightarrow> int (root_known d) + 1 - int (length d)) (encrypted_root cf er)"
proof (cases er)
  case None
  then have "encrypted_root cf er = Go" by (intro ext) (simp add: encrypted_root_def)
  with None show ?thesis by (simp add: uses_Go)
next
  case (Some d)
  have more: "uses 0 0 (- int (length d)) (\<lambda>e. Go (more_keys d e))"
    by (rule usesI) (auto simp: more_keys_def in_use_def pointers_def)
  show ?thesis
    unfolding Some encrypted_root_def option.case
    by (rule uses_eq, rule uses_seq [OF more, unfolded and_then.simps],
        (rule uses_seq uses_optional_rps uses_root_volume uses_localized_cache uses_handled plain_pointers)+)
      (simp_all add: root_used_def root_known_def)
qed

lemma uses_boot_cache_file: "uses 1 0 0 (boot_cache_file cf mk)"
proof -
  have own: "uses 0 0 0 (\<lambda>e. Go (e\<lparr>kext_boot_cache_file := Some (Own (g e))\<rparr>))" for g
    by (rule usesI) (auto simp: in_use_def pointers_def)
  have none: "uses 0 0 0 (\<lambda>e. Go (e\<lparr>readonly_kext_boot_cache_file := None\<rparr>))"
    by (rule usesI) (auto simp: in_use_def pointers_def)
  show ?thesis
  proof (cases "lookup mk ''ReadOnlyPath''")
    case None
    have "uses (1 + 0) (0 + 0) (0 + 0) (\<lambda>e. and_then
        (keep_rps cf (lookup mk ''Path'') (\<lambda>i. kext_boot_cache_file_update (\<lambda>_. map_option Rps i)) e)
        (\<lambda>e. Go (e\<lparr>readonly_kext_boot_cache_file := None\<rparr>)))"
      by (rule uses_seq [OF uses_keep_rps none]) (rule plain_pointers)
    then show ?thesis by (simp add: None boot_cache_file_def [abs_def])
  next
    case (Some v)
    have "uses (1 + 0) (0 + 0) (0 + 0) (\<lambda>e. and_then
        (keep_rps cf (Some v) (\<lambda>i. readonly_kext_boot_cache_file_update (\<lambda>_. i)) e)
        (\<lambda>e. Go (e\<lparr>kext_boot_cache_file :=
          Some (Own (snd (MAKE_CACHEDPATH cf (fsys_uuid e) (lookup mk ''Path'') (fresh_block cf))))\<rparr>)))"
      by (rule uses_seq [OF uses_keep_rps own]) (rule plain_pointers)
    then show ?thesis by (simp add: Some boot_cache_file_def [abs_def])
  qed
qed

lemma uses_unwatched: "uses 0 0 0 (\<lambda>e. Go (unwatched cf mk e))"
  by (rule usesI)
    (auto simp: unwatched_def in_use_def pointers_def split: option.splits plist.splits prod.splits)

lemma uses_watched: "uses 0 0 0 (watched cf mk)"
  by (rule usesI)
    (auto simp: watched_def in_use_def pointers_def Let_def split: option.splits plist.splits prod.splits if_splits)

lemma uses_kernel_path: "uses 0 0 0 (kernel_path cf mk)"
  by (rule usesI)
    (auto simp: kernel_path_def getExtraKernelCachePaths_def in_use_def pointers_def Let_def
      split: option.splits prod.splits if_splits)

definition has_fileset :: "dict \<Rightarrow> bool" where
  "has_fileset mk \<longleftrightarrow> is_string (lookup mk ''BootKernelExtensions'')"

lemma uses_filesets:
  "uses (of_bool (has_fileset mk)) (of_bool (\<not> has_fileset mk)) 0 (filesets cf mk)"
proof -
  have rest: "uses 0 0 0 (\<lambda>e. Go (e\<lparr>fileset_systemkc := f e, fileset_basesystemkc := g e, prefer_fileset := b\<rparr>))"
    for f g b
    by (rule usesI) (auto simp: in_use_def pointers_def)
  show ?thesis
  proof (cases "has_fileset mk")
    case True
    have "uses (1 + 0) (0 + 0) (0 + 0) (\<lambda>e. and_then
        (keep_rps cf (lookup mk ''BootKernelExtensions'') (\<lambda>i. fileset_bootkc_update (\<lambda>_. i)) e) (\<lambda>e.
      Go (e\<lparr>fileset_systemkc := own_path cf (fsys_uuid e) (lookup mk ''SystemKernelExtensions''),
           fileset_basesystemkc := own_path cf (fsys_uuid e) (lookup mk ''BaseSystemKernelExtensions''),
           prefer_fileset := (lookup mk ''PreferBootKernelExtensions'' = Some (PBool True))\<rparr>)))"
      by (rule uses_seq [OF uses_keep_rps rest]) (rule plain_pointers)
    with True show ?thesis by (simp add: has_fileset_def filesets_def [abs_def])
  next
    case False
    then show ?thesis
      by (intro usesI) (auto simp: filesets_def has_fileset_def in_use_def pointers_def)
  qed
qed

lemma uses_kernel_cache:
  "uses (case mkDict d of Some (PDict mk) \<Rightarrow> 1 + of_bool (has_fileset mk) | _ \<Rightarrow> 0)
     (case mkDict d of Some (PDict mk) \<Rightarrow> of_bool (\<not> has_fileset mk) | _ \<Rightarrow> 0)
     (of_bool (mkDict d \<noteq> None)) (kernel_cache cf d)"
proof (cases "mkDict d")
  case None
  then have "kernel_cache cf d = Go" by (intro ext) (simp add: kernel_cache_def)
  with None show ?thesis by (simp add: uses_Go)
next
  case (Some v)
  show ?thesis
  proof (cases "\<exists>mk. v = PDict mk")
    case True
    then obtain mk where v: "v = PDict mk" by blast
    have kp: "uses 0 0 0 (\<lambda>e. if isKernelcache d then kernel_path cf mk e else Go e)"
      using uses_kernel_path [of cf mk] uses_Go by (cases "isKernelcache d") (simp_all add: eta_contract_eq)
    show ?thesis
      unfolding Some v kernel_cache_def option.case plist.case
      apply (rule uses_eq, rule uses_seq [OF uses_boot_cache_file])
         apply (rule uses_seq [OF uses_unwatched, unfolded and_then.simps])
         apply (rule uses_seq [OF uses_filesets uses_seq [OF uses_watched uses_seq [OF kp uses_handled]]])
      by simp_all
  next
    case False
    then have "kernel_cache cf d = Finish"
      by (intro ext) (cases v; simp add: kernel_cache_def Some)
    then show ?thesis by (simp add: uses_Finish)
  qed
qed

section \<open>The dictionaries\<close>

abbreviation preboot_keys :: "string list" where
  "preboot_keys \<equiv> [''AdditionalPaths'', ''DiskLabel'']"

abbreviation booter_keys :: "string list" where
  "booter_keys \<equiv> [''EFIBooter'', ''OFBooter'']"

lemma make_misc_Go:
  assumes "i < length (miscpaths e)"
  obtains ms where "make_misc cf str i e = Go (e\<lparr>miscpaths := ms\<rparr>)" "length ms = length (miscpaths e)"
proof (cases "is_string str")
  case True
  show thesis
    by (rule that [of "(miscpaths e)[i := snd (MAKE_CACHEDPATH cf (fsys_uuid e) str (miscpaths e ! i))]"])
      (simp_all add: make_misc_def True assms)
next
  case False
  show thesis by (rule that [of "miscpaths e"]) (simp_all add: make_misc_def False)
qed

lemma make_misc_all_Go:
  "i + length ps \<le> length (miscpaths e) \<Longrightarrow>
    \<exists>ms. make_misc_all cf ps i e = Go (e\<lparr>miscpaths := ms\<rparr>) \<and> length ms = length (miscpaths e)"
proof (induction ps arbitrary: i e)
  case Nil
  then show ?case by (auto intro!: exI [of _ "miscpaths e"])
next
  case (Cons p ps)
  have "i < length (miscpaths e)" using Cons.prems by simp
  then obtain ms where
    ms: "make_misc cf (Some p) i e = Go (e\<lparr>miscpaths := ms\<rparr>)" "length ms = length (miscpaths e)"
    by (rule make_misc_Go)
  with Cons.IH [of "Suc i" "e\<lparr>miscpaths := ms\<rparr>"] Cons.prems show ?case by auto
qed

text \<open>The part of the struct that the first two dictionaries leave alone.\<close>

definition same_slots :: "extraction \<Rightarrow> extraction \<Rightarrow> bool" where
  "same_slots e e' \<longleftrightarrow> rpsindex e' = rpsindex e \<and> pointers e' = pointers e"

fun keys_left :: "plist option \<Rightarrow> string list \<Rightarrow> int" where
  "keys_left (Some (PDict d)) ks = int (length d) - int (given d ks) - 1"
| "keys_left _ ks = 0"

lemma pointers_upd [simp]:
  "pointers (e\<lparr>nmisc := n\<rparr>) = pointers e" "pointers (e\<lparr>miscpaths := ms\<rparr>) = pointers e"
  "pointers (e\<lparr>label := l\<rparr>) = pointers e" "pointers (e\<lparr>efibooter := p\<rparr>) = pointers e"
  "pointers (e\<lparr>ofbooter := p\<rparr>) = pointers e" "pointers (e\<lparr>nrps := n\<rparr>) = pointers e"
  "pointers (e\<lparr>rpspaths := ps\<rparr>) = pointers e"
  by (simp_all add: pointers_def)

lemma counting [simp]:
  "keyCount (handled e) = keyCount e - 1" "rpsindex (handled e) = rpsindex e" "pointers (handled e) = pointers e"
  "miscpaths (handled e) = miscpaths e" "nrps (handled e) = nrps e" "rpspaths (handled e) = rpspaths e"
  "keyCount (more_keys d e) = keyCount e + int (length d)" "rpsindex (more_keys d e) = rpsindex e"
  "pointers (more_keys d e) = pointers e" "rpspaths (more_keys d e) = rpspaths e"
  by (simp_all add: handled_def more_keys_def pointers_def)

lemma flow_cases [simp]:
  "keys_left None ks = 0" "same_slots e e"
  by (simp_all add: same_slots_def)

lemma preboot_label_Go:
  assumes "i < length (miscpaths e) \<or> lookup d ''DiskLabel'' = None"
  shows "\<exists>e'. preboot_label cf d i e = Go e' \<and> same_slots e e' \<and>
    keyCount e' = keyCount e - 1 - of_bool (lookup d ''DiskLabel'' \<noteq> None)"
proof (cases "lookup d ''DiskLabel''")
  case (Some v)
  with assms show ?thesis by (simp add: preboot_label_def make_misc_def same_slots_def)
qed (simp add: preboot_label_def same_slots_def)

lemma given_2: "given d [k, l] = of_bool (lookup d k \<noteq> None) + of_bool (lookup d l \<noteq> None)"
  by simp

lemma preboot_counts:
  "preboot cf pl e \<noteq> Overrun \<and>
    (\<forall>e'. preboot cf pl e = Go e' \<longrightarrow> same_slots e e' \<and> keyCount e' = keyCount e + keys_left pl preboot_keys)"
proof (cases "\<exists>d. pl = Some (PDict d)")
  case False
  then show ?thesis
    by (cases pl; cases "the pl") (auto simp: preboot_def)
next
  case True
  then obtain d where pl: "pl = Some (PDict d)" by blast
  have le: "of_bool (lookup d ''AdditionalPaths'' \<noteq> None) + of_bool (lookup d ''DiskLabel'' \<noteq> None) \<le> length d"
    using given_le [of preboot_keys d] by (simp add: given_2)
  show ?thesis
  proof (cases "lookup d ''AdditionalPaths''")
    case None
    let ?e = "(more_keys d e)\<lparr>nmisc := length d, miscpaths := replicate (length d) zeroed\<rparr>"
    have "0 < length (miscpaths ?e) \<or> lookup d ''DiskLabel'' = None"
      using le by (cases "lookup d ''DiskLabel''") auto
    from preboot_label_Go [OF this, of cf] obtain e' where
      "preboot_label cf d 0 ?e = Go e'" "same_slots ?e e'"
      "keyCount e' = keyCount ?e - 1 - of_bool (lookup d ''DiskLabel'' \<noteq> None)" by blast
    with None show ?thesis
      by (simp add: pl preboot_def alloc_misc_def Let_def same_slots_def given_2)
  next
    case (Some v)
    show ?thesis
    proof (cases "\<exists>ps. v = PArray ps")
      case True
      then obtain ps where v: "v = PArray ps" by blast
      let ?n = "length d + length ps - 1"
      let ?e = "(more_keys d e)\<lparr>nmisc := ?n, miscpaths := replicate ?n zeroed\<rparr>"
      have "0 + length ps \<le> length (miscpaths ?e)"
        using le Some by simp
      from make_misc_all_Go [OF this, of cf] obtain ms where
        ms: "make_misc_all cf ps 0 ?e = Go (?e\<lparr>miscpaths := ms\<rparr>)" "length ms = ?n" by auto
      let ?f = "handled (?e\<lparr>miscpaths := ms\<rparr>)"
      have "length ps < length (miscpaths ?f) \<or> lookup d ''DiskLabel'' = None"
        using ms(2) le Some by (cases "lookup d ''DiskLabel''") auto
      from preboot_label_Go [OF this, of cf] obtain e' where
        "preboot_label cf d (length ps) ?f = Go e'" "same_slots ?f e'"
        "keyCount e' = keyCount ?f - 1 - of_bool (lookup d ''DiskLabel'' \<noteq> None)" by blast
      with ms(1) Some v show ?thesis
        by (simp add: pl preboot_def alloc_misc_def Let_def same_slots_def given_2)
    qed (cases v; simp add: pl preboot_def Let_def Some)
  qed
qed

lemma booters_counts:
  "booters cf pl e \<noteq> Overrun \<and>
    (\<forall>e'. booters cf pl e = Go e' \<longrightarrow> same_slots e e' \<and> keyCount e' = keyCount e + keys_left pl booter_keys)"
proof (cases "\<exists>d. pl = Some (PDict d)")
  case False
  then show ?thesis
    by (cases pl; cases "the pl") (auto simp: booters_def)
next
  case True
  then obtain d where pl: "pl = Some (PDict d)" by blast
  show ?thesis
    by (cases "lookup d ''EFIBooter''"; cases "lookup d ''OFBooter''")
      (simp_all add: pl booters_def Let_def same_slots_def given_2)
qed


lemma mkDict_key:
  assumes "mkDict d = Some v"
  obtains k where "lookup d k = Some v" "k \<in> set (kc_versions @ [''MKext2'', ''MKext''])"
proof -
  have "first_of d ks = Some v \<Longrightarrow> \<exists>k \<in> set ks. lookup d k = Some v" for ks
    by (induction ks) (auto split: option.splits)
  with assms that show thesis unfolding mkDict_def by blast
qed

definition post_known :: "dict \<Rightarrow> nat" where
  "post_known d = given d [''AdditionalPaths'', ''BootConfig'', ''EncryptedRoot''] + of_bool (mkDict d \<noteq> None)"

lemma post_known_le: "post_known d \<le> length d"
proof (cases "mkDict d")
  case None
  then show ?thesis using given_le [of "[''AdditionalPaths'', ''BootConfig'', ''EncryptedRoot'']" d]
    by (simp add: post_known_def)
next
  case (Some v)
  then obtain k where k: "lookup d k = Some v" "k \<in> set (kc_versions @ [''MKext2'', ''MKext''])"
    by (rule mkDict_key)
  then have "distinct [''AdditionalPaths'', ''BootConfig'', ''EncryptedRoot'', k]" by auto
  from given_le [OF this, of d] k(1) Some show ?thesis
    by (simp add: post_known_def)
qed

text \<open>What the second half of \<open>postboot\<close> takes.\<close>

definition kernel_used :: "dict \<Rightarrow> nat" where
  "kernel_used d = (case mkDict d of Some (PDict mk) \<Rightarrow> 1 + of_bool (has_fileset mk) | _ \<Rightarrow> 0)"

definition kernel_spare :: "dict \<Rightarrow> nat" where
  "kernel_spare d = (case mkDict d of Some (PDict mk) \<Rightarrow> of_bool (\<not> has_fileset mk) | _ \<Rightarrow> 0)"

definition post_used :: "dict \<Rightarrow> plist list option \<Rightarrow> dict option \<Rightarrow> nat" where
  "post_used d aps er = (case aps of None \<Rightarrow> 0 | Some ps \<Rightarrow> length ps) + of_bool (lookup d ''BootConfig'' \<noteq> None) +
     (case er of None \<Rightarrow> 0 | Some d \<Rightarrow> root_used d) + kernel_used d"

definition root_left :: "dict option \<Rightarrow> int" where
  "root_left er = (case er of None \<Rightarrow> 0 | Some d \<Rightarrow> int (length d) - int (root_known d))"

lemma uses_post:
  "uses (post_used d aps er) (kernel_spare d)
     (of_bool (aps \<noteq> None) + of_bool (lookup d ''BootConfig'' \<noteq> None) + of_bool (er \<noteq> None) +
       of_bool (mkDict d \<noteq> None) + 1 - root_left er)
     (\<lambda>e. and_then (additional cf aps e) (\<lambda>e.
        and_then (optional_rps cf (lookup d ''BootConfig'') (\<lambda>i. bootconfig_update (\<lambda>_. i)) e) (\<lambda>e.
        and_then (encrypted_root cf er e) (\<lambda>e.
          if kcacheKeys d > 1 then Finish e
          else and_then (kernel_cache cf d e) (\<lambda>e. Go (handled e))))))"
proof -
  have last: "uses (kernel_used d) (kernel_spare d) (of_bool (mkDict d \<noteq> None) + 1) (\<lambda>e. if kcacheKeys d > 1
      then Finish e else and_then (kernel_cache cf d e) (\<lambda>e. Go (handled e)))"
    using uses_then [OF uses_kernel_cache [of d cf] uses_handled add_0_right add_0_right order_refl]
    unfolding kernel_used_def kernel_spare_def
    by (cases "kcacheKeys d > 1") (simp_all add: uses_Finish [unfolded eta_contract_eq])
  show ?thesis
    by (rule uses_eq, rule uses_seq [OF uses_additional],
        rule uses_seq [OF uses_optional_rps uses_seq [OF uses_encrypted_root last]], rule plain_pointers)
      (auto simp: post_used_def root_left_def split: option.splits)
qed


text \<open>The plist has a slot for every path that is entered: the localized resources have a source, and a
  fileset comes with the version that a slot is reserved for.\<close>

definition slots_suffice :: "dict \<Rightarrow> bool" where
  "slots_suffice bcDict =
     (case lookup bcDict ''PostBootPaths'' of
        Some (PDict d) \<Rightarrow>
          (case lookup d ''EncryptedRoot'' of
             Some (PDict er) \<Rightarrow>
               lookup er ''LocalizedResourcesCache'' \<noteq> None \<longrightarrow> lookup er ''LocalizationSource'' \<noteq> None
           | _ \<Rightarrow> True) \<and>
          (case mkDict d of
             Some (PDict mk) \<Rightarrow> has_fileset mk \<longrightarrow> lookup d ''Kernelcache v1.6'' \<noteq> None
           | _ \<Rightarrow> True)
      | _ \<Rightarrow> True)"

lemma as_array_Some: "as_array v = Some aps \<Longrightarrow> (aps \<noteq> None) = (v \<noteq> None)"
  by (cases v rule: as_array.cases) auto

lemma as_dict_Some: "as_dict v = Some er \<Longrightarrow> v = map_option PDict er"
  by (cases v rule: as_dict.cases) auto

lemma root_used_fits:
  "lookup er ''LocalizedResourcesCache'' \<noteq> None \<longrightarrow> lookup er ''LocalizationSource'' \<noteq> None \<Longrightarrow>
    root_used er \<le> (if lookup er ''LocalizationSource'' = None then 2 else 3)"
  by (auto simp: root_used_def)

lemma post_used_fits:
  assumes aps: "as_array (lookup d ''AdditionalPaths'') = Some aps"
    and er: "as_dict (lookup d ''EncryptedRoot'') = Some er"
    and suff: "slots_suffice bc" "lookup bc ''PostBootPaths'' = Some (PDict d)"
  shows "post_used d aps er \<le> rps_slots d aps er"
proof -
  have root: "(case er of None \<Rightarrow> 0 | Some d \<Rightarrow> root_used d) \<le>
      (case er of None \<Rightarrow> 0 | Some er \<Rightarrow> if lookup er ''LocalizationSource'' = None then 1 else 2) +
      of_bool (er \<noteq> None)"
    using as_dict_Some [OF er] suff root_used_fits [of "the er"]
    by (cases er) (auto simp: slots_suffice_def)
  have kernel: "kernel_used d \<le> of_bool (mkDict d \<noteq> None) + (if lookup d ''Kernelcache v1.6'' = None then 0 else 1)"
    using suff by (auto simp: slots_suffice_def kernel_used_def split: option.splits plist.splits)
  have "post_known d \<le> length d" by (rule post_known_le)
  then show ?thesis
    using root kernel as_array_Some [OF aps] as_dict_Some [OF er]
    by (cases aps; cases er) (simp_all add: post_used_def rps_slots_def additional_slots_def post_known_def)
qed

definition post_facts :: "dict \<Rightarrow> plist list option \<Rightarrow> dict option \<Rightarrow> extraction \<Rightarrow> extraction \<Rightarrow> bool" where
  "post_facts d aps er e e' \<longleftrightarrow>
     rpsindex e' = post_used d aps er \<and> nrps e' = rps_slots d aps er - kernel_spare d \<and>
     length (rpspaths e') = rps_slots d aps er \<and> in_use e' \<and>
     keyCount e' \<ge> keyCount e + (int (length d) - int (post_known d)) + root_left er - 1"

lemma postboot_paths_counts:
  assumes start: "rpsindex e = 0" "pointers e = {}"
    and aps: "as_array (lookup d ''AdditionalPaths'') = Some aps"
    and er: "as_dict (lookup d ''EncryptedRoot'') = Some er"
  shows "post_used d aps er \<le> rps_slots d aps er \<Longrightarrow> postboot_paths cf d aps er e \<noteq> Overrun"
    and "postboot_paths cf d aps er (more_keys d e\<lparr>nrps := n\<rparr>) = Go e' \<Longrightarrow> post_facts d aps er e e'"
proof -
  have run: "postboot_paths cf d aps er e = (if too_many (rps_slots d aps er)
      then Finish (e\<lparr>nrps := rps_slots d aps er\<rparr>)
      else (\<lambda>e. and_then (additional cf aps e) (\<lambda>e.
        and_then (optional_rps cf (lookup d ''BootConfig'') (\<lambda>i. bootconfig_update (\<lambda>_. i)) e) (\<lambda>e.
        and_then (encrypted_root cf er e) (\<lambda>e.
          if kcacheKeys d > 1 then Finish e
          else and_then (kernel_cache cf d e) (\<lambda>e. Go (handled e))))))
        (e\<lparr>nrps := rps_slots d aps er, rpspaths := replicate (rps_slots d aps er) zeroed\<rparr>))" for e
    by (simp add: postboot_paths_def alloc_rps_def Let_def)
  {
    assume "post_used d aps er \<le> rps_slots d aps er"
    then show "postboot_paths cf d aps er e \<noteq> Overrun"
      unfolding run using usesD(1) [OF uses_post [of d aps er cf]] start by auto
  next
    assume go: "postboot_paths cf d aps er (more_keys d e\<lparr>nrps := n\<rparr>) = Go e'"
    let ?e = "more_keys d e\<lparr>nrps := rps_slots d aps er, rpspaths := replicate (rps_slots d aps er) zeroed\<rparr>"
    have "rpsindex ?e = 0" "in_use ?e" "keyCount ?e = keyCount e + int (length d)"
      using start by (simp_all add: in_use_def)
    moreover have "int (post_known d) = of_bool (aps \<noteq> None) + of_bool (lookup d ''BootConfig'' \<noteq> None) +
        of_bool (er \<noteq> None) + of_bool (mkDict d \<noteq> None)"
      using as_array_Some [OF aps] as_dict_Some [OF er] by (simp add: post_known_def)
    ultimately show "post_facts d aps er e e'"
      using go usesD(2) [OF uses_post [of d aps er cf], of ?e e']
      unfolding run post_facts_def by (auto split: if_splits)
  }
qed

lemma postboot_counts:
  assumes start: "rpsindex e = 0" "pointers e = {}"
  shows "slots_suffice bc \<Longrightarrow> postboot cf (lookup bc ''PostBootPaths'') e \<noteq> Overrun"
    and "postboot cf pl e = Go e' \<Longrightarrow> pl = None \<and> e' = e \<or> (\<exists>d aps er. pl = Some (PDict d) \<and>
      as_array (lookup d ''AdditionalPaths'') = Some aps \<and> as_dict (lookup d ''EncryptedRoot'') = Some er \<and>
      post_facts d aps er e e')"
proof -
  assume "slots_suffice bc"
  show "postboot cf (lookup bc ''PostBootPaths'') e \<noteq> Overrun"
  proof (cases "\<exists>d. lookup bc ''PostBootPaths'' = Some (PDict d)")
    case False
    then show ?thesis
      by (cases "lookup bc ''PostBootPaths''"; cases "the (lookup bc ''PostBootPaths'')") (auto simp: postboot_def)
  next
    case True
    then obtain d where d: "lookup bc ''PostBootPaths'' = Some (PDict d)" by blast
    have "postboot_paths cf d aps er (more_keys d e\<lparr>nrps := length d\<rparr>) \<noteq> Overrun"
      if "as_array (lookup d ''AdditionalPaths'') = Some aps" "as_dict (lookup d ''EncryptedRoot'') = Some er"
      for aps er
      by (rule postboot_paths_counts(1) [OF _ _ that post_used_fits [OF that \<open>slots_suffice bc\<close> d]])
        (simp_all add: start)
    then show ?thesis by (auto simp: d postboot_def Let_def split: option.split)
  qed
next
  assume go: "postboot cf pl e = Go e'"
  show "pl = None \<and> e' = e \<or> (\<exists>d aps er. pl = Some (PDict d) \<and>
      as_array (lookup d ''AdditionalPaths'') = Some aps \<and> as_dict (lookup d ''EncryptedRoot'') = Some er \<and>
      post_facts d aps er e e')"
  proof (cases "\<exists>d. pl = Some (PDict d)")
    case False
    with go show ?thesis by (cases pl; cases "the pl") (auto simp: postboot_def)
  next
    case True
    then obtain d where pl: "pl = Some (PDict d)" by blast
    with go obtain aps er where
      "as_array (lookup d ''AdditionalPaths'') = Some aps" "as_dict (lookup d ''EncryptedRoot'') = Some er"
      "postboot_paths cf d aps er (more_keys d e\<lparr>nrps := length d\<rparr>) = Go e'"
      by (auto simp: postboot_def Let_def split: option.splits)
    with postboot_paths_counts(2) [OF start] pl show ?thesis by blast
  qed
qed


section \<open>The whole property list\<close>

lemma start_counts:
  "rpsindex (start_extraction c bc) = 0" "pointers (start_extraction c bc) = pointers c"
  "keyCount (start_extraction c bc) = int (length bc)"
  by (simp_all add: start_extraction_def boot_struct.extend_def drop_exts_def pointers_def)

lemma pointers_truncate [simp]: "pointers (boot_struct.truncate e\<lparr>cacheinfo := x\<rparr>) = pointers e"
  by (simp add: pointers_def boot_struct.truncate_def)

lemma keys_left_ge: "keys_left pl ks \<ge> - of_bool (pl \<noteq> None)" if "distinct ks"
proof (cases "\<exists>d. pl = Some (PDict d)")
  case True
  then obtain d where "pl = Some (PDict d)" by blast
  with given_le [OF that, of d] show ?thesis by simp
next
  case False
  then show ?thesis by (cases pl; cases "the pl") auto
qed

lemma extraction_flow_bounds:
  assumes "slots_suffice bc" "pointers c = {}"
  shows "extraction_flow cf c bc \<noteq> Overrun"
proof -
  have post: "postboot cf (lookup bc ''PostBootPaths'') e2 \<noteq> Overrun"
    if "preboot cf pl (start_extraction c bc) = Go e1" "booters cf pl' e1 = Go e2" for pl pl' e1 e2
    by (rule postboot_counts(1) [OF _ _ assms(1)])
      (use preboot_counts [of cf pl] booters_counts [of cf pl'] that assms(2) in
        \<open>auto simp: same_slots_def start_counts\<close>)
  then show ?thesis
    using preboot_counts [of cf] booters_counts [of cf]
    unfolding extraction_flow_def and_then_Overrun by blast
qed

lemma extraction_flow_Go:
  assumes "extraction_flow cf c bc = Go e" "pointers c = {}"
  obtains d aps er where "lookup bc ''PostBootPaths'' = Some (PDict d)"
      "as_array (lookup d ''AdditionalPaths'') = Some aps" "as_dict (lookup d ''EncryptedRoot'') = Some er"
      "rpsindex e = post_used d aps er" "nrps e = rps_slots d aps er - kernel_spare d"
      "length (rpspaths e) = rps_slots d aps er" "in_use e"
      "keyCount e \<ge> (int (length d) - int (post_known d)) + root_left er"
    | "lookup bc ''PostBootPaths'' = None" "rpsindex e = 0" "pointers e = {}"
proof -
  from assms(1) obtain e1 e2 e3 where
    e1: "preboot cf (lookup bc ''PreBootPaths'') (start_extraction c bc) = Go e1" and
    e2: "booters cf (lookup bc ''BooterPaths'') e1 = Go e2" and
    e3: "postboot cf (lookup bc ''PostBootPaths'') e2 = Go e3" and
    e: "e = bless2 (lookup bc ''bless2'') e3"
    by (auto simp: extraction_flow_def and_then_Go)
  have s2: "rpsindex e2 = 0" "pointers e2 = {}" and
    k2: "keyCount e2 = int (length bc) + keys_left (lookup bc ''PreBootPaths'') preboot_keys +
      keys_left (lookup bc ''BooterPaths'') booter_keys"
  proof -
    from preboot_counts e1 have "same_slots (start_extraction c bc) e1"
      "keyCount e1 = int (length bc) + keys_left (lookup bc ''PreBootPaths'') preboot_keys"
      by (metis start_counts(3))+
    moreover from booters_counts e2 have "same_slots e1 e2"
      "keyCount e2 = keyCount e1 + keys_left (lookup bc ''BooterPaths'') booter_keys"
      by metis+
    ultimately show "rpsindex e2 = 0" "pointers e2 = {}"
      "keyCount e2 = int (length bc) + keys_left (lookup bc ''PreBootPaths'') preboot_keys +
        keys_left (lookup bc ''BooterPaths'') booter_keys"
      using assms(2) by (simp_all add: same_slots_def start_counts)
  qed
  have bless: "rpsindex e = rpsindex e3" "nrps e = nrps e3" "rpspaths e = rpspaths e3" "in_use e = in_use e3"
    "pointers e = pointers e3" "keyCount e = keyCount e3 - of_bool (lookup bc ''bless2'' \<noteq> None)"
    by (simp_all add: e bless2_def in_use_def)
  have "of_bool (lookup bc ''PreBootPaths'' \<noteq> None) + of_bool (lookup bc ''BooterPaths'' \<noteq> None) +
      of_bool (lookup bc ''PostBootPaths'' \<noteq> None) + of_bool (lookup bc ''bless2'' \<noteq> None) \<le> length bc"
    using given_le [of "[''PreBootPaths'', ''BooterPaths'', ''PostBootPaths'', ''bless2'']" bc] by simp
  then have "int (of_bool (lookup bc ''PreBootPaths'' \<noteq> None) + of_bool (lookup bc ''BooterPaths'' \<noteq> None) +
      of_bool (lookup bc ''PostBootPaths'' \<noteq> None) + of_bool (lookup bc ''bless2'' \<noteq> None)) \<le> int (length bc)"
    by (simp only: of_nat_le_iff)
  then have top: "of_bool (lookup bc ''PreBootPaths'' \<noteq> None) + of_bool (lookup bc ''BooterPaths'' \<noteq> None) +
      of_bool (lookup bc ''PostBootPaths'' \<noteq> None) + of_bool (lookup bc ''bless2'' \<noteq> None) \<le> int (length bc)"
    by (simp only: of_nat_add of_nat_of_bool)
  have left: "keys_left (lookup bc ''PreBootPaths'') preboot_keys \<ge> - of_bool (lookup bc ''PreBootPaths'' \<noteq> None)"
    "keys_left (lookup bc ''BooterPaths'') booter_keys \<ge> - of_bool (lookup bc ''BooterPaths'' \<noteq> None)"
    by (rule keys_left_ge, simp)+
  from postboot_counts(2) [OF s2 e3] show thesis
  proof (elim disjE exE conjE)
    assume "lookup bc ''PostBootPaths'' = None" "e3 = e2"
    with that(2) bless s2 show thesis by simp
  next
    fix d aps er
    assume d: "lookup bc ''PostBootPaths'' = Some (PDict d)" and
      shape: "as_array (lookup d ''AdditionalPaths'') = Some aps" "as_dict (lookup d ''EncryptedRoot'') = Some er" and
      facts: "post_facts d aps er e2 e3"
    have "keyCount e \<ge> (int (length d) - int (post_known d)) + root_left er"
    proof -
      have "keyCount e3 \<ge> keyCount e2 + (int (length d) - int (post_known d)) + root_left er - 1"
        using facts by (simp add: post_facts_def)
      moreover have "of_bool (lookup bc ''PostBootPaths'' \<noteq> None) = (1 :: int)" by (simp add: d)
      ultimately show ?thesis using k2 top left bless(6) by linarith
    qed
    with that(1) [OF d shape] facts bless show thesis by (simp add: post_facts_def)
  qed
qed




text \<open>A volume with a fileset, as macOS 11 describes it, for a Core Foundation that takes what fits.\<close>

definition plain_cf :: cf where
  "plain_cf = \<lparr>fsrep = (\<lambda>n s. (length s < n, if length s < n then s else [])),
     kernel_dir = (\<lambda>p. Some (''Kernels'', [''kernel'', ''kernel.development''])), fresh_block = zeroed\<rparr>"

definition fresh_struct :: boot_struct where
  "fresh_struct = \<lparr>fsys_uuid = ''U'', root = ''/v'', cachefd = 3, cacheinfo = None, kernelpath = [],
     nWatchedExts = 0, watchedExts = [], nUnwatchedExts = 0, unwatchedExts = [],
     locSource = [], locPref = [], bgImage = [], nrps = 0, rpspaths = [], nmisc = 0, miscpaths = [],
     efibooter = zeroed, ofbooter = zeroed, readonly_kext_boot_cache_file = None, kext_boot_cache_file = None,
     bootconfig = None, efidefrsrcs = None, efiloccache = None, label = None, erpropcache = None,
     erpropTSOnly = False, fileset_bootkc = None, fileset_systemkc = None, fileset_basesystemkc = None,
     prefer_fileset = False, kernelsCount = 0, extraKernelCachePaths = []\<rparr>"

definition sample_root :: dict where
  "sample_root = [(''EncryptedPropertyCache'', PString ''/e''), (''DefaultResourcesDir'', PString ''/d''),
     (''RootVolumePropertyCache'', PBool False), (''LocalizedResourcesCache'', PString ''/l''),
     (''LocalizationSource'', PString ''/s''), (''LanguagesPref'', PString ''/p''),
     (''BackgroundImage'', PString ''/b'')]"

definition sample_kernel :: dict where
  "sample_kernel = [(''Path'', PString ''/k''), (''KernelPath'', PString ''/K''),
     (''ExtensionsDir'', PArray [PString ''/S'', PString ''/L'']), (''BootKernelExtensions'', PString ''/B.kc'')]"

definition sample_plist :: "string \<Rightarrow> dict \<Rightarrow> dict \<Rightarrow> dict" where
  "sample_plist version er mk =
     [(''PreBootPaths'', PDict [(''AdditionalPaths'', PArray [PString ''/a'']), (''DiskLabel'', PString ''/x'')]),
      (''BooterPaths'', PDict [(''EFIBooter'', PString ''/boot.efi'')]),
      (''PostBootPaths'', PDict [(''AdditionalPaths'', PArray [PString ''/i'', PNumber 1]),
        (''BootConfig'', PString ''/c''), (''EncryptedRoot'', PDict er), (version, PDict mk)])]"

abbreviation fileset_version :: string where "fileset_version \<equiv> ''Kernelcache v1.6''"

lemmas sample_defs = plain_cf_def fresh_struct_def sample_root_def sample_kernel_def sample_plist_def

fun outcome :: "extracted \<Rightarrow> int option" where
  "outcome (Extracted r c) = Some r"
| "outcome Corrupted = None"

lemma sample_accepted: "outcome (extractProps plain_cf fresh_struct (sample_plist fileset_version sample_root sample_kernel)) = Some 0"
  by code_simp

lemma sample_old: "outcome (extractProps plain_cf fresh_struct
   (sample_plist ''Kernelcache v1.5'' sample_root (butlast sample_kernel))) = Some EFTYPE"
  by code_simp

text \<open>Entries of a wrong type are accepted, and leave an empty path behind.\<close>

lemma wrong_type_accepted:
  "(case extractProps plain_cf fresh_struct (sample_plist fileset_version sample_root sample_kernel) of
     Extracted r c \<Rightarrow> r = 0 \<and> rpath (rpspaths c ! 1) = [] \<and> tspath (rpspaths c ! 1) = []
   | Corrupted \<Rightarrow> False)"
  by code_simp

text \<open>Both ways to run out of slots.\<close>

lemma fileset_overruns:
  "outcome (extractProps plain_cf fresh_struct
     (sample_plist ''Kernelcache v1.5'' sample_root sample_kernel)) = None"
  by code_simp

lemma localization_overruns:
  "outcome (extractProps plain_cf fresh_struct [(''PostBootPaths'', PDict [(''EncryptedRoot'',
     PDict [(''EncryptedPropertyCache'', PString ''/e''), (''DefaultResourcesDir'', PString ''/d''),
       (''LocalizedResourcesCache'', PString ''/l'')])])]) = None"
  by code_simp

text \<open>The number of packed paths is right exactly when all of them are strings that fit.\<close>

lemma packed_count:
  "length (fst (createPackedPathsFromCFArray cf ps)) = snd (createPackedPathsFromCFArray cf ps) \<longleftrightarrow>
    (\<forall>p \<in> set ps. \<exists>s. p = PString s \<and> fst (fsrep cf PATH_MAX s))"
proof -
  have "length (pack_paths cf ps) \<le> length ps \<and> (length (pack_paths cf ps) = length ps \<longleftrightarrow>
    (\<forall>p \<in> set ps. \<exists>s. p = PString s \<and> fst (fsrep cf PATH_MAX s)))"
    by (induction cf ps rule: pack_paths.induct) (auto split: prod.splits)
  then show ?thesis by (simp add: createPackedPathsFromCFArray_def)
qed

text \<open>The stamp of a path always fits, whatever Core Foundation put into the buffer for it.\<close>

lemma length_stamp_name: "length (stamp_name uuid p) = 45 + length uuid + length p"
  by (simp add: stamp_name_def gsub_def)

lemma MAKE_CACHEDPATH_0:
  assumes "\<And>s. fst (fsrep cf BCPATH_MAX s) \<Longrightarrow> length (snd (fsrep cf BCPATH_MAX s)) < BCPATH_MAX"
    and "length uuid < NCHARSUUID"
  shows "fst (MAKE_CACHEDPATH cf uuid (Some (PString s)) p) = 0 \<longleftrightarrow> fst (fsrep cf BCPATH_MAX s)"
    and "fst (fsrep cf BCPATH_MAX s) \<Longrightarrow> tspath (snd (MAKE_CACHEDPATH cf uuid (Some (PString s)) p)) =
      stamp_name uuid (rpath (snd (MAKE_CACHEDPATH cf uuid (Some (PString s)) p)))"
proof -
  obtain ok buf where rep: "fsrep cf BCPATH_MAX s = (ok, buf)" by fastforce
  have fits: "length buf < NAME_MAX" "length (stamp_name uuid buf) < TSPATH_MAX" if ok
    using assms(1) [of s] assms(2) rep that
    by (simp_all add: length_stamp_name BCPATH_MAX_def NAME_MAX_def TSPATH_MAX_def NCHARSUUID_def)
  then show "fst (MAKE_CACHEDPATH cf uuid (Some (PString s)) p) = 0 \<longleftrightarrow> fst (fsrep cf BCPATH_MAX s)"
    by (auto simp: MAKE_CACHEDPATH_def rep errno_defs Let_def not_le)
  show "tspath (snd (MAKE_CACHEDPATH cf uuid (Some (PString s)) p)) =
      stamp_name uuid (rpath (snd (MAKE_CACHEDPATH cf uuid (Some (PString s)) p)))"
    if "fst (fsrep cf BCPATH_MAX s)"
    using that fits by (simp add: MAKE_CACHEDPATH_def rep Let_def)
qed

text \<open>Paths without colons have their own stamps.\<close>

lemma stamp_name_inj:
  assumes "CHR '':'' \<notin> set p" "CHR '':'' \<notin> set q" "stamp_name uuid p = stamp_name uuid q"
  shows "p = q"
proof -
  have inj: "CHR '':'' \<notin> set p \<Longrightarrow> CHR '':'' \<notin> set q \<Longrightarrow>
      gsub (CHR ''/'') (CHR '':'') p = gsub (CHR ''/'') (CHR '':'') q \<Longrightarrow> p = q" for p q
  proof (induction p arbitrary: q)
    case (Cons c p)
    then show ?case by (cases q) (auto simp: gsub_def split: if_splits)
  qed (simp add: gsub_def)
  have "gsub (CHR ''/'') (CHR '':'') p = gsub (CHR ''/'') (CHR '':'') q"
    using assms(3) unfolding stamp_name_def by (simp only: same_append_eq)
  with assms(1,2) show ?thesis by (rule inj)
qed

text \<open>C14. \<open>extractProps\<close>: the array rpspaths is not overrun while bootcaches.plist is read, when the plist has a source for localized resources and a fileset only in the version that a slot is reserved for.\<close>

theorem extractProps_in_bounds:
  assumes "slots_suffice bcDict" "pointers c = {}"
  shows "extractProps cf c bcDict \<noteq> Corrupted"
  using extraction_flow_bounds [OF assms, of cf]
  by (auto simp: extractProps_def split: flow.splits)

theorem extractProps_in_bounds_witness:
  "extractProps plain_cf fresh_struct (sample_plist fileset_version sample_root sample_kernel) \<noteq> Corrupted"
  by (rule extractProps_in_bounds) (code_simp, simp add: fresh_struct_def pointers_def)

text \<open>C18. \<open>extractProps\<close>: when a property list is accepted, every special path (boot config, prelinked kernel, fileset, property cache, resources) points into the slots of rpspaths that are in use, and these were allocated.\<close>

theorem extractProps_pointers:
  assumes "extractProps cf c bcDict = Extracted 0 c'" "pointers c = {}"
  shows "(\<forall>i \<in> pointers c'. i < nrps c') \<and> (pointers c' \<noteq> {} \<longrightarrow> nrps c' \<le> length (rpspaths c'))"
proof -
  from assms(1) obtain e where e: "extraction_flow cf c bcDict = Go e" "rpsindex e = nrps e"
    and c': "c' = boot_struct.truncate e\<lparr>cacheinfo := Some bcDict\<rparr>"
    by (auto simp: extractProps_def errno_defs split: flow.splits if_splits)
  have same: "nrps c' = nrps e" "rpspaths c' = rpspaths e" "pointers c' = pointers e"
    unfolding c' by (simp_all add: boot_struct.truncate_def pointers_def)
  from e(1) assms(2) show ?thesis
    by (cases rule: extraction_flow_Go) (use e(2) in \<open>auto simp: same in_use_def\<close>)
qed

theorem extractProps_pointers_witness:
  "\<exists>c'. extractProps plain_cf fresh_struct (sample_plist fileset_version sample_root sample_kernel) = Extracted 0 c' \<and>
     (\<forall>i \<in> pointers c'. i < nrps c')"
proof -
  obtain c' where c': "extractProps plain_cf fresh_struct (sample_plist fileset_version sample_root sample_kernel) =
      Extracted 0 c'"
    using sample_accepted by (auto elim: outcome.elims)
  from extractProps_pointers [OF this] c' show ?thesis by (auto simp: fresh_struct_def pointers_def)
qed




end
