(* ===== verification/BootStampsProps.thy ===== *)
theory BootStampsProps
  imports BootStamps BootCachesProps SafeEval SafeShort
begin

text \<open>
  What the stamps promise. Programs that change the disk and the times in given places only are an instance
  of \<open>io_relation\<close>; what a stamp is given lasts while only other places are touched (\<open>lasting\<close>), so that after
  all the stamps of a struct are written, or removed, every one of them is as it was left.
\<close>

declare run_gets [simp]

section \<open>What the stamps leave alone\<close>

text \<open>A program that changes the disk and the times in the places of \<open>F\<close> only.\<close>

definition restamps :: "foot set \<Rightarrow> stamp_os \<Rightarrow> stamp_os \<Rightarrow> bool" where
  "restamps F s s' \<longleftrightarrow> world s' = world s \<and> mount_rdonly s' = mount_rdonly s \<and>
     (\<forall>q. At q \<notin> F \<longrightarrow> ftimes s' q = ftimes s q) \<and>
     (dir_at (disk s) [] \<longrightarrow> dir_at (disk s') [] \<and> agree F (disk s) (disk s'))"

interpretation restamping: io_relation "restamps F" for F
  by unfold_locales (auto simp: restamps_def intro: agree_trans)

abbreviation stamps_in :: "foot set \<Rightarrow> 'a stamping \<Rightarrow> bool" where
  "stamps_in F m \<equiv> state_io_rel (restamps F) m"

lemmas stamp_flow = restamping.io_return restamping.io_gets restamping.io_bind restamping.io_check restamping.io_need

lemma stamps_within:
  assumes "\<And>w. within w ([], id) F m" "apart F []"
  shows "stamps_in F m"
proof (rule state_io_relI)
  fix s r s' assume "run_state m s = (r, s')"
  with assms(1) [of "world s"] have "moves (world s) ([], id) F s s'" by (auto dest: state_io_relD)
  with assms(2) show "restamps F s s'"
    by (cases s; cases s') (auto simp: moves_def restamps_def)
qed

lemma stamps_If: "(b \<Longrightarrow> stamps_in F m) \<Longrightarrow> (\<not> b \<Longrightarrow> stamps_in F n) \<Longrightarrow> stamps_in F (if b then m else n)"
  by simp

lemma stamps_set_times: "At p \<in> F \<Longrightarrow> stamps_in F (set_times p t)"
  by (rule state_io_relI) (auto simp: set_times_def modify_def restamps_def)

lemma stamps_simple: "apart F [] \<Longrightarrow> stamps_in F (attempt a)" "apart F [] \<Longrightarrow> stamps_in F (simple_call a)"
  "apart F [] \<Longrightarrow> stamps_in F (stat_call p)" "apart F [] \<Longrightarrow> stamps_in F (set_errno e)"
  by (auto intro: stamps_within touches)

text \<open>The stamp of a path, and what happens to it.\<close>

definition stamp_path :: "string \<Rightarrow> cachedPath \<Rightarrow> string list" where
  "stamp_path rt cp = comps (rt @ tspath cp)"

lemma apart_At: "p \<noteq> [] \<Longrightarrow> apart {At p} []"
  by (simp add: apart_def)

lemma permits_At: "permits w vol {At (comps p)} p p"
  by (rule permits_inside) simp

lemma stamps_new_stamp: "p \<noteq> [] \<Longrightarrow> stamps_in {At p} (new_stamp p tv)"
  unfolding new_stamp_def
  by (intro stamp_flow stamps_If stamps_set_times stamps_simple apart_At) auto

lemma stamps_sutimes:
  assumes "comps path \<noteq> []"
  shows "stamps_in {At (comps path)} (sutimes vol path tv)"
proof (rule state_io_relI)
  fix s r s' assume run: "run_state (sutimes vol path tv) s = (r, s')"
  let ?F = "{At (comps path)}"
  obtain x s1 where op: "run_state (sopen vol path (Creating False kCacheFileMode)) s = (x, s1)" by fastforce
  have first: "restamps ?F s s1"
    by (rule state_io_relD [OF stamps_within [OF within_sopen [OF permits_At] apart_At [OF assms]] op])
  show "restamps ?F s s'"
  proof (cases x)
    case None
    with run op first show ?thesis by (simp add: sutimes_def run_need)
  next
    case (Some fd)
    with run op have "run_state (new_stamp (comps path) tv) s1 = (r, s')"
      using sopen_creating(1) [OF op [unfolded Some]] by (simp add: sutimes_def run_need)
    with stamps_new_stamp [OF assms] have "restamps ?F s1 s'" by (rule state_io_relD)
    with first show ?thesis by (rule restamping.trans)
  qed
qed

lemma stamps_sunlink:
  assumes "comps path \<noteq> []" shows "stamps_in {At (comps path)} (sunlink vol path)"
  by (rule stamps_within [OF within_sunlink [OF permits_At] apart_At [OF assms]])

lemma stamps_updateStamp:
  assumes "stamp_path rt cp \<noteq> []"
  shows "stamps_in {At (stamp_path rt cp)} (updateStamp rt cp vol command)"
  using assms unfolding updateStamp_def stamp_path_def
  by (intro stamp_flow stamps_If stamps_sunlink stamps_sutimes)

lemma stamps_markNotBRDefault:
  assumes "comps (taint_file mount subdir) \<noteq> []"
  shows "stamps_in {At (comps (taint_file mount subdir))} (markNotBRDefault scope mount subdir False)"
  using assms unfolding markNotBRDefault_def
  by (simp, intro conjI impI stamp_flow stamps_sunlink)


lemma restamps_mono: "restamps F s s' \<Longrightarrow> F \<subseteq> G \<Longrightarrow> restamps G s s'"
  unfolding restamps_def using agree_covers [OF covers_subset] by blast

lemma stamps_mono: "stamps_in F m \<Longrightarrow> F \<subseteq> G \<Longrightarrow> stamps_in G m"
  by (rule state_io_relI) (blast dest: state_io_relD intro: restamps_mono)

definition stamp_feet :: "string \<Rightarrow> cachedPath list \<Rightarrow> foot set" where
  "stamp_feet rt cps = At ` set (map (stamp_path rt) cps)"

lemma stamps_update_all:
  "[] \<notin> set (map (stamp_path rt) cps) \<Longrightarrow> stamps_in (stamp_feet rt cps) (update_all rt vol command cps)"
proof (induction cps)
  case Nil
  then show ?case by (simp add: restamping.io_return)
next
  case (Cons cp cps)
  have "stamps_in (stamp_feet rt (cp # cps)) (updateStamp rt cp vol command)"
    by (rule stamps_mono [OF stamps_updateStamp]) (use Cons.prems in \<open>auto simp: stamp_feet_def\<close>)
  moreover have "stamps_in (stamp_feet rt (cp # cps)) (update_all rt vol command cps)"
    by (rule stamps_mono [OF Cons.IH]) (use Cons.prems in \<open>auto simp: stamp_feet_def\<close>)
  ultimately show ?case by (auto intro!: stamp_flow)
qed

lemma stamps_finish:
  "comps (taint_file (root c) kTSCacheDir) \<noteq> [] \<Longrightarrow>
    stamps_in {At (comps (taint_file (root c) kTSCacheDir))} (finish_stamps c e)"
  unfolding finish_stamps_def
  by (intro stamp_flow stamps_If stamps_simple stamps_markNotBRDefault apart_At)

text \<open>Making the directories may touch anything but the top of the tree.\<close>

definition anywhere :: "foot set" where
  "anywhere = {At p | p. p \<noteq> []}"

lemma inside_anywhere: "p \<noteq> [] \<Longrightarrow> inside anywhere p"
  unfolding anywhere_def by (rule inside_At) blast

lemma permits_anywhere: "permits w vol anywhere p name"
  by (auto simp: permits_def names_parent_def inside_anywhere)

lemma within_anywhere:
  "within w M anywhere (sdeepmkdir vol path mode)" "within w M anywhere (sdeepunlink vol path)"
  by (auto intro!: within_sdeepmkdir within_sdeepunlink
      simp: permits_parents_def permits_below_def permits_anywhere)

lemma apart_anywhere: "apart anywhere []"
  by (auto simp: apart_def anywhere_def)

lemma stamps_anywhere:
  "stamps_in anywhere (sdeepmkdir vol path mode)" "stamps_in anywhere (sdeepunlink vol path)"
  "stamps_in anywhere (attempt a)" "stamps_in anywhere (stat_call p)" "stamps_in anywhere (set_errno e)"
  by (intro stamps_within within_anywhere touches apart_anywhere)+

lemma stamps_no_dirs: "stamps_in anywhere (no_dirs r)"
  unfolding no_dirs_def by (intro stamp_flow stamps_anywhere)

lemma stamps_parent_of_cache:
  "stamps_in anywhere k \<Longrightarrow> stamps_in anywhere (parent_of_cache c checkOnly path k)"
  unfolding parent_of_cache_def make_missing_def
  by (cases path) (auto intro!: stamp_flow stamps_anywhere stamps_no_dirs)

lemma stamps_ensureCacheDirs: "stamps_in anywhere (ensureCacheDirs c)"
  unfolding ensureCacheDirs_def make_stamp_dir_def
  by (intro stamp_flow stamps_If stamps_anywhere stamps_no_dirs stamps_parent_of_cache)

section \<open>What a stamp says\<close>

definition stamped :: "string \<Rightarrow> cachedPath \<Rightarrow> stamp_os \<Rightarrow> bool" where
  "stamped rt cp s \<longleftrightarrow> node_at (tree s) (stamp_path rt cp) \<noteq> None \<and>
     mtime (ftimes s (stamp_path rt cp)) = of_timeval (snd (tstamps cp)) \<and> fits [rt, tspath cp]"

lemma restamps_stamped:
  assumes "restamps F s s'" "dir_at (disk s) []" "\<not> touched F (stamp_path rt cp)" "stamped rt cp s"
  shows "stamped rt cp s'"
proof -
  have "At (stamp_path rt cp) \<notin> F" using assms(3) by (auto simp: touched_def)
  with assms show ?thesis by (auto simp: restamps_def stamped_def dest: agreeD)
qed

lemma updateStamp_0:
  assumes "run_state (updateStamp rt cp vol kBCStampsApplyTimes) s = (0, s')"
  shows "stamped rt cp s'"
proof -
  let ?p = "rt @ tspath cp"
  have fits: "fits [rt, tspath cp]" using assms by (auto simp: updateStamp_def split: if_splits)
  then obtain s1 where run: "run_state (sutimes vol ?p (tstamps cp)) s1 = (0, s')"
    using assms by (auto simp: updateStamp_def split: prod.splits)
  obtain x s2 where op: "run_state (sopen vol ?p (Creating False kCacheFileMode)) s1 = (x, s2)" by fastforce
  with run obtain fd where x: "x = Some fd" by (cases x) (auto simp: sutimes_def run_need)
  have new: "run_state (new_stamp (comps ?p) (tstamps cp)) s2 = (0, s')"
    using run op sopen_creating(1) [OF op [unfolded x]] by (simp add: sutimes_def run_need x)
  moreover obtain i m where "node_at (tree s2) (comps ?p) = Some (File i m [])"
    using sopen_creating(3) [OF op [unfolded x]] by blast
  ultimately show ?thesis
    using fits by (auto simp: stamped_def stamp_path_def new_stamp_def set_times_def attempt_def
        split: option.splits prod.splits if_splits)
qed

fun separate :: "string list list \<Rightarrow> bool" where
  "separate [] = True"
| "separate (p # ps) \<longleftrightarrow> p \<noteq> [] \<and> (\<forall>q \<in> set ps. \<not> prefix p q \<and> \<not> prefix q p) \<and> separate ps"

lemma separate_ne: "separate ps \<Longrightarrow> [] \<notin> set ps"
  by (induction ps) auto

text \<open>What each stamp is given, the others and the mark do not take away again.\<close>

definition lasting :: "world \<Rightarrow> string \<Rightarrow> int \<Rightarrow> (cachedPath \<Rightarrow> stamp_os \<Rightarrow> bool) \<Rightarrow> bool" where
  "lasting w rt command P \<longleftrightarrow>
     (\<forall>vol cp s s'. run_state (updateStamp rt cp vol command) s = (0, s') \<longrightarrow> world s = w \<longrightarrow> P cp s') \<and>
     (\<forall>F cp s s'. restamps F s s' \<longrightarrow> dir_at (disk s) [] \<longrightarrow> \<not> touched F (stamp_path rt cp) \<longrightarrow> P cp s \<longrightarrow> P cp s')"

lemma update_all_0:
  assumes "run_state (update_all rt vol command cps) s = (0, s')" "dir_at (disk s) []" "lasting (world s) rt command P"
    and "separate (map (stamp_path rt) cps)" "cp \<in> set cps"
  shows "P cp s'"
  using assms
proof (induction cps arbitrary: s)
  case (Cons p cps)
  obtain r s1 where one: "run_state (updateStamp rt p vol command) s = (r, s1)" by fastforce
  obtain r' s2 where rest: "run_state (update_all rt vol command cps) s1 = (r', s2)" by fastforce
  have res: "r = 0" "r' = 0" "s2 = s'" using Cons.prems(1) one rest by (auto simp: or_eq_0_iff)
  have "restamps {At (stamp_path rt p)} s s1"
    by (rule state_io_relD [OF stamps_updateStamp one]) (use Cons.prems(4) in simp)
  then have dir: "dir_at (disk s1) []" "world s1 = world s" using Cons.prems(2) by (simp_all add: restamps_def)
  show ?case
  proof (cases "cp \<in> set cps")
    case True
    with Cons.IH [of s1] rest res dir Cons.prems(3,4) show ?thesis by simp
  next
    case False
    then have cp: "cp = p" using Cons.prems(5) by simp
    have "restamps (stamp_feet rt cps) s1 s'"
      by (rule state_io_relD [OF stamps_update_all rest [unfolded res]])
        (use Cons.prems(4) separate_ne in fastforce)
    moreover have "\<not> touched (stamp_feet rt cps) (stamp_path rt cp)"
      using Cons.prems(4) by (auto simp: touched_def stamp_feet_def cp)
    moreover have "P cp s1" using Cons.prems(3) one by (simp add: lasting_def cp res)
    ultimately show ?thesis using Cons.prems(3) dir(1) unfolding lasting_def by blast
  qed
qed simp

lemma lasting_stamped: "lasting w rt kBCStampsApplyTimes (stamped rt)"
  unfolding lasting_def using updateStamp_0 restamps_stamped by blast

text \<open>The stamps of a struct, and the mark beside them, are places of their own.\<close>

definition separate_stamps :: "boot_struct \<Rightarrow> bool" where
  "separate_stamps c \<longleftrightarrow>
     separate (comps (taint_file (root c) kTSCacheDir) # map (stamp_path (root c)) (cached_paths c))"

lemma updateStamps_run:
  assumes "run_state (updateStamps c command) s = (0, s')" "\<not> mount_rdonly s" "is_dir (tree s)"
    and "command = kBCStampsApplyTimes \<or> command = kBCStampsUnlinkOnly"
  obtains s1 s2 where "dir_at (disk s1) []" "world s1 = world s"
    "run_state (update_all (root c) (cachefd c) command (cached_paths c)) s1 = (0, s2)"
    "run_state (finish_stamps c 0) s2 = (0, s')"
proof -
  let ?dirs = "if command = kBCStampsApplyTimes then ensureCacheDirs c else return 0"
  obtain ok s0 where st: "run_state (attempt StatfsCall) s = (ok, s0)" by fastforce
  obtain d s1 where dirs: "run_state ?dirs s0 = (d, s1)" by fastforce
  obtain r s2 where all: "run_state (update_all (root c) (cachefd c) command (cached_paths c)) s1 = (r, s2)"
    by fastforce
  have r0: "restamps anywhere s s0" by (rule state_io_relD [OF stamps_anywhere(3) st])
  have "\<not> mount_rdonly s0" using r0 assms(2) by (simp add: restamps_def)
  then have run: "d = 0" "run_state (finish_stamps c r) s2 = (0, s')"
    using assms(1,4) st dirs all
    by (auto simp: updateStamps_def run_check errno_defs split: if_splits)
  have "r = 0"
    using run(2) by (auto simp: finish_stamps_def or_eq_0_iff split: prod.splits)
  have r1: "restamps anywhere s0 s1"
    by (rule state_io_relD [OF stamps_If dirs]) (rule stamps_ensureCacheDirs restamping.io_return)+
  have "dir_at (disk s) []" using assms(3) by (simp add: dir_at_def)
  with r0 r1 have "dir_at (disk s1) []" "world s1 = world s" by (simp_all add: restamps_def)
  with all run(2) \<open>r = 0\<close> that show thesis by blast
qed

lemma after_finish:
  assumes "run_state (finish_stamps c 0) s = (0, s')" "separate_stamps c" "cp \<in> set (cached_paths c)"
  shows "restamps {At (comps (taint_file (root c) kTSCacheDir))} s s'"
    "\<not> touched {At (comps (taint_file (root c) kTSCacheDir))} (stamp_path (root c) cp)"
proof -
  have taint: "comps (taint_file (root c) kTSCacheDir) \<noteq> []"
    and apart: "\<not> prefix (comps (taint_file (root c) kTSCacheDir)) (stamp_path (root c) cp)"
      "\<not> prefix (stamp_path (root c) cp) (comps (taint_file (root c) kTSCacheDir))"
    using assms(2,3) by (auto simp: separate_stamps_def)
  show "restamps {At (comps (taint_file (root c) kTSCacheDir))} s s'"
    by (rule state_io_relD [OF stamps_finish [OF taint] assms(1)])
  show "\<not> touched {At (comps (taint_file (root c) kTSCacheDir))} (stamp_path (root c) cp)"
    using apart by (auto simp: touched_def)
qed

lemma updateStamps_lasting:
  assumes run: "run_state (updateStamps c command) s = (0, s')" "\<not> mount_rdonly s" "is_dir (tree s)"
    and cmd: "command = kBCStampsApplyTimes \<or> command = kBCStampsUnlinkOnly"
    and sep: "separate_stamps c" and cp: "cp \<in> set (cached_paths c)"
    and P: "lasting (world s) (root c) command P"
  shows "P cp s' \<and> world s' = world s"
proof -
  obtain s1 s2 where run: "dir_at (disk s1) []" "world s1 = world s"
    "run_state (update_all (root c) (cachefd c) command (cached_paths c)) s1 = (0, s2)"
    "run_state (finish_stamps c 0) s2 = (0, s')"
    using updateStamps_run [OF run cmd] by blast
  have separate: "separate (map (stamp_path (root c)) (cached_paths c))"
    using sep by (simp add: separate_stamps_def)
  have all: "restamps (stamp_feet (root c) (cached_paths c)) s1 s2"
    by (rule state_io_relD [OF stamps_update_all run(3)]) (rule separate_ne [OF separate])
  then have dir: "dir_at (disk s2) []" using run(1) by (simp add: restamps_def)
  note fin = after_finish [OF run(4) sep cp]
  have "P cp s2" by (rule update_all_0 [OF run(3,1) _ separate cp]) (simp add: run(2) P)
  with P fin dir have "P cp s'" unfolding lasting_def by blast
  with fin(1) all run(2) show ?thesis by (simp add: restamps_def)
qed

text \<open>The world stays the same, also when there is nothing to stamp.\<close>

lemma updateStamps_end:
  assumes run: "run_state (updateStamps c kBCStampsApplyTimes) s = (0, s')" "\<not> mount_rdonly s" "is_dir (tree s)"
    and sep: "separate_stamps c"
  obtains s2 where "run_state (finish_stamps c 0) s2 = (0, s')" "world s2 = world s" "world s' = world s"
proof -
  obtain s1 s2 where run: "world s1 = world s"
    "run_state (update_all (root c) (cachefd c) kBCStampsApplyTimes (cached_paths c)) s1 = (0, s2)"
    "run_state (finish_stamps c 0) s2 = (0, s')"
    using updateStamps_run [OF run] by blast
  have "[] \<notin> set (map (stamp_path (root c)) (cached_paths c))" "comps (taint_file (root c) kTSCacheDir) \<noteq> []"
    using sep separate_ne by (fastforce simp: separate_stamps_def)+
  from state_io_relD [OF stamps_update_all [OF this(1)] run(2)] state_io_relD [OF stamps_finish [OF this(2)] run(3)]
  have "world s2 = world s" "world s' = world s" using run(1) by (simp_all add: restamps_def)
  with run(3) that show thesis by blast
qed

section \<open>What a check finds\<close>

definition sure :: "world \<Rightarrow> bool" where
  "sure w \<longleftrightarrow> (\<forall>n. fails w StatCall n = None)"

definition times_at :: "stamp_os \<Rightarrow> string \<Rightarrow> file_times option" where
  "times_at s path = map_option (\<lambda>_. ftimes s (comps path)) (node_at (tree s) (comps path))"

text \<open>A path that is there, or that is missing in a directory.\<close>

definition knowable :: "stamp_os \<Rightarrow> string \<Rightarrow> bool" where
  "knowable s path \<longleftrightarrow> node_at (tree s) (comps path) \<noteq> None \<or> path_error (tree s) (comps path) = ENOENT"

lemma stat_times_sure:
  assumes "sure (world s)" "run_state (stat_times path) s = (t, s')"
  shows "t = times_at s path \<and> world s' = world s \<and> disk s' = disk s \<and> ftimes s' = ftimes s \<and>
    (t = None \<longrightarrow> errno s' = path_error (tree s) (comps path))"
  using assms
  by (auto simp: stat_times_def stat_call_def look_def missing_def attempt_def sure_def times_at_def
      split: option.splits prod.splits)

definition unchanged :: "stamp_os \<Rightarrow> stamp_os \<Rightarrow> bool" where
  "unchanged s s' \<longleftrightarrow> world s' = world s \<and> disk s' = disk s \<and> ftimes s' = ftimes s"

lemma unchanged_times:
  "unchanged s s' \<Longrightarrow> times_at s' = times_at s \<and> knowable s' = knowable s \<and> world s' = world s"
  by (auto simp: unchanged_def times_at_def knowable_def)

lemma unchanged_trans: "unchanged s s' \<Longrightarrow> unchanged s' s'' \<Longrightarrow> unchanged s s''"
  by (simp add: unchanged_def)

definition examinable :: "stamp_os \<Rightarrow> string \<Rightarrow> cachedPath \<Rightarrow> bool" where
  "examinable s rt cp \<longleftrightarrow> fits [rt, rpath cp] \<and> fits [rt, tspath cp] \<and>
     knowable s (rt @ rpath cp) \<and> knowable s (rt @ tspath cp)"

definition stale :: "stamp_os \<Rightarrow> string \<Rightarrow> cachedPath \<Rightarrow> bool" where
  "stale s rt cp \<longleftrightarrow> outofdate (times_at s (rt @ rpath cp)) (times_at s (rt @ tspath cp))"

definition recapture :: "stamp_os \<Rightarrow> string \<Rightarrow> cachedPath \<Rightarrow> cachedPath" where
  "recapture s rt cp = cp\<lparr>tstamps := captured (times_at s (rt @ rpath cp))\<rparr>"

lemma needsUpdate_sure:
  assumes sure: "sure (world s)" and ex: "examinable s rt cp"
  shows "\<exists>s'. run_state (needsUpdate rt cp) s = ((stale s rt cp, recapture s rt cp), s') \<and> unchanged s s'"
proof -
  obtain t1 s1 where one: "run_state (stat_times (rt @ rpath cp)) s = (t1, s1)" by fastforce
  note f1 = stat_times_sure [OF sure one]
  obtain t2 s2 where two: "run_state (stat_times (rt @ tspath cp)) s1 = (t2, s2)" by fastforce
  have "sure (world s1)" using f1 sure by simp
  note f2 = stat_times_sure [OF this two]
  have same: "times_at s1 (rt @ tspath cp) = times_at s (rt @ tspath cp)"
    using f1 by (simp add: times_at_def)
  have "\<not> (t1 = None \<and> errno s1 \<noteq> ENOENT)" "\<not> (t2 = None \<and> errno s2 \<noteq> ENOENT)"
    using f1 f2 ex same by (auto simp: examinable_def knowable_def times_at_def)
  then show ?thesis
    using one two f1 f2 same ex
    by (auto simp: needsUpdate_def examinable_def stale_def recapture_def unchanged_def)
qed

text \<open>The entries of a list without the one that is passed over.\<close>

fun but :: "nat option \<Rightarrow> nat \<Rightarrow> 'a list \<Rightarrow> 'a list" where
  "but skip i [] = []"
| "but skip i (x # xs) = (if skip = Some i then but skip (Suc i) xs else x # but skip (Suc i) xs)"

fun map_but :: "('a \<Rightarrow> 'a) \<Rightarrow> nat option \<Rightarrow> nat \<Rightarrow> 'a list \<Rightarrow> 'a list" where
  "map_but f skip i [] = []"
| "map_but f skip i (x # xs) = (if skip = Some i then x else f x) # map_but f skip (Suc i) xs"

lemma but_None [simp]: "but None i xs = xs" "map_but f None i xs = map f xs"
  by (induction xs arbitrary: i) auto

lemma but_map_but [simp]: "but skip i (map_but f skip i xs) = map f (but skip i xs)"
  by (induction xs arbitrary: i) auto

lemma length_map_but [simp]: "length (map_but f skip i xs) = length xs"
  by (induction xs arbitrary: i) auto

lemma set_but: "set (but skip i xs) \<subseteq> set xs"
  by (induction xs arbitrary: i) auto

lemma check_paths_sure:
  assumes "sure (world s)" "\<forall>cp \<in> set (but skip i cps). examinable s rt cp"
  shows "\<exists>s'. run_state (check_paths rt skip i cps) s =
    (((\<exists>cp \<in> set (but skip i cps). stale s rt cp), map_but (recapture s rt) skip i cps), s') \<and> unchanged s s'"
  using assms
proof (induction cps arbitrary: s i)
  case Nil
  then show ?case by (simp add: unchanged_def)
next
  case (Cons cp cps)
  show ?case
  proof (cases "skip = Some i")
    case True
    with Cons.IH [of s "Suc i"] Cons.prems show ?thesis by auto
  next
    case False
    with needsUpdate_sure [of s rt cp] Cons.prems obtain s1 where
      one: "run_state (needsUpdate rt cp) s = ((stale s rt cp, recapture s rt cp), s1)" "unchanged s s1" by auto
    note same = unchanged_times [OF one(2)]
    from Cons.IH [of s1 "Suc i"] Cons.prems same False obtain s2 where
      two: "run_state (check_paths rt skip (Suc i) cps) s1 =
        (((\<exists>cp \<in> set (but skip (Suc i) cps). stale s1 rt cp), map_but (recapture s1 rt) skip (Suc i) cps), s2)"
        "unchanged s1 s2"
      by (auto simp: examinable_def)
    have "stale s1 = stale s" "recapture s1 = recapture s"
      using same by (auto simp: stale_def recapture_def fun_eq_iff)
    with one two unchanged_trans [OF one(2) two(2)] False show ?thesis by simp
  qed
qed

lemma check_booter_sure:
  assumes "sure (world s)" "rpath cp \<noteq> [] \<longrightarrow> examinable s rt cp"
  shows "\<exists>s'. run_state (check_booter rt cp) s =
    ((rpath cp \<noteq> [] \<and> stale s rt cp, if rpath cp = [] then cp else recapture s rt cp), s') \<and> unchanged s s'"
  using needsUpdate_sure [OF assms(1), of rt cp] assms(2)
  by (cases "rpath cp = []") (auto simp: check_booter_def unchanged_def)

text \<open>The paths that a check with given options looks at: in early boot not the localizations. The mark of content
  that is not the default is looked for when the volume is to become bootable by default.\<close>

definition skipped :: "u32 \<Rightarrow> boot_struct \<Rightarrow> nat option" where
  "skipped opts c = (if opts AND kBRUEarlyBoot \<noteq> 0 then efiloccache c else None)"

definition considered :: "u32 \<Rightarrow> boot_struct \<Rightarrow> cachedPath list" where
  "considered opts c =
     but (skipped opts c) 0 (take (nrps c) (rpspaths c)) @ extraKernelCachePaths c @
     filter (\<lambda>p. rpath p \<noteq> []) [efibooter c, ofbooter c] @ take (nmisc c) (miscpaths c)"

lemma considered_cached: "set (considered opts c) \<subseteq> set (cached_paths c)"
  using set_but by (fastforce simp: considered_def cached_paths_def)

definition taint_path :: "boot_struct \<Rightarrow> string list" where
  "taint_path c = comps (taint_file (root c) kTSCacheDir)"

definition tainted :: "stamp_os \<Rightarrow> boot_struct \<Rightarrow> u32 \<Rightarrow> bool" where
  "tainted s c opts \<longleftrightarrow> opts AND kBRUCachesAnyRoot = 0 \<and> length (taint_file (root c) kTSCacheDir) < PATH_MAX \<and>
     node_at (tree s) (taint_path c) \<noteq> None"

lemma taint_sure:
  assumes "sure (world s)"
  shows "\<exists>s'. run_state (if opts AND kBRUCachesAnyRoot = 0 then notBRDefault (root c) kTSCacheDir else return False) s =
    (tainted s c opts, s') \<and> unchanged s s'"
  using assms by (auto simp: notBRDefault_def tainted_def taint_path_def unchanged_def stat_call_def look_def
      missing_def attempt_def sure_def split: option.splits)

lemma needUpdates_sure:
  assumes sure: "sure (world s)" and ex: "\<forall>cp \<in> set (considered opts c). examinable s (root c) cp"
  shows "\<exists>ood c' s'. run_state (needUpdates c opts) s = ((ood, c'), s') \<and>
    (anyOOD ood \<longleftrightarrow> tainted s c opts \<or> (\<exists>cp \<in> set (considered opts c). stale s (root c) cp)) \<and> unchanged s s' \<and>
    root c' = root c \<and> cachefd c' = cachefd c \<and> considered opts c' = map (recapture s (root c)) (considered opts c)"
proof -
  let ?rt = "root c" and ?skip = "skipped opts c"
  let ?rps = "take (nrps c) (rpspaths c)" and ?misc = "take (nmisc c) (miscpaths c)"
  have ex1: "\<forall>cp \<in> set (but ?skip 0 ?rps). examinable s ?rt cp" "\<forall>cp \<in> set (extraKernelCachePaths c). examinable s ?rt cp"
    "rpath (efibooter c) \<noteq> [] \<longrightarrow> examinable s ?rt (efibooter c)"
    "rpath (ofbooter c) \<noteq> [] \<longrightarrow> examinable s ?rt (ofbooter c)" "\<forall>cp \<in> set ?misc. examinable s ?rt cp"
    using ex by (auto simp: considered_def)
  have same: "sure (world t) \<and> examinable t = examinable s \<and> stale t = stale s \<and> recapture t = recapture s"
    if "unchanged s t" for t
    using unchanged_times [OF that] sure
    by (auto simp: stale_def recapture_def examinable_def fun_eq_iff)
  from taint_sure [OF sure] obtain s0 where
    zero: "run_state (if opts AND kBRUCachesAnyRoot = 0 then notBRDefault ?rt kTSCacheDir else return False) s =
      (tainted s c opts, s0)" "unchanged s s0" by blast
  note e0 = same [OF zero(2)]
  from check_paths_sure [of s0 ?skip 0 ?rps ?rt] e0 ex1(1) obtain s1 where
    one: "run_state (check_paths ?rt ?skip 0 ?rps) s0 =
      (((\<exists>cp \<in> set (but ?skip 0 ?rps). stale s ?rt cp), map_but (recapture s ?rt) ?skip 0 ?rps), s1)" "unchanged s0 s1"
    by auto
  have u1: "unchanged s s1" by (rule unchanged_trans [OF zero(2) one(2)])
  note e1 = same [OF u1]
  from check_paths_sure [of s1 None 0 "extraKernelCachePaths c" ?rt] e1 ex1(2) obtain s2 where
    two: "run_state (check_paths ?rt None 0 (extraKernelCachePaths c)) s1 =
      (((\<exists>cp \<in> set (extraKernelCachePaths c). stale s ?rt cp), map (recapture s ?rt) (extraKernelCachePaths c)), s2)"
      "unchanged s1 s2" by auto
  have u2: "unchanged s s2" by (rule unchanged_trans [OF u1 two(2)])
  note e2 = same [OF u2]
  from check_booter_sure [of s2 "efibooter c" ?rt] e2 ex1(3) obtain s3 where
    three: "run_state (check_booter ?rt (efibooter c)) s2 = ((rpath (efibooter c) \<noteq> [] \<and> stale s ?rt (efibooter c),
      if rpath (efibooter c) = [] then efibooter c else recapture s ?rt (efibooter c)), s3)" "unchanged s2 s3"
    by auto
  have u3: "unchanged s s3" by (rule unchanged_trans [OF u2 three(2)])
  note e3 = same [OF u3]
  from check_booter_sure [of s3 "ofbooter c" ?rt] e3 ex1(4) obtain s4 where
    four: "run_state (check_booter ?rt (ofbooter c)) s3 = ((rpath (ofbooter c) \<noteq> [] \<and> stale s ?rt (ofbooter c),
      if rpath (ofbooter c) = [] then ofbooter c else recapture s ?rt (ofbooter c)), s4)" "unchanged s3 s4"
    by auto
  have u4: "unchanged s s4" by (rule unchanged_trans [OF u3 four(2)])
  note e4 = same [OF u4]
  from check_paths_sure [of s4 None 0 ?misc ?rt] e4 ex1(5) obtain s5 where
    five: "run_state (check_paths ?rt None 0 ?misc) s4 =
      (((\<exists>cp \<in> set ?misc. stale s ?rt cp), map (recapture s ?rt) ?misc), s5)" "unchanged s4 s5" by auto
  have u5: "unchanged s s5" by (rule unchanged_trans [OF u4 five(2)])
  have names: "rpath (recapture s ?rt p) = rpath p" for p by (simp add: recapture_def)
  let ?c = "c\<lparr>rpspaths := map_but (recapture s ?rt) ?skip 0 ?rps @ drop (nrps c) (rpspaths c),
    extraKernelCachePaths := map (recapture s ?rt) (extraKernelCachePaths c),
    efibooter := if rpath (efibooter c) = [] then efibooter c else recapture s ?rt (efibooter c),
    ofbooter := if rpath (ofbooter c) = [] then ofbooter c else recapture s ?rt (ofbooter c),
    miscpaths := map (recapture s ?rt) ?misc @ drop (nmisc c) (miscpaths c)\<rparr>"
  have take: "take (n - min (length xs) n) (drop n xs) = []" for n and xs :: "cachedPath list"
    by (cases "n \<le> length xs") simp_all
  have paths: "considered opts ?c = map (recapture s ?rt) (considered opts c)"
    by (cases "rpath (efibooter c) = []"; cases "rpath (ofbooter c) = []")
      (simp_all add: considered_def skipped_def take names)
  obtain ood where run: "run_state (needUpdates c opts) s = ((ood, ?c), s5)"
    and any: "anyOOD ood \<longleftrightarrow> tainted s c opts \<or> (\<exists>cp \<in> set (considered opts c). stale s ?rt cp)"
  proof
    let ?any = "\<lambda>ps. \<exists>cp \<in> set ps. stale s ?rt cp" and ?t = "tainted s c opts"
    let ?e = "rpath (efibooter c) \<noteq> [] \<and> stale s ?rt (efibooter c)"
    let ?b = "rpath (ofbooter c) \<noteq> [] \<and> stale s ?rt (ofbooter c)"
    let ?r = "?any (but ?skip 0 ?rps)"
    let ?ood = "\<lparr>anyOOD = ?t \<or> ?r \<or> ?any (extraKernelCachePaths c) \<or> ?e \<or> ?b \<or> ?any ?misc,
      rpsOOD = ?t \<or> ?r \<or> ?any (extraKernelCachePaths c), bootersOOD = ?t \<or> ?e \<or> ?b,
      miscOOD = ?t \<or> ?any ?misc\<rparr>"
    show "run_state (needUpdates c opts) s = ((?ood, ?c), s5)"
      unfolding needUpdates_def skipped_def [symmetric] run_state_bind zero(1)
      by (simp add: one(1) two(1) three(1) four(1) five(1))
    show "anyOOD ?ood \<longleftrightarrow> ?t \<or> ?any (considered opts c)"
      by (auto simp: considered_def)
  qed
  from run any u5 paths show ?thesis
    by (intro exI conjI) (assumption | simp)+
qed

text \<open>Out of date means that what the source shows and what the stamp keeps are different.\<close>

definition shown :: "file_times option \<Rightarrow> timespec option" where
  "shown src = map_option source_time src"

definition kept_stamp :: "file_times option \<Rightarrow> timespec option" where
  "kept_stamp stamp = (case stamp of None \<Rightarrow> None | Some t \<Rightarrow> if fst (mtime t) = 0 then None else Some (mtime t))"

lemma outofdate_iff: "outofdate src stamp \<longleftrightarrow> shown src \<noteq> kept_stamp stamp"
  by (auto simp: outofdate_def shown_def kept_stamp_def split: option.splits)

lemma source_time_nonzero: "fst (source_time t) \<noteq> 0"
  by (simp add: source_time_def)

text \<open>A stamp is made of the captured times, and these are kept in microseconds.\<close>

lemma stamp_agrees:
  assumes "mtime t = of_timeval (snd (captured src))"
  shows "outofdate src (Some t) \<longleftrightarrow> (\<exists>u. src = Some u \<and> snd (ctime u) mod 1000 \<noteq> 0)"
proof (cases src)
  case None
  with assms show ?thesis by (simp add: outofdate_def captured_def of_timeval_def)
next
  case (Some u)
  have "snd (source_time u) div 1000 * 1000 = snd (source_time u) \<longleftrightarrow> snd (ctime u) mod 1000 = 0"
  proof -
    have same: "snd (source_time u) = snd (ctime u)" by (simp add: source_time_def)
    show ?thesis unfolding same using div_mult_mod_eq [of "snd (ctime u)" 1000] by linarith
  qed
  moreover have t: "mtime t = (fst (source_time u), snd (source_time u) div 1000 * 1000)"
    unfolding assms Some captured_def of_timeval_def to_timeval_def by (simp only: option.case fst_conv snd_conv)
  moreover have "outofdate src (Some t) \<longleftrightarrow> mtime t \<noteq> source_time u"
    using source_time_nonzero [of u] t by (simp add: outofdate_def Some)
  moreover have "mtime t = source_time u \<longleftrightarrow> snd (source_time u) div 1000 * 1000 = snd (source_time u)"
    unfolding t by (cases "source_time u") simp
  ultimately show ?thesis by (simp only: Some option.inject ex_simps simp_thms)
qed

section \<open>Removing the stamps\<close>

lemma sunlink_ENOENT:
  assumes run: "run_state (sunlink vol path) s = (- 1, s')" "errno s' = ENOENT" and w: "no_ENOENT (world s)"
    and fits: "length path < PATH_MAX"
  shows "node_at (tree s') (comps path) = None"
proof -
  obtain d s1 where par: "run_state (schdirparent vol path) s = (d, s1)" by fastforce
  note same = schdirparent_same [OF par]
  show ?thesis
  proof (cases d)
    case None
    then have s': "s' = s1" using run(1) par by (simp add: sunlink_def run_need)
    have "node_at (tree s) (comps (dirname path)) = None"
      using schdirparent_not_ENOENT [OF par w None fits] run(2) s' by blast
    then have "node_at (tree s) (comps (dirname path) @ comps (basename path)) = None"
      by (simp add: node_at_append)
    with same s' show ?thesis by (simp add: comps_dirname)
  next
    case (Some dir)
    have p: "dir @ comps (basename path) = comps path"
      using schdirparent_Some(1) [OF par [unfolded Some]] by (simp add: comps_dirname)
    have w1: "no_ENOENT (world s1)" using same w by simp
    have np: "\<not> names_parent path"
      using run par by (auto simp: sunlink_def run_need Some errno_defs)
    with run par have "run_state (unlink_at (comps path)) s1 = (- 1, s')"
      by (simp add: sunlink_def run_need Some p)
    then show ?thesis
      using run(2) by (auto simp: unlink_at_def look_def missing_def errno_defs split: prod.splits if_splits
          option.splits node.splits dest: attempt_not_ENOENT [OF _ w1])
  qed
qed

definition unstamped :: "string \<Rightarrow> cachedPath \<Rightarrow> stamp_os \<Rightarrow> bool" where
  "unstamped rt cp s \<longleftrightarrow> node_at (tree s) (stamp_path rt cp) = None \<and> fits [rt, tspath cp]"

lemma lasting_unstamped: "no_ENOENT w \<Longrightarrow> lasting w rt kBCStampsUnlinkOnly (unstamped rt)"
proof -
  assume w: "no_ENOENT w"
  have "unstamped rt cp s'"
    if run: "run_state (updateStamp rt cp vol kBCStampsUnlinkOnly) s = (0, s')" and ws: "world s = w" for vol cp s s'
  proof -
    have fits: "fits [rt, tspath cp]" using run by (auto simp: updateStamp_def split: if_splits)
    obtain r s1 where un: "run_state (sunlink vol (rt @ tspath cp)) s = (r, s1)" by fastforce
    with run fits have "s1 = s'" "r = 0 \<or> r = - 1 \<and> errno s1 = ENOENT"
      by (auto simp: updateStamp_def kBCStampsUnlinkOnly_def kBCStampsApplyTimes_def split: if_splits)
    with un show ?thesis
      using sunlink_0 sunlink_ENOENT [of vol "rt @ tspath cp" s s'] w ws fits
      by (auto simp: unstamped_def stamp_path_def fits_def)
  qed
  moreover have "unstamped rt cp s'" if "restamps F s s'" "dir_at (disk s) []" "\<not> touched F (stamp_path rt cp)"
    "unstamped rt cp s" for F cp s s'
    using that by (auto simp: restamps_def unstamped_def dest: agreeD)
  ultimately show ?thesis unfolding lasting_def by blast
qed

lemma path_error_parent:
  "node_at t p = Some d \<Longrightarrow> is_dir d \<Longrightarrow> node_at t (p @ [c]) = None \<Longrightarrow> path_error t (p @ [c]) = ENOENT"
proof (induction p arbitrary: t)
  case Nil
  then show ?case by (cases t) (auto split: option.splits)
next
  case (Cons a p)
  then show ?case by (cases t) (auto split: option.splits)
qed

lemma applied_stamps_settle:
  assumes "run_state (updateStamps c kBCStampsApplyTimes) s = (0, s')" "\<not> mount_rdonly s" "is_dir (tree s)"
    and "separate_stamps c" "cp \<in> set (cached_paths c)" "sure (world s)"
    and "fits [root c, rpath cp]" "knowable s' (root c @ rpath cp)"
    and "tstamps cp = captured (times_at s' (root c @ rpath cp))"
  shows "examinable s' (root c) cp \<and> (stale s' (root c) cp \<longleftrightarrow>
    (\<exists>t. times_at s' (root c @ rpath cp) = Some t \<and> snd (ctime t) mod 1000 \<noteq> 0))"
proof -
  have st: "stamped (root c) cp s'" "sure (world s')"
    using updateStamps_lasting [OF assms(1-3) _ assms(4,5) lasting_stamped] assms(6) by simp_all
  then have fits: "fits [root c, tspath cp]" and know: "knowable s' (root c @ tspath cp)"
    by (auto simp: stamped_def knowable_def stamp_path_def)
  obtain t where t: "times_at s' (root c @ tspath cp) = Some t"
      "mtime t = of_timeval (snd (captured (times_at s' (root c @ rpath cp))))"
    using st(1) assms(9) by (auto simp: stamped_def times_at_def stamp_path_def)
  show ?thesis
    using stamp_agrees [OF t(2)] fits know assms(7,8) by (simp add: t(1) stale_def examinable_def)
qed

text \<open>The mark is gone, when no call fails and it lies on the volume: \<open>finish_stamps\<close> removes it last.\<close>

lemma sunlink_gone:
  assumes run: "run_state (sunlink vol path) s = (r, s')" and w: "untroubled (world s)"
    and adm: "allowed (world s) vol (comps (dirname path))" "length path < PATH_MAX" "\<not> names_parent path"
  shows "\<forall>n. node_at (tree s') (comps path) = Some n \<longrightarrow> is_dir n"
proof -
  obtain d s1 where par: "run_state (schdirparent vol path) s = (d, s1)" by fastforce
  note same = schdirparent_same [OF par]
  show ?thesis
  proof (cases d)
    case None
    have "\<forall>n. node_at (tree s) (comps (dirname path)) = Some n \<longrightarrow> \<not> is_dir n"
      using par w adm(1,2)
      by (auto simp: None schdirparent_def run_need run_check build_path_def open_at_def missing_def spolicy_def
          simple_call_def attempt_def untroubled_def split: option.splits if_splits)
    then have "node_at (tree s) (comps path) = None"
      using adm(3) node_at_parent_dir unfolding names_parent_def by (metis comps_dirname not_None_eq)
    with None run par same show ?thesis by (simp add: sunlink_def run_need)
  next
    case (Some dir)
    have p: "dir @ comps (basename path) = comps path"
      using schdirparent_Some(1) [OF par [unfolded Some]] by (simp add: comps_dirname)
    with run par adm(3) have "run_state (unlink_at (comps path)) s1 = (r, s')"
      by (simp add: sunlink_def run_need Some)
    then show ?thesis using w same names_parent_comps [OF adm(3)]
      by (auto simp: unlink_at_def look_def missing_def attempt_def untroubled_def put_at_removes
          split: option.splits node.splits)
  qed
qed

lemma taint_removed:
  assumes fin: "run_state (finish_stamps c 0) s = (0, s')" and w: "untroubled (world s)"
    and adm: "allowed (world s) (cachefd c) (butlast (taint_path c))"
    and no_dir: "\<forall>n. node_at (tree s') (taint_path c) = Some n \<longrightarrow> \<not> is_dir n"
  shows "node_at (tree s') (taint_path c) = None"
proof -
  let ?f = "taint_file (root c) kTSCacheDir"
  obtain r t where mark: "run_state (markNotBRDefault (cachefd c) (root c) kTSCacheDir False) t = (r, s')"
    "r = 0" "world t = world s"
    using fin by (auto simp: finish_stamps_def or_eq_0_iff stat_call_def look_def missing_def simple_call_def
        dest!: attempt_cases split: prod.splits if_splits option.splits)
  then obtain r' where run: "run_state (sunlink (cachefd c) ?f) t = (r', s')" and len: "length ?f < PATH_MAX"
    by (auto simp: markNotBRDefault_def ELAST_def split: if_splits prod.splits)
  have parts: "comps (dirname ?f) = butlast (taint_path c)" "\<not> names_parent ?f"
  proof -
    have split: "?f = (root c @ ''/'' @ kTSCacheDir) @ CHR ''/'' # kBRTaintFile" by (simp add: taint_file_def)
    have word: "comps kBRTaintFile = [kBRTaintFile]" by (rule comps_word) simp_all
    show np: "\<not> names_parent ?f"
      unfolding names_parent_def split basename_below(1) [OF word] by (simp add: word)
    show "comps (dirname ?f) = butlast (taint_path c)"
      unfolding taint_path_def by (rule comps_dirname_butlast [OF np])
  qed
  have "untroubled (world t)" "allowed (world t) (cachefd c) (comps (dirname ?f))"
    using w adm mark(3) parts by simp_all
  from sunlink_gone [OF run this len parts(2)] no_dir show ?thesis
    by (auto simp: taint_path_def)
qed

section \<open>The kext cache\<close>

lemma latest_folder_sure:
  assumes "sure (world s)" "fits [rt]" "\<forall>f \<in> set fs. fits (below_root rt f)"
  shows "\<exists>v' s'. run_state (latest_folder rt fs v) s = (Some v', s') \<and> v \<le> v' \<and>
    world s' = world s \<and> disk s' = disk s \<and> ftimes s' = ftimes s \<and>
    (\<forall>f \<in> set fs. \<forall>t. times_at s (concat (below_root rt f)) = Some t \<longrightarrow> fst (mtime t) < v')"
  using assms
proof (induction fs arbitrary: s v)
  case (Cons f fs)
  obtain t s1 where one: "run_state (stat_times (concat (below_root rt f))) s = (t, s1)" by fastforce
  note f1 = stat_times_sure [OF Cons.prems(1) one]
  let ?v = "case t of None \<Rightarrow> v | Some t \<Rightarrow> if fst (mtime t) + 1 > v then fst (mtime t) + 1 else v"
  from Cons.IH [of s1 ?v] f1 Cons.prems obtain v' s' where
    rest: "run_state (latest_folder rt fs ?v) s1 = (Some v', s')" "?v \<le> v'" "world s' = world s" "disk s' = disk s"
      "ftimes s' = ftimes s"
      "\<forall>f \<in> set fs. \<forall>t. times_at s1 (concat (below_root rt f)) = Some t \<longrightarrow> fst (mtime t) < v'"
    by auto
  have "times_at s1 = times_at s" using f1 by (intro ext) (simp add: times_at_def)
  moreover have "v \<le> ?v" "\<forall>u. t = Some u \<longrightarrow> fst (mtime u) < ?v" by (auto split: option.splits)
  ultimately show ?case
    using one rest f1 Cons.prems(2,3) by (auto simp del: concat.simps split: option.splits if_splits)
qed simp


lemma kernel_time_sure:
  assumes "sure (world s)" "kern = [] \<or> fits [rt] \<and> fits (below_root rt kern) \<and>
    times_at s (concat (below_root rt kern)) \<noteq> None"
  shows "\<exists>v' s'. run_state (kernel_time rt kern v) s = (Some v', s') \<and> v \<le> v' \<and>
    world s' = world s \<and> disk s' = disk s \<and> ftimes s' = ftimes s \<and>
    (kern \<noteq> [] \<longrightarrow> (\<forall>t. times_at s (concat (below_root rt kern)) = Some t \<longrightarrow> fst (mtime t) \<le> v'))"
proof (cases "kern = []")
  case False
  obtain t s1 where one: "run_state (stat_times (concat (below_root rt kern))) s = (t, s1)" by fastforce
  note f1 = stat_times_sure [OF assms(1) one]
  with assms(2) False obtain u where u: "t = Some u" "times_at s (concat (below_root rt kern)) = Some u" by auto
  have "run_state (kernel_time rt kern v) s = (Some (if fst (mtime u) > v then fst (mtime u) + 1 else v), s1)"
    using one assms(2) False by (simp add: kernel_time_def u(1))
  with f1 u(2) show ?thesis by auto
qed (simp add: kernel_time_def)

section \<open>The stamps that are made\<close>

lemma comps_stamp_name:
  assumes "CHR ''/'' \<notin> set uuid" "uuid \<noteq> []" "uuid \<noteq> ''.''" "path \<noteq> []" "path \<noteq> ''.''"
  shows "comps (rt @ stamp_name uuid path) =
    comps (rt @ kTSCacheDir) @ [uuid, gsub (CHR ''/'') (CHR '':'') path]"
proof -
  let ?n = "gsub (CHR ''/'') (CHR '':'') path"
  have "CHR ''/'' \<notin> set ?n" "?n \<noteq> []" by (auto simp: gsub_def assms(4))
  moreover have "?n \<noteq> ''.''"
    using assms(5) by (auto simp: gsub_def map_eq_Cons_conv split: if_splits)
  ultimately have n: "comps ?n = [?n]" by (rule comps_word)
  have "rt @ stamp_name uuid path = (rt @ kTSCacheDir) @ CHR ''/'' # (uuid @ CHR ''/'' # ?n)"
    by (simp only: stamp_name_def append_assoc append_Cons append_Nil)
  then have "comps (rt @ stamp_name uuid path) = comps (rt @ kTSCacheDir) @ comps uuid @ comps ?n"
    by (simp only: comps_append)
  then show ?thesis using n comps_word [OF assms(1-3)] by simp
qed

lemma separate_same_length:
  "distinct ps \<Longrightarrow> \<forall>p \<in> set ps. length p = n \<Longrightarrow> n \<noteq> 0 \<Longrightarrow> separate ps"
proof (induction ps)
  case (Cons p ps)
  have same: "prefix p q \<Longrightarrow> length p = length q \<Longrightarrow> p = q" for p q :: "string list" by (auto simp: prefix_def)
  have "p \<noteq> q \<and> length p = length q" if "q \<in> set ps" for q using Cons.prems(1,2) that by auto
  then have "\<forall>q \<in> set ps. \<not> prefix p q \<and> \<not> prefix q p" using same by metis
  moreover have "p \<noteq> []" using Cons.prems(2,3) by auto
  ultimately show ?case using Cons.IH Cons.prems by simp
qed simp

lemma made_stamps_separate:
  assumes uuid: "CHR ''/'' \<notin> set (fsys_uuid c)" "fsys_uuid c \<notin> {[], ''.'', kBRTaintFile}"
    and made: "\<forall>cp \<in> set (cached_paths c). tspath cp = stamp_name (fsys_uuid c) (rpath cp) \<and>
      rpath cp \<notin> {[], ''.''} \<and> CHR '':'' \<notin> set (rpath cp)"
    and paths: "distinct (map rpath (cached_paths c))"
  shows "separate_stamps c"
proof -
  let ?d = "comps (root c @ kTSCacheDir)"
  have u: "fsys_uuid c \<noteq> []" "fsys_uuid c \<noteq> ''.''" "fsys_uuid c \<noteq> kBRTaintFile" using uuid(2) by blast+
  have at: "stamp_path (root c) cp = ?d @ [fsys_uuid c, gsub (CHR ''/'') (CHR '':'') (rpath cp)]"
    if "cp \<in> set (cached_paths c)" for cp
    unfolding stamp_path_def using made that comps_stamp_name [OF uuid(1) u(1,2)] by fastforce
  have "inj_on (\<lambda>cp. gsub (CHR ''/'') (CHR '':'') (rpath cp)) (set (cached_paths c))"
  proof (rule inj_onI)
    fix p q assume pq: "p \<in> set (cached_paths c)" "q \<in> set (cached_paths c)"
      "gsub (CHR ''/'') (CHR '':'') (rpath p) = gsub (CHR ''/'') (CHR '':'') (rpath q)"
    then have "rpath p = rpath q"
      using made stamp_name_inj [of "rpath p" "rpath q" "fsys_uuid c"] unfolding stamp_name_def by metis
    with paths pq(1,2) show "p = q" by (metis distinct_map inj_onD)
  qed
  then have "inj_on (stamp_path (root c)) (set (cached_paths c))"
    by (auto simp: inj_on_def at)
  moreover have "distinct (cached_paths c)" using paths by (simp add: distinct_map)
  ultimately have "distinct (map (stamp_path (root c)) (cached_paths c))" by (simp add: distinct_map)
  then have "separate (map (stamp_path (root c)) (cached_paths c))"
    by (rule separate_same_length [where n = "length ?d + 2"]) (auto simp: at)
  moreover have "comps (taint_file (root c) kTSCacheDir) = ?d @ [kBRTaintFile]"
  proof -
    have split: "taint_file (root c) kTSCacheDir = root c @ CHR ''/'' # (kTSCacheDir @ CHR ''/'' # kBRTaintFile)"
      by (simp only: taint_file_def append_assoc append_Cons append_Nil)
    have "comps (root c @ CHR ''/'' # kTSCacheDir) = ?d"
      using comps_append [of "root c" kTSCacheDir] comps_append [of "root c" "tl kTSCacheDir"] by simp
    moreover have "comps kBRTaintFile = [kBRTaintFile]" by (rule comps_word) simp_all
    ultimately show ?thesis
      unfolding split by (simp only: comps_append append_assoc [symmetric])
  qed
  ultimately show ?thesis
    using u(3) by (auto simp: separate_stamps_def at)
qed

section \<open>An example\<close>

text \<open>A volume at \<open>/v\<close> with one file to be cached, whose stamp has not been written yet.\<close>

definition stamp_tree :: node where
  "stamp_tree = Dir 1 0x1ED [(''v'', Dir 2 0x1ED [(''k'', File 3 0x1A4 [7]), (''E'', Dir 9 0x1ED []),
     (''System'', Dir 4 0x1ED [(''Library'', Dir 5 0x1ED [(''Caches'', Dir 6 0x1ED
       [(''com.apple.bootstamps'', Dir 7 0x1ED [(kBRTaintFile, File 10 0x1A4 []), (''U'', Dir 8 0x1ED [])])])])])])]"

definition stamp_start :: "timespec \<Rightarrow> stamp_os" where
  "stamp_start changed = \<lparr>world = calm, disk = (stamp_tree, 0, 0), history = [], errno = 0, calls = 0,
     next_ino = 20,
     ftimes = (\<lambda>p. if p = [''v'', ''k''] then \<lparr>atime = (5, 0), mtime = (6, 0), ctime = changed\<rparr>
       else \<lparr>atime = (5, 0), mtime = (5, 0), ctime = (5, 0)\<rparr>),
     now = (9, 0), mount_rdonly = False, ignore_ownership = False\<rparr>"

definition stamp_of_k :: "timespec \<Rightarrow> cachedPath" where
  "stamp_of_k changed = \<lparr>rpath = ''/k'', tspath = stamp_name ''U'' ''/k'',
     tstamps = (to_timeval (5, 0), to_timeval changed)\<rparr>"

definition stamp_struct :: "timespec \<Rightarrow> boot_struct" where
  "stamp_struct changed = fresh_struct\<lparr>cachefd := 2, nrps := 1, rpspaths := [stamp_of_k changed],
     watchedExts := [''/E''], nWatchedExts := 1\<rparr>"

lemmas stamp_sample = stamp_tree_def stamp_start_def stamp_of_k_def stamp_struct_def fresh_struct_def zeroed_def
  calm_def stamp_name_def gsub_def

lemmas stamp_steps = updateStamps_def ensureCacheDirs_def make_stamp_dir_def make_missing_def no_dirs_def
  parent_of_cache_def finish_stamps_def updateStamp_def sutimes_def new_stamp_def set_times_def update_all.simps
  markNotBRDefault_def notBRDefault_def stat_times_def check_kext_boot_cache_file_def kernel_time_def has_time_def latest_folder.simps
  needUpdates_def check_paths.simps check_booter_def needsUpdate_def

declare check_paths.simps [simp del] run_gets [simp del] update_all.simps [simp del] latest_folder.simps [simp del]

lemmas run_stamps = run_calls call_data stamp_steps [THEN arg_cong [where f = run_state]] stamp_sample
  run_gets [of mount_rdonly] run_gets [of ignore_ownership] modify_def stamp_dir_def taint_file_def fits_def
  cached_paths_def kBCStampsUnlinkOnly_def kBCStampsApplyTimes_def of_timeval_def to_timeval_def kCacheFileMode_def
  below_root_def kBRUCachesAnyRoot_def kBRUEarlyBoot_def outofdate_def captured_def source_time_def

lemma cached_sample: "cached_paths (stamp_struct t) = [stamp_of_k t]"
  by (simp add: cached_paths_def stamp_struct_def fresh_struct_def zeroed_def)

lemma considered_sample: "considered 0 (stamp_struct t) = [stamp_of_k t]"
  by (simp add: considered_def skipped_def stamp_struct_def fresh_struct_def zeroed_def)

lemma separate_sample: "separate_stamps (stamp_struct t)"
proof (rule made_stamps_separate)
  show "CHR ''/'' \<notin> set (fsys_uuid (stamp_struct t))" "fsys_uuid (stamp_struct t) \<notin> {[], ''.'', kBRTaintFile}"
    by (simp_all add: stamp_struct_def fresh_struct_def)
qed (simp_all add: cached_sample, simp_all add: stamp_of_k_def stamp_struct_def fresh_struct_def)

lemma stamps_applied:
  "fst (run_state (updateStamps (stamp_struct t) kBCStampsApplyTimes) (stamp_start t)) = 0 \<and>
   times_at (snd (run_state (updateStamps (stamp_struct t) kBCStampsApplyTimes) (stamp_start t))) ''/v/k'' =
     Some \<lparr>atime = (5, 0), mtime = (6, 0), ctime = t\<rparr> \<and>
   dir_at (disk (snd (run_state (updateStamps (stamp_struct t) kBCStampsApplyTimes) (stamp_start t))))
     (butlast (stamp_path ''/v'' (stamp_of_k t)))"
  by (simp add: run_stamps times_at_def dir_at_def stamp_path_def)

lemma taint_sample:
  "tainted (stamp_start t) (stamp_struct t) 0" "untroubled (world (stamp_start t))"
  "allowed (world (stamp_start t)) (cachefd (stamp_struct t)) (butlast (taint_path (stamp_struct t)))"
  "node_at (tree (snd (run_state (updateStamps (stamp_struct t) kBCStampsApplyTimes) (stamp_start t))))
     (taint_path (stamp_struct t)) = None"
proof -
  have "root (stamp_struct t) = ''/v''" "cachefd (stamp_struct t) = 2" by (simp_all add: stamp_struct_def fresh_struct_def)
  then show "tainted (stamp_start t) (stamp_struct t) 0" "untroubled (world (stamp_start t))"
    "allowed (world (stamp_start t)) (cachefd (stamp_struct t)) (butlast (taint_path (stamp_struct t)))"
    by (simp_all add: tainted_def taint_path_def taint_file_def untroubled_def allowed_def comps_def PATH_MAX_def
        stamp_start_def stamp_tree_def calm_def)
  show "node_at (tree (snd (run_state (updateStamps (stamp_struct t) kBCStampsApplyTimes) (stamp_start t))))
     (taint_path (stamp_struct t)) = None"
    by (simp add: run_stamps taint_path_def)
qed

lemma stamps_unlinked:
  "fst (run_state (updateStamps (stamp_struct t) kBCStampsUnlinkOnly) (stamp_start t)) = 0 \<and>
   times_at (snd (run_state (updateStamps (stamp_struct t) kBCStampsUnlinkOnly) (stamp_start t))) ''/v/k'' =
     Some \<lparr>atime = (5, 0), mtime = (6, 0), ctime = t\<rparr> \<and>
   dir_at (disk (snd (run_state (updateStamps (stamp_struct t) kBCStampsUnlinkOnly) (stamp_start t))))
     (butlast (stamp_path ''/v'' (stamp_of_k t)))"
  by (simp add: run_stamps times_at_def dir_at_def stamp_path_def)

section \<open>Properties\<close>

text \<open>C13. After \<open>updateStamps\<close> has written with success the stamps that \<open>needUpdates\<close> captured, \<open>needUpdates\<close> with the
  same options finds the volume up to date while the sources it looks at stay the same, with two exceptions: the
  change time of a source has a fraction below a microsecond (stamps are written in microseconds and compared in
  nanoseconds), or, when the volume is to become bootable by default, the mark of other content is there. That
  mark is gone, unless a call failed, or it lies outside of the volume, or is a directory. The volume is not
  read-only, \<open>stat\<close> works and the stamps have places of their own.\<close>

theorem updated_volume_settles:
  assumes "run_state (needUpdates c opts) s0 = ((ood, c'), s1)" "sure (world s0)"
    and "\<forall>cp \<in> set (considered opts c). examinable s0 (root c) cp"
    and "run_state (updateStamps c' kBCStampsApplyTimes) s = (0, s')" "\<not> mount_rdonly s" "is_dir (tree s)"
    and "sure (world s)" "separate_stamps c'"
    and "\<forall>cp \<in> set (considered opts c). times_at s' (root c @ rpath cp) = times_at s0 (root c @ rpath cp) \<and>
      knowable s' (root c @ rpath cp)"
  shows "(anyOOD (fst (fst (run_state (needUpdates c' opts) s'))) \<longleftrightarrow> tainted s' c opts \<or>
      (\<exists>cp \<in> set (considered opts c). \<exists>t. times_at s0 (root c @ rpath cp) = Some t \<and> snd (ctime t) mod 1000 \<noteq> 0)) \<and>
    (tainted s' c opts \<longrightarrow> \<not> untroubled (world s) \<or> \<not> allowed (world s) (cachefd c) (butlast (taint_path c)) \<or>
      (\<exists>n. node_at (tree s') (taint_path c) = Some n \<and> is_dir n))"
proof (intro conjI)
  have c': "root c' = root c" "cachefd c' = cachefd c"
      "considered opts c' = map (recapture s0 (root c)) (considered opts c)"
    using needUpdates_sure [OF assms(2,3)] assms(1) by auto
  obtain s2 where fin: "run_state (finish_stamps c' 0) s2 = (0, s')" "world s2 = world s" "world s' = world s"
    using updateStamps_end [OF assms(4-6,8)] .
  have taint: "taint_path c' = taint_path c" "tainted s' c' opts = tainted s' c opts"
    by (simp_all add: taint_path_def tainted_def c')
  have path: "examinable s' (root c') (recapture s0 (root c) cp) \<and> (stale s' (root c') (recapture s0 (root c) cp) \<longleftrightarrow>
      (\<exists>t. times_at s0 (root c @ rpath cp) = Some t \<and> snd (ctime t) mod 1000 \<noteq> 0))"
    if cp: "cp \<in> set (considered opts c)" for cp
  proof -
    have "recapture s0 (root c) cp \<in> set (cached_paths c')"
      using cp c'(3) considered_cached [of opts c'] by auto
    from applied_stamps_settle [OF assms(4-6,8) this] show ?thesis
      using assms(3,7,9) cp by (simp add: c' recapture_def examinable_def)
  qed
  have "sure (world s')" using fin(3) assms(7) by simp
  moreover have "\<forall>cp \<in> set (considered opts c'). examinable s' (root c') cp" using path by (simp add: c')
  ultimately have "anyOOD (fst (fst (run_state (needUpdates c' opts) s'))) \<longleftrightarrow>
      tainted s' c' opts \<or> (\<exists>cp \<in> set (considered opts c'). stale s' (root c') cp)"
    using needUpdates_sure [of s' opts c'] by fastforce
  then show "anyOOD (fst (fst (run_state (needUpdates c' opts) s'))) \<longleftrightarrow> tainted s' c opts \<or>
      (\<exists>cp \<in> set (considered opts c). \<exists>t. times_at s0 (root c @ rpath cp) = Some t \<and> snd (ctime t) mod 1000 \<noteq> 0)"
    using path by (simp add: c'(3) taint)
  show "tainted s' c opts \<longrightarrow> \<not> untroubled (world s) \<or> \<not> allowed (world s) (cachefd c) (butlast (taint_path c)) \<or>
      (\<exists>n. node_at (tree s') (taint_path c) = Some n \<and> is_dir n)"
    using taint_removed [OF fin(1)] fin(2) by (auto simp: c' taint tainted_def) blast
qed

text \<open>A default update (no options) of a volume that was marked.\<close>

theorem updated_volume_settles_witness:
  "let s' = snd (run_state (updateStamps (stamp_struct (7, 0)) kBCStampsApplyTimes) (stamp_start (7, 0))) in
   tainted (stamp_start (7, 0)) (stamp_struct (7, 0)) 0 \<and>
   \<not> anyOOD (fst (fst (run_state (needUpdates (stamp_struct (7, 0)) 0) s')))"
proof -
  let ?c = "stamp_struct (7, 0)" and ?s = "stamp_start (7, 0)"
  let ?run = "run_state (updateStamps ?c kBCStampsApplyTimes) ?s"
  note run = stamps_applied [of "(7, 0)", THEN conjunct1] stamps_applied [of "(7, 0)", THEN conjunct2, THEN conjunct1]
  have run0: "?run = (0, snd ?run)" using run(1) by (simp add: prod_eq_iff)
  have first: "run_state (needUpdates ?c 0) ?s = ((\<lparr>anyOOD = True, rpsOOD = True, bootersOOD = True, miscOOD = True\<rparr>, ?c),
      snd (run_state (needUpdates ?c 0) ?s))"
    by (simp add: run_stamps prod_eq_iff)
  have "(anyOOD (fst (fst (run_state (needUpdates ?c 0) (snd ?run)))) \<longleftrightarrow> tainted (snd ?run) ?c 0 \<or>
      (\<exists>cp \<in> set (considered 0 ?c). \<exists>t. times_at ?s (root ?c @ rpath cp) = Some t \<and> snd (ctime t) mod 1000 \<noteq> 0)) \<and>
    (tainted (snd ?run) ?c 0 \<longrightarrow> \<not> untroubled (world ?s) \<or> \<not> allowed (world ?s) (cachefd ?c) (butlast (taint_path ?c)) \<or>
      (\<exists>n. node_at (tree (snd ?run)) (taint_path ?c) = Some n \<and> is_dir n))"
    by (rule updated_volume_settles [OF first _ _ run0])
      (use run(2) in \<open>simp_all add: considered_sample separate_sample\<close>,
       use run(2) in \<open>auto simp: stamp_sample sure_def examinable_def fits_def PATH_MAX_def knowable_def times_at_def
         comps_def errno_defs\<close>)
  moreover have "\<nexists>n. node_at (tree (snd ?run)) (taint_path ?c) = Some n" by (simp only: taint_sample) simp
  moreover have "\<not> (\<exists>cp \<in> set (considered 0 ?c). \<exists>t. times_at ?s (root ?c @ rpath cp) = Some t \<and> snd (ctime t) mod 1000 \<noteq> 0)"
    by (simp add: considered_sample) (simp add: stamp_sample times_at_def comps_def)
  ultimately show ?thesis unfolding Let_def using taint_sample(1-3) by blast
qed

text \<open>C16. After \<open>updateStamps\<close> has removed the stamps with success every path that has a source needs an update: an
  update of the helpers that is cut short after that point is started again. Failing calls do not report missing
  files.\<close>

theorem unlinked_stamps_force_update:
  assumes "run_state (updateStamps c kBCStampsUnlinkOnly) s = (0, s')" "\<not> mount_rdonly s" "is_dir (tree s)"
    and "separate_stamps c" "cp \<in> set (cached_paths c)" "sure (world s)" "no_ENOENT (world s)"
    and "fits [root c, rpath cp]" "times_at s' (root c @ rpath cp) \<noteq> None"
    and "dir_at (disk s') (butlast (stamp_path (root c) cp))"
  shows "fst (fst (run_state (needsUpdate (root c) cp) s'))"
proof -
  have un: "unstamped (root c) cp s'" "sure (world s')"
    using updateStamps_lasting [OF assms(1-3) _ assms(4,5) lasting_unstamped] assms(6,7) by simp_all
  have "stamp_path (root c) cp \<noteq> []"
    using assms(4,5) separate_ne by (fastforce simp: separate_stamps_def)
  then have "butlast (stamp_path (root c) cp) @ [last (stamp_path (root c) cp)] = stamp_path (root c) cp" by simp
  with un(1) assms(10) path_error_parent have "path_error (tree s') (stamp_path (root c) cp) = ENOENT"
    unfolding dir_at_def unstamped_def by metis
  with un(1) have know: "knowable s' (root c @ tspath cp)" "times_at s' (root c @ tspath cp) = None"
      "fits [root c, tspath cp]"
    by (simp_all add: knowable_def unstamped_def stamp_path_def times_at_def)
  have "knowable s' (root c @ rpath cp)" using assms(9) by (auto simp: knowable_def times_at_def)
  with know assms(8) have "examinable s' (root c) cp" by (simp add: examinable_def)
  from needsUpdate_sure [OF un(2) this] assms(9) show ?thesis
    by (auto simp: stale_def know(2) outofdate_def)
qed

theorem unlinked_stamps_force_update_witness:
  "fst (fst (run_state (needsUpdate ''/v'' (stamp_of_k (7, 0)))
     (snd (run_state (updateStamps (stamp_struct (7, 0)) kBCStampsUnlinkOnly) (stamp_start (7, 0))))))"
proof -
  let ?run = "run_state (updateStamps (stamp_struct (7, 0)) kBCStampsUnlinkOnly) (stamp_start (7, 0))"
  note run = stamps_unlinked [of "(7, 0)", THEN conjunct1] stamps_unlinked [of "(7, 0)", THEN conjunct2, THEN conjunct1]
    stamps_unlinked [of "(7, 0)", THEN conjunct2, THEN conjunct2]
  have "?run = (0, snd ?run)" using run(1) by (simp add: prod_eq_iff)
  then have "fst (fst (run_state (needsUpdate (root (stamp_struct (7, 0))) (stamp_of_k (7, 0))) (snd ?run)))"
    by (rule unlinked_stamps_force_update)
      (use run in \<open>simp_all add: cached_sample separate_sample\<close>,
       use run(2,3) in \<open>auto simp: stamp_sample sure_def no_ENOENT_def fits_def PATH_MAX_def\<close>)
  then show ?thesis by (simp add: stamp_struct_def fresh_struct_def)
qed

text \<open>C38. When \<open>check_kext_boot_cache_file\<close> finds no reason to rebuild the kext cache, the cache is there, newer than every
  extensions folder, and not older than the kernel (the same second is possible). The paths fit and the kernel exists.\<close>

theorem kept_kext_cache_newer:
  assumes "\<not> fst (run_state (check_kext_boot_cache_file c (Some cache) kern imk) s)" "sure (world s)"
    and "fits [root c]" "\<forall>f \<in> set (watchedExts c). fits (below_root (root c) f)"
    and "kern = [] \<or> fits (below_root (root c) kern) \<and> times_at s (concat (below_root (root c) kern)) \<noteq> None"
  shows "\<exists>t. times_at s (concat (below_root (root c) cache)) = Some t \<and>
    (\<forall>f \<in> set (watchedExts c). \<forall>u. times_at s (concat (below_root (root c) f)) = Some u \<longrightarrow>
      fst (mtime u) < fst (mtime t)) \<and>
    (kern \<noteq> [] \<longrightarrow> (\<forall>u. times_at s (concat (below_root (root c) kern)) = Some u \<longrightarrow>
      fst (mtime u) \<le> fst (mtime t)))"
proof -
  from latest_folder_sure [OF assms(2-4), of 0] obtain v1 s1 where
    one: "run_state (latest_folder (root c) (watchedExts c) 0) s = (Some v1, s1)" "world s1 = world s"
      "disk s1 = disk s" "ftimes s1 = ftimes s"
      "\<forall>f \<in> set (watchedExts c). \<forall>u. times_at s (concat (below_root (root c) f)) = Some u \<longrightarrow> fst (mtime u) < v1"
    by blast
  have same: "times_at s1 = times_at s" using one by (intro ext) (simp add: times_at_def)
  from kernel_time_sure [of s1 kern "root c" v1] assms(2,3,5) one(2) same obtain v2 s2 where
    two: "run_state (kernel_time (root c) kern v1) s1 = (Some v2, s2)" "v1 \<le> v2" "world s2 = world s"
      "disk s2 = disk s" "ftimes s2 = ftimes s"
      "kern \<noteq> [] \<longrightarrow> (\<forall>u. times_at s (concat (below_root (root c) kern)) = Some u \<longrightarrow> fst (mtime u) \<le> v2)"
    using one(3,4) by auto
  obtain b s3 where three: "run_state (has_time (root c) cache v2) s2 = (b, s3)" by fastforce
  with assms(1) one(1) two(1) have b: "b"
    by (auto simp: check_kext_boot_cache_file_def run_need split: if_splits)
  have same2: "times_at s2 = times_at s" using two by (intro ext) (simp add: times_at_def)
  obtain u s4 where stat: "run_state (stat_times (concat (below_root (root c) cache))) s2 = (u, s4)" by fastforce
  have "sure (world s2)" using two(3) assms(2) by simp
  from stat_times_sure [OF this stat] three b stat obtain t where
    "times_at s (concat (below_root (root c) cache)) = Some t" "fst (mtime t) = v2"
    by (auto simp: has_time_def same2 simp del: concat.simps split: if_splits option.splits)
  then show ?thesis using one(5) two(2,6) by fastforce
qed


theorem kept_kext_cache_newer_witness:
  "\<exists>t. times_at (stamp_start (7, 0)) ''/v/k'' = Some t \<and>
     (\<forall>u. times_at (stamp_start (7, 0)) ''/v/E'' = Some u \<longrightarrow> fst (mtime u) < fst (mtime t))"
proof -
  have "\<not> fst (run_state (check_kext_boot_cache_file (stamp_struct (7, 0)) (Some ''/k'') [] None) (stamp_start (7, 0)))"
    by (simp add: run_stamps)
  then show ?thesis
    by (auto dest!: kept_kext_cache_newer simp: stamp_sample sure_def fits_def PATH_MAX_def below_root_def strip_right_def)
qed

text \<open>The kernel and the cache may have the same time.\<close>

lemma kernel_of_the_same_second:
  "\<not> fst (run_state (check_kext_boot_cache_file (stamp_struct (7, 0)) (Some ''/k'') ''/k'' None) (stamp_start (7, 0)))"
  by (simp add: run_stamps)

end
