(* ===== verification/Spec2Isabelle.thy ===== *)
theory Spec2Isabelle
  imports Compression MkextRound HexBytes ToolsUtil ToolsOptions AllowList QEQueryBool KextdProps KextloadLock BootProps BootStampsProps
begin

text \<open>
  kext_tools is the user-space side of kernel extensions on macOS: the daemon \<open>kextd\<close>, the tools
  that build and unpack kext archives, search for kexts and maintain the caches that a Mac boots from.
  This library models parts of it as functions over explicit states and proves what their callers
  rely on. Names of definitions are those of the C sources; a name that clashes with one of HOL
  has a suffix.

  Theories and the sources they translate.

  -- Prelude, CFModel, FileIO: machine integers, byte strings and C strings; Core Foundation
    dictionaries, arrays and property lists as values, where a call on an object of the wrong class is
    the result \<open>Crash\<close>; the loops that repeat \<open>read\<close> and \<open>write\<close> until a transfer is complete.
  -- Compression, Lzss, LzssTree, LzssInsert, LzssStream, LzssRound (src/compression.c): the Adler-32
    checksum with its 32-bit accumulators, which is shown to compute the checksum over the naturals; the
    LZSS decoder, which never writes beyond its destination; the encoder with its 256 search
    trees threaded through three index arrays, whose invariant is kept by inserting and deleting;
    decompression undoes compression for every text that was compressed.
  -- Mkext1, Mkextunpack, MkextProps, MkextRound (src/mkext1_file.c, src/mkextunpack_main.c): the writer
    and the reader of kext archives. The archive is a byte string that grows in place, headers are
    read back at the offsets of the record \<open>mkext_abi\<close>. The reader gets back from a written archive
    exactly the property lists and executables put in.
  -- HexBytes, ToolsUtil, ToolsOptions, AllowList (src/kext_tools_util.c): hex texts, path checks, file
    times, the alert list, log filters, questions to the user, the list of allowed kexts and the
    kernel path of the boot caches.
  -- QEQuery, QEQueryTree, QEQueryStack, QEQueryRefine, QEQueryBool (src/QEQuery.c and the argument loop
    of src/kextfind_main.c): the query engine of kextfind. Elements are mutable dictionaries in a store,
    open groups are on a stack and at the same time arguments of the groups around them. The
    operations refine operations on a list of open groups, and what a well-formed command line builds
    evaluates as the Boolean expression it spells.
  -- Systems, KextdState, KextdWatch, KextdLocks, KextdInv, KextdVolumes, KextdHandoff, KextdEvents,
    KextdProps (src/kextd_watchvol.c): the volume watcher of kextd. The records \<open>watchedVol\<close> and
    \<open>kextd\<close> are \<open>struct watchedVol\<close> (addressed by numbers, with the flag of a freed one kept) and the
    file's static variables; each callback, timer and lock service is a function of the state; the
    inductive relation \<open>kextd_step\<close> lets them come in any order. The locale \<open>event_system\<close> is the
    contract of a program that reacts to events, and the watcher and the kextload lock are interpreted
    as such systems. The invariant \<open>inv_kextd\<close> (tables, locks, waiting clients and replies) holds in
    every reachable state.
  -- KextloadLock (src/kextd_serialize_kextload.c, src/kextd_request.c): the lock under which root clients
    load kexts themselves, and the loop over the requests of the kernel that it puts off.
  -- FileTree, Errno, SafeCalls, SafeFrame, SafeConfined, SafeProps, SafeShort (src/safecalls.c): file systems as
    trees, and system calls confined to the volume of a descriptor, as programs in the state monad over the
    record \<open>os\<close>. Its \<open>world\<close> says by the number of the call which calls fail and how much a transfer
    moves, and which device is mounted where; \<open>history\<close> has every disk that was left behind. The locale
    \<open>io_relation\<close> carries relations between states across programs. Its interpretation \<open>moves\<close> says what a
    program can touch at any moment; its interpretation \<open>keeps\<close> shows that the calls of \<open>safe_call\<close>
    spare every node on a device that the policy does not admit. The results: a copy that succeeds is
    complete, an erased file holds none of its bytes; a copy that is cut short fails without an error
    number.
  -- BootUpdate, BootFrame, BootRPS, BootCrash, BootProps (src/update_boot.c, and from src/bootcaches.c the
    functions it calls): the update of a helper partition. \<open>struct updatingVol\<close> is split into \<open>target\<close>,
    which an update leaves alone, and \<open>update\<close>, which extends \<open>os\<close>. BootFrame shows what each step
    can touch, BootRPS which of the three directories the booter takes, BootCrash carries a triple
    \<open>safe\<close> (what holds before and after, and on every disk in between) through all steps: at
    whatever moment the machine stops, the booter finds the files it had or the complete new directory.
    BootProps shows two cases in which the code does not keep its promise, in general and on an example.
  -- BootCaches, BootCachesProps (src/bootcaches.c): from the dictionary of bootcaches.plist to
    \<open>struct bootCaches\<close>, where a write outside of an array is an outcome of its own. Counting slots and
    keys through all parts shows when the array of paths is overrun, that pointers of an accepted struct stay
    inside it, and by how many paths the older formats of kernel caches miss what is counted for them.
  -- BootTaint, BootStamps, BootStampsProps, SafeEval (src/bootcaches.c): the stamps by which an update is found to
    be due. \<open>stamp_os\<close> extends \<open>os\<close> with the times of files. Another interpretation of \<open>io_relation\<close> shows
    that no stamp disturbs another one; so a volume is up to date after the stamps were written, its mark of other content
    is gone, and it is out of date after they were removed. The age of the kext cache is compared here, too.

  Loops and fuel. Loops over lists and numbers are structural or have a measure. The LZSS encoder's
  tree walks carry fuel, which LzssTree shows to be never used up; \<open>decompress_lzss\<close> recurs on the
  bytes left. \<open>check_rebuild\<close> of kextd calls itself through \<open>check_boots_set_nvram\<close>; its two
  levels of fuel are enough because the nested call finds the boot partitions already recorded
  (\<open>check_rebuild_ends\<close>). Making a directory recurs over its parents, which end at the root, and a
  recursive copy over paths, which are shorter than \<open>PATH_MAX\<close> (\<open>safe_recursions_end\<close>). Loops that can really run for ever (the read loop of
  \<open>createCFDataFromFD\<close>) return an option and are shown to return under the conditions stated.

  Parameters. What is not in the repository is an argument of the definitions that use it: the layout
  of mkext headers, zlib, property list parsing, the answers of the file system and of Disk
  Arbitration (the record \<open>env\<close>), the requests of the kernel (\<open>kernel_env\<close>). \<open>env_ok\<close>
  says that memory handed out by an allocation is not in use, \<open>possible\<close> which events can come in a
  state: a timer fires for a volume while it is pending for it, a port dies while it is tracked, and a client asks
  for a lock with a port that is not tracked already and a reply port that was not used before. So what
  follows a second request of a client whose port is still tracked (it holds a lock or waits for one),
  or a request with a used reply port, is left out.

  Not modelled, and why.

  -- In src/update_boot.c: mounting and unmounting helpers through Disk Arbitration, setting up and
    releasing the context of a command, the writing of labels (left out of the open source build). In
    src/bootcaches.c: opening and checking the plist file, CoreStorage, the caches of the EFI login screen and
    launching kextcache. Times change only where the modelled code sets them. A file system has neither
    links nor owners; volumes stay where they are mounted while a tool runs, so a directory with a volume
    mounted below it cannot be renamed (\<open>EBUSY\<close>); a crash keeps the order of the changes, which the code enforces with
    \<open>F_FULLFSYNC\<close> only before the booters are blessed and after the switch.

  -- The command line drivers (src/kextutil_main.c, kextload_main.c, kextunload_main.c, kextstat_main.c,
    kextlibs_main.c, kclist_main.c, kcgen_main.c, kctool_main.c, kextcache_main.c): option parsing
    around calls into IOKit's kext library, which is not in the repository.
  -- src/security.c, staging.m, syspolicy.m, kextaudit.c and driverkit.m: calls into the Security
    framework, the system policy database and the auditing driver.
  -- src/kextd_main.c, kextd_personalities.c, kextd_usernotification.c, kextd_mig_server.c: set-up of the
    run loop, personalities sent to IOKit and alerts shown to the user.
  -- Logging, memory exhaustion inside Core Foundation, and the retain counts of its objects, except
    where a property is about them.
\<close>

end
